(* ===== verification/Prelude.thy ===== *)
theory Prelude
  imports Main "HOL-Library.Word" "HOL-Library.List_Lexorder"
begin

text \<open>
  The vocabulary every component shares: machine integers at their width, byte strings,
  Rust's \<open>Result\<close> as a sum type, slices with their bounds check, little-endian integers,
  and the two interfaces the wire formats of the repository implement:
  \<^item> \<open>prefix_codec\<close>: an encoder whose output a decoder recognises in front of any bytes;
  \<^item> \<open>stream_framer\<close>: a decoder of a growing buffer, which answers "a whole frame",
    "more bytes are needed" or "these bytes are wrong", and whose answer is final.
  The lemmas of the two locales are proved once here; each component interprets the locale
  on its own functions.
\<close>

unbundle bit_operations_syntax

section \<open>Types\<close>

type_synonym u8 = "8 word"
type_synonym u16 = "16 word"
type_synonym u32 = "32 word"
type_synonym u64 = "64 word"

text \<open>
  Signed integers are words read with \<open>sint\<close>; a double is the word of its IEEE 754 bits
  (\<open>f64::to_bits\<close>), since the code only moves doubles, classifies them and prints them.
\<close>

type_synonym i8 = "8 word"
type_synonym i16 = "16 word"
type_synonym i32 = "32 word"
type_synonym i64 = "64 word"
type_synonym i128 = "128 word"
type_synonym f64 = "64 word"
type_synonym bytes = "u8 list"

text \<open>Rust's \<open>Result<T, E>\<close> is \<open>'e + 'a\<close>: \<open>Inl\<close> is \<open>Err\<close>, \<open>Inr\<close> is \<open>Ok\<close>.\<close>

type_synonym ('e, 'a) res = "'e + 'a"

named_theorems codec_simps \<open>round-trip and length facts of the encoders\<close>
named_theorems step_simps \<open>one-step equations of the loops\<close>

section \<open>Results, options and slices\<close>

definition ok_or :: "'a option \<Rightarrow> 'e \<Rightarrow> 'e + 'a" where
  "ok_or x e = (case x of None \<Rightarrow> Inl e | Some a \<Rightarrow> Inr a)"

lemma ok_or_simps [simp]: "ok_or None e = Inl e" "ok_or (Some a) e = Inr a"
  by (simp_all add: ok_or_def)

text \<open>The \<open>?\<close> operator: an error returns at once, a value is passed on.\<close>

definition and_then :: "'e + 'a \<Rightarrow> ('a \<Rightarrow> 'e + 'b) \<Rightarrow> 'e + 'b" where
  "and_then r f = (case r of Inl e \<Rightarrow> Inl e | Inr x \<Rightarrow> f x)"

lemma and_then_simps [simp]: "and_then (Inl e) f = Inl e" "and_then (Inr x) f = f x"
  by (simp_all add: and_then_def)

lemma and_then_Inr: "and_then r f = Inr y \<longleftrightarrow> (\<exists>x. r = Inr x \<and> f x = Inr y)"
  by (cases r) simp_all

lemma and_then_Inl: "and_then r f = Inl e \<longleftrightarrow> r = Inl e \<or> (\<exists>x. r = Inr x \<and> f x = Inl e)"
  by (cases r) simp_all

lemma and_then_cong [fundef_cong]:
  "r = s \<Longrightarrow> (\<And>x. s = Inr x \<Longrightarrow> f x = g x) \<Longrightarrow> and_then r f = and_then s g"
  by (cases s) simp_all

text \<open>
  A \<open>for\<close> loop whose body ends in \<open>?\<close>, and \<open>collect::<Result<Vec<_>, _>>\<close>: both stop at the
  first error.
\<close>

fun for_each :: "('a \<Rightarrow> 'e + unit) \<Rightarrow> 'a list \<Rightarrow> 'e + unit" where
  "for_each f [] = Inr ()"
| "for_each f (x # xs) = and_then (f x) (\<lambda>_. for_each f xs)"

fun collect :: "('a \<Rightarrow> 'e + 'b) \<Rightarrow> 'a list \<Rightarrow> 'e + 'b list" where
  "collect f [] = Inr []"
| "collect f (x # xs) = and_then (f x) (\<lambda>y. and_then (collect f xs) (\<lambda>ys. Inr (y # ys)))"

lemma for_each_Inr: "for_each f xs = Inr u \<longleftrightarrow> (\<forall>x \<in> set xs. f x = Inr ())"
  by (induction xs) (auto simp: and_then_Inr)

lemma for_each_cong [fundef_cong]:
  "xs = ys \<Longrightarrow> (\<And>x. x \<in> set ys \<Longrightarrow> f x = g x) \<Longrightarrow> for_each f xs = for_each g ys"
  by (induction xs arbitrary: ys) auto

lemma collect_cong [fundef_cong]:
  "xs = ys \<Longrightarrow> (\<And>x. x \<in> set ys \<Longrightarrow> f x = g x) \<Longrightarrow> collect f xs = collect g ys"
  by (induction xs arbitrary: ys) auto

lemma collect_map: "(\<And>x. x \<in> set xs \<Longrightarrow> f (g x) = Inr x) \<Longrightarrow> collect f (map g xs) = Inr xs"
  by (induction xs) auto

lemma collect_all_Inr: "(\<And>x. x \<in> set xs \<Longrightarrow> f x = Inr (g x)) \<Longrightarrow> collect f xs = Inr (map g xs)"
  by (induction xs) auto

text \<open>The first value of a key is the last one too when no key is repeated.\<close>

lemma map_of_rev_distinct: "distinct (map fst xs) \<Longrightarrow> map_of (rev xs) = map_of xs"
proof (induction xs)
  case (Cons kv xs)
  then have "map_of xs (fst kv) = None" by (simp add: map_of_eq_None_iff)
  then show ?case using Cons by (cases kv) (auto simp: map_add_def fun_eq_iff split: option.split)
qed simp

lemma collect_Inr: "collect f xs = Inr ys \<Longrightarrow> list_all2 (\<lambda>x y. f x = Inr y) xs ys"
  by (induction xs arbitrary: ys) (auto simp: and_then_Inr)

text \<open>\<open>slice.get(a..b)\<close>: the elements from \<open>a\<close> up to \<open>b\<close>, if both are in range.\<close>

definition slice_get :: "'a list \<Rightarrow> nat \<Rightarrow> nat \<Rightarrow> 'a list option" where
  "slice_get xs a b = (if a \<le> b \<and> b \<le> length xs then Some (take (b - a) (drop a xs)) else None)"

lemma slice_get_append [simp]:
  "slice_get (pre @ ys @ rest) (length pre) (length pre + length ys) = Some ys"
  by (simp add: slice_get_def)

lemma slice_get_Some_append:
  "slice_get xs a b = Some ys \<Longrightarrow> slice_get (xs @ zs) a b = Some ys"
  by (auto simp: slice_get_def split: if_splits)

lemma slice_get_length: "slice_get xs a b = Some ys \<Longrightarrow> length ys = b - a \<and> a \<le> b \<and> b \<le> length xs"
  by (auto simp: slice_get_def split: if_splits)

lemma drop_eq_ConsD: "drop n xs = y # ys \<Longrightarrow> n < length xs \<and> xs ! n = y \<and> drop (Suc n) xs = ys"
  by (metis drop_all drop_Suc list.discI list.sel(3) not_le nth_via_drop tl_drop)

lemma drop_append_eq: "drop n xs = ys @ zs \<Longrightarrow> drop (n + length ys) xs = zs"
  by (metis add.commute append_eq_conv_conj drop_drop)

section \<open>Byte literals\<close>

definition ascii :: "string \<Rightarrow> bytes" where
  "ascii s = map of_char s"

lemma length_ascii [simp]: "length (ascii s) = length s"
  by (simp add: ascii_def)

lemma ascii_eq_iff: "ascii s = ascii t \<longleftrightarrow> s = t"
proof
  have char: "c = d" if "(of_char c :: u8) = of_char d" for c d
  proof -
    have "unat (of_nat (of_char c) :: u8) = unat (of_nat (of_char d) :: u8)"
      using that by (simp add: of_nat_of_char)
    then have "(of_char c :: nat) = of_char d"
      by (simp add: unat_of_nat take_bit_eq_mod)
    then show ?thesis by simp
  qed
  assume "ascii s = ascii t"
  then show "s = t" unfolding ascii_def
    by (rule list.inj_map_strong [rotated]) (use char in auto)
qed simp

definition is_digit :: "u8 \<Rightarrow> bool" where
  "is_digit b = (0x30 \<le> b \<and> b \<le> 0x39)"

definition is_alpha :: "u8 \<Rightarrow> bool" where
  "is_alpha b = (0x41 \<le> b \<and> b \<le> 0x5A \<or> 0x61 \<le> b \<and> b \<le> 0x7A)"

definition is_alnum :: "u8 \<Rightarrow> bool" where
  "is_alnum b = (is_alpha b \<or> is_digit b)"

text \<open>\<open>u8::is_ascii_whitespace\<close>: space, tab, line feed, form feed, carriage return.\<close>

definition is_space :: "u8 \<Rightarrow> bool" where
  "is_space b = (b = 0x20 \<or> b = 0x09 \<or> b = 0x0A \<or> b = 0x0C \<or> b = 0x0D)"

section \<open>Little-endian integers\<close>

text \<open>
  \<open>to_le_bytes\<close> and \<open>from_le_bytes\<close> at a width of \<open>n\<close> bytes, through the natural number
  a word denotes.
\<close>

primrec le_nat :: "nat \<Rightarrow> nat \<Rightarrow> bytes" where
  "le_nat 0 x = []"
| "le_nat (Suc n) x = of_nat (x mod 256) # le_nat n (x div 256)"

primrec nat_of_le :: "bytes \<Rightarrow> nat" where
  "nat_of_le [] = 0"
| "nat_of_le (b # bs) = unat b + 256 * nat_of_le bs"

definition to_le :: "'a::len word \<Rightarrow> bytes" where
  "to_le w = le_nat (LENGTH('a) div 8) (unat w)"

definition from_le :: "bytes \<Rightarrow> 'a::len word" where
  "from_le bs = of_nat (nat_of_le bs)"

lemma length_le_nat [simp]: "length (le_nat n x) = n"
  by (induction n arbitrary: x) simp_all

lemma unat_of_nat_u8 [simp]: "unat (of_nat (x mod 256) :: u8) = x mod 256"
  by (simp add: unat_of_nat)

lemma nat_of_le_le_nat: "nat_of_le (le_nat n x) = x mod 256 ^ n"
proof (induction n arbitrary: x)
  case (Suc n)
  have "x mod 256 + 256 * (x div 256 mod 256 ^ n) = x mod 256 ^ Suc n"
    by (simp add: mod_mult2_eq)
  with Suc show ?case by simp
qed simp

lemma nat_of_le_bound: "nat_of_le bs < 256 ^ length bs"
proof (induction bs)
  case (Cons b bs)
  have "unat b < 256" using unsigned_less [of b] by simp
  with Cons show ?case by simp
qed simp

lemma le_nat_nat_of_le: "le_nat (length bs) (nat_of_le bs) = bs"
proof (induction bs)
  case (Cons b bs)
  have b: "unat b < 256" using unsigned_less [of b] by simp
  then have "(unat b + 256 * nat_of_le bs) mod 256 = unat b"
    and "(unat b + 256 * nat_of_le bs) div 256 = nat_of_le bs" by simp_all
  with Cons show ?case by simp
qed simp

lemma nat_of_le_append: "nat_of_le (xs @ ys) = nat_of_le xs + 256 ^ length xs * nat_of_le ys"
  by (induction xs) (simp_all add: algebra_simps)

lemma length_to_le [simp]: "length (to_le (w :: 'a::len word)) = LENGTH('a) div 8"
  by (simp add: to_le_def)

lemma pow256: "(256::nat) ^ n = 2 ^ (8 * n)"
  by (simp add: power_mult)

lemma from_le_to_le: "8 dvd LENGTH('a) \<Longrightarrow> from_le (to_le w) = (w :: 'a::len word)"
  by (simp add: from_le_def to_le_def nat_of_le_le_nat pow256)

lemma from_le_to_le_words [simp, codec_simps]:
  "from_le (to_le a) = (a :: u8)" "from_le (to_le b) = (b :: u16)" "from_le (to_le c) = (c :: u32)"
  "from_le (to_le d) = (d :: u64)" "from_le (to_le e) = (e :: i128)"
  by (simp_all add: from_le_to_le)

lemma to_le_from_le: "length bs * 8 = LENGTH('a) \<Longrightarrow> to_le (from_le bs :: 'a::len word) = bs"
proof -
  assume len: "length bs * 8 = LENGTH('a)"
  then have div: "LENGTH('a) div 8 = length bs" and b: "256 ^ length bs = (2::nat) ^ LENGTH('a)"
    by (simp_all add: pow256 mult.commute flip: len)
  have "unat (of_nat (nat_of_le bs) :: 'a word) = nat_of_le bs"
    using nat_of_le_bound [of bs] b by (simp add: unat_of_nat take_bit_nat_eq_self)
  then show ?thesis by (simp add: to_le_def from_le_def div le_nat_nat_of_le)
qed

end
