(* ===== verification/Rpc_Crc64.thy ===== *)
theory Rpc_Crc64
  imports Prelude
begin

text \<open>
  \<open>crates/ytsaurus-rpc/src/crc64.rs\<close>: the checksum of every bus packet. The code keeps a
  byte-swapped register and a byte-swapped 256-entry table so that its loop can shift right;
  the specification \<open>crc_spec\<close> is the textbook most-significant-bit-first long division by
  the polynomial. The main results: the two agree on every input, the checksum may be
  computed piecewise, and corrupting any eight consecutive bytes of a message changes it.
\<close>

section \<open>The code\<close>

definition POLYNOMIAL :: u64 where
  "POLYNOMIAL = 0xe543279765927881"

text \<open>\<open>u64::swap_bytes\<close>.\<close>

definition swap_bytes :: "u64 \<Rightarrow> u64" where
  "swap_bytes w = from_le (rev (to_le w))"

definition table_bit :: "u64 \<Rightarrow> u64" where
  "table_bit register =
     (if register AND push_bit 63 1 \<noteq> 0 then push_bit 1 register XOR POLYNOMIAL
      else push_bit 1 register)"

definition table_entry :: "nat \<Rightarrow> u64" where
  "table_entry index = swap_bytes ((table_bit ^^ 8) (push_bit 56 (of_nat index)))"

definition TABLE :: "u64 list" where
  "TABLE = map table_entry [0..<256]"

record crc64 =
  register :: u64

definition crc64_new :: crc64 where
  "crc64_new = \<lparr>register = 0\<rparr>"

definition update_byte :: "u64 \<Rightarrow> u8 \<Rightarrow> u64" where
  "update_byte reg b = TABLE ! unat ((reg XOR ucast b) AND 0xff) XOR drop_bit 8 reg"

definition crc64_update :: "crc64 \<Rightarrow> bytes \<Rightarrow> crc64" where
  "crc64_update c bs = c\<lparr>register := foldl update_byte (register c) bs\<rparr>"

definition crc64_chain :: "crc64 \<Rightarrow> bytes \<Rightarrow> crc64" where
  "crc64_chain c bs = crc64_update c bs"

definition crc64_finish :: "crc64 \<Rightarrow> u64" where
  "crc64_finish c = swap_bytes (register c)"

definition checksum :: "bytes \<Rightarrow> u64" where
  "checksum bs = crc64_finish (crc64_chain crc64_new bs)"

section \<open>The specification: long division, most significant bit first\<close>

definition crc_byte :: "u64 \<Rightarrow> u8 \<Rightarrow> u64" where
  "crc_byte reg b = (table_bit ^^ 8) (reg XOR push_bit 56 (ucast b))"

definition crc_spec :: "bytes \<Rightarrow> u64" where
  "crc_spec bs = foldl crc_byte 0 bs"

section \<open>Byte swapping, bit by bit\<close>

lemma bit_nat_of_le: "bit (nat_of_le bs) n \<longleftrightarrow> n div 8 < length bs \<and> bit (bs ! (n div 8)) (n mod 8)"
proof (induction bs arbitrary: n)
  case (Cons b bs)
  have disj: "unat b AND push_bit 8 (nat_of_le bs) = 0"
    by (rule bit_eqI) (auto simp: bit_simps dest: bit_imp_le_length)
  have "nat_of_le (b # bs) = unat b OR push_bit 8 (nat_of_le bs)"
    using disjunctive_add_eq_or [OF disj] by (simp add: push_bit_eq_mult)
  then have split: "bit (nat_of_le (b # bs)) n = (bit b n \<or> 8 \<le> n \<and> bit (nat_of_le bs) (n - 8))"
    by (simp only:) (simp add: bit_simps)
  show ?case
  proof (cases "n < 8")
    case True
    then show ?thesis using split by simp
  next
    case False
    then obtain m where m: "n = 8 + m" using le_Suc_ex not_less by blast
    have "\<not> bit b n" using False by (auto dest: bit_imp_le_length)
    moreover have "(8 + m) div 8 = Suc (m div 8)" by simp
    ultimately show ?thesis using split Cons.IH [of m] by (simp add: m)
  qed
qed simp

lemma bit_from_le:
  "bit (from_le bs :: 'a::len word) n \<longleftrightarrow>
   n < LENGTH('a) \<and> n div 8 < length bs \<and> bit (bs ! (n div 8)) (n mod 8)"
  by (simp add: from_le_def bit_of_nat_iff bit_nat_of_le)

lemma nth_le_nat: "i < n \<Longrightarrow> le_nat n x ! i = of_nat (x div 256 ^ i mod 256)"
proof (induction n arbitrary: i x)
  case (Suc n)
  then show ?case by (cases i) (simp_all add: div_mult2_eq)
qed simp

lemma bit_nth_to_le:
  "i < LENGTH('a) div 8 \<Longrightarrow> bit (to_le (w :: 'a::len word) ! i) k \<longleftrightarrow> k < 8 \<and> bit w (8 * i + k)"
proof -
  assume i: "i < LENGTH('a) div 8"
  have "unat w div 256 ^ i mod 256 = take_bit 8 (drop_bit (8 * i) (unat w))"
    by (simp add: take_bit_eq_mod drop_bit_eq_div pow256)
  then show ?thesis
    using i by (simp add: to_le_def nth_le_nat bit_of_nat_iff bit_simps)
qed

lemma bit_swap_bytes: "bit (swap_bytes w) n \<longleftrightarrow> n < 64 \<and> bit w (8 * (7 - n div 8) + n mod 8)"
proof (cases "n < 64")
  case True
  then have "n div 8 < 8" by simp
  then have "rev (to_le w) ! (n div 8) = to_le w ! (7 - n div 8)"
    by (simp add: rev_nth)
  with True \<open>n div 8 < 8\<close> show ?thesis
    by (simp add: swap_bytes_def bit_from_le bit_nth_to_le)
qed (simp add: swap_bytes_def bit_from_le)

lemma swap_bytes_xor: "swap_bytes (a XOR b) = swap_bytes a XOR swap_bytes b"
  by (rule bit_eqI) (auto simp: bit_swap_bytes bit_xor_iff)

lemma swap_bytes_swap_bytes [simp]: "swap_bytes (swap_bytes w) = w"
proof (rule bit_word_eqI)
  fix n assume "n < LENGTH(64)"
  then have "n div 8 \<le> 7" and "n < 64" by simp_all
  then have "8 * (7 - n div 8) + n mod 8 < 64" "(8 * (7 - n div 8) + n mod 8) div 8 = 7 - n div 8"
    and "8 * (n div 8) + n mod 8 = n"
    by simp_all
  then show "bit (swap_bytes (swap_bytes w)) n = bit w n"
    using \<open>n < 64\<close> \<open>n div 8 \<le> 7\<close> by (simp add: bit_swap_bytes)
qed

lemma swap_bytes_inj: "swap_bytes a = swap_bytes b \<Longrightarrow> a = b"
  by (metis swap_bytes_swap_bytes)

lemma swap_bytes_0 [simp]: "swap_bytes 0 = 0"
  by (rule bit_eqI) (simp add: bit_swap_bytes)

lemma swap_bytes_shift: "swap_bytes (drop_bit 8 w) = push_bit 8 (swap_bytes w)"
proof (rule bit_word_eqI)
  fix n assume "n < LENGTH(64)"
  define q r where "q = n div 8" and "r = n mod 8"
  have n: "n = 8 * q + r" "r < 8" "q < 8"
    using \<open>n < LENGTH(64)\<close> by (simp_all add: q_def r_def)
  show "bit (swap_bytes (drop_bit 8 w)) n = bit (push_bit 8 (swap_bytes w)) n"
  proof (cases q)
    case 0
    then show ?thesis using n by (auto simp: bit_swap_bytes bit_simps dest: bit_imp_le_length)
  next
    case (Suc q')
    then have m: "n = 8 + (8 * q' + r)" using n by simp
    have e: "8 + (8 * (7 - q) + r) = 8 * (7 - q') + r" using n Suc by auto
    have d: "n div 8 = q" "n mod 8 = r" "(8 * q' + r) div 8 = q'" "(8 * q' + r) mod 8 = r"
      using n by (simp_all add: q_def r_def)
    have "bit (swap_bytes (drop_bit 8 w)) n = bit w (8 * (7 - q') + r)"
      using \<open>n < LENGTH(64)\<close> by (simp add: bit_swap_bytes bit_drop_bit_eq d e)
    moreover have "bit (push_bit 8 (swap_bytes w)) n = bit w (8 * (7 - q') + r)"
      using \<open>n < LENGTH(64)\<close> by (simp add: bit_push_bit_iff bit_swap_bytes m d n)
    ultimately show ?thesis by simp
  qed
qed

section \<open>The table is the division\<close>

lemma table_bit_alt:
  "table_bit x = push_bit 1 x XOR (if bit x 63 then POLYNOMIAL else 0)"
  using bit_iff_and_push_bit_not_eq_0 [of x 63] by (simp add: table_bit_def)

lemma bit_table_bit:
  "bit (table_bit x) n \<longleftrightarrow> (0 < n \<and> n < 64 \<and> bit x (n - 1)) \<noteq> (bit x 63 \<and> bit POLYNOMIAL n)"
  unfolding table_bit_alt bit_xor_iff bit_push_bit_iff by auto

lemma table_bit_xor: "table_bit (x XOR y) = table_bit x XOR table_bit y"
  by (rule bit_eqI) (auto simp: bit_table_bit bit_xor_iff)

lemma table_bit_inj: "table_bit x = table_bit y \<Longrightarrow> x = y"
proof (rule bit_word_eqI)
  fix n assume eq: "table_bit x = table_bit y" and "n < LENGTH(64)"
  have "bit (table_bit z) 0 = bit z 63" for z
    by (simp add: bit_table_bit POLYNOMIAL_def)
  then have top: "bit x 63 = bit y 63" using eq by metis
  show "bit x n = bit y n"
  proof (cases "n = 63")
    case False
    then have n: "Suc n < 64" using \<open>n < LENGTH(64)\<close> by simp
    have "bit (table_bit x) (Suc n) = bit (table_bit y) (Suc n)" using eq by simp
    then show ?thesis using top n by (auto simp: bit_table_bit)
  qed (use top in simp)
qed

lemma crc8_xor: "(table_bit ^^ n) (x XOR y) = (table_bit ^^ n) x XOR (table_bit ^^ n) y"
  by (induction n) (simp_all add: table_bit_xor)

lemma crc8_inj: "(table_bit ^^ n) x = (table_bit ^^ n) y \<Longrightarrow> x = y"
  by (induction n) (auto dest: table_bit_inj)

text \<open>A register whose top bits are zero is only shifted.\<close>

lemma crc8_low: "(\<And>k. 64 - n \<le> k \<Longrightarrow> \<not> bit x k) \<Longrightarrow> n \<le> 64 \<Longrightarrow> (table_bit ^^ n) x = push_bit n x"
proof (induction n arbitrary: x)
  case (Suc n)
  have top: "\<not> bit x 63" using Suc.prems by simp
  then have one: "table_bit x = push_bit 1 x" by (simp only: table_bit_alt if_False xor.right_neutral)
  have "\<not> bit (push_bit 1 x) k" if "64 - n \<le> k" for k
    unfolding bit_push_bit_iff using Suc.prems(1) [of "k - 1"] that by auto
  then have "(table_bit ^^ n) (push_bit 1 x) = push_bit n (push_bit 1 x)"
    using Suc.prems(2) by (intro Suc.IH) simp_all
  then show ?case by (simp only: funpow_Suc_right o_apply one push_bit_push_bit) simp
qed simp

lemma nth_TABLE: "i < 256 \<Longrightarrow> TABLE ! i = table_entry i"
  by (simp add: TABLE_def)

lemma swap_bytes_update: "swap_bytes (update_byte reg b) = crc_byte (swap_bytes reg) b"
proof -
  define x where "x = swap_bytes reg XOR push_bit 56 (ucast b)"
  define hi where "hi = push_bit 56 ((reg XOR ucast b) AND 0xff)"
  define lo where "lo = take_bit 56 (swap_bytes reg)"
  define i where "i = unat ((reg XOR ucast b) AND 0xff)"
  have mask: "(0xff :: u64) = mask 8" by (simp add: mask_eq_exp_minus_1)
  have bi: "bit ((reg XOR ucast b) AND 0xff) k = (k < 8 \<and> (bit reg k \<noteq> bit b k))" for k
    by (auto simp: mask bit_simps)
  have "i < 256"
    unfolding i_def mask
    by (simp only: take_bit_eq_mask [symmetric] unsigned_take_bit_eq) (simp add: take_bit_eq_mod)
  then have tab: "TABLE ! i = swap_bytes ((table_bit ^^ 8) hi)"
    by (simp add: nth_TABLE table_entry_def hi_def i_def)
  have x: "x = hi XOR lo"
  proof (rule bit_word_eqI)
    fix k assume "k < LENGTH(64)"
    then have k: "k < 64" by simp
    show "bit x k = bit (hi XOR lo) k"
    proof (cases "k < 56")
      case True
      then show ?thesis by (simp add: x_def hi_def lo_def bit_simps)
    next
      case False
      then have "k div 8 = 7" "k mod 8 = k - 56" "k - 56 < 8" using k by presburger+
      then show ?thesis using False k
        unfolding x_def hi_def lo_def bit_push_bit_iff bit_take_bit_iff bit_xor_iff bi bit_swap_bytes bit_ucast_iff
        by auto
    qed
  qed
  have "(table_bit ^^ 8) lo = push_bit 8 lo"
    by (rule crc8_low) (auto simp: lo_def bit_simps)
  also have "push_bit 8 lo = push_bit 8 (swap_bytes reg)"
    by (rule bit_word_eqI) (auto simp: lo_def bit_simps)
  finally have low: "(table_bit ^^ 8) lo = swap_bytes (drop_bit 8 reg)"
    by (simp add: swap_bytes_shift)
  have "update_byte reg b = TABLE ! i XOR drop_bit 8 reg"
    by (simp add: update_byte_def i_def)
  then have "swap_bytes (update_byte reg b) = (table_bit ^^ 8) hi XOR (table_bit ^^ 8) lo"
    by (simp add: tab swap_bytes_xor low)
  also have "\<dots> = (table_bit ^^ 8) x" by (simp add: x crc8_xor)
  finally show ?thesis by (simp add: crc_byte_def x_def)
qed

lemma swap_bytes_foldl: "swap_bytes (foldl update_byte reg bs) = foldl crc_byte (swap_bytes reg) bs"
  by (induction bs arbitrary: reg) (simp_all add: swap_bytes_update)

section \<open>Piecewise checksums and error detection\<close>

lemma crc64_update_append: "crc64_update c (xs @ ys) = crc64_update (crc64_update c xs) ys"
  by (simp add: crc64_update_def)

lemma xor_right_cancel: "(a :: u64) XOR c = b XOR c \<longleftrightarrow> a = b"
proof
  assume "a XOR c = b XOR c"
  then have "(a XOR c) XOR c = (b XOR c) XOR c" by simp
  then show "a = b" by (simp only: xor.assoc xor_self_eq xor.right_neutral)
qed simp

lemma crc_byte_inj: "crc_byte r b = crc_byte s b \<Longrightarrow> r = s"
  unfolding crc_byte_def by (drule crc8_inj) (simp only: xor_right_cancel)

lemma foldl_crc_byte_inj: "foldl crc_byte r bs = foldl crc_byte s bs \<Longrightarrow> r = s"
  by (induction bs arbitrary: r s) (auto dest: crc_byte_inj)

text \<open>The word whose most significant bytes are the given ones.\<close>

fun top_bytes :: "bytes \<Rightarrow> u64" where
  "top_bytes [] = 0"
| "top_bytes (b # bs) = push_bit 56 (ucast b) XOR drop_bit 8 (top_bytes bs)"

lemma top_bytes_low: "k < 64 - 8 * length bs \<Longrightarrow> \<not> bit (top_bytes bs) k"
  by (induction bs arbitrary: k) (auto simp: bit_simps)

lemma top_bytes_shift: "length bs < 8 \<Longrightarrow> push_bit 8 (drop_bit 8 (top_bytes bs)) = top_bytes bs"
proof (rule bit_word_eqI)
  fix n assume "length bs < 8" and "n < LENGTH(64)"
  then show "bit (push_bit 8 (drop_bit 8 (top_bytes bs))) n = bit (top_bytes bs) n"
    using top_bytes_low [of n bs] by (cases "8 \<le> n") (auto simp: bit_push_bit_iff bit_drop_bit_eq)
qed

lemma top_bytes_inj: "length xs = length ys \<Longrightarrow> length xs \<le> 8 \<Longrightarrow> top_bytes xs = top_bytes ys \<Longrightarrow> xs = ys"
proof (induction xs ys rule: list_induct2)
  case (Cons x xs y ys)
  have top: "drop_bit 56 (push_bit 56 (ucast b) XOR drop_bit 8 w) = (ucast b :: u64)" for b :: u8 and w :: u64
    by (rule bit_word_eqI) (auto simp: bit_simps dest: bit_imp_le_length)
  let ?p = "push_bit 56 (ucast x) :: u64" and ?q = "push_bit 56 (ucast y) :: u64"
  have eq: "?p XOR drop_bit 8 (top_bytes xs) = ?q XOR drop_bit 8 (top_bytes ys)"
    using Cons.prems(2) by (simp only: top_bytes.simps)
  from arg_cong [OF this, of "drop_bit 56"] have uc: "(ucast x :: u64) = ucast y"
    by (simp only: top)
  have xy: "x = y"
  proof (rule bit_word_eqI)
    fix n assume "n < LENGTH(8)"
    with arg_cong [OF uc, of "\<lambda>w. bit w n"] show "bit x n = bit y n"
      by (simp add: bit_ucast_iff)
  qed
  have "drop_bit 8 (top_bytes xs) XOR ?p = drop_bit 8 (top_bytes ys) XOR ?p"
    using eq unfolding xy by (simp only: xor.commute)
  then have "drop_bit 8 (top_bytes xs) = drop_bit 8 (top_bytes ys)"
    by (simp only: xor_right_cancel)
  then have "top_bytes xs = top_bytes ys"
    using top_bytes_shift [of xs] top_bytes_shift [of ys] Cons.hyps Cons.prems(1)
    by (metis Suc_le_eq length_Cons)
  with Cons xy show ?case by simp
qed simp

lemma foldl_crc_byte_window:
  "length bs \<le> 8 \<Longrightarrow> foldl crc_byte r bs = (table_bit ^^ (8 * length bs)) (r XOR top_bytes bs)"
proof (induction bs arbitrary: r)
  case (Cons b bs)
  let ?x = "r XOR push_bit 56 (ucast b)" and ?d = "drop_bit 8 (top_bytes bs)"
  have "(table_bit ^^ 8) ?d = top_bytes bs"
    using Cons.prems by (subst crc8_low) (auto simp: bit_simps top_bytes_shift dest: bit_imp_le_length)
  then have "(table_bit ^^ 8) (?x XOR ?d) = crc_byte r b XOR top_bytes bs"
    by (simp only: crc8_xor crc_byte_def)
  moreover have "(table_bit ^^ (8 * length (b # bs))) y = (table_bit ^^ (8 * length bs)) ((table_bit ^^ 8) y)" for y
    using funpow_add [of "8 * length bs" 8 table_bit] by (simp add: add.commute del: funpow.simps)
  ultimately show ?case
    using Cons by (simp add: xor.assoc del: funpow.simps)
qed simp

lemma checksum_long_division: "checksum bs = crc_spec bs"
  by (simp add: checksum_def crc64_chain_def crc64_update_def crc64_finish_def crc64_new_def
      crc_spec_def swap_bytes_foldl)

text \<open>Two inputs that differ only within eight consecutive bytes have different checksums.\<close>

lemma checksum_window:
  assumes "length xs = length ys" and "length xs \<le> 8" and "xs \<noteq> ys"
  shows "checksum (pre @ xs @ post) \<noteq> checksum (pre @ ys @ post)"
proof
  assume "checksum (pre @ xs @ post) = checksum (pre @ ys @ post)"
  then have "foldl crc_byte (foldl crc_byte 0 pre) xs = foldl crc_byte (foldl crc_byte 0 pre) ys"
    by (simp add: checksum_long_division crc_spec_def) (rule foldl_crc_byte_inj)
  then have "top_bytes xs = top_bytes ys"
    using assms by (simp add: foldl_crc_byte_window) (drule crc8_inj, metis xor.commute xor_right_cancel)
  then show False using assms top_bytes_inj by blast
qed

section \<open>Properties\<close>

text \<open>
  C36: the table-driven checksum over byte-swapped words is the bitwise long division of the
  message by the polynomial, whatever pieces it is computed from.
\<close>

theorem checksum_is_crc_spec:
  "crc64_finish (foldl crc64_chain crc64_new pieces) = crc_spec (concat pieces)"
proof -
  have "foldl crc64_chain c pieces = crc64_update c (concat pieces)" for c
    by (induction pieces arbitrary: c) (simp_all add: crc64_chain_def crc64_update_append, simp add: crc64_update_def)
  then show ?thesis by (simp add: checksum_long_division [symmetric] checksum_def crc64_chain_def)
qed

end
