(* ===== verification/Interfaces.thy ===== *)
theory Interfaces
  imports Prelude
begin

text \<open>
  The two contracts the wire formats implement, as locales, with the lemmas their clients
  use. \<open>prefix_codec\<close> says that a decoder reads back what an encoder wrote, whatever bytes
  follow; from it come injectivity, prefix freedom and the decoding of a run of values.
  \<open>stream_framer\<close> says that a decoder of a growing buffer never changes its mind; from it
  comes that the frames of a stream do not depend on how the stream was cut into reads.
\<close>

section \<open>Codecs\<close>

text \<open>Decoding \<open>n\<close> values one after the other.\<close>

fun decode_n :: "(bytes \<Rightarrow> 'e + 'a \<times> nat) \<Rightarrow> nat \<Rightarrow> bytes \<Rightarrow> 'e + 'a list \<times> nat" where
  "decode_n dec 0 bs = Inr ([], 0)"
| "decode_n dec (Suc n) bs =
     (case dec bs of
        Inl e \<Rightarrow> Inl e
      | Inr (x, k) \<Rightarrow>
          (case decode_n dec n (drop k bs) of
             Inl e \<Rightarrow> Inl e
           | Inr (xs, m) \<Rightarrow> Inr (x # xs, k + m)))"

locale prefix_codec =
  fixes enc :: "'a \<Rightarrow> bytes"
    and dec :: "bytes \<Rightarrow> 'e + 'a \<times> nat"
    and valid :: "'a \<Rightarrow> bool"
  assumes dec_enc: "valid x \<Longrightarrow> dec (enc x @ rest) = Inr (x, length (enc x))"
begin

lemma dec_enc_exact: "valid x \<Longrightarrow> dec (enc x) = Inr (x, length (enc x))"
  using dec_enc [of x "[]"] by simp

lemma prefix_free: "valid x \<Longrightarrow> valid y \<Longrightarrow> enc x @ r = enc y @ s \<Longrightarrow> x = y \<and> r = s"
  using dec_enc [of x r] dec_enc [of y s] by auto

lemma enc_inj: "valid x \<Longrightarrow> valid y \<Longrightarrow> enc x = enc y \<Longrightarrow> x = y"
  using prefix_free [of x y "[]" "[]"] by simp

lemma decode_n_enc:
  "\<forall>x \<in> set xs. valid x \<Longrightarrow>
   decode_n dec (length xs) (concat (map enc xs) @ rest) = Inr (xs, length (concat (map enc xs)))"
  by (induction xs) (simp_all add: dec_enc)

end

text \<open>
  A codec whose decoder reports a value cut short as starvation, so that a reader can tell
  "read more" from "corrupt".
\<close>

locale starving_codec = prefix_codec enc dec valid
  for enc :: "'a \<Rightarrow> bytes" and dec :: "bytes \<Rightarrow> 'e + 'a \<times> nat" and valid +
  fixes starved :: "'e \<Rightarrow> bool"
  assumes cut_starves: "valid x \<Longrightarrow> n < length (enc x) \<Longrightarrow> \<exists>e. dec (take n (enc x)) = Inl e \<and> starved e"
begin

lemma no_strict_prefix: "valid x \<Longrightarrow> n < length (enc x) \<Longrightarrow> dec (take n (enc x)) \<noteq> Inr r"
  using cut_starves by fastforce

end

section \<open>Framing a stream\<close>

text \<open>
  All whole frames at the front of a buffer, and what is left: the unconsumed bytes, or the
  error that ended the stream. The test on \<open>n\<close> only serves termination: under the
  \<open>stream_framer\<close> laws it is always true.
\<close>

function drain :: "(bytes \<Rightarrow> 'e + ('a \<times> nat) option) \<Rightarrow> bytes \<Rightarrow> 'a list \<times> ('e + bytes)" where
  "drain frame buf =
     (case frame buf of
        Inl e \<Rightarrow> ([], Inl e)
      | Inr None \<Rightarrow> ([], Inr buf)
      | Inr (Some (a, n)) \<Rightarrow>
          (if 0 < n \<and> n \<le> length buf
           then (case drain frame (drop n buf) of (as, r) \<Rightarrow> (a # as, r))
           else ([], Inr buf)))"
  by pat_completeness auto
termination by (relation "measure (\<lambda>(frame, buf). length buf)") auto

declare drain.simps [simp del]

fun feed :: "(bytes \<Rightarrow> 'e + ('a \<times> nat) option) \<Rightarrow> 'a list \<times> ('e + bytes) \<Rightarrow> bytes \<Rightarrow> 'a list \<times> ('e + bytes)" where
  "feed frame (as, Inl e) chunk = (as, Inl e)"
| "feed frame (as, Inr buf) chunk =
     (case drain frame (buf @ chunk) of (bs, r) \<Rightarrow> (as @ bs, r))"

locale stream_framer =
  fixes frame :: "bytes \<Rightarrow> 'e + ('a \<times> nat) option"
  assumes frame_empty: "frame [] = Inr None"
    and frame_final: "frame xs = Inr (Some (a, n)) \<Longrightarrow> frame (xs @ ys) = Inr (Some (a, n))"
    and frame_consumes: "frame xs = Inr (Some (a, n)) \<Longrightarrow> 0 < n \<and> n \<le> length xs"
    and fault_final: "frame xs = Inl e \<Longrightarrow> frame (xs @ ys) = Inl e"
begin

text \<open>A frame that is cut short is not a frame, and not an error.\<close>

lemma frame_cut:
  assumes f: "frame xs = Inr (Some (a, n))" and k: "k < n"
  shows "frame (take k xs) = Inr None"
proof (cases "frame (take k xs)")
  case (Inl e)
  from fault_final [OF this, of "drop k xs"] f show ?thesis by simp
next
  case (Inr r)
  show ?thesis
  proof (cases r)
    case (Some p)
    obtain b m where p: "p = (b, m)" by fastforce
    with Inr Some have g: "frame (take k xs) = Inr (Some (b, m))" by simp
    from frame_final [OF g, of "drop k xs"] f have "m = n" by simp
    with frame_consumes [OF g] k show ?thesis by simp
  qed (use Inr in simp)
qed

lemma drain_frame:
  "frame xs = Inr (Some (a, n)) \<Longrightarrow>
   drain frame (xs @ ys) = (case drain frame (drop n xs @ ys) of (as, r) \<Rightarrow> (a # as, r))"
  using frame_final [of xs a n ys] frame_consumes [of xs a n]
  by (subst drain.simps) simp

lemma drain_append: "drain frame (xs @ ys) = feed frame (drain frame xs) ys"
proof (induction "length xs" arbitrary: xs rule: less_induct)
  case less
  show ?case
  proof (cases "frame xs")
    case (Inl e)
    then show ?thesis
      using fault_final [OF Inl] by (subst (1 2) drain.simps) simp
  next
    case (Inr o')
    show ?thesis
    proof (cases o')
      case None
      then have "drain frame xs = ([], Inr xs)"
        using Inr by (subst drain.simps) simp
      then show ?thesis by (simp split: prod.splits)
    next
      case (Some an)
      obtain a n where an: "an = (a, n)" by fastforce
      with Inr Some have f: "frame xs = Inr (Some (a, n))" by simp
      obtain as r where d: "drain frame (drop n xs) = (as, r)" by fastforce
      have "length (drop n xs) < length xs"
        using frame_consumes [OF f] by (simp del: length_greater_0_conv)
      then have IH: "drain frame (drop n xs @ ys) = feed frame (as, r) ys"
        using less.hyps [of "drop n xs"] d by simp
      have "drain frame xs = (a # as, r)"
        using drain_frame [OF f, of "[]"] d by simp
      then show ?thesis
        using drain_frame [OF f, of ys] IH by (cases r) (auto split: prod.splits)
    qed
  qed
qed

text \<open>However a stream is cut into chunks, the frames and the leftover are the same.\<close>

lemma chunking_irrelevant: "foldl (feed frame) ([], Inr []) chunks = drain frame (concat chunks)"
proof (induction chunks rule: rev_induct)
  case Nil
  show ?case by (subst drain.simps) (simp add: frame_empty)
next
  case (snoc c cs)
  then show ?case by (simp add: drain_append)
qed

end

end
