(* ===== verification/Std_Text.thy ===== *)
theory Std_Text
  imports Prelude
begin

text \<open>
  What the sources use of Rust's standard library on text: \<open>str::split\<close> on an ASCII
  character, integer formatting in base 10 and 16, \<open>from_str_radix\<close> and \<open>str::parse\<close> for
  integers, the decimal grammar and the correctly rounded conversion of \<open>str::parse::<f64>\<close>,
  and \<open>str::from_utf8\<close>. Strings are their UTF-8 bytes.
\<close>

section \<open>Splitting\<close>

text \<open>\<open>str::split(c)\<close>: the fields between the separators; \<open>""\<close> has one, empty, field.\<close>

fun split_on :: "u8 \<Rightarrow> bytes \<Rightarrow> bytes list" where
  "split_on c [] = [[]]"
| "split_on c (x # xs) =
     (if x = c then [] # split_on c xs
      else (case split_on c xs of [] \<Rightarrow> [[x]] | f # fs \<Rightarrow> (x # f) # fs))"

lemma split_on_no_sep: "c \<notin> set xs \<Longrightarrow> split_on c xs = [xs]"
  by (induction xs) auto

lemma split_on_append: "c \<notin> set xs \<Longrightarrow> split_on c (xs @ c # ys) = xs # split_on c ys"
  by (induction xs) auto

section \<open>Integers in a radix\<close>

definition digit_char :: "nat \<Rightarrow> u8" where
  "digit_char d = of_nat (if d < 10 then 48 + d else 87 + d)"

text \<open>\<open>char::to_digit\<close> for a radix up to 36, both letter cases.\<close>

definition to_digit :: "nat \<Rightarrow> u8 \<Rightarrow> nat option" where
  "to_digit base c =
     (let n = unat c;
          d = (if 48 \<le> n \<and> n \<le> 57 then n - 48
               else if 97 \<le> n \<and> n \<le> 122 then n - 87
               else if 65 \<le> n \<and> n \<le> 90 then n - 55
               else 255)
      in if d < base then Some d else None)"

fun radix_digits :: "nat \<Rightarrow> nat \<Rightarrow> bytes" where
  "radix_digits base n =
     (if base < 2 \<or> n < base then [digit_char n]
      else radix_digits base (n div base) @ [digit_char (n mod base)])"

declare radix_digits.simps [simp del]

fun parse_digits :: "nat \<Rightarrow> nat \<Rightarrow> bytes \<Rightarrow> nat option" where
  "parse_digits base acc [] = Some acc"
| "parse_digits base acc (c # cs) =
     (case to_digit base c of None \<Rightarrow> None | Some d \<Rightarrow> parse_digits base (acc * base + d) cs)"

text \<open>\<open>from_str_radix\<close> of an unsigned type whose largest value is \<open>hi\<close>.\<close>

definition parse_unsigned :: "nat \<Rightarrow> nat \<Rightarrow> bytes \<Rightarrow> nat option" where
  "parse_unsigned base hi s =
     (let ds = (case s of c # rest \<Rightarrow> if c = 0x2B then rest else s | [] \<Rightarrow> s)
      in if ds = [] then None
         else (case parse_digits base 0 ds of
                 None \<Rightarrow> None
               | Some n \<Rightarrow> if n \<le> hi then Some n else None))"

text \<open>\<open>from_str_radix\<close> of the signed 64-bit type.\<close>

definition parse_signed64 :: "nat \<Rightarrow> bytes \<Rightarrow> int option" where
  "parse_signed64 base s =
     (let neg = (case s of c # _ \<Rightarrow> c = 0x2D | [] \<Rightarrow> False);
          ds = (case s of c # rest \<Rightarrow> if c = 0x2B \<or> c = 0x2D then rest else s | [] \<Rightarrow> s)
      in if ds = [] then None
         else (case parse_digits base 0 ds of
                 None \<Rightarrow> None
               | Some n \<Rightarrow>
                   if neg then (if n \<le> 2 ^ 63 then Some (- int n) else None)
                   else (if n < 2 ^ 63 then Some (int n) else None)))"

text \<open>Decimal formatting of signed and unsigned integers.\<close>

definition fmt_unsigned :: "nat \<Rightarrow> bytes" where
  "fmt_unsigned n = radix_digits 10 n"

definition fmt_signed :: "int \<Rightarrow> bytes" where
  "fmt_signed i = (if i < 0 then 0x2D # radix_digits 10 (nat (- i)) else radix_digits 10 (nat i))"

lemma unat_digit_char: "d < 36 \<Longrightarrow> unat (digit_char d) = (if d < 10 then 48 + d else 87 + d)"
  by (auto simp: digit_char_def unat_of_nat)

lemma to_digit_digit_char [simp]: "d < base \<Longrightarrow> base \<le> 36 \<Longrightarrow> to_digit base (digit_char d) = Some d"
  by (auto simp: to_digit_def unat_digit_char Let_def)

lemma parse_digits_append:
  "parse_digits base acc (xs @ ys) =
     (case parse_digits base acc xs of None \<Rightarrow> None | Some a \<Rightarrow> parse_digits base a ys)"
  by (induction xs arbitrary: acc) (auto split: option.splits)

lemma radix_digits_nonempty [simp]: "radix_digits base n \<noteq> []"
  by (subst radix_digits.simps) simp

lemma parse_radix_digits:
  "2 \<le> base \<Longrightarrow> base \<le> 36 \<Longrightarrow> parse_digits base 0 (radix_digits base n) = Some n"
proof (induction base n rule: radix_digits.induct)
  case (1 base n)
  show ?case
  proof (cases "n < base")
    case True
    then show ?thesis using 1 by (subst radix_digits.simps) simp
  next
    case False
    then have "radix_digits base n = radix_digits base (n div base) @ [digit_char (n mod base)]"
      using 1 by (subst radix_digits.simps) simp
    then show ?thesis
      using 1 False by (simp add: parse_digits_append)
  qed
qed

lemma radix_digits_set:
  "2 \<le> base \<Longrightarrow> c \<in> set (radix_digits base n) \<Longrightarrow> \<exists>d < base. c = digit_char d"
proof (induction base n rule: radix_digits.induct)
  case (1 base n)
  show ?case
  proof (cases "n < base")
    case True
    then have "radix_digits base n = [digit_char n]" by (subst radix_digits.simps) simp
    with True "1.prems" show ?thesis by auto
  next
    case False
    then have "radix_digits base n = radix_digits base (n div base) @ [digit_char (n mod base)]"
      using 1 by (subst radix_digits.simps) simp
    then have "c \<in> set (radix_digits base (n div base)) \<or> c = digit_char (n mod base)"
      using "1.prems" by auto
    moreover have "n mod base < base" and "\<not> (base < 2 \<or> n < base)" using "1.prems" False by simp_all
    ultimately show ?thesis
      using "1.IH" "1.prems" by blast
  qed
qed

lemma length_radix_digits:
  "2 \<le> base \<Longrightarrow> n < base ^ k \<Longrightarrow> 0 < k \<Longrightarrow> length (radix_digits base n) \<le> k"
proof (induction k arbitrary: n)
  case (Suc k)
  show ?case
  proof (cases "n < base")
    case True
    then show ?thesis by (subst radix_digits.simps) simp
  next
    case False
    then have "0 < k" using Suc.prems by (cases k) auto
    moreover have "n div base < base ^ k"
      using Suc.prems by (simp add: less_mult_imp_div_less mult.commute)
    ultimately have "length (radix_digits base (n div base)) \<le> k"
      using Suc.IH Suc.prems(1) by blast
    then show ?thesis using False Suc.prems(1) by (subst radix_digits.simps) simp
  qed
qed simp

lemma digit_char_not_sign: "d < 36 \<Longrightarrow> digit_char d \<noteq> 0x2B \<and> digit_char d \<noteq> 0x2D"
proof -
  assume d: "d < 36"
  have "unat (digit_char d) \<noteq> 43" "unat (digit_char d) \<noteq> 45"
    using unat_digit_char [OF d] by (simp_all split: if_splits)
  then show ?thesis by auto
qed

lemma hd_radix_digits: "2 \<le> base \<Longrightarrow> base \<le> 36 \<Longrightarrow> \<exists>d < 36. hd (radix_digits base n) = digit_char d"
  using radix_digits_set [of base "hd (radix_digits base n)" n] by (auto intro: less_le_trans)

lemma parse_unsigned_radix_digits [codec_simps]:
  assumes "2 \<le> base" and "base \<le> 36" and "n \<le> hi"
  shows "parse_unsigned base hi (radix_digits base n) = Some n"
proof -
  obtain c cs where c: "radix_digits base n = c # cs"
    by (cases "radix_digits base n") auto
  then have "c \<noteq> 0x2B"
    using hd_radix_digits [OF assms(1,2), of n] digit_char_not_sign by force
  with c assms parse_radix_digits [OF assms(1,2), of n] show ?thesis
    by (simp add: parse_unsigned_def)
qed

lemma parse_unsigned_fmt: "n \<le> hi \<Longrightarrow> parse_unsigned 10 hi (fmt_unsigned n) = Some n"
  by (simp add: fmt_unsigned_def parse_unsigned_radix_digits)

lemma parse_signed64_fmt:
  assumes "- (2 ^ 63) \<le> i" and "i < 2 ^ 63"
  shows "parse_signed64 10 (fmt_signed i) = Some i"
proof -
  obtain c cs where c: "radix_digits 10 (nat i) = c # cs"
    by (cases "radix_digits 10 (nat i)") auto
  then have "c \<noteq> 0x2B \<and> c \<noteq> 0x2D"
    using hd_radix_digits [of 10 "nat i"] digit_char_not_sign by force
  then show ?thesis
    using c assms parse_radix_digits [of 10 "nat i"] parse_radix_digits [of 10 "nat (- i)"]
    by (auto simp: parse_signed64_def fmt_signed_def Let_def)
qed

section \<open>Decimal floating point\<close>

fun bit_length :: "nat \<Rightarrow> nat" where
  "bit_length n = (if n = 0 then 0 else Suc (bit_length (n div 2)))"

declare bit_length.simps [simp del]

text \<open>
  \<open>num / den\<close> rounded to the nearest double, ties to even, as its bits without the sign:
  the quotient by the unit in the last place \<open>2 ^ e\<close> of the result, added to the exponent
  field so that a carry out of the mantissa moves to the next exponent.
\<close>

definition round_f64 :: "nat \<Rightarrow> nat \<Rightarrow> nat" where
  "round_f64 num den =
     (let k0 = int (bit_length num) - int (bit_length den);
          below = (if 0 \<le> k0 then num < den * 2 ^ nat k0 else num * 2 ^ nat (- k0) < den);
          k = (if below then k0 - 1 else k0);
          e = max (k - 52) (- 1074);
          n = (if 0 \<le> e then num else num * 2 ^ nat (- e));
          d = (if 0 \<le> e then den * 2 ^ nat e else den);
          q = n div d;
          r = n mod d;
          q' = (if d < 2 * r \<or> (d = 2 * r \<and> odd q) then q + 1 else q);
          bits = nat (e + 1074) * 2 ^ 52 + q'
      in min bits (0x7FF * 2 ^ 52))"

definition dec_to_f64 :: "bool \<Rightarrow> nat \<Rightarrow> int \<Rightarrow> f64" where
  "dec_to_f64 neg m e10 =
     (let mag = (if m = 0 then 0
                 else if 0 \<le> e10 then round_f64 (m * 10 ^ nat e10) 1
                 else round_f64 m (10 ^ nat (- e10)))
      in of_nat (mag + (if neg then 2 ^ 63 else 0)))"

text \<open>
  \<open>str::parse::<f64>\<close> on text made of digits, signs, dots and exponent letters: an
  optional sign, digits with an optional fraction (at least one digit in all), an optional
  exponent with at least one digit.
\<close>

definition digits_value :: "bytes \<Rightarrow> nat" where
  "digits_value ds = foldl (\<lambda>acc c. acc * 10 + (unat c - 48)) 0 ds"

definition parse_f64 :: "bytes \<Rightarrow> f64 option" where
  "parse_f64 s =
     (let neg = (case s of c # _ \<Rightarrow> c = 0x2D | [] \<Rightarrow> False);
          body = (case s of c # rest \<Rightarrow> if c = 0x2B \<or> c = 0x2D then rest else s | [] \<Rightarrow> s);
          ip = takeWhile is_digit body;
          r1 = dropWhile is_digit body;
          fp = (case r1 of c # rest \<Rightarrow> if c = 0x2E then takeWhile is_digit rest else [] | [] \<Rightarrow> []);
          r2 = (case r1 of c # rest \<Rightarrow> if c = 0x2E then dropWhile is_digit rest else r1 | [] \<Rightarrow> []);
          m = digits_value (ip @ fp);
          scale = - int (length fp)
      in if ip = [] \<and> fp = [] then None
         else (case r2 of
                 [] \<Rightarrow> Some (dec_to_f64 neg m scale)
               | c # r3 \<Rightarrow>
                   if c = 0x65 \<or> c = 0x45 then
                     (let eneg = (case r3 of d # _ \<Rightarrow> d = 0x2D | [] \<Rightarrow> False);
                          ds = (case r3 of d # rest \<Rightarrow> if d = 0x2B \<or> d = 0x2D then rest else r3 | [] \<Rightarrow> r3)
                      in if ds = [] \<or> (\<exists>d \<in> set ds. \<not> is_digit d) then None
                         else Some (dec_to_f64 neg m
                                (scale + (if eneg then - int (digits_value ds) else int (digits_value ds)))))
                   else None))"

definition f64_is_nan :: "f64 \<Rightarrow> bool" where
  "f64_is_nan v = (take_bit 63 v > 0x7FF0000000000000)"

definition f64_is_infinite :: "f64 \<Rightarrow> bool" where
  "f64_is_infinite v = (take_bit 63 v = 0x7FF0000000000000)"

definition f64_sign_negative :: "f64 \<Rightarrow> bool" where
  "f64_sign_negative v = bit v 63"

section \<open>UTF-8\<close>

definition utf8_cont :: "u8 \<Rightarrow> bool" where
  "utf8_cont b = (0x80 \<le> b \<and> b \<le> 0xBF)"

text \<open>\<open>str::from_utf8(..).is_ok()\<close>: well-formed byte sequences, shortest form, no surrogates.\<close>

fun utf8_valid :: "bytes \<Rightarrow> bool" where
  "utf8_valid [] = True"
| "utf8_valid (b # r) =
     (if b < 0x80 then utf8_valid r
      else (case r of
         [] \<Rightarrow> False
       | c1 # r1 \<Rightarrow>
           if 0xC2 \<le> b \<and> b \<le> 0xDF then utf8_cont c1 \<and> utf8_valid r1
           else (case r1 of
              [] \<Rightarrow> False
            | c2 # r2 \<Rightarrow>
                if 0xE0 \<le> b \<and> b \<le> 0xEF then
                  utf8_cont c1 \<and> (b = 0xE0 \<longrightarrow> 0xA0 \<le> c1) \<and> (b = 0xED \<longrightarrow> c1 \<le> 0x9F) \<and>
                  utf8_cont c2 \<and> utf8_valid r2
                else (case r2 of
                   [] \<Rightarrow> False
                 | c3 # r3 \<Rightarrow>
                     0xF0 \<le> b \<and> b \<le> 0xF4 \<and>
                     utf8_cont c1 \<and> (b = 0xF0 \<longrightarrow> 0x90 \<le> c1) \<and> (b = 0xF4 \<longrightarrow> c1 \<le> 0x8F) \<and>
                     utf8_cont c2 \<and> utf8_cont c3 \<and> utf8_valid r3))))"

lemma utf8_valid_ascii: "\<forall>b \<in> set bs. b < 0x80 \<Longrightarrow> utf8_valid bs"
  by (induction bs) auto

end
