(* ===== verification/Rpc_Guid.thy ===== *)
theory Rpc_Guid
  imports Interfaces Std_Text
begin

text \<open>
  \<open>crates/ytsaurus-rpc/src/guid.rs\<close>: sixteen bytes, read as four little-endian 32-bit words
  or two 64-bit halves, and printed as the words in hexadecimal, last word first.
\<close>

section \<open>The code\<close>

datatype guid = Guid (guid_bytes: bytes)

text \<open>The Rust type is \<open>[u8; 16]\<close>: every value satisfies this.\<close>

definition guid_wf :: "guid \<Rightarrow> bool" where
  "guid_wf g = (length (guid_bytes g) = 16)"

definition guid_NULL :: guid where
  "guid_NULL = Guid (replicate 16 0)"

text \<open>\<open>Guid::random\<close>: the sixteen bytes of \<open>rand::fill\<close> are its argument.\<close>

definition guid_random :: "bytes \<Rightarrow> guid" where
  "guid_random fill =
     (let b6 = fill[6 := (fill ! 6 AND 0x0f) OR 0x40];
          b8 = b6[8 := (b6 ! 8 AND 0x3f) OR 0x80]
      in Guid b8)"

definition guid_parts :: "guid \<Rightarrow> u32 list" where
  "guid_parts g = map (\<lambda>index. from_le (take 4 (drop (index * 4) (guid_bytes g)))) [0..<4]"

definition guid_from_parts :: "u32 list \<Rightarrow> guid" where
  "guid_from_parts parts = Guid (concat (map to_le parts))"

definition guid_halves :: "guid \<Rightarrow> u64 \<times> u64" where
  "guid_halves g = (from_le (take 8 (guid_bytes g)), from_le (take 8 (drop 8 (guid_bytes g))))"

definition guid_from_halves :: "u64 \<Rightarrow> u64 \<Rightarrow> guid" where
  "guid_from_halves first second = Guid (to_le first @ to_le second)"

definition guid_is_null :: "guid \<Rightarrow> bool" where
  "guid_is_null g = (guid_bytes g = replicate 16 0)"

text \<open>\<open>Display\<close>: \<open>{d:x}-{c:x}-{b:x}-{a:x}\<close>.\<close>

definition hex_u32 :: "u32 \<Rightarrow> bytes" where
  "hex_u32 w = radix_digits 16 (unat w)"

definition guid_display :: "guid \<Rightarrow> bytes" where
  "guid_display g =
     (case guid_parts g of
        [a, b, c, d] \<Rightarrow> hex_u32 d @ 0x2D # hex_u32 c @ 0x2D # hex_u32 b @ 0x2D # hex_u32 a
      | _ \<Rightarrow> [])"

datatype parse_guid_error = ParseGuidError

text \<open>The loop of \<open>from_str\<close> over the fields of the split text.\<close>

fun parse_fields :: "nat \<Rightarrow> nat \<Rightarrow> u32 list \<Rightarrow> bytes list \<Rightarrow> parse_guid_error + u32 list \<times> nat" where
  "parse_fields index seen words [] = Inr (words, seen)"
| "parse_fields index seen words (field # fields) =
     (if 4 \<le> index then Inl ParseGuidError
      else if field = [] \<or> 8 < length field then Inl ParseGuidError
      else (case parse_unsigned 16 (2 ^ 32 - 1) field of
              None \<Rightarrow> Inl ParseGuidError
            | Some n \<Rightarrow> parse_fields (Suc index) (Suc seen) (words[3 - index := of_nat n]) fields))"

definition guid_from_str :: "bytes \<Rightarrow> parse_guid_error + guid" where
  "guid_from_str text =
     (case parse_fields 0 0 (replicate 4 0) (split_on 0x2D text) of
        Inl e \<Rightarrow> Inl e
      | Inr (words, seen) \<Rightarrow>
          if seen \<noteq> 4 then Inl ParseGuidError else Inr (guid_from_parts words))"

section \<open>Words and halves\<close>

lemma guid_wf_obtain:
  assumes "guid_wf g"
  obtains a b c d where "g = guid_from_parts [a, b, c, d]"
proof -
  have len: "length (guid_bytes g) = 16" using assms by (simp add: guid_wf_def)
  define w where "w i = (from_le (take 4 (drop (i * 4) (guid_bytes g))) :: u32)" for i
  have "to_le (w i) = take 4 (drop (i * 4) (guid_bytes g))" if "i < 4" for i
    unfolding w_def by (rule to_le_from_le) (use len that in simp)
  then have "guid_bytes g = to_le (w 0) @ to_le (w 1) @ to_le (w 2) @ to_le (w 3)"
    using len append_take_drop_id [of 4 "guid_bytes g"] append_take_drop_id [of 4 "drop 4 (guid_bytes g)"]
      append_take_drop_id [of 4 "drop 8 (guid_bytes g)"] by simp
  then have "g = guid_from_parts [w 0, w 1, w 2, w 3]"
    by (cases g) (simp add: guid_from_parts_def)
  then show thesis by (rule that)
qed

lemma guid_parts_from_parts [simp]: "guid_parts (guid_from_parts [a, b, c, d]) = [a, b, c, d]"
  by (simp add: guid_parts_def guid_from_parts_def upt_conv_Cons)

lemma guid_from_parts_inj:
  "guid_from_parts [a, b, c, d] = guid_from_parts [a', b', c', d'] \<Longrightarrow>
   a = a' \<and> b = b' \<and> c = c' \<and> d = d'"
  by (metis guid_parts_from_parts list.inject)

lemma guid_wf_from_parts [simp]: "guid_wf (guid_from_parts [a, b, c, d])"
  by (simp add: guid_wf_def guid_from_parts_def)

lemma guid_wf_from_halves [simp]: "guid_wf (guid_from_halves a b)"
  by (simp add: guid_wf_def guid_from_halves_def)

section \<open>Printing and parsing\<close>

lemma hex_field:
  "hex_u32 w \<noteq> []" "length (hex_u32 w) \<le> 8" "0x2D \<notin> set (hex_u32 w)"
  "parse_unsigned 16 4294967295 (hex_u32 w) = Some (unat w)"
proof -
  have u: "unat w < 2 ^ 32" using unsigned_less [of w] by simp
  show "hex_u32 w \<noteq> []" by (simp add: hex_u32_def)
  show "length (hex_u32 w) \<le> 8"
    unfolding hex_u32_def by (rule length_radix_digits) (use u in simp_all)
  show "0x2D \<notin> set (hex_u32 w)"
    unfolding hex_u32_def using radix_digits_set [of 16 "0x2D" "unat w"] digit_char_not_sign by fastforce
  show "parse_unsigned 16 4294967295 (hex_u32 w) = Some (unat w)"
    unfolding hex_u32_def by (rule parse_unsigned_radix_digits) (use u in simp_all)
qed

lemma guid_display_parts:
  "guid_display (guid_from_parts [a, b, c, d]) =
   hex_u32 d @ 0x2D # hex_u32 c @ 0x2D # hex_u32 b @ 0x2D # hex_u32 a"
  by (simp add: guid_display_def)

text \<open>What \<open>from_str\<close> leaves in the words when it succeeds.\<close>

lemma parse_fields_seen: "parse_fields i s ws fs = Inr (ws', s') \<Longrightarrow> s' = s + length fs"
  by (induction i s ws fs rule: parse_fields.induct) (auto split: if_splits option.splits)

lemma parse_fields_length: "parse_fields i s ws fs = Inr (ws', s') \<Longrightarrow> length ws' = length ws"
  by (induction i s ws fs rule: parse_fields.induct) (auto split: if_splits option.splits)

section \<open>Properties\<close>

text \<open>A GUID printed and parsed again is the same GUID, for all 128 bits.\<close>

theorem guid_text_roundtrip:
  assumes "guid_wf g"
  shows "guid_from_str (guid_display g) = Inr g"
proof -
  obtain a b c d where g: "g = guid_from_parts [a, b, c, d]"
    using assms by (rule guid_wf_obtain)
  have "split_on 0x2D (guid_display g) = [hex_u32 d, hex_u32 c, hex_u32 b, hex_u32 a]"
    by (simp add: g guid_display_parts split_on_append split_on_no_sep hex_field)
  moreover have "replicate 4 (0::u32) = [0, 0, 0, 0]" by (simp add: eval_nat_numeral)
  ultimately show ?thesis
    by (simp add: guid_from_str_def hex_field not_less g)
qed

theorem guid_text_roundtrip_witness:
  "guid_from_str (guid_display (guid_from_parts [1, 0, 0, 0])) = Inr (guid_from_parts [1, 0, 0, 0])"
  by (rule guid_text_roundtrip) simp

text \<open>The two 64-bit halves of the protobuf form carry the whole GUID, and back.\<close>

theorem guid_halves_roundtrip:
  assumes "guid_wf g"
  shows "guid_from_halves (fst (guid_halves g)) (snd (guid_halves g)) = g
       \<and> guid_halves (guid_from_halves a b) = (a, b)"
proof
  have len: "length (guid_bytes g) = 16" using assms by (simp add: guid_wf_def)
  have "to_le (from_le (take 8 (guid_bytes g)) :: u64) = take 8 (guid_bytes g)"
    and "to_le (from_le (drop 8 (guid_bytes g)) :: u64) = drop 8 (guid_bytes g)"
    by (rule to_le_from_le, use len in simp)+
  then show "guid_from_halves (fst (guid_halves g)) (snd (guid_halves g)) = g"
    using len by (cases g) (simp add: guid_from_halves_def guid_halves_def)
  show "guid_halves (guid_from_halves a b) = (a, b)"
    by (simp add: guid_from_halves_def guid_halves_def)
qed

theorem guid_halves_roundtrip_witness:
  "guid_from_halves (fst (guid_halves guid_NULL)) (snd (guid_halves guid_NULL)) = guid_NULL
   \<and> guid_halves (guid_from_halves 7 9) = (7, 9)"
  by (rule guid_halves_roundtrip) (simp add: guid_wf_def guid_NULL_def)

end
