(* ===== verification/Rpc_Packet.thy ===== *)
theory Rpc_Packet
  imports Interfaces Rpc_Crc64 Rpc_Guid
begin

text \<open>
  \<open>crates/ytsaurus-rpc/src/bus/packet.rs\<close> and the receive loop of \<open>bus/mod.rs\<close>: bus packet
  framing. A packet is a 36-byte fixed header, for most packets a variable header with the
  size and checksum of every part, and the parts. \<open>Bytes\<close> and \<open>BytesMut\<close> are byte lists;
  \<open>usize\<close> and \<open>u64\<close> sizes are natural numbers, since the limits checked first keep every sum
  below \<open>2 ^ 60\<close>. Errors end the connection, so they carry no input buffer.
\<close>

section \<open>Constants and types\<close>

definition SIGNATURE :: u32 where "SIGNATURE = 0x78616d4f"
definition FIXED_HEADER_SIZE :: nat where "FIXED_HEADER_SIZE = 36"
definition NULL_PART_SIZE :: u32 where "NULL_PART_SIZE = 0xffffffff"
definition MAX_PART_SIZE :: nat where "MAX_PART_SIZE = 2 ^ 30"
definition MAX_PART_COUNT :: nat where "MAX_PART_COUNT = 2 ^ 28"
definition DEFAULT_MAX_PART_COUNT :: nat where "DEFAULT_MAX_PART_COUNT = 2 ^ 16"
definition NULL_CHECKSUM :: u64 where "NULL_CHECKSUM = 0"

lemmas packet_consts = SIGNATURE_def FIXED_HEADER_SIZE_def NULL_PART_SIZE_def MAX_PART_SIZE_def
  MAX_PART_COUNT_def DEFAULT_MAX_PART_COUNT_def NULL_CHECKSUM_def

datatype packet_type = Message | Ack | SslAck

fun packet_type_word :: "packet_type \<Rightarrow> u16" where
  "packet_type_word Message = 0"
| "packet_type_word Ack = 1"
| "packet_type_word SslAck = 2"

definition packet_type_from_wire :: "u16 \<Rightarrow> packet_type option" where
  "packet_type_from_wire v =
     (if v = 0 then Some Message else if v = 1 then Some Ack else if v = 2 then Some SslAck else None)"

type_synonym packet_flags = u16

definition flags_contains :: "packet_flags \<Rightarrow> packet_flags \<Rightarrow> bool" where
  "flags_contains f g = (f AND g = g)"

record packet =
  packet_type :: packet_type
  flags :: packet_flags
  packet_id :: guid
  parts :: "bytes option list"

definition packet_message :: "guid \<Rightarrow> bytes option list \<Rightarrow> packet_flags \<Rightarrow> packet" where
  "packet_message i ps f = \<lparr>packet_type = Message, flags = f, packet_id = i, parts = ps\<rparr>"

definition has_variable_header :: "packet \<Rightarrow> bool" where
  "has_variable_header p = (packet_type p = Message \<or> parts p \<noteq> [])"

datatype packet_error =
    Signature u32
  | UnknownType u16
  | TooManyParts nat
  | PartTooLarge nat nat
  | FixedHeaderChecksum u64 u64
  | VariableHeaderChecksum u64 u64
  | PartChecksum nat u64 u64
  | MessageTooLarge nat nat

section \<open>Encoding\<close>

text \<open>The loop of \<open>validate\<close> over the parts, from part \<open>index\<close> on.\<close>

fun validate_parts :: "nat \<Rightarrow> bytes option list \<Rightarrow> packet_error + unit" where
  "validate_parts index [] = Inr ()"
| "validate_parts index (None # ps) = validate_parts (Suc index) ps"
| "validate_parts index (Some bs # ps) =
     (if MAX_PART_SIZE < length bs
      then Inl (PartTooLarge index (min (length bs) (2 ^ 32 - 1)))
      else validate_parts (Suc index) ps)"

definition validate :: "packet \<Rightarrow> packet_error + unit" where
  "validate p =
     (if MAX_PART_COUNT < length (parts p)
      then Inl (TooManyParts (min (length (parts p)) (2 ^ 32 - 1)))
      else validate_parts 0 (parts p))"

fun size_word :: "bytes option \<Rightarrow> u32" where
  "size_word (Some bs) = of_nat (length bs)"
| "size_word None = NULL_PART_SIZE"

text \<open>\<open>part_checksum\<close>, which the encoder's second loop computes as well.\<close>

fun part_checksum :: "bytes option \<Rightarrow> u64" where
  "part_checksum (Some bs) = crc64_finish (crc64_chain crc64_new bs)"
| "part_checksum None = NULL_CHECKSUM"

fun part_payload :: "bytes option \<Rightarrow> bytes" where
  "part_payload (Some bs) = bs"
| "part_payload None = []"

definition header_prefix :: "packet \<Rightarrow> bytes" where
  "header_prefix p =
     to_le SIGNATURE @ to_le (packet_type_word (packet_type p)) @ to_le (flags p) @
     guid_bytes (packet_id p) @ to_le (of_nat (length (parts p)) :: u32)"

definition variable_prefix :: "packet \<Rightarrow> bytes" where
  "variable_prefix p = concat (map (to_le \<circ> size_word) (parts p)) @ concat (map (to_le \<circ> part_checksum) (parts p))"

definition encode :: "packet \<Rightarrow> bytes \<Rightarrow> packet_error + bytes" where
  "encode p out =
     (case validate p of
        Inl e \<Rightarrow> Inl e
      | Inr _ \<Rightarrow>
          (let fixed = header_prefix p @ to_le (checksum (header_prefix p))
           in if \<not> has_variable_header p then Inr (out @ fixed)
              else (let var = variable_prefix p @ to_le (checksum (variable_prefix p))
                    in Inr (out @ fixed @ var @ concat (map part_payload (parts p))))))"

definition variable_header_size :: "nat \<Rightarrow> nat" where
  "variable_header_size part_count = part_count * (4 + 8) + 8"

definition encoded_size :: "packet \<Rightarrow> nat" where
  "encoded_size p =
     (if \<not> has_variable_header p then FIXED_HEADER_SIZE
      else FIXED_HEADER_SIZE + variable_header_size (length (parts p)) +
           sum_list (map (length \<circ> part_payload) (parts p)))"

section \<open>Decoding\<close>

record fixed_header =
  h_type :: packet_type
  h_flags :: packet_flags
  h_id :: guid
  h_count :: nat

definition decode_fixed :: "bytes \<Rightarrow> nat \<Rightarrow> packet_error + fixed_header" where
  "decode_fixed header max_part_count =
     (let signature = from_le (take 4 header) :: u32;
          raw_type = from_le (take 2 (drop 4 header)) :: u16;
          fl = from_le (take 2 (drop 6 header)) :: u16;
          i = Guid (take 16 (drop 8 header));
          part_count = unat (from_le (take 4 (drop 24 header)) :: u32);
          stored = from_le (take 8 (drop 28 header)) :: u64;
          actual = checksum (take 28 header)
      in if signature \<noteq> SIGNATURE then Inl (Signature signature)
         else (case packet_type_from_wire raw_type of
                 None \<Rightarrow> Inl (UnknownType raw_type)
               | Some ty \<Rightarrow>
                   if stored \<noteq> NULL_CHECKSUM \<and> actual \<noteq> stored
                   then Inl (FixedHeaderChecksum stored actual)
                   else if min MAX_PART_COUNT max_part_count < part_count
                   then Inl (TooManyParts part_count)
                   else Inr \<lparr>h_type = ty, h_flags = fl, h_id = i, h_count = part_count\<rparr>))"

definition size_at :: "bytes \<Rightarrow> nat \<Rightarrow> u32" where
  "size_at variable index = from_le (take 4 (drop (index * 4) variable))"

definition checksum_at :: "bytes \<Rightarrow> nat \<Rightarrow> nat \<Rightarrow> u64" where
  "checksum_at variable part_count index = from_le (take 8 (drop (part_count * 4 + index * 8) variable))"

text \<open>The loop that adds up the part sizes.\<close>

fun sum_sizes :: "nat \<Rightarrow> u32 list \<Rightarrow> nat \<Rightarrow> packet_error + nat" where
  "sum_sizes index [] payload_size = Inr payload_size"
| "sum_sizes index (sz # sizes) payload_size =
     (if sz = NULL_PART_SIZE then sum_sizes (Suc index) sizes payload_size
      else if MAX_PART_SIZE < unat sz then Inl (PartTooLarge index (unat sz))
      else sum_sizes (Suc index) sizes (payload_size + unat sz))"

definition decode_variable :: "bytes \<Rightarrow> nat \<Rightarrow> packet_error + nat" where
  "decode_variable variable part_count =
     (let sz = length variable;
          stored = from_le (drop (sz - 8) variable) :: u64;
          actual = checksum (take (sz - 8) variable)
      in if stored \<noteq> NULL_CHECKSUM \<and> actual \<noteq> stored
         then Inl (VariableHeaderChecksum stored actual)
         else sum_sizes 0 (map (size_at variable) [0..<part_count]) 0)"

text \<open>The loop that splits the parts off the input and verifies them.\<close>

fun split_parts :: "nat \<Rightarrow> (u32 \<times> u64) list \<Rightarrow> bytes \<Rightarrow> packet_error + bytes option list \<times> bytes" where
  "split_parts index [] input = Inr ([], input)"
| "split_parts index ((sz, expected) # rest) input =
     (if sz = NULL_PART_SIZE then
        (case split_parts (Suc index) rest input of
           Inl e \<Rightarrow> Inl e | Inr (ps, input') \<Rightarrow> Inr (None # ps, input'))
      else
        (let part = take (unat sz) input; actual = checksum part
         in if expected \<noteq> NULL_CHECKSUM \<and> actual \<noteq> expected
            then Inl (PartChecksum index expected actual)
            else (case split_parts (Suc index) rest (drop (unat sz) input) of
                    Inl e \<Rightarrow> Inl e | Inr (ps, input') \<Rightarrow> Inr (Some part # ps, input'))))"

text \<open>
  \<open>decode_with\<close> in two parts: the fixed header, and what follows it. \<open>None\<close> is "read more".
\<close>

definition decode_body :: "fixed_header \<Rightarrow> bytes \<Rightarrow> nat \<Rightarrow> packet_error + packet option \<times> bytes" where
  "decode_body h input mms =
     (let k = variable_header_size (h_count h);
          header_total = FIXED_HEADER_SIZE + k
      in if mms < header_total then Inl (MessageTooLarge header_total mms)
         else if length input < header_total then Inr (None, input)
         else
           (let variable = take k (drop FIXED_HEADER_SIZE input)
            in case decode_variable variable (h_count h) of
                 Inl e \<Rightarrow> Inl e
               | Inr payload_size \<Rightarrow>
                   (let total = header_total + payload_size
                    in if mms < total then Inl (MessageTooLarge total mms)
                       else if length input < total then Inr (None, input)
                       else (case split_parts 0
                                (map (\<lambda>i. (size_at variable i, checksum_at variable (h_count h) i)) [0..<h_count h])
                                (drop header_total input) of
                               Inl e \<Rightarrow> Inl e
                             | Inr (ps, rest) \<Rightarrow>
                                 Inr (Some \<lparr>packet_type = h_type h, flags = h_flags h,
                                            packet_id = h_id h, parts = ps\<rparr>, rest)))))"

definition decode_with :: "bytes \<Rightarrow> nat \<Rightarrow> nat \<Rightarrow> packet_error + packet option \<times> bytes" where
  "decode_with input max_message_size max_part_count =
     (if length input < FIXED_HEADER_SIZE then Inr (None, input)
      else (case decode_fixed (take FIXED_HEADER_SIZE input) max_part_count of
        Inl e \<Rightarrow> Inl e
      | Inr h \<Rightarrow>
          if \<not> (h_type h = Message \<or> 0 < h_count h) then
            Inr (Some \<lparr>packet_type = h_type h, flags = h_flags h, packet_id = h_id h, parts = []\<rparr>,
                 drop FIXED_HEADER_SIZE input)
          else decode_body h input max_message_size))"

definition decode :: "bytes \<Rightarrow> nat \<Rightarrow> packet_error + packet option \<times> bytes" where
  "decode input max_message_size = decode_with input max_message_size DEFAULT_MAX_PART_COUNT"

section \<open>The receive loop of the connection\<close>

datatype bus_error = Packet packet_error | Closed

text \<open>
  \<open>BusReader::receive\<close>: the socket is the list of what its next reads return; an empty read,
  or no read at all, is the end of the stream.
\<close>

fun receive :: "nat \<Rightarrow> nat \<Rightarrow> bytes \<Rightarrow> bytes list \<Rightarrow> bus_error + packet \<times> bytes \<times> bytes list" where
  "receive mms mpc buffer reads =
     (case decode_with buffer mms mpc of
        Inl e \<Rightarrow> Inl (Packet e)
      | Inr (Some p, buffer') \<Rightarrow> Inr (p, buffer', reads)
      | Inr (None, buffer') \<Rightarrow>
          (case reads of
             [] \<Rightarrow> Inl Closed
           | r # rs \<Rightarrow> if r = [] then Inl Closed else receive mms mpc (buffer' @ r) rs))"

declare receive.simps [simp del]

fun receive_n :: "nat \<Rightarrow> nat \<Rightarrow> nat \<Rightarrow> bytes \<Rightarrow> bytes list \<Rightarrow> bus_error + packet list \<times> bytes \<times> bytes list" where
  "receive_n mms mpc 0 buffer reads = Inr ([], buffer, reads)"
| "receive_n mms mpc (Suc n) buffer reads =
     (case receive mms mpc buffer reads of
        Inl e \<Rightarrow> Inl e
      | Inr (p, buffer', reads') \<Rightarrow>
          (case receive_n mms mpc n buffer' reads' of
             Inl e \<Rightarrow> Inl e
           | Inr (ps, r) \<Rightarrow> Inr (p # ps, r)))"

section \<open>Reading back what the encoder wrote\<close>

lemma packet_type_from_wire_word [simp]: "packet_type_from_wire (packet_type_word ty) = Some ty"
  by (cases ty) (simp_all add: packet_type_from_wire_def)

lemma length_header_prefix: "guid_wf (packet_id p) \<Longrightarrow> length (header_prefix p) = 28"
  by (simp add: header_prefix_def guid_wf_def)

definition header_of :: "packet \<Rightarrow> fixed_header" where
  "header_of p = \<lparr>h_type = packet_type p, h_flags = flags p, h_id = packet_id p, h_count = length (parts p)\<rparr>"

lemma decode_fixed_header:
  assumes wf: "guid_wf (packet_id p)" and n: "length (parts p) \<le> min MAX_PART_COUNT mpc"
  shows "decode_fixed (header_prefix p @ to_le (checksum (header_prefix p))) mpc = Inr (header_of p)"
proof -
  have u: "unat (of_nat (length (parts p)) :: u32) = length (parts p)"
    using n by (simp add: unat_of_nat packet_consts)
  have len: "length (guid_bytes (packet_id p)) = 16" using wf by (simp add: guid_wf_def)
  have m: "\<not> min MAX_PART_COUNT mpc < length (parts p)" using n by linarith
  show ?thesis
    using u len length_header_prefix [OF wf]
    by (simp add: decode_fixed_def header_of_def Let_def) (simp add: header_prefix_def m)
qed

lemma take_drop_concat:
  "(\<And>x. length (f x) = w) \<Longrightarrow> i < length xs \<Longrightarrow>
   take w (drop (i * w) (concat (map f xs) @ rest)) = f (xs ! i)"
proof (induction xs arbitrary: i)
  case (Cons x xs)
  then show ?case by (cases i) (simp_all add: add.commute)
qed simp

lemma length_concat_fixed: "(\<And>x. length (f x) = w) \<Longrightarrow> length (concat (map f xs)) = length xs * w"
  by (induction xs) (simp_all add: algebra_simps)

lemma length_variable_prefix: "length (variable_prefix p) = length (parts p) * 12"
  by (simp add: variable_prefix_def length_concat_fixed [where w = 4] length_concat_fixed [where w = 8])

lemma size_at_prefix:
  "i < length (parts p) \<Longrightarrow> size_at (variable_prefix p @ rest) i = size_word (parts p ! i)"
  unfolding size_at_def variable_prefix_def append_assoc
  by (subst take_drop_concat [where w = 4]) simp_all

lemma checksum_at_prefix:
  "i < length (parts p) \<Longrightarrow>
   checksum_at (variable_prefix p @ rest) (length (parts p)) i = part_checksum (parts p ! i)"
proof -
  assume i: "i < length (parts p)"
  let ?a = "concat (map (to_le \<circ> size_word) (parts p))"
  have "length ?a = length (parts p) * 4" by (simp add: length_concat_fixed)
  then have "drop (length (parts p) * 4 + i * 8) (variable_prefix p @ rest) =
      drop (i * 8) (concat (map (to_le \<circ> part_checksum) (parts p)) @ rest)"
    by (simp add: variable_prefix_def)
  then show ?thesis
    unfolding checksum_at_def by (simp only:) (subst take_drop_concat [where w = 8], use i in simp_all)
qed

lemma map_at_prefix:
  "map (size_at (variable_prefix p @ rest)) [0..<length (parts p)] = map size_word (parts p)"
  "map (\<lambda>i. (size_at (variable_prefix p @ rest) i, checksum_at (variable_prefix p @ rest) (length (parts p)) i))
     [0..<length (parts p)] = map (\<lambda>q. (size_word q, part_checksum q)) (parts p)"
  by (rule nth_equalityI; simp add: size_at_prefix checksum_at_prefix)+

abbreviation parts_valid :: "bytes option list \<Rightarrow> bool" where
  "parts_valid ps \<equiv> (\<forall>bs. Some bs \<in> set ps \<longrightarrow> length bs \<le> MAX_PART_SIZE)"

lemma validate_parts_iff: "validate_parts i ps = Inr () \<longleftrightarrow> parts_valid ps"
  by (induction i ps rule: validate_parts.induct) auto

lemma validate_iff: "validate p = Inr u \<longleftrightarrow> length (parts p) \<le> MAX_PART_COUNT \<and> parts_valid (parts p)"
  by (simp add: validate_def validate_parts_iff not_less)

lemma size_word_Some:
  assumes "length bs \<le> MAX_PART_SIZE"
  shows "unat (of_nat (length bs) :: u32) = length bs" "(of_nat (length bs) :: u32) \<noteq> NULL_PART_SIZE"
proof -
  show u: "unat (of_nat (length bs) :: u32) = length bs"
    using assms by (simp add: unat_of_nat packet_consts)
  have "unat (of_nat (length bs) :: u32) \<noteq> unat NULL_PART_SIZE"
    using assms by (simp only: u) (simp add: packet_consts)
  then show "(of_nat (length bs) :: u32) \<noteq> NULL_PART_SIZE" by metis
qed

lemma sum_sizes_parts:
  "parts_valid ps \<Longrightarrow>
   sum_sizes i (map size_word ps) acc = Inr (acc + sum_list (map (length \<circ> part_payload) ps))"
proof (induction ps arbitrary: i acc)
  case (Cons q ps)
  then show ?case by (cases q) (auto simp: size_word_Some)
qed simp

lemma part_checksum_checksum [simp]: "part_checksum (Some bs) = checksum bs"
  by (simp add: checksum_def)

declare part_checksum.simps(1) [simp del]

lemma split_parts_parts:
  "parts_valid ps \<Longrightarrow>
   split_parts i (map (\<lambda>q. (size_word q, part_checksum q)) ps) (concat (map part_payload ps) @ rest) = Inr (ps, rest)"
proof (induction ps arbitrary: i)
  case (Cons q ps)
  then show ?case by (cases q) (auto simp: size_word_Some)
qed simp


text \<open>
  The decoder on the two headers of an encoded packet, followed by any payload of the
  announced size: what is left is the split into parts.
\<close>

lemma decode_with_headers:
  assumes wf: "guid_wf (packet_id p)"
    and enc: "encode p [] = Inr (hdr @ concat (map part_payload (parts p)))"
    and n: "length (parts p) \<le> mpc" and mms: "encoded_size p \<le> mms"
    and True: "has_variable_header p"
    and pay: "length (concat (map part_payload (parts p))) \<le> length payload"
  shows "decode_with (hdr @ payload) mms mpc =
    (case split_parts 0 (map (\<lambda>q. (size_word q, part_checksum q)) (parts p)) payload of
       Inl e \<Rightarrow> Inl e
     | Inr (ps, rest) \<Rightarrow> Inr (Some (p\<lparr>parts := ps\<rparr>), rest))"
proof -
  let ?h = "header_prefix p @ to_le (checksum (header_prefix p))"
  let ?v = "variable_prefix p @ to_le (checksum (variable_prefix p))"
  let ?k = "variable_header_size (length (parts p))"
  have val: "length (parts p) \<le> MAX_PART_COUNT" "parts_valid (parts p)"
    using enc validate_iff [of p "()"] by (auto simp: encode_def split: sum.splits)
  have lh: "length ?h = FIXED_HEADER_SIZE" by (simp add: length_header_prefix [OF wf] packet_consts)
  have lv: "length ?v = ?k" by (simp add: length_variable_prefix variable_header_size_def)
  have fixed: "decode_fixed ?h mpc = Inr (header_of p)"
    using decode_fixed_header [OF wf] val n by simp
  have hdr: "hdr = ?h @ ?v"
    using enc True by (auto simp: encode_def Let_def split: sum.splits)
  have msg: "packet_type p = Message \<or> 0 < length (parts p)"
    using True by (simp add: has_variable_header_def)
  have tot: "encoded_size p = FIXED_HEADER_SIZE + ?k + length (concat (map part_payload (parts p)))"
    using True by (simp add: encoded_size_def length_concat comp_def)
  have var: "decode_variable ?v (length (parts p)) = Inr (length (concat (map part_payload (parts p))))"
    using sum_sizes_parts [OF val(2)]
    by (simp add: decode_variable_def map_at_prefix length_concat comp_def)
  define input where "input = hdr @ payload"
  have take_h: "take FIXED_HEADER_SIZE input = ?h" and
    drop_h: "drop FIXED_HEADER_SIZE input = ?v @ payload"
    using lh by (simp_all add: hdr input_def)
  have take_v: "take ?k (drop FIXED_HEADER_SIZE input) = ?v"
    using lv unfolding drop_h by simp
  have drop_hv: "drop (FIXED_HEADER_SIZE + ?k) input = payload"
    using lh lv by (simp add: hdr input_def)
  have lens: "\<not> length input < FIXED_HEADER_SIZE" "\<not> length input < FIXED_HEADER_SIZE + ?k"
    "\<not> length input < FIXED_HEADER_SIZE + ?k + length (concat (map part_payload (parts p)))"
    using lh lv pay by (simp_all add: hdr input_def)
  show ?thesis
    unfolding input_def [symmetric] using msg tot mms lens
    by (simp add: decode_with_def decode_body_def take_h fixed header_of_def take_v var drop_hv Let_def
        map_at_prefix split: sum.split)
qed

lemma decode_with_encode:
  assumes wf: "guid_wf (packet_id p)" and enc: "encode p [] = Inr bs"
    and n: "length (parts p) \<le> mpc" and mms: "encoded_size p \<le> mms"
  shows "decode_with (bs @ rest) mms mpc = Inr (Some p, rest)"
proof (cases "has_variable_header p")
  case False
  let ?h = "header_prefix p @ to_le (checksum (header_prefix p))"
  have val: "length (parts p) \<le> MAX_PART_COUNT" "parts_valid (parts p)"
    using enc validate_iff [of p "()"] by (auto simp: encode_def split: sum.splits)
  have lh: "length ?h = FIXED_HEADER_SIZE" by (simp add: length_header_prefix [OF wf] packet_consts)
  have fixed: "decode_fixed ?h mpc = Inr (header_of p)"
    using decode_fixed_header [OF wf] val n by simp
  have "bs = ?h" using enc False by (auto simp: encode_def Let_def split: sum.splits)
  moreover have "\<not> (packet_type p = Message \<or> 0 < length (parts p))" "parts p = []"
    using False by (auto simp: has_variable_header_def)
  ultimately show ?thesis
    using lh fixed by (simp add: decode_with_def header_of_def)
next
  case True
  have valid: "parts_valid (parts p)"
    using enc validate_iff [of p "()"] by (auto simp: encode_def split: sum.splits)
  obtain hdr where bs: "bs = hdr @ concat (map part_payload (parts p))"
    using enc True by (auto simp: encode_def Let_def split: sum.splits)
  show ?thesis
    using decode_with_headers [OF wf enc [unfolded bs] n mms True]
    by (simp add: bs split_parts_parts [OF valid])
qed

section \<open>The decoder as a stream framer\<close>

definition sizes_total :: "u32 list \<Rightarrow> nat" where
  "sizes_total szs = sum_list (map (\<lambda>sz. if sz = NULL_PART_SIZE then 0 else unat sz) szs)"

lemma sum_sizes_total: "sum_sizes i szs acc = Inr n \<Longrightarrow> n = acc + sizes_total szs"
  by (induction i szs acc rule: sum_sizes.induct) (auto simp: sizes_total_def split: if_splits)

lemma split_parts_append:
  "sizes_total (map fst l) \<le> length xs \<Longrightarrow>
   split_parts i l (xs @ ys) =
     (case split_parts i l xs of Inl e \<Rightarrow> Inl e | Inr (ps, r) \<Rightarrow> Inr (ps, r @ ys))"
proof (induction i l xs rule: split_parts.induct)
  case (2 index sz expected rest input)
  show ?case
  proof (cases "sz = NULL_PART_SIZE")
    case True
    then show ?thesis using 2 by (simp add: sizes_total_def split: sum.split)
  next
    case False
    then have le: "unat sz \<le> length input" and
      tot: "sizes_total (map fst rest) \<le> length (drop (unat sz) input)"
      using 2(3) by (simp_all add: sizes_total_def)
    have eqs: "take (unat sz) (input @ ys) = take (unat sz) input"
      "drop (unat sz) (input @ ys) = drop (unat sz) input @ ys" using le by simp_all
    show ?thesis
    proof (cases "expected \<noteq> NULL_CHECKSUM \<and> checksum (take (unat sz) input) \<noteq> expected")
      case True
      then show ?thesis using False le by (simp add: Let_def)
    next
      case ok: False
      show ?thesis
        using False ok le 2(2) [OF False refl refl ok tot]
        by (cases "split_parts (Suc index) rest (drop (unat sz) input)") (auto simp: Let_def)
    qed
  qed
qed simp

lemma split_parts_rest: "split_parts i l xs = Inr (ps, r) \<Longrightarrow> length r \<le> length xs"
  by (induction i l xs arbitrary: ps r rule: split_parts.induct)
     (force simp: Let_def split: sum.splits if_splits prod.splits)+

lemma map_fst_zip_at: "map fst (map (\<lambda>i. (size_at v i, checksum_at v n i)) [0..<n]) = map (size_at v) [0..<n]"
  by simp

lemma decode_body_append:
  assumes "decode_body h xs mms \<noteq> Inr (None, xs)"
  shows "decode_body h (xs @ ys) mms =
    (case decode_body h xs mms of Inl e \<Rightarrow> Inl e | Inr (p, r) \<Rightarrow> Inr (p, r @ ys))"
proof -
  let ?k = "variable_header_size (h_count h)"
  let ?t = "FIXED_HEADER_SIZE + ?k"
  define v where "v = take ?k (drop FIXED_HEADER_SIZE xs)"
  show ?thesis
  proof (cases "mms < ?t")
    case True
    then show ?thesis by (simp add: decode_body_def)
  next
    case mt: False
    have lt: "\<not> length xs < ?t" using assms mt by (auto simp: decode_body_def)
    have v': "take ?k (drop FIXED_HEADER_SIZE (xs @ ys)) = v"
      using lt by (simp add: v_def)
    have d: "drop ?t (xs @ ys) = drop ?t xs @ ys" and l': "\<not> length (xs @ ys) < ?t" using lt by simp_all
    show ?thesis
    proof (cases "decode_variable v (h_count h)")
      case (Inl e)
      then show ?thesis using mt lt l' v' by (simp only: decode_body_def Let_def v_def [symmetric]) simp
    next
      case (Inr n)
      show ?thesis
      proof (cases "mms < ?t + n")
        case True
        then show ?thesis using mt lt l' v' Inr by (simp only: decode_body_def Let_def v_def [symmetric]) simp
      next
        case False
        have ln: "\<not> length xs < ?t + n"
          using assms mt lt False Inr
          by (auto simp: decode_body_def Let_def v_def)
        have "sizes_total (map (size_at v) [0..<h_count h]) = n"
          using Inr sum_sizes_total by (fastforce simp: decode_variable_def Let_def split: if_splits)
        then have sz: "sizes_total (map fst (map (\<lambda>i. (size_at v i, checksum_at v (h_count h) i)) [0..<h_count h])) \<le> length (drop ?t xs)"
          using ln unfolding map_fst_zip_at by simp
        have l2: "\<not> length (xs @ ys) < ?t + n" using ln by simp
        show ?thesis
          unfolding decode_body_def Let_def v' d v_def [symmetric] split_parts_append [OF sz]
          using mt lt l' Inr False ln l2 by (simp split: sum.split)
      qed
    qed
  qed
qed

lemma decode_body_rest:
  "decode_body h xs mms = Inr (Some p, r) \<Longrightarrow> length r + FIXED_HEADER_SIZE \<le> length xs"
  by (auto simp: decode_body_def Let_def split: if_splits sum.splits prod.splits dest!: split_parts_rest)

definition packet_frame :: "nat \<Rightarrow> nat \<Rightarrow> bytes \<Rightarrow> packet_error + (packet \<times> nat) option" where
  "packet_frame mms mpc input =
     (case decode_with input mms mpc of
        Inl e \<Rightarrow> Inl e
      | Inr (None, _) \<Rightarrow> Inr None
      | Inr (Some p, rest) \<Rightarrow> Inr (Some (p, length input - length rest)))"

lemma decode_with_append:
  assumes "decode_with xs mms mpc \<noteq> Inr (None, xs)"
  shows "decode_with (xs @ ys) mms mpc =
    (case decode_with xs mms mpc of Inl e \<Rightarrow> Inl e | Inr (p, r) \<Rightarrow> Inr (p, r @ ys))"
proof -
  have l: "\<not> length xs < FIXED_HEADER_SIZE" using assms by (auto simp: decode_with_def)
  have t: "take FIXED_HEADER_SIZE (xs @ ys) = take FIXED_HEADER_SIZE xs"
    and d: "drop FIXED_HEADER_SIZE (xs @ ys) = drop FIXED_HEADER_SIZE xs @ ys"
    and l': "\<not> length (xs @ ys) < FIXED_HEADER_SIZE" using l by simp_all
  show ?thesis
  proof (cases "decode_fixed (take FIXED_HEADER_SIZE xs) mpc")
    case (Inl e)
    then show ?thesis unfolding decode_with_def t using l l' by simp
  next
    case (Inr h)
    show ?thesis
    proof (cases "h_type h = Message \<or> 0 < h_count h")
      case True
      then have "decode_body h xs mms \<noteq> Inr (None, xs)"
        using assms l Inr by (auto simp: decode_with_def)
      from decode_body_append [OF this] show ?thesis
        unfolding decode_with_def t using l l' Inr True by simp
    next
      case False
      then show ?thesis unfolding decode_with_def t d using l l' Inr by simp
    qed
  qed
qed

lemma decode_body_None: "decode_body h xs mms = Inr (None, r) \<Longrightarrow> r = xs"
  by (auto simp: decode_body_def Let_def split: if_splits sum.splits prod.splits)

lemma decode_with_None: "decode_with xs mms mpc = Inr (None, r) \<Longrightarrow> r = xs"
  by (auto simp: decode_with_def dest: decode_body_None split: if_splits sum.splits)

lemma decode_with_rest:
  "decode_with xs mms mpc = Inr (Some p, r) \<Longrightarrow> length r + FIXED_HEADER_SIZE \<le> length xs"
  by (auto simp: decode_with_def dest: decode_body_rest split: if_splits sum.splits)

lemma packet_frame_Some:
  "packet_frame mms mpc xs = Inr (Some (p, n)) \<longleftrightarrow>
   (\<exists>r. decode_with xs mms mpc = Inr (Some p, r) \<and> n = length xs - length r)"
  by (auto simp: packet_frame_def split: sum.splits prod.splits option.splits)

lemma packet_frame_Inl: "packet_frame mms mpc xs = Inl e \<longleftrightarrow> decode_with xs mms mpc = Inl e"
  by (auto simp: packet_frame_def split: sum.splits prod.splits option.splits)

interpretation bus: stream_framer "packet_frame mms mpc" for mms mpc
proof unfold_locales
  show "packet_frame mms mpc [] = Inr None"
    by (simp add: packet_frame_def decode_with_def packet_consts)
next
  fix xs ys p n
  assume "packet_frame mms mpc xs = Inr (Some (p, n))"
  then obtain r where r: "decode_with xs mms mpc = Inr (Some p, r)" and n: "n = length xs - length r"
    by (auto simp: packet_frame_Some)
  have "length r + FIXED_HEADER_SIZE \<le> length xs" by (rule decode_with_rest [OF r])
  then show "0 < n \<and> n \<le> length xs" using n by (simp add: packet_consts)
  from decode_with_append [of xs mms mpc ys] r
  have "decode_with (xs @ ys) mms mpc = Inr (Some p, r @ ys)" by simp
  then show "packet_frame mms mpc (xs @ ys) = Inr (Some (p, n))"
    by (simp add: packet_frame_def n)
next
  fix xs ys e
  assume "packet_frame mms mpc xs = Inl e"
  then have "decode_with xs mms mpc = Inl e" by (simp add: packet_frame_Inl)
  with decode_with_append [of xs mms mpc ys] show "packet_frame mms mpc (xs @ ys) = Inl e"
    by (simp add: packet_frame_Inl)
qed

section \<open>The decoder only returns what the limits allow\<close>

lemma sum_sizes_bound:
  "sum_sizes i szs acc = Inr n \<Longrightarrow> \<forall>sz \<in> set szs. sz = NULL_PART_SIZE \<or> unat sz \<le> MAX_PART_SIZE"
  by (induction i szs acc rule: sum_sizes.induct) (auto split: if_splits)

lemma split_parts_Inr:
  "split_parts i l xs = Inr (ps, r) \<Longrightarrow> sizes_total (map fst l) \<le> length xs \<Longrightarrow>
   \<forall>sz \<in> set (map fst l). sz = NULL_PART_SIZE \<or> unat sz \<le> MAX_PART_SIZE \<Longrightarrow>
   length ps = length l \<and> parts_valid ps \<and> sum_list (map (length \<circ> part_payload) ps) = sizes_total (map fst l)
   \<and> xs = concat (map part_payload ps) @ r"
proof (induction i l xs arbitrary: ps r rule: split_parts.induct)
  case (2 index sz expected rest input)
  show ?case
  proof (cases "sz = NULL_PART_SIZE")
    case True
    then show ?thesis
      using 2(1) [OF True] 2(3-5) by (auto simp: sizes_total_def split: sum.splits)
  next
    case False
    have le: "unat sz \<le> length input" and tot: "sizes_total (map fst rest) \<le> length (drop (unat sz) input)"
      using 2(4) False by (simp_all add: sizes_total_def)
    have ok: "\<not> (expected \<noteq> NULL_CHECKSUM \<and> checksum (take (unat sz) input) \<noteq> expected)"
      using 2(3) False by (auto simp: Let_def split: if_splits)
    then obtain qs where qs: "split_parts (Suc index) rest (drop (unat sz) input) = Inr (qs, r)"
      and ps: "ps = Some (take (unat sz) input) # qs"
      using 2(3) False by (auto simp: Let_def split: sum.splits if_splits)
    have "unat sz \<le> MAX_PART_SIZE" using 2(5) False by auto
    moreover have "sizes_total (map fst ((sz, expected) # rest)) = unat sz + sizes_total (map fst rest)"
      using False by (simp add: sizes_total_def)
    moreover have "input = take (unat sz) input @ drop (unat sz) input" by simp
    ultimately show ?thesis
      using 2(2) [OF False refl refl ok qs tot] 2(5) le unfolding ps by auto
  qed
qed (simp add: sizes_total_def)

lemma decode_fixed_count: "decode_fixed header mpc = Inr h \<Longrightarrow> h_count h \<le> min MAX_PART_COUNT mpc"
  by (auto simp: decode_fixed_def Let_def not_less split: if_splits option.splits)

lemma decode_fixed_guid: "decode_fixed header mpc = Inr h \<Longrightarrow> 24 \<le> length header \<Longrightarrow> guid_wf (h_id h)"
  by (auto simp: decode_fixed_def Let_def guid_wf_def split: if_splits option.splits)

lemma decode_body_Some:
  assumes "decode_body h xs mms = Inr (Some p, r)"
  shows "packet_type p = h_type h \<and> packet_id p = h_id h \<and> length (parts p) = h_count h \<and> parts_valid (parts p)
    \<and> FIXED_HEADER_SIZE + variable_header_size (h_count h) + sum_list (map (length \<circ> part_payload) (parts p)) \<le> mms
    \<and> length xs = FIXED_HEADER_SIZE + variable_header_size (h_count h)
        + sum_list (map (length \<circ> part_payload) (parts p)) + length r
    \<and> (\<exists>pre. xs = pre @ r)"
proof -
  let ?t = "FIXED_HEADER_SIZE + variable_header_size (h_count h)"
  define v where "v = take (variable_header_size (h_count h)) (drop FIXED_HEADER_SIZE xs)"
  let ?l = "map (\<lambda>i. (size_at v i, checksum_at v (h_count h) i)) [0..<h_count h]"
  from assms obtain n ps where
    var: "decode_variable v (h_count h) = Inr n" and
    le: "\<not> mms < ?t + n" "\<not> length xs < ?t + n" and
    sp: "split_parts 0 ?l (drop ?t xs) = Inr (ps, r)" and
    p: "p = \<lparr>packet_type = h_type h, flags = h_flags h, packet_id = h_id h, parts = ps\<rparr>"
    by (auto simp: decode_body_def Let_def v_def split: if_splits sum.splits)
  have sum: "sum_sizes 0 (map (size_at v) [0..<h_count h]) 0 = Inr n"
    using var by (auto simp: decode_variable_def Let_def split: if_splits)
  have n: "sizes_total (map fst ?l) = n"
    using sum_sizes_total [OF sum] unfolding map_fst_zip_at by simp
  have ps: "length ps = length ?l \<and> parts_valid ps \<and> sum_list (map (length \<circ> part_payload) ps) = sizes_total (map fst ?l)
    \<and> drop ?t xs = concat (map part_payload ps) @ r"
    by (rule split_parts_Inr [OF sp]) (use le n sum_sizes_bound [OF sum] in \<open>simp_all add: map_fst_zip_at\<close>)
  have "xs = (take ?t xs @ concat (map part_payload ps)) @ r"
    using ps by (metis append.assoc append_take_drop_id)
  then have "\<exists>pre. xs = pre @ r" ..
  moreover have "length xs = ?t + length (drop ?t xs)" using le by simp
  ultimately show ?thesis
    using ps n le unfolding p by (simp add: length_concat comp_def)
qed

lemma decode_with_Some:
  assumes "decode_with xs mms mpc = Inr (Some p, r)"
  shows "validate p = Inr () \<and> guid_wf (packet_id p) \<and> length (parts p) \<le> mpc
    \<and> (has_variable_header p \<longrightarrow> encoded_size p \<le> mms)
    \<and> (\<exists>pre. xs = pre @ r \<and> length pre = encoded_size p)"
proof -
  obtain h where l: "\<not> length xs < FIXED_HEADER_SIZE"
    and h: "decode_fixed (take FIXED_HEADER_SIZE xs) mpc = Inr h"
    using assms by (auto simp: decode_with_def split: if_splits sum.splits)
  have c: "h_count h \<le> MAX_PART_COUNT" "h_count h \<le> mpc" and g: "guid_wf (h_id h)"
    using decode_fixed_count [OF h] decode_fixed_guid [OF h] l by (simp_all add: packet_consts)
  show ?thesis
  proof (cases "h_type h = Message \<or> 0 < h_count h")
    case True
    then have "decode_body h xs mms = Inr (Some p, r)"
      using assms l h by (simp add: decode_with_def)
    note b = decode_body_Some [OF this]
    have "has_variable_header p" using b True by (auto simp: has_variable_header_def)
    then have "encoded_size p = FIXED_HEADER_SIZE + variable_header_size (h_count h)
        + sum_list (map (length \<circ> part_payload) (parts p))"
      using b by (simp add: encoded_size_def)
    with b c g show ?thesis by (auto simp: validate_iff)
  next
    case False
    then have p: "p = \<lparr>packet_type = h_type h, flags = h_flags h, packet_id = h_id h, parts = []\<rparr>"
      and r: "r = drop FIXED_HEADER_SIZE xs"
      using assms l h by (simp_all add: decode_with_def)
    have "xs = take FIXED_HEADER_SIZE xs @ r" "length (take FIXED_HEADER_SIZE xs) = encoded_size p"
      using l False by (simp_all add: r p encoded_size_def has_variable_header_def)
    with False g show ?thesis by (auto simp: p validate_iff has_variable_header_def)
  qed
qed

section \<open>The receive loop over any reads\<close>

lemma receive_decodes:
  "decode_with (buffer @ concat reads) mms mpc = Inr (Some p, rest) \<Longrightarrow> [] \<notin> set reads \<Longrightarrow>
   \<exists>buffer' reads'. receive mms mpc buffer reads = Inr (p, buffer', reads')
     \<and> buffer' @ concat reads' = rest \<and> [] \<notin> set reads'"
proof (induction reads arbitrary: buffer)
  case Nil
  then show ?case by (simp add: receive.simps)
next
  case (Cons c cs)
  show ?case
  proof (cases "decode_with buffer mms mpc = Inr (None, buffer)")
    case True
    then show ?thesis
      using Cons.IH [of "buffer @ c"] Cons.prems by (subst receive.simps) auto
  next
    case False
    note app = decode_with_append [OF this, of "concat (c # cs)"]
    then obtain r where r: "decode_with buffer mms mpc = Inr (Some p, r)" and "r @ concat (c # cs) = rest"
      using Cons.prems by (auto split: sum.splits prod.splits)
    then show ?thesis using Cons.prems by (subst receive.simps) simp
  qed
qed

section \<open>Properties\<close>



text \<open>
  What the decoder returns is a packet the encoder would accept, within the receiver's
  limits on parts and on size, and it consumed exactly the size that packet encodes to.
\<close>

theorem packet_decode_bounded:
  assumes "decode_with input max_message_size max_part_count = Inr (Some p, rest)"
  shows "validate p = Inr () \<and> length (parts p) \<le> max_part_count
    \<and> (has_variable_header p \<longrightarrow> encoded_size p \<le> max_message_size)
    \<and> length input = encoded_size p + length rest \<and> drop (encoded_size p) input = rest"
  using decode_with_Some [OF assms] by auto

theorem packet_decode_bounded_witness:
  "\<exists>bs. decode_with bs 100 2 = Inr (Some (packet_message guid_NULL [None] 0), [7]) \<and> length bs = 57"
proof -
  let ?p = "packet_message guid_NULL [None] 0"
  have "validate ?p = Inr ()" by (simp add: packet_message_def validate_def packet_consts)
  then obtain bs where bs: "encode ?p [] = Inr bs"
    by (simp add: encode_def Let_def packet_message_def has_variable_header_def)
  have d: "decode_with (bs @ [7]) 100 2 = Inr (Some ?p, [7])"
    by (rule decode_with_encode [OF _ bs])
      (simp_all add: packet_message_def guid_wf_def guid_NULL_def encoded_size_def packet_consts
        variable_header_size_def has_variable_header_def)
  have "length (bs @ [7]) = 57"
    using packet_decode_bounded [OF d]
    by (simp add: packet_message_def encoded_size_def packet_consts variable_header_size_def has_variable_header_def)
  with d show ?thesis by blast
qed

text \<open>
  C4: the receive loop returns the packets of a connection in order, however the transport
  cut their bytes into reads, and keeps every byte that comes after them.
\<close>

theorem receive_any_chunking:
  assumes "list_all2 (\<lambda>p bs. guid_wf (packet_id p) \<and> encode p [] = Inr bs
             \<and> length (parts p) \<le> max_part_count \<and> encoded_size p \<le> max_message_size) ps bss"
    and "concat reads = concat bss @ rest" and "[] \<notin> set reads"
  shows "\<exists>buffer' reads'. receive_n max_message_size max_part_count (length ps) [] reads = Inr (ps, buffer', reads')
           \<and> buffer' @ concat reads' = rest"
proof -
  have "\<exists>buffer' reads'. receive_n max_message_size max_part_count (length ps) buffer reads = Inr (ps, buffer', reads')
           \<and> buffer' @ concat reads' = rest"
    if "buffer @ concat reads = concat bss @ rest" "[] \<notin> set reads" for buffer reads
    using assms(1) that
  proof (induction ps bss arbitrary: buffer reads rule: list_all2_induct)
    case (Cons p ps bs bss)
    have "decode_with (buffer @ concat reads) max_message_size max_part_count = Inr (Some p, concat bss @ rest)"
      using decode_with_encode Cons.hyps(1) Cons.prems(1) by simp
    from receive_decodes [OF this Cons.prems(2)] obtain b' r' where
      r: "receive max_message_size max_part_count buffer reads = Inr (p, b', r')"
      "b' @ concat r' = concat bss @ rest" "[] \<notin> set r'" by blast
    from Cons.IH [OF r(2,3)] show ?case using r(1) by auto
  qed simp
  from this [of "[]" reads] assms(2,3) show ?thesis by simp
qed

theorem receive_any_chunking_witness:
  "\<exists>bs. \<exists>buffer' reads'. receive_n 100 2 1 [] (map (\<lambda>b. [b]) (bs @ [7])) =
      Inr ([packet_message guid_NULL [None] 0], buffer', reads') \<and> buffer' @ concat reads' = [7]"
proof -
  let ?p = "packet_message guid_NULL [None] 0"
  have "validate ?p = Inr ()" by (simp add: packet_message_def validate_def packet_consts)
  then obtain bs where bs: "encode ?p [] = Inr bs"
    by (simp add: encode_def Let_def packet_message_def has_variable_header_def)
  have "list_all2 (\<lambda>p bs. guid_wf (packet_id p) \<and> encode p [] = Inr bs
             \<and> length (parts p) \<le> 2 \<and> encoded_size p \<le> 100) [?p] [bs]"
    using bs by (simp add: packet_message_def guid_wf_def guid_NULL_def encoded_size_def packet_consts
        variable_header_size_def has_variable_header_def)
  from receive_any_chunking [OF this, of "map (\<lambda>b. [b]) (bs @ [7])" "[7]"]
  show ?thesis by (auto simp: concat_map_singleton)
qed

text \<open>
  A burst of errors within eight consecutive bytes of one part, in a packet whose
  checksum is present, is reported as that part's checksum mismatch and never delivered.
\<close>

theorem corrupt_part_rejected:
  assumes "guid_wf (packet_id p)" and "parts p = ps @ Some (a @ xs @ b) # qs"
    and "encode p [] = Inr (headers @ concat (map part_payload (parts p)))"
    and "length (parts p) \<le> max_part_count" and "encoded_size p \<le> max_message_size"
    and "checksum (a @ xs @ b) \<noteq> NULL_CHECKSUM"
    and "length ys = length xs" and "length xs \<le> 8" and "xs \<noteq> ys"
  shows "decode_with (headers @ concat (map part_payload (ps @ Some (a @ ys @ b) # qs)) @ rest)
           max_message_size max_part_count
         = Inl (PartChecksum (length ps) (checksum (a @ xs @ b)) (checksum (a @ ys @ b)))"
proof -
  have hv: "has_variable_header p" using assms(2) by (simp add: has_variable_header_def)
  have valid: "parts_valid (parts p)"
    using assms(3) validate_iff [of p "()"] by (auto simp: encode_def split: sum.splits)
  have neq: "checksum (a @ ys @ b) \<noteq> checksum (a @ xs @ b)"
    using checksum_window [of ys xs a b] assms(7-9) by auto
  have sp: "split_parts i (map (\<lambda>q. (size_word q, part_checksum q)) (us @ Some (a @ xs @ b) # qs))
      (concat (map part_payload us) @ (a @ ys @ b) @ zs)
    = Inl (PartChecksum (i + length us) (checksum (a @ xs @ b)) (checksum (a @ ys @ b)))"
    if "parts_valid (us @ Some (a @ xs @ b) # qs)" for us i zs
    using that
  proof (induction us arbitrary: i)
    case Nil
    have le: "length (a @ xs @ b) \<le> MAX_PART_SIZE" using Nil by simp
    have "take (length (a @ xs @ b)) ((a @ ys @ b) @ zs) = a @ ys @ b" using assms(7) by simp
    then show ?case
      using size_word_Some [OF le] neq assms(6) by (simp add: Let_def del: take_append)
  next
    case (Cons q us)
    then show ?case by (cases q) (auto simp: size_word_Some)
  qed
  show ?thesis
    using decode_with_headers [OF assms(1,3,4,5) hv, of "concat (map part_payload (ps @ Some (a @ ys @ b) # qs)) @ rest"]
      sp [of ps 0 "concat (map part_payload qs) @ rest"] valid assms(2,7)
    by simp
qed

theorem corrupt_part_rejected_witness:
  "\<exists>headers. decode_with (headers @ [2]) 100 1 = Inl (PartChecksum 0 (checksum [1]) (checksum [2]))"
proof -
  let ?p = "packet_message guid_NULL [Some [1]] 0"
  have "validate ?p = Inr ()" by (simp add: packet_message_def validate_def packet_consts)
  then obtain h where h: "encode ?p [] = Inr (h @ concat (map part_payload (parts ?p)))"
    by (simp add: encode_def Let_def packet_message_def has_variable_header_def)
  have nz: "checksum ([] @ [1] @ []) \<noteq> NULL_CHECKSUM"
    by (simp add: checksum_long_division crc_spec_def crc_byte_def packet_consts) code_simp
  show ?thesis
    using corrupt_part_rejected [OF _ _ h _ _ nz, of "[]" "[]" 1 100 "[2]" "[]"]
    by (auto simp: packet_message_def guid_wf_def guid_NULL_def encoded_size_def packet_consts
        variable_header_size_def has_variable_header_def)
qed

section \<open>Packets as a codec\<close>

definition packet_bytes :: "packet \<Rightarrow> bytes" where
  "packet_bytes p = (case encode p [] of Inr bs \<Rightarrow> bs | Inl _ \<Rightarrow> [])"

definition decode_packet :: "nat \<Rightarrow> nat \<Rightarrow> bytes \<Rightarrow> packet_error option + packet \<times> nat" where
  "decode_packet mms mpc input =
     (case packet_frame mms mpc input of
        Inl e \<Rightarrow> Inl (Some e) | Inr None \<Rightarrow> Inl None | Inr (Some r) \<Rightarrow> Inr r)"

definition sendable :: "nat \<Rightarrow> nat \<Rightarrow> packet \<Rightarrow> bool" where
  "sendable mms mpc p =
     (guid_wf (packet_id p) \<and> validate p = Inr () \<and> length (parts p) \<le> mpc \<and> encoded_size p \<le> mms)"

lemma sendable_decode:
  assumes "sendable mms mpc p"
  shows "decode_with (packet_bytes p @ rest) mms mpc = Inr (Some p, rest)"
proof -
  obtain bs where "encode p [] = Inr bs"
    using assms by (cases "has_variable_header p") (simp_all add: sendable_def encode_def Let_def)
  then show ?thesis
    using assms decode_with_encode [of p bs mpc mms rest] by (simp add: sendable_def packet_bytes_def)
qed

interpretation packet_codec: starving_codec packet_bytes "decode_packet mms mpc" "sendable mms mpc" "\<lambda>e. e = None"
  for mms mpc
proof unfold_locales
  fix p rest
  assume "sendable mms mpc p"
  from sendable_decode [OF this, of rest]
  show "decode_packet mms mpc (packet_bytes p @ rest) = Inr (p, length (packet_bytes p))"
    by (simp add: decode_packet_def packet_frame_def)
next
  fix p n
  assume s: "sendable mms mpc p" and n: "n < length (packet_bytes p)"
  let ?pre = "take n (packet_bytes p)"
  have full: "packet_frame mms mpc (?pre @ drop n (packet_bytes p)) = Inr (Some (p, length (packet_bytes p)))"
    using sendable_decode [OF s, of "[]"] by (simp add: packet_frame_def)
  have "packet_frame mms mpc ?pre = Inr None"
  proof (cases "packet_frame mms mpc ?pre")
    case (Inl e)
    from bus.fault_final [OF Inl, of "drop n (packet_bytes p)"] full show ?thesis by simp
  next
    case (Inr f)
    show ?thesis
    proof (cases f)
      case (Some r)
      obtain q k where r: "r = (q, k)" by fastforce
      with Inr Some have f: "packet_frame mms mpc ?pre = Inr (Some (q, k))" by simp
      from bus.frame_final [OF f, of "drop n (packet_bytes p)"] full have "k = length (packet_bytes p)" by simp
      with bus.frame_consumes [OF f] n show ?thesis by simp
    qed (use Inr in simp)
  qed
  then show "\<exists>e. decode_packet mms mpc ?pre = Inl e \<and> e = None"
    by (simp add: decode_packet_def)
qed

end
