(* ===== verification/Rpc_Rowset.thy ===== *)
theory Rpc_Rowset
  imports Interfaces Rpc_Packet
begin

text \<open>
  \<open>crates/ytsaurus-rpc/src/wire.rs\<close>: the row wire format of RPC attachments. A rowset is a
  row count and its rows, a row a value count (or the null-row marker) and its values, a
  value an 8-byte header and the payload its type calls for, padded to 8 bytes. The decoder
  is the code's \<open>Reader\<close>: the input and the offset of the next byte.
\<close>

section \<open>Constants and types\<close>

definition ALIGNMENT :: nat where "ALIGNMENT = 8"
definition NULL_ROW_MARKER :: u64 where "NULL_ROW_MARKER = 0xffffffffffffffff"
definition MAX_ROWS_PER_ROWSET :: nat where "MAX_ROWS_PER_ROWSET = 5 * 1024 * 1024"
definition MAX_VALUES_PER_ROW :: nat where "MAX_VALUES_PER_ROW = 1024"
definition MAX_VALUE_LENGTH :: nat where "MAX_VALUE_LENGTH = 16 * 1024 * 1024"
definition MAX_ROWSET_SIZE :: nat where "MAX_ROWSET_SIZE = MAX_PART_SIZE"

lemmas rowset_consts = ALIGNMENT_def NULL_ROW_MARKER_def MAX_ROWS_PER_ROWSET_def
  MAX_VALUES_PER_ROW_def MAX_VALUE_LENGTH_def MAX_ROWSET_SIZE_def MAX_PART_SIZE_def

datatype value_type =
    ValueType_Null
  | ValueType_Int64
  | ValueType_Uint64
  | ValueType_Double
  | ValueType_Boolean
  | ValueType_String
  | ValueType_Any
  | ValueType_Composite

fun value_type_byte :: "value_type \<Rightarrow> u8" where
  "value_type_byte ValueType_Null = 0x02"
| "value_type_byte ValueType_Int64 = 0x03"
| "value_type_byte ValueType_Uint64 = 0x04"
| "value_type_byte ValueType_Double = 0x05"
| "value_type_byte ValueType_Boolean = 0x06"
| "value_type_byte ValueType_String = 0x10"
| "value_type_byte ValueType_Any = 0x11"
| "value_type_byte ValueType_Composite = 0x12"

definition value_type_from_wire :: "u8 \<Rightarrow> value_type option" where
  "value_type_from_wire v =
     (if v = 0x02 then Some ValueType_Null
      else if v = 0x03 then Some ValueType_Int64
      else if v = 0x04 then Some ValueType_Uint64
      else if v = 0x05 then Some ValueType_Double
      else if v = 0x06 then Some ValueType_Boolean
      else if v = 0x10 then Some ValueType_String
      else if v = 0x11 then Some ValueType_Any
      else if v = 0x12 then Some ValueType_Composite
      else None)"

datatype wire_value =
    Value_Null
  | Value_Int64 i64
  | Value_Uint64 u64
  | Value_Double f64
  | Value_Boolean bool
  | Value_String bytes
  | Value_Any bytes
  | Value_Composite bytes

fun value_type_of :: "wire_value \<Rightarrow> value_type" where
  "value_type_of Value_Null = ValueType_Null"
| "value_type_of (Value_Int64 _) = ValueType_Int64"
| "value_type_of (Value_Uint64 _) = ValueType_Uint64"
| "value_type_of (Value_Double _) = ValueType_Double"
| "value_type_of (Value_Boolean _) = ValueType_Boolean"
| "value_type_of (Value_String _) = ValueType_String"
| "value_type_of (Value_Any _) = ValueType_Any"
| "value_type_of (Value_Composite _) = ValueType_Composite"

fun blob :: "wire_value \<Rightarrow> bytes option" where
  "blob (Value_String bs) = Some bs"
| "blob (Value_Any bs) = Some bs"
| "blob (Value_Composite bs) = Some bs"
| "blob _ = None"

fun scalar :: "wire_value \<Rightarrow> u64 option" where
  "scalar (Value_Int64 v) = Some v"
| "scalar (Value_Uint64 v) = Some v"
| "scalar (Value_Double v) = Some v"
| "scalar (Value_Boolean v) = Some (if v then 1 else 0)"
| "scalar _ = None"

definition padding_for :: "nat \<Rightarrow> nat" where
  "padding_for len = (ALIGNMENT - len mod ALIGNMENT) mod ALIGNMENT"

fun value_wire_size :: "wire_value \<Rightarrow> nat" where
  "value_wire_size Value_Null = ALIGNMENT + 0"
| "value_wire_size (Value_String bs) = ALIGNMENT + (length bs + padding_for (length bs))"
| "value_wire_size (Value_Any bs) = ALIGNMENT + (length bs + padding_for (length bs))"
| "value_wire_size (Value_Composite bs) = ALIGNMENT + (length bs + padding_for (length bs))"
| "value_wire_size _ = ALIGNMENT + ALIGNMENT"

record unversioned_value =
  column_id :: u16
  aggregate :: bool
  wire_value :: wire_value

definition wire_size :: "unversioned_value \<Rightarrow> nat" where
  "wire_size v = value_wire_size (wire_value v)"

type_synonym row = "unversioned_value list"
type_synonym maybe_row = "row option"

datatype wire_error =
    Truncated nat nat
  | TooManyRows nat
  | TooManyValues nat nat
  | ValueTooLong nat
  | RowsetTooLarge nat
  | AllocationFailed nat
  | UnknownValueType u8
  | TrailingBytes nat

section \<open>Encoding\<close>

fun row_size :: "maybe_row \<Rightarrow> nat" where
  "row_size None = ALIGNMENT"
| "row_size (Some vs) = ALIGNMENT + sum_list (map wire_size vs)"

definition rowset_size :: "maybe_row list \<Rightarrow> nat" where
  "rowset_size rows = ALIGNMENT + sum_list (map row_size rows)"

definition validate_value :: "unversioned_value \<Rightarrow> wire_error + unit" where
  "validate_value v =
     (case blob (wire_value v) of
        Some bs \<Rightarrow> if MAX_VALUE_LENGTH < length bs then Inl (ValueTooLong (min (length bs) (2 ^ 32 - 1))) else Inr ()
      | None \<Rightarrow> Inr ())"

definition add_to_rowset_size :: "nat \<Rightarrow> nat \<Rightarrow> wire_error + nat" where
  "add_to_rowset_size s additional =
     (if MAX_ROWSET_SIZE < s + additional then Inl (RowsetTooLarge (s + additional)) else Inr (s + additional))"

fun validate_values :: "unversioned_value list \<Rightarrow> nat \<Rightarrow> wire_error + nat" where
  "validate_values [] s = Inr s"
| "validate_values (v # vs) s =
     (case validate_value v of
        Inl e \<Rightarrow> Inl e
      | Inr _ \<Rightarrow> (case add_to_rowset_size s (wire_size v) of Inl e \<Rightarrow> Inl e | Inr s' \<Rightarrow> validate_values vs s'))"

fun validate_rows :: "nat \<Rightarrow> maybe_row list \<Rightarrow> nat \<Rightarrow> wire_error + nat" where
  "validate_rows index [] s = Inr s"
| "validate_rows index (r # rows) s =
     (case add_to_rowset_size s ALIGNMENT of
        Inl e \<Rightarrow> Inl e
      | Inr s' \<Rightarrow>
          (case r of
             None \<Rightarrow> validate_rows (Suc index) rows s'
           | Some vs \<Rightarrow>
               if MAX_VALUES_PER_ROW < length vs then Inl (TooManyValues index (length vs))
               else (case validate_values vs s' of
                       Inl e \<Rightarrow> Inl e
                     | Inr s'' \<Rightarrow> validate_rows (Suc index) rows s'')))"

definition validate_and_measure :: "maybe_row list \<Rightarrow> wire_error + nat" where
  "validate_and_measure rows =
     (if MAX_ROWS_PER_ROWSET < length rows then Inl (TooManyRows (length rows))
      else validate_rows 0 rows ALIGNMENT)"

definition encode_value_unchecked :: "unversioned_value \<Rightarrow> bytes" where
  "encode_value_unchecked v =
     to_le (column_id v) @ [value_type_byte (value_type_of (wire_value v))] @ [if aggregate v then 1 else 0] @
     to_le ((case blob (wire_value v) of None \<Rightarrow> 0 | Some bs \<Rightarrow> of_nat (length bs)) :: u32) @
     (case scalar (wire_value v) of
        Some w \<Rightarrow> to_le w
      | None \<Rightarrow>
          (case blob (wire_value v) of
             Some bs \<Rightarrow> bs @ replicate (padding_for (length bs)) 0
           | None \<Rightarrow> []))"

fun encode_row_unchecked :: "maybe_row \<Rightarrow> bytes" where
  "encode_row_unchecked None = to_le NULL_ROW_MARKER"
| "encode_row_unchecked (Some vs) =
     to_le (of_nat (length vs) :: u64) @ concat (map encode_value_unchecked vs)"

definition encode_rowset_unchecked :: "maybe_row list \<Rightarrow> bytes \<Rightarrow> bytes" where
  "encode_rowset_unchecked rows out =
     out @ to_le (of_nat (length rows) :: u64) @ concat (map encode_row_unchecked rows)"

text \<open>\<open>reserve n\<close> says whether the allocator can provide \<open>n\<close> bytes (\<open>try_reserve_exact\<close>).\<close>

definition encode_rowset :: "(nat \<Rightarrow> bool) \<Rightarrow> maybe_row list \<Rightarrow> wire_error + bytes" where
  "encode_rowset reserve rows =
     (case validate_and_measure rows of
        Inl e \<Rightarrow> Inl e
      | Inr n \<Rightarrow> if reserve n then Inr (encode_rowset_unchecked rows []) else Inl (AllocationFailed n))"

definition encode_rowset_into :: "maybe_row list \<Rightarrow> bytes \<Rightarrow> wire_error + bytes" where
  "encode_rowset_into rows out =
     (case validate_and_measure rows of
        Inl e \<Rightarrow> Inl e
      | Inr _ \<Rightarrow> Inr (encode_rowset_unchecked rows out))"

section \<open>Decoding\<close>

definition need :: "bytes \<Rightarrow> nat \<Rightarrow> nat \<Rightarrow> wire_error + unit" where
  "need input offset count =
     (if length input - offset < count
      then Inl (Truncated offset (count - (length input - offset))) else Inr ())"

definition read_u64 :: "bytes \<Rightarrow> nat \<Rightarrow> wire_error + u64 \<times> nat" where
  "read_u64 input offset =
     (case need input offset 8 of
        Inl e \<Rightarrow> Inl e
      | Inr _ \<Rightarrow> Inr (from_le (take 8 (drop offset input)), offset + 8))"

fun scalar_value :: "value_type \<Rightarrow> u64 \<Rightarrow> wire_value" where
  "scalar_value ValueType_Int64 w = Value_Int64 w"
| "scalar_value ValueType_Uint64 w = Value_Uint64 w"
| "scalar_value ValueType_Double w = Value_Double w"
| "scalar_value _ w = Value_Boolean (w \<noteq> 0)"

fun blob_value :: "value_type \<Rightarrow> bytes \<Rightarrow> wire_value" where
  "blob_value ValueType_String bs = Value_String bs"
| "blob_value ValueType_Any bs = Value_Any bs"
| "blob_value _ bs = Value_Composite bs"

fun is_string_like :: "value_type \<Rightarrow> bool" where
  "is_string_like ValueType_String = True"
| "is_string_like ValueType_Any = True"
| "is_string_like ValueType_Composite = True"
| "is_string_like _ = False"

text \<open>The \<open>match value_type\<close> of \<open>read_value\<close>: the payload after the header.\<close>

definition read_payload :: "bytes \<Rightarrow> value_type \<Rightarrow> nat \<Rightarrow> nat \<Rightarrow> wire_error + wire_value \<times> nat" where
  "read_payload input ty len offset =
     (if ty = ValueType_Null then Inr (Value_Null, offset)
      else if \<not> is_string_like ty then
        (case read_u64 input offset of
           Inl e \<Rightarrow> Inl e
         | Inr (w, offset') \<Rightarrow> Inr (scalar_value ty w, offset'))
      else if MAX_VALUE_LENGTH < len then Inl (ValueTooLong len)
      else
        (let padded = len + padding_for len
         in case need input offset padded of
              Inl e \<Rightarrow> Inl e
            | Inr _ \<Rightarrow> Inr (blob_value ty (take len (drop offset input)), offset + padded)))"

definition read_value :: "bytes \<Rightarrow> nat \<Rightarrow> wire_error + unversioned_value \<times> nat" where
  "read_value input offset =
     (case need input offset 8 of
        Inl e \<Rightarrow> Inl e
      | Inr _ \<Rightarrow>
          (let header = take 8 (drop offset input);
               i = from_le (take 2 header) :: u16;
               raw_type = header ! 2;
               agg = (header ! 3 \<noteq> 0);
               len = unat (from_le (drop 4 header) :: u32)
           in case value_type_from_wire raw_type of
                None \<Rightarrow> Inl (UnknownValueType raw_type)
              | Some ty \<Rightarrow>
                  (case read_payload input ty len (offset + 8) of
                     Inl e \<Rightarrow> Inl e
                   | Inr (v, offset') \<Rightarrow>
                       Inr (\<lparr>column_id = i, aggregate = agg, wire_value = v\<rparr>, offset'))))"

fun read_values :: "bytes \<Rightarrow> nat \<Rightarrow> nat \<Rightarrow> wire_error + row \<times> nat" where
  "read_values input 0 offset = Inr ([], offset)"
| "read_values input (Suc n) offset =
     (case read_value input offset of
        Inl e \<Rightarrow> Inl e
      | Inr (v, offset') \<Rightarrow>
          (case read_values input n offset' of
             Inl e \<Rightarrow> Inl e
           | Inr (vs, offset'') \<Rightarrow> Inr (v # vs, offset'')))"

definition read_row :: "bytes \<Rightarrow> nat \<Rightarrow> nat \<Rightarrow> wire_error + maybe_row \<times> nat" where
  "read_row input index offset =
     (case read_u64 input offset of
        Inl e \<Rightarrow> Inl e
      | Inr (value_count, offset') \<Rightarrow>
          if value_count = NULL_ROW_MARKER then Inr (None, offset')
          else if MAX_VALUES_PER_ROW < unat value_count then Inl (TooManyValues index (unat value_count))
          else (case read_values input (unat value_count) offset' of
                  Inl e \<Rightarrow> Inl e
                | Inr (vs, offset'') \<Rightarrow> Inr (Some vs, offset'')))"

fun read_rows :: "bytes \<Rightarrow> nat \<Rightarrow> nat \<Rightarrow> nat \<Rightarrow> wire_error + maybe_row list \<times> nat" where
  "read_rows input 0 index offset = Inr ([], offset)"
| "read_rows input (Suc n) index offset =
     (case read_row input index offset of
        Inl e \<Rightarrow> Inl e
      | Inr (r, offset') \<Rightarrow>
          (case read_rows input n (Suc index) offset' of
             Inl e \<Rightarrow> Inl e
           | Inr (rs, offset'') \<Rightarrow> Inr (r # rs, offset'')))"

definition decode_rowset :: "bytes \<Rightarrow> wire_error + maybe_row list" where
  "decode_rowset input =
     (case read_u64 input 0 of
        Inl e \<Rightarrow> Inl e
      | Inr (row_count, offset) \<Rightarrow>
          if MAX_ROWS_PER_ROWSET < unat row_count then Inl (TooManyRows (unat row_count))
          else (case read_rows input (unat row_count) 0 offset of
                  Inl e \<Rightarrow> Inl e
                | Inr (rows, offset') \<Rightarrow>
                    if offset' \<noteq> length input then Inl (TrailingBytes (length input - offset'))
                    else Inr rows))"

section \<open>What the encoder accepts\<close>

definition value_ok :: "unversioned_value \<Rightarrow> bool" where
  "value_ok v = (case blob (wire_value v) of None \<Rightarrow> True | Some bs \<Rightarrow> length bs \<le> MAX_VALUE_LENGTH)"

fun row_ok :: "maybe_row \<Rightarrow> bool" where
  "row_ok None = True"
| "row_ok (Some vs) = (length vs \<le> MAX_VALUES_PER_ROW \<and> (\<forall>v \<in> set vs. value_ok v))"

definition rowset_ok :: "maybe_row list \<Rightarrow> bool" where
  "rowset_ok rows = (length rows \<le> MAX_ROWS_PER_ROWSET \<and> (\<forall>r \<in> set rows. row_ok r))"

lemma validate_value_iff: "validate_value v = Inr () \<longleftrightarrow> value_ok v"
  by (auto simp: validate_value_def value_ok_def split: option.splits)

lemma add_to_rowset_size_iff:
  "add_to_rowset_size s a = Inr n \<longleftrightarrow> n = s + a \<and> s + a \<le> MAX_ROWSET_SIZE"
  by (auto simp: add_to_rowset_size_def)

lemma validate_values_iff:
  "s \<le> MAX_ROWSET_SIZE \<Longrightarrow>
   validate_values vs s = Inr n \<longleftrightarrow>
     (\<forall>v \<in> set vs. value_ok v) \<and> n = s + sum_list (map wire_size vs) \<and> n \<le> MAX_ROWSET_SIZE"
proof (induction vs arbitrary: s)
  case (Cons v vs)
  show ?case
  proof (cases "value_ok v \<and> s + wire_size v \<le> MAX_ROWSET_SIZE")
    case True
    then show ?thesis
      using Cons.IH [of "s + wire_size v"] validate_value_iff [of v]
      by (simp add: add_to_rowset_size_def add.assoc)
  next
    case False
    then show ?thesis
      using validate_value_iff [of v] by (auto simp: add_to_rowset_size_def split: sum.splits)
  qed
qed auto

lemma validate_rows_iff:
  "s \<le> MAX_ROWSET_SIZE \<Longrightarrow>
   validate_rows i rows s = Inr n \<longleftrightarrow>
     (\<forall>r \<in> set rows. row_ok r) \<and> n = s + sum_list (map row_size rows) \<and> n \<le> MAX_ROWSET_SIZE"
proof (induction rows arbitrary: s i)
  case (Cons r rows)
  show ?case
  proof (cases "s + ALIGNMENT \<le> MAX_ROWSET_SIZE")
    case al: True
    show ?thesis
    proof (cases r)
      case None
      then show ?thesis
        using al Cons.IH [of "s + ALIGNMENT" "Suc i"] by (simp add: add_to_rowset_size_def add.assoc)
    next
      case (Some vs)
      show ?thesis
      proof (cases "validate_values vs (s + ALIGNMENT)")
        case (Inl e)
        then show ?thesis
          using al validate_values_iff [OF al, of vs "s + ALIGNMENT + sum_list (map wire_size vs)"]
          by (auto simp: Some add_to_rowset_size_def)
      next
        case (Inr m)
        then show ?thesis
          using al Cons.IH [of m "Suc i"] validate_values_iff [OF al, of vs m]
          by (auto simp: Some add_to_rowset_size_def)
      qed
    qed
  next
    case False
    then show ?thesis by (cases r) (auto simp: add_to_rowset_size_def)
  qed
qed auto

lemma validate_and_measure_iff:
  "validate_and_measure rows = Inr n \<longleftrightarrow>
     rowset_ok rows \<and> n = rowset_size rows \<and> rowset_size rows \<le> MAX_ROWSET_SIZE"
  by (auto simp: validate_and_measure_def rowset_ok_def rowset_size_def validate_rows_iff rowset_consts not_less)

section \<open>Reading back what the encoder wrote\<close>

lemma value_type_from_wire_byte [simp]: "value_type_from_wire (value_type_byte ty) = Some ty"
  by (cases ty) (simp_all add: value_type_from_wire_def)

lemma length_encode_value: "length (encode_value_unchecked v) = wire_size v"
  by (cases "wire_value v") (simp_all add: encode_value_unchecked_def wire_size_def ALIGNMENT_def)

lemma length_encode_row: "length (encode_row_unchecked r) = row_size r"
  by (cases r) (simp_all add: ALIGNMENT_def length_concat comp_def length_encode_value)

lemma length_encode_rowset: "length (encode_rowset_unchecked rows out) = length out + rowset_size rows"
  by (simp add: encode_rowset_unchecked_def rowset_size_def ALIGNMENT_def length_concat comp_def length_encode_row)

lemma padding_aligned: "8 dvd len + padding_for len"
proof -
  define q r where "q = len div 8" and "r = len mod 8"
  then have len: "len = 8 * q + r" and "r < 8" by simp_all
  then have "padding_for len = (if r = 0 then 0 else 8 - r)"
    by (simp add: padding_for_def ALIGNMENT_def)
  then have "len + padding_for len = 8 * (if r = 0 then q else Suc q)"
    using len \<open>r < 8\<close> by simp
  then show ?thesis by (simp only: dvd_triv_left)
qed

lemma wire_size_aligned: "8 dvd wire_size v"
proof (cases "wire_value v")
  case (Value_String x6)
  then show ?thesis using padding_aligned [of "length x6"] by (simp add: wire_size_def ALIGNMENT_def)
next
  case (Value_Any x7)
  then show ?thesis using padding_aligned [of "length x7"] by (simp add: wire_size_def ALIGNMENT_def)
next
  case (Value_Composite x8)
  then show ?thesis using padding_aligned [of "length x8"] by (simp add: wire_size_def ALIGNMENT_def)
qed (simp_all add: wire_size_def ALIGNMENT_def)

lemma dvd_sum_list: "\<forall>x \<in> set xs. (d::nat) dvd f x \<Longrightarrow> d dvd sum_list (map f xs)"
  by (induction xs) simp_all

lemma rowset_size_aligned: "8 dvd rowset_size rows"
proof -
  have "8 dvd row_size r" for r
    by (cases r) (simp_all add: ALIGNMENT_def dvd_sum_list wire_size_aligned)
  then show ?thesis by (simp add: rowset_size_def ALIGNMENT_def dvd_sum_list)
qed

text \<open>What stands at an offset of the input, and what stands after it.\<close>

lemma drop_length: "drop off input = xs @ rest \<Longrightarrow> length xs \<le> length input - off"
  by (metis length_append length_drop le_add1)

lemma read_u64_at: "drop off input = to_le w @ rest \<Longrightarrow> read_u64 input off = Inr (w, off + 8)"
  using drop_length [of off input "to_le w" rest] by (simp add: read_u64_def need_def)

lemma need_at: "drop off input = xs @ rest \<Longrightarrow> n \<le> length xs \<Longrightarrow> need input off n = Inr ()"
  using drop_length [of off input xs rest] by (simp add: need_def)

lemma blob_length_word:
  "length bs \<le> MAX_VALUE_LENGTH \<Longrightarrow> unat (of_nat (length bs) :: u32) = length bs"
  by (simp add: unat_of_nat rowset_consts)

lemma read_payload_scalar:
  assumes "scalar v = Some w" and "drop off input = to_le w @ rest"
  shows "read_payload input (value_type_of v) len off = Inr (v, off + 8)"
  using assms by (cases v) (auto simp: read_payload_def read_u64_at split: if_splits)

lemma read_payload_blob:
  assumes "blob v = Some bs" and "length bs \<le> MAX_VALUE_LENGTH"
    and "drop off input = (bs @ replicate (padding_for (length bs)) 0) @ rest"
  shows "read_payload input (value_type_of v) (length bs) off = Inr (v, off + (length bs + padding_for (length bs)))"
proof -
  have "need input off (length bs + padding_for (length bs)) = Inr ()"
    by (rule need_at [OF assms(3)]) simp
  then show ?thesis
    using assms by (cases v) (simp_all add: read_payload_def Let_def)
qed

lemma encode_value_cases:
  obtains (null) "wire_value v = Value_Null" | (scalar) w where "scalar (wire_value v) = Some w" "blob (wire_value v) = None"
  | (blob) bs where "blob (wire_value v) = Some bs" "scalar (wire_value v) = None"
  by (cases "wire_value v") simp_all

lemma read_value_at:
  assumes "value_ok v" and d: "drop off input = encode_value_unchecked v @ rest"
  shows "read_value input off = Inr (v, off + wire_size v)"
proof -
  define len where "len = (case blob (wire_value v) of None \<Rightarrow> 0 | Some bs \<Rightarrow> length bs)"
  define payload where "payload = drop 8 (encode_value_unchecked v)"
  define header where "header = take 8 (encode_value_unchecked v)"
  have header: "header = to_le (column_id v) @ [value_type_byte (value_type_of (wire_value v))] @
      [if aggregate v then 1 else 0] @ to_le (of_nat len :: u32)"
    by (auto simp: header_def encode_value_unchecked_def len_def split: option.split)
  have len8: "length header = 8" by (simp add: header)
  have d8: "drop off input = header @ payload @ rest"
    unfolding d header_def payload_def by (simp only: append_assoc [symmetric] append_take_drop_id)
  then have dp: "drop (off + 8) input = payload @ rest"
    using drop_append_eq [of off input header] len8 by simp
  have th: "take 8 (drop off input) = header" unfolding d8 using len8 by simp
  have n: "need input off 8 = Inr ()" by (rule need_at [OF d8]) (simp add: len8)
  have fields: "from_le (take 2 header) = column_id v"
    "header ! 2 = value_type_byte (value_type_of (wire_value v))"
    "(header ! 3 \<noteq> 0) = aggregate v" "from_le (drop 4 header) = (of_nat len :: u32)"
    by (simp_all add: header nth_append)
  have pay: "read_payload input (value_type_of (wire_value v)) (unat (of_nat len :: u32)) (off + 8)
      = Inr (wire_value v, off + wire_size v)"
  proof (cases v rule: encode_value_cases)
    case null
    then show ?thesis by (simp add: read_payload_def wire_size_def ALIGNMENT_def)
  next
    case (scalar w)
    then have "payload = to_le w" by (simp add: payload_def encode_value_unchecked_def)
    moreover have "wire_size v = 16"
      using scalar by (cases "wire_value v") (simp_all add: wire_size_def ALIGNMENT_def)
    ultimately show ?thesis using read_payload_scalar [OF scalar(1)] dp by simp
  next
    case (blob bs)
    then have "payload = bs @ replicate (padding_for (length bs)) 0"
      by (simp add: payload_def encode_value_unchecked_def)
    moreover have "length bs \<le> MAX_VALUE_LENGTH" using assms(1) blob by (simp add: value_ok_def)
    moreover have "wire_size v = 8 + (length bs + padding_for (length bs))"
      using blob by (cases "wire_value v") (simp_all add: wire_size_def ALIGNMENT_def)
    ultimately show ?thesis
      using read_payload_blob [OF blob(1)] dp blob by (simp add: len_def blob_length_word)
  qed
  show ?thesis
    by (simp add: read_value_def n th Let_def fields pay)
qed

lemma read_values_at:
  "\<forall>v \<in> set vs. value_ok v \<Longrightarrow> drop off input = concat (map encode_value_unchecked vs) @ rest \<Longrightarrow>
   read_values input (length vs) off = Inr (vs, off + sum_list (map wire_size vs))"
proof (induction vs arbitrary: off)
  case (Cons v vs)
  then have d: "drop off input = encode_value_unchecked v @ concat (map encode_value_unchecked vs) @ rest" by simp
  show ?case
    using Cons read_value_at [OF _ d] drop_append_eq [OF d] by (simp add: length_encode_value add.assoc)
qed simp

lemma read_row_at:
  assumes "row_ok r" and d: "drop off input = encode_row_unchecked r @ rest"
  shows "read_row input i off = Inr (r, off + row_size r)"
proof (cases r)
  case None
  then show ?thesis
    using d read_u64_at [of off input NULL_ROW_MARKER rest] by (simp add: read_row_def ALIGNMENT_def)
next
  case (Some vs)
  then have d': "drop off input = to_le (of_nat (length vs) :: u64) @ concat (map encode_value_unchecked vs) @ rest"
    using d by simp
  have l: "length vs \<le> 1024" using assms(1) Some by (simp add: rowset_consts)
  then have u: "unat (of_nat (length vs) :: u64) = length vs" by (simp add: unat_of_nat)
  have "unat (of_nat (length vs) :: u64) \<noteq> unat NULL_ROW_MARKER"
    using l by (simp only: u) (simp add: rowset_consts)
  then have "(of_nat (length vs) :: u64) \<noteq> NULL_ROW_MARKER" by metis
  then show ?thesis
    using read_u64_at [OF d'] drop_append_eq [OF d'] read_values_at [of vs "off + 8" input rest] assms(1) l
    by (simp add: read_row_def Some u rowset_consts)
qed

lemma read_rows_at:
  "\<forall>r \<in> set rows. row_ok r \<Longrightarrow> drop off input = concat (map encode_row_unchecked rows) @ rest \<Longrightarrow>
   read_rows input (length rows) i off = Inr (rows, off + sum_list (map row_size rows))"
proof (induction rows arbitrary: off i)
  case (Cons r rows)
  then have d: "drop off input = encode_row_unchecked r @ concat (map encode_row_unchecked rows) @ rest" by simp
  show ?case
    using Cons read_row_at [OF _ d] drop_append_eq [OF d] by (simp add: length_encode_row add.assoc)
qed simp

lemma decode_encode_rowset:
  assumes "rowset_ok rows"
  shows "decode_rowset (encode_rowset_unchecked rows []) = Inr rows"
proof -
  let ?input = "encode_rowset_unchecked rows []"
  have d: "drop 0 ?input = to_le (of_nat (length rows) :: u64) @ concat (map encode_row_unchecked rows)"
    by (simp add: encode_rowset_unchecked_def)
  have u: "unat (of_nat (length rows) :: u64) = length rows"
    using assms by (simp add: unat_of_nat rowset_ok_def rowset_consts)
  have "drop 8 ?input = concat (map encode_row_unchecked rows) @ []"
    using drop_append_eq [OF d] by simp
  then have "read_rows ?input (length rows) 0 8 = Inr (rows, 8 + sum_list (map row_size rows))"
    using assms by (intro read_rows_at) (simp add: rowset_ok_def)
  then show ?thesis
    using assms read_u64_at [OF d]
    by (simp add: decode_rowset_def u rowset_ok_def length_encode_rowset rowset_size_def ALIGNMENT_def)
qed

section \<open>What the decoder accepts\<close>

lemma need_Inr: "need input off n = Inr u \<longleftrightarrow> n \<le> length input - off"
  by (auto simp: need_def)

lemma read_u64_Inr: "read_u64 input off = Inr (w, off') \<Longrightarrow> off' = off + 8 \<and> off' \<le> max off (length input)"
  by (auto simp: read_u64_def need_def split: if_splits)

lemma read_payload_Inr:
  assumes "read_payload input ty len off = Inr (v, off')" and "off \<le> length input"
  shows "off' = off + (value_wire_size v - 8) \<and> off' \<le> length input
     \<and> (case blob v of None \<Rightarrow> True | Some bs \<Rightarrow> length bs \<le> MAX_VALUE_LENGTH)"
proof (cases "is_string_like ty")
  case True
  then have len: "len \<le> MAX_VALUE_LENGTH" and n: "len + padding_for len \<le> length input - off"
    and v: "v = blob_value ty (take len (drop off input))" and o': "off' = off + (len + padding_for len)"
    using assms by (auto simp: read_payload_def Let_def need_Inr split: if_splits sum.splits)
  have "length (take len (drop off input)) = len" using n by simp
  then show ?thesis
    using True len n assms(2) by (cases ty) (simp_all add: v o' ALIGNMENT_def)
next
  case False
  then show ?thesis
    using assms
    by (cases ty) (auto simp: read_payload_def ALIGNMENT_def dest!: read_u64_Inr split: sum.splits)
qed

lemma value_wire_size_ge: "8 \<le> value_wire_size v"
  by (cases v) (simp_all add: ALIGNMENT_def)

lemma read_value_Inr:
  assumes "read_value input off = Inr (v, off')" and "off \<le> length input"
  shows "off' = off + wire_size v \<and> off' \<le> length input \<and> value_ok v"
proof -
  obtain ty len where n: "8 \<le> length input - off"
    and p: "read_payload input ty len (off + 8) = Inr (wire_value v, off')"
    using assms(1) by (auto simp: read_value_def Let_def need_Inr split: sum.splits option.splits)
  have "off + 8 \<le> length input" using n by simp
  from read_payload_Inr [OF p this] show ?thesis
    using value_wire_size_ge [of "wire_value v"] by (simp add: wire_size_def value_ok_def)
qed

lemma read_values_Inr:
  "read_values input n off = Inr (vs, off') \<Longrightarrow> off \<le> length input \<Longrightarrow>
   off' = off + sum_list (map wire_size vs) \<and> off' \<le> length input \<and> length vs = n \<and> (\<forall>v \<in> set vs. value_ok v)"
proof (induction n arbitrary: off vs)
  case (Suc n)
  then obtain v us off1 where v: "read_value input off = Inr (v, off1)"
    and us: "read_values input n off1 = Inr (us, off')" and vs: "vs = v # us"
    by (auto split: sum.splits)
  from read_value_Inr [OF v Suc.prems(2)] Suc.IH [OF us] show ?case
    by (simp add: vs)
qed simp

lemma read_row_Inr:
  assumes "read_row input i off = Inr (r, off')" and "off \<le> length input"
  shows "off' = off + row_size r \<and> off' \<le> length input \<and> row_ok r"
proof -
  obtain w where w: "read_u64 input off = Inr (w, off + 8)" and le: "off + 8 \<le> length input"
    using assms by (auto simp: read_row_def dest!: read_u64_Inr split: sum.splits)
  show ?thesis
  proof (cases "w = NULL_ROW_MARKER")
    case True
    then show ?thesis using assms w le by (auto simp: read_row_def ALIGNMENT_def)
  next
    case False
    then obtain vs where "read_values input (unat w) (off + 8) = Inr (vs, off')" and "r = Some vs"
      and "unat w \<le> MAX_VALUES_PER_ROW"
      using assms w by (auto simp: read_row_def split: if_splits sum.splits)
    then show ?thesis
      using read_values_Inr [of input "unat w" "off + 8" vs off'] le by (simp add: ALIGNMENT_def)
  qed
qed

lemma read_rows_Inr:
  "read_rows input n i off = Inr (rows, off') \<Longrightarrow> off \<le> length input \<Longrightarrow>
   off' = off + sum_list (map row_size rows) \<and> off' \<le> length input \<and> length rows = n \<and> (\<forall>r \<in> set rows. row_ok r)"
proof (induction n arbitrary: off rows i)
  case (Suc n)
  then obtain r rs off1 where r: "read_row input i off = Inr (r, off1)"
    and rs: "read_rows input n (Suc i) off1 = Inr (rs, off')" and rows: "rows = r # rs"
    by (auto split: sum.splits)
  from read_row_Inr [OF r Suc.prems(2)] Suc.IH [OF rs] show ?case
    by (simp add: rows)
qed simp

lemma decode_rowset_Inr:
  assumes "decode_rowset input = Inr rows"
  shows "rowset_ok rows \<and> rowset_size rows = length input"
proof -
  obtain w where w: "read_u64 input 0 = Inr (w, 8)" and le: "8 \<le> length input"
    using assms by (auto simp: decode_rowset_def dest!: read_u64_Inr split: sum.splits)
  then obtain off where r: "read_rows input (unat w) 0 8 = Inr (rows, off)" and "off = length input"
    and "unat w \<le> MAX_ROWS_PER_ROWSET"
    using assms by (auto simp: decode_rowset_def split: if_splits sum.splits)
  with read_rows_Inr [OF r le] show ?thesis
    by (auto simp: rowset_ok_def rowset_size_def ALIGNMENT_def)
qed

section \<open>Truncated input\<close>

fun is_truncated :: "wire_error + 'a \<Rightarrow> bool" where
  "is_truncated (Inl (Truncated off missing)) = True"
| "is_truncated _ = False"

text \<open>
  A reader that succeeds on the input and stops by offset \<open>off'\<close> gives the same answer on a
  prefix that reaches \<open>off'\<close>, and reports truncation on a shorter one.
\<close>

definition cut_at :: "nat \<Rightarrow> (wire_error + 'a \<times> nat) \<Rightarrow> wire_error + 'a \<times> nat \<Rightarrow> bool" where
  "cut_at n full short =
     (case full of Inl e \<Rightarrow> True | Inr (_, off') \<Rightarrow> if off' \<le> n then short = full else is_truncated short)"

lemma need_cut:
  assumes "n \<le> length input" and "off \<le> n"
  shows "off + k \<le> n \<Longrightarrow> need (take n input) off k = Inr ()"
    and "n < off + k \<Longrightarrow> need (take n input) off k = Inl (Truncated off (k - (n - off)))"
  using assms by (simp_all add: need_def)

lemma take_drop_cut: "off + k \<le> n \<Longrightarrow> take k (drop off (take n xs)) = take k (drop off xs)"
  by (simp add: drop_take min_def)

lemma cut_at_bind:
  assumes "cut_at n f s"
    and "\<And>x off'. f = Inr (x, off') \<Longrightarrow> off' \<le> n \<Longrightarrow> cut_at n (g x off') (h x off')"
    and "\<And>x off' y off''. f = Inr (x, off') \<Longrightarrow> g x off' = Inr (y, off'') \<Longrightarrow> off' \<le> off''"
  shows "cut_at n (case f of Inl e \<Rightarrow> Inl e | Inr (x, off') \<Rightarrow> g x off')
                  (case s of Inl e \<Rightarrow> Inl e | Inr (x, off') \<Rightarrow> h x off')"
proof (cases f)
  case (Inl e)
  then show ?thesis by (simp add: cut_at_def)
next
  case (Inr r)
  obtain x off' where r: "r = (x, off')" by fastforce
  show ?thesis
  proof (cases "off' \<le> n")
    case True
    then have "s = Inr (x, off')" using assms(1) Inr r by (simp add: cut_at_def)
    then show ?thesis using assms(2) [of x off'] Inr r True by simp
  next
    case False
    then have "is_truncated s" using assms(1) Inr r by (simp add: cut_at_def)
    then have "is_truncated (case s of Inl e \<Rightarrow> Inl e | Inr (x, off') \<Rightarrow> h x off')"
      by (cases s rule: is_truncated.cases) simp_all
    moreover have "\<not> off'' \<le> n" if "g x off' = Inr (y, off'')" for y off''
      using assms(3) [of x off' y off''] that Inr r False by simp
    ultimately show ?thesis using Inr r by (auto simp: cut_at_def split: sum.split)
  qed
qed

lemma cut_at_Inl [simp]: "cut_at n (Inl e) s"
  by (simp add: cut_at_def)

lemma cut_at_refl [simp]: "off \<le> n \<Longrightarrow> cut_at n (Inr (x, off)) (Inr (x, off))"
  by (simp add: cut_at_def)

lemma need_split:
  assumes "n \<le> length input" and "off \<le> n" and that: "off + k \<le> n \<Longrightarrow> x = y"
  shows "cut_at n (case need input off k of Inl e \<Rightarrow> Inl e | Inr _ \<Rightarrow> Inr (x, off + k))
                  (case need (take n input) off k of Inl e \<Rightarrow> Inl e | Inr _ \<Rightarrow> Inr (y, off + k))"
proof (cases "off + k \<le> n")
  case True
  then have "need input off k = Inr ()" using assms by (simp add: need_Inr)
  then show ?thesis using True need_cut(1) [OF assms(1,2) True] that by simp
next
  case False
  then show ?thesis
    using need_cut(2) [OF assms(1,2), of k] by (auto simp: cut_at_def split: sum.split)
qed

lemma read_u64_cut:
  assumes "n \<le> length input" and "off \<le> n"
  shows "cut_at n (read_u64 input off) (read_u64 (take n input) off)"
  unfolding read_u64_def by (rule need_split [OF assms]) (simp only: take_drop_cut)

lemma read_payload_cut:
  assumes "n \<le> length input" and "off \<le> n"
  shows "cut_at n (read_payload input ty len off) (read_payload (take n input) ty len off)"
proof -
  have "cut_at n (case read_u64 input off of Inl e \<Rightarrow> Inl e | Inr (w, off') \<Rightarrow> Inr (scalar_value ty w, off'))
    (case read_u64 (take n input) off of Inl e \<Rightarrow> Inl e | Inr (w, off') \<Rightarrow> Inr (scalar_value ty w, off'))"
    by (rule cut_at_bind [OF read_u64_cut [OF assms]]) simp_all
  moreover have "off + (len + padding_for len) \<le> n \<Longrightarrow> off + len \<le> n" by simp
  then have "cut_at n (case need input off (len + padding_for len) of
      Inl e \<Rightarrow> Inl e | Inr _ \<Rightarrow> Inr (blob_value ty (take len (drop off input)), off + (len + padding_for len)))
    (case need (take n input) off (len + padding_for len) of
      Inl e \<Rightarrow> Inl e | Inr _ \<Rightarrow> Inr (blob_value ty (take len (drop off (take n input))), off + (len + padding_for len)))"
    by (intro need_split [OF assms]) (simp only: take_drop_cut)
  ultimately show ?thesis
    using assms unfolding read_payload_def Let_def by simp
qed

lemma read_value_cut:
  assumes "n \<le> length input" and "off \<le> n"
  shows "cut_at n (read_value input off) (read_value (take n input) off)"
proof (cases "off + 8 \<le> n")
  case True
  then have n1: "need (take n input) off 8 = Inr ()" and n2: "need input off 8 = Inr ()"
    using need_cut(1) [OF assms] assms by (simp_all add: need_Inr)
  show ?thesis
  proof (cases "value_type_from_wire (take 8 (drop off input) ! 2)")
    case None
    then show ?thesis by (simp add: read_value_def n2 Let_def)
  next
    case (Some ty)
    define h where "h = take 8 (drop off input)"
    define len where "len = unat (from_le (drop 4 h) :: u32)"
    have p: "cut_at n (read_payload input ty len (off + 8)) (read_payload (take n input) ty len (off + 8))"
      by (rule read_payload_cut [OF assms(1) True])
    show ?thesis
      unfolding read_value_def take_drop_cut [OF True] n1 n2 Let_def h_def [symmetric]
      using Some unfolding h_def [symmetric] by (simp add: len_def [symmetric]) (rule cut_at_bind [OF p]; simp)
  qed
next
  case False
  then have "is_truncated (read_value (take n input) off)"
    using need_cut(2) [OF assms, of 8] by (simp add: read_value_def)
  moreover have "\<not> off' \<le> n" if "read_value input off = Inr (v, off')" for v off'
    using read_value_Inr [OF that] value_wire_size_ge [of "wire_value v"] assms False
    by (simp add: wire_size_def)
  ultimately show ?thesis by (auto simp: cut_at_def split: sum.split)
qed

lemma read_values_cut:
  "n \<le> length input \<Longrightarrow> off \<le> n \<Longrightarrow> cut_at n (read_values input k off) (read_values (take n input) k off)"
proof (induction k arbitrary: off)
  case (Suc k)
  show ?case
    unfolding read_values.simps
  proof (rule cut_at_bind [OF read_value_cut [OF Suc.prems]])
    fix v off' assume "off' \<le> n"
    from Suc.IH [OF Suc.prems(1) this]
    show "cut_at n (case read_values input k off' of Inl e \<Rightarrow> Inl e | Inr (vs, off'') \<Rightarrow> Inr (v # vs, off''))
      (case read_values (take n input) k off' of Inl e \<Rightarrow> Inl e | Inr (vs, off'') \<Rightarrow> Inr (v # vs, off''))"
      by (rule cut_at_bind) simp_all
  next
    fix v off' y off''
    assume v: "read_value input off = Inr (v, off')" and
      r: "(case read_values input k off' of Inl e \<Rightarrow> Inl e | Inr (vs, off'') \<Rightarrow> Inr (v # vs, off'')) = Inr (y, off'')"
    have "off' \<le> length input" using read_value_Inr [OF v] Suc.prems by simp
    then show "off' \<le> off''" using r by (auto dest!: read_values_Inr split: sum.splits)
  qed
qed simp

lemma read_row_cut:
  assumes "n \<le> length input" and "off \<le> n"
  shows "cut_at n (read_row input i off) (read_row (take n input) i off)"
  unfolding read_row_def
proof (rule cut_at_bind [OF read_u64_cut [OF assms]], goal_cases)
  case (1 w off')
  then have "cut_at n (read_values input (unat w) off') (read_values (take n input) (unat w) off')"
    using assms by (intro read_values_cut)
  then have "cut_at n (case read_values input (unat w) off' of Inl e \<Rightarrow> Inl e | Inr (vs, off'') \<Rightarrow> Inr (Some vs, off''))
    (case read_values (take n input) (unat w) off' of Inl e \<Rightarrow> Inl e | Inr (vs, off'') \<Rightarrow> Inr (Some vs, off''))"
    by (rule cut_at_bind) simp_all
  with 1 show ?case by simp
next
  case (2 w off' y off'')
  then show ?case using assms
    by (auto dest!: read_values_Inr read_u64_Inr split: sum.splits if_splits)
qed

lemma read_rows_cut:
  "n \<le> length input \<Longrightarrow> off \<le> n \<Longrightarrow> cut_at n (read_rows input k i off) (read_rows (take n input) k i off)"
proof (induction k arbitrary: off i)
  case (Suc k)
  show ?case
    unfolding read_rows.simps
  proof (rule cut_at_bind [OF read_row_cut [OF Suc.prems]])
    fix v off' assume "off' \<le> n"
    from Suc.IH [OF Suc.prems(1) this]
    show "cut_at n (case read_rows input k (Suc i) off' of Inl e \<Rightarrow> Inl e | Inr (vs, off'') \<Rightarrow> Inr (v # vs, off''))
      (case read_rows (take n input) k (Suc i) off' of Inl e \<Rightarrow> Inl e | Inr (vs, off'') \<Rightarrow> Inr (v # vs, off''))"
      by (rule cut_at_bind) simp_all
  next
    fix v off' y off''
    assume v: "read_row input i off = Inr (v, off')" and
      r: "(case read_rows input k (Suc i) off' of Inl e \<Rightarrow> Inl e | Inr (vs, off'') \<Rightarrow> Inr (v # vs, off'')) = Inr (y, off'')"
    have "off' \<le> length input" using read_row_Inr [OF v] Suc.prems by simp
    then show "off' \<le> off''" using r by (auto dest!: read_rows_Inr split: sum.splits)
  qed
qed simp

section \<open>Properties\<close>

text \<open>
  C32: a rowset the encoder accepts decodes to the same rows, null rows and empty rows kept
  apart; its length is what \<open>encoded_size\<close> announces, and a multiple of 8.
\<close>

theorem rowset_roundtrip:
  assumes "encode_rowset reserve rows = Inr bs"
  shows "decode_rowset bs = Inr rows \<and> length bs = rowset_size rows \<and> 8 dvd length bs
    \<and> length bs \<le> MAX_ROWSET_SIZE"
proof -
  have "rowset_ok rows \<and> bs = encode_rowset_unchecked rows [] \<and> rowset_size rows \<le> MAX_ROWSET_SIZE"
    using assms validate_and_measure_iff by (fastforce simp: encode_rowset_def split: sum.splits if_splits)
  then show ?thesis
    by (simp add: decode_encode_rowset length_encode_rowset rowset_size_aligned)
qed

theorem rowset_roundtrip_witness:
  "decode_rowset (encode_rowset_unchecked [None, Some [], Some [\<lparr>column_id = 3, aggregate = True, wire_value = Value_String [1, 2]\<rparr>]] [])
     = Inr [None, Some [], Some [\<lparr>column_id = 3, aggregate = True, wire_value = Value_String [1, 2]\<rparr>]]"
proof -
  let ?rows = "[None, Some [], Some [\<lparr>column_id = 3, aggregate = True, wire_value = Value_String [1, 2]\<rparr>]]"
  have "encode_rowset (\<lambda>_. True) ?rows = Inr (encode_rowset_unchecked ?rows [])"
    by (simp add: encode_rowset_def validate_and_measure_def add_to_rowset_size_def validate_value_def
        wire_size_def padding_for_def rowset_consts)
  from rowset_roundtrip [OF this] show ?thesis by simp
qed

text \<open>
  Whatever the decoder accepts is within the encoder's limits and has exactly the size
  \<open>encoded_size\<close> computes, so the encoder can send it back, provided it fits one attachment.
\<close>

theorem decoded_rowset_is_encodable:
  assumes "decode_rowset input = Inr rows"
  shows "rowset_size rows = length input \<and>
    (length input \<le> MAX_ROWSET_SIZE \<longrightarrow>
       validate_and_measure rows = Inr (length input) \<and> decode_rowset (encode_rowset_unchecked rows []) = Inr rows)"
  using decode_rowset_Inr [OF assms] validate_and_measure_iff [of rows "length input"]
  by (simp add: decode_encode_rowset)

theorem decoded_rowset_is_encodable_witness:
  "validate_and_measure [None] = Inr 16"
proof -
  have d: "decode_rowset (to_le (1 :: u64) @ to_le NULL_ROW_MARKER) = Inr [None]"
    using decode_encode_rowset [of "[None]"] by (simp add: rowset_ok_def rowset_consts encode_rowset_unchecked_def)
  show ?thesis
    using decoded_rowset_is_encodable [OF d] by (simp add: rowset_consts split: if_splits)
qed

text \<open>
  An encoded rowset cut anywhere is reported as truncated; no cut is read as a shorter
  rowset, and none is reported as any other error.
\<close>

theorem truncated_rowset_detected:
  assumes "encode_rowset reserve rows = Inr bs" and "n < length bs"
  shows "is_truncated (decode_rowset (take n bs))"
proof -
  have ok: "rowset_ok rows" and bs: "bs = encode_rowset_unchecked rows []"
    using assms(1) validate_and_measure_iff [of rows] by (fastforce simp: encode_rowset_def split: sum.splits if_splits)+
  have d: "drop 0 bs = to_le (of_nat (length rows) :: u64) @ concat (map encode_row_unchecked rows)"
    by (simp add: bs encode_rowset_unchecked_def)
  have u: "unat (of_nat (length rows) :: u64) = length rows" and max: "length rows \<le> MAX_ROWS_PER_ROWSET"
    using ok by (simp_all add: unat_of_nat rowset_ok_def rowset_consts)
  have r: "read_rows bs (length rows) 0 8 = Inr (rows, length bs)"
    using read_rows_at [of rows 8 bs "[]"] drop_append_eq [OF d] ok
    by (simp add: rowset_ok_def bs length_encode_rowset rowset_size_def ALIGNMENT_def)
  have h: "read_u64 bs 0 = Inr (of_nat (length rows), 8)" using read_u64_at [OF d] by simp
  show ?thesis
  proof (cases "8 \<le> n")
    case True
    have "read_u64 (take n bs) 0 = Inr (of_nat (length rows), 8)"
      using read_u64_cut [of n bs 0] assms(2) h True by (simp add: cut_at_def)
    moreover have "is_truncated (read_rows (take n bs) (length rows) 0 8)"
      using read_rows_cut [of n bs 8 "length rows" 0] assms(2) r True by (simp add: cut_at_def)
    ultimately show ?thesis
      using max by (cases "read_rows (take n bs) (length rows) 0 8" rule: is_truncated.cases)
        (simp_all add: decode_rowset_def u not_less [symmetric])
  next
    case False
    then have "is_truncated (read_u64 (take n bs) 0)"
      using read_u64_cut [of n bs 0] assms(2) h by (simp add: cut_at_def)
    then show ?thesis
      by (cases "read_u64 (take n bs) 0" rule: is_truncated.cases) (simp_all add: decode_rowset_def)
  qed
qed

theorem truncated_rowset_detected_witness:
  "is_truncated (decode_rowset (take 9 (encode_rowset_unchecked [None] [])))"
proof -
  have "encode_rowset (\<lambda>_. True) [None] = Inr (encode_rowset_unchecked [None] [])"
    by (simp add: encode_rowset_def validate_and_measure_def add_to_rowset_size_def rowset_consts)
  then show ?thesis
    by (rule truncated_rowset_detected) (simp add: length_encode_rowset rowset_size_def ALIGNMENT_def)
qed

end
