(* ===== verification/Yson_Types.thy ===== *)
theory Yson_Types
  imports Prelude
begin

text \<open>
  The data of \<open>crates/ytsaurus-yson\<close>: \<open>error.rs\<close>, the value and token types of \<open>node.rs\<close>, and
  the \<open>BTreeMap<Vec<u8>, YsonValue>\<close> that holds map entries and attributes, as an association
  list with strictly increasing keys.
\<close>

section \<open>Tokens and errors\<close>

text \<open>\<open>Token::String\<close> is borrowed or owned in the code; both are the byte string here.\<close>

datatype token =
    BeginAttributes
  | EndAttributes
  | BeginList
  | EndList
  | BeginMap
  | EndMap
  | Token_String bytes
  | Token_Int64 i64
  | Token_Uint64 u64
  | Token_Double f64
  | Token_Boolean bool
  | Token_Entity
  | KeyValueSeparator
  | ItemSeparator

text \<open>
  The messages of \<open>YsonError::Custom\<close> that the crate itself (the last one: the job crate)
  produces, each with what its format string interpolates.
\<close>

datatype message =
    Varint_too_long
  | Varint_overflows
  | Negative_string_length
  | Invalid_hex_escape
  | Invalid_utf8_in_number
  | Invalid_uint64 bytes
  | Invalid_double bytes
  | Invalid_int64 bytes
  | Empty_unquoted_string
  | Invalid_special_value
  | Recursion_limit_exceeded
  | Attributes_nesting_too_deep
  | Unexpected_token token
  | Expected_equals token
  | Expected_string_key_in_attributes
  | Expected_terminator u8 u8 nat
  | Trailing_data u8 nat
  | Two_bodies bytes
  | Invalid_type string
  | Attribute_after_value bytes
  | Value_beside_fields
  | Field_after_value bytes
  | No_to_string_for_binary
  | Invalid_utf8_output
  | Reduce_key_not_a_map

datatype yson_error =
    Eof
  | UnexpectedEof nat
  | InvalidMarker u8 nat
  | MalformedVarint nat
  | InvalidUtf8 nat
  | UnexpectedToken string token nat
  | Custom message

section \<open>Sorted maps\<close>

text \<open>\<open>BTreeMap::insert\<close>: a key already there keeps its place and gets the new value.\<close>

fun btree_insert :: "bytes \<Rightarrow> 'v \<Rightarrow> (bytes \<times> 'v) list \<Rightarrow> (bytes \<times> 'v) list" where
  "btree_insert k v [] = [(k, v)]"
| "btree_insert k v ((k', v') # m) =
     (if k < k' then (k, v) # (k', v') # m
      else if k = k' then (k, v) # m
      else (k', v') # btree_insert k v m)"

definition btree_extend :: "(bytes \<times> 'v) list \<Rightarrow> (bytes \<times> 'v) list \<Rightarrow> (bytes \<times> 'v) list" where
  "btree_extend m new = fold (\<lambda>(k, v). btree_insert k v) new m"

definition btree_wf :: "(bytes \<times> 'v) list \<Rightarrow> bool" where
  "btree_wf m = sorted_wrt (<) (map fst m)"

lemma btree_wf_Nil [simp]: "btree_wf []"
  by (simp add: btree_wf_def)

lemma set_btree_insert: "set (map fst (btree_insert k v m)) = insert k (set (map fst m))"
  by (induction k v m rule: btree_insert.induct) auto

lemma btree_wf_insert: "btree_wf m \<Longrightarrow> btree_wf (btree_insert k v m)"
  unfolding btree_wf_def
proof (induction k v m rule: btree_insert.induct)
  case (2 k v k' v' m)
  show ?case
  proof (cases "k < k' \<or> k = k'")
    case True
    then show ?thesis using 2(2) by auto
  next
    case False
    then have "\<forall>x \<in> set (map fst (btree_insert k v m)). k' < x"
      using 2(2) unfolding set_btree_insert by auto
    then show ?thesis using 2 False by auto
  qed
qed simp

lemma map_of_btree_insert: "btree_wf m \<Longrightarrow> map_of (btree_insert k v m) = (map_of m)(k \<mapsto> v)"
  unfolding btree_wf_def
proof (induction k v m rule: btree_insert.induct)
  case (2 k v k' v' m)
  show ?case
  proof (cases "k < k' \<or> k' < k")
    case True
    then show ?thesis using 2 by (auto simp: fun_upd_twist)
  next
    case False
    then have "k = k'" by auto
    then show ?thesis by (simp add: fun_eq_iff)
  qed
qed simp

lemma btree_wf_extend: "btree_wf m \<Longrightarrow> btree_wf (btree_extend m new)"
  unfolding btree_extend_def
  by (induction new arbitrary: m) (auto simp: btree_wf_insert)

lemma btree_insert_last: "\<forall>x \<in> set (map fst m). x < k \<Longrightarrow> btree_insert k v m = m @ [(k, v)]"
  by (induction k v m rule: btree_insert.induct) auto

text \<open>Inserting the entries of a map in its own order rebuilds the map.\<close>

lemma btree_extend_sorted:
  "sorted_wrt (<) (map fst (m @ new)) \<Longrightarrow> btree_extend m new = m @ new"
  unfolding btree_extend_def
proof (induction new arbitrary: m)
  case (Cons kv new)
  obtain k v where kv: "kv = (k, v)" by fastforce
  have "btree_insert k v m = m @ [kv]"
    using Cons.prems by (intro btree_insert_last [of m k v, folded kv]) (auto simp: kv sorted_wrt_append)
  then show ?case using Cons.IH [of "m @ [kv]"] Cons.prems by (simp add: kv)
qed simp

lemma map_of_btree_extend: "btree_wf m \<Longrightarrow> map_of (btree_extend m new) = map_of m ++ map_of (rev new)"
  unfolding btree_extend_def
  by (induction new arbitrary: m) (auto simp: btree_wf_insert map_of_btree_insert)

lemma set_btree_insert_pairs: "set (btree_insert k v m) \<subseteq> insert (k, v) (set m)"
  by (induction k v m rule: btree_insert.induct) auto

lemma set_btree_extend: "set (btree_extend m new) \<subseteq> set m \<union> set new"
proof (induction new arbitrary: m)
  case (Cons kv new)
  obtain k v where "kv = (k, v)" by fastforce
  then show ?case using Cons [of "btree_insert k v m"] set_btree_insert_pairs [of k v m]
    by (auto simp: btree_extend_def)
qed (simp add: btree_extend_def)

section \<open>Values\<close>

datatype yson_value = YsonValue (attributes: "(bytes \<times> yson_value) list option") (node: yson_node)
  and yson_node =
    Entity
  | Boolean bool
  | Int64 i64
  | Uint64 u64
  | Double f64
  | String bytes
  | List "yson_value list"
  | Map "(bytes \<times> yson_value) list"

abbreviation plain :: "yson_node \<Rightarrow> yson_value" where
  "plain n \<equiv> YsonValue None n"

definition as_i64 :: "yson_value \<Rightarrow> i64 option" where
  "as_i64 v = (case node v of Int64 i \<Rightarrow> Some i | _ \<Rightarrow> None)"

definition attr :: "yson_value \<Rightarrow> bytes \<Rightarrow> yson_value option" where
  "attr v key = (case attributes v of None \<Rightarrow> None | Some m \<Rightarrow> map_of m key)"

datatype yson_format = Binary | Text

end
