(* ===== verification/Yson_Varint.thy ===== *)
theory Yson_Varint
  imports Interfaces Yson_Types
begin

text \<open>
  \<open>crates/ytsaurus-yson/src/varint.rs\<close>: base-128 variable-length integers, least significant
  group first, and their zigzag form for signed values.
\<close>

section \<open>The codec\<close>

text \<open>
  The loop of \<open>read_uvarint\<close> over the bytes not read yet; \<open>len\<close> is the length of the whole
  input, which the truncation error reports.
\<close>

fun read_uvarint_loop :: "nat \<Rightarrow> nat \<Rightarrow> nat \<Rightarrow> u64 \<Rightarrow> bytes \<Rightarrow> yson_error + u64 \<times> nat" where
  "read_uvarint_loop len i shift result [] = Inl (UnexpectedEof len)"
| "read_uvarint_loop len i shift result (byte # rest) =
     (if 10 \<le> i then Inl (Custom Varint_too_long)
      else
        (let bits = ucast (byte AND 0x7F) :: u64
         in if shift = 63 \<and> 1 < bits then Inl (Custom Varint_overflows)
            else
              (let result' = result OR push_bit shift bits
               in if byte AND 0x80 = 0 then Inr (result', i + 1)
                  else read_uvarint_loop len (i + 1) (shift + 7) result' rest)))"

definition read_uvarint :: "bytes \<Rightarrow> yson_error + u64 \<times> nat" where
  "read_uvarint input = read_uvarint_loop (length input) 0 0 0 input"

definition unzigzag :: "u64 \<Rightarrow> i64" where
  "unzigzag u = drop_bit 1 u XOR - (u AND 1)"

definition read_varint :: "bytes \<Rightarrow> yson_error + i64 \<times> nat" where
  "read_varint input =
     (case read_uvarint input of
        Inl e \<Rightarrow> Inl e
      | Inr (u_val, consumed) \<Rightarrow> Inr (unzigzag u_val, consumed))"

lemma unat_shift_group: "unat (drop_bit 7 v) = unat v div 128" for v :: u64
  unfolding unat_drop_bit_eq by (simp add: drop_bit_eq_div)

function write_uvarint :: "u64 \<Rightarrow> bytes" where
  "write_uvarint val =
     (if 0x80 \<le> val then (ucast val OR 0x80) # write_uvarint (drop_bit 7 val) else [ucast val])"
  by pat_completeness auto
termination
proof (relation "measure unat")
  fix val :: u64
  assume "0x80 \<le> val"
  then have "128 \<le> unat val" by (simp add: word_le_nat_alt)
  then show "(drop_bit 7 val, val) \<in> measure unat"
    unfolding in_measure unat_shift_group by simp
qed simp

declare write_uvarint.simps [simp del]

definition zigzag :: "i64 \<Rightarrow> u64" where
  "zigzag val = push_bit 1 val XOR signed_drop_bit 63 val"

definition write_varint :: "i64 \<Rightarrow> bytes" where
  "write_varint val = write_uvarint (zigzag val)"

section \<open>Zigzag\<close>

lemma bit_sign_word: "bit (signed_drop_bit 63 v) n \<longleftrightarrow> n < 64 \<and> bit v 63" for v :: i64
  unfolding bit_signed_drop_bit_iff by (cases "n = 0") (auto dest: bit_imp_le_length)

lemma bit_zigzag: "bit (zigzag v) n \<longleftrightarrow> n < 64 \<and> ((0 < n \<and> bit v (n - 1)) \<noteq> bit v 63)"
  unfolding zigzag_def bit_xor_iff bit_push_bit_iff bit_sign_word
  by (auto simp: Suc_le_eq dest: bit_imp_le_length)

lemma minus_low_bit: "- ((u :: u64) AND 1) = (if bit u 0 then mask 64 else 0)"
  by (simp add: and_one_eq odd_iff_mod_2_eq_one bit_0 mask_eq_exp_minus_1)

lemma bit_unzigzag: "bit (unzigzag u) n \<longleftrightarrow> n < 64 \<and> (bit u (n + 1) \<noteq> bit u 0)"
  unfolding unzigzag_def minus_low_bit bit_xor_iff bit_drop_bit_eq
  by (auto simp: bit_mask_iff dest: bit_imp_le_length)

lemma unzigzag_zigzag [simp]: "unzigzag (zigzag v) = v"
proof (rule bit_word_eqI)
  fix n assume "n < LENGTH(64)"
  then show "bit (unzigzag (zigzag v)) n = bit v n"
    unfolding bit_unzigzag bit_zigzag by (cases "n = 63") auto
qed

lemma zigzag_unzigzag [simp]: "zigzag (unzigzag u) = u"
proof (rule bit_word_eqI)
  fix n assume "n < LENGTH(64)"
  then show "bit (zigzag (unzigzag u)) n = bit u n"
    unfolding bit_unzigzag bit_zigzag by (cases "n = 0") (auto dest: bit_imp_le_length)
qed

section \<open>Reading back what was written\<close>

lemma bit_group_masks:
  "bit (0x7F :: u8) n \<longleftrightarrow> n < 7" "bit (0x7F :: u64) n \<longleftrightarrow> n < 7" "bit (0x80 :: u8) n \<longleftrightarrow> n = 7"
proof -
  have a: "(0x7F :: u8) = mask 7" and b: "(0x7F :: u64) = mask 7" and c: "(0x80 :: u8) = push_bit 7 1"
    by (simp_all add: mask_eq_exp_minus_1)
  show "bit (0x7F :: u8) n \<longleftrightarrow> n < 7" unfolding a bit_mask_iff by auto
  show "bit (0x7F :: u64) n \<longleftrightarrow> n < 7" unfolding b bit_mask_iff by auto
  show "bit (0x80 :: u8) n \<longleftrightarrow> n = 7" unfolding c bit_push_bit_iff bit_1_iff by auto
qed

lemma low_group: "(ucast ((ucast (v::u64) OR 0x80 :: u8) AND 0x7F) :: u64) = v AND 0x7F"
  by (rule bit_word_eqI, unfold bit_ucast_iff bit_and_iff bit_or_iff bit_group_masks) auto

lemma continuation_bit: "(w OR 0x80 :: u8) AND 0x80 \<noteq> 0"
proof
  assume "(w OR 0x80 :: u8) AND 0x80 = 0"
  then have "\<not> bit ((w OR 0x80 :: u8) AND 0x80) 7" by simp
  then show False by (simp add: bit_and_iff bit_or_iff)
qed

lemma last_group:
  assumes "\<not> 0x80 \<le> (v::u64)"
  shows "(ucast ((ucast v :: u8) AND 0x7F) :: u64) = v" "(ucast v :: u8) AND 0x80 = 0"
proof -
  have "unat v < 128" using assms by (simp add: word_le_nat_alt)
  then have "unat (take_bit 7 v) = unat v"
    unfolding unsigned_take_bit_eq by (simp add: take_bit_eq_mod)
  then have v: "take_bit 7 v = v" by (simp only: word_unat_eq_iff)
  have high: "n < 7" if "bit v n" for n
    using that v by (metis bit_take_bit_iff)
  show "(ucast ((ucast v :: u8) AND 0x7F) :: u64) = v"
    by (rule bit_word_eqI, unfold bit_ucast_iff bit_and_iff bit_group_masks)
      (auto dest: high)
  show "(ucast v :: u8) AND 0x80 = 0"
    by (rule bit_word_eqI, unfold bit_ucast_iff bit_and_iff bit_group_masks) (auto dest: high)
qed

lemma group_join: "(push_bit s (v AND 0x7F) OR push_bit (s + 7) (drop_bit 7 v) :: u64) = push_bit s v"
proof (rule bit_word_eqI)
  fix n assume n: "n < LENGTH(64)"
  show "bit (push_bit s (v AND 0x7F) OR push_bit (s + 7) (drop_bit 7 v)) n = bit (push_bit s v) n"
    unfolding bit_or_iff bit_push_bit_iff bit_and_iff bit_drop_bit_eq bit_group_masks
    by (cases "n < s + 7") auto
qed

text \<open>
  The invariant of the reading loop: \<open>i\<close> groups have been read, and what remains to be read
  fits the remaining bits.
\<close>

lemma read_write_loop:
  "i < 10 \<Longrightarrow> unat v < 2 ^ (64 - 7 * i) \<Longrightarrow>
   read_uvarint_loop len i (7 * i) result (write_uvarint v @ rest) =
     Inr (result OR push_bit (7 * i) v, i + length (write_uvarint v))"
proof (induction v arbitrary: i result rule: write_uvarint.induct)
  case (1 v)
  show ?case
  proof (cases "0x80 \<le> v")
    case True
    then have ge: "128 \<le> unat v" by (simp add: word_le_nat_alt)
    have "(128::nat) < 2 ^ (64 - 7 * i)" using ge 1(3) by simp
    then have "(2::nat) ^ 7 < 2 ^ (64 - 7 * i)" by simp
    then have "7 < 64 - 7 * i" by (simp only: power_strict_increasing_iff one_less_numeral_iff semiring_norm)
    then have i: "i < 9" and s: "64 - 7 * i = 7 + (64 - 7 * Suc i)" by simp_all
    have "unat (drop_bit 7 v) = unat v div 2 ^ 7" unfolding unat_shift_group by simp
    also have "\<dots> < 2 ^ (64 - 7 * Suc i)"
      using 1(3) unfolding s by (simp add: power_add less_mult_imp_div_less mult.commute)
    finally have small: "unat (drop_bit 7 v) < 2 ^ (64 - 7 * Suc i)" .
    have step: "write_uvarint v = (ucast v OR 0x80) # write_uvarint (drop_bit 7 v)"
      using True by (subst write_uvarint.simps) simp
    have "Suc i < 10" using i by simp
    note IH = 1(1) [OF True this small, of "result OR push_bit (7 * i) (v AND 0x7F)"]
    show ?thesis
      using i continuation_bit [of "ucast v"] IH group_join [of "7 * i" v]
      unfolding step append_Cons read_uvarint_loop.simps low_group Let_def
      by (simp add: add.commute or.assoc)
  next
    case False
    have "unat v < 2" if "i = 9" using 1(3) that by simp
    then have "\<not> (7 * i = 63 \<and> 1 < v)" by (auto simp: word_less_nat_alt)
    moreover have last: "write_uvarint v = [ucast v]" using False by (subst write_uvarint.simps) simp
    ultimately show ?thesis
      using 1(2) last_group [OF False] unfolding last by (simp add: Let_def)
  qed
qed

lemma read_write_uvarint: "read_uvarint (write_uvarint v @ rest) = Inr (v, length (write_uvarint v))"
proof -
  have "unat v < 2 ^ 64" using unsigned_less [of v] by simp
  then show ?thesis
    using read_write_loop [of 0 v "length (write_uvarint v @ rest)" 0 rest] by (simp add: read_uvarint_def)
qed

lemma read_write_varint: "read_varint (write_varint v @ rest) = Inr (v, length (write_varint v))"
  by (simp add: read_varint_def write_varint_def read_write_uvarint)

section \<open>Truncated input and lengths\<close>

text \<open>Bytes that all ask for another byte, and are no more than ten, starve the reader.\<close>

lemma read_loop_starves:
  "i + length bs \<le> 9 \<Longrightarrow> \<forall>b \<in> set bs. b AND 0x80 \<noteq> 0 \<Longrightarrow>
   read_uvarint_loop len i (7 * i) result bs = Inl (UnexpectedEof len)"
proof (induction bs arbitrary: i result)
  case (Cons b bs)
  have "read_uvarint_loop len (Suc i) (7 * Suc i) r bs = Inl (UnexpectedEof len)" for r
    by (rule Cons.IH) (use Cons.prems in simp_all)
  then show ?case using Cons.prems by (simp add: Let_def add.commute)
qed simp

lemma write_uvarint_length: "unat v < 2 ^ (7 * n) \<Longrightarrow> 0 < n \<Longrightarrow> length (write_uvarint v) \<le> n"
proof (induction v arbitrary: n rule: write_uvarint.induct)
  case (1 v)
  show ?case
  proof (cases "0x80 \<le> v")
    case True
    obtain k where n: "n = Suc k" using 1(3) by (cases n) auto
    have ge: "128 \<le> unat v" using True by (simp add: word_le_nat_alt)
    then have k: "0 < k" using 1(2) n by (cases k) auto
    have "unat (drop_bit 7 v) < 2 ^ (7 * k)"
      using 1(2) unfolding unat_shift_group n
      by (simp add: power_add less_mult_imp_div_less mult.commute)
    from 1(1) [OF True this k] show ?thesis
      using True by (subst write_uvarint.simps) (simp add: n)
  next
    case False
    then show ?thesis using 1(3) by (subst write_uvarint.simps) simp
  qed
qed

lemma write_uvarint_length_10: "length (write_uvarint v) \<le> 10"
proof -
  have "unat v < 2 ^ 64" using unsigned_less [of v] by simp
  also have "(2::nat) ^ 64 < 2 ^ (7 * 10)" by simp
  finally show ?thesis by (rule write_uvarint_length) simp
qed

lemma write_uvarint_pos: "0 < length (write_uvarint v)"
  by (subst write_uvarint.simps) simp

lemma write_uvarint_continues: "n < length (write_uvarint v) \<Longrightarrow> \<forall>b \<in> set (take n (write_uvarint v)). b AND 0x80 \<noteq> 0"
proof (induction v arbitrary: n rule: write_uvarint.induct)
  case (1 v)
  show ?case
  proof (cases "0x80 \<le> v")
    case True
    then have w: "write_uvarint v = (ucast v OR 0x80) # write_uvarint (drop_bit 7 v)"
      by (subst write_uvarint.simps) simp
    show ?thesis
    proof (cases n)
      case (Suc m)
      then have "\<forall>b \<in> set (take m (write_uvarint (drop_bit 7 v))). b AND 0x80 \<noteq> 0"
        using 1(1) [OF True, of m] 1(2) by (simp add: w)
      then show ?thesis using continuation_bit by (simp only: w Suc take_Suc_Cons set_simps ball_simps) simp
    qed simp
  next
    case False
    then have "write_uvarint v = [ucast v]" by (subst write_uvarint.simps) simp
    then show ?thesis using 1(2) by simp
  qed
qed

lemma read_uvarint_cut:
  assumes "n < length (write_uvarint v)"
  shows "read_uvarint (take n (write_uvarint v)) = Inl (UnexpectedEof n)"
proof -
  have "read_uvarint_loop n 0 (7 * 0) 0 (take n (write_uvarint v)) = Inl (UnexpectedEof n)"
    by (rule read_loop_starves)
      (use assms write_uvarint_length_10 [of v] write_uvarint_continues [OF assms] in simp_all)
  then show ?thesis using assms by (simp add: read_uvarint_def min_def)
qed

definition is_starved :: "yson_error \<Rightarrow> bool" where
  "is_starved e = (case e of Eof \<Rightarrow> True | UnexpectedEof _ \<Rightarrow> True | _ \<Rightarrow> False)"

interpretation uvarint: starving_codec write_uvarint read_uvarint "\<lambda>_. True" is_starved
  by unfold_locales (simp_all add: read_write_uvarint read_uvarint_cut is_starved_def)

interpretation varint: starving_codec write_varint read_varint "\<lambda>_. True" is_starved
  by unfold_locales
    (simp_all add: read_write_varint, simp add: read_varint_def write_varint_def read_uvarint_cut is_starved_def)

text \<open>What a reader of varints did on an input it also does when more bytes follow.\<close>

lemma read_loop_append:
  "read_uvarint_loop len i s r bs = Inr x \<Longrightarrow> read_uvarint_loop len' i s r (bs @ ys) = Inr x"
  "read_uvarint_loop len i s r bs = Inl e \<Longrightarrow> e \<noteq> UnexpectedEof len \<Longrightarrow> read_uvarint_loop len' i s r (bs @ ys) = Inl e"
  by (induction len i s r bs rule: read_uvarint_loop.induct) (auto simp: Let_def split: if_splits)

lemma read_loop_consumes:
  "read_uvarint_loop len i s r bs = Inr (v, n) \<Longrightarrow> i < n \<and> n \<le> i + length bs"
proof (induction len i s r bs rule: read_uvarint_loop.induct)
  case (2 len i shift result byte rest)
  then show ?case
    by (auto simp: Let_def split: if_splits dest: Suc_lessD)
qed simp

lemma read_loop_not_eof: "read_uvarint_loop len i s r bs \<noteq> Inl Eof"
  by (induction len i s r bs rule: read_uvarint_loop.induct) (auto simp: Let_def)

lemma read_uvarint_append:
  "read_uvarint bs = Inr x \<Longrightarrow> read_uvarint (bs @ ys) = Inr x"
  "read_uvarint bs = Inl e \<Longrightarrow> \<not> is_starved e \<Longrightarrow> read_uvarint (bs @ ys) = Inl e"
  unfolding read_uvarint_def
  by (erule read_loop_append(1), erule read_loop_append(2)) (auto simp: is_starved_def)

lemma read_varint_append:
  "read_varint bs = Inr x \<Longrightarrow> read_varint (bs @ ys) = Inr x"
  "read_varint bs = Inl e \<Longrightarrow> \<not> is_starved e \<Longrightarrow> read_varint (bs @ ys) = Inl e"
  by (auto simp: read_varint_def read_uvarint_append split: sum.splits)

lemma read_uvarint_consumes: "read_uvarint bs = Inr (v, n) \<Longrightarrow> 0 < n \<and> n \<le> length bs"
  unfolding read_uvarint_def by (drule read_loop_consumes) simp

lemma read_varint_consumes: "read_varint bs = Inr (v, n) \<Longrightarrow> 0 < n \<and> n \<le> length bs"
  by (auto simp: read_varint_def dest!: read_uvarint_consumes split: sum.splits)

section \<open>Properties\<close>

text \<open>
  Signed and unsigned varints read back as written in front of any bytes, take at most
  ten bytes, and a varint cut short is reported as truncation, never as another value.
\<close>

theorem varint_roundtrip:
  "read_uvarint (write_uvarint u @ rest) = Inr (u, length (write_uvarint u))
   \<and> read_varint (write_varint i @ rest) = Inr (i, length (write_varint i))
   \<and> length (write_uvarint u) \<le> 10
   \<and> read_uvarint (butlast (write_uvarint u)) = Inl (UnexpectedEof (length (write_uvarint u) - 1))"
  using uvarint.dec_enc [of u rest] varint.dec_enc [of i rest] write_uvarint_length_10
    read_uvarint_cut [of "length (write_uvarint u) - 1" u] write_uvarint_pos
  by (simp add: butlast_conv_take)

end
