(* ===== verification/Yson_Lexer.thy ===== *)
theory Yson_Lexer
  imports Yson_Varint Std_Text
begin

text \<open>
  \<open>crates/ytsaurus-yson/src/lexer.rs\<close>: \<open>YsonIterator\<close>. Its state is the input, which never
  changes, the cursor and the format flag; each method is a function of the three that
  returns the moved cursor with its result. After an error the cursor is not used again.
\<close>

section \<open>Ignored text\<close>

function skip_line :: "bytes \<Rightarrow> nat \<Rightarrow> nat" where
  "skip_line input pos = (if pos < length input \<and> input ! pos \<noteq> 0x0A then skip_line input (pos + 1) else pos)"
  by pat_completeness auto
termination by (relation "measure (\<lambda>(input, pos). length input - pos)") auto

text \<open>The body of a block comment; one that does not end reaches the end of the input.\<close>

function skip_block :: "bytes \<Rightarrow> nat \<Rightarrow> nat" where
  "skip_block input pos =
     (if pos + 1 < length input then
        (if input ! pos = 0x2A \<and> input ! (pos + 1) = 0x2F then pos + 2 else skip_block input (pos + 1))
      else length input)"
  by pat_completeness auto
termination by (relation "measure (\<lambda>(input, pos). length input - pos)") auto

declare skip_line.simps [simp del] skip_block.simps [simp del]

lemma skip_line_ge: "pos \<le> skip_line input pos"
  by (induction input pos rule: skip_line.induct) (subst skip_line.simps, auto)

lemma skip_block_ge: "pos \<le> length input \<Longrightarrow> pos \<le> skip_block input pos"
  by (induction input pos rule: skip_block.induct) (subst skip_block.simps, auto)

function skip_ignored :: "bytes \<Rightarrow> nat \<Rightarrow> nat" where
  "skip_ignored input pos =
     (if pos < length input then
        (if is_space (input ! pos) then skip_ignored input (pos + 1)
         else if input ! pos = 0x2F \<and> pos + 1 < length input then
           (if input ! (pos + 1) = 0x2F then skip_ignored input (skip_line input (pos + 2))
            else if input ! (pos + 1) = 0x2A then skip_ignored input (skip_block input (pos + 2))
            else pos)
         else pos)
      else pos)"
  by pat_completeness auto
termination
proof (relation "measure (\<lambda>(input, pos). length input - pos)")
  fix input :: bytes and pos
  assume "pos < length input" "input ! pos = 0x2F \<and> pos + 1 < length input"
  then show "((input, skip_line input (pos + 2)), input, pos) \<in> measure (\<lambda>(input, pos). length input - pos)"
    and "((input, skip_block input (pos + 2)), input, pos) \<in> measure (\<lambda>(input, pos). length input - pos)"
    using skip_line_ge [of "pos + 2" input] skip_block_ge [of "pos + 2" input] by auto
qed auto

declare skip_ignored.simps [simp del]

section \<open>Binary tokens\<close>

definition punctuation :: "u8 \<Rightarrow> token option" where
  "punctuation byte =
     (if byte = 0x23 then Some Token_Entity
      else if byte = 0x3C then Some BeginAttributes
      else if byte = 0x3E then Some EndAttributes
      else if byte = 0x5B then Some BeginList
      else if byte = 0x5D then Some EndList
      else if byte = 0x7B then Some BeginMap
      else if byte = 0x7D then Some EndMap
      else if byte = 0x3D then Some KeyValueSeparator
      else if byte = 0x3B then Some ItemSeparator
      else None)"

definition parse_binary_string :: "bytes \<Rightarrow> nat \<Rightarrow> yson_error + token \<times> nat" where
  "parse_binary_string input pos =
     (case read_varint (drop pos input) of
        Inl e \<Rightarrow> Inl e
      | Inr (len, n) \<Rightarrow>
          (let pos' = pos + n
           in if len <s 0 then Inl (Custom Negative_string_length)
              else (case slice_get input pos' (pos' + unat len) of
                      None \<Rightarrow> Inl (UnexpectedEof pos')
                    | Some s \<Rightarrow> Inr (Token_String s, pos' + unat len))))"

definition parse_binary_token :: "bytes \<Rightarrow> nat \<Rightarrow> yson_error + token \<times> nat" where
  "parse_binary_token input start =
     (let byte = input ! start; pos = start + 1
      in if byte = 0x01 then parse_binary_string input pos
         else if byte = 0x02 then
           (case read_varint (drop pos input) of Inl e \<Rightarrow> Inl e | Inr (v, n) \<Rightarrow> Inr (Token_Int64 v, pos + n))
         else if byte = 0x03 then
           (case slice_get input pos (pos + 8) of
              None \<Rightarrow> Inl (UnexpectedEof pos)
            | Some bs \<Rightarrow> Inr (Token_Double (from_le bs), pos + 8))
         else if byte = 0x04 then Inr (Token_Boolean False, pos)
         else if byte = 0x05 then Inr (Token_Boolean True, pos)
         else if byte = 0x06 then
           (case read_uvarint (drop pos input) of Inl e \<Rightarrow> Inl e | Inr (v, n) \<Rightarrow> Inr (Token_Uint64 v, pos + n))
         else (case punctuation byte of
                 Some t \<Rightarrow> Inr (t, pos)
               | None \<Rightarrow> Inl (InvalidMarker byte (pos - 1))))"

section \<open>Text tokens\<close>

text \<open>The scan for the closing quote: where it stands, and whether an escape was passed.\<close>

function find_quote :: "bytes \<Rightarrow> nat \<Rightarrow> bool \<Rightarrow> nat \<times> bool" where
  "find_quote input current has_escapes =
     (if current < length input then
        (if input ! current = 0x22 then (current, has_escapes)
         else if input ! current = 0x5C then find_quote input (current + 2) True
         else find_quote input (current + 1) has_escapes)
      else (current, has_escapes))"
  by pat_completeness auto
termination by (relation "measure (\<lambda>(input, current, has_escapes). length input - current)") auto

declare find_quote.simps [simp del]

definition is_octal :: "u8 \<Rightarrow> bool" where
  "is_octal b = (0x30 \<le> b \<and> b \<le> 0x37)"

text \<open>
  The octal escape at \<open>pos\<close>: up to three digits, the third only while the value fits a byte.
  The cursor stops on the last digit.
\<close>

definition octal_escape :: "bytes \<Rightarrow> nat \<Rightarrow> u8 \<times> nat" where
  "octal_escape input pos =
     (let val = input ! pos - 0x30
      in if pos + 1 < length input \<and> is_octal (input ! (pos + 1)) then
           (let val2 = val * 8 + (input ! (pos + 1) - 0x30); pos2 = pos + 1
            in if pos2 + 1 < length input \<and> is_octal (input ! (pos2 + 1)) then
                 (let next_val = unat val2 * 8 + unat (input ! (pos2 + 1) - 0x30)
                  in if next_val \<le> 255 then (of_nat next_val, pos2 + 1) else (val2, pos2))
               else (val2, pos2))
         else (val, pos))"

text \<open>One escape: \<open>pos\<close> is the character after the backslash; the cursor stops on its last character.\<close>

definition escape :: "bytes \<Rightarrow> nat \<Rightarrow> yson_error + u8 \<times> nat" where
  "escape input pos =
     (let c = input ! pos
      in if c = 0x6E then Inr (0x0A, pos)
         else if c = 0x72 then Inr (0x0D, pos)
         else if c = 0x74 then Inr (0x09, pos)
         else if c = 0x5C then Inr (0x5C, pos)
         else if c = 0x22 then Inr (0x22, pos)
         else if c = 0x78 then
           (if length input \<le> pos + 2 then Inl (UnexpectedEof pos)
            else
              (let hex = take 2 (drop (pos + 1) input)
               in if \<not> utf8_valid hex then Inl (Custom Invalid_hex_escape)
                  else (case parse_unsigned 16 255 hex of
                          None \<Rightarrow> Inl (Custom Invalid_hex_escape)
                        | Some n \<Rightarrow> Inr (of_nat n, pos + 2))))
         else if is_octal c then Inr (octal_escape input pos)
         else Inr (c, pos))"

lemma octal_escape_ge: "octal_escape input pos = (b, pos') \<Longrightarrow> pos \<le> pos'"
  by (auto simp: octal_escape_def Let_def split: if_splits)

lemma escape_ge: "escape input pos = Inr (b, pos') \<Longrightarrow> pos \<le> pos'"
  by (auto simp: escape_def Let_def octal_escape_ge split: if_splits option.splits)

function unescape :: "bytes \<Rightarrow> nat \<Rightarrow> bytes \<Rightarrow> yson_error + bytes \<times> nat" where
  "unescape input pos buf =
     (if pos < length input then
        (if input ! pos = 0x22 then Inr (buf, pos + 1)
         else if input ! pos = 0x5C then
           (if length input \<le> pos + 1 then Inl (UnexpectedEof (pos + 1))
            else (case escape input (pos + 1) of
                    Inl e \<Rightarrow> Inl e
                  | Inr (b, pos') \<Rightarrow> unescape input (pos' + 1) (buf @ [b])))
         else unescape input (pos + 1) (buf @ [input ! pos]))
      else Inl (UnexpectedEof pos))"
  by pat_completeness auto
termination
  by (relation "measure (\<lambda>(input, pos, buf). length input - pos)") (auto dest!: escape_ge)

declare unescape.simps [simp del]

definition parse_text_quoted_string :: "bytes \<Rightarrow> nat \<Rightarrow> yson_error + token \<times> nat" where
  "parse_text_quoted_string input quote =
     (let start = quote + 1;
          (current, has_escapes) = find_quote input start False
      in if length input \<le> current then Inl (UnexpectedEof current)
         else if \<not> has_escapes then Inr (Token_String (take (current - start) (drop start input)), current + 1)
         else (case unescape input start [] of
                 Inl e \<Rightarrow> Inl e
               | Inr (buf, pos) \<Rightarrow> Inr (Token_String buf, pos)))"

function number_end :: "bytes \<Rightarrow> nat \<Rightarrow> bool \<Rightarrow> nat \<times> bool \<times> bool" where
  "number_end input pos dot =
     (if pos < length input then
        (let b = input ! pos
         in if is_digit b \<or> b = 0x2D \<or> b = 0x2B then number_end input (pos + 1) dot
            else if b = 0x2E \<or> b = 0x65 \<or> b = 0x45 then number_end input (pos + 1) True
            else if b = 0x75 then (pos + 1, dot, True)
            else (pos, dot, False))
      else (pos, dot, False))"
  by pat_completeness auto
termination by (relation "measure (\<lambda>(input, pos, dot). length input - pos)") auto

declare number_end.simps [simp del]

definition trim_end_matches :: "u8 \<Rightarrow> bytes \<Rightarrow> bytes" where
  "trim_end_matches c s = rev (dropWhile (\<lambda>x. x = c) (rev s))"

definition parse_text_number :: "bytes \<Rightarrow> nat \<Rightarrow> yson_error + token \<times> nat" where
  "parse_text_number input start =
     (let (pos, has_dot_or_exp, is_unsigned) = number_end input start False;
          s = take (pos - start) (drop start input)
      in if \<not> utf8_valid s then Inl (Custom Invalid_utf8_in_number)
         else if is_unsigned then
           (case parse_unsigned 10 (2 ^ 64 - 1) (trim_end_matches 0x75 s) of
              None \<Rightarrow> Inl (Custom (Invalid_uint64 s))
            | Some n \<Rightarrow> Inr (Token_Uint64 (of_nat n), pos))
         else if has_dot_or_exp then
           (case parse_f64 s of
              None \<Rightarrow> Inl (Custom (Invalid_double s))
            | Some d \<Rightarrow> Inr (Token_Double d, pos))
         else
           (case parse_signed64 10 s of
              None \<Rightarrow> Inl (Custom (Invalid_int64 s))
            | Some i \<Rightarrow> Inr (Token_Int64 (word_of_int i), pos)))"

definition is_word_char :: "u8 \<Rightarrow> bool" where
  "is_word_char b = (is_alnum b \<or> b = 0x5F \<or> b = 0x2D \<or> b = 0x2E)"

function word_end :: "bytes \<Rightarrow> nat \<Rightarrow> nat" where
  "word_end input pos =
     (if pos < length input then (if is_word_char (input ! pos) then word_end input (pos + 1) else pos) else pos)"
  by pat_completeness auto
termination by (relation "measure (\<lambda>(input, pos). length input - pos)") auto

declare word_end.simps [simp del]

definition parse_text_unquoted_string :: "bytes \<Rightarrow> nat \<Rightarrow> yson_error + token \<times> nat" where
  "parse_text_unquoted_string input start =
     (let pos = word_end input start; s = take (pos - start) (drop start input)
      in if s = [] then Inl (Custom Empty_unquoted_string) else Inr (Token_String s, pos))"

definition starts_with :: "bytes \<Rightarrow> bytes \<Rightarrow> bool" where
  "starts_with xs lit = (take (length lit) xs = lit)"

definition F64_NAN :: f64 where "F64_NAN = 0x7FF8000000000000"
definition F64_INFINITY :: f64 where "F64_INFINITY = 0x7FF0000000000000"
definition F64_NEG_INFINITY :: f64 where "F64_NEG_INFINITY = 0xFFF0000000000000"

definition parse_text_special_value :: "bytes \<Rightarrow> nat \<Rightarrow> yson_error + token \<times> nat" where
  "parse_text_special_value input start =
     (let pos = start + 1; remaining = drop pos input
      in if starts_with remaining (ascii ''true'') then Inr (Token_Boolean True, pos + 4)
         else if starts_with remaining (ascii ''false'') then Inr (Token_Boolean False, pos + 5)
         else if starts_with remaining (ascii ''nan'') then Inr (Token_Double F64_NAN, pos + 3)
         else if starts_with remaining (ascii ''inf'') then Inr (Token_Double F64_INFINITY, pos + 3)
         else if starts_with remaining (ascii ''-inf'') then Inr (Token_Double F64_NEG_INFINITY, pos + 4)
         else Inl (Custom Invalid_special_value))"

definition parse_text_token :: "bytes \<Rightarrow> nat \<Rightarrow> yson_error + token \<times> nat" where
  "parse_text_token input pos =
     (let byte = input ! pos
      in case punctuation byte of
           Some t \<Rightarrow> Inr (t, pos + 1)
         | None \<Rightarrow>
             if byte = 0x22 then parse_text_quoted_string input pos
             else if is_digit byte \<or> byte = 0x2D \<or> byte = 0x2B then parse_text_number input pos
             else if byte = 0x25 then parse_text_special_value input pos
             else if is_alpha byte \<or> byte = 0x5F then parse_text_unquoted_string input pos
             else Inl (InvalidMarker byte pos))"

section \<open>The iterator\<close>

definition skip :: "bool \<Rightarrow> bytes \<Rightarrow> nat \<Rightarrow> nat" where
  "skip is_binary input pos = (if is_binary then pos else skip_ignored input pos)"

definition peek_byte :: "bool \<Rightarrow> bytes \<Rightarrow> nat \<Rightarrow> yson_error + u8 \<times> nat" where
  "peek_byte is_binary input pos =
     (let pos' = skip is_binary input pos
      in if length input \<le> pos' then Inl Eof else Inr (input ! pos', pos'))"

definition next_token :: "bool \<Rightarrow> bytes \<Rightarrow> nat \<Rightarrow> yson_error + token \<times> nat" where
  "next_token is_binary input pos =
     (let pos' = skip is_binary input pos
      in if length input \<le> pos' then Inl Eof
         else if is_binary then parse_binary_token input pos'
         else parse_text_token input pos')"

section \<open>The cursor only moves forward\<close>

lemma skip_ignored_ge: "pos \<le> skip_ignored input pos"
proof (induction input pos rule: skip_ignored.induct)
  case (1 input pos)
  then show ?case
    using skip_line_ge [of "pos + 2" input] skip_block_ge [of "pos + 2" input]
    by (subst skip_ignored.simps) (auto split: if_splits)
qed

lemma skip_ignored_idem: "skip_ignored input (skip_ignored input pos) = skip_ignored input pos"
proof (induction input pos rule: skip_ignored.induct)
  case (1 input pos)
  show ?case
  proof (cases "pos < length input \<and> (is_space (input ! pos) \<or> input ! pos = 0x2F \<and> pos + 1 < length input \<and>
      (input ! (pos + 1) = 0x2F \<or> input ! (pos + 1) = 0x2A))")
    case True
    then show ?thesis
      using 1 by (subst (2 3) skip_ignored.simps) auto
  next
    case False
    then have "skip_ignored input pos = pos" by (subst skip_ignored.simps) auto
    then show ?thesis by simp
  qed
qed

lemma skip_ge: "pos \<le> skip bin input pos"
  by (simp add: skip_def skip_ignored_ge)

lemma find_quote_ge: "find_quote input pos b = (pos', b') \<Longrightarrow> pos \<le> pos'"
proof (induction input pos b rule: find_quote.induct)
  case (1 input pos b)
  then show ?case by (subst (asm) (3) find_quote.simps) (auto split: if_splits)
qed

lemma unescape_consumes: "unescape input pos buf = Inr (s, pos') \<Longrightarrow> pos < pos' \<and> pos' \<le> length input"
proof (induction input pos buf rule: unescape.induct)
  case (1 input pos buf)
  have lt: "pos < length input" using 1(3) by (subst (asm) unescape.simps) (simp split: if_splits)
  consider (quote) "input ! pos = 0x22" | (esc) "input ! pos \<noteq> 0x22" "input ! pos = 0x5C"
    | (other) "input ! pos \<noteq> 0x22" "input ! pos \<noteq> 0x5C" by blast
  then show ?case
  proof cases
    case quote
    then show ?thesis using 1(3) lt by (subst (asm) unescape.simps) simp
  next
    case esc
    then have le: "\<not> length input \<le> pos + 1"
      using 1(3) lt by (subst (asm) unescape.simps) (simp split: if_splits)
    obtain b p where e: "escape input (pos + 1) = Inr (b, p)"
      and r: "unescape input (p + 1) (buf @ [b]) = Inr (s, pos')"
      using 1(3) lt esc le by (subst (asm) unescape.simps) (auto split: sum.splits)
    show ?thesis using 1(1) [OF lt esc le e refl r] escape_ge [OF e] by simp
  next
    case other
    then have "unescape input (pos + 1) (buf @ [input ! pos]) = Inr (s, pos')"
      using 1(3) lt by (subst (asm) unescape.simps) simp
    from 1(2) [OF lt other this] show ?thesis by simp
  qed
qed

lemma number_end_le: "pos \<le> length input \<Longrightarrow> number_end input pos d = (pos', d', u) \<Longrightarrow> pos \<le> pos' \<and> pos' \<le> length input"
proof (induction "length input - pos" arbitrary: pos d rule: less_induct)
  case less
  show ?case
  proof (cases "pos < length input")
    case True
    then have "number_end input (pos + 1) d2 = (pos', d', u) \<Longrightarrow> pos + 1 \<le> pos' \<and> pos' \<le> length input" for d2
      using less.hyps [of "pos + 1" d2] by simp
    from this [of d] this [of True] show ?thesis
      using less.prems True by (subst (asm) number_end.simps) (auto simp: Let_def split: if_splits)
  next
    case False
    then show ?thesis using less.prems by (subst (asm) number_end.simps) simp
  qed
qed

lemma number_end_gt:
  "pos < length input \<Longrightarrow> is_digit (input ! pos) \<or> input ! pos = 0x2D \<or> input ! pos = 0x2B \<Longrightarrow>
   number_end input pos d = (pos', d', u) \<Longrightarrow> pos < pos'"
  by (subst (asm) number_end.simps) (auto simp: Let_def dest!: number_end_le [rotated])

lemma word_end_ge: "pos \<le> word_end input pos"
  by (induction input pos rule: word_end.induct) (subst word_end.simps, auto)

lemma word_end_le: "pos \<le> length input \<Longrightarrow> word_end input pos \<le> length input"
  by (induction input pos rule: word_end.induct) (subst word_end.simps, auto)

lemma starts_with_length: "starts_with (drop pos input) lit \<Longrightarrow> length lit \<le> length input - pos"
  by (metis length_drop length_take min.cobounded2 starts_with_def min.absorb_iff1 min.commute)

lemma slice_get_end: "slice_get input a b = Some s \<Longrightarrow> b \<le> length input"
  by (drule slice_get_length) simp

lemma parse_binary_token_consumes:
  assumes "parse_binary_token input pos = Inr (t, pos')" and "pos < length input"
  shows "pos < pos' \<and> pos' \<le> length input"
proof -
  have v: "0 < n \<and> pos + 1 + n \<le> length input" if "read_varint (drop (pos + 1) input) = Inr (w, n)" for w n
    using read_varint_consumes [OF that] by auto
  have u: "0 < n \<and> pos + 1 + n \<le> length input" if "read_uvarint (drop (pos + 1) input) = Inr (w, n)" for w n
    using read_uvarint_consumes [OF that] by auto
  show ?thesis
    using assms v u
    by (auto simp: parse_binary_token_def parse_binary_string_def Let_def
        split: if_splits sum.splits option.splits dest!: slice_get_end)
qed

lemma parse_text_token_consumes:
  assumes "parse_text_token input pos = Inr (t, pos')" and "pos < length input"
  shows "pos < pos' \<and> pos' \<le> length input"
proof (cases "punctuation (input ! pos)")
  case (Some t')
  then show ?thesis using assms by (simp add: parse_text_token_def)
next
  case None
  consider (quoted) "parse_text_quoted_string input pos = Inr (t, pos')"
    | (number) "parse_text_number input pos = Inr (t, pos')" "is_digit (input ! pos) \<or> input ! pos = 0x2D \<or> input ! pos = 0x2B"
    | (special) "parse_text_special_value input pos = Inr (t, pos')"
    | (word) "parse_text_unquoted_string input pos = Inr (t, pos')" "is_word_char (input ! pos)"
    using assms(1) None
    by (auto simp: parse_text_token_def Let_def is_word_char_def is_alnum_def split: if_splits)
  then show ?thesis
  proof cases
    case quoted
    then show ?thesis
      by (auto simp: parse_text_quoted_string_def Let_def split: prod.splits if_splits sum.splits
          dest!: unescape_consumes find_quote_ge)
  next
    case number
    obtain p d u where n: "number_end input pos False = (p, d, u)" by (metis prod_cases3)
    then have "pos < p \<and> p \<le> length input"
      using number_end_gt [OF assms(2) number(2) n] number_end_le [OF _ n] assms(2) by simp
    then show ?thesis
      using number(1) n by (auto simp: parse_text_number_def Let_def split: if_splits option.splits)
  next
    case special
    then show ?thesis
      using starts_with_length [of "pos + 1" input]
      by (fastforce simp: parse_text_special_value_def Let_def split: if_splits)
  next
    case word
    have "word_end input pos = word_end input (pos + 1)"
      using word(2) assms(2) by (subst word_end.simps) simp
    then show ?thesis
      using word(1) word_end_ge [of "pos + 1" input] word_end_le [of pos input] assms(2)
      by (auto simp: parse_text_unquoted_string_def Let_def split: if_splits)
  qed
qed

lemma next_token_consumes: "next_token bin input pos = Inr (t, pos') \<Longrightarrow> pos < pos' \<and> pos' \<le> length input"
  using skip_ge [of pos bin input] parse_binary_token_consumes [of input "skip bin input pos" t pos']
    parse_text_token_consumes [of input "skip bin input pos" t pos']
  by (auto simp: next_token_def Let_def split: if_splits)

lemma peek_byte_Inr: "peek_byte bin input pos = Inr (b, pos') \<Longrightarrow> pos \<le> pos' \<and> pos' < length input \<and> b = input ! pos'"
  using skip_ge [of pos bin input] by (auto simp: peek_byte_def Let_def split: if_splits)

section \<open>Binary tokens in a growing buffer\<close>

lemma nth_append_left [simp]: "pos < length xs \<Longrightarrow> (xs @ ys) ! pos = xs ! pos"
  by (simp add: nth_append)

lemma slice_get_None: "slice_get xs a b = None \<Longrightarrow> a \<le> b \<Longrightarrow> length xs < b"
  by (auto simp: slice_get_def split: if_splits)

lemma parse_binary_string_append:
  assumes "pos \<le> length xs"
  shows "parse_binary_string xs pos = Inr r \<Longrightarrow> parse_binary_string (xs @ ys) pos = Inr r"
    and "parse_binary_string xs pos = Inl e \<Longrightarrow> \<not> is_starved e \<Longrightarrow> parse_binary_string (xs @ ys) pos = Inl e"
proof -
  have d: "drop pos (xs @ ys) = drop pos xs @ ys" using assms by simp
  show "parse_binary_string xs pos = Inr r \<Longrightarrow> parse_binary_string (xs @ ys) pos = Inr r"
    unfolding parse_binary_string_def d
    by (auto simp: read_varint_append Let_def slice_get_Some_append split: sum.splits if_splits option.splits)
  show "parse_binary_string xs pos = Inl e \<Longrightarrow> \<not> is_starved e \<Longrightarrow> parse_binary_string (xs @ ys) pos = Inl e"
    unfolding parse_binary_string_def d
    by (auto simp: read_varint_append Let_def is_starved_def split: sum.splits if_splits option.splits)
qed

lemma parse_binary_token_append:
  assumes "pos < length xs"
  shows "parse_binary_token xs pos = Inr r \<Longrightarrow> parse_binary_token (xs @ ys) pos = Inr r"
    and "parse_binary_token xs pos = Inl e \<Longrightarrow> \<not> is_starved e \<Longrightarrow> parse_binary_token (xs @ ys) pos = Inl e"
proof -
  have d: "drop (pos + 1) (xs @ ys) = drop (pos + 1) xs @ ys" and le: "pos + 1 \<le> length xs" using assms by simp_all
  note app = parse_binary_string_append [OF le, unfolded Suc_eq_plus1 [symmetric]]
  show "parse_binary_token xs pos = Inr r \<Longrightarrow> parse_binary_token (xs @ ys) pos = Inr r"
    unfolding parse_binary_token_def Let_def d nth_append_left [OF assms]
    by (auto simp: read_varint_append read_uvarint_append slice_get_Some_append app
        split: sum.splits if_splits option.splits)
  show "parse_binary_token xs pos = Inl e \<Longrightarrow> \<not> is_starved e \<Longrightarrow> parse_binary_token (xs @ ys) pos = Inl e"
    unfolding parse_binary_token_def Let_def d nth_append_left [OF assms]
    by (auto simp: read_varint_append read_uvarint_append app is_starved_def [of "UnexpectedEof _"]
        split: sum.splits if_splits option.splits)
qed

lemma next_token_append:
  "next_token True xs pos = Inr r \<Longrightarrow> next_token True (xs @ ys) pos = Inr r"
  "next_token True xs pos = Inl e \<Longrightarrow> \<not> is_starved e \<Longrightarrow> next_token True (xs @ ys) pos = Inl e"
  by (auto simp: next_token_def skip_def Let_def parse_binary_token_append is_starved_def [of Eof] split: if_splits)

lemma peek_byte_append:
  "peek_byte True xs pos = Inr r \<Longrightarrow> peek_byte True (xs @ ys) pos = Inr r"
  "peek_byte True xs pos = Inl e \<Longrightarrow> e = Eof"
  by (auto simp: peek_byte_def skip_def split: if_splits)

end
