(* ===== verification/Yson_Ser.thy ===== *)
theory Yson_Ser
  imports Yson_Lexer
begin

text \<open>
  \<open>crates/ytsaurus-yson/src/ser.rs\<close>, the \<open>Serialize\<close> implementations of \<open>node.rs\<close> and
  \<open>attributes.rs\<close>, and \<open>to_vec\<close> of \<open>lib.rs\<close>. What a \<open>Serialize\<close> implementation asks of a
  serde serializer is a tree of calls, the type \<open>serde\<close>; the serializer is the function that
  walks it. Integer and float formatting belong to the \<open>itoa\<close> and \<open>ryu\<close> crates, so they are
  the fields of the parameter \<open>fmt\<close>.
\<close>

section \<open>State and calls\<close>

record formatters =
  itoa_i64 :: "i64 \<Rightarrow> bytes"
  itoa_u64 :: "u64 \<Rightarrow> bytes"
  ryu_f64 :: "f64 \<Rightarrow> bytes"

record serializer =
  out :: bytes
  is_binary :: bool
  is_writing_attributes :: bool

text \<open>
  The calls of \<open>serde::Serializer\<close>. Integers arrive cast to 64 bits, floats to \<open>f64\<close>, a
  character as its string; \<open>none\<close>, \<open>unit\<close> and \<open>unit_struct\<close> are one call, and so are the three
  kinds of sequence.
\<close>

datatype serde =
    Ser_bool bool
  | Ser_i64 i64
  | Ser_u64 u64
  | Ser_f64 f64
  | Ser_str bytes
  | Ser_bytes bytes
  | Ser_unit
  | Ser_some serde
  | Ser_newtype_struct serde
  | Ser_unit_variant bytes
  | Ser_newtype_variant bytes serde
  | Ser_seq "serde list"
  | Ser_tuple_variant bytes "serde list"
  | Ser_map "(serde \<times> serde) list"
  | Ser_struct bytes "(bytes \<times> serde) list"
  | Ser_struct_variant bytes "(bytes \<times> serde) list"

datatype compound_mode =
    Mode_Seq
  | Mode_Map
  | Mode_Attr
  | Mode_AttrWrapper
  | Mode_VariantSeq
  | Mode_VariantMap
  | Mode_Struct bool bool bool

definition push :: "serializer \<Rightarrow> bytes \<Rightarrow> serializer" where
  "push s bs = s\<lparr>out := out s @ bs\<rparr>"

definition with_buffer :: "bytes \<Rightarrow> bool \<Rightarrow> serializer" where
  "with_buffer buffer bin = \<lparr>out = buffer, is_binary = bin, is_writing_attributes = False\<rparr>"

section \<open>Scalars\<close>

definition write_bool :: "bool \<Rightarrow> bool \<Rightarrow> bytes" where
  "write_bool bin v =
     (if bin then [if v then 0x05 else 0x04] else if v then ascii ''%true'' else ascii ''%false'')"

definition write_i64 :: "formatters \<Rightarrow> bool \<Rightarrow> i64 \<Rightarrow> bytes" where
  "write_i64 fmt bin v = (if bin then 0x02 # write_varint v else itoa_i64 fmt v)"

definition write_u64 :: "formatters \<Rightarrow> bool \<Rightarrow> u64 \<Rightarrow> bytes" where
  "write_u64 fmt bin v = (if bin then 0x06 # write_uvarint v else itoa_u64 fmt v @ [0x75])"

definition write_f64 :: "formatters \<Rightarrow> bool \<Rightarrow> f64 \<Rightarrow> bytes" where
  "write_f64 fmt bin v =
     (if bin then 0x03 # to_le v
      else if f64_is_nan v then ascii ''%nan''
      else if f64_is_infinite v then (if f64_sign_negative v then ascii ''%-inf'' else ascii ''%inf'')
      else
        (let s = ryu_f64 fmt v
         in if 0x2E \<in> set s \<or> 0x65 \<in> set s \<or> 0x45 \<in> set s then s else s @ ascii ''.0''))"

definition is_safe_unquoted :: "bytes \<Rightarrow> bool" where
  "is_safe_unquoted b =
     ((case b of [] \<Rightarrow> False | f # _ \<Rightarrow> is_alpha f \<or> f = 0x5F) \<and>
      (\<forall>c \<in> set b. is_alnum c \<or> c = 0x5F \<or> c = 0x2D \<or> c = 0x2E))"

definition hex_escape :: "u8 \<Rightarrow> bytes" where
  "hex_escape b = [0x5C, 0x78, digit_char (unat b div 16), digit_char (unat b mod 16)]"

text \<open>The escapes of \<open>write_string\<close>: control characters only, other bytes as they are.\<close>

definition escape_char :: "u8 \<Rightarrow> bytes" where
  "escape_char b =
     (if b = 0x22 then [0x5C, 0x22]
      else if b = 0x5C then [0x5C, 0x5C]
      else if b = 0x0A then [0x5C, 0x6E]
      else if b = 0x0D then [0x5C, 0x72]
      else if b = 0x09 then [0x5C, 0x74]
      else if b \<le> 0x1F then hex_escape b
      else [b])"

text \<open>The escapes of \<open>serialize_bytes\<close>: everything but printable ASCII.\<close>

definition escape_byte :: "u8 \<Rightarrow> bytes" where
  "escape_byte b =
     (if b = 0x22 then [0x5C, 0x22]
      else if b = 0x5C then [0x5C, 0x5C]
      else if b = 0x0A then [0x5C, 0x6E]
      else if b = 0x0D then [0x5C, 0x72]
      else if b = 0x09 then [0x5C, 0x74]
      else if 0x20 \<le> b \<and> b \<le> 0x7E then [b]
      else hex_escape b)"

definition write_string :: "bool \<Rightarrow> bytes \<Rightarrow> bytes" where
  "write_string bin v =
     (if bin then 0x01 # write_varint (of_nat (length v)) @ v
      else if is_safe_unquoted v then v
      else 0x22 # concat (map escape_char v) @ [0x22])"

definition write_bytes :: "bool \<Rightarrow> bytes \<Rightarrow> bytes" where
  "write_bytes bin v =
     (if bin then 0x01 # write_varint (of_nat (length v)) @ v
      else 0x22 # concat (map escape_byte v) @ [0x22])"

section \<open>Compound values\<close>

definition check_first :: "bool \<Rightarrow> bytes" where
  "check_first first = (if first then [] else [0x3B])"

definition map_open :: "serializer \<Rightarrow> u8 \<times> compound_mode" where
  "map_open s = (if is_writing_attributes s then (0x3C, Mode_Attr) else (0x7B, Mode_Map))"

text \<open>
  \<open>SerializeStruct::serialize_field\<close> in the \<open>Struct\<close> mode, up to the field's own value: what
  is written, and the next state of the compound.
\<close>

definition struct_field ::
  "bool \<Rightarrow> bytes \<Rightarrow> bool \<Rightarrow> bool \<Rightarrow> bool \<Rightarrow> bool \<Rightarrow> yson_error + bytes \<times> bool \<times> compound_mode" where
  "struct_field bin key first attr_open body_open value_written =
     (if key \<noteq> [] \<and> hd key = 0x40 then
        (let attr_name = tl key
         in if body_open \<or> value_written then Inl (Custom (Attribute_after_value attr_name))
            else
              (let (opened, first') = (if attr_open then ([], first) else ([0x3C], True))
               in Inr (opened @ check_first first' @ write_string bin attr_name @ [0x3D],
                       False, Mode_Struct True body_open value_written)))
      else
        (let closed = (if attr_open then [0x3E] else [])
         in if key = ascii ''$value'' then
              (if body_open \<or> value_written then Inl (Custom Value_beside_fields)
               else Inr (closed, first, Mode_Struct False body_open True))
            else if value_written then Inl (Custom (Field_after_value key))
            else
              (let (opened, first') = (if body_open then ([], first) else ([0x7B], True))
               in Inr (closed @ opened @ check_first first' @ write_string bin key @ [0x3D],
                       False, Mode_Struct False True value_written))))"

text \<open>\<open>SerializeStruct::end\<close>.\<close>

definition struct_end :: "compound_mode \<Rightarrow> bytes" where
  "struct_end mode =
     (case mode of
        Mode_Attr \<Rightarrow> [0x3E]
      | Mode_Seq \<Rightarrow> [0x5D]
      | Mode_VariantSeq \<Rightarrow> [0x5D]
      | Mode_Struct attr_open body_open value_written \<Rightarrow>
          (if attr_open then [0x3E, 0x23]
           else if body_open then [0x7D]
           else if \<not> value_written then [0x7B, 0x7D]
           else [])
      | Mode_AttrWrapper \<Rightarrow> []
      | _ \<Rightarrow> [0x7D])"

definition struct_open :: "bytes \<Rightarrow> serializer \<Rightarrow> compound_mode \<times> serializer" where
  "struct_open name s =
     (if name = ascii ''$__yson_attributes'' then (Mode_AttrWrapper, s)
      else if is_writing_attributes s then (Mode_Attr, (push s [0x3C])\<lparr>is_writing_attributes := False\<rparr>)
      else (Mode_Struct False False False, s))"

text \<open>What \<open>serialize_field\<close> writes before the field's value, outside the attribute wrapper.\<close>

definition field_open ::
  "bool \<Rightarrow> bytes \<Rightarrow> bool \<Rightarrow> compound_mode \<Rightarrow> yson_error + bytes \<times> bool \<times> compound_mode" where
  "field_open bin key first mode =
     (case mode of
        Mode_Struct ao bo vw \<Rightarrow> struct_field bin key first ao bo vw
      | _ \<Rightarrow> Inr (check_first first @ write_string bin key @ [0x3D], False, mode))"

function serialize :: "formatters \<Rightarrow> serde \<Rightarrow> serializer \<Rightarrow> yson_error + serializer"
  and serialize_elements :: "formatters \<Rightarrow> serde list \<Rightarrow> bool \<Rightarrow> serializer \<Rightarrow> yson_error + serializer"
  and serialize_entries :: "formatters \<Rightarrow> (serde \<times> serde) list \<Rightarrow> bool \<Rightarrow> serializer \<Rightarrow> yson_error + serializer"
  and serialize_fields ::
    "formatters \<Rightarrow> (bytes \<times> serde) list \<Rightarrow> bool \<Rightarrow> compound_mode \<Rightarrow> serializer \<Rightarrow> yson_error + serializer \<times> compound_mode"
where
  "serialize fmt (Ser_bool v) s = Inr (push s (write_bool (is_binary s) v))"
| "serialize fmt (Ser_i64 v) s = Inr (push s (write_i64 fmt (is_binary s) v))"
| "serialize fmt (Ser_u64 v) s = Inr (push s (write_u64 fmt (is_binary s) v))"
| "serialize fmt (Ser_f64 v) s = Inr (push s (write_f64 fmt (is_binary s) v))"
| "serialize fmt (Ser_str v) s = Inr (push s (write_string (is_binary s) v))"
| "serialize fmt (Ser_bytes v) s = Inr (push s (write_bytes (is_binary s) v))"
| "serialize fmt Ser_unit s = Inr (push s [0x23])"
| "serialize fmt (Ser_some v) s = serialize fmt v s"
| "serialize fmt (Ser_newtype_struct v) s = serialize fmt v s"
| "serialize fmt (Ser_unit_variant var) s = Inr (push s (write_string (is_binary s) var))"
| "serialize fmt (Ser_newtype_variant var v) s =
     and_then (serialize fmt v (push s ([0x7B] @ write_string (is_binary s) var @ [0x3D])))
       (\<lambda>s'. Inr (push s' [0x7D]))"
| "serialize fmt (Ser_seq vs) s =
     and_then (serialize_elements fmt vs True (push s [0x5B])) (\<lambda>s'. Inr (push s' [0x5D]))"
| "serialize fmt (Ser_tuple_variant var vs) s =
     and_then (serialize_elements fmt vs True (push s ([0x7B] @ write_string (is_binary s) var @ [0x3D, 0x5B])))
       (\<lambda>s'. Inr (push s' [0x5D, 0x7D]))"
| "serialize fmt (Ser_map es) s =
     (let (opening, mode) = map_open s
      in and_then (serialize_entries fmt es True ((push s [opening])\<lparr>is_writing_attributes := False\<rparr>))
           (\<lambda>s'. Inr (push s' [if mode = Mode_Attr then 0x3E else 0x7D])))"
| "serialize fmt (Ser_struct name fs) s =
     (let (mode, s1) = struct_open name s
      in and_then (serialize_fields fmt fs True mode s1) (\<lambda>(s', mode'). Inr (push s' (struct_end mode'))))"
| "serialize fmt (Ser_struct_variant var fs) s =
     and_then (serialize_fields fmt fs True Mode_VariantMap
         (push s ([0x7B] @ write_string (is_binary s) var @ [0x3D, 0x7B])))
       (\<lambda>(s', _). Inr (push s' [0x7D, 0x7D]))"
| "serialize_elements fmt [] first s = Inr s"
| "serialize_elements fmt (v # vs) first s =
     and_then (serialize fmt v (push s (check_first first))) (serialize_elements fmt vs False)"
| "serialize_entries fmt [] first s = Inr s"
| "serialize_entries fmt ((k, v) # es) first s =
     and_then (serialize fmt k (push s (check_first first))) (\<lambda>s1.
     and_then (serialize fmt v (push s1 [0x3D])) (serialize_entries fmt es False))"
| "serialize_fields fmt [] first mode s = Inr (s, mode)"
| "serialize_fields fmt ((key, v) # fs) first mode s =
     (if mode = Mode_AttrWrapper then
        (if key = ascii ''$attributes'' then
           and_then (serialize fmt v (s\<lparr>is_writing_attributes := True\<rparr>)) (serialize_fields fmt fs first mode)
         else if key = ascii ''$value'' then
           and_then (serialize fmt v s) (serialize_fields fmt fs first mode)
         else serialize_fields fmt fs first mode s)
      else
        and_then (field_open (is_binary s) key first mode) (\<lambda>(written, first', mode').
        and_then (serialize fmt v (push s written)) (serialize_fields fmt fs first' mode')))"
  by pat_completeness auto
termination
  by (relation "measure (\<lambda>x. case x of
      Inl (Inl (fmt, v, s)) \<Rightarrow> size v
    | Inl (Inr (fmt, vs, first, s)) \<Rightarrow> size_list size vs
    | Inr (Inl (fmt, es, first, s)) \<Rightarrow> size_list (size_prod size size) es
    | Inr (Inr (fmt, fs, first, mode, s)) \<Rightarrow> size_list (size_prod (\<lambda>_. 0) size) fs)") auto

section \<open>Values as calls\<close>

definition byte_string :: "bytes \<Rightarrow> serde" where
  "byte_string bs = (if utf8_valid bs then Ser_str bs else Ser_bytes bs)"

definition attributes_marker :: bytes where "attributes_marker = ascii ''$__yson_attributes''"

text \<open>\<open>impl Serialize for WithAttributes\<close>, and the attributed case of \<open>YsonValue\<close>.\<close>

definition with_attributes :: "serde \<Rightarrow> serde \<Rightarrow> serde" where
  "with_attributes a v = Ser_struct attributes_marker [(ascii ''$attributes'', a), (ascii ''$value'', v)]"

fun value_serde :: "yson_value \<Rightarrow> serde"
  and node_serde :: "yson_node \<Rightarrow> serde"
  and values_serde :: "yson_value list \<Rightarrow> serde list"
  and entries_serde :: "(bytes \<times> yson_value) list \<Rightarrow> (serde \<times> serde) list"
where
  "value_serde (YsonValue a n) =
     (case a of
        Some (kv # kvs) \<Rightarrow> with_attributes (Ser_map (entries_serde (kv # kvs))) (node_serde n)
      | _ \<Rightarrow> node_serde n)"
| "node_serde Entity = Ser_unit"
| "node_serde (Boolean v) = Ser_bool v"
| "node_serde (Int64 v) = Ser_i64 v"
| "node_serde (Uint64 v) = Ser_u64 v"
| "node_serde (Double v) = Ser_f64 v"
| "node_serde (String v) = byte_string v"
| "node_serde (List vs) = Ser_seq (values_serde vs)"
| "node_serde (Map es) = Ser_map (entries_serde es)"
| "values_serde [] = []"
| "values_serde (v # vs) = value_serde v # values_serde vs"
| "entries_serde [] = []"
| "entries_serde ((k, v) # es) = (byte_string k, value_serde v) # entries_serde es"

definition to_vec :: "formatters \<Rightarrow> serde \<Rightarrow> yson_format \<Rightarrow> yson_error + bytes" where
  "to_vec fmt v format =
     and_then (serialize fmt v (with_buffer [] (format = Binary))) (\<lambda>s. Inr (out s))"

definition to_string :: "formatters \<Rightarrow> serde \<Rightarrow> yson_format \<Rightarrow> yson_error + bytes" where
  "to_string fmt v format =
     (if format = Binary then Inl (Custom No_to_string_for_binary)
      else and_then (to_vec fmt v format) (\<lambda>bs.
        if utf8_valid bs then Inr bs else Inl (Custom Invalid_utf8_output)))"

end
