(* ===== verification/Yson_Scan.thy ===== *)
theory Yson_Scan
  imports Yson_Lexer
begin

text \<open>
  \<open>crates/ytsaurus-yson/src/scan.rs\<close>: where the first complete value of a buffer ends. The
  mutually recursive functions walk the tokens and return the cursor; they nest no deeper
  than \<open>MAX_DEPTH\<close> and every round of their loops consumes input, which is the termination
  argument.
\<close>

section \<open>The scanner\<close>

definition MAX_DEPTH :: nat where "MAX_DEPTH = 128"

datatype scan = Complete nat | Incomplete

definition end_byte_of :: "token \<Rightarrow> u8" where
  "end_byte_of t = (if t = EndMap then 0x7D else 0x3E)"

definition is_string :: "token \<Rightarrow> bool" where
  "is_string t = (case t of Token_String s \<Rightarrow> True | _ \<Rightarrow> False)"

function scan_tree :: "bool \<Rightarrow> bytes \<Rightarrow> nat \<Rightarrow> nat \<Rightarrow> yson_error + nat"
  and scan_object :: "bool \<Rightarrow> bytes \<Rightarrow> nat \<Rightarrow> nat \<Rightarrow> token \<Rightarrow> yson_error + nat"
  and scan_list :: "bool \<Rightarrow> bytes \<Rightarrow> nat \<Rightarrow> nat \<Rightarrow> yson_error + nat"
  and scan_fragment :: "bool \<Rightarrow> bytes \<Rightarrow> nat \<Rightarrow> nat \<Rightarrow> token \<Rightarrow> yson_error + nat"
where
  "scan_tree bin input pos depth =
     (if MAX_DEPTH < depth then Inl (Custom Recursion_limit_exceeded)
      else and_then (next_token bin input pos) (\<lambda>(token, pos1).
        if token = BeginAttributes then
          and_then (scan_fragment bin input pos1 (depth + 1) EndAttributes) (\<lambda>pos2.
          and_then (next_token bin input pos2) (\<lambda>(token2, pos3).
            scan_object bin input pos3 depth token2))
        else scan_object bin input pos1 depth token))"
| "scan_object bin input pos depth token =
     (case token of
        Token_String s \<Rightarrow> Inr pos
      | Token_Int64 i \<Rightarrow> Inr pos
      | Token_Uint64 u \<Rightarrow> Inr pos
      | Token_Double d \<Rightarrow> Inr pos
      | Token_Boolean b \<Rightarrow> Inr pos
      | Token_Entity \<Rightarrow> Inr pos
      | BeginList \<Rightarrow> scan_list bin input pos (depth + 1)
      | BeginMap \<Rightarrow> scan_fragment bin input pos (depth + 1) EndMap
      | other \<Rightarrow> Inl (UnexpectedToken ''a YSON value'' other pos))"
| "scan_list bin input pos depth =
     (if MAX_DEPTH < depth then Inl (Custom Recursion_limit_exceeded)
      else and_then (peek_byte bin input pos) (\<lambda>(byte, pos1).
        if byte = 0x5D then and_then (next_token bin input pos1) (\<lambda>(_, pos2). Inr pos2)
        else if byte = 0x3B then
          and_then (next_token bin input pos1) (\<lambda>(_, pos2). scan_list bin input pos2 depth)
        else and_then (scan_tree bin input pos1 depth) (\<lambda>pos2. scan_list bin input pos2 depth)))"
| "scan_fragment bin input pos depth end_token =
     (if MAX_DEPTH < depth then Inl (Custom Recursion_limit_exceeded)
      else and_then (peek_byte bin input pos) (\<lambda>(peeked, pos1).
        if peeked = end_byte_of end_token then and_then (next_token bin input pos1) (\<lambda>(_, pos2). Inr pos2)
        else if peeked = 0x3B then
          and_then (next_token bin input pos1) (\<lambda>(_, pos2). scan_fragment bin input pos2 depth end_token)
        else
          and_then (next_token bin input pos1) (\<lambda>(key, pos2).
            if \<not> is_string key then Inl (UnexpectedToken ''a map key'' key pos2)
            else and_then (next_token bin input pos2) (\<lambda>(eq, pos3).
              if eq \<noteq> KeyValueSeparator then Inl (UnexpectedToken [CHR 0x27, CHR 0x3D, CHR 0x27] eq pos3)
              else and_then (scan_tree bin input pos3 depth) (\<lambda>pos4.
                scan_fragment bin input pos4 depth end_token)))))"
  by pat_completeness auto

lemma scan_consumes_dom:
  "scan_tree_scan_object_scan_list_scan_fragment_dom (Inl (Inl (bin, input, pos, depth))) \<Longrightarrow>
     scan_tree bin input pos depth = Inr p' \<Longrightarrow> pos < p' \<and> p' \<le> length input"
  "scan_tree_scan_object_scan_list_scan_fragment_dom (Inl (Inr (bin, input, pos, depth, tok))) \<Longrightarrow>
     scan_object bin input pos depth tok = Inr p' \<Longrightarrow> pos \<le> p' \<and> (pos \<le> length input \<longrightarrow> p' \<le> length input)"
  "scan_tree_scan_object_scan_list_scan_fragment_dom (Inr (Inl (bin, input, pos, depth))) \<Longrightarrow>
     scan_list bin input pos depth = Inr p' \<Longrightarrow> pos < p' \<and> p' \<le> length input"
  "scan_tree_scan_object_scan_list_scan_fragment_dom (Inr (Inr (bin, input, pos, depth, tok))) \<Longrightarrow>
     scan_fragment bin input pos depth tok = Inr p' \<Longrightarrow> pos < p' \<and> p' \<le> length input"
proof (induction arbitrary: p' and p' and p' and p'
    rule: scan_tree_scan_object_scan_list_scan_fragment.pinduct)
  case (1 bin input pos depth)
  have d: "\<not> MAX_DEPTH < depth" using 1(1,5) by (auto simp: scan_tree.psimps)
  then obtain token pos1 where n: "next_token bin input pos = Inr (token, pos1)"
    using 1(1,5) by (auto simp: scan_tree.psimps and_then_Inr)
  show ?case
  proof (cases "token = BeginAttributes")
    case True
    then obtain pos2 token2 pos3 where f: "scan_fragment bin input pos1 (depth + 1) EndAttributes = Inr pos2"
      and n2: "next_token bin input pos2 = Inr (token2, pos3)" and o': "scan_object bin input pos3 depth token2 = Inr p'"
      using 1(1,5) d n by (auto simp: scan_tree.psimps and_then_Inr)
    show ?thesis
      using 1(2) [OF d n refl True f] 1(3) [OF d n refl True f n2 refl o'] next_token_consumes [OF n]
        next_token_consumes [OF n2] by simp
  next
    case False
    then have "scan_object bin input pos1 depth token = Inr p'"
      using 1(1,5) d n by (auto simp: scan_tree.psimps and_then_Inr)
    from 1(4) [OF d n refl False this] next_token_consumes [OF n] show ?thesis by simp
  qed
next
  case (2 bin input pos depth token)
  then show ?case
    by (cases token) (auto simp: scan_object.psimps)
next
  case (3 bin input pos depth)
  have d: "\<not> MAX_DEPTH < depth" using 3(1,5) by (auto simp: scan_list.psimps)
  then obtain b pos1 where n: "peek_byte bin input pos = Inr (b, pos1)"
    using 3(1,5) by (auto simp: scan_list.psimps and_then_Inr)
  note p = peek_byte_Inr [OF n]
  consider (close) "b = 0x5D" | (sep) "b \<noteq> 0x5D" "b = 0x3B" | (item) "b \<noteq> 0x5D" "b \<noteq> 0x3B" by blast
  then show ?case
  proof cases
    case close
    then show ?thesis
      using 3(1,5) d n p by (auto simp: scan_list.psimps and_then_Inr dest!: next_token_consumes)
  next
    case sep
    then obtain t pos2 where n2: "next_token bin input pos1 = Inr (t, pos2)" and r: "scan_list bin input pos2 depth = Inr p'"
      using 3(1,5) d n by (auto simp: scan_list.psimps and_then_Inr)
    show ?thesis using 3(2) [OF d n refl sep n2 refl r] next_token_consumes [OF n2] p by simp
  next
    case item
    then obtain pos2 where s: "scan_tree bin input pos1 depth = Inr pos2" and r: "scan_list bin input pos2 depth = Inr p'"
      using 3(1,5) d n by (auto simp: scan_list.psimps and_then_Inr)
    show ?thesis using 3(3) [OF d n refl item s] 3(4) [OF d n refl item s r] p by simp
  qed
next
  case (4 bin input pos depth tok)
  have d: "\<not> MAX_DEPTH < depth" using 4(1,5) by (auto simp: scan_fragment.psimps)
  then obtain b pos1 where n: "peek_byte bin input pos = Inr (b, pos1)"
    using 4(1,5) by (auto simp: scan_fragment.psimps and_then_Inr)
  note p = peek_byte_Inr [OF n]
  consider (close) "b = end_byte_of tok" | (sep) "b \<noteq> end_byte_of tok" "b = 0x3B"
    | (item) "b \<noteq> end_byte_of tok" "b \<noteq> 0x3B" by blast
  then show ?case
  proof cases
    case close
    then show ?thesis
      using 4(1,5) d n p by (auto simp: scan_fragment.psimps and_then_Inr dest!: next_token_consumes)
  next
    case sep
    then obtain t pos2 where n2: "next_token bin input pos1 = Inr (t, pos2)" and r: "scan_fragment bin input pos2 depth tok = Inr p'"
      using 4(1,5) d n by (auto simp: scan_fragment.psimps and_then_Inr)
    show ?thesis using 4(2) [OF d n refl sep n2 refl r] next_token_consumes [OF n2] p by simp
  next
    case item
    then obtain key pos2 eq pos3 pos4 where n2: "next_token bin input pos1 = Inr (key, pos2)"
      and k: "\<not> \<not> is_string key" and n3: "next_token bin input pos2 = Inr (eq, pos3)"
      and q: "\<not> eq \<noteq> KeyValueSeparator" and s: "scan_tree bin input pos3 depth = Inr pos4"
      and r: "scan_fragment bin input pos4 depth tok = Inr p'"
      using 4(1,5) d n by (auto simp: scan_fragment.psimps and_then_Inr split: if_splits)
    show ?thesis
      using 4(3) [OF d n refl item n2 refl k n3 refl q s] 4(4) [OF d n refl item n2 refl k n3 refl q s r]
        next_token_consumes [OF n2] next_token_consumes [OF n3] p by simp
  qed
qed

lemma scan_terminates: "All scan_tree_scan_object_scan_list_scan_fragment_dom"
proof (relation "measure (\<lambda>x. case x of
      Inl (Inl (bin, input, pos, depth)) \<Rightarrow> 3 * (length input - pos)
    | Inl (Inr (bin, input, pos, depth, tok)) \<Rightarrow> 3 * (length input - pos) + 2
    | Inr (Inl (bin, input, pos, depth)) \<Rightarrow> 3 * (length input - pos) + 1
    | Inr (Inr (bin, input, pos, depth, tok)) \<Rightarrow> 3 * (length input - pos) + 1)", goal_cases)
qed (auto dest!: next_token_consumes peek_byte_Inr scan_consumes_dom)

termination scan_tree by (rule scan_terminates)

declare scan_tree.simps [simp del] scan_object.simps [simp del] scan_list.simps [simp del]
  scan_fragment.simps [simp del]

definition scan_value :: "bytes \<Rightarrow> yson_format \<Rightarrow> yson_error + scan" where
  "scan_value input format =
     (case scan_tree (format = Binary) input 0 0 of
        Inr len \<Rightarrow> Inr (Complete len)
      | Inl Eof \<Rightarrow> Inr Incomplete
      | Inl (UnexpectedEof _) \<Rightarrow> Inr Incomplete
      | Inl e \<Rightarrow> Inl e)"

lemma scan_tree_consumes: "scan_tree bin input pos depth = Inr p' \<Longrightarrow> pos < p' \<and> p' \<le> length input"
  by (rule scan_consumes_dom(1)) (use scan_terminates in blast)

section \<open>Answers that more bytes do not change\<close>

text \<open>A result is settled when it is a value or an error other than running out of bytes.\<close>

definition settled :: "yson_error + 'a \<Rightarrow> bool" where
  "settled r = (case r of Inl e \<Rightarrow> \<not> is_starved e | Inr x \<Rightarrow> True)"

lemma settled_simps [simp]: "settled (Inr x)" "settled (Inl e) \<longleftrightarrow> \<not> is_starved e"
  by (simp_all add: settled_def)

lemma settled_and_then:
  assumes "settled (and_then r f)"
    and "settled r \<Longrightarrow> r' = r"
    and "\<And>x. r = Inr x \<Longrightarrow> settled (f x) \<Longrightarrow> f' x = f x"
  shows "and_then r' f' = and_then r f"
  using assms by (cases r) auto

lemma settled_and_then_pair:
  assumes "settled (and_then r (\<lambda>(a, b). f a b))"
    and "settled r \<Longrightarrow> r' = r"
    and "\<And>a b. r = Inr (a, b) \<Longrightarrow> settled (f a b) \<Longrightarrow> f' a b = f a b"
  shows "and_then r' (\<lambda>(a, b). f' a b) = and_then r (\<lambda>(a, b). f a b)"
  by (rule settled_and_then [OF assms(1,2)]) (auto simp: assms(3))

lemma next_token_settled:
  "settled (next_token True xs pos) \<Longrightarrow> next_token True (xs @ ys) pos = next_token True xs pos"
  using next_token_append [of xs pos] by (cases "next_token True xs pos") auto

lemma peek_byte_settled:
  "settled (peek_byte True xs pos) \<Longrightarrow> peek_byte True (xs @ ys) pos = peek_byte True xs pos"
  using peek_byte_append [of xs pos] by (cases "peek_byte True xs pos") (auto simp: is_starved_def)

lemma scan_settled:
  "bin \<Longrightarrow> settled (scan_tree bin xs pos depth) \<Longrightarrow> scan_tree bin (xs @ ys) pos depth = scan_tree bin xs pos depth"
  "bin \<Longrightarrow> settled (scan_object bin xs pos depth tok) \<Longrightarrow>
     scan_object bin (xs @ ys) pos depth tok = scan_object bin xs pos depth tok"
  "bin \<Longrightarrow> settled (scan_list bin xs pos depth) \<Longrightarrow> scan_list bin (xs @ ys) pos depth = scan_list bin xs pos depth"
  "bin \<Longrightarrow> settled (scan_fragment bin xs pos depth tok) \<Longrightarrow>
     scan_fragment bin (xs @ ys) pos depth tok = scan_fragment bin xs pos depth tok"
proof (induction bin xs pos depth and bin xs pos depth tok and bin xs pos depth and bin xs pos depth tok
    rule: scan_tree_scan_object_scan_list_scan_fragment.induct)
  case (1 bin xs pos depth)
  show ?case
  proof (cases "MAX_DEPTH < depth")
    case d: False
    show ?thesis
      using 1(5) unfolding scan_tree.simps [of bin _ pos] if_not_P [OF d]
    proof (rule settled_and_then_pair)
      fix token pos1
      assume n: "next_token bin xs pos = Inr (token, pos1)"
        and s: "settled (if token = BeginAttributes then
          and_then (scan_fragment bin xs pos1 (depth + 1) EndAttributes) (\<lambda>pos2.
          and_then (next_token bin xs pos2) (\<lambda>(token2, pos3). scan_object bin xs pos3 depth token2))
        else scan_object bin xs pos1 depth token)"
      show "(if token = BeginAttributes then
          and_then (scan_fragment bin (xs @ ys) pos1 (depth + 1) EndAttributes) (\<lambda>pos2.
          and_then (next_token bin (xs @ ys) pos2) (\<lambda>(token2, pos3). scan_object bin (xs @ ys) pos3 depth token2))
        else scan_object bin (xs @ ys) pos1 depth token) =
        (if token = BeginAttributes then
          and_then (scan_fragment bin xs pos1 (depth + 1) EndAttributes) (\<lambda>pos2.
          and_then (next_token bin xs pos2) (\<lambda>(token2, pos3). scan_object bin xs pos3 depth token2))
        else scan_object bin xs pos1 depth token)"
      proof (cases "token = BeginAttributes")
        case True
        show ?thesis
          using s unfolding if_P [OF True]
        proof (rule settled_and_then, goal_cases)
          case 1
          then show ?case using 1(1) "1.IH"(1) [OF d n refl True] \<open>bin\<close> by blast
        next
          case (2 pos2)
          from 2(2) show ?case
          proof (rule settled_and_then_pair, goal_cases)
            case 1
            then show ?case using \<open>bin\<close> by (simp add: next_token_settled)
          next
            case (2 token2 pos3)
            show ?case by (rule "1.IH"(2) [OF d n refl True \<open>scan_fragment bin xs pos1 (depth + 1) EndAttributes = Inr pos2\<close> 2(1) refl \<open>bin\<close> 2(2)])
          qed
        qed
      next
        case False
        show ?thesis
          using s "1.IH"(3) [OF d n refl False \<open>bin\<close>] unfolding if_not_P [OF False] by blast
      qed
    qed (use \<open>bin\<close> in \<open>simp add: next_token_settled\<close>)
  qed (simp add: scan_tree.simps)
next
  case (2 bin xs pos depth tok)
  then show ?case by (cases tok) (simp_all add: scan_object.simps)
next
  case (3 bin xs pos depth)
  show ?case
  proof (cases "MAX_DEPTH < depth")
    case d: False
    show ?thesis
      using 3(5) unfolding scan_list.simps [of bin _ pos] if_not_P [OF d]
    proof (rule settled_and_then_pair, goal_cases)
      case 1
      then show ?case using \<open>bin\<close> by (simp add: peek_byte_settled)
    next
      case (2 byte pos1)
      note n = 2(1) and s = 2(2)
      consider (close) "byte = 0x5D" | (sep) "byte \<noteq> 0x5D" "byte = 0x3B" | (item) "byte \<noteq> 0x5D" "byte \<noteq> 0x3B" by blast
      then show ?case
      proof cases
        case close
        show ?thesis using s unfolding if_P [OF close]
          by (rule settled_and_then_pair) (use \<open>bin\<close> in \<open>simp_all add: next_token_settled\<close>)
      next
        case sep
        show ?thesis using s unfolding if_not_P [OF sep(1)] if_P [OF sep(2)]
        proof (rule settled_and_then_pair, goal_cases)
          case (2 t pos2)
          show ?case by (rule "3.IH"(1) [OF d n refl sep 2(1) refl \<open>bin\<close> 2(2)])
        qed (use \<open>bin\<close> in \<open>simp add: next_token_settled\<close>)
      next
        case item
        show ?thesis using s unfolding if_not_P [OF item(1)] if_not_P [OF item(2)]
        proof (rule settled_and_then, goal_cases)
          case 1
          then show ?case using "3.IH"(2) [OF d n refl item \<open>bin\<close>] by blast
        next
          case (2 pos2)
          show ?case by (rule "3.IH"(3) [OF d n refl item 2(1) \<open>bin\<close> 2(2)])
        qed
      qed
    qed
  qed (simp add: scan_list.simps)
next
  case (4 bin xs pos depth tok)
  show ?case
  proof (cases "MAX_DEPTH < depth")
    case d: False
    show ?thesis
      using 4(5) unfolding scan_fragment.simps [of bin _ pos] if_not_P [OF d]
    proof (rule settled_and_then_pair, goal_cases)
      case 1
      then show ?case using \<open>bin\<close> by (simp add: peek_byte_settled)
    next
      case (2 byte pos1)
      note n = 2(1) and s = 2(2)
      consider (close) "byte = end_byte_of tok" | (sep) "byte \<noteq> end_byte_of tok" "byte = 0x3B"
        | (item) "byte \<noteq> end_byte_of tok" "byte \<noteq> 0x3B" by blast
      then show ?case
      proof cases
        case close
        show ?thesis using s unfolding if_P [OF close]
          by (rule settled_and_then_pair) (use \<open>bin\<close> in \<open>simp_all add: next_token_settled\<close>)
      next
        case sep
        show ?thesis using s unfolding if_not_P [OF sep(1)] if_P [OF sep(2)]
        proof (rule settled_and_then_pair, goal_cases)
          case (2 t pos2)
          show ?case by (rule "4.IH"(1) [OF d n refl sep 2(1) refl \<open>bin\<close> 2(2)])
        qed (use \<open>bin\<close> in \<open>simp add: next_token_settled\<close>)
      next
        case item
        show ?thesis using s unfolding if_not_P [OF item(1)] if_not_P [OF item(2)]
        proof (rule settled_and_then_pair, goal_cases)
          case (2 key pos2)
          note n2 = 2(1) and s2 = 2(2)
          show ?case
          proof (cases "is_string key")
            case k: True
            then have k': "\<not> \<not> is_string key" by simp
            show ?thesis using s2 unfolding if_not_P [OF k']
            proof (rule settled_and_then_pair, goal_cases)
              case (2 eq pos3)
              note n3 = 2(1) and s3 = 2(2)
              show ?case
              proof (cases "eq = KeyValueSeparator")
                case q: True
                then have q': "\<not> eq \<noteq> KeyValueSeparator" by simp
                show ?thesis using s3 unfolding if_not_P [OF q']
                proof (rule settled_and_then, goal_cases)
                  case 1
                  then show ?case using "4.IH"(2) [OF d n refl item n2 refl k' n3 refl q' \<open>bin\<close>] by blast
                next
                  case (2 pos4)
                  show ?case by (rule "4.IH"(3) [OF d n refl item n2 refl k' n3 refl q' 2(1) \<open>bin\<close> 2(2)])
                qed
              qed simp
            qed (use \<open>bin\<close> in \<open>simp add: next_token_settled\<close>)
          qed simp
        qed (use \<open>bin\<close> in \<open>simp add: next_token_settled\<close>)
      qed
    qed
  qed (simp add: scan_fragment.simps)
qed

lemma scan_value_Complete:
  "scan_value input format = Inr (Complete n) \<longleftrightarrow> scan_tree (format = Binary) input 0 0 = Inr n"
  by (auto simp: scan_value_def split: sum.splits yson_error.splits)

lemma scan_value_Inl:
  "scan_value input format = Inl e \<longleftrightarrow> scan_tree (format = Binary) input 0 0 = Inl e \<and> \<not> is_starved e"
  by (auto simp: scan_value_def is_starved_def split: sum.splits yson_error.splits)

text \<open>The next value of a buffer as a frame: its bytes, and how many there are.\<close>

definition scan_frame :: "bytes \<Rightarrow> yson_error + (bytes \<times> nat) option" where
  "scan_frame input =
     (case scan_value input Binary of
        Inl e \<Rightarrow> Inl e
      | Inr Incomplete \<Rightarrow> Inr None
      | Inr (Complete n) \<Rightarrow> Inr (Some (take n input, n)))"

lemma scan_frame_Some:
  "scan_frame xs = Inr (Some (v, n)) \<longleftrightarrow> scan_tree True xs 0 0 = Inr n \<and> v = take n xs"
  by (auto simp: scan_frame_def scan_value_Complete [of _ Binary, simplified, symmetric] split: sum.splits scan.splits)

lemma scan_frame_Inl: "scan_frame xs = Inl e \<longleftrightarrow> scan_tree True xs 0 0 = Inl e \<and> \<not> is_starved e"
  using scan_value_Inl [of xs Binary e]
  by (auto simp: scan_frame_def split: sum.splits scan.splits)

interpretation records: stream_framer scan_frame
proof unfold_locales
  show "scan_frame [] = Inr None"
    by (simp add: scan_frame_def scan_value_def scan_tree.simps next_token_def skip_def MAX_DEPTH_def)
next
  fix xs ys a n
  assume "scan_frame xs = Inr (Some (a, n))"
  then have t: "scan_tree True xs 0 0 = Inr n" and a: "a = take n xs" by (simp_all add: scan_frame_Some)
  from scan_tree_consumes [OF t] show n: "0 < n \<and> n \<le> length xs" by simp
  have "scan_tree True (xs @ ys) 0 0 = Inr n" using scan_settled(1) [of True xs 0 0 ys] t by simp
  then show "scan_frame (xs @ ys) = Inr (Some (a, n))"
    using n by (simp add: scan_frame_Some a)
next
  fix xs ys e
  assume "scan_frame xs = Inl e"
  then have t: "scan_tree True xs 0 0 = Inl e" "\<not> is_starved e" by (simp_all add: scan_frame_Inl)
  then have "scan_tree True (xs @ ys) 0 0 = Inl e" using scan_settled(1) [of True xs 0 0 ys] by simp
  then show "scan_frame (xs @ ys) = Inl e" using t(2) by (simp add: scan_frame_Inl)
qed

section \<open>Properties\<close>

text \<open>
  In binary format, once the scanner has found the end of a value, more bytes never move
  it, and every cut before that end is reported as incomplete, never as an error or as a
  shorter value.
\<close>

theorem binary_scan_final:
  assumes "scan_value input Binary = Inr (Complete len)"
  shows "0 < len \<and> len \<le> length input \<and> scan_value (input @ more) Binary = Inr (Complete len)
    \<and> (\<forall>k < len. scan_value (take k input) Binary = Inr Incomplete)"
proof (intro conjI allI impI)
  from assms have f: "scan_frame input = Inr (Some (take len input, len))" by (simp add: scan_frame_def)
  from records.frame_consumes [OF f] show "0 < len" and le: "len \<le> length input" by simp_all
  from records.frame_final [OF f, of more] show "scan_value (input @ more) Binary = Inr (Complete len)"
    by (simp add: scan_frame_Some scan_value_Complete)
  fix k assume k: "k < len"
  from records.frame_cut [OF f k] show "scan_value (take k input) Binary = Inr Incomplete"
    by (auto simp: scan_frame_def split: sum.splits scan.splits)
qed

theorem binary_scan_final_witness:
  "scan_value ([0x7B, 0x7D] @ [9]) Binary = Inr (Complete 2)
   \<and> scan_value (take 1 [0x7B, 0x7D]) Binary = Inr Incomplete"
proof -
  have "scan_value [0x7B, 0x7D] Binary = Inr (Complete 2)"
    by (simp add: scan_value_def scan_tree.simps scan_object.simps scan_fragment.simps next_token_def peek_byte_def
        skip_def parse_binary_token_def punctuation_def end_byte_of_def MAX_DEPTH_def)
  from binary_scan_final [OF this, of "[9]"]
  have final: "scan_value ([0x7B, 0x7D] @ [9]) Binary = Inr (Complete 2)"
    and cuts: "\<forall>k < 2. scan_value (take k [0x7B, 0x7D]) Binary = Inr Incomplete" by blast+
  have "(1::nat) < 2" by simp
  with final cuts show ?thesis by blast
qed

text \<open>
  In text format the end of the buffer ends a scalar, so a number cut by a read is
  reported as a complete value; the scan of the whole buffer finds the longer one.
\<close>

theorem text_scan_not_final:
  "scan_value [0x34] Text = Inr (Complete 1) \<and> scan_value [0x34, 0x32] Text = Inr (Complete 2)"
  by (simp add: scan_value_def scan_tree.simps scan_object.simps next_token_def skip_def skip_ignored.simps
      is_space_def parse_text_token_def punctuation_def is_digit_def parse_text_number_def number_end.simps
      parse_signed64_def to_digit_def MAX_DEPTH_def)

text \<open>
  C34: however the bytes of a stream of binary values were cut into reads, the values found
  and the bytes left over are those of the whole stream.
\<close>

theorem scan_any_chunking:
  "foldl (feed scan_frame) ([], Inr []) chunks = drain scan_frame (concat chunks)"
  by (rule records.chunking_irrelevant)

end
