(* ===== verification/Yson_De.thy ===== *)
theory Yson_De
  imports Yson_Scan
begin

text \<open>
  \<open>crates/ytsaurus-yson/src/de.rs\<close> and \<open>access.rs\<close>, driven by the visitor of \<open>YsonValue\<close>: what
  \<open>from_slice::<YsonValue>\<close> and \<open>StreamDeserializer<YsonValue>\<close> do. The serde traits are
  resolved for that visitor, so \<open>deserialize_any\<close>, the two \<open>MapAccess\<close> implementations, the
  \<open>SeqAccess\<close> of \<open>CommaSeparated\<close> and the visitor's methods become functions of the cursor
  and the depth. The depth is raised on entry and lowered by \<open>Drop\<close>, so it is an argument.
\<close>

section \<open>Containers\<close>

definition DE_MAX_DEPTH :: nat where "DE_MAX_DEPTH = 128"

definition enter_recursion :: "nat \<Rightarrow> yson_error + nat" where
  "enter_recursion depth =
     (if DE_MAX_DEPTH < depth + 1 then Inl (Custom Recursion_limit_exceeded) else Inr (depth + 1))"

text \<open>\<open>end_container\<close>: closes a container whose visitor stopped before its terminator.\<close>

definition end_container :: "bool \<Rightarrow> bytes \<Rightarrow> nat \<Rightarrow> bool \<Rightarrow> u8 \<Rightarrow> yson_error + nat" where
  "end_container bin input pos container_ended end_byte =
     (if container_ended then Inr pos
      else and_then (peek_byte bin input pos) (\<lambda>(b, pos1).
        and_then (if b = 0x3B then and_then (next_token bin input pos1) (\<lambda>(_, p). Inr p) else Inr pos1) (\<lambda>pos2.
        and_then (peek_byte bin input pos2) (\<lambda>(byte, pos3).
          if byte \<noteq> end_byte then Inl (Custom (Expected_terminator end_byte byte pos3))
          else and_then (next_token bin input pos3) (\<lambda>(_, p). Inr p)))))"

definition end_of_input :: "bool \<Rightarrow> bytes \<Rightarrow> nat \<Rightarrow> yson_error + unit" where
  "end_of_input bin input pos =
     (case peek_byte bin input pos of
        Inl Eof \<Rightarrow> Inr ()
      | Inr (byte, p) \<Rightarrow> Inl (Custom (Trailing_data byte p))
      | Inl other \<Rightarrow> Inl other)"

text \<open>
  What \<open>CommaSeparated::next_key_seed\<close> and \<open>next_element_seed\<close> do before the element: \<open>None\<close>
  at the terminator, which is consumed, else where the element starts.
\<close>

definition comma_next :: "bool \<Rightarrow> bytes \<Rightarrow> u8 \<Rightarrow> nat \<Rightarrow> yson_error + bool \<times> nat" where
  "comma_next bin input end_byte pos =
     and_then (peek_byte bin input pos) (\<lambda>(peeked, pos1).
       if peeked = end_byte then and_then (next_token bin input pos1) (\<lambda>(_, p). Inr (False, p))
       else if peeked = 0x3B then
         and_then (next_token bin input pos1) (\<lambda>(_, pos2).
         and_then (peek_byte bin input pos2) (\<lambda>(b, pos3).
           if b = end_byte then and_then (next_token bin input pos3) (\<lambda>(_, p). Inr (False, p))
           else Inr (True, pos3)))
       else Inr (True, pos1))"

text \<open>
  \<open>MapKey::deserialize\<close>: \<open>deserialize_any\<close> with a visitor that only takes strings; any other
  value is serde's "invalid type" error, after the access object of a container was made.
\<close>

definition de_key :: "bool \<Rightarrow> bytes \<Rightarrow> nat \<Rightarrow> nat \<Rightarrow> yson_error + bytes \<times> nat" where
  "de_key bin input pos depth =
     and_then (peek_byte bin input pos) (\<lambda>(b, pos1).
       if b = 0x3C then and_then (enter_recursion depth) (\<lambda>_. Inl (Custom (Invalid_type ''map'')))
       else and_then (next_token bin input pos1) (\<lambda>(t, pos2).
         case t of
           Token_String s \<Rightarrow> Inr (s, pos2)
         | Token_Entity \<Rightarrow> Inl (Custom (Invalid_type ''unit value''))
         | Token_Boolean _ \<Rightarrow> Inl (Custom (Invalid_type ''boolean''))
         | Token_Int64 _ \<Rightarrow> Inl (Custom (Invalid_type ''integer''))
         | Token_Uint64 _ \<Rightarrow> Inl (Custom (Invalid_type ''integer''))
         | Token_Double _ \<Rightarrow> Inl (Custom (Invalid_type ''floating point''))
         | BeginList \<Rightarrow> and_then (enter_recursion depth) (\<lambda>_. Inl (Custom (Invalid_type ''sequence'')))
         | BeginMap \<Rightarrow> and_then (enter_recursion depth) (\<lambda>_. Inl (Custom (Invalid_type ''map'')))
         | BeginAttributes \<Rightarrow> and_then (enter_recursion depth) (\<lambda>_. Inl (Custom (Invalid_type ''map'')))
         | other \<Rightarrow> Inl (Custom (Unexpected_token other))))"

definition expect_equals :: "bool \<Rightarrow> bytes \<Rightarrow> nat \<Rightarrow> yson_error + nat" where
  "expect_equals bin input pos =
     and_then (next_token bin input pos) (\<lambda>(t, p).
       if t \<noteq> KeyValueSeparator then Inl (Custom (Expected_equals t)) else Inr p)"

section \<open>The flat view of an attributed value\<close>

datatype flat_state = Flat_Attributes | Flat_Between | Flat_Body | Flat_ValueOnly | Flat_Done

fun flat_rank :: "flat_state \<Rightarrow> nat" where
  "flat_rank Flat_Attributes = 4"
| "flat_rank Flat_Between = 3"
| "flat_rank Flat_Body = 2"
| "flat_rank Flat_ValueOnly = 1"
| "flat_rank Flat_Done = 0"

definition flat_new :: "bool \<Rightarrow> bytes \<Rightarrow> nat \<Rightarrow> nat \<Rightarrow> yson_error + flat_state \<times> nat \<times> nat" where
  "flat_new bin input pos depth =
     and_then (enter_recursion depth) (\<lambda>depth'.
     and_then (peek_byte bin input pos) (\<lambda>(b, pos1).
       if b = 0x3C then and_then (next_token bin input pos1) (\<lambda>(_, p). Inr (Flat_Attributes, p, depth'))
       else if b = 0x7B then and_then (next_token bin input pos1) (\<lambda>(_, p). Inr (Flat_Body, p, depth'))
       else if b = 0x23 then and_then (next_token bin input pos1) (\<lambda>(_, p). Inr (Flat_Done, p, depth'))
       else Inr (Flat_ValueOnly, pos1, depth')))"

text \<open>
  \<open>FlatStructAccess::next_key_seed\<close>: the key if there is one, whether it is the made-up
  \<open>$value\<close>, the next state and the cursor.
\<close>

function flat_key ::
  "bool \<Rightarrow> bytes \<Rightarrow> flat_state \<Rightarrow> nat \<Rightarrow> nat \<Rightarrow> yson_error + bytes option \<times> bool \<times> flat_state \<times> nat"
where
  "flat_key bin input Flat_Attributes pos depth =
     and_then (peek_byte bin input pos) (\<lambda>(peeked, pos1).
       if peeked = 0x3E then
         and_then (next_token bin input pos1) (\<lambda>(_, p). flat_key bin input Flat_Between p depth)
       else if peeked = 0x3B then
         and_then (next_token bin input pos1) (\<lambda>(_, p). flat_key bin input Flat_Attributes p depth)
       else and_then (next_token bin input pos1) (\<lambda>(t, p).
         case t of
           Token_String s \<Rightarrow> Inr (Some (0x40 # s), False, Flat_Attributes, p)
         | _ \<Rightarrow> Inl (Custom Expected_string_key_in_attributes)))"
| "flat_key bin input Flat_Between pos depth =
     and_then (peek_byte bin input pos) (\<lambda>(peeked, pos1).
       if peeked = 0x7B then
         and_then (next_token bin input pos1) (\<lambda>(_, p). flat_key bin input Flat_Body p depth)
       else if peeked = 0x23 then
         and_then (next_token bin input pos1) (\<lambda>(_, p). Inr (None, False, Flat_Done, p))
       else flat_key bin input Flat_ValueOnly pos1 depth)"
| "flat_key bin input Flat_Body pos depth =
     and_then (peek_byte bin input pos) (\<lambda>(peeked, pos1).
       if peeked = 0x7D then and_then (next_token bin input pos1) (\<lambda>(_, p). Inr (None, False, Flat_Done, p))
       else if peeked = 0x3B then
         and_then (next_token bin input pos1) (\<lambda>(_, p). flat_key bin input Flat_Body p depth)
       else and_then (de_key bin input pos1 depth) (\<lambda>(k, p). Inr (Some k, False, Flat_Body, p)))"
| "flat_key bin input Flat_ValueOnly pos depth = Inr (Some (ascii ''$value''), True, Flat_Done, pos)"
| "flat_key bin input Flat_Done pos depth = Inr (None, False, Flat_Done, pos)"
  by pat_completeness auto
termination
  by (relation "measures [\<lambda>(bin, input, st, pos, depth). length input - pos, \<lambda>(bin, input, st, pos, depth). flat_rank st]")
    (auto dest!: next_token_consumes peek_byte_Inr)

declare flat_key.simps(1-3) [simp del]

section \<open>The visitor\<close>

datatype map_access = Comma u8 | Flat flat_state

text \<open>\<open>next_key\<close> on either access; a \<open>CommaSeparated\<close> that returns no key has consumed its end.\<close>

definition next_key ::
  "bool \<Rightarrow> bytes \<Rightarrow> map_access \<Rightarrow> nat \<Rightarrow> nat \<Rightarrow> yson_error + bytes option \<times> bool \<times> map_access \<times> nat" where
  "next_key bin input acc pos depth =
     (case acc of
        Comma end_byte \<Rightarrow>
          and_then (comma_next bin input end_byte pos) (\<lambda>(another, pos1).
            if another then and_then (de_key bin input pos1 depth) (\<lambda>(k, p). Inr (Some k, False, acc, p))
            else Inr (None, False, acc, pos1))
      | Flat st \<Rightarrow>
          and_then (flat_key bin input st pos depth) (\<lambda>(k, value_only, st', p). Inr (k, value_only, Flat st', p)))"

record visit =
  attrs :: "(bytes \<times> yson_value) list"
  plain_map :: "(bytes \<times> yson_value) list"
  body_node :: "yson_node option"
  is_attributed :: bool

definition visit_new :: visit where
  "visit_new = \<lparr>attrs = [], plain_map = [], body_node = None, is_attributed = False\<rparr>"

text \<open>One entry of \<open>visit_map\<close>: an attribute, the body, or a plain key.\<close>

definition visit_entry :: "bytes \<Rightarrow> yson_value \<Rightarrow> visit \<Rightarrow> visit" where
  "visit_entry key v st =
     (if key \<noteq> [] \<and> hd key = 0x40 then
        st\<lparr>attrs := btree_insert (tl key) v (attrs st), is_attributed := True\<rparr>
      else if key = ascii ''$value'' then
        st\<lparr>is_attributed := True, body_node := Some (node v),
           attrs := (case attributes v of None \<Rightarrow> attrs st | Some inner \<Rightarrow> btree_extend (attrs st) inner)\<rparr>
      else st\<lparr>plain_map := btree_insert key v (plain_map st)\<rparr>)"

definition visit_finish :: "visit \<Rightarrow> yson_error + yson_value" where
  "visit_finish st =
     (if is_attributed st then
        (if plain_map st \<noteq> [] \<and> body_node st \<noteq> None then Inl (Custom (Two_bodies (fst (hd (plain_map st)))))
         else
           Inr (YsonValue (if attrs st = [] then None else Some (attrs st))
             (if plain_map st \<noteq> [] then Map (plain_map st)
              else (case body_node st of None \<Rightarrow> Entity | Some n \<Rightarrow> n))))
      else Inr (plain (Map (plain_map st))))"

function de_value :: "bool \<Rightarrow> bytes \<Rightarrow> nat \<Rightarrow> nat \<Rightarrow> yson_error + yson_value \<times> nat"
  and de_seq :: "bool \<Rightarrow> bytes \<Rightarrow> nat \<Rightarrow> nat \<Rightarrow> yson_error + yson_value list \<times> nat"
  and de_map :: "bool \<Rightarrow> bytes \<Rightarrow> map_access \<Rightarrow> nat \<Rightarrow> nat \<Rightarrow> visit \<Rightarrow> yson_error + yson_value \<times> nat"
where
  "de_value bin input pos depth =
     and_then (peek_byte bin input pos) (\<lambda>(b, pos1).
       if b = 0x3C then
         and_then (flat_new bin input pos1 depth) (\<lambda>(st, pos2, depth').
           de_map bin input (Flat st) pos2 depth' visit_new)
       else and_then (next_token bin input pos1) (\<lambda>(t, pos2).
         case t of
           Token_Entity \<Rightarrow> Inr (plain Entity, pos2)
         | Token_Boolean v \<Rightarrow> Inr (plain (Boolean v), pos2)
         | Token_Int64 v \<Rightarrow> Inr (plain (Int64 v), pos2)
         | Token_Uint64 v \<Rightarrow> Inr (plain (Uint64 v), pos2)
         | Token_Double v \<Rightarrow> Inr (plain (Double v), pos2)
         | Token_String v \<Rightarrow> Inr (plain (String v), pos2)
         | BeginList \<Rightarrow>
             and_then (enter_recursion depth) (\<lambda>depth'.
             and_then (de_seq bin input pos2 depth') (\<lambda>(vs, pos3).
             and_then (end_container bin input pos3 True 0x5D) (\<lambda>pos4. Inr (plain (List vs), pos4))))
         | BeginMap \<Rightarrow>
             and_then (enter_recursion depth) (\<lambda>depth'.
             and_then (de_map bin input (Comma 0x7D) pos2 depth' visit_new) (\<lambda>(v, pos3).
             and_then (end_container bin input pos3 True 0x7D) (\<lambda>pos4. Inr (v, pos4))))
         | BeginAttributes \<Rightarrow>
             and_then (enter_recursion depth) (\<lambda>depth'.
             and_then (de_map bin input (Comma 0x3E) pos2 depth' visit_new) (\<lambda>(v, pos3).
             and_then (end_container bin input pos3 True 0x3E) (\<lambda>pos4. Inr (v, pos4))))
         | other \<Rightarrow> Inl (Custom (Unexpected_token other))))"
| "de_seq bin input pos depth =
     and_then (comma_next bin input 0x5D pos) (\<lambda>(another, pos1).
       if \<not> another then Inr ([], pos1)
       else and_then (de_value bin input pos1 depth) (\<lambda>(v, pos2).
         and_then (de_seq bin input pos2 depth) (\<lambda>(vs, pos3). Inr (v # vs, pos3))))"
| "de_map bin input acc pos depth st =
     and_then (next_key bin input acc pos depth) (\<lambda>(k, value_only, acc', pos1).
       case k of
         None \<Rightarrow> and_then (visit_finish st) (\<lambda>v. Inr (v, pos1))
       | Some key \<Rightarrow>
           and_then (if value_only then Inr pos1 else expect_equals bin input pos1) (\<lambda>pos2.
           and_then (de_value bin input pos2 depth) (\<lambda>(v, pos3).
             de_map bin input acc' pos3 depth (visit_entry key v st))))"
  by pat_completeness auto

lemma comma_next_Inr: "comma_next bin input e pos = Inr (another, p) \<Longrightarrow>
   pos \<le> p \<and> pos < length input \<and> p \<le> length input \<and> (\<not> another \<longrightarrow> pos < p)"
  by (auto simp: comma_next_def and_then_Inr split: if_splits dest!: next_token_consumes peek_byte_Inr)

lemma de_key_Inr:
  assumes "de_key bin input pos depth = Inr (k, p)"
  shows "pos < p \<and> p \<le> length input"
proof -
  obtain b pos1 t pos2 where n: "peek_byte bin input pos = Inr (b, pos1)" "next_token bin input pos1 = Inr (t, pos2)"
    using assms by (auto simp: de_key_def and_then_Inr split: if_splits)
  then have "p = pos2" using assms by (cases t) (auto simp: de_key_def and_then_Inr split: if_splits)
  then show ?thesis using peek_byte_Inr [OF n(1)] next_token_consumes [OF n(2)] by simp
qed

lemma expect_equals_Inr: "expect_equals bin input pos = Inr p \<Longrightarrow> pos < p \<and> p \<le> length input"
  by (auto simp: expect_equals_def and_then_Inr split: if_splits dest!: next_token_consumes)

lemma flat_key_Inr: "flat_key bin input st pos depth = Inr (k, vo, st', p) \<Longrightarrow>
   pos \<le> p \<and> (pos \<le> length input \<longrightarrow> p \<le> length input) \<and> (k \<noteq> None \<longrightarrow> pos < p \<or> vo)"
proof (induction bin input st pos depth arbitrary: p rule: flat_key.induct)
  case (1 bin input pos depth)
  obtain b pos1 t pos2 where n: "peek_byte bin input pos = Inr (b, pos1)" and t: "next_token bin input pos1 = Inr (t, pos2)"
    using 1(3) by (auto simp: flat_key.simps(1) and_then_Inr split: if_splits)
  note pq = peek_byte_Inr [OF n] next_token_consumes [OF t]
  consider (close) "b = 0x3E" | (sep) "b \<noteq> 0x3E" "b = 0x3B" | (key) "b \<noteq> 0x3E" "b \<noteq> 0x3B" by blast
  then show ?case
  proof cases
    case close
    then show ?thesis using 1(3) n t pq 1(1) [OF n refl close t refl, of p] by (simp add: flat_key.simps(1))
  next
    case sep
    then show ?thesis using 1(3) n t pq 1(2) [OF n refl sep t refl, of p] by (simp add: flat_key.simps(1))
  next
    case key
    then show ?thesis using 1(3) n t pq by (cases t) (simp_all add: flat_key.simps(1))
  qed
next
  case (2 bin input pos depth)
  obtain b pos1 where n: "peek_byte bin input pos = Inr (b, pos1)"
    using 2(3) by (auto simp: flat_key.simps(2) and_then_Inr)
  note p = peek_byte_Inr [OF n]
  show ?case
  proof (cases "b = 0x7B")
    case True
    then obtain t pos2 where t: "next_token bin input pos1 = Inr (t, pos2)"
      using 2(3) n by (auto simp: flat_key.simps(2) and_then_Inr)
    show ?thesis
      using 2(3) n t p next_token_consumes [OF t] True 2(1) [OF n refl True t refl, of p] by (simp add: flat_key.simps(2))
  next
    case False
    then show ?thesis using 2(3) n p by (auto simp: flat_key.simps(2) and_then_Inr split: if_splits dest!: next_token_consumes)
  qed
next
  case (3 bin input pos depth)
  obtain b pos1 where n: "peek_byte bin input pos = Inr (b, pos1)"
    using 3(2) by (auto simp: flat_key.simps(3) and_then_Inr)
  note p = peek_byte_Inr [OF n]
  consider (close) "b = 0x7D" | (sep) "b \<noteq> 0x7D" "b = 0x3B" | (key) "b \<noteq> 0x7D" "b \<noteq> 0x3B" by blast
  then show ?case
  proof cases
    case close
    then show ?thesis using 3(2) n p by (auto simp: flat_key.simps(3) and_then_Inr dest!: next_token_consumes)
  next
    case sep
    then obtain t pos2 where t: "next_token bin input pos1 = Inr (t, pos2)"
      using 3(2) n by (auto simp: flat_key.simps(3) and_then_Inr)
    show ?thesis
      using 3(2) n t p next_token_consumes [OF t] sep 3(1) [OF n refl sep t refl, of p] by (simp add: flat_key.simps(3))
  next
    case key
    then show ?thesis using 3(2) n p by (auto simp: flat_key.simps(3) and_then_Inr dest!: de_key_Inr)
  qed
qed auto

lemma next_key_Inr: "next_key bin input acc pos depth = Inr (k, vo, acc', p) \<Longrightarrow>
   pos \<le> p \<and> (pos \<le> length input \<longrightarrow> p \<le> length input)"
  by (auto simp: next_key_def and_then_Inr split: map_access.splits if_splits
      dest!: comma_next_Inr de_key_Inr flat_key_Inr)

lemma flat_new_Inr:
  assumes "peek_byte bin input pos0 = Inr (0x3C, pos)" and "flat_new bin input pos depth = Inr (st, p, depth')"
  shows "st = Flat_Attributes \<and> pos < p \<and> p \<le> length input"
proof -
  have "peek_byte bin input pos = Inr (0x3C, pos)"
    using assms(1) skip_ignored_idem by (auto simp: peek_byte_def skip_def Let_def split: if_splits)
  then show ?thesis
    using assms(2) by (auto simp: flat_new_def and_then_Inr dest!: next_token_consumes)
qed

lemma end_container_ended [simp]: "end_container bin input pos True e = Inr pos"
  by (simp add: end_container_def)

lemma de_consumes_dom:
  "de_value_de_seq_de_map_dom (Inl (bin, input, pos, depth)) \<Longrightarrow>
     de_value bin input pos depth = Inr (v, p') \<Longrightarrow> pos < p' \<and> p' \<le> length input"
  "de_value_de_seq_de_map_dom (Inr (Inl (bin, input, pos, depth))) \<Longrightarrow>
     de_seq bin input pos depth = Inr (vs, p') \<Longrightarrow> pos < p' \<and> p' \<le> length input"
  "de_value_de_seq_de_map_dom (Inr (Inr (bin, input, acc, pos, depth, st))) \<Longrightarrow>
     de_map bin input acc pos depth st = Inr (v, p') \<Longrightarrow> pos \<le> p' \<and> (pos \<le> length input \<longrightarrow> p' \<le> length input)"
proof (induction arbitrary: v p' and vs p' and v p' rule: de_value_de_seq_de_map.pinduct)
  case (1 bin input pos depth)
  obtain b pos1 where n: "peek_byte bin input pos = Inr (b, pos1)"
    using 1(1,6) by (auto simp: de_value.psimps and_then_Inr)
  note p = peek_byte_Inr [OF n]
  show ?case
  proof (cases "b = 0x3C")
    case True
    then obtain st pos2 depth' where f: "flat_new bin input pos1 depth = Inr (st, pos2, depth')"
      and m: "de_map bin input (Flat st) pos2 depth' visit_new = Inr (v, p')"
      using 1(1,6) n by (auto simp: de_value.psimps and_then_Inr)
    show ?thesis
      using 1(2) [OF n refl True f refl refl m] flat_new_Inr [of bin input pos pos1, OF _ f] n True p by simp
  next
    case False
    then obtain t pos2 where t: "next_token bin input pos1 = Inr (t, pos2)"
      using 1(1,6) n by (auto simp: de_value.psimps and_then_Inr)
    note q = next_token_consumes [OF t]
    have dv: "(case t of
           Token_Entity \<Rightarrow> Inr (plain Entity, pos2)
         | Token_Boolean v \<Rightarrow> Inr (plain (Boolean v), pos2)
         | Token_Int64 v \<Rightarrow> Inr (plain (Int64 v), pos2)
         | Token_Uint64 v \<Rightarrow> Inr (plain (Uint64 v), pos2)
         | Token_Double v \<Rightarrow> Inr (plain (Double v), pos2)
         | Token_String v \<Rightarrow> Inr (plain (String v), pos2)
         | BeginList \<Rightarrow>
             and_then (enter_recursion depth) (\<lambda>depth'.
             and_then (de_seq bin input pos2 depth') (\<lambda>(vs, pos3).
             and_then (end_container bin input pos3 True 0x5D) (\<lambda>pos4. Inr (plain (List vs), pos4))))
         | BeginMap \<Rightarrow>
             and_then (enter_recursion depth) (\<lambda>depth'.
             and_then (de_map bin input (Comma 0x7D) pos2 depth' visit_new) (\<lambda>(v, pos3).
             and_then (end_container bin input pos3 True 0x7D) (\<lambda>pos4. Inr (v, pos4))))
         | BeginAttributes \<Rightarrow>
             and_then (enter_recursion depth) (\<lambda>depth'.
             and_then (de_map bin input (Comma 0x3E) pos2 depth' visit_new) (\<lambda>(v, pos3).
             and_then (end_container bin input pos3 True 0x3E) (\<lambda>pos4. Inr (v, pos4))))
         | other \<Rightarrow> Inl (Custom (Unexpected_token other))) = Inr (v, p')"
      using 1(1,6) n t False by (simp add: de_value.psimps)
    show ?thesis
      using dv p q 1(3) [OF n refl False t refl] 1(4) [OF n refl False t refl]
        1(5) [OF n refl False t refl]
      by (cases t) (fastforce simp: and_then_Inr)+
  qed
next
  case (2 bin input pos depth)
  obtain another pos1 where n: "comma_next bin input 0x5D pos = Inr (another, pos1)"
    using 2(1,4) by (auto simp: de_seq.psimps and_then_Inr)
  note p = comma_next_Inr [OF n]
  show ?case
  proof (cases another)
    case True
    then have m: "\<not> \<not> another" by simp
    obtain v pos2 us where v: "de_value bin input pos1 depth = Inr (v, pos2)"
      and r: "de_seq bin input pos2 depth = Inr (us, p')"
      using 2(1,4) n True by (auto simp: de_seq.psimps and_then_Inr)
    show ?thesis using 2(2) [OF n refl m v] 2(3) [OF n refl m v refl r] p by simp
  next
    case False
    then show ?thesis using 2(1,4) n p by (auto simp: de_seq.psimps)
  qed
next
  case (3 bin input acc pos depth st)
  obtain k vo acc' pos1 where n: "next_key bin input acc pos depth = Inr (k, vo, acc', pos1)"
    using 3(1,4) by (auto simp: de_map.psimps and_then_Inr)
  note p = next_key_Inr [OF n]
  show ?case
  proof (cases k)
    case None
    then show ?thesis using 3(1,4) n p by (auto simp: de_map.psimps and_then_Inr)
  next
    case (Some key)
    obtain pos2 w pos3 where e: "(if vo then Inr pos1 else expect_equals bin input pos1) = Inr pos2"
      and v: "de_value bin input pos2 depth = Inr (w, pos3)"
      and r: "de_map bin input acc' pos3 depth (visit_entry key w st) = Inr (v, p')"
      using 3(1,4) n Some by (auto simp: de_map.psimps and_then_Inr)
    have "pos1 \<le> pos2" using e by (auto split: if_splits dest: expect_equals_Inr)
    then show ?thesis
      using 3(2) [OF n refl refl refl Some e v] 3(3) [OF n refl refl refl Some e v refl r] p by simp
  qed
qed

lemma de_terminates: "All de_value_de_seq_de_map_dom"
proof (relation "measure (\<lambda>x. case x of
      Inl (bin, input, pos, depth) \<Rightarrow> 2 * (length input - pos)
    | Inr (Inl (bin, input, pos, depth)) \<Rightarrow> 2 * (length input - pos) + 1
    | Inr (Inr (bin, input, acc, pos, depth, st)) \<Rightarrow> 2 * (length input - pos) + 1)", goal_cases)
  case (2 bin input pos depth x b pos1 y st z p d)
  then have n: "peek_byte bin input pos = Inr (0x3C, pos1)" and f: "flat_new bin input pos1 depth = Inr (st, p, d)"
    by auto
  show ?case using peek_byte_Inr [OF n] flat_new_Inr [OF n f] by auto
qed (auto dest!: next_token_consumes peek_byte_Inr de_consumes_dom comma_next_Inr next_key_Inr
    expect_equals_Inr split: if_splits)

termination de_value by (rule de_terminates)

declare de_value.simps [simp del] de_seq.simps [simp del] de_map.simps [simp del]

section \<open>Entry points\<close>

definition from_slice :: "bytes \<Rightarrow> yson_format \<Rightarrow> yson_error + yson_value" where
  "from_slice input format =
     (let bin = (format = Binary)
      in and_then (de_value bin input 0 0) (\<lambda>(v, pos).
         and_then (end_of_input bin input pos) (\<lambda>_. Inr v)))"

text \<open>\<open>StreamDeserializer::next_item\<close>; the state is the cursor and the \<open>first\<close> flag.\<close>

definition next_item :: "bool \<Rightarrow> bytes \<Rightarrow> nat \<Rightarrow> bool \<Rightarrow> yson_error + yson_value option \<times> nat \<times> bool" where
  "next_item bin input pos first =
     (case peek_byte bin input pos of
        Inl Eof \<Rightarrow> Inr (None, pos, first)
      | Inl e \<Rightarrow> Inl e
      | Inr (next_byte, pos1) \<Rightarrow>
          if first \<or> next_byte \<noteq> 0x3B then
            and_then (de_value bin input pos1 0) (\<lambda>(v, p). Inr (Some v, p, False))
          else
            and_then (next_token bin input pos1) (\<lambda>(_, pos2).
              if peek_byte bin input pos2 = Inl Eof then Inr (None, pos2, False)
              else and_then (de_value bin input pos2 0) (\<lambda>(v, p). Inr (Some v, p, False))))"

function stream_items :: "bool \<Rightarrow> bytes \<Rightarrow> nat \<Rightarrow> bool \<Rightarrow> yson_error + yson_value list" where
  "stream_items bin input pos first =
     and_then (next_item bin input pos first) (\<lambda>(item, pos', first').
       case item of
         None \<Rightarrow> Inr []
       | Some v \<Rightarrow> and_then (stream_items bin input pos' first') (\<lambda>vs. Inr (v # vs)))"
  by pat_completeness auto

lemma de_value_consumes: "de_value bin input pos depth = Inr (v, p) \<Longrightarrow> pos < p \<and> p \<le> length input"
  by (rule de_consumes_dom(1)) (use de_terminates in blast)

lemma next_item_consumes: "next_item bin input pos first = Inr (Some v, p, f) \<Longrightarrow> pos < p \<and> p \<le> length input"
  by (auto simp: next_item_def and_then_Inr split: sum.splits yson_error.splits if_splits
      dest!: de_value_consumes next_token_consumes peek_byte_Inr)

termination stream_items
  by (relation "measure (\<lambda>(bin, input, pos, first). length input - pos)") (auto dest!: next_item_consumes)

end
