(* ===== verification/Yson_Roundtrip.thy ===== *)
theory Yson_Roundtrip
  imports Yson_Ser Yson_De
begin

text \<open>
  What the serializer writes, the deserializer reads back. The serializer is first shown to
  write the grammar \<open>enc_value\<close>; the reading of that grammar is proved once, in the locale
  \<open>token_format\<close>, from what the lexer does with a single scalar, and the locale is
  interpreted for the binary and for the text format.
\<close>

section \<open>The grammar the serializer writes\<close>

fun enc_value :: "(token \<Rightarrow> bytes) \<Rightarrow> yson_value \<Rightarrow> bytes"
  and enc_node :: "(token \<Rightarrow> bytes) \<Rightarrow> yson_node \<Rightarrow> bytes"
  and enc_list :: "(token \<Rightarrow> bytes) \<Rightarrow> bool \<Rightarrow> yson_value list \<Rightarrow> bytes"
  and enc_entries :: "(token \<Rightarrow> bytes) \<Rightarrow> bool \<Rightarrow> (bytes \<times> yson_value) list \<Rightarrow> bytes"
where
  "enc_value tok (YsonValue a n) =
     (case a of
        Some (kv # kvs) \<Rightarrow> [0x3C] @ enc_entries tok True (kv # kvs) @ [0x3E] @ enc_node tok n
      | _ \<Rightarrow> enc_node tok n)"
| "enc_node tok Entity = [0x23]"
| "enc_node tok (Boolean v) = tok (Token_Boolean v)"
| "enc_node tok (Int64 v) = tok (Token_Int64 v)"
| "enc_node tok (Uint64 v) = tok (Token_Uint64 v)"
| "enc_node tok (Double v) = tok (Token_Double v)"
| "enc_node tok (String v) = tok (Token_String v)"
| "enc_node tok (List vs) = [0x5B] @ enc_list tok True vs @ [0x5D]"
| "enc_node tok (Map es) = [0x7B] @ enc_entries tok True es @ [0x7D]"
| "enc_list tok first [] = []"
| "enc_list tok first (v # vs) = check_first first @ enc_value tok v @ enc_list tok False vs"
| "enc_entries tok first [] = []"
| "enc_entries tok first ((k, v) # es) =
     check_first first @ tok (Token_String k) @ [0x3D] @ enc_value tok v @ enc_entries tok False es"

fun scalar_bytes :: "formatters \<Rightarrow> bool \<Rightarrow> token \<Rightarrow> bytes" where
  "scalar_bytes fmt bin (Token_Boolean v) = write_bool bin v"
| "scalar_bytes fmt bin (Token_Int64 v) = write_i64 fmt bin v"
| "scalar_bytes fmt bin (Token_Uint64 v) = write_u64 fmt bin v"
| "scalar_bytes fmt bin (Token_Double v) = write_f64 fmt bin v"
| "scalar_bytes fmt bin (Token_String v) = (if utf8_valid v then write_string bin v else write_bytes bin v)"
| "scalar_bytes fmt bin _ = []"

lemma push_push [simp]: "push (push s xs) ys = push s (xs @ ys)"
  by (simp add: push_def)

lemma push_fields [simp]: "is_binary (push s xs) = is_binary s"
  "is_writing_attributes (push s xs) = is_writing_attributes s" "push s [] = s"
  "is_writing_attributes s = w \<Longrightarrow> s\<lparr>is_writing_attributes := w\<rparr> = s"
  "(push s xs)\<lparr>is_writing_attributes := w\<rparr> = push (s\<lparr>is_writing_attributes := w\<rparr>) xs"
  by (simp_all add: push_def)

lemma serialize_byte_string:
  "serialize fmt (byte_string k) s = Inr (push s (scalar_bytes fmt (is_binary s) (Token_String k)))"
  by (simp add: byte_string_def)

text \<open>
  A serializer that is not about to write attributes appends exactly the grammar; one that
  is writes a map between angle brackets.
\<close>

lemma serialize_grammar:
  "tok = scalar_bytes fmt (is_binary s) \<Longrightarrow> \<not> is_writing_attributes s \<Longrightarrow>
     serialize fmt (value_serde v) s = Inr (push s (enc_value tok v))"
  "tok = scalar_bytes fmt (is_binary s) \<Longrightarrow> \<not> is_writing_attributes s \<Longrightarrow>
     serialize fmt (node_serde n) s = Inr (push s (enc_node tok n))"
  "tok = scalar_bytes fmt (is_binary s) \<Longrightarrow> \<not> is_writing_attributes s \<Longrightarrow>
     serialize_elements fmt (values_serde vs) first s = Inr (push s (enc_list tok first vs))"
  "tok = scalar_bytes fmt (is_binary s) \<Longrightarrow> \<not> is_writing_attributes s \<Longrightarrow>
     serialize_entries fmt (entries_serde es) first s = Inr (push s (enc_entries tok first es))"
proof (induction v and n and vs and es arbitrary: s and s and s first and s first
    rule: value_serde_node_serde_values_serde_entries_serde.induct)
  case (1 a n)
  show ?case
  proof (cases "\<exists>kv kvs. a = Some (kv # kvs)")
    case True
    then obtain kv kvs where a: "a = Some (kv # kvs)" by blast
    show ?thesis
      using 1 by (simp add: a with_attributes_def attributes_marker_def struct_open_def map_open_def struct_end_def ascii_def)
  next
    case False
    then show ?thesis using 1 by (auto split: option.split list.split)
  qed
qed (simp_all add: serialize_byte_string map_open_def)

section \<open>Which values survive\<close>

text \<open>
  The keys of a map body: in order, and none that the flat view of an attributed value would
  take for an attribute or for the body.
\<close>

definition plain_key :: "bytes \<Rightarrow> bool" where
  "plain_key k = ((k = [] \<or> hd k \<noteq> 0x40) \<and> k \<noteq> ascii ''$value'')"

fun value_ok :: "(token \<Rightarrow> bool) \<Rightarrow> yson_value \<Rightarrow> bool"
  and node_ok :: "(token \<Rightarrow> bool) \<Rightarrow> yson_node \<Rightarrow> bool"
  and values_ok :: "(token \<Rightarrow> bool) \<Rightarrow> yson_value list \<Rightarrow> bool"
  and entries_ok :: "(token \<Rightarrow> bool) \<Rightarrow> (bytes \<times> yson_value) list \<Rightarrow> bool"
where
  "value_ok ok (YsonValue a n) =
     (node_ok ok n \<and>
      (case a of
         None \<Rightarrow> True
       | Some kvs \<Rightarrow> kvs \<noteq> [] \<and> btree_wf kvs \<and> entries_ok ok kvs \<and> n \<noteq> Map []))"
| "node_ok ok Entity = True"
| "node_ok ok (Boolean v) = ok (Token_Boolean v)"
| "node_ok ok (Int64 v) = ok (Token_Int64 v)"
| "node_ok ok (Uint64 v) = ok (Token_Uint64 v)"
| "node_ok ok (Double v) = ok (Token_Double v)"
| "node_ok ok (String v) = ok (Token_String v)"
| "node_ok ok (List vs) = values_ok ok vs"
| "node_ok ok (Map es) = (btree_wf es \<and> (\<forall>k \<in> set (map fst es). plain_key k) \<and> entries_ok ok es)"
| "values_ok ok [] = True"
| "values_ok ok (v # vs) = (value_ok ok v \<and> values_ok ok vs)"
| "entries_ok ok [] = True"
| "entries_ok ok ((k, v) # es) = (ok (Token_String k) \<and> value_ok ok v \<and> entries_ok ok es)"

text \<open>The levels of recursion the deserializer needs.\<close>

fun need_value :: "yson_value \<Rightarrow> nat"
  and need_node :: "yson_node \<Rightarrow> nat"
  and need_values :: "yson_value list \<Rightarrow> nat"
  and need_entries :: "(bytes \<times> yson_value) list \<Rightarrow> nat"
where
  "need_value (YsonValue a n) =
     (case a of
        Some (kv # kvs) \<Rightarrow>
          1 + max (need_entries (kv # kvs)) (case n of Map es \<Rightarrow> need_entries es | _ \<Rightarrow> need_node n)
      | _ \<Rightarrow> need_node n)"
| "need_node (List vs) = 1 + need_values vs"
| "need_node (Map es) = 1 + need_entries es"
| "need_node _ = 0"
| "need_values [] = 0"
| "need_values (v # vs) = max (need_value v) (need_values vs)"
| "need_entries [] = 0"
| "need_entries ((k, v) # es) = max (need_value v) (need_entries es)"

section \<open>Lexing at a position\<close>

lemma drop_Cons_nth: "drop pos input = c # rest \<Longrightarrow> pos < length input \<and> input ! pos = c \<and> drop (pos + 1) input = rest"
  using drop_eq_ConsD [of pos input c rest] by simp

lemma not_ignored: "\<not> is_space (input ! pos) \<Longrightarrow> input ! pos \<noteq> 0x2F \<Longrightarrow> skip bin input pos = pos"
  by (simp add: skip_def skip_ignored.simps)

lemma punctuation_cases:
  "punctuation c = Some t \<Longrightarrow> c \<in> {0x23, 0x3C, 0x3E, 0x5B, 0x5D, 0x7B, 0x7D, 0x3D, 0x3B}"
  by (auto simp: punctuation_def split: if_splits)

lemma lex_punctuation:
  assumes "drop pos input = c # rest" and "punctuation c = Some t"
  shows "peek_byte bin input pos = Inr (c, pos)" and "next_token bin input pos = Inr (t, pos + 1)"
proof -
  have p: "pos < length input" "input ! pos = c" using drop_Cons_nth [OF assms(1)] by simp_all
  have "\<not> is_space c" "c \<noteq> 0x2F" "c \<notin> {1, 2, 3, 4, 5, 6}"
    using punctuation_cases [OF assms(2)] by (auto simp: is_space_def)
  then have "skip bin input pos = pos" using not_ignored [of input pos] p by simp
  then show "peek_byte bin input pos = Inr (c, pos)" "next_token bin input pos = Inr (t, pos + 1)"
    using p assms(2) \<open>c \<notin> {1, 2, 3, 4, 5, 6}\<close>
    by (simp_all add: peek_byte_def next_token_def parse_binary_token_def parse_text_token_def Let_def)
qed

lemma punctuation_simps [simp]:
  "punctuation 0x23 = Some Token_Entity" "punctuation 0x3C = Some BeginAttributes"
  "punctuation 0x3E = Some EndAttributes" "punctuation 0x5B = Some BeginList"
  "punctuation 0x5D = Some EndList" "punctuation 0x7B = Some BeginMap"
  "punctuation 0x7D = Some EndMap" "punctuation 0x3D = Some KeyValueSeparator"
  "punctuation 0x3B = Some ItemSeparator"
  by (simp_all add: punctuation_def)

section \<open>The reading of the grammar\<close>

text \<open>
  The contract a format gives: a scalar it can write is one token again, wherever it stands
  in front of a delimiter, and does not begin with punctuation.
\<close>

definition delimited :: "bytes \<Rightarrow> bool" where
  "delimited rest = (rest = [] \<or> hd rest \<in> {0x3B, 0x3D, 0x3E, 0x5D, 0x7D})"

definition is_scalar :: "token \<Rightarrow> bool" where
  "is_scalar t = (case t of
       Token_Boolean _ \<Rightarrow> True | Token_Int64 _ \<Rightarrow> True | Token_Uint64 _ \<Rightarrow> True
     | Token_Double _ \<Rightarrow> True | Token_String _ \<Rightarrow> True | _ \<Rightarrow> False)"

fun scalar_node :: "yson_node \<Rightarrow> token option" where
  "scalar_node (Boolean v) = Some (Token_Boolean v)"
| "scalar_node (Int64 v) = Some (Token_Int64 v)"
| "scalar_node (Uint64 v) = Some (Token_Uint64 v)"
| "scalar_node (Double v) = Some (Token_Double v)"
| "scalar_node (String v) = Some (Token_String v)"
| "scalar_node _ = None"

lemma scalar_node_Some:
  "scalar_node n = Some t \<Longrightarrow> is_scalar t \<and> enc_node tok n = tok t \<and> node_ok ok n = ok t \<and> need_node n = 0"
  by (cases n) (auto simp: is_scalar_def)

lemma node_cases:
  obtains (entity) "n = Entity" | (list) vs where "n = List vs" | (map) es where "n = Map es"
  | (scalar) t where "scalar_node n = Some t"
  by (cases n) auto

text \<open>What the three loops leave in the visitor.\<close>

definition with_plain :: "(bytes \<times> yson_value) list \<Rightarrow> visit \<Rightarrow> visit" where
  "with_plain es st = fold (\<lambda>(k, v). visit_entry k v) es st"

definition with_attrs :: "(bytes \<times> yson_value) list \<Rightarrow> visit \<Rightarrow> visit" where
  "with_attrs es st = fold (\<lambda>(k, v). visit_entry (0x40 # k) v) es st"

lemma with_plain_keys:
  "\<forall>k \<in> set (map fst es). plain_key k \<Longrightarrow>
   with_plain es st = st\<lparr>plain_map := btree_extend (plain_map st) es\<rparr>"
  unfolding with_plain_def btree_extend_def
proof (induction es arbitrary: st)
  case (Cons kv es)
  then show ?case by (cases kv) (auto simp: visit_entry_def plain_key_def)
qed simp

lemma with_attrs_keys:
  "with_attrs es st = st\<lparr>attrs := btree_extend (attrs st) es, is_attributed := is_attributed st \<or> es \<noteq> []\<rparr>"
  unfolding with_attrs_def btree_extend_def
proof (induction es arbitrary: st)
  case (Cons kv es)
  then show ?case by (cases kv) (simp add: visit_entry_def)
qed simp

lemma btree_extend_Nil: "btree_wf es \<Longrightarrow> btree_extend [] es = es"
  using btree_extend_sorted [of "[]" es] by (simp add: btree_wf_def)

locale token_format =
  fixes bin :: bool
    and tok :: "token \<Rightarrow> bytes"
    and ok :: "token \<Rightarrow> bool"
  assumes lex_scalar: "is_scalar t \<Longrightarrow> ok t \<Longrightarrow> delimited rest \<Longrightarrow> drop pos input = tok t @ rest \<Longrightarrow>
      next_token bin input pos = Inr (t, pos + length (tok t))"
    and peek_scalar: "is_scalar t \<Longrightarrow> ok t \<Longrightarrow> drop pos input = tok t @ rest \<Longrightarrow>
      \<exists>b. peek_byte bin input pos = Inr (b, pos) \<and> punctuation b = None"
begin

lemma delimited_Cons [simp]: "delimited (c # rest) \<longleftrightarrow> c \<in> {0x3B, 0x3D, 0x3E, 0x5D, 0x7D}"
  by (simp add: delimited_def)

lemma de_key_at:
  assumes "ok (Token_String k)" and d: "drop pos input = tok (Token_String k) @ 0x3D # rest"
  shows "de_key bin input pos depth = Inr (k, pos + length (tok (Token_String k)))"
proof -
  have s: "is_scalar (Token_String k)" by (simp add: is_scalar_def)
  obtain b where b: "peek_byte bin input pos = Inr (b, pos)" "punctuation b = None"
    using peek_scalar [OF s assms] by blast
  have "b \<noteq> 0x3C" using b(2) by auto
  then show ?thesis
    using b lex_scalar [OF s assms(1) _ d] by (simp add: de_key_def)
qed

lemma expect_equals_at: "drop pos input = 0x3D # rest \<Longrightarrow> expect_equals bin input pos = Inr (pos + 1)"
  using lex_punctuation [of pos input "0x3D" rest KeyValueSeparator bin] by (simp add: expect_equals_def)

text \<open>The first byte of an encoded value never closes or separates anything.\<close>

lemma peek_value:
  "value_ok ok v \<Longrightarrow> drop pos input = enc_value tok v @ rest \<Longrightarrow>
     \<exists>b. peek_byte bin input pos = Inr (b, pos) \<and> b \<notin> {0x3E, 0x5D, 0x7D, 0x3B}"
proof -
  assume ok: "value_ok ok v" and d: "drop pos input = enc_value tok v @ rest"
  obtain a n where v: "v = YsonValue a n" by (cases v)
  have sc: "\<exists>b. peek_byte bin input pos = Inr (b, pos) \<and> b \<notin> {0x3E, 0x5D, 0x7D, 0x3B}"
    if "is_scalar t" "ok t" "drop pos input = tok t @ rest" for t
    using peek_scalar [OF that] by auto
  show ?thesis
  proof (cases "\<exists>kv kvs. a = Some (kv # kvs)")
    case True
    then obtain r where "drop pos input = 0x3C # r" using d v by auto
    then show ?thesis using lex_punctuation(1) [of pos input "0x3C" r] by simp
  next
    case False
    then have e: "drop pos input = enc_node tok n @ rest" using d v by (auto split: option.splits list.splits)
    show ?thesis
    proof (cases n rule: node_cases)
      case (scalar t)
      then show ?thesis using e ok v sc [of t] scalar_node_Some [of n t tok ok] by simp
    qed (use e lex_punctuation(1) [of pos input] in auto)
  qed
qed

lemma de_scalar:
  assumes "scalar_node n = Some t" and "node_ok ok n" and "delimited rest" and d: "drop pos input = enc_node tok n @ rest"
  shows "de_value bin input pos depth = Inr (plain n, pos + length (enc_node tok n))"
proof -
  note t = scalar_node_Some [OF assms(1), of tok ok]
  obtain b where b: "peek_byte bin input pos = Inr (b, pos)" "punctuation b = None"
    using peek_scalar [of t pos input rest] assms t by auto
  have "b \<noteq> 0x3C" using b(2) by auto
  moreover have "next_token bin input pos = Inr (t, pos + length (tok t))"
    using lex_scalar [of t rest pos input] assms t by auto
  ultimately show ?thesis
    using b(1) assms(1) t by (cases n) (auto simp: de_value.simps)
qed

text \<open>Before each element of a container: nothing for the first, a separator for the others.\<close>

lemma comma_next_at:
  assumes "drop pos input = check_first first @ xs"
    and "peek_byte bin input (pos + length (check_first first)) = Inr (b, pos + length (check_first first))"
    and "b \<notin> {0x3E, 0x5D, 0x7D, 0x3B}" and "e \<in> {0x3E, 0x5D, 0x7D}"
  shows "comma_next bin input e pos = Inr (True, pos + length (check_first first))"
proof (cases first)
  case True
  then show ?thesis using assms by (auto simp: comma_next_def check_first_def)
next
  case False
  then have "drop pos input = 0x3B # xs" using assms(1) by (simp add: check_first_def)
  from lex_punctuation [OF this, of ItemSeparator bin] show ?thesis
    using assms False by (auto simp: comma_next_def check_first_def)
qed

lemma comma_next_end:
  "drop pos input = e # rest \<Longrightarrow> e \<in> {0x3E, 0x5D, 0x7D} \<Longrightarrow> comma_next bin input e pos = Inr (False, pos + 1)"
  using lex_punctuation [of pos input e rest _ bin] by (auto simp: comma_next_def)

text \<open>The statements proved together by induction over values.\<close>

definition reads_value :: "yson_value \<Rightarrow> bool" where
  "reads_value v = (\<forall>input pos rest depth. drop pos input = enc_value tok v @ rest \<longrightarrow> delimited rest \<longrightarrow>
     depth + need_value v \<le> DE_MAX_DEPTH \<longrightarrow>
     de_value bin input pos depth = Inr (v, pos + length (enc_value tok v)))"

definition reads_node :: "yson_node \<Rightarrow> bool" where
  "reads_node n = (\<forall>input pos rest depth. drop pos input = enc_node tok n @ rest \<longrightarrow> delimited rest \<longrightarrow>
     depth + need_node n \<le> DE_MAX_DEPTH \<longrightarrow>
     de_value bin input pos depth = Inr (plain n, pos + length (enc_node tok n)))"

definition reads_list :: "yson_value list \<Rightarrow> bool" where
  "reads_list vs = (\<forall>input pos rest depth first. drop pos input = enc_list tok first vs @ 0x5D # rest \<longrightarrow>
     depth + need_values vs \<le> DE_MAX_DEPTH \<longrightarrow>
     de_seq bin input pos depth = Inr (vs, pos + length (enc_list tok first vs) + 1))"

text \<open>
  Entries are read by three loops: of a plain map, of the attributes and of the body in the
  flat view. Each leaves the entries in the visitor, in order.
\<close>

definition reads_entries :: "(bytes \<times> yson_value) list \<Rightarrow> bool" where
  "reads_entries es = (\<forall>input pos depth first st rest. depth + need_entries es \<le> DE_MAX_DEPTH \<longrightarrow>
     (drop pos input = enc_entries tok first es @ 0x7D # rest \<longrightarrow>
        de_map bin input (Comma 0x7D) pos depth st =
          and_then (visit_finish (with_plain es st)) (\<lambda>v. Inr (v, pos + length (enc_entries tok first es) + 1))) \<and>
     (drop pos input = enc_entries tok first es @ 0x7D # rest \<longrightarrow>
        de_map bin input (Flat Flat_Body) pos depth st =
          and_then (visit_finish (with_plain es st)) (\<lambda>v. Inr (v, pos + length (enc_entries tok first es) + 1))) \<and>
     (drop pos input = enc_entries tok first es @ 0x3E # rest \<longrightarrow>
        de_map bin input (Flat Flat_Attributes) pos depth st =
          de_map bin input (Flat Flat_Attributes) (pos + length (enc_entries tok first es)) depth (with_attrs es st)))"

lemma delimited_enc_list: "delimited (enc_list tok False vs @ 0x5D # rest)"
  by (cases vs) (simp_all add: check_first_def)

lemma delimited_enc_entries: "e \<in> {0x3E, 0x7D} \<Longrightarrow> delimited (enc_entries tok False es @ e # rest)"
proof (cases es)
  case (Cons kv es')
  then show ?thesis by (cases kv) (simp add: check_first_def)
qed auto

lemma reads_list_Nil: "reads_list []"
  unfolding reads_list_def
  by (auto simp: de_seq.simps comma_next_end)

lemma reads_list_Cons:
  assumes "value_ok ok v" and v: "reads_value v" and vs: "reads_list vs"
  shows "reads_list (v # vs)"
  unfolding reads_list_def
proof (intro allI impI)
  fix input pos rest depth first
  assume d: "drop pos input = enc_list tok first (v # vs) @ 0x5D # rest"
    and n: "depth + need_values (v # vs) \<le> DE_MAX_DEPTH"
  let ?p = "pos + length (check_first first)"
  have d0: "drop pos input = check_first first @ enc_value tok v @ enc_list tok False vs @ 0x5D # rest"
    using d by simp
  then have d1: "drop ?p input = enc_value tok v @ enc_list tok False vs @ 0x5D # rest" by (rule drop_append_eq)
  then have d2: "drop (?p + length (enc_value tok v)) input = enc_list tok False vs @ 0x5D # rest"
    by (rule drop_append_eq)
  obtain b where b: "peek_byte bin input ?p = Inr (b, ?p)" "b \<notin> {0x3E, 0x5D, 0x7D, 0x3B}"
    using peek_value [OF assms(1) d1] by blast
  have c: "comma_next bin input 0x5D pos = Inr (True, ?p)" by (rule comma_next_at [OF d0 b]) simp
  have e: "de_value bin input ?p depth = Inr (v, ?p + length (enc_value tok v))"
    using v d1 n delimited_enc_list by (auto simp: reads_value_def)
  have "depth + need_values vs \<le> DE_MAX_DEPTH" using n by simp
  then have "de_seq bin input (?p + length (enc_value tok v)) depth =
      Inr (vs, ?p + length (enc_value tok v) + length (enc_list tok False vs) + 1)"
    using vs d2 unfolding reads_list_def by blast
  then show "de_seq bin input pos depth = Inr (v # vs, pos + length (enc_list tok first (v # vs)) + 1)"
    using c e by (subst de_seq.simps) (simp add: algebra_simps)
qed

lemma reads_entries_Nil: "reads_entries []"
proof -
  have "de_map bin input (Comma 0x7D) pos depth st = and_then (visit_finish st) (\<lambda>v. Inr (v, pos + 1))"
    if "drop pos input = 0x7D # rest" for input pos depth st rest
    using comma_next_end [OF that] by (subst de_map.simps) (simp add: next_key_def)
  moreover have "de_map bin input (Flat Flat_Body) pos depth st = and_then (visit_finish st) (\<lambda>v. Inr (v, pos + 1))"
    if "drop pos input = 0x7D # rest" for input pos depth st rest
    using lex_punctuation [OF that, of EndMap bin]
    by (subst de_map.simps) (simp add: next_key_def flat_key.simps(3))
  ultimately show ?thesis by (auto simp: reads_entries_def with_plain_def with_attrs_def)
qed

text \<open>An entry, from the key's first byte to the end of its value.\<close>

lemma entry_at:
  assumes "ok (Token_String k)" and "reads_value v" and "delimited rest" and "depth + need_value v \<le> DE_MAX_DEPTH"
    and d: "drop p input = tok (Token_String k) @ [0x3D] @ enc_value tok v @ rest"
  defines "q \<equiv> p + length (tok (Token_String k))"
  shows "next_token bin input p = Inr (Token_String k, q)" and "de_key bin input p depth = Inr (k, q)"
    and "expect_equals bin input q = Inr (q + 1)"
    and "de_value bin input (q + 1) depth = Inr (v, q + 1 + length (enc_value tok v))"
    and "drop (q + 1 + length (enc_value tok v)) input = rest"
    and "\<exists>b. peek_byte bin input p = Inr (b, p) \<and> punctuation b = None"
proof -
  have s: "is_scalar (Token_String k)" by (simp add: is_scalar_def)
  have d0: "drop p input = tok (Token_String k) @ 0x3D # enc_value tok v @ rest" using d by simp
  have dq: "drop q input = 0x3D # enc_value tok v @ rest" unfolding q_def by (rule drop_append_eq [OF d0])
  have dv: "drop (q + 1) input = enc_value tok v @ rest" using drop_Cons_nth [OF dq] by simp
  show "drop (q + 1 + length (enc_value tok v)) input = rest" by (rule drop_append_eq [OF dv])
  show "next_token bin input p = Inr (Token_String k, q)"
    unfolding q_def by (rule lex_scalar [OF s assms(1) _ d0]) simp
  show "de_key bin input p depth = Inr (k, q)"
    unfolding q_def by (rule de_key_at [OF assms(1) d0])
  show "expect_equals bin input q = Inr (q + 1)" by (rule expect_equals_at [OF dq])
  show "de_value bin input (q + 1) depth = Inr (v, q + 1 + length (enc_value tok v))"
    using assms(2-4) dv by (simp add: reads_value_def)
  show "\<exists>b. peek_byte bin input p = Inr (b, p) \<and> punctuation b = None"
    by (rule peek_scalar [OF s assms(1) d0])
qed

lemma flat_key_separator:
  "drop pos input = 0x3B # xs \<Longrightarrow> st \<in> {Flat_Attributes, Flat_Body} \<Longrightarrow>
   flat_key bin input st pos depth = flat_key bin input st (pos + 1) depth"
  using lex_punctuation [of pos input "0x3B" xs ItemSeparator bin]
  by (auto simp: flat_key.simps(1) [of _ _ pos] flat_key.simps(3) [of _ _ pos])

lemma flat_key_first:
  "drop pos input = check_first first @ xs \<Longrightarrow> st \<in> {Flat_Attributes, Flat_Body} \<Longrightarrow>
   flat_key bin input st pos depth = flat_key bin input st (pos + length (check_first first)) depth"
  using flat_key_separator [of pos input xs st depth] by (cases first) (simp_all add: check_first_def)

lemma reads_entries_Cons:
  assumes "ok (Token_String k)" and v: "reads_value v" and es: "reads_entries es"
  shows "reads_entries ((k, v) # es)"
proof -
  have main:
    "de_map bin input acc pos depth st =
      de_map bin input acc (pos + length (check_first first) + length (tok (Token_String k)) + 1 + length (enc_value tok v))
        depth (visit_entry (if acc = Flat Flat_Attributes then 0x40 # k else k) v st)
     \<and> drop (pos + length (check_first first) + length (tok (Token_String k)) + 1 + length (enc_value tok v)) input
        = enc_entries tok False es @ e # rest"
    if d: "drop pos input = enc_entries tok first ((k, v) # es) @ e # rest"
      and n: "depth + need_entries ((k, v) # es) \<le> DE_MAX_DEPTH"
      and acc: "acc = Comma 0x7D \<and> e = 0x7D \<or> acc = Flat Flat_Body \<and> e = 0x7D \<or> acc = Flat Flat_Attributes \<and> e = 0x3E"
    for input pos depth first st e rest acc
  proof -
    let ?p = "pos + length (check_first first)"
    define r where "r = enc_entries tok False es @ e # rest"
    have d0: "drop pos input = check_first first @ tok (Token_String k) @ [0x3D] @ enc_value tok v @ r"
      using d by (simp add: r_def)
    then have d1: "drop ?p input = tok (Token_String k) @ [0x3D] @ enc_value tok v @ r" by (rule drop_append_eq)
    have del: "delimited r" unfolding r_def using acc by (intro delimited_enc_entries) auto
    have nv: "depth + need_value v \<le> DE_MAX_DEPTH" using n by simp
    note at = entry_at [OF assms(1) v del nv d1]
    obtain b where b: "peek_byte bin input ?p = Inr (b, ?p)" "punctuation b = None" using at(6) by blast
    then have bn: "b \<notin> {0x3E, 0x5D, 0x7D, 0x3B}" by auto
    have key: "next_key bin input acc pos depth =
        Inr (Some (if acc = Flat Flat_Attributes then 0x40 # k else k), False, acc, ?p + length (tok (Token_String k)))"
    proof -
      consider "acc = Comma 0x7D" | "acc = Flat Flat_Body" | "acc = Flat Flat_Attributes" using acc by blast
      then show ?thesis
      proof cases
        case 1
        then show ?thesis
          using comma_next_at [OF d0 b(1) bn, of "0x7D"] at(2) by (simp add: next_key_def)
      next
        case 2
        have "flat_key bin input Flat_Body ?p depth = Inr (Some k, False, Flat_Body, ?p + length (tok (Token_String k)))"
          using b(1) bn at(2) by (subst flat_key.simps(3)) auto
        then show ?thesis using 2 flat_key_first [OF d0, of Flat_Body] by (simp add: next_key_def)
      next
        case 3
        have "flat_key bin input Flat_Attributes ?p depth =
            Inr (Some (0x40 # k), False, Flat_Attributes, ?p + length (tok (Token_String k)))"
          using b(1) bn at(1) by (subst flat_key.simps(1)) auto
        then show ?thesis using 3 flat_key_first [OF d0, of Flat_Attributes] by (simp add: next_key_def)
      qed
    qed
    show ?thesis
      using key at(3-5) unfolding r_def by (subst de_map.simps) simp
  qed
  show ?thesis
    unfolding reads_entries_def
  proof (intro allI impI conjI, goal_cases)
    case (1 input pos depth first st rest)
    note m = main [OF 1(2,1), of "Comma 0x7D" st]
    with es 1(1) show ?case by (simp add: reads_entries_def with_plain_def algebra_simps)
  next
    case (2 input pos depth first st rest)
    note m = main [OF 2(2,1), of "Flat Flat_Body" st]
    with es 2(1) show ?case by (simp add: reads_entries_def with_plain_def algebra_simps)
  next
    case (3 input pos depth first st rest)
    note m = main [OF 3(2,1), of "Flat Flat_Attributes" st]
    with es 3(1) show ?case by (simp add: reads_entries_def with_attrs_def algebra_simps)
  qed
qed

lemma reads_node_map:
  assumes "node_ok ok (Map es)" and "reads_entries es"
  shows "reads_node (Map es)"
  unfolding reads_node_def
proof (intro allI impI)
  fix input pos rest depth
  assume d: "drop pos input = enc_node tok (Map es) @ rest" and n: "depth + need_node (Map es) \<le> DE_MAX_DEPTH"
  have d0: "drop pos input = 0x7B # enc_entries tok True es @ 0x7D # rest" using d by simp
  have d1: "drop (pos + 1) input = enc_entries tok True es @ 0x7D # rest" using drop_Cons_nth [OF d0] by simp
  have "depth + 1 + need_entries es \<le> DE_MAX_DEPTH" using n by simp
  then have m: "de_map bin input (Comma 0x7D) (pos + 1) (depth + 1) visit_new =
      and_then (visit_finish (with_plain es visit_new)) (\<lambda>v. Inr (v, pos + 1 + length (enc_entries tok True es) + 1))"
    using assms(2) d1 unfolding reads_entries_def by blast
  have w: "with_plain es visit_new = \<lparr>attrs = [], plain_map = es, body_node = None, is_attributed = False\<rparr>"
    using assms(1) by (simp add: with_plain_keys btree_extend_Nil visit_new_def)
  show "de_value bin input pos depth = Inr (plain (Map es), pos + length (enc_node tok (Map es)))"
    using lex_punctuation [OF d0, of BeginMap bin] m n
    by (simp add: de_value.simps enter_recursion_def w visit_finish_def)
qed

lemma reads_node_list:
  assumes "reads_list vs"
  shows "reads_node (List vs)"
  unfolding reads_node_def
proof (intro allI impI)
  fix input pos rest depth
  assume d: "drop pos input = enc_node tok (List vs) @ rest" and n: "depth + need_node (List vs) \<le> DE_MAX_DEPTH"
  have d0: "drop pos input = 0x5B # enc_list tok True vs @ 0x5D # rest" using d by simp
  have d1: "drop (pos + 1) input = enc_list tok True vs @ 0x5D # rest" using drop_Cons_nth [OF d0] by simp
  have "depth + 1 + need_values vs \<le> DE_MAX_DEPTH" using n by simp
  then have "de_seq bin input (pos + 1) (depth + 1) = Inr (vs, pos + 1 + length (enc_list tok True vs) + 1)"
    using assms d1 unfolding reads_list_def by blast
  then show "de_value bin input pos depth = Inr (plain (List vs), pos + length (enc_node tok (List vs)))"
    using lex_punctuation [OF d0, of BeginList bin] n
    by (simp add: de_value.simps enter_recursion_def)
qed

lemma reads_node_scalar:
  assumes "scalar_node n = Some t" and "node_ok ok n"
  shows "reads_node n"
  unfolding reads_node_def using de_scalar [OF assms] by blast

lemma reads_node_entity: "reads_node Entity"
  unfolding reads_node_def
  using lex_punctuation [of _ _ "0x23" _ Token_Entity bin] by (simp add: de_value.simps)

lemma de_map_same_key:
  "next_key bin input acc pos depth = next_key bin input acc' pos' depth \<Longrightarrow>
   de_map bin input acc pos depth st = de_map bin input acc' pos' depth st"
  by (subst (1 2) de_map.simps) simp

text \<open>After the attributes: the body of an attributed value.\<close>

lemma flat_body:
  assumes ok: "node_ok ok n" and n: "reads_node n" and es: "\<And>es. n = Map es \<Longrightarrow> reads_entries es \<and> es \<noteq> []"
    and d: "drop q input = 0x3E # enc_node tok n @ rest" and del: "delimited rest"
    and need: "depth + (case n of Map es \<Rightarrow> need_entries es | _ \<Rightarrow> need_node n) \<le> DE_MAX_DEPTH"
    and st: "is_attributed st" "plain_map st = []" "body_node st = None" "attrs st \<noteq> []"
  shows "de_map bin input (Flat Flat_Attributes) q depth st =
    Inr (YsonValue (Some (attrs st)) n, q + 1 + length (enc_node tok n))"
proof -
  have d1: "drop (q + 1) input = enc_node tok n @ rest" using drop_Cons_nth [OF d] by simp
  have at: "flat_key bin input Flat_Attributes q depth = flat_key bin input Flat_Between (q + 1) depth"
    using lex_punctuation [OF d, of EndAttributes bin] by (simp add: flat_key.simps(1))
  show ?thesis
  proof (cases "\<exists>es. n = Map es")
    case True
    then obtain es where map: "n = Map es" by blast
    have d2: "drop (q + 1) input = 0x7B # enc_entries tok True es @ 0x7D # rest" using d1 map by simp
    have d3: "drop (q + 2) input = enc_entries tok True es @ 0x7D # rest" using drop_Cons_nth [OF d2] by simp
    have "flat_key bin input Flat_Between (q + 1) depth = flat_key bin input Flat_Body (q + 2) depth"
      using lex_punctuation [OF d2, of BeginMap bin] by (subst flat_key.simps(2)) simp
    then have "de_map bin input (Flat Flat_Attributes) q depth st = de_map bin input (Flat Flat_Body) (q + 2) depth st"
      using at by (intro de_map_same_key) (simp add: next_key_def)
    also have "\<dots> = and_then (visit_finish (with_plain es st)) (\<lambda>v. Inr (v, q + 2 + length (enc_entries tok True es) + 1))"
      using conjunct1 [OF es [OF map]] d3 need map unfolding reads_entries_def by auto
    also have "with_plain es st = st\<lparr>plain_map := es\<rparr>"
      using ok map st by (simp add: with_plain_keys btree_extend_Nil)
    finally show ?thesis using st map es [OF map] by (simp add: visit_finish_def)
  next
    case no_map: False
    have need': "depth + need_node n \<le> DE_MAX_DEPTH" using need no_map by (cases n) auto
    show ?thesis
    proof (cases "n = Entity")
      case True
      then have d2: "drop (q + 1) input = 0x23 # rest" using d1 by simp
      have "flat_key bin input Flat_Between (q + 1) depth = Inr (None, False, Flat_Done, q + 2)"
        using lex_punctuation [OF d2, of Token_Entity bin] by (subst flat_key.simps(2)) simp
      then show ?thesis
        using at st True by (subst de_map.simps) (simp add: next_key_def visit_finish_def)
    next
      case False
      have "\<exists>b. peek_byte bin input (q + 1) = Inr (b, q + 1) \<and> b \<noteq> 0x7B \<and> b \<noteq> 0x23"
      proof (cases n rule: node_cases)
        case (scalar t)
        then obtain b where "peek_byte bin input (q + 1) = Inr (b, q + 1)" "punctuation b = None"
          using peek_scalar [of t "q + 1" input rest] scalar_node_Some [of n t tok ok] ok d1 by auto
        then show ?thesis by auto
      next
        case (list vs)
        then show ?thesis using d1 lex_punctuation(1) [of "q + 1" input "0x5B" _ BeginList bin] by auto
      qed (use no_map False in auto)
      then have "flat_key bin input Flat_Between (q + 1) depth = Inr (Some (ascii ''$value''), True, Flat_Done, q + 1)"
        by (subst flat_key.simps(2)) auto
      then have key: "next_key bin input (Flat Flat_Attributes) q depth =
          Inr (Some (ascii ''$value''), True, Flat Flat_Done, q + 1)"
        using at by (simp add: next_key_def)
      have v: "de_value bin input (q + 1) depth = Inr (plain n, q + 1 + length (enc_node tok n))"
        using n d1 del need' unfolding reads_node_def by blast
      have finish: "de_map bin input (Flat Flat_Done) p depth st' = and_then (visit_finish st') (\<lambda>v. Inr (v, p))" for p st'
        by (subst de_map.simps) (simp add: next_key_def)
      show ?thesis
        using key v st by (subst de_map.simps) (simp add: finish visit_entry_def visit_finish_def ascii_def)
    qed
  qed
qed

lemma reads_value_plain: "node_ok ok n \<Longrightarrow> reads_node n \<Longrightarrow> reads_value (YsonValue None n)"
  by (simp add: reads_value_def reads_node_def)

lemma reads_value_attributed:
  assumes v: "value_ok ok (YsonValue (Some kvs) n)" and kvs: "reads_entries kvs"
    and n: "reads_node n" and es: "\<And>es. n = Map es \<Longrightarrow> reads_entries es"
  shows "reads_value (YsonValue (Some kvs) n)"
  unfolding reads_value_def
proof (intro allI impI)
  fix input pos rest depth
  assume d: "drop pos input = enc_value tok (YsonValue (Some kvs) n) @ rest" and del: "delimited rest"
    and need: "depth + need_value (YsonValue (Some kvs) n) \<le> DE_MAX_DEPTH"
  have ne: "kvs \<noteq> []" and wf: "btree_wf kvs" and ok: "node_ok ok n" and nm: "n \<noteq> Map []" using v by simp_all
  then have enc: "enc_value tok (YsonValue (Some kvs) n) = 0x3C # enc_entries tok True kvs @ 0x3E # enc_node tok n"
    by (cases kvs) simp_all
  have need': "depth + 1 + max (need_entries kvs) (case n of Map es \<Rightarrow> need_entries es | _ \<Rightarrow> need_node n) \<le> DE_MAX_DEPTH"
    using need ne by (cases kvs) simp_all
  let ?q = "pos + 1 + length (enc_entries tok True kvs)"
  have d0: "drop pos input = 0x3C # enc_entries tok True kvs @ 0x3E # enc_node tok n @ rest" using d enc by simp
  have d1: "drop (pos + 1) input = enc_entries tok True kvs @ 0x3E # enc_node tok n @ rest"
    using drop_Cons_nth [OF d0] by simp
  have d2: "drop ?q input = 0x3E # enc_node tok n @ rest" by (rule drop_append_eq [OF d1])
  let ?st = "with_attrs kvs visit_new"
  have st: "?st = \<lparr>attrs = kvs, plain_map = [], body_node = None, is_attributed = True\<rparr>"
    using ne wf by (simp add: with_attrs_keys btree_extend_Nil visit_new_def)
  have m: "de_map bin input (Flat Flat_Attributes) (pos + 1) (depth + 1) visit_new =
      de_map bin input (Flat Flat_Attributes) ?q (depth + 1) ?st"
    using kvs d1 need' unfolding reads_entries_def by auto
  have "de_map bin input (Flat Flat_Attributes) ?q (depth + 1) ?st =
      Inr (YsonValue (Some (attrs ?st)) n, ?q + 1 + length (enc_node tok n))"
    by (rule flat_body [OF ok n _ d2 del]) (use es nm need' ne in \<open>auto simp: st\<close>)
  then show "de_value bin input pos depth = Inr (YsonValue (Some kvs) n, pos + length (enc_value tok (YsonValue (Some kvs) n)))"
    using lex_punctuation [OF d0, of BeginAttributes bin] m need'
    by (subst de_value.simps) (simp add: flat_new_def enter_recursion_def st enc del: enc_value.simps)
qed

lemma reads_all:
  "value_ok ok v \<Longrightarrow> reads_value v"
  "node_ok ok n \<Longrightarrow> reads_node n \<and> (\<forall>es. n = Map es \<longrightarrow> reads_entries es)"
  "values_ok ok vs \<Longrightarrow> reads_list vs"
  "entries_ok ok es \<Longrightarrow> reads_entries es"
proof (induction v and n and vs and es rule: value_serde_node_serde_values_serde_entries_serde.induct)
  case (1 a n)
  show ?case
  proof (cases a)
    case None
    then show ?thesis using 1 reads_value_plain by simp
  next
    case (Some kvs)
    obtain kv kvs' where kvs: "kvs = kv # kvs'" using "1.prems" Some by (cases kvs) simp_all
    have "reads_entries kvs" using 1 Some kvs by simp
    moreover have "reads_node n \<and> (\<forall>es. n = Map es \<longrightarrow> reads_entries es)"
      using 1 Some kvs by simp
    ultimately show ?thesis using reads_value_attributed [of kvs n] "1.prems" Some by simp
  qed
next
  case (9 es)
  then show ?case using reads_node_map by simp
qed (auto simp: reads_node_entity reads_node_list reads_list_Nil reads_list_Cons reads_entries_Nil reads_entries_Cons
    intro: reads_node_scalar)

lemma read_back:
  assumes "value_ok ok v" and "need_value v \<le> DE_MAX_DEPTH"
  shows "de_value bin (enc_value tok v) 0 0 = Inr (v, length (enc_value tok v))"
  using reads_all(1) [OF assms(1)] assms(2) unfolding reads_value_def
  by (metis add_0 append_Nil2 delimited_def drop0)

end

end
