(* ===== verification/Yson_Formats.thy ===== *)
theory Yson_Formats
  imports Yson_Roundtrip
begin

text \<open>
  The two formats as interpretations of \<open>token_format\<close>: the lexer reads back every scalar the
  serializer writes, in binary for any value that fits the length word, in text whenever the
  number formatters print what the parser reads.
\<close>

section \<open>Binary\<close>

definition binary_ok :: "token \<Rightarrow> bool" where
  "binary_ok t = (case t of Token_String s \<Rightarrow> length s < 2 ^ 63 | _ \<Rightarrow> True)"

lemma length_word: "n < 2 ^ 63 \<Longrightarrow> unat (of_nat n :: i64) = n \<and> \<not> (of_nat n :: i64) <s 0"
proof -
  assume n: "n < 2 ^ 63"
  then have u: "unat (of_nat n :: i64) = n" by (simp add: unat_of_nat)
  have "sint (of_nat n :: i64) = signed_take_bit 63 (int n)"
    using sint_sbintrunc' [of "int n", where 'a = 64] by simp
  also have "\<dots> = int n" using n by (intro signed_take_bit_int_eq_self) simp_all
  finally show ?thesis using u by (simp add: word_sless_alt)
qed

lemma drop_fits: "drop pos input = xs @ rest \<Longrightarrow> xs \<noteq> [] \<Longrightarrow> pos + length xs \<le> length input"
proof -
  assume d: "drop pos input = xs @ rest" and "xs \<noteq> []"
  then have "length input - pos = length xs + length rest" "0 < length xs"
    using length_drop [of pos input] by simp_all
  then show ?thesis by linarith
qed

lemma slice_get_at:
  "drop pos input = h @ xs @ rest \<Longrightarrow> h \<noteq> [] \<Longrightarrow>
   slice_get input (pos + length h) (pos + length h + length xs) = Some xs"
  using drop_fits [of pos input "h @ xs" rest] drop_append_eq [of pos input h "xs @ rest"]
  by (simp add: slice_get_def)

lemma binary_string_at:
  assumes "drop pos input = write_varint (of_nat (length s)) @ s @ rest" and "length s < 2 ^ 63"
  shows "parse_binary_string input pos = Inr (Token_String s, pos + length (write_varint (of_nat (length s))) + length s)"
proof -
  let ?h = "write_varint (of_nat (length s) :: i64)"
  have "?h \<noteq> []" using write_uvarint_pos by (auto simp: write_varint_def)
  then have "slice_get input (pos + length ?h) (pos + length ?h + length s) = Some s"
    by (rule slice_get_at [OF assms(1)])
  then show ?thesis
    using length_word [OF assms(2)] assms(1) by (simp add: parse_binary_string_def read_write_varint Let_def)
qed

lemma binary_token_at:
  assumes "is_scalar t" and "binary_ok t" and d: "drop pos input = scalar_bytes fmt True t @ rest"
  shows "next_token True input pos = Inr (t, pos + length (scalar_bytes fmt True t))"
    and "\<exists>b. peek_byte True input pos = Inr (b, pos) \<and> punctuation b = None"
proof -
  obtain b bs where bs: "scalar_bytes fmt True t = b # bs" and b: "b \<in> {1, 2, 3, 4, 5, 6}"
    using assms(1) by (cases t)
      (auto simp: is_scalar_def write_bool_def write_i64_def write_u64_def write_f64_def write_string_def write_bytes_def)
  have p: "pos < length input" "input ! pos = b" and d1: "drop (pos + 1) input = bs @ rest"
    using drop_Cons_nth [of pos input b "bs @ rest"] d bs by simp_all
  have np: "punctuation b = None" using b by (auto simp: punctuation_def)
  then show "\<exists>b. peek_byte True input pos = Inr (b, pos) \<and> punctuation b = None"
    using p by (simp add: peek_byte_def skip_def)
  show "next_token True input pos = Inr (t, pos + length (scalar_bytes fmt True t))"
  proof (cases t)
    case (Token_String s)
    then have "drop (pos + 1) input = write_varint (of_nat (length s)) @ s @ rest" "b = 1"
      using d1 bs by (auto simp: write_string_def write_bytes_def split: if_splits)
    moreover have "length (scalar_bytes fmt True t) = 1 + length (write_varint (of_nat (length s) :: i64)) + length s"
      using Token_String by (simp add: write_string_def write_bytes_def)
    ultimately show ?thesis
      using Token_String assms(2) binary_string_at [of "pos + 1" input s rest] p
      by (simp add: next_token_def skip_def parse_binary_token_def Let_def binary_ok_def)
  next
    case (Token_Double v)
    then have "bs = to_le v" "b = 3" using bs by (simp_all add: write_f64_def)
    moreover have "slice_get input (pos + 1) (pos + 1 + 8) = Some (to_le v)"
      using slice_get_at [of pos input "[b]" "to_le v" rest] d bs \<open>bs = to_le v\<close> by simp
    ultimately show ?thesis
      using Token_Double p bs by (simp add: next_token_def skip_def parse_binary_token_def Let_def)
  qed (use assms(1) bs p d1 in \<open>auto simp: next_token_def skip_def parse_binary_token_def Let_def is_scalar_def
      write_bool_def write_i64_def write_u64_def read_write_varint read_write_uvarint split: if_splits\<close>)
qed

lemma binary_format: "token_format True (scalar_bytes fmt True) binary_ok"
  by unfold_locales (use binary_token_at in blast)+

interpretation binary_fmt: token_format True "scalar_bytes fmt True" binary_ok for fmt
  by (rule binary_format)

section \<open>Text: words and numbers\<close>

lemma word_end_at:
  "drop pos input = w @ rest \<Longrightarrow> \<forall>c \<in> set w. is_word_char c \<Longrightarrow> rest = [] \<or> \<not> is_word_char (hd rest) \<Longrightarrow>
   word_end input pos = pos + length w"
proof (induction w arbitrary: pos)
  case Nil
  then show ?case
  proof (cases rest)
    case Cons
    then show ?thesis using Nil drop_Cons_nth [of pos input] by (subst word_end.simps) simp
  qed (subst word_end.simps, simp)
next
  case (Cons c w)
  have "drop pos input = c # w @ rest" using Cons.prems(1) by simp
  note d = drop_Cons_nth [OF this]
  have "word_end input (pos + 1) = pos + 1 + length w"
    by (rule Cons.IH) (use Cons.prems d in simp_all)
  then show ?case using d Cons.prems(2) by (subst word_end.simps) simp
qed

definition is_number_char :: "u8 \<Rightarrow> bool" where
  "is_number_char b = (is_digit b \<or> b = 0x2D \<or> b = 0x2B \<or> b = 0x2E \<or> b = 0x65 \<or> b = 0x45)"

definition is_float_char :: "u8 \<Rightarrow> bool" where
  "is_float_char b = (b = 0x2E \<or> b = 0x65 \<or> b = 0x45)"

lemma float_not_digit: "is_float_char b \<Longrightarrow> \<not> is_digit b \<and> b \<noteq> 0x2D \<and> b \<noteq> 0x2B"
  by (auto simp: is_float_char_def is_digit_def)

lemma number_end_at:
  "drop pos input = s @ rest \<Longrightarrow> \<forall>c \<in> set s. is_number_char c \<Longrightarrow>
   rest = [] \<or> \<not> is_number_char (hd rest) \<and> hd rest \<noteq> 0x75 \<Longrightarrow>
   number_end input pos dot = (pos + length s, dot \<or> (\<exists>c \<in> set s. is_float_char c), False)"
proof (induction s arbitrary: pos dot)
  case Nil
  then show ?case
  proof (cases rest)
    case Cons
    then show ?thesis
      using Nil drop_Cons_nth [of pos input] by (subst number_end.simps) (auto simp: is_number_char_def Let_def)
  qed (subst number_end.simps, simp)
next
  case (Cons c s)
  have "drop pos input = c # s @ rest" using Cons.prems(1) by simp
  note d = drop_Cons_nth [OF this]
  have IH: "number_end input (pos + 1) d' = (pos + 1 + length s, d' \<or> (\<exists>c \<in> set s. is_float_char c), False)" for d'
    by (rule Cons.IH) (use Cons.prems d in simp_all)
  have "is_number_char c" using Cons.prems(2) by simp
  show ?case
  proof (cases "is_float_char c")
    case True
    then have "c = 0x2E \<or> c = 0x65 \<or> c = 0x45" by (simp add: is_float_char_def)
    then show ?thesis
      using d IH [of True] True float_not_digit [OF True] by (subst number_end.simps) (auto simp: Let_def)
  next
    case False
    then have "is_digit c \<or> c = 0x2D \<or> c = 0x2B"
      using \<open>is_number_char c\<close> by (auto simp: is_number_char_def is_float_char_def)
    then show ?thesis
      using d IH [of dot] False by (subst number_end.simps) (auto simp: Let_def)
  qed
qed

lemma number_end_unsigned:
  "drop pos input = s @ 0x75 # rest \<Longrightarrow> \<forall>c \<in> set s. is_digit c \<Longrightarrow>
   number_end input pos dot = (pos + length s + 1, dot, True)"
proof (induction s arbitrary: pos)
  case Nil
  then show ?case
    using drop_Cons_nth [of pos input "0x75" rest] by (subst number_end.simps) (simp add: is_digit_def)
next
  case (Cons c s)
  have "drop pos input = c # s @ 0x75 # rest" using Cons.prems(1) by simp
  note d = drop_Cons_nth [OF this]
  have "number_end input (pos + 1) dot = (pos + 1 + length s + 1, dot, True)"
    by (rule Cons.IH) (use Cons.prems d in simp_all)
  then show ?case using d Cons.prems(2) by (subst number_end.simps) simp
qed

lemma delimited_hd: "delimited rest \<Longrightarrow> rest = [] \<or> \<not> is_word_char (hd rest) \<and> \<not> is_number_char (hd rest) \<and> hd rest \<noteq> 0x75"
  by (auto simp: delimited_def is_word_char_def is_number_char_def is_alnum_def is_alpha_def is_digit_def)

lemma digit_ascii: "is_digit c \<Longrightarrow> c < 0x80"
  by (rule le_less_trans [of _ "0x39"]) (simp_all add: is_digit_def)

lemma number_char_ascii: "is_number_char c \<Longrightarrow> c < 0x80"
  by (auto simp: is_number_char_def digit_ascii)

lemma take_at: "drop pos input = s @ rest \<Longrightarrow> take (pos + length s - pos) (drop pos input) = s"
  by simp

text \<open>What the number formatters have to print for the parser to read it back.\<close>

definition starts_number :: "bytes \<Rightarrow> bool" where
  "starts_number s = (case s of [] \<Rightarrow> False | c # _ \<Rightarrow> is_digit c \<or> c = 0x2D \<or> c = 0x2B)"

definition int_text_ok :: "bytes \<Rightarrow> i64 \<Rightarrow> bool" where
  "int_text_ok s v = (starts_number s \<and> (\<forall>c \<in> set s. is_number_char c \<and> \<not> is_float_char c)
     \<and> parse_signed64 10 s = Some (sint v))"

definition uint_text_ok :: "bytes \<Rightarrow> u64 \<Rightarrow> bool" where
  "uint_text_ok s v = (s \<noteq> [] \<and> (\<forall>c \<in> set s. is_digit c) \<and> parse_unsigned 10 (2 ^ 64 - 1) s = Some (unat v))"

definition float_text_ok :: "bytes \<Rightarrow> f64 \<Rightarrow> bool" where
  "float_text_ok s v = (starts_number s \<and> (\<forall>c \<in> set s. is_number_char c) \<and> (\<exists>c \<in> set s. is_float_char c)
     \<and> parse_f64 s = Some v)"

lemma int_token_at:
  assumes "int_text_ok s v" and "delimited rest" and "drop pos input = s @ rest"
  shows "parse_text_number input pos = Inr (Token_Int64 v, pos + length s)"
proof -
  have "number_end input pos False = (pos + length s, False, False)"
    using number_end_at [OF assms(3)] delimited_hd [OF assms(2)] assms(1) by (auto simp: int_text_ok_def)
  moreover have "utf8_valid s"
    using assms(1) by (intro utf8_valid_ascii) (auto simp: int_text_ok_def dest: number_char_ascii)
  ultimately show ?thesis
    using assms by (simp add: parse_text_number_def int_text_ok_def)
qed

lemma float_token_at:
  assumes "float_text_ok s v" and "delimited rest" and "drop pos input = s @ rest"
  shows "parse_text_number input pos = Inr (Token_Double v, pos + length s)"
proof -
  have "number_end input pos False = (pos + length s, True, False)"
    using number_end_at [OF assms(3)] delimited_hd [OF assms(2)] assms(1) by (auto simp: float_text_ok_def)
  moreover have "utf8_valid s"
    using assms(1) by (intro utf8_valid_ascii) (auto simp: float_text_ok_def dest: number_char_ascii)
  ultimately show ?thesis
    using assms by (simp add: parse_text_number_def float_text_ok_def)
qed

lemma uint_token_at:
  assumes "uint_text_ok s v" and d: "drop pos input = (s @ [0x75]) @ rest"
  shows "parse_text_number input pos = Inr (Token_Uint64 v, pos + length s + 1)"
proof -
  have digits: "\<forall>c \<in> set s. is_digit c" and ne: "s \<noteq> []" using assms(1) by (simp_all add: uint_text_ok_def)
  have "number_end input pos False = (pos + length s + 1, False, True)"
    by (rule number_end_unsigned) (use d digits in simp_all)
  moreover have t: "take (pos + length s + 1 - pos) (drop pos input) = s @ [0x75]" using d by simp
  moreover have "utf8_valid (s @ [0x75])"
    using digits by (intro utf8_valid_ascii) (auto simp: digit_ascii)
  moreover have "trim_end_matches 0x75 (s @ [0x75]) = s"
  proof -
    have "is_digit (last s)" using digits last_in_set [OF ne] by blast
    then have "last s \<noteq> 0x75" by (auto simp: is_digit_def)
    then have "dropWhile (\<lambda>x. x = 0x75) (rev s) = rev s"
      using ne by (cases "rev s") (auto simp: last_rev hd_rev)
    then show ?thesis by (simp add: trim_end_matches_def)
  qed
  ultimately show ?thesis
    using assms(1) by (simp only: parse_text_number_def) (simp add: uint_text_ok_def Let_def)
qed

section \<open>Text: quoted strings\<close>

text \<open>
  One character as an escaping writer leaves it: itself, a backslash and a letter the reader
  maps back, or two hexadecimal digits.
\<close>

definition unit_for :: "u8 \<Rightarrow> bytes \<Rightarrow> bool" where
  "unit_for b u =
     (u = [b] \<and> b \<noteq> 0x22 \<and> b \<noteq> 0x5C \<or>
      (b, u) \<in> {(0x22, [0x5C, 0x22]), (0x5C, [0x5C, 0x5C]), (0x0A, [0x5C, 0x6E]), (0x0D, [0x5C, 0x72]), (0x09, [0x5C, 0x74])} \<or>
      u = hex_escape b)"

lemma unit_for_escapes: "unit_for b (escape_char b)" "unit_for b (escape_byte b)"
  by (simp_all add: unit_for_def escape_char_def escape_byte_def)

lemma hex_digits:
  assumes "h = unat (b :: u8) div 16" and "l = unat b mod 16"
  shows "h < 16" "l < 16" "16 * h + l = unat b"
proof -
  have "unat b < 256" using unsigned_less [of b] by simp
  then show "h < 16" "l < 16" "16 * h + l = unat b" using assms by simp_all
qed

lemma digit_char_bounds: "d < 16 \<Longrightarrow> digit_char d < 0x80 \<and> digit_char d \<noteq> 0x22 \<and> digit_char d \<noteq> 0x5C"
proof -
  assume "d < 16"
  then have u: "unat (digit_char d) = (if d < 10 then 48 + d else 87 + d)" by (intro unat_digit_char) simp
  then have "unat (digit_char d) < unat (0x80 :: u8) \<and> unat (digit_char d) \<noteq> unat (0x22 :: u8) \<and> unat (digit_char d) \<noteq> unat (0x5C :: u8)"
    using \<open>d < 16\<close> by auto
  then show ?thesis by (metis word_less_nat_alt)
qed

lemma escape_hex_at:
  assumes "drop pos input = 0x78 # digit_char (unat b div 16) # digit_char (unat b mod 16) # rest"
  shows "escape input pos = Inr (b, pos + 2)"
proof -
  define h l where "h = unat b div 16" and "l = unat b mod 16"
  note hl = hex_digits [OF h_def l_def]
  have d: "drop pos input = [0x78, digit_char h, digit_char l] @ rest" using assms by (simp add: h_def l_def)
  have len: "pos + 3 \<le> length input" using drop_fits [OF d] by simp
  have x: "input ! pos = 0x78" and d1: "drop (pos + 1) input = digit_char h # digit_char l # rest"
    using drop_Cons_nth [of pos input "0x78"] d by simp_all
  have t: "take 2 (drop (pos + 1) input) = [digit_char h, digit_char l]" unfolding d1 by simp
  have utf: "utf8_valid [digit_char h, digit_char l]"
    using digit_char_bounds hl by (intro utf8_valid_ascii) auto
  have "parse_digits 16 0 [digit_char h, digit_char l] = Some (h * 16 + l)" using hl by simp
  moreover have "digit_char h \<noteq> 0x2B" using digit_char_not_sign [of h] hl by simp
  moreover have "h * 16 + l \<le> 255" using hl unsigned_less [of b] by simp
  ultimately have p: "parse_unsigned 16 255 [digit_char h, digit_char l] = Some (h * 16 + l)"
    by (simp add: parse_unsigned_def)
  have "h * 16 + l = unat b" using hl(3) by simp
  then have "(of_nat (h * 16 + l) :: u8) = b" by (simp only: of_nat_unat ucast_id)
  then show ?thesis using len x t utf p by (simp add: escape_def Let_def del: of_nat_add of_nat_mult)
qed

lemma find_quote_unit:
  assumes "drop pos input = u @ rest" and "unit_for b u"
  shows "\<exists>f'. find_quote input pos f = find_quote input (pos + length u) f' \<and> (u \<noteq> [b] \<longrightarrow> f') \<and> (f \<longrightarrow> f')"
proof -
  have plain: "find_quote input p f = find_quote input (p + 1) f"
    if "p < length input" "input ! p \<noteq> 0x22" "input ! p \<noteq> 0x5C" for p f
    using that by (subst find_quote.simps) simp
  have esc: "find_quote input p f = find_quote input (p + 2) True"
    if "p < length input" "input ! p = 0x5C" for p f
    using that by (subst find_quote.simps) simp
  consider (self) "u = [b]" "b \<noteq> 0x22" "b \<noteq> 0x5C" | (short) c where "u = [0x5C, c]" | (hex) "u = hex_escape b"
    using assms(2) unfolding unit_for_def by blast
  then show ?thesis
  proof cases
    case self
    have p: "pos < length input" "input ! pos = b"
      using drop_Cons_nth [of pos input b rest] assms(1) self(1) by simp_all
    show ?thesis using plain [of pos f] p self by (intro exI [of _ f]) simp
  next
    case short
    have p: "pos < length input" "input ! pos = 0x5C"
      using drop_Cons_nth [of pos input "0x5C" "c # rest"] assms(1) short by simp_all
    show ?thesis using esc [OF p, of f] short by (intro exI [of _ True]) simp
  next
    case hex
    define h l where "h = digit_char (unat b div 16)" and "l = digit_char (unat b mod 16)"
    have d0: "drop pos input = 0x5C # 0x78 # h # l # rest" using assms(1) hex by (simp add: hex_escape_def h_def l_def)
    have d1: "drop (pos + 1) input = 0x78 # h # l # rest" using drop_Cons_nth [OF d0] by simp
    have d2: "drop (pos + 2) input = h # l # rest" using drop_Cons_nth [OF d1] by simp
    have d3: "drop (pos + 3) input = l # rest" using drop_Cons_nth [OF d2] by (simp add: numeral_3_eq_3)
    have n: "h \<noteq> 0x22" "h \<noteq> 0x5C" "l \<noteq> 0x22" "l \<noteq> 0x5C"
      using digit_char_bounds hex_digits(1,2) [OF refl refl, of b] by (simp_all add: h_def l_def)
    have "find_quote input pos f = find_quote input (pos + 2) True"
      using drop_Cons_nth [OF d0] by (intro esc) simp_all
    also have "\<dots> = find_quote input (pos + 2 + 1) True" using drop_Cons_nth [OF d2] n by (intro plain) simp_all
    also have "pos + 2 + 1 = pos + 3" by simp
    also have "find_quote input (pos + 3) True = find_quote input (pos + 3 + 1) True"
      using drop_Cons_nth [OF d3] n by (intro plain) simp_all
    also have "pos + 3 + 1 = pos + length u" using hex by (simp add: hex_escape_def)
    finally show ?thesis using hex by (intro exI [of _ True]) (auto simp: hex_escape_def)
  qed
qed

lemma unescape_unit:
  assumes "drop pos input = u @ rest" and "unit_for b u"
  shows "unescape input pos buf = unescape input (pos + length u) (buf @ [b])"
proof -
  consider (self) "u = [b]" "b \<noteq> 0x22" "b \<noteq> 0x5C"
    | (short) "(b, u) \<in> {(0x22, [0x5C, 0x22]), (0x5C, [0x5C, 0x5C]), (0x0A, [0x5C, 0x6E]), (0x0D, [0x5C, 0x72]), (0x09, [0x5C, 0x74])}"
    | (hex) "u = hex_escape b"
    using assms(2) unfolding unit_for_def by blast
  then show ?thesis
  proof cases
    case self
    then show ?thesis
      using drop_Cons_nth [of pos input b rest] assms(1) by (subst unescape.simps) simp
  next
    case short
    then obtain c where u: "u = [0x5C, c]" by auto
    have d0: "drop pos input = 0x5C # c # rest" using assms(1) u by simp
    have p: "pos < length input" "input ! pos = 0x5C" and d1: "drop (pos + 1) input = c # rest"
      using drop_Cons_nth [OF d0] by simp_all
    have c: "pos + 1 < length input" "input ! (pos + 1) = c" using drop_Cons_nth [OF d1] by simp_all
    have "escape input (pos + 1) = Inr (b, pos + 1)"
      using short u c by (auto simp: escape_def)
    then show ?thesis using p c u by (subst unescape.simps) simp
  next
    case hex
    have d0: "drop pos input = 0x5C # 0x78 # digit_char (unat b div 16) # digit_char (unat b mod 16) # rest"
      using assms(1) hex by (simp add: hex_escape_def)
    note p = drop_Cons_nth [OF d0]
    have "escape input (pos + 1) = Inr (b, pos + 1 + 2)" by (rule escape_hex_at) (use p in simp)
    moreover have "pos + 1 < length input" using p drop_Cons_nth [of "pos + 1" input] by blast
    ultimately show ?thesis
      using p hex by (subst unescape.simps) (simp add: hex_escape_def)
  qed
qed

lemma units_at:
  assumes "\<forall>b. unit_for b (esc b)" and "drop pos input = concat (map esc v) @ 0x22 # rest"
  shows "\<exists>f'. find_quote input pos f = (pos + length (concat (map esc v)), f') \<and> (\<not> f' \<longrightarrow> concat (map esc v) = v)
      \<and> (f \<longrightarrow> f')"
    and "unescape input pos buf = Inr (buf @ v, pos + length (concat (map esc v)) + 1)"
  using assms(2)
proof (induction v arbitrary: pos f buf)
  case Nil
  {
    case 1
    then show ?case using drop_Cons_nth [of pos input "0x22" rest] by (subst find_quote.simps) simp
  next
    case 2
    then show ?case using drop_Cons_nth [of pos input "0x22" rest] by (subst unescape.simps) simp
  }
next
  case (Cons b v)
  have u: "unit_for b (esc b)" using assms(1) by blast
  {
    case 1
    then have d: "drop pos input = esc b @ concat (map esc v) @ 0x22 # rest" by simp
    then have d': "drop (pos + length (esc b)) input = concat (map esc v) @ 0x22 # rest" by (rule drop_append_eq)
    obtain f1 where f1: "find_quote input pos f = find_quote input (pos + length (esc b)) f1"
      "esc b \<noteq> [b] \<longrightarrow> f1" "f \<longrightarrow> f1" using find_quote_unit [OF d u] by blast
    obtain f2 where "find_quote input (pos + length (esc b)) f1 = (pos + length (esc b) + length (concat (map esc v)), f2)"
      "\<not> f2 \<longrightarrow> concat (map esc v) = v" "f1 \<longrightarrow> f2" using Cons.IH(1) [OF d'] by blast
    then show ?case using f1 by (intro exI [of _ f2]) (auto simp: add.assoc)
  next
    case 2
    then have d: "drop pos input = esc b @ concat (map esc v) @ 0x22 # rest" by simp
    then have d': "drop (pos + length (esc b)) input = concat (map esc v) @ 0x22 # rest" by (rule drop_append_eq)
    show ?case using unescape_unit [OF d u] Cons.IH(2) [OF d', of "buf @ [b]"] by (simp add: add.assoc)
  }
qed

lemma quoted_at:
  assumes "\<forall>b. unit_for b (esc b)" and d: "drop pos input = (0x22 # concat (map esc v) @ [0x22]) @ rest"
  shows "parse_text_quoted_string input pos = Inr (Token_String v, pos + length (0x22 # concat (map esc v) @ [0x22]))"
proof -
  let ?c = "concat (map esc v)"
  have d1: "drop (pos + 1) input = ?c @ 0x22 # rest" using drop_Cons_nth [of pos input] d by simp
  have fits: "pos + 1 + length ?c < length input"
    using drop_fits [OF d] by simp
  obtain f where f: "find_quote input (pos + 1) False = (pos + 1 + length ?c, f)" "\<not> f \<longrightarrow> ?c = v"
    using units_at(1) [OF assms(1) d1] by blast
  show ?thesis
    using f fits d1 units_at(2) [OF assms(1) d1, of "[]"]
    by (cases f) (simp_all add: parse_text_quoted_string_def Let_def)
qed

section \<open>The text format\<close>

text \<open>
  The scalars that survive the text format: every string and boolean, the numbers whose
  formatter prints what the parser reads, and of the not-a-numbers only the canonical one.
\<close>

definition text_ok :: "formatters \<Rightarrow> token \<Rightarrow> bool" where
  "text_ok fmt t =
     (case t of
        Token_Int64 v \<Rightarrow> int_text_ok (itoa_i64 fmt v) v
      | Token_Uint64 v \<Rightarrow> uint_text_ok (itoa_u64 fmt v) v
      | Token_Double v \<Rightarrow>
          if f64_is_nan v then v = F64_NAN
          else f64_is_infinite v \<or> float_text_ok (write_f64 fmt False v) v
      | _ \<Rightarrow> True)"

lemma f64_infinite_cases: "f64_is_infinite v \<Longrightarrow> v = (if f64_sign_negative v then F64_NEG_INFINITY else F64_INFINITY)"
proof -
  assume inf: "f64_is_infinite v"
  have "bit v n = bit (if bit v 63 then F64_NEG_INFINITY else F64_INFINITY :: f64) n" if "n < 64" for n
  proof (cases "n = 63")
    case True
    then show ?thesis by (simp add: F64_NEG_INFINITY_def F64_INFINITY_def)
  next
    case False
    then have "n < 63" using that by simp
    then have "bit v n = bit (take_bit 63 v) n" by (simp add: bit_take_bit_iff)
    also have "take_bit 63 v = F64_INFINITY" using inf by (simp add: f64_is_infinite_def F64_INFINITY_def)
    finally have v: "bit v n = bit F64_INFINITY n" .
    have inf: "F64_INFINITY = take_bit 63 F64_NEG_INFINITY" by (simp add: F64_INFINITY_def F64_NEG_INFINITY_def)
    have "bit F64_INFINITY n = bit F64_NEG_INFINITY n" unfolding inf bit_take_bit_iff using \<open>n < 63\<close> by simp
    then show ?thesis using v by simp
  qed
  then show ?thesis unfolding f64_sign_negative_def by (intro bit_word_eqI) simp
qed

lemma starts_with_at: "drop pos input = lit @ rest \<Longrightarrow> starts_with (drop pos input) lit"
  by (simp add: starts_with_def)

lemma special_at:
  assumes "drop pos input = 0x25 # lit @ rest"
    and "(lit, t) \<in> {(ascii ''true'', Token_Boolean True), (ascii ''false'', Token_Boolean False),
      (ascii ''nan'', Token_Double F64_NAN), (ascii ''inf'', Token_Double F64_INFINITY), (ascii ''-inf'', Token_Double F64_NEG_INFINITY)}"
  shows "parse_text_special_value input pos = Inr (t, pos + 1 + length lit)"
proof -
  have d: "drop (pos + 1) input = lit @ rest" using drop_Cons_nth [OF assms(1)] by simp
  show ?thesis
    unfolding parse_text_special_value_def d Let_def
    using assms(2) by (auto simp: starts_with_def ascii_def)
qed

text \<open>How the text of a scalar begins, and which tokenizer that selects.\<close>

lemma text_dispatch:
  assumes "drop pos input = c # rest" and "\<not> is_space c" and "c \<noteq> 0x2F" and "punctuation c = None"
  shows "next_token False input pos = parse_text_token input pos"
    and "peek_byte False input pos = Inr (c, pos)"
proof -
  have p: "pos < length input" "input ! pos = c" using drop_Cons_nth [OF assms(1)] by simp_all
  have "skip False input pos = pos" using not_ignored [of input pos False] p assms by simp
  then show "next_token False input pos = parse_text_token input pos" "peek_byte False input pos = Inr (c, pos)"
    using p by (simp_all add: next_token_def peek_byte_def)
qed

definition text_first :: "u8 \<Rightarrow> bool" where
  "text_first c = (c = 0x22 \<or> c = 0x25 \<or> is_digit c \<or> c = 0x2D \<or> c = 0x2B \<or> is_alpha c \<or> c = 0x5F)"

lemma text_first_facts: "text_first c \<Longrightarrow> \<not> is_space c \<and> c \<noteq> 0x2F \<and> punctuation c = None"
  by (auto simp: text_first_def is_space_def punctuation_def is_digit_def is_alpha_def)

lemma text_scalar_first:
  assumes "is_scalar t" and "text_ok fmt t"
  shows "\<exists>c s. scalar_bytes fmt False t = c # s \<and> text_first c"
proof (cases t)
  case (Token_String s)
  then show ?thesis
    by (auto simp: write_string_def write_bytes_def is_safe_unquoted_def text_first_def split: list.splits)
next
  case (Token_Double v)
  then show ?thesis
    using assms(2)
    by (auto simp: text_ok_def float_text_ok_def starts_number_def write_f64_def text_first_def ascii_def Let_def
        split: list.splits if_splits)
qed (use assms in \<open>auto simp: is_scalar_def text_ok_def int_text_ok_def uint_text_ok_def starts_number_def
    write_bool_def write_i64_def write_u64_def text_first_def ascii_def neq_Nil_conv split: list.splits\<close>)

lemma is_digit_misc [simp]: "\<not> is_digit 0x25" "\<not> is_digit 0x22" "\<not> is_digit 0x5F"
  by (simp_all add: is_digit_def)

lemma alpha_facts: "is_alpha c \<or> c = 0x5F \<Longrightarrow> \<not> is_digit c \<and> c \<noteq> 0x2D \<and> c \<noteq> 0x2B \<and> c \<noteq> 0x22 \<and> c \<noteq> 0x25"
  by (auto simp: is_alpha_def is_digit_def word_le_nat_alt)

lemma starts_number_Cons: "starts_number (c # s) \<longleftrightarrow> is_digit c \<or> c = 0x2D \<or> c = 0x2B"
  by (simp add: starts_number_def)

lemma parse_text_dispatch:
  assumes "drop pos input = c # rest" and "punctuation c = None"
  shows "c = 0x22 \<Longrightarrow> parse_text_token input pos = parse_text_quoted_string input pos"
    and "is_digit c \<or> c = 0x2D \<or> c = 0x2B \<Longrightarrow> parse_text_token input pos = parse_text_number input pos"
    and "c = 0x25 \<Longrightarrow> parse_text_token input pos = parse_text_special_value input pos"
    and "is_alpha c \<or> c = 0x5F \<Longrightarrow> parse_text_token input pos = parse_text_unquoted_string input pos"
  using drop_Cons_nth [OF assms(1)] assms(2) alpha_facts [of c]
  by (auto simp: parse_text_token_def Let_def)

lemma text_token_at:
  assumes s: "is_scalar t" and ok: "text_ok fmt t" and del: "delimited rest"
    and d: "drop pos input = scalar_bytes fmt False t @ rest"
  shows "next_token False input pos = Inr (t, pos + length (scalar_bytes fmt False t))"
proof -
  obtain c r where c: "scalar_bytes fmt False t = c # r" "text_first c"
    using text_scalar_first [OF s ok] by blast
  have dc: "drop pos input = c # r @ rest" using d c(1) by simp
  have np: "punctuation c = None" using text_first_facts [OF c(2)] by simp
  have nt: "next_token False input pos = parse_text_token input pos"
    using text_dispatch(1) [OF dc] text_first_facts [OF c(2)] by simp
  note dis = parse_text_dispatch [OF dc np]
  show ?thesis
    unfolding nt
  proof (cases t)
    case (Token_String v)
    then consider (safe) "scalar_bytes fmt False t = v" "is_safe_unquoted v"
      | (quoted) esc where "scalar_bytes fmt False t = 0x22 # concat (map esc v) @ [0x22]" "\<forall>b. unit_for b (esc b)"
    proof (cases "utf8_valid v \<and> is_safe_unquoted v")
      case True
      then show ?thesis using safe Token_String by (simp add: write_string_def)
    next
      case False
      then have "scalar_bytes fmt False t = 0x22 # concat (map (if utf8_valid v then escape_char else escape_byte) v) @ [0x22]"
        using Token_String by (simp add: write_string_def write_bytes_def)
      then show ?thesis
        by (rule quoted) (use unit_for_escapes in \<open>simp split: if_split\<close>)
    qed
    then show "parse_text_token input pos = Inr (t, pos + length (scalar_bytes fmt False t))"
    proof cases
      case safe
      have w: "\<forall>x \<in> set v. is_word_char x" and ne: "v \<noteq> []" and h: "is_alpha c \<or> c = 0x5F"
        using safe(2) c(1) unfolding safe(1) by (auto simp: is_safe_unquoted_def is_word_char_def)
      have "word_end input pos = pos + length v"
        by (rule word_end_at [OF _ w]) (use d safe(1) delimited_hd [OF del] in auto)
      then show ?thesis
        using dis(4) [OF h] d ne unfolding safe(1) by (simp add: parse_text_unquoted_string_def Let_def Token_String)
    next
      case quoted
      then have "c = 0x22" using c(1) by simp
      then show ?thesis
        using dis(1) quoted_at [OF quoted(2), of pos input v rest] d Token_String unfolding quoted(1) by simp
    qed
  next
    case (Token_Int64 v)
    then have i: "int_text_ok (itoa_i64 fmt v) v" and sb: "scalar_bytes fmt False t = itoa_i64 fmt v"
      using ok by (simp_all add: text_ok_def write_i64_def)
    have "itoa_i64 fmt v = c # r" using c(1) sb by simp
    then have "is_digit c \<or> c = 0x2D \<or> c = 0x2B"
      using i by (simp add: int_text_ok_def starts_number_Cons)
    then show "parse_text_token input pos = Inr (t, pos + length (scalar_bytes fmt False t))"
      using dis(2) int_token_at [OF i del] d Token_Int64 unfolding sb by simp
  next
    case (Token_Uint64 v)
    then have i: "uint_text_ok (itoa_u64 fmt v) v" and sb: "scalar_bytes fmt False t = itoa_u64 fmt v @ [0x75]"
      using ok by (simp_all add: text_ok_def write_u64_def)
    then have "is_digit c"
      using c(1) by (cases "itoa_u64 fmt v") (auto simp: uint_text_ok_def)
    then show "parse_text_token input pos = Inr (t, pos + length (scalar_bytes fmt False t))"
      using dis(2) uint_token_at [OF i] d Token_Uint64 unfolding sb by simp
  next
    case (Token_Boolean v)
    let ?lit = "ascii (if v then ''true'' else ''false'')"
    have sb: "scalar_bytes fmt False t = 0x25 # ?lit" using Token_Boolean by (simp add: write_bool_def ascii_def)
    then have "drop pos input = 0x25 # ?lit @ rest" using d by simp
    from special_at [OF this, of t] show "parse_text_token input pos = Inr (t, pos + length (scalar_bytes fmt False t))"
      using dis(3) c(1) sb Token_Boolean by simp
  next
    case (Token_Double v)
    consider (nan) "f64_is_nan v" "v = F64_NAN" | (inf) "\<not> f64_is_nan v" "f64_is_infinite v"
      | (fin) "\<not> f64_is_nan v" "\<not> f64_is_infinite v" "float_text_ok (write_f64 fmt False v) v"
      using ok Token_Double by (auto simp: text_ok_def split: if_splits)
    then show "parse_text_token input pos = Inr (t, pos + length (scalar_bytes fmt False t))"
    proof cases
      case nan
      have sb: "scalar_bytes fmt False t = 0x25 # ascii ''nan''"
        using Token_Double nan(1) by (simp add: write_f64_def ascii_def)
      then have "drop pos input = 0x25 # ascii ''nan'' @ rest" using d by simp
      from special_at [OF this, of t] show ?thesis using dis(3) c(1) sb Token_Double nan(2) by simp
    next
      case inf
      let ?lit = "ascii (if f64_sign_negative v then ''-inf'' else ''inf'')"
      have sb: "scalar_bytes fmt False t = 0x25 # ?lit"
        using Token_Double inf by (simp add: write_f64_def ascii_def)
      then have "drop pos input = 0x25 # ?lit @ rest" using d by simp
      from special_at [OF this, of t] show ?thesis
        using dis(3) c(1) sb Token_Double f64_infinite_cases [OF inf(2)] by (auto split: if_splits)
    next
      case fin
      have sb: "scalar_bytes fmt False t = write_f64 fmt False v" using Token_Double by simp
      have "write_f64 fmt False v = c # r" using c(1) sb by simp
      then have "is_digit c \<or> c = 0x2D \<or> c = 0x2B"
        using fin(3) by (simp add: float_text_ok_def starts_number_Cons)
      then show ?thesis
        using dis(2) float_token_at [OF fin(3) del] d Token_Double unfolding sb by simp
    qed
  qed (use s in \<open>simp_all add: is_scalar_def\<close>)
qed

lemma text_format: "token_format False (scalar_bytes fmt False) (text_ok fmt)"
proof unfold_locales
  fix t pos input rest
  assume s: "is_scalar t" and ok: "text_ok fmt t" and d: "drop pos input = scalar_bytes fmt False t @ rest"
  show "delimited rest \<Longrightarrow> next_token False input pos = Inr (t, pos + length (scalar_bytes fmt False t))"
    by (rule text_token_at [OF s ok _ d])
  obtain c r where c: "scalar_bytes fmt False t = c # r" "text_first c" using text_scalar_first [OF s ok] by blast
  show "\<exists>b. peek_byte False input pos = Inr (b, pos) \<and> punctuation b = None"
    using text_dispatch(2) [of pos input c "r @ rest"] text_first_facts [OF c(2)] d c(1) by simp
qed

interpretation text_fmt: token_format False "scalar_bytes fmt False" "text_ok fmt" for fmt
  by (rule text_format)

end
