(* ===== verification/Yson_Properties.thy ===== *)
theory Yson_Properties
  imports Yson_Formats
begin

text \<open>
  The scanner on what the serializer writes, proved in the same contract as the reading, and
  the properties of the YSON crate that span its modules.
\<close>

section \<open>The scanner on the grammar\<close>

context token_format begin

definition scans_value :: "yson_value \<Rightarrow> bool" where
  "scans_value v = (\<forall>input pos rest depth. drop pos input = enc_value tok v @ rest \<longrightarrow> delimited rest \<longrightarrow>
     depth + need_value v \<le> MAX_DEPTH \<longrightarrow>
     scan_tree bin input pos depth = Inr (pos + length (enc_value tok v)))"

definition scans_node :: "yson_node \<Rightarrow> bool" where
  "scans_node n = (\<forall>input pos rest depth. drop pos input = enc_node tok n @ rest \<longrightarrow> delimited rest \<longrightarrow>
     depth + need_node n \<le> MAX_DEPTH \<longrightarrow>
     (\<exists>t p. next_token bin input pos = Inr (t, p) \<and> t \<noteq> BeginAttributes \<and>
        scan_object bin input p depth t = Inr (pos + length (enc_node tok n))))"

definition scans_list :: "yson_value list \<Rightarrow> bool" where
  "scans_list vs = (\<forall>input pos rest depth first. drop pos input = enc_list tok first vs @ 0x5D # rest \<longrightarrow>
     depth + need_values vs \<le> MAX_DEPTH \<longrightarrow>
     scan_list bin input pos depth = Inr (pos + length (enc_list tok first vs) + 1))"

definition scans_entries :: "(bytes \<times> yson_value) list \<Rightarrow> bool" where
  "scans_entries es = (\<forall>input pos rest depth first e. e \<in> {EndMap, EndAttributes} \<longrightarrow>
     drop pos input = enc_entries tok first es @ end_byte_of e # rest \<longrightarrow>
     depth + need_entries es \<le> MAX_DEPTH \<longrightarrow>
     scan_fragment bin input pos depth e = Inr (pos + length (enc_entries tok first es) + 1))"

lemma scan_separator:
  "drop pos input = check_first first @ xs \<Longrightarrow>
   scan_list bin input pos depth = scan_list bin input (pos + length (check_first first)) depth"
  "drop pos input = check_first first @ xs \<Longrightarrow> e \<in> {EndMap, EndAttributes} \<Longrightarrow>
   scan_fragment bin input pos depth e = scan_fragment bin input (pos + length (check_first first)) depth e"
proof -
  show "drop pos input = check_first first @ xs \<Longrightarrow>
      scan_list bin input pos depth = scan_list bin input (pos + length (check_first first)) depth"
  proof (cases first)
    case False
    assume "drop pos input = check_first first @ xs"
    then have "drop pos input = 0x3B # xs" using False by (simp add: check_first_def)
    from lex_punctuation [OF this, of ItemSeparator bin] False show ?thesis
      by (subst scan_list.simps) (simp add: check_first_def scan_list.simps)
  qed (simp add: check_first_def)
  show "drop pos input = check_first first @ xs \<Longrightarrow> e \<in> {EndMap, EndAttributes} \<Longrightarrow>
      scan_fragment bin input pos depth e = scan_fragment bin input (pos + length (check_first first)) depth e"
  proof (cases first)
    case False
    assume "drop pos input = check_first first @ xs" and e: "e \<in> {EndMap, EndAttributes}"
    then have "drop pos input = 0x3B # xs" using False by (simp add: check_first_def)
    from lex_punctuation [OF this, of ItemSeparator bin] False e show ?thesis
      by (subst scan_fragment.simps) (auto simp: check_first_def end_byte_of_def scan_fragment.simps)
  qed (simp add: check_first_def)
qed

lemma scans_list_Nil: "scans_list []"
  unfolding scans_list_def
proof (intro allI impI)
  fix input pos rest depth first
  assume "drop pos input = enc_list tok first [] @ 0x5D # rest" and "depth + need_values [] \<le> MAX_DEPTH"
  then show "scan_list bin input pos depth = Inr (pos + length (enc_list tok first []) + 1)"
    using lex_punctuation [of pos input "0x5D" rest EndList bin] by (subst scan_list.simps) simp
qed

lemma scans_list_Cons:
  assumes "value_ok ok v" and v: "scans_value v" and vs: "scans_list vs"
  shows "scans_list (v # vs)"
  unfolding scans_list_def
proof (intro allI impI)
  fix input pos rest depth first
  assume d: "drop pos input = enc_list tok first (v # vs) @ 0x5D # rest"
    and n: "depth + need_values (v # vs) \<le> MAX_DEPTH"
  let ?p = "pos + length (check_first first)"
  have d0: "drop pos input = check_first first @ enc_value tok v @ enc_list tok False vs @ 0x5D # rest"
    using d by simp
  then have d1: "drop ?p input = enc_value tok v @ enc_list tok False vs @ 0x5D # rest" by (rule drop_append_eq)
  then have d2: "drop (?p + length (enc_value tok v)) input = enc_list tok False vs @ 0x5D # rest"
    by (rule drop_append_eq)
  obtain b where b: "peek_byte bin input ?p = Inr (b, ?p)" "b \<notin> {0x3E, 0x5D, 0x7D, 0x3B}"
    using peek_value [OF assms(1) d1] by blast
  have nv: "depth + need_value v \<le> MAX_DEPTH" "depth + need_values vs \<le> MAX_DEPTH" using n by simp_all
  have e: "scan_tree bin input ?p depth = Inr (?p + length (enc_value tok v))"
    using v d1 nv delimited_enc_list unfolding scans_value_def by blast
  have "scan_list bin input (?p + length (enc_value tok v)) depth =
      Inr (?p + length (enc_value tok v) + length (enc_list tok False vs) + 1)"
    using vs d2 nv unfolding scans_list_def by blast
  then have "scan_list bin input ?p depth = Inr (pos + length (enc_list tok first (v # vs)) + 1)"
    using b e nv by (subst scan_list.simps) (simp add: algebra_simps)
  then show "scan_list bin input pos depth = Inr (pos + length (enc_list tok first (v # vs)) + 1)"
    using scan_separator(1) [OF d0] by simp
qed

lemma scans_entries_Nil: "scans_entries []"
  unfolding scans_entries_def
proof (intro allI impI)
  fix input pos rest depth first e
  assume "drop pos input = enc_entries tok first [] @ end_byte_of e # rest" and "depth + need_entries [] \<le> MAX_DEPTH"
    and "e \<in> {EndMap, EndAttributes}"
  then show "scan_fragment bin input pos depth e = Inr (pos + length (enc_entries tok first []) + 1)"
    using lex_punctuation [of pos input "end_byte_of e" rest e bin]
    by (subst scan_fragment.simps) (auto simp: end_byte_of_def)
qed

lemma scans_entries_Cons:
  assumes "ok (Token_String k)" and v: "scans_value v" and es: "scans_entries es"
  shows "scans_entries ((k, v) # es)"
  unfolding scans_entries_def
proof (intro allI impI)
  fix input pos rest depth first e
  assume e: "e \<in> {EndMap, EndAttributes}"
    and d: "drop pos input = enc_entries tok first ((k, v) # es) @ end_byte_of e # rest"
    and n: "depth + need_entries ((k, v) # es) \<le> MAX_DEPTH"
  let ?p = "pos + length (check_first first)" and ?k = "tok (Token_String k)"
  define r where "r = enc_entries tok False es @ end_byte_of e # rest"
  have del: "delimited r" unfolding r_def using e by (intro delimited_enc_entries) (auto simp: end_byte_of_def)
  have d0: "drop pos input = check_first first @ ?k @ 0x3D # enc_value tok v @ r"
    using d by (simp add: r_def)
  then have d1: "drop ?p input = ?k @ 0x3D # enc_value tok v @ r" by (rule drop_append_eq)
  then have d2: "drop (?p + length ?k) input = 0x3D # enc_value tok v @ r" by (rule drop_append_eq)
  have d3: "drop (?p + length ?k + 1) input = enc_value tok v @ r" using drop_Cons_nth [OF d2] by simp
  then have d4: "drop (?p + length ?k + 1 + length (enc_value tok v)) input = r" by (rule drop_append_eq)
  have s: "is_scalar (Token_String k)" by (simp add: is_scalar_def)
  obtain b where b: "peek_byte bin input ?p = Inr (b, ?p)" "punctuation b = None"
    using peek_scalar [OF s assms(1) d1] by blast
  have bn: "b \<noteq> end_byte_of e" "b \<noteq> 0x3B" using b(2) e by (auto simp: end_byte_of_def)
  have k: "next_token bin input ?p = Inr (Token_String k, ?p + length ?k)"
    by (rule lex_scalar [OF s assms(1) _ d1]) simp
  have q: "next_token bin input (?p + length ?k) = Inr (KeyValueSeparator, ?p + length ?k + 1)"
    by (rule lex_punctuation(2) [OF d2]) simp
  have nv: "depth + need_value v \<le> MAX_DEPTH" "depth + need_entries es \<le> MAX_DEPTH" using n by simp_all
  have sv: "scan_tree bin input (?p + length ?k + 1) depth = Inr (?p + length ?k + 1 + length (enc_value tok v))"
    using v d3 del nv unfolding scans_value_def by blast
  have "scan_fragment bin input (?p + length ?k + 1 + length (enc_value tok v)) depth e =
      Inr (?p + length ?k + 1 + length (enc_value tok v) + length (enc_entries tok False es) + 1)"
    using es d4 e nv unfolding scans_entries_def r_def by blast
  then have "scan_fragment bin input ?p depth e = Inr (pos + length (enc_entries tok first ((k, v) # es)) + 1)"
    using b bn k q sv nv by (subst scan_fragment.simps) (simp add: is_string_def algebra_simps)
  then show "scan_fragment bin input pos depth e = Inr (pos + length (enc_entries tok first ((k, v) # es)) + 1)"
    using scan_separator(2) [OF d0 e] by simp
qed

lemma scans_node_scalar:
  assumes "scalar_node n = Some t" and "node_ok ok n"
  shows "scans_node n"
  unfolding scans_node_def
proof (intro allI impI)
  fix input pos rest depth
  assume d: "drop pos input = enc_node tok n @ rest" and del: "delimited rest"
  note s = scalar_node_Some [OF assms(1), of tok ok]
  have "next_token bin input pos = Inr (t, pos + length (tok t))"
    using lex_scalar [of t rest pos input] s assms(2) d del by auto
  moreover have "t \<noteq> BeginAttributes" and "scan_object bin input p depth t = Inr p" for p
    using s by (auto simp: is_scalar_def scan_object.simps split: token.splits)
  ultimately show "\<exists>t p. next_token bin input pos = Inr (t, p) \<and> t \<noteq> BeginAttributes \<and>
        scan_object bin input p depth t = Inr (pos + length (enc_node tok n))"
    using s by auto
qed

lemma scans_node_entity: "scans_node Entity"
  unfolding scans_node_def
  using lex_punctuation(2) [of _ _ "0x23" _ Token_Entity bin] by (fastforce simp: scan_object.simps)

lemma scans_node_list:
  assumes "scans_list vs"
  shows "scans_node (List vs)"
  unfolding scans_node_def
proof (intro allI impI)
  fix input pos rest depth
  assume d: "drop pos input = enc_node tok (List vs) @ rest" and n: "depth + need_node (List vs) \<le> MAX_DEPTH"
  have d0: "drop pos input = 0x5B # enc_list tok True vs @ 0x5D # rest" using d by simp
  have d1: "drop (pos + 1) input = enc_list tok True vs @ 0x5D # rest" using drop_Cons_nth [OF d0] by simp
  have "depth + 1 + need_values vs \<le> MAX_DEPTH" using n by simp
  then have "scan_list bin input (pos + 1) (depth + 1) = Inr (pos + 1 + length (enc_list tok True vs) + 1)"
    using assms d1 unfolding scans_list_def by blast
  then show "\<exists>t p. next_token bin input pos = Inr (t, p) \<and> t \<noteq> BeginAttributes \<and>
        scan_object bin input p depth t = Inr (pos + length (enc_node tok (List vs)))"
    using lex_punctuation(2) [OF d0, of BeginList bin] by (simp add: scan_object.simps)
qed

lemma scans_node_map:
  assumes "scans_entries es"
  shows "scans_node (Map es)"
  unfolding scans_node_def
proof (intro allI impI)
  fix input pos rest depth
  assume d: "drop pos input = enc_node tok (Map es) @ rest" and n: "depth + need_node (Map es) \<le> MAX_DEPTH"
  have d0: "drop pos input = 0x7B # enc_entries tok True es @ end_byte_of EndMap # rest"
    using d by (simp add: end_byte_of_def)
  have d1: "drop (pos + 1) input = enc_entries tok True es @ end_byte_of EndMap # rest"
    using drop_Cons_nth [OF d0] by simp
  have "depth + 1 + need_entries es \<le> MAX_DEPTH" using n by simp
  then have "scan_fragment bin input (pos + 1) (depth + 1) EndMap = Inr (pos + 1 + length (enc_entries tok True es) + 1)"
    using assms d1 unfolding scans_entries_def by blast
  then show "\<exists>t p. next_token bin input pos = Inr (t, p) \<and> t \<noteq> BeginAttributes \<and>
        scan_object bin input p depth t = Inr (pos + length (enc_node tok (Map es)))"
    using lex_punctuation(2) [OF d0, of BeginMap bin] by (simp add: scan_object.simps)
qed

lemma scans_value_plain:
  assumes "scans_node n"
  shows "scans_value (YsonValue None n)"
  unfolding scans_value_def
proof (intro allI impI)
  fix input pos rest depth
  assume d: "drop pos input = enc_value tok (YsonValue None n) @ rest" and "delimited rest"
    and n: "depth + need_value (YsonValue None n) \<le> MAX_DEPTH"
  then obtain t p where "next_token bin input pos = Inr (t, p)" "t \<noteq> BeginAttributes"
    "scan_object bin input p depth t = Inr (pos + length (enc_node tok n))"
    using assms unfolding scans_node_def by (metis enc_value.simps need_value.simps option.simps(4))
  then show "scan_tree bin input pos depth = Inr (pos + length (enc_value tok (YsonValue None n)))"
    using n by (subst scan_tree.simps) simp
qed

lemma scans_value_attributed:
  assumes v: "value_ok ok (YsonValue (Some kvs) n)" and kvs: "scans_entries kvs" and n: "scans_node n"
  shows "scans_value (YsonValue (Some kvs) n)"
  unfolding scans_value_def
proof (intro allI impI)
  fix input pos rest depth
  assume d: "drop pos input = enc_value tok (YsonValue (Some kvs) n) @ rest" and del: "delimited rest"
    and need: "depth + need_value (YsonValue (Some kvs) n) \<le> MAX_DEPTH"
  obtain kv kvs' where ne: "kvs = kv # kvs'" using v by (cases kvs) simp_all
  then have enc: "enc_value tok (YsonValue (Some kvs) n) = 0x3C # enc_entries tok True kvs @ 0x3E # enc_node tok n"
    by simp
  have nd: "depth + 1 + need_entries kvs \<le> MAX_DEPTH" "depth + need_node n \<le> MAX_DEPTH"
    using need ne by (cases n; simp)+
  let ?q = "pos + 1 + length (enc_entries tok True kvs)"
  have d0: "drop pos input = 0x3C # enc_entries tok True kvs @ end_byte_of EndAttributes # enc_node tok n @ rest"
    using d enc by (simp add: end_byte_of_def)
  have d1: "drop (pos + 1) input = enc_entries tok True kvs @ end_byte_of EndAttributes # enc_node tok n @ rest"
    using drop_Cons_nth [OF d0] by simp
  have d2: "drop (?q + 1) input = enc_node tok n @ rest"
    using drop_append_eq [OF d1] drop_Cons_nth [of ?q input] by simp
  have f: "scan_fragment bin input (pos + 1) (depth + 1) EndAttributes = Inr (?q + 1)"
    using kvs d1 nd unfolding scans_entries_def by blast
  obtain t p where t: "next_token bin input (?q + 1) = Inr (t, p)"
    "scan_object bin input p depth t = Inr (?q + 1 + length (enc_node tok n))"
    using n d2 del nd unfolding scans_node_def by blast
  show "scan_tree bin input pos depth = Inr (pos + length (enc_value tok (YsonValue (Some kvs) n)))"
    using lex_punctuation(2) [OF d0, of BeginAttributes bin] f t nd
    by (subst scan_tree.simps) (simp add: enc del: enc_value.simps)
qed

lemma scans_all:
  "value_ok ok v \<Longrightarrow> scans_value v"
  "node_ok ok n \<Longrightarrow> scans_node n"
  "values_ok ok vs \<Longrightarrow> scans_list vs"
  "entries_ok ok es \<Longrightarrow> scans_entries es"
proof (induction v and n and vs and es rule: value_serde_node_serde_values_serde_entries_serde.induct)
  case (1 a n)
  show ?case
  proof (cases a)
    case None
    then show ?thesis using 1 scans_value_plain by simp
  next
    case (Some kvs)
    obtain kv kvs' where kvs: "kvs = kv # kvs'" using "1.prems" Some by (cases kvs) simp_all
    have "scans_entries kvs" "scans_node n" using 1 Some kvs by simp_all
    then show ?thesis using scans_value_attributed [of kvs n] "1.prems" Some by simp
  qed
qed (auto simp: scans_node_entity scans_node_list scans_node_map scans_list_Nil scans_list_Cons scans_entries_Nil
    scans_entries_Cons intro: scans_node_scalar)

lemma scan_back:
  assumes "value_ok ok v" and "need_value v \<le> MAX_DEPTH" and "delimited rest"
  shows "scan_tree bin (enc_value tok v @ rest) 0 0 = Inr (length (enc_value tok v))"
  using scans_all(1) [OF assms(1)] assms(2,3) unfolding scans_value_def
  by (metis add_0 drop0)

lemma next_token_end:
  assumes "value_ok ok v"
  shows "peek_byte bin (enc_value tok v) (length (enc_value tok v)) = Inl Eof"
  by (simp add: peek_byte_def skip_def skip_ignored.simps)

end

section \<open>Concrete formatters and values\<close>

text \<open>Formatters that print integers in decimal; the witnesses of the text format use them.\<close>

definition decimal_formatters :: formatters where
  "decimal_formatters = \<lparr>itoa_i64 = (\<lambda>v. fmt_signed (sint v)), itoa_u64 = (\<lambda>v. fmt_unsigned (unat v)),
     ryu_f64 = (\<lambda>v. [])\<rparr>"

definition sample_value :: yson_value where
  "sample_value = YsonValue (Some [([0x61], plain (Int64 1))]) (List [plain (String [0x62, 0x22]), plain Entity])"

lemma sample_ok:
  "value_ok binary_ok sample_value" "value_ok (text_ok decimal_formatters) sample_value" "need_value sample_value \<le> 128"
proof -
  have "fmt_signed 1 = [0x31]"
    by (simp add: fmt_signed_def fmt_unsigned_def radix_digits.simps digit_char_def)
  then have "int_text_ok (itoa_i64 decimal_formatters 1) 1"
    by (simp add: decimal_formatters_def int_text_ok_def starts_number_def is_number_char_def is_float_char_def
        is_digit_def parse_signed64_def to_digit_def)
  then show "value_ok (text_ok decimal_formatters) sample_value"
    by (simp add: sample_value_def text_ok_def btree_wf_def)
  show "value_ok binary_ok sample_value" "need_value sample_value \<le> 128"
    by (simp_all add: sample_value_def binary_ok_def btree_wf_def)
qed

section \<open>Properties\<close>

lemma to_vec_grammar:
  "to_vec fmt (value_serde v) format = Inr (enc_value (scalar_bytes fmt (format = Binary)) v)"
  using serialize_grammar(1) [of "scalar_bytes fmt (format = Binary)" fmt "with_buffer [] (format = Binary)" v]
  by (simp add: to_vec_def with_buffer_def push_def)

lemma from_slice_end:
  "de_value (format = Binary) input 0 0 = Inr (v, length input) \<Longrightarrow> from_slice input format = Inr v"
  by (simp add: from_slice_def end_of_input_def peek_byte_def skip_def skip_ignored.simps)

text \<open>
  The serializer, with its compound modes and attribute flag, writes exactly the grammar
  of YSON for every value, in either format, and never fails on one.
\<close>

theorem serializer_writes_grammar:
  "to_vec fmt (value_serde v) format = Inr (enc_value (scalar_bytes fmt (format = Binary)) v)"
  by (rule to_vec_grammar)

text \<open>
  C1: in binary format, what \<open>to_vec\<close> writes \<open>from_slice\<close> reads back as the same value, for
  values of at most 128 levels whose map keys the attribute view leaves alone and whose
  attributes do not decorate an empty map.
\<close>

theorem binary_roundtrip:
  assumes "value_ok binary_ok v" and "need_value v \<le> 128"
    and "to_vec fmt (value_serde v) Binary = Inr bs"
  shows "from_slice bs Binary = Inr v"
proof -
  have "bs = enc_value (scalar_bytes fmt True) v" using assms(3) to_vec_grammar [of fmt v Binary] by simp
  then show ?thesis
    using binary_fmt.read_back [OF assms(1)] assms(2) by (intro from_slice_end) (simp add: DE_MAX_DEPTH_def)
qed

theorem binary_roundtrip_witness:
  "from_slice (enc_value (scalar_bytes decimal_formatters True) sample_value) Binary = Inr sample_value"
  by (rule binary_roundtrip [OF sample_ok(1,3)]) (simp add: to_vec_grammar)

text \<open>
  C2: in text format the same holds when the number formatters print numbers the parser
  reads back; strings of any bytes survive, quoted or not.
\<close>

theorem text_roundtrip:
  assumes "value_ok (text_ok fmt) v" and "need_value v \<le> 128"
    and "to_vec fmt (value_serde v) Text = Inr bs"
  shows "from_slice bs Text = Inr v"
proof -
  have "bs = enc_value (scalar_bytes fmt False) v" using assms(3) to_vec_grammar [of fmt v Text] by simp
  then show ?thesis
    using text_fmt.read_back [OF assms(1)] assms(2) by (intro from_slice_end) (simp add: DE_MAX_DEPTH_def)
qed

theorem text_roundtrip_witness:
  "from_slice (enc_value (scalar_bytes decimal_formatters False) sample_value) Text = Inr sample_value"
  by (rule text_roundtrip [OF sample_ok(2,3)]) (simp add: to_vec_grammar)

text \<open>
  The scanner finds exactly the end of a serialized value in front of a separator, so a
  stream of values joined by separators is cut where the serializer ended each of them.
\<close>

theorem scanner_finds_serialized_value:
  assumes "value_ok (if format = Binary then binary_ok else text_ok fmt) v" and "need_value v \<le> 128"
    and "to_vec fmt (value_serde v) format = Inr bs" and "rest = [] \<or> hd rest = 0x3B"
  shows "scan_value (bs @ rest) format = Inr (Complete (length bs))"
proof -
  have bs: "bs = enc_value (scalar_bytes fmt (format = Binary)) v" using assms(3) to_vec_grammar [of fmt v format] by simp
  have del: "delimited rest" using assms(4) by (auto simp: delimited_def)
  show ?thesis
  proof (cases format)
    case Binary
    then show ?thesis
      using binary_fmt.scan_back [of v rest fmt] assms(1,2) del by (simp add: scan_value_Complete bs MAX_DEPTH_def)
  next
    case Text
    then show ?thesis
      using text_fmt.scan_back [of fmt v rest] assms(1,2) del by (simp add: scan_value_Complete bs MAX_DEPTH_def)
  qed
qed

theorem scanner_finds_serialized_value_witness:
  "scan_value (enc_value (scalar_bytes decimal_formatters False) sample_value @ [0x3B, 0x31]) Text
     = Inr (Complete (length (enc_value (scalar_bytes decimal_formatters False) sample_value)))"
  by (rule scanner_finds_serialized_value [OF _ sample_ok(3)]) (simp_all add: to_vec_grammar sample_ok(2))

text \<open>Evaluation of the deserializer on short binary inputs.\<close>

lemma write_varint_1: "write_varint 1 = [0x02]"
proof -
  have "unzigzag 2 = 1" by (simp add: unzigzag_def)
  then have "zigzag 1 = 2" using zigzag_unzigzag [of 2] by simp
  then show ?thesis by (simp add: write_varint_def write_uvarint.simps)
qed

lemma one_not_negative [simp]: "\<not> (1 :: i64) <s 0"
  by (simp add: word_sless_alt)

lemmas de_eval = de_value.simps de_seq.simps de_map.simps flat_key.simps flat_new_def enter_recursion_def
  next_key_def comma_next_def de_key_def expect_equals_def visit_new_def visit_entry_def visit_finish_def
  peek_byte_def next_token_def skip_def parse_binary_token_def parse_binary_string_def read_varint_def read_uvarint_def
  unzigzag_def slice_get_def DE_MAX_DEPTH_def from_slice_def end_of_input_def Let_def

text \<open>
  An attributed empty map does not survive: \<open><a=#>{}\<close> is written correctly and read back as
  an attributed entity, because the visitor takes a body without keys for no body.
\<close>

theorem attributed_empty_map_lost:
  "to_vec fmt (value_serde (YsonValue (Some [([0x61], plain Entity)]) (Map []))) Binary
     = Inr [0x3C, 0x01, 0x02, 0x61, 0x3D, 0x23, 0x3E, 0x7B, 0x7D]
   \<and> from_slice [0x3C, 0x01, 0x02, 0x61, 0x3D, 0x23, 0x3E, 0x7B, 0x7D] Binary
     = Inr (YsonValue (Some [([0x61], plain Entity)]) Entity)"
proof
  show "to_vec fmt (value_serde (YsonValue (Some [([0x61], plain Entity)]) (Map []))) Binary
     = Inr [0x3C, 0x01, 0x02, 0x61, 0x3D, 0x23, 0x3E, 0x7B, 0x7D]"
    unfolding to_vec_grammar by (simp add: write_string_def check_first_def write_varint_1)
  show "from_slice [0x3C, 0x01, 0x02, 0x61, 0x3D, 0x23, 0x3E, 0x7B, 0x7D] Binary
     = Inr (YsonValue (Some [([0x61], plain Entity)]) Entity)"
    by (simp add: de_eval)
qed

text \<open>
  A map whose key begins with \<open>@\<close> is read back as an attributed entity: the visitor cannot
  tell a plain map from the flat view of an attributed value.
\<close>

theorem at_key_becomes_attribute:
  "to_vec fmt (value_serde (plain (Map [([0x40], plain Entity)]))) Binary
     = Inr [0x7B, 0x01, 0x02, 0x40, 0x3D, 0x23, 0x7D]
   \<and> from_slice [0x7B, 0x01, 0x02, 0x40, 0x3D, 0x23, 0x7D] Binary
     = Inr (YsonValue (Some [([], plain Entity)]) Entity)"
proof
  show "to_vec fmt (value_serde (plain (Map [([0x40], plain Entity)]))) Binary
     = Inr [0x7B, 0x01, 0x02, 0x40, 0x3D, 0x23, 0x7D]"
    unfolding to_vec_grammar by (simp add: write_string_def check_first_def write_varint_1)
  show "from_slice [0x7B, 0x01, 0x02, 0x40, 0x3D, 0x23, 0x7D] Binary
     = Inr (YsonValue (Some [([], plain Entity)]) Entity)"
    by (simp add: de_eval end_container_def)
qed


text \<open>
  The scanner accepts lists the deserializer refuses: it skips any number of separators,
  the deserializer at most one in front of an element.
\<close>

theorem scan_accepts_more:
  "scan_value [0x5B, 0x3B, 0x3B, 0x5D] Binary = Inr (Complete 4)
   \<and> from_slice [0x5B, 0x3B, 0x3B, 0x5D] Binary = Inl (Custom (Unexpected_token ItemSeparator))"
  by (simp add: scan_value_def scan_tree.simps scan_object.simps scan_list.simps MAX_DEPTH_def de_eval)

end
