(* ===== verification/Skiff_Schema.thy ===== *)
theory Skiff_Schema
  imports Std_Text Yson_Types
begin

text \<open>
  \<open>crates/ytsaurus-skiff/src/schema.rs\<close>: Skiff schema trees, the format declarations built from
  them, their validation, and the YSON they are written to and parsed from. A \<open>String\<close> is its
  UTF-8 bytes; \<open>BTreeMap<String, Schema>\<close> is an association list in key order, as the YSON
  maps are.
\<close>

section \<open>Wire types\<close>

datatype wire_type =
    WireType_Nothing
  | WireType_Boolean
  | WireType_Int8
  | WireType_Int16
  | WireType_Int32
  | WireType_Int64
  | WireType_Int128
  | WireType_Int256
  | WireType_Uint8
  | WireType_Uint16
  | WireType_Uint32
  | WireType_Uint64
  | WireType_Double
  | WireType_String32
  | WireType_Yson32
  | WireType_Variant8
  | WireType_Variant16
  | WireType_RepeatedVariant8
  | WireType_RepeatedVariant16
  | WireType_Tuple

fun as_str :: "wire_type \<Rightarrow> bytes" where
  "as_str WireType_Nothing = ascii ''nothing''"
| "as_str WireType_Boolean = ascii ''boolean''"
| "as_str WireType_Int8 = ascii ''int8''"
| "as_str WireType_Int16 = ascii ''int16''"
| "as_str WireType_Int32 = ascii ''int32''"
| "as_str WireType_Int64 = ascii ''int64''"
| "as_str WireType_Int128 = ascii ''int128''"
| "as_str WireType_Int256 = ascii ''int256''"
| "as_str WireType_Uint8 = ascii ''uint8''"
| "as_str WireType_Uint16 = ascii ''uint16''"
| "as_str WireType_Uint32 = ascii ''uint32''"
| "as_str WireType_Uint64 = ascii ''uint64''"
| "as_str WireType_Double = ascii ''double''"
| "as_str WireType_String32 = ascii ''string32''"
| "as_str WireType_Yson32 = ascii ''yson32''"
| "as_str WireType_Variant8 = ascii ''variant8''"
| "as_str WireType_Variant16 = ascii ''variant16''"
| "as_str WireType_RepeatedVariant8 = ascii ''repeated_variant8''"
| "as_str WireType_RepeatedVariant16 = ascii ''repeated_variant16''"
| "as_str WireType_Tuple = ascii ''tuple''"

definition wire_type_parse :: "bytes \<Rightarrow> wire_type option" where
  "wire_type_parse v =
     (if v = ascii ''nothing'' then Some WireType_Nothing
      else if v = ascii ''boolean'' then Some WireType_Boolean
      else if v = ascii ''int8'' then Some WireType_Int8
      else if v = ascii ''int16'' then Some WireType_Int16
      else if v = ascii ''int32'' then Some WireType_Int32
      else if v = ascii ''int64'' then Some WireType_Int64
      else if v = ascii ''int128'' then Some WireType_Int128
      else if v = ascii ''int256'' then Some WireType_Int256
      else if v = ascii ''uint8'' then Some WireType_Uint8
      else if v = ascii ''uint16'' then Some WireType_Uint16
      else if v = ascii ''uint32'' then Some WireType_Uint32
      else if v = ascii ''uint64'' then Some WireType_Uint64
      else if v = ascii ''double'' then Some WireType_Double
      else if v = ascii ''string32'' then Some WireType_String32
      else if v = ascii ''yson32'' then Some WireType_Yson32
      else if v = ascii ''variant8'' then Some WireType_Variant8
      else if v = ascii ''variant16'' then Some WireType_Variant16
      else if v = ascii ''repeated_variant8'' then Some WireType_RepeatedVariant8
      else if v = ascii ''repeated_variant16'' then Some WireType_RepeatedVariant16
      else if v = ascii ''tuple'' then Some WireType_Tuple
      else None)"

definition is_simple :: "wire_type \<Rightarrow> bool" where
  "is_simple t = (t \<in> {WireType_Boolean, WireType_Int8, WireType_Int16, WireType_Int32,
     WireType_Int64, WireType_Int128, WireType_Int256, WireType_Uint8, WireType_Uint16,
     WireType_Uint32, WireType_Uint64, WireType_Double, WireType_String32, WireType_Yson32})"

text \<open>\<open>WireType::fixed_width\<close>.\<close>

fun payload_width :: "wire_type \<Rightarrow> nat option" where
  "payload_width WireType_Nothing = Some 0"
| "payload_width WireType_Boolean = Some 1"
| "payload_width WireType_Int8 = Some 1"
| "payload_width WireType_Uint8 = Some 1"
| "payload_width WireType_Int16 = Some 2"
| "payload_width WireType_Uint16 = Some 2"
| "payload_width WireType_Int32 = Some 4"
| "payload_width WireType_Uint32 = Some 4"
| "payload_width WireType_Int64 = Some 8"
| "payload_width WireType_Uint64 = Some 8"
| "payload_width WireType_Double = Some 8"
| "payload_width WireType_Int128 = Some 16"
| "payload_width WireType_Int256 = Some 32"
| "payload_width _ = None"

section \<open>Schemas and their errors\<close>

datatype schema = Schema (wire_type_of: wire_type) (name_of: "bytes option") (children: "schema list")

definition leaf :: "wire_type \<Rightarrow> schema" where
  "leaf t = Schema t None []"

definition named :: "bytes \<Rightarrow> wire_type \<Rightarrow> schema" where
  "named n t = Schema t (Some n) []"

definition tuple_schema :: "schema list \<Rightarrow> schema" where
  "tuple_schema cs = Schema WireType_Tuple None cs"

definition optional_schema :: "schema \<Rightarrow> schema" where
  "optional_schema s =
     Schema WireType_Variant8 (name_of s)
       [leaf WireType_Nothing, Schema (wire_type_of s) None (children s)]"

text \<open>
  \<open>SchemaError\<close>. \<open>UnknownField\<close> carries the raw field name; the code renders it with
  \<open>String::from_utf8_lossy\<close> for its message.
\<close>

datatype schema_error =
    UnknownWireType bytes
  | UnexpectedChildren wire_type nat
  | TooManyChildren wire_type nat nat
  | EmptyTableSchemas
  | UnknownRegistryReference bytes
  | MissingTableSchema nat
  | FormatMustBeSkiff
  | MissingFormatAttribute string
  | InvalidRegistryReference
  | InvalidSchemaReference
  | UnexpectedAttributes string
  | ExpectedMap string
  | ExpectedList string
  | MissingField string string
  | ExpectedString string string
  | Schema_InvalidUtf8 string
  | UnknownField string bytes
  | TableSchemaRootMustBeTuple wire_type
  | TableSchemaChildMissingName nat

section \<open>Validation\<close>

text \<open>The largest number of children whose tags fit, for the types that have a limit.\<close>

fun children_limit :: "wire_type \<Rightarrow> nat option" where
  "children_limit WireType_Variant8 = Some 256"
| "children_limit WireType_Variant16 = Some 65536"
| "children_limit WireType_RepeatedVariant8 = Some 255"
| "children_limit WireType_RepeatedVariant16 = Some 65535"
| "children_limit _ = None"

fun schema_validate :: "schema \<Rightarrow> schema_error + unit" where
  "schema_validate (Schema t n cs) =
     and_then
       (if t = WireType_Nothing \<or> is_simple t then
          (if length cs \<noteq> 0 then Inl (UnexpectedChildren t (length cs)) else Inr ())
        else
          (case children_limit t of
             Some maximum \<Rightarrow> (if length cs > maximum then Inl (TooManyChildren t (length cs) maximum) else Inr ())
           | None \<Rightarrow> Inr ()))
       (\<lambda>_. for_each schema_validate cs)"

text \<open>The scan of the root's children for a missing name, from position \<open>index\<close>.\<close>

fun check_names :: "nat \<Rightarrow> schema list \<Rightarrow> schema_error + unit" where
  "check_names index [] = Inr ()"
| "check_names index (c # cs) =
     (if (case name_of c of None \<Rightarrow> True | Some n \<Rightarrow> n = []) then Inl (TableSchemaChildMissingName index)
      else check_names (index + 1) cs)"

definition validate_table_schema :: "schema \<Rightarrow> schema_error + unit" where
  "validate_table_schema s =
     (if wire_type_of s \<noteq> WireType_Tuple then Inl (TableSchemaRootMustBeTuple (wire_type_of s))
      else check_names 0 (children s))"

section \<open>Schemas as YSON\<close>

abbreviation yson_string :: "bytes \<Rightarrow> yson_value" where
  "yson_string bs \<equiv> plain (String bs)"

fun schema_to_yson :: "schema \<Rightarrow> yson_value" where
  "schema_to_yson (Schema t n cs) =
     (let fields0 = btree_insert (ascii ''wire_type'') (yson_string (as_str t)) [];
          fields1 = (case n of None \<Rightarrow> fields0 | Some nm \<Rightarrow> btree_insert (ascii ''name'') (yson_string nm) fields0);
          fields2 = (if cs = [] then fields1
                     else btree_insert (ascii ''children'') (plain (List (map schema_to_yson cs))) fields1)
      in plain (Map fields2))"

definition reject_attributes :: "yson_value \<Rightarrow> string \<Rightarrow> schema_error + unit" where
  "reject_attributes v ctx = (if attributes v \<noteq> None then Inl (UnexpectedAttributes ctx) else Inr ())"

definition map_fields :: "yson_value \<Rightarrow> string \<Rightarrow> schema_error + (bytes \<times> yson_value) list" where
  "map_fields v ctx = (case node v of Map fields \<Rightarrow> Inr fields | _ \<Rightarrow> Inl (ExpectedMap ctx))"

definition list_items :: "yson_value \<Rightarrow> string \<Rightarrow> schema_error + yson_value list" where
  "list_items v ctx = (case node v of List items \<Rightarrow> Inr items | _ \<Rightarrow> Inl (ExpectedList ctx))"

definition as_utf8_string :: "yson_value \<Rightarrow> string \<Rightarrow> string \<Rightarrow> schema_error + bytes" where
  "as_utf8_string v ctx field =
     and_then (reject_attributes v ctx) (\<lambda>_.
       case node v of
         String bs \<Rightarrow> (if utf8_valid bs then Inr bs else Inl (Schema_InvalidUtf8 field))
       | _ \<Rightarrow> Inl (ExpectedString ctx field))"

definition required_string :: "(bytes \<times> yson_value) list \<Rightarrow> string \<Rightarrow> string \<Rightarrow> schema_error + bytes" where
  "required_string fields field ctx =
     and_then (ok_or (map_of fields (ascii field)) (MissingField ctx field)) (\<lambda>v. as_utf8_string v ctx field)"

definition optional_string :: "(bytes \<times> yson_value) list \<Rightarrow> string \<Rightarrow> string \<Rightarrow> schema_error + bytes option" where
  "optional_string fields field ctx =
     (case map_of fields (ascii field) of
        None \<Rightarrow> Inr None
      | Some v \<Rightarrow> and_then (as_utf8_string v ctx field) (\<lambda>s. Inr (Some s)))"

definition reject_unknown :: "(bytes \<times> yson_value) list \<Rightarrow> string list \<Rightarrow> string \<Rightarrow> schema_error + unit" where
  "reject_unknown fields allowed ctx =
     for_each (\<lambda>(k, _). if k \<in> set (map ascii allowed) then Inr () else Inl (UnknownField ctx k)) fields"

lemma map_fields_size: "map_fields v ctx = Inr fs \<Longrightarrow> map_of fs k = Some w \<Longrightarrow> list_items w c = Inr xs \<Longrightarrow> x \<in> set xs \<Longrightarrow> size x < size v"
proof -
  assume fs: "map_fields v ctx = Inr fs" and w: "map_of fs k = Some w" and xs: "list_items w c = Inr xs" "x \<in> set xs"
  obtain a where v: "v = YsonValue a (Map fs)"
    using fs by (cases v) (auto simp: map_fields_def split: yson_node.splits)
  obtain b where w': "w = YsonValue b (List xs)"
    using xs(1) by (cases w) (auto simp: list_items_def split: yson_node.splits)
  have "size x < size w"
    using size_list_estimation' [OF xs(2), of "size x" size] by (simp add: w')
  moreover have "size w < size v"
    using size_list_estimation' [OF map_of_SomeD [OF w], of "size w" "size_prod (\<lambda>_. 0) size"] by (simp add: v)
  ultimately show ?thesis by simp
qed

function schema_from_yson :: "yson_value \<Rightarrow> schema_error + schema" where
  "schema_from_yson v =
     and_then (reject_attributes v ''schema'') (\<lambda>_.
     and_then (map_fields v ''schema'') (\<lambda>fields.
     and_then (reject_unknown fields [''wire_type'', ''name'', ''children''] ''schema'') (\<lambda>_.
     and_then (required_string fields ''wire_type'' ''schema'') (\<lambda>wt.
     and_then (ok_or (wire_type_parse wt) (UnknownWireType wt)) (\<lambda>t.
     and_then (optional_string fields ''name'' ''schema'') (\<lambda>n.
     and_then
       (case map_of fields (ascii ''children'') of
          None \<Rightarrow> Inr []
        | Some child_values \<Rightarrow>
            and_then (list_items child_values ''schema.children'') (\<lambda>items. collect schema_from_yson items)) (\<lambda>cs.
     and_then (schema_validate (Schema t n cs)) (\<lambda>_. Inr (Schema t n cs)))))))))"
  by pat_completeness auto
termination by (relation "measure size") (auto dest: map_fields_size)

declare schema_from_yson.simps [simp del]

section \<open>Format declarations\<close>

datatype schema_ref = Inline schema | Registry bytes

record skiff_format =
  table_schemas :: "schema_ref list"
  schema_registry :: "(bytes \<times> schema) list"

definition table_schema :: "skiff_format \<Rightarrow> nat \<Rightarrow> schema_error + schema" where
  "table_schema f index =
     (if index < length (table_schemas f) then
        (case table_schemas f ! index of
           Inline s \<Rightarrow> Inr s
         | Registry name \<Rightarrow> ok_or (map_of (schema_registry f) name) (UnknownRegistryReference name))
      else Inl (MissingTableSchema index))"

text \<open>One step of the loop of \<open>Format::validate\<close> over the table schemas.\<close>

definition validate_reference :: "skiff_format \<Rightarrow> nat \<times> schema_ref \<Rightarrow> schema_error + unit" where
  "validate_reference f entry =
     (case entry of (index, reference) \<Rightarrow>
        and_then
          (case reference of
             Inline s \<Rightarrow> schema_validate s
           | Registry name \<Rightarrow>
               (if map_of (schema_registry f) name \<noteq> None then Inr () else Inl (UnknownRegistryReference name)))
          (\<lambda>_. and_then (table_schema f index) validate_table_schema))"

definition format_validate :: "skiff_format \<Rightarrow> schema_error + unit" where
  "format_validate f =
     (if table_schemas f = [] then Inl EmptyTableSchemas
      else and_then (for_each (\<lambda>(_, s). schema_validate s) (schema_registry f)) (\<lambda>_.
        for_each (validate_reference f) (enumerate 0 (table_schemas f))))"

definition format_from_parts :: "schema_ref list \<Rightarrow> (bytes \<times> schema) list \<Rightarrow> schema_error + skiff_format" where
  "format_from_parts refs registry =
     (let f = \<lparr>table_schemas = refs, schema_registry = registry\<rparr>
      in and_then (format_validate f) (\<lambda>_. Inr f))"

definition format_new :: "schema_ref list \<Rightarrow> schema_error + skiff_format" where
  "format_new refs = format_from_parts refs []"

fun schema_ref_to_yson :: "schema_ref \<Rightarrow> yson_value" where
  "schema_ref_to_yson (Inline s) = schema_to_yson s"
| "schema_ref_to_yson (Registry name) = yson_string (0x24 # name)"

definition schema_ref_from_yson :: "yson_value \<Rightarrow> schema_error + schema_ref" where
  "schema_ref_from_yson v =
     and_then (reject_attributes v ''table schema reference'') (\<lambda>_.
       case node v of
         String name \<Rightarrow>
           (if name \<noteq> [] \<and> hd name = 0x24 \<and> length name > 1 then
              (if utf8_valid (tl name) then Inr (Registry (tl name))
               else Inl (Schema_InvalidUtf8 ''table schema registry reference''))
            else Inl InvalidRegistryReference)
       | Map _ \<Rightarrow> and_then (schema_from_yson v) (\<lambda>s. Inr (Inline s))
       | _ \<Rightarrow> Inl InvalidSchemaReference)"

definition format_to_yson :: "skiff_format \<Rightarrow> yson_value" where
  "format_to_yson f =
     (let attrs0 = btree_insert (ascii ''table_skiff_schemas'')
            (plain (List (map schema_ref_to_yson (table_schemas f)))) [];
          attrs1 = (if schema_registry f = [] then attrs0
             else btree_insert (ascii ''skiff_schema_registry'')
               (plain (Map (fold (\<lambda>(name, s). btree_insert name (schema_to_yson s)) (schema_registry f) []))) attrs0)
      in YsonValue (Some attrs1) (String (ascii ''skiff'')))"

text \<open>The loop of \<open>Format::from_yson\<close> over the registry entries.\<close>

fun registry_from_yson :: "(bytes \<times> yson_value) list \<Rightarrow> (bytes \<times> schema) list \<Rightarrow> schema_error + (bytes \<times> schema) list" where
  "registry_from_yson [] registry = Inr registry"
| "registry_from_yson ((name, v) # entries) registry =
     (if utf8_valid name then
        and_then (schema_from_yson v) (\<lambda>s. registry_from_yson entries (btree_insert name s registry))
      else Inl (Schema_InvalidUtf8 ''format.skiff_schema_registry key''))"

definition format_from_yson :: "yson_value \<Rightarrow> schema_error + skiff_format" where
  "format_from_yson v =
     (if node v \<noteq> String (ascii ''skiff'') then Inl FormatMustBeSkiff
      else and_then (ok_or (attributes v) (MissingFormatAttribute ''table_skiff_schemas'')) (\<lambda>attrs.
        and_then (reject_unknown attrs [''table_skiff_schemas'', ''skiff_schema_registry''] ''format attributes'') (\<lambda>_.
        and_then (ok_or (map_of attrs (ascii ''table_skiff_schemas'')) (MissingFormatAttribute ''table_skiff_schemas'')) (\<lambda>tables.
        and_then (list_items tables ''format.table_skiff_schemas'') (\<lambda>items.
        and_then (collect schema_ref_from_yson items) (\<lambda>refs.
        and_then
          (case map_of attrs (ascii ''skiff_schema_registry'') of
             None \<Rightarrow> Inr []
           | Some r \<Rightarrow>
               and_then (reject_attributes r ''format.skiff_schema_registry'') (\<lambda>_.
               and_then (map_fields r ''format.skiff_schema_registry'') (\<lambda>entries.
                 registry_from_yson entries [])))
          (\<lambda>registry. format_from_parts refs registry)))))))"

section \<open>Validity\<close>

text \<open>The Rust types guarantee that a \<open>String\<close> is UTF-8.\<close>

fun schema_utf8 :: "schema \<Rightarrow> bool" where
  "schema_utf8 (Schema t n cs) =
     ((case n of None \<Rightarrow> True | Some nm \<Rightarrow> utf8_valid nm) \<and> list_all schema_utf8 cs)"

lemma schema_validate_Inr: "schema_validate (Schema t n cs) = Inr u \<longleftrightarrow>
   (t = WireType_Nothing \<or> is_simple t \<longrightarrow> cs = []) \<and>
   (\<forall>m. children_limit t = Some m \<longrightarrow> length cs \<le> m) \<and> (\<forall>c \<in> set cs. schema_validate c = Inr ())"
  by (auto simp: and_then_Inr for_each_Inr is_simple_def split: if_splits option.splits)

lemma check_names_Inr: "check_names i cs = Inr u \<longleftrightarrow> (\<forall>c \<in> set cs. \<exists>n. name_of c = Some n \<and> n \<noteq> [])"
  by (induction i cs rule: check_names.induct) (auto split: option.splits)

lemma validate_table_schema_Inr: "validate_table_schema s = Inr u \<longleftrightarrow>
   wire_type_of s = WireType_Tuple \<and> (\<forall>c \<in> set (children s). \<exists>n. name_of c = Some n \<and> n \<noteq> [])"
  by (simp add: validate_table_schema_def check_names_Inr)

lemma ascii_names [simp]:
  "ascii ''wire_type'' < ascii ''name'' = False" "ascii ''name'' < ascii ''wire_type''"
  "ascii ''children'' < ascii ''wire_type''" "ascii ''children'' < ascii ''name''"
  "ascii ''table_skiff_schemas'' < ascii ''skiff_schema_registry'' = False"
  "ascii ''skiff_schema_registry'' < ascii ''table_skiff_schemas''"
  by (simp_all add: ascii_def)

lemma wire_type_parse_as_str [simp]: "wire_type_parse (as_str t) = Some t"
  by (cases t) (simp_all add: wire_type_parse_def ascii_eq_iff)

lemma utf8_as_str [simp]: "utf8_valid (as_str t)"
  by (cases t; rule utf8_valid_ascii; simp add: ascii_def)

lemma schema_yson_shape: "\<exists>fs. schema_to_yson s = plain (Map fs)"
  by (cases s) (simp add: Let_def)

section \<open>Reading back what was written\<close>

lemmas field_readers = reject_attributes_def map_fields_def list_items_def required_string_def
  optional_string_def as_utf8_string_def reject_unknown_def

lemma schema_read_back:
  "schema_utf8 s \<Longrightarrow> schema_validate s = Inr () \<Longrightarrow> schema_from_yson (schema_to_yson s) = Inr s"
proof (induction s)
  case (Schema t n cs)
  have kids: "collect schema_from_yson (map schema_to_yson cs) = Inr cs"
    using Schema by (intro collect_map) (auto simp: schema_validate_Inr list_all_iff simp del: schema_validate.simps)
  have name: "case n of None \<Rightarrow> True | Some nm \<Rightarrow> utf8_valid nm" using Schema.prems(1) by simp
  show ?case
    using Schema.prems(2) kids name
    by (subst schema_from_yson.simps)
      (cases "cs = []"; cases n; simp add: field_readers ascii_eq_iff Let_def del: schema_validate.simps)
qed

lemma schema_from_yson_valid: "schema_from_yson v = Inr s \<Longrightarrow> schema_validate s = Inr ()"
  by (subst (asm) schema_from_yson.simps) (auto simp: and_then_Inr simp del: schema_validate.simps)

lemma schema_ref_read_back:
  assumes "\<And>s. r = Inline s \<Longrightarrow> schema_utf8 s \<and> schema_validate s = Inr ()"
    and "\<And>name. r = Registry name \<Longrightarrow> utf8_valid name \<and> name \<noteq> []"
  shows "schema_ref_from_yson (schema_ref_to_yson r) = Inr r"
proof (cases r)
  case (Inline s)
  obtain fs where fs: "schema_to_yson s = plain (Map fs)" using schema_yson_shape by blast
  show ?thesis using schema_read_back [of s] assms(1) [OF Inline] Inline
    by (simp add: schema_ref_from_yson_def fs reject_attributes_def)
next
  case (Registry name)
  then show ?thesis using assms(2) [OF Registry]
    by (simp add: schema_ref_from_yson_def reject_attributes_def Suc_lessI)
qed

definition registry_wf :: "(bytes \<times> schema) list \<Rightarrow> bool" where
  "registry_wf registry =
     (btree_wf registry \<and> list_all (\<lambda>(name, s). utf8_valid name \<and> schema_utf8 s) registry)"

lemma fold_insert_map:
  "fold (\<lambda>(k, v). btree_insert k (g v)) m acc = btree_extend acc (map (\<lambda>(k, v). (k, g v)) m)"
  unfolding btree_extend_def by (induction m arbitrary: acc) auto

lemma registry_to_yson:
  "btree_wf m \<Longrightarrow> fold (\<lambda>(k, v). btree_insert k (g v)) m [] = map (\<lambda>(k, v). (k, g v)) m"
proof -
  assume "btree_wf m"
  moreover have "map fst (map (\<lambda>(k, v). (k, g v)) m) = map fst m" by (induction m) auto
  ultimately show ?thesis
    unfolding fold_insert_map using btree_extend_sorted [of "[]" "map (\<lambda>(k, v). (k, g v)) m"]
    by (simp add: btree_wf_def del: map_map map_eq_conv)
qed

lemma registry_read_back:
  "btree_wf (acc @ m) \<Longrightarrow> list_all (\<lambda>(name, s). utf8_valid name \<and> schema_utf8 s) m \<Longrightarrow>
   \<forall>(name, s) \<in> set m. schema_validate s = Inr () \<Longrightarrow>
   registry_from_yson (map (\<lambda>(k, v). (k, schema_to_yson v)) m) acc = Inr (acc @ m)"
proof (induction m arbitrary: acc)
  case (Cons kv m)
  obtain name s where kv: "kv = (name, s)" by fastforce
  have "btree_insert name s acc = acc @ [kv]"
    unfolding kv using Cons.prems(1) by (intro btree_insert_last) (auto simp: btree_wf_def kv sorted_wrt_append)
  then show ?case
    using Cons.IH [of "acc @ [kv]"] Cons.prems schema_read_back [of s] by (simp add: kv)
qed simp

definition format_wf :: "skiff_format \<Rightarrow> bool" where
  "format_wf f =
     (registry_wf (schema_registry f) \<and>
      list_all (\<lambda>r. case r of Inline s \<Rightarrow> schema_utf8 s | Registry name \<Rightarrow> utf8_valid name \<and> name \<noteq> [])
        (table_schemas f))"

lemma format_validate_Inr: "format_validate f = Inr u \<longleftrightarrow>
   table_schemas f \<noteq> [] \<and> (\<forall>(name, s) \<in> set (schema_registry f). schema_validate s = Inr ()) \<and>
   (\<forall>i < length (table_schemas f). validate_reference f (i, table_schemas f ! i) = Inr ())"
  by (auto simp: format_validate_def and_then_Inr for_each_Inr in_set_enumerate_eq Ball_def split: if_splits)

lemma validate_reference_Inr: "i < length (table_schemas f) \<Longrightarrow>
   validate_reference f (i, table_schemas f ! i) = Inr u \<Longrightarrow>
   \<exists>s. table_schema f i = Inr s \<and> validate_table_schema s = Inr () \<and>
     (case table_schemas f ! i of Inline s' \<Rightarrow> s' = s \<and> schema_validate s = Inr ()
      | Registry name \<Rightarrow> map_of (schema_registry f) name = Some s)"
  by (auto simp: validate_reference_def and_then_Inr table_schema_def split: schema_ref.splits if_splits)

lemma validated_table_schema:
  assumes "format_validate f = Inr ()" "i < length (table_schemas f)"
  shows "\<exists>s. table_schema f i = Inr s \<and> schema_validate s = Inr () \<and> validate_table_schema s = Inr ()"
proof -
  have reg: "\<forall>(name, s) \<in> set (schema_registry f). schema_validate s = Inr ()"
    and ref: "validate_reference f (i, table_schemas f ! i) = Inr ()"
    using assms by (simp_all add: format_validate_Inr)
  show ?thesis
  proof (cases "table_schemas f ! i")
    case Inline
    then show ?thesis using validate_reference_Inr [OF assms(2) ref] by auto
  next
    case (Registry name)
    then show ?thesis using validate_reference_Inr [OF assms(2) ref] reg by (auto dest: map_of_SomeD)
  qed
qed

lemma format_read_back:
  assumes "format_validate f = Inr ()" "format_wf f"
  shows "format_from_yson (format_to_yson f) = Inr f"
proof -
  have reg: "\<forall>(name, s) \<in> set (schema_registry f). schema_validate s = Inr ()"
    using assms(1) by (simp add: format_validate_Inr)
  have refs: "collect schema_ref_from_yson (map schema_ref_to_yson (table_schemas f)) = Inr (table_schemas f)"
  proof (rule collect_map)
    fix r assume r: "r \<in> set (table_schemas f)"
    then obtain i where i: "i < length (table_schemas f)" "table_schemas f ! i = r" by (auto simp: in_set_conv_nth)
    then have "validate_reference f (i, r) = Inr ()" using assms(1) by (auto simp: format_validate_Inr)
    then have "r = Inline s \<Longrightarrow> schema_validate s = Inr ()" for s
      by (auto simp: validate_reference_def and_then_Inr)
    moreover have "case r of Inline s \<Rightarrow> schema_utf8 s | Registry name \<Rightarrow> utf8_valid name \<and> name \<noteq> []"
      using assms(2) r by (auto simp: format_wf_def list_all_iff)
    ultimately show "schema_ref_from_yson (schema_ref_to_yson r) = Inr r"
      by (intro schema_ref_read_back) auto
  qed
  have wf: "registry_wf (schema_registry f)" using assms(2) by (simp add: format_wf_def)
  have regs: "registry_from_yson (map (\<lambda>(k, v). (k, schema_to_yson v)) (schema_registry f)) [] = Inr (schema_registry f)"
    using registry_read_back [of "[]" "schema_registry f"] wf reg by (auto simp: registry_wf_def)
  have parts: "format_from_parts (table_schemas f) (schema_registry f) = Inr f"
    using assms(1) by (cases f) (simp add: format_from_parts_def)
  show ?thesis
    using refs regs parts registry_to_yson [of "schema_registry f" schema_to_yson] wf
    by (cases "schema_registry f = []")
      (simp_all add: format_to_yson_def format_from_yson_def Let_def field_readers ascii_eq_iff registry_wf_def)
qed

section \<open>Properties\<close>

text \<open>A schema that validates, written as YSON with \<open>Schema::to_yson\<close> and parsed with
  \<open>Schema::from_yson\<close>, is the same schema: every wire type, name and child survives, and no
  check of the parser refuses what the writer wrote.\<close>

theorem schema_yson_roundtrip:
  assumes "schema_validate s = Inr ()" and "schema_utf8 s"
  shows "schema_from_yson (schema_to_yson s) = Inr s"
  using assms by (intro schema_read_back)

definition sample_schema :: schema where
  "sample_schema =
     tuple_schema [named (ascii ''id'') WireType_Int64,
       optional_schema (named (ascii ''note'') WireType_String32),
       Schema WireType_RepeatedVariant8 (Some (ascii ''tags'')) [leaf WireType_Nothing, leaf WireType_Uint8]]"

lemma sample_schema_ok [simp]:
  "schema_validate sample_schema = Inr ()" "schema_utf8 sample_schema"
  "validate_table_schema sample_schema = Inr ()"
  by (simp_all add: sample_schema_def tuple_schema_def named_def optional_schema_def leaf_def
      is_simple_def utf8_valid_ascii ascii_def validate_table_schema_Inr)

lemma schema_yson_roundtrip_witness:
  "schema_from_yson (schema_to_yson sample_schema) = Inr sample_schema"
  by (rule schema_yson_roundtrip) simp_all

text \<open>A format declaration that \<open>Format::from_parts\<close> accepts, written with
  \<open>Format::to_yson\<close> and parsed with \<open>Format::from_yson\<close>, is the same format, its registry and
  its registry references included, as long as no reference names the empty string.\<close>

theorem format_yson_roundtrip:
  assumes "format_from_parts refs registry = Inr f" and "format_wf f"
  shows "format_from_yson (format_to_yson f) = Inr f"
proof -
  have "format_validate f = Inr ()"
    using assms(1) by (auto simp: format_from_parts_def and_then_Inr Let_def)
  then show ?thesis using assms(2) by (rule format_read_back)
qed

definition sample_format :: skiff_format where
  "sample_format =
     \<lparr>table_schemas = [Registry (ascii ''t''), Inline sample_schema],
      schema_registry = [(ascii ''t'', sample_schema)]\<rparr>"

lemma sample_format_ok [simp]: "format_validate sample_format = Inr ()" "format_wf sample_format"
  by (simp_all add: sample_format_def format_validate_def validate_reference_def table_schema_def
      format_wf_def registry_wf_def btree_wf_def utf8_valid_ascii ascii_def)

lemma format_yson_roundtrip_witness:
  "format_from_yson (format_to_yson sample_format) = Inr sample_format"
proof (rule format_yson_roundtrip)
  show "format_from_parts [Registry (ascii ''t''), Inline sample_schema] [(ascii ''t'', sample_schema)] = Inr sample_format"
    using sample_format_ok(1) unfolding sample_format_def format_from_parts_def Let_def by simp
qed simp

text \<open>C38: after \<open>Format::from_yson\<close> accepted a declaration, whatever it was, every table index of
  the format resolves to a schema that is structurally valid, has a tuple root and names each of
  its columns, and every other index is refused as missing.\<close>

theorem parsed_format_resolves:
  assumes "format_from_yson v = Inr f"
  shows "table_schemas f \<noteq> [] \<and>
    (if i < length (table_schemas f)
     then \<exists>s. table_schema f i = Inr s \<and> schema_validate s = Inr () \<and> wire_type_of s = WireType_Tuple \<and>
       (\<forall>c \<in> set (children s). \<exists>n. name_of c = Some n \<and> n \<noteq> [])
     else table_schema f i = Inl (MissingTableSchema i))"
proof -
  have ok: "format_validate f = Inr ()"
    using assms by (auto simp: format_from_yson_def format_from_parts_def and_then_Inr Let_def split: if_splits)
  then have "table_schemas f \<noteq> []" by (simp add: format_validate_Inr)
  moreover have "i < length (table_schemas f) \<Longrightarrow> \<exists>s. table_schema f i = Inr s \<and> schema_validate s = Inr () \<and>
      wire_type_of s = WireType_Tuple \<and> (\<forall>c \<in> set (children s). \<exists>n. name_of c = Some n \<and> n \<noteq> [])"
    using validated_table_schema [OF ok] by (fastforce simp: validate_table_schema_Inr)
  ultimately show ?thesis by (simp add: table_schema_def)
qed

lemma parsed_format_resolves_witness:
  "\<exists>s. table_schema sample_format 1 = Inr s \<and> wire_type_of s = WireType_Tuple"
  using parsed_format_resolves [OF format_read_back [OF sample_format_ok], of 1]
  by (auto simp: sample_format_def)

text \<open>\<open>Format::from_parts\<close> accepts a registry entry and a reference with the empty name, and
  \<open>Format::from_yson\<close> refuses the declaration that format is written as: the reference is the
  bare string \<open>$\<close>.\<close>

theorem empty_registry_name_unreadable:
  "\<exists>f. format_from_parts [Registry []] [([], sample_schema)] = Inr f \<and>
     format_from_yson (format_to_yson f) = Inl InvalidRegistryReference"
proof -
  let ?f = "\<lparr>table_schemas = [Registry []], schema_registry = [([], sample_schema)]\<rparr>"
  have "format_from_parts [Registry []] [([], sample_schema)] = Inr ?f"
    by (simp add: format_from_parts_def format_validate_def validate_reference_def table_schema_def)
  moreover have "format_from_yson (format_to_yson ?f) = Inl InvalidRegistryReference"
    by (simp add: format_to_yson_def format_from_yson_def Let_def field_readers ascii_eq_iff
        schema_ref_from_yson_def)
  ultimately show ?thesis by blast
qed

end
