(* ===== verification/Skiff_Wire.thy ===== *)
theory Skiff_Wire
  imports Interfaces Skiff_Schema
begin

text \<open>
  \<open>crates/ytsaurus-skiff/src/wire.rs\<close>: the encoder of one table's rows and the decoder of a
  multiplexed input stream. A writer is the bytes written so far, a reader the bytes still to
  come, and neither fails of itself (\<open>CodecError::Write\<close>, \<open>CodecError::Read\<close>); a failed write
  keeps the bytes written before the failure, as the code does. The compile-time constant
  \<open>size_of::<Value>()\<close> is the argument \<open>node_cost\<close> of the decoder.
\<close>

section \<open>Values and errors\<close>

definition DEFAULT_MAX_BLOB_BYTES :: nat where "DEFAULT_MAX_BLOB_BYTES = 128 * 1024 * 1024"
definition DEFAULT_MAX_ROW_BYTES :: nat where "DEFAULT_MAX_ROW_BYTES = 256 * 1024 * 1024"

text \<open>\<open>Value\<close>, with the \<open>Variant\<close> struct of a repeated variant's items as a pair.\<close>

datatype skiff_value =
    Skiff_Nothing
  | Skiff_Boolean bool
  | Skiff_Int8 i8
  | Skiff_Int16 i16
  | Skiff_Int32 i32
  | Skiff_Int64 i64
  | Skiff_Int128 i128
  | Skiff_Int256 bytes
  | Skiff_Uint8 u8
  | Skiff_Uint16 u16
  | Skiff_Uint32 u32
  | Skiff_Uint64 u64
  | Skiff_Double f64
  | Skiff_Bytes bytes
  | Skiff_Yson bytes
  | Skiff_Variant u16 skiff_value
  | Skiff_RepeatedVariants "(u16 \<times> skiff_value) list"
  | Skiff_Tuple "skiff_value list"

fun kind :: "skiff_value \<Rightarrow> string" where
  "kind Skiff_Nothing = ''nothing''"
| "kind (Skiff_Boolean _) = ''boolean''"
| "kind (Skiff_Int8 _) = ''int8''"
| "kind (Skiff_Int16 _) = ''int16''"
| "kind (Skiff_Int32 _) = ''int32''"
| "kind (Skiff_Int64 _) = ''int64''"
| "kind (Skiff_Int128 _) = ''int128''"
| "kind (Skiff_Int256 _) = ''int256''"
| "kind (Skiff_Uint8 _) = ''uint8''"
| "kind (Skiff_Uint16 _) = ''uint16''"
| "kind (Skiff_Uint32 _) = ''uint32''"
| "kind (Skiff_Uint64 _) = ''uint64''"
| "kind (Skiff_Double _) = ''double''"
| "kind (Skiff_Bytes _) = ''string32''"
| "kind (Skiff_Yson _) = ''yson32''"
| "kind (Skiff_Variant _ _) = ''variant''"
| "kind (Skiff_RepeatedVariants _) = ''repeated variant''"
| "kind (Skiff_Tuple _) = ''tuple''"

datatype codec_error =
    InvalidSchema schema_error
  | TableSchemaMustBeTuple wire_type
  | Truncated string
  | RowTooLarge nat
  | BlobTooLarge wire_type nat nat
  | ValueDoesNotMatchSchema wire_type string
  | TupleLength nat nat
  | InvalidVariantTag wire_type u16 nat
  | VariantTagTooWide wire_type u16
  | BlobLengthOverflowsU32 wire_type nat

section \<open>Encoding\<close>

text \<open>
  What a call appended to the writer, and the error it then returned, if any; \<open>then_write\<close> is
  \<open>?\<close> followed by the next call.
\<close>

type_synonym written = "bytes \<times> codec_error option"

definition then_write :: "written \<Rightarrow> written \<Rightarrow> written" where
  "then_write w w' = (case w of (bs, Some e) \<Rightarrow> (bs, Some e) | (bs, None) \<Rightarrow> (bs @ fst w', snd w'))"

lemma then_write_simps [simp]:
  "then_write (bs, Some e) w = (bs, Some e)" "then_write (bs, None) w = (bs @ fst w, snd w)"
  by (simp_all add: then_write_def)

lemma then_write_ok: "then_write w w' = (bs, None) \<longleftrightarrow>
   (\<exists>xs ys. w = (xs, None) \<and> w' = (ys, None) \<and> bs = xs @ ys)"
  by (cases w; cases w'; cases "snd w") auto

lemma then_write_cong [fundef_cong]:
  "w = v \<Longrightarrow> (\<And>bs. v = (bs, None) \<Longrightarrow> w' = v') \<Longrightarrow> then_write w w' = then_write v v'"
  by (cases v; cases "snd v") auto

definition write_all :: "bytes \<Rightarrow> written" where
  "write_all bs = (bs, None)"

definition write_failed :: "codec_error \<Rightarrow> written" where
  "write_failed e = ([], Some e)"

text \<open>The last arm of \<open>encode_value\<close>: a value that does not fit its schema node.\<close>

definition mismatch :: "wire_type \<Rightarrow> skiff_value \<Rightarrow> written" where
  "mismatch expected v = write_failed (ValueDoesNotMatchSchema expected (kind v))"

definition is_variant :: "wire_type \<Rightarrow> bool" where
  "is_variant t = (t = WireType_Variant8 \<or> t = WireType_Variant16)"

definition is_repeated_variant :: "wire_type \<Rightarrow> bool" where
  "is_repeated_variant t = (t = WireType_RepeatedVariant8 \<or> t = WireType_RepeatedVariant16)"

definition check_blob_length :: "wire_type \<Rightarrow> nat \<Rightarrow> nat \<Rightarrow> codec_error + unit" where
  "check_blob_length t len max_blob_bytes =
     (if len > max_blob_bytes then Inl (BlobTooLarge t len max_blob_bytes) else Inr ())"

definition variant_child :: "schema \<Rightarrow> u16 \<Rightarrow> codec_error + schema" where
  "variant_child s tag =
     (if unat tag < length (children s) then Inr (children s ! unat tag)
      else Inl (InvalidVariantTag (wire_type_of s) tag (length (children s))))"

text \<open>The tag helpers are only called on variant nodes; elsewhere the code is \<open>unreachable!\<close>.\<close>

definition write_variant_tag :: "wire_type \<Rightarrow> u16 \<Rightarrow> written" where
  "write_variant_tag t tag =
     (if t \<in> {WireType_Variant8, WireType_RepeatedVariant8} then
        (if tag \<le> 0xFF then write_all [ucast tag] else write_failed (VariantTagTooWide t tag))
      else write_all (to_le tag))"

definition write_repeated_variant_end :: "wire_type \<Rightarrow> written" where
  "write_repeated_variant_end t =
     (if t = WireType_RepeatedVariant8 then write_all [0xFF] else write_all (to_le (0xFFFF :: u16)))"

definition write_blob :: "wire_type \<Rightarrow> bytes \<Rightarrow> nat \<Rightarrow> written" where
  "write_blob t v max_blob_bytes =
     (case check_blob_length t (length v) max_blob_bytes of
        Inl e \<Rightarrow> write_failed e
      | Inr _ \<Rightarrow>
          (if length v < 2 ^ 32
           then then_write (write_all (to_le (of_nat (length v) :: u32))) (write_all v)
           else write_failed (BlobLengthOverflowsU32 t (length v))))"

text \<open>The arms of \<open>encode_value\<close> without children.\<close>

definition encode_scalar :: "wire_type \<Rightarrow> skiff_value \<Rightarrow> nat \<Rightarrow> written" where
  "encode_scalar t v mb =
     (case v of
        Skiff_Nothing \<Rightarrow> if t = WireType_Nothing then write_all [] else mismatch t v
      | Skiff_Boolean x \<Rightarrow> if t = WireType_Boolean then write_all [if x then 1 else 0] else mismatch t v
      | Skiff_Int8 x \<Rightarrow> if t = WireType_Int8 then write_all (to_le x) else mismatch t v
      | Skiff_Int16 x \<Rightarrow> if t = WireType_Int16 then write_all (to_le x) else mismatch t v
      | Skiff_Int32 x \<Rightarrow> if t = WireType_Int32 then write_all (to_le x) else mismatch t v
      | Skiff_Int64 x \<Rightarrow> if t = WireType_Int64 then write_all (to_le x) else mismatch t v
      | Skiff_Int128 x \<Rightarrow> if t = WireType_Int128 then write_all (to_le x) else mismatch t v
      | Skiff_Int256 x \<Rightarrow> if t = WireType_Int256 then write_all x else mismatch t v
      | Skiff_Uint8 x \<Rightarrow> if t = WireType_Uint8 then write_all (to_le x) else mismatch t v
      | Skiff_Uint16 x \<Rightarrow> if t = WireType_Uint16 then write_all (to_le x) else mismatch t v
      | Skiff_Uint32 x \<Rightarrow> if t = WireType_Uint32 then write_all (to_le x) else mismatch t v
      | Skiff_Uint64 x \<Rightarrow> if t = WireType_Uint64 then write_all (to_le x) else mismatch t v
      | Skiff_Double x \<Rightarrow> if t = WireType_Double then write_all (to_le x) else mismatch t v
      | Skiff_Bytes x \<Rightarrow> if t = WireType_String32 then write_blob t x mb else mismatch t v
      | Skiff_Yson x \<Rightarrow> if t = WireType_Yson32 then write_blob t x mb else mismatch t v
      | _ \<Rightarrow> mismatch t v)"

function encode_value :: "schema \<Rightarrow> skiff_value \<Rightarrow> nat \<Rightarrow> written"
  and encode_items :: "schema \<Rightarrow> (u16 \<times> skiff_value) list \<Rightarrow> nat \<Rightarrow> written"
  and encode_tuple :: "schema list \<Rightarrow> skiff_value list \<Rightarrow> nat \<Rightarrow> written"
where
  "encode_value s v mb =
     (case v of
        Skiff_Variant tag x \<Rightarrow>
          (if is_variant (wire_type_of s) then
             (case variant_child s tag of
                Inl e \<Rightarrow> write_failed e
              | Inr child \<Rightarrow> then_write (write_variant_tag (wire_type_of s) tag) (encode_value child x mb))
           else mismatch (wire_type_of s) v)
      | Skiff_RepeatedVariants items \<Rightarrow>
          (if is_repeated_variant (wire_type_of s) then
             then_write (encode_items s items mb) (write_repeated_variant_end (wire_type_of s))
           else mismatch (wire_type_of s) v)
      | Skiff_Tuple vs \<Rightarrow>
          (if wire_type_of s = WireType_Tuple then
             (if length vs \<noteq> length (children s) then write_failed (TupleLength (length (children s)) (length vs))
              else encode_tuple (children s) vs mb)
           else mismatch (wire_type_of s) v)
      | _ \<Rightarrow> encode_scalar (wire_type_of s) v mb)"
| "encode_items s [] mb = write_all []"
| "encode_items s ((tag, x) # items) mb =
     (case variant_child s tag of
        Inl e \<Rightarrow> write_failed e
      | Inr child \<Rightarrow>
          then_write (write_variant_tag (wire_type_of s) tag)
            (then_write (encode_value child x mb) (encode_items s items mb)))"
| "encode_tuple (c # cs) (v # vs) mb = then_write (encode_value c v mb) (encode_tuple cs vs mb)"
| "encode_tuple [] vs mb = write_all []"
| "encode_tuple cs [] mb = write_all []"
  by pat_completeness auto
termination
  by (relation "measure (\<lambda>x. case x of
      Inl (s, v, mb) \<Rightarrow> size v
    | Inr (Inl (s, items, mb)) \<Rightarrow> size_list (size_prod (\<lambda>_. 0) size) items
    | Inr (Inr (cs, vs, mb)) \<Rightarrow> size_list size vs)") auto

declare encode_value.simps [simp del]

section \<open>Decoding\<close>

record row_budget =
  max_blob :: nat
  row_limit :: nat
  remaining :: nat

definition budget_new :: "nat \<Rightarrow> nat \<Rightarrow> row_budget" where
  "budget_new max_blob_bytes max_row_bytes =
     \<lparr>max_blob = max_blob_bytes, row_limit = max_row_bytes, remaining = max_row_bytes\<rparr>"

text \<open>\<open>RowBudget::charge\<close>, with \<open>checked_sub\<close>.\<close>

definition charge :: "row_budget \<Rightarrow> nat \<Rightarrow> codec_error + row_budget" where
  "charge b n =
     (if n \<le> remaining b then Inr (b\<lparr>remaining := remaining b - n\<rparr>) else Inl (RowTooLarge (row_limit b)))"

text \<open>
  \<open>read_exact\<close>, \<open>read_byte\<close> and \<open>read_array\<close>: the bytes read and the rest of the stream.
\<close>

definition read_exact :: "bytes \<Rightarrow> nat \<Rightarrow> string \<Rightarrow> codec_error + bytes \<times> bytes" where
  "read_exact input n ctx =
     (if n \<le> length input then Inr (take n input, drop n input) else Inl (Truncated ctx))"

definition read_byte :: "bytes \<Rightarrow> string \<Rightarrow> codec_error + u8 \<times> bytes" where
  "read_byte input ctx = and_then (read_exact input 1 ctx) (\<lambda>(bs, rest). Inr (hd bs, rest))"

definition read_le :: "bytes \<Rightarrow> string \<Rightarrow> codec_error + 'a::len word \<times> bytes" where
  "read_le input ctx = and_then (read_exact input (LENGTH('a) div 8) ctx) (\<lambda>(bs, rest). Inr (from_le bs, rest))"

text \<open>\<open>skip_exact\<close>: what \<open>io::copy\<close> of at most \<open>n\<close> bytes left, if it found them all.\<close>

definition skip_exact :: "bytes \<Rightarrow> nat \<Rightarrow> string \<Rightarrow> codec_error + bytes" where
  "skip_exact input n ctx =
     (let skipped = length (take n input)
      in if skipped \<noteq> n then Inl (Truncated ctx) else Inr (drop n input))"

definition read_variant_tag :: "bytes \<Rightarrow> wire_type \<Rightarrow> codec_error + u16 \<times> bytes" where
  "read_variant_tag input t =
     (if t \<in> {WireType_Variant8, WireType_RepeatedVariant8} then
        and_then (read_byte input ''variant8 tag'') (\<lambda>(b, rest). Inr (ucast b, rest))
      else read_le input ''variant16 tag'')"

definition is_repeated_variant_end :: "wire_type \<Rightarrow> u16 \<Rightarrow> bool" where
  "is_repeated_variant_end t tag =
     (if t = WireType_RepeatedVariant8 then tag = 0xFF else tag = 0xFFFF)"

definition blob_length :: "bytes \<Rightarrow> wire_type \<Rightarrow> row_budget \<Rightarrow> codec_error + nat \<times> bytes \<times> row_budget" where
  "blob_length input t b =
     and_then (read_le input ''blob length'') (\<lambda>(n :: u32, rest).
     and_then (check_blob_length t (unat n) (max_blob b)) (\<lambda>_.
     and_then (charge b (unat n)) (\<lambda>b'. Inr (unat n, rest, b'))))"

definition read_blob :: "bytes \<Rightarrow> wire_type \<Rightarrow> row_budget \<Rightarrow> codec_error + bytes \<times> bytes \<times> row_budget" where
  "read_blob input t b =
     and_then (blob_length input t b) (\<lambda>(n, rest, b').
     and_then (read_exact rest n ''blob payload'') (\<lambda>(v, rest'). Inr (v, rest', b')))"

definition skip_blob :: "bytes \<Rightarrow> wire_type \<Rightarrow> row_budget \<Rightarrow> codec_error + bytes \<times> row_budget" where
  "skip_blob input t b =
     and_then (blob_length input t b) (\<lambda>(n, rest, b').
     and_then (skip_exact rest n ''blob payload'') (\<lambda>rest'. Inr (rest', b')))"

text \<open>A read of a fixed-width value: the constructor is applied to the integer read.\<close>

definition decode_word :: "bytes \<Rightarrow> string \<Rightarrow> row_budget \<Rightarrow> ('a::len word \<Rightarrow> skiff_value) \<Rightarrow> codec_error + skiff_value \<times> bytes \<times> row_budget" where
  "decode_word input ctx b mk = and_then (read_le input ctx) (\<lambda>(w, rest). Inr (mk w, rest, b))"

lemma read_exact_Inr: "read_exact input n ctx = Inr (bs, rest) \<longleftrightarrow>
   n \<le> length input \<and> bs = take n input \<and> rest = drop n input"
  by (auto simp: read_exact_def)

lemma variant_child_size: "variant_child s tag = Inr c \<Longrightarrow> size c < size s"
proof -
  assume "variant_child s tag = Inr c"
  then have "c \<in> set (children s)" by (auto simp: variant_child_def split: if_splits)
  then show ?thesis using size_list_estimation' [of c "children s" "size c" size] by (cases s) simp
qed

lemma children_size [simp]: "2 * size_list size (children s) < Suc (2 * size s)"
  by (cases s) simp

lemma read_variant_tag_length: "read_variant_tag input t = Inr (tag, rest) \<Longrightarrow> length rest < length input"
  by (auto simp: read_variant_tag_def read_byte_def read_le_def and_then_Inr read_exact_Inr split: if_splits)

text \<open>The arms of \<open>decode_value\<close> without children; the other types are handled before it.\<close>

definition decode_scalar :: "wire_type \<Rightarrow> bytes \<Rightarrow> row_budget \<Rightarrow> codec_error + skiff_value \<times> bytes \<times> row_budget" where
  "decode_scalar t input b =
     (case t of
        WireType_Boolean \<Rightarrow>
          and_then (read_byte input ''boolean'') (\<lambda>(x, rest). Inr (Skiff_Boolean (x \<noteq> 0), rest, b))
      | WireType_Int8 \<Rightarrow> decode_word input ''int8'' b Skiff_Int8
      | WireType_Int16 \<Rightarrow> decode_word input ''int16'' b Skiff_Int16
      | WireType_Int32 \<Rightarrow> decode_word input ''int32'' b Skiff_Int32
      | WireType_Int64 \<Rightarrow> decode_word input ''int64'' b Skiff_Int64
      | WireType_Int128 \<Rightarrow> decode_word input ''int128'' b Skiff_Int128
      | WireType_Int256 \<Rightarrow>
          and_then (read_exact input 32 ''int256'') (\<lambda>(x, rest). Inr (Skiff_Int256 x, rest, b))
      | WireType_Uint8 \<Rightarrow>
          and_then (read_byte input ''uint8'') (\<lambda>(x, rest). Inr (Skiff_Uint8 x, rest, b))
      | WireType_Uint16 \<Rightarrow> decode_word input ''uint16'' b Skiff_Uint16
      | WireType_Uint32 \<Rightarrow> decode_word input ''uint32'' b Skiff_Uint32
      | WireType_Uint64 \<Rightarrow> decode_word input ''uint64'' b Skiff_Uint64
      | WireType_Double \<Rightarrow> decode_word input ''double'' b Skiff_Double
      | WireType_String32 \<Rightarrow>
          and_then (read_blob input t b) (\<lambda>(x, rest, b'). Inr (Skiff_Bytes x, rest, b'))
      | WireType_Yson32 \<Rightarrow>
          and_then (read_blob input t b) (\<lambda>(x, rest, b'). Inr (Skiff_Yson x, rest, b'))
      | _ \<Rightarrow> Inr (Skiff_Nothing, input, b))"

function decode_value :: "nat \<Rightarrow> schema \<Rightarrow> bytes \<Rightarrow> row_budget \<Rightarrow> codec_error + skiff_value \<times> bytes \<times> row_budget"
  and decode_items :: "nat \<Rightarrow> schema \<Rightarrow> bytes \<Rightarrow> row_budget \<Rightarrow> codec_error + (u16 \<times> skiff_value) list \<times> bytes \<times> row_budget"
  and decode_tuple :: "nat \<Rightarrow> schema list \<Rightarrow> bytes \<Rightarrow> row_budget \<Rightarrow> codec_error + skiff_value list \<times> bytes \<times> row_budget"
where
  "decode_value node_cost s input budget =
     and_then (charge budget node_cost) (\<lambda>b.
       if is_variant (wire_type_of s) then
         and_then (read_variant_tag input (wire_type_of s)) (\<lambda>(tag, rest).
         and_then (variant_child s tag) (\<lambda>child.
         and_then (decode_value node_cost child rest b) (\<lambda>(v, rest', b'). Inr (Skiff_Variant tag v, rest', b'))))
       else if is_repeated_variant (wire_type_of s) then
         and_then (decode_items node_cost s input b) (\<lambda>(items, rest, b'). Inr (Skiff_RepeatedVariants items, rest, b'))
       else if wire_type_of s = WireType_Tuple then
         and_then (decode_tuple node_cost (children s) input b) (\<lambda>(vs, rest, b'). Inr (Skiff_Tuple vs, rest, b'))
       else decode_scalar (wire_type_of s) input b)"
| "decode_items node_cost s input b =
     and_then (read_variant_tag input (wire_type_of s)) (\<lambda>(tag, rest).
       if is_repeated_variant_end (wire_type_of s) tag then Inr ([], rest, b)
       else
         and_then (variant_child s tag) (\<lambda>child.
         and_then (decode_value node_cost child rest b) (\<lambda>(v, rest', b').
         and_then (decode_items node_cost s rest' b') (\<lambda>(items, rest'', b'').
           Inr ((tag, v) # items, rest'', b'')))))"
| "decode_tuple node_cost [] input b = Inr ([], input, b)"
| "decode_tuple node_cost (c # cs) input b =
     and_then (decode_value node_cost c input b) (\<lambda>(v, rest, b').
     and_then (decode_tuple node_cost cs rest b') (\<lambda>(vs, rest', b''). Inr (v # vs, rest', b'')))"
  by pat_completeness auto

lemma decode_scalar_length: "decode_scalar t input b = Inr (v, rest, b') \<Longrightarrow> length rest \<le> length input"
  by (cases t) (auto simp: decode_scalar_def decode_word_def read_byte_def read_le_def read_blob_def
      blob_length_def and_then_Inr read_exact_Inr)

lemma decode_length_dom:
  "decode_value_decode_items_decode_tuple_dom (Inl (nc, s, input, b)) \<Longrightarrow>
     decode_value nc s input b = Inr (v, rest, b') \<Longrightarrow> length rest \<le> length input"
  "decode_value_decode_items_decode_tuple_dom (Inr (Inl (nc, s, input, b))) \<Longrightarrow>
     decode_items nc s input b = Inr (items, rest, b') \<Longrightarrow> length rest \<le> length input"
  "decode_value_decode_items_decode_tuple_dom (Inr (Inr (nc, cs, input, b))) \<Longrightarrow>
     decode_tuple nc cs input b = Inr (vs, rest, b') \<Longrightarrow> length rest \<le> length input"
proof (induction arbitrary: v rest b' and items rest b' and vs rest b'
    rule: decode_value_decode_items_decode_tuple.pinduct)
  case (1 nc s input b)
  obtain b1 where c: "charge b nc = Inr b1" using 1(1,5) by (auto simp: decode_value.psimps and_then_Inr)
  consider (var) "is_variant (wire_type_of s)" | (rep) "\<not> is_variant (wire_type_of s)" "is_repeated_variant (wire_type_of s)"
    | (tup) "\<not> is_variant (wire_type_of s)" "\<not> is_repeated_variant (wire_type_of s)" "wire_type_of s = WireType_Tuple"
    | (sca) "\<not> is_variant (wire_type_of s)" "\<not> is_repeated_variant (wire_type_of s)" "wire_type_of s \<noteq> WireType_Tuple"
    by blast
  then show ?case
  proof cases
    case var
    then obtain tag r1 child x r2 b2 where t: "read_variant_tag input (wire_type_of s) = Inr (tag, r1)"
      and ch: "variant_child s tag = Inr child" and v: "decode_value nc child r1 b1 = Inr (x, r2, b2)" "rest = r2"
      using 1(1,5) c by (auto simp: decode_value.psimps and_then_Inr)
    show ?thesis using 1(2) [OF c var t refl ch v(1)] read_variant_tag_length [OF t] v(2) by simp
  next
    case rep
    then obtain xs where v: "decode_items nc s input b1 = Inr (xs, rest, b')"
      using 1(1,5) c by (auto simp: decode_value.psimps and_then_Inr)
    show ?thesis by (rule 1(3) [OF c rep v])
  next
    case tup
    then obtain xs where v: "decode_tuple nc (children s) input b1 = Inr (xs, rest, b')"
      using 1(1,5) c by (auto simp: decode_value.psimps and_then_Inr)
    show ?thesis by (rule 1(4) [OF c tup v])
  next
    case sca
    then show ?thesis using 1(1,5) c decode_scalar_length by (auto simp: decode_value.psimps)
  qed
next
  case (2 nc s input b)
  obtain tag r1 where t: "read_variant_tag input (wire_type_of s) = Inr (tag, r1)"
    using 2(1,4) by (auto simp: decode_items.psimps and_then_Inr)
  show ?case
  proof (cases "is_repeated_variant_end (wire_type_of s) tag")
    case True
    then show ?thesis using 2(1,4) t read_variant_tag_length [OF t] by (simp add: decode_items.psimps)
  next
    case False
    then obtain child x r2 b2 xs where ch: "variant_child s tag = Inr child"
      and v: "decode_value nc child r1 b = Inr (x, r2, b2)" and r: "decode_items nc s r2 b2 = Inr (xs, rest, b')"
      using 2(1,4) t by (auto simp: decode_items.psimps and_then_Inr)
    show ?thesis using 2(2) [OF t refl False ch v] 2(3) [OF t refl False ch v refl refl r] read_variant_tag_length [OF t]
      by simp
  qed
next
  case (4 nc c cs input b)
  obtain x r1 b1 xs where v: "decode_value nc c input b = Inr (x, r1, b1)"
    and r: "decode_tuple nc cs r1 b1 = Inr (xs, rest, b')"
    using 4(1,4) by (auto simp: decode_tuple.psimps and_then_Inr)
  show ?case using 4(2) [OF v] 4(3) [OF v refl refl r] by simp
qed (simp add: decode_tuple.psimps)

lemma decode_terminates: "All decode_value_decode_items_decode_tuple_dom"
proof (relation "measures [\<lambda>x. case x of
      Inl (nc, s, input, b) \<Rightarrow> 2 * size s + 1
    | Inr (Inl (nc, s, input, b)) \<Rightarrow> 2 * size s
    | Inr (Inr (nc, cs, input, b)) \<Rightarrow> 2 * size_list size cs,
    \<lambda>x. case x of
      Inl (nc, s, input, b) \<Rightarrow> length input
    | Inr (Inl (nc, s, input, b)) \<Rightarrow> length input
    | Inr (Inr (nc, cs, input, b)) \<Rightarrow> length input]", goal_cases)
qed (auto dest!: variant_child_size read_variant_tag_length decode_length_dom(1)
    intro: le_less_trans)

termination decode_value by (rule decode_terminates)

declare decode_value.simps [simp del] decode_items.simps [simp del]

section \<open>Skipping\<close>

text \<open>\<open>wire.rs\<close>'s own \<open>fixed_width\<close>: the width and the truncation context of a fixed-size type.\<close>

fun fixed_width :: "wire_type \<Rightarrow> (nat \<times> string) option" where
  "fixed_width WireType_Boolean = Some (1, ''boolean'')"
| "fixed_width WireType_Int8 = Some (1, ''int8'')"
| "fixed_width WireType_Int16 = Some (2, ''int16'')"
| "fixed_width WireType_Int32 = Some (4, ''int32'')"
| "fixed_width WireType_Int64 = Some (8, ''int64'')"
| "fixed_width WireType_Int128 = Some (16, ''int128'')"
| "fixed_width WireType_Int256 = Some (32, ''int256'')"
| "fixed_width WireType_Uint8 = Some (1, ''uint8'')"
| "fixed_width WireType_Uint16 = Some (2, ''uint16'')"
| "fixed_width WireType_Uint32 = Some (4, ''uint32'')"
| "fixed_width WireType_Uint64 = Some (8, ''uint64'')"
| "fixed_width WireType_Double = Some (8, ''double'')"
| "fixed_width _ = None"

function skip_value :: "nat \<Rightarrow> schema \<Rightarrow> bytes \<Rightarrow> row_budget \<Rightarrow> codec_error + bytes \<times> row_budget"
  and skip_items :: "nat \<Rightarrow> schema \<Rightarrow> bytes \<Rightarrow> row_budget \<Rightarrow> codec_error + bytes \<times> row_budget"
  and skip_children :: "nat \<Rightarrow> schema list \<Rightarrow> bytes \<Rightarrow> row_budget \<Rightarrow> codec_error + bytes \<times> row_budget"
where
  "skip_value node_cost s input budget =
     and_then (charge budget node_cost) (\<lambda>b.
       case fixed_width (wire_type_of s) of
         Some (width, ctx) \<Rightarrow> and_then (skip_exact input width ctx) (\<lambda>rest. Inr (rest, b))
       | None \<Rightarrow>
           if wire_type_of s = WireType_Nothing then Inr (input, b)
           else if wire_type_of s \<in> {WireType_String32, WireType_Yson32} then skip_blob input (wire_type_of s) b
           else if is_variant (wire_type_of s) then
             and_then (read_variant_tag input (wire_type_of s)) (\<lambda>(tag, rest).
             and_then (variant_child s tag) (\<lambda>child. skip_value node_cost child rest b))
           else if is_repeated_variant (wire_type_of s) then skip_items node_cost s input b
           else skip_children node_cost (children s) input b)"
| "skip_items node_cost s input b =
     and_then (read_variant_tag input (wire_type_of s)) (\<lambda>(tag, rest).
       if is_repeated_variant_end (wire_type_of s) tag then Inr (rest, b)
       else
         and_then (variant_child s tag) (\<lambda>child.
         and_then (skip_value node_cost child rest b) (\<lambda>(rest', b'). skip_items node_cost s rest' b')))"
| "skip_children node_cost [] input b = Inr (input, b)"
| "skip_children node_cost (c # cs) input b =
     and_then (skip_value node_cost c input b) (\<lambda>(rest, b'). skip_children node_cost cs rest b')"
  by pat_completeness auto

text \<open>What a decoder and its skipping twin agree on: the rest of the stream and the budget.\<close>

definition position :: "codec_error + 'a \<times> bytes \<times> row_budget \<Rightarrow> codec_error + bytes \<times> row_budget" where
  "position r = and_then r (\<lambda>(_, rest, b). Inr (rest, b))"

lemma position_simps [simp]: "position (Inl e) = Inl e" "position (Inr (v, rest, b)) = Inr (rest, b)"
  by (simp_all add: position_def)

lemma position_and_then: "position (and_then r f) = and_then r (\<lambda>x. position (f x))"
  by (cases r) simp_all

lemma position_wrap: "position (and_then r (\<lambda>(v, rest, b). Inr (f v, rest, b))) = position r"
  by (cases r) auto

lemma and_then_position: "and_then r (\<lambda>(v, rest, b). g rest b) = and_then (position r) (\<lambda>(rest, b). g rest b)"
  by (cases r) auto

lemma skip_exact_read: "skip_exact input n ctx = and_then (read_exact input n ctx) (\<lambda>(_, rest). Inr rest)"
  by (simp add: skip_exact_def read_exact_def min_def)

lemma skip_scalar:
  assumes "\<not> is_variant t" "\<not> is_repeated_variant t" "t \<noteq> WireType_Tuple"
  shows "position (decode_scalar t input b) =
    (case fixed_width t of
       Some (width, ctx) \<Rightarrow> and_then (skip_exact input width ctx) (\<lambda>rest. Inr (rest, b))
     | None \<Rightarrow> if t = WireType_Nothing then Inr (input, b) else skip_blob input t b)"
proof (cases "t \<in> {WireType_String32, WireType_Yson32}")
  case True
  then have "position (decode_scalar t input b) = position (read_blob input t b)"
    by (auto simp: decode_scalar_def position_wrap)
  also have "\<dots> = skip_blob input t b"
    by (auto simp: read_blob_def skip_blob_def skip_exact_read read_exact_def position_and_then
        intro!: arg_cong [where f = "and_then (blob_length input t b)"])
  finally show ?thesis using True by auto
next
  case False
  then show ?thesis using assms
    by (cases t) (simp_all add: decode_scalar_def decode_word_def read_byte_def read_le_def
        skip_exact_def read_exact_def is_variant_def is_repeated_variant_def min_def)
qed

lemma skip_decode_dom:
  "skip_value_skip_items_skip_children_dom (Inl (nc, s, input, b)) \<Longrightarrow>
     skip_value nc s input b = position (decode_value nc s input b)"
  "skip_value_skip_items_skip_children_dom (Inr (Inl (nc, s, input, b))) \<Longrightarrow>
     skip_items nc s input b = position (decode_items nc s input b)"
  "skip_value_skip_items_skip_children_dom (Inr (Inr (nc, cs, input, b))) \<Longrightarrow>
     skip_children nc cs input b = position (decode_tuple nc cs input b)"
proof (induction rule: skip_value_skip_items_skip_children.pinduct)
  case (1 nc s input b)
  let ?t = "wire_type_of s"
  note dv = decode_value.simps [of nc s input b] and sv = skip_value.psimps [OF 1(1)]
  show ?case
  proof (cases "charge b nc")
    case (Inl e)
    then show ?thesis by (simp add: dv sv)
  next
    case (Inr b1)
    consider (var) "is_variant ?t" | (rep) "\<not> is_variant ?t" "is_repeated_variant ?t"
      | (tup) "\<not> is_variant ?t" "\<not> is_repeated_variant ?t" "?t = WireType_Tuple"
      | (sca) "\<not> is_variant ?t" "\<not> is_repeated_variant ?t" "?t \<noteq> WireType_Tuple" by blast
    then show ?thesis
    proof cases
      case var
      then have f: "fixed_width ?t = None" "?t \<noteq> WireType_Nothing" "?t \<notin> {WireType_String32, WireType_Yson32}"
        by (auto simp: is_variant_def)
      have IH: "skip_value nc child rest b1 = position (decode_value nc child rest b1)"
        if "read_variant_tag input ?t = Inr (tag, rest)" "variant_child s tag = Inr child" for tag rest child
        using 1(2) [OF Inr f var that(1) refl that(2)] .
      show ?thesis
      proof (cases "read_variant_tag input ?t")
        case (Inr tr)
        obtain tag rest where tr: "tr = (tag, rest)" by fastforce
        show ?thesis using Inr tr var f IH \<open>charge b nc = Inr b1\<close>
          by (cases "variant_child s tag") (simp_all add: dv sv position_wrap)
      qed (use var f Inr in \<open>simp add: dv sv\<close>)
    next
      case rep
      then have f: "fixed_width ?t = None" "?t \<noteq> WireType_Nothing" "?t \<notin> {WireType_String32, WireType_Yson32}"
        by (auto simp: is_repeated_variant_def)
      show ?thesis using Inr rep f 1(3) [OF Inr f rep] by (simp add: dv sv position_wrap)
    next
      case tup
      have f: "fixed_width ?t = None" "?t \<noteq> WireType_Nothing" "?t \<notin> {WireType_String32, WireType_Yson32}"
        using tup(3) by auto
      show ?thesis using Inr tup f 1(4) [OF Inr f tup(1,2)] by (simp add: dv sv position_wrap)
    next
      case sca
      then show ?thesis using Inr by (cases ?t) (auto simp: dv sv skip_scalar is_variant_def is_repeated_variant_def)
    qed
  qed
next
  case (2 nc s input b)
  note di = decode_items.simps [of nc s input b] and si = skip_items.psimps [OF 2(1)]
  show ?case
  proof (cases "read_variant_tag input (wire_type_of s)")
    case (Inr tr)
    obtain tag rest where tr: "tr = (tag, rest)" by fastforce
    show ?thesis
    proof (cases "is_repeated_variant_end (wire_type_of s) tag")
      case False
      show ?thesis
      proof (cases "variant_child s tag")
        case child: (Inr child)
        have v: "skip_value nc child rest b = position (decode_value nc child rest b)"
          using 2(2) [OF Inr [unfolded tr] refl False child] .
        show ?thesis
        proof (cases "decode_value nc child rest b")
          case dv: (Inr x)
          obtain w r b' where x: "x = (w, r, b')" by (cases x)
          have "skip_items nc s r b' = position (decode_items nc s r b')"
            using 2(3) [OF Inr [unfolded tr] refl False child, of "(r, b')"] v dv x by simp
          then show ?thesis using Inr tr False child v dv x
            by (simp add: di si position_and_then position_wrap)
              (simp add: position_def split_def)
        qed (use Inr tr False child v in \<open>simp add: di si\<close>)
      qed (use Inr tr False in \<open>simp add: di si\<close>)
    qed (use Inr tr in \<open>simp add: di si\<close>)
  qed (simp add: di si)
next
  case (4 nc c cs input b)
  show ?case
  proof (cases "decode_value nc c input b")
    case dv: (Inr x)
    obtain w r b' where x: "x = (w, r, b')" by (cases x)
    have "skip_children nc cs r b' = position (decode_tuple nc cs r b')"
      using 4(3) [of "(r, b')"] 4(2) dv x by simp
    then show ?thesis using 4(1,2) dv x
      by (simp add: skip_children.psimps position_and_then) (simp add: position_def split_def)
  qed (use 4(1,2) in \<open>simp add: skip_children.psimps\<close>)
qed (simp add: skip_children.psimps)

lemma skip_terminates: "All skip_value_skip_items_skip_children_dom"
proof (relation "measures [\<lambda>x. case x of
      Inl (nc, s, input, b) \<Rightarrow> 2 * size s + 1
    | Inr (Inl (nc, s, input, b)) \<Rightarrow> 2 * size s
    | Inr (Inr (nc, cs, input, b)) \<Rightarrow> 2 * size_list size cs,
    \<lambda>x. case x of
      Inl (nc, s, input, b) \<Rightarrow> length input
    | Inr (Inl (nc, s, input, b)) \<Rightarrow> length input
    | Inr (Inr (nc, cs, input, b)) \<Rightarrow> length input]", goal_cases)
  case (6 nc s input b x tag rest child y rest' b')
  then have "position (decode_value nc child rest b) = Inr (rest', b')" using skip_decode_dom(1) by auto
  then have "length rest' \<le> length rest"
    by (auto simp: position_def and_then_Inr dest: decode_length_dom(1) [OF decode_terminates [rule_format]])
  then show ?case using 6 by (auto dest!: read_variant_tag_length)
qed (auto dest!: variant_child_size)

termination skip_value by (rule skip_terminates)

declare skip_value.simps [simp del] skip_items.simps [simp del]

lemmas skip_decode = skip_decode_dom [OF skip_terminates [rule_format]]

section \<open>Decoding what was encoded\<close>

text \<open>What the budget is charged for a value: one node each, plus the payloads.\<close>

fun footprint :: "nat \<Rightarrow> skiff_value \<Rightarrow> nat"
  and footprint_items :: "nat \<Rightarrow> (u16 \<times> skiff_value) list \<Rightarrow> nat"
  and footprint_tuple :: "nat \<Rightarrow> skiff_value list \<Rightarrow> nat"
where
  "footprint nc (Skiff_Bytes bs) = nc + length bs"
| "footprint nc (Skiff_Yson bs) = nc + length bs"
| "footprint nc (Skiff_Variant _ v) = nc + footprint nc v"
| "footprint nc (Skiff_RepeatedVariants items) = nc + footprint_items nc items"
| "footprint nc (Skiff_Tuple vs) = nc + footprint_tuple nc vs"
| "footprint nc _ = nc"
| "footprint_items nc [] = 0"
| "footprint_items nc ((_, v) # items) = footprint nc v + footprint_items nc items"
| "footprint_tuple nc [] = 0"
| "footprint_tuple nc (v # vs) = footprint nc v + footprint_tuple nc vs"

text \<open>The array type of \<open>Value::Int256\<close> holds 32 bytes.\<close>

fun skiff_wf :: "skiff_value \<Rightarrow> bool"
  and skiff_wf_items :: "(u16 \<times> skiff_value) list \<Rightarrow> bool"
  and skiff_wf_tuple :: "skiff_value list \<Rightarrow> bool"
where
  "skiff_wf (Skiff_Int256 bs) = (length bs = 32)"
| "skiff_wf (Skiff_Variant _ v) = skiff_wf v"
| "skiff_wf (Skiff_RepeatedVariants items) = skiff_wf_items items"
| "skiff_wf (Skiff_Tuple vs) = skiff_wf_tuple vs"
| "skiff_wf _ = True"
| "skiff_wf_items [] = True"
| "skiff_wf_items ((_, v) # items) = (skiff_wf v \<and> skiff_wf_items items)"
| "skiff_wf_tuple [] = True"
| "skiff_wf_tuple (v # vs) = (skiff_wf v \<and> skiff_wf_tuple vs)"

text \<open>A result that costs \<open>n\<close> of the budget, or the error if it is not there.\<close>

definition spend :: "nat \<Rightarrow> row_budget \<Rightarrow> 'a \<Rightarrow> bytes \<Rightarrow> codec_error + 'a \<times> bytes \<times> row_budget" where
  "spend n b x rest =
     (if n \<le> remaining b then Inr (x, rest, b\<lparr>remaining := remaining b - n\<rparr>) else Inl (RowTooLarge (row_limit b)))"

lemma spend_0 [simp]: "spend 0 b x rest = Inr (x, rest, b)"
  by (simp add: spend_def)

lemma charge_spend: "and_then (charge b n) (\<lambda>b'. spend m b' x rest) = spend (n + m) b x rest"
  by (auto simp: charge_def spend_def diff_diff_left)

lemma spend_wrap: "and_then (spend n b x rest) (\<lambda>(y, r, b'). Inr (f y, r, b')) = spend n b (f x) rest"
  by (simp add: spend_def)

lemma spend_spend:
  "and_then (spend n b x r) (\<lambda>(u, r', b'). and_then (spend m b' y rest) (\<lambda>(w, r'', b''). Inr (f u w, r'', b'')))
   = spend (n + m) b (f x y) rest"
  by (auto simp: spend_def diff_diff_left)

lemma max_blob_spend [simp]: "max_blob (b\<lparr>remaining := n\<rparr>) = max_blob b"
  by simp

lemma read_exact_append: "n = length bs \<Longrightarrow> read_exact (bs @ rest) n ctx = Inr (bs, rest)"
  by (simp add: read_exact_def)

lemma to_le_u8: "to_le (x :: u8) = [x]"
  using from_le_to_le_words(1) [of x] to_le_from_le [of "[x]", where 'a = 8]
  by (simp add: to_le_def word_unat_eq_iff unat_of_nat)

lemma read_byte_Cons [simp]: "read_byte (x # rest) ctx = Inr (x, rest)"
  by (simp add: read_byte_def read_exact_def)

lemma read_le_append:
  "8 dvd LENGTH('a::len) \<Longrightarrow> read_le (to_le (w :: 'a word) @ rest) ctx = Inr (w, rest)"
  using read_exact_append [of "LENGTH('a) div 8" "to_le w" rest ctx] by (simp add: read_le_def from_le_to_le)

lemma read_tag_written:
  "write_variant_tag t tag = (bs, None) \<Longrightarrow> read_variant_tag (bs @ rest) t = Inr (tag, rest)"
proof (cases "t \<in> {WireType_Variant8, WireType_RepeatedVariant8}")
  case True
  assume w: "write_variant_tag t tag = (bs, None)"
  then have bs: "bs = [ucast tag]" and tag: "tag \<le> 0xFF"
    using True by (auto simp: write_variant_tag_def write_all_def write_failed_def split: if_splits)
  have "unat tag < 2 ^ 8" using tag by (simp add: word_le_nat_alt)
  then have "ucast (ucast tag :: u8) = tag"
    by (simp add: word_unat_eq_iff unsigned_ucast_eq unsigned_take_bit_eq take_bit_nat_eq_self)
  then show ?thesis using True bs by (simp add: read_variant_tag_def)
next
  case False
  assume "write_variant_tag t tag = (bs, None)"
  then have "bs = to_le tag" using False by (simp add: write_variant_tag_def write_all_def)
  then show ?thesis using False read_le_append [of tag rest] by (simp add: read_variant_tag_def)
qed

lemma read_end_written:
  "is_repeated_variant t \<Longrightarrow> write_repeated_variant_end t = (bs, None) \<Longrightarrow>
   \<exists>tag. read_variant_tag (bs @ rest) t = Inr (tag, rest) \<and> is_repeated_variant_end t tag"
  using read_le_append [of "0xFFFF :: u16" rest "''variant16 tag''"]
  by (auto simp: is_repeated_variant_def write_repeated_variant_end_def write_all_def
      read_variant_tag_def is_repeated_variant_end_def)

lemma read_le_u8: "read_le (x # rest) ctx = Inr (x :: u8, rest)"
  using read_le_append [of x rest ctx] by (simp add: to_le_u8)

text \<open>A valid schema has no child whose tag is the end tag.\<close>

lemma child_tag_not_end:
  assumes "schema_validate s = Inr ()" "is_repeated_variant (wire_type_of s)" "variant_child s tag = Inr c"
  shows "\<not> is_repeated_variant_end (wire_type_of s) tag"
proof -
  obtain t n cs where s: "s = Schema t n cs" by (cases s)
  have "unat tag < length cs" using assms(3) s by (auto simp: variant_child_def split: if_splits)
  moreover have "\<forall>m. children_limit t = Some m \<longrightarrow> length cs \<le> m"
    using assms(1) unfolding s schema_validate_Inr by simp
  ultimately show ?thesis using assms(2) s by (auto simp: is_repeated_variant_def is_repeated_variant_end_def)
qed

lemma child_valid: "schema_validate s = Inr () \<Longrightarrow> variant_child s tag = Inr c \<Longrightarrow> schema_validate c = Inr ()"
  by (cases s) (auto simp: variant_child_def schema_validate_Inr simp del: schema_validate.simps split: if_splits)

lemma children_valid: "schema_validate s = Inr () \<Longrightarrow> c \<in> set (children s) \<Longrightarrow> schema_validate c = Inr ()"
  by (cases s) (auto simp: schema_validate_Inr simp del: schema_validate.simps)

lemma read_blob_written:
  assumes "write_blob t v mb = (bs, None)" "mb \<le> max_blob b"
  shows "read_blob (bs @ rest) t b = spend (length v) b v rest"
proof -
  have v: "length v \<le> mb" "length v < 2 ^ 32" and bs: "bs = to_le (of_nat (length v) :: u32) @ v"
    using assms(1) by (auto simp: write_blob_def check_blob_length_def write_failed_def write_all_def split: if_splits)
  have n: "unat (of_nat (length v) :: u32) = length v"
    using v(2) by (simp add: unat_of_nat take_bit_nat_eq_self)
  show ?thesis
    using read_le_append [of "of_nat (length v) :: u32" "v @ rest"] n v(1) assms(2)
    by (simp add: bs read_blob_def blob_length_def check_blob_length_def charge_def spend_def
        read_exact_append)
qed

lemma decode_scalar_written:
  assumes "encode_scalar t v mb = (bs, None)" "skiff_wf v" "mb \<le> max_blob b"
    "\<not> is_variant t" "\<not> is_repeated_variant t" "t \<noteq> WireType_Tuple"
  shows "decode_scalar t (bs @ rest) b = spend (footprint 0 v) b v rest"
  using assms
  by (cases v)
    (auto simp: encode_scalar_def mismatch_def write_failed_def write_all_def decode_scalar_def
      decode_word_def read_le_append read_exact_append to_le_u8 read_le_u8 read_blob_written spend_wrap split: if_splits)

lemma footprint_node: "footprint nc v = nc + footprint 0 v \<or>
   (\<exists>tag w. v = Skiff_Variant tag w) \<or> (\<exists>items. v = Skiff_RepeatedVariants items) \<or> (\<exists>vs. v = Skiff_Tuple vs)"
  by (cases v) simp_all

text \<open>
  The whole story of a round trip: what was encoded, in front of any bytes, decodes to itself
  and leaves those bytes, if the row budget holds its footprint; if not, that is the error.
\<close>

lemma decode_encode:
  "encode_value s v mb = (bs, None) \<Longrightarrow> schema_validate s = Inr () \<Longrightarrow> skiff_wf v \<Longrightarrow> mb \<le> max_blob b \<Longrightarrow>
     decode_value nc s (bs @ rest) b = spend (footprint nc v) b v rest"
  "encode_items s items mb = (bs, None) \<Longrightarrow> schema_validate s = Inr () \<Longrightarrow> is_repeated_variant (wire_type_of s) \<Longrightarrow>
     write_repeated_variant_end (wire_type_of s) = (es, None) \<Longrightarrow> skiff_wf_items items \<Longrightarrow> mb \<le> max_blob b \<Longrightarrow>
     decode_items nc s (bs @ es @ rest) b = spend (footprint_items nc items) b items rest"
  "encode_tuple cs vs mb = (bs, None) \<Longrightarrow> length cs = length vs \<Longrightarrow>
     \<forall>c \<in> set cs. schema_validate c = Inr () \<Longrightarrow> skiff_wf_tuple vs \<Longrightarrow> mb \<le> max_blob b \<Longrightarrow>
     decode_tuple nc cs (bs @ rest) b = spend (footprint_tuple nc vs) b vs rest"
proof (induction s v mb and s items mb and cs vs mb arbitrary: bs b rest and bs b rest es and bs b rest
    rule: encode_value_encode_items_encode_tuple.induct)
  case (1 s v mb)
  let ?t = "wire_type_of s"
  note dv = decode_value.simps [of nc s "bs @ rest" b] and ev = 1(4) [unfolded encode_value.simps [of s v mb]]
  have mb: "charge b nc = Inr b1 \<Longrightarrow> mb \<le> max_blob b1" for b1
    using 1(7) by (auto simp: charge_def split: if_splits)
  consider (var) tag x where "v = Skiff_Variant tag x" | (rep) items where "v = Skiff_RepeatedVariants items"
    | (tup) vs where "v = Skiff_Tuple vs"
    | (sca) "encode_scalar ?t v mb = (bs, None)" "footprint nc v = nc + footprint 0 v"
        "\<not> is_variant ?t" "\<not> is_repeated_variant ?t" "?t \<noteq> WireType_Tuple"
    using ev by (cases v) (auto simp: encode_scalar_def mismatch_def write_failed_def is_variant_def
        is_repeated_variant_def split: if_splits)
  then show ?case
  proof cases
    case var
    then obtain child w1 w2 where var': "is_variant ?t" and ch: "variant_child s tag = Inr child"
      and w: "write_variant_tag ?t tag = (w1, None)" "encode_value child x mb = (w2, None)" "bs = w1 @ w2"
      using ev by (auto simp: mismatch_def write_failed_def then_write_ok split: if_splits sum.splits)
    have IH: "charge b nc = Inr b1 \<Longrightarrow> decode_value nc child (w2 @ rest) b1 = spend (footprint nc x) b1 x rest" for b1
      using 1(1) [OF var var' ch w(1,2) child_valid [OF 1(5) ch]] 1(6) mb var by simp
    have "decode_value nc s (bs @ rest) b = and_then (charge b nc) (\<lambda>b1. spend (footprint nc x) b1 v rest)"
      unfolding dv using var var' ch w read_tag_written [OF w(1), of "w2 @ rest"] IH
      by (intro and_then_cong) (simp_all add: spend_wrap)
    then show ?thesis by (simp add: charge_spend var)
  next
    case rep
    then obtain w1 w2 where rep': "is_repeated_variant ?t" and w: "encode_items s items mb = (w1, None)"
      "write_repeated_variant_end ?t = (w2, None)" "bs = w1 @ w2"
      using ev by (auto simp: mismatch_def write_failed_def then_write_ok split: if_splits)
    have IH: "charge b nc = Inr b1 \<Longrightarrow> decode_items nc s (w1 @ w2 @ rest) b1 = spend (footprint_items nc items) b1 items rest" for b1
      using 1(2) [OF rep rep' w(1) 1(5) rep' w(2)] 1(6) mb rep by simp
    have nv: "\<not> is_variant ?t" using rep' by (auto simp: is_variant_def is_repeated_variant_def)
    have "decode_value nc s (bs @ rest) b = and_then (charge b nc) (\<lambda>b1. spend (footprint_items nc items) b1 v rest)"
      unfolding dv using rep rep' nv w IH by (intro and_then_cong) (simp_all add: spend_wrap)
    then show ?thesis by (simp add: charge_spend rep)
  next
    case tup
    then have tup': "?t = WireType_Tuple" and len: "\<not> length vs \<noteq> length (children s)"
      and w: "encode_tuple (children s) vs mb = (bs, None)"
      using ev by (auto simp: mismatch_def write_failed_def split: if_splits)
    have IH: "charge b nc = Inr b1 \<Longrightarrow> decode_tuple nc (children s) (bs @ rest) b1 = spend (footprint_tuple nc vs) b1 vs rest" for b1
      using 1(3) [OF tup tup' len w] len children_valid [OF 1(5)] 1(6) mb tup by simp
    have nv: "\<not> is_variant ?t" "\<not> is_repeated_variant ?t" using tup' by (auto simp: is_variant_def is_repeated_variant_def)
    have "decode_value nc s (bs @ rest) b = and_then (charge b nc) (\<lambda>b1. spend (footprint_tuple nc vs) b1 v rest)"
      unfolding dv using tup tup' nv IH by (intro and_then_cong) (simp_all add: spend_wrap)
    then show ?thesis by (simp add: charge_spend tup)
  next
    case sca
    have "decode_value nc s (bs @ rest) b = and_then (charge b nc) (\<lambda>b1. spend (footprint 0 v) b1 v rest)"
      unfolding dv using sca decode_scalar_written [OF sca(1) 1(6) mb sca(3-5)] by (intro and_then_cong) simp_all
    then show ?thesis by (simp add: charge_spend sca(2))
  qed
next
  case (2 s mb)
  then show ?case using read_end_written [of "wire_type_of s" es rest]
    by (auto simp: decode_items.simps [of nc s] write_all_def)
next
  case (3 s tag x items mb)
  obtain child w1 w2 w3 where ch: "variant_child s tag = Inr child"
    and w: "write_variant_tag (wire_type_of s) tag = (w1, None)" "encode_value child x mb = (w2, None)"
      "encode_items s items mb = (w3, None)" "bs = w1 @ w2 @ w3"
    using 3(3) by (auto simp: write_failed_def then_write_ok split: sum.splits)
  have v: "decode_value nc child (w2 @ w3 @ es @ rest) b = spend (footprint nc x) b x (w3 @ es @ rest)"
    using 3(1) [OF ch w(1,2) child_valid [OF 3(4) ch]] 3(7,8) by simp
  have r: "decode_items nc s (w3 @ es @ rest) b' = spend (footprint_items nc items) b' items rest"
    if "mb \<le> max_blob b'" for b'
    using 3(2) [OF ch w(1-3) 3(4-6)] 3(7) that by simp
  have "decode_items nc s (bs @ es @ rest) b =
      and_then (spend (footprint nc x) b x (w3 @ es @ rest)) (\<lambda>(y, r', b').
      and_then (spend (footprint_items nc items) b' items rest) (\<lambda>(ys, r'', b''). Inr ((tag, y) # ys, r'', b'')))"
    using read_tag_written [OF w(1), of "w2 @ w3 @ es @ rest"] child_tag_not_end [OF 3(4,5) ch] ch v r 3(8)
    by (simp add: decode_items.simps [of nc s "w1 @ w2 @ w3 @ es @ rest"] w(4)) (simp add: spend_def)
  then show ?case by (simp add: spend_spend)
next
  case (4 c cs v vs mb)
  obtain w1 w2 where w: "encode_value c v mb = (w1, None)" "encode_tuple cs vs mb = (w2, None)" "bs = w1 @ w2"
    using 4(3) by (auto simp: then_write_ok)
  have v: "decode_value nc c (w1 @ w2 @ rest) b = spend (footprint nc v) b v (w2 @ rest)"
    using 4(1) [OF w(1)] 4(5-7) by simp
  have r: "decode_tuple nc cs (w2 @ rest) b' = spend (footprint_tuple nc vs) b' vs rest"
    if "mb \<le> max_blob b'" for b'
    using 4(2) [OF w(1,2)] 4(4-6) that by simp
  have "decode_tuple nc (c # cs) (bs @ rest) b =
      and_then (spend (footprint nc v) b v (w2 @ rest)) (\<lambda>(y, r', b').
      and_then (spend (footprint_tuple nc vs) b' vs rest) (\<lambda>(ys, r'', b''). Inr (y # ys, r'', b'')))"
    using v r 4(7) by (simp add: w(3)) (simp add: spend_def)
  then show ?case by (simp add: spend_spend)
qed (simp_all add: write_all_def)

section \<open>Truncation\<close>

text \<open>
  A decoder \<open>dec\<close> reads exactly \<open>used\<close>: whatever follows is the rest of its result \<open>mk\<close>, and
  a stream that ends inside \<open>used\<close> is reported as truncated.
\<close>

definition reads :: "(bytes \<Rightarrow> codec_error + 'r) \<Rightarrow> bytes \<Rightarrow> (bytes \<Rightarrow> 'r) \<Rightarrow> bool" where
  "reads dec used mk =
     ((\<forall>rest. dec (used @ rest) = Inr (mk rest)) \<and>
      (\<forall>n < length used. \<exists>ctx. dec (take n used) = Inl (Truncated ctx)))"

lemma reads_return [simp]: "reads (\<lambda>i. Inr (mk i)) [] mk"
  by (simp add: reads_def)

lemma reads_then:
  assumes d: "reads d u mk" and f: "\<And>r. f (mk r) = d2 r" and d2: "reads d2 u2 mk2"
  shows "reads (\<lambda>i. and_then (d i) f) (u @ u2) mk2"
  unfolding reads_def
proof (intro conjI allI impI)
  fix rest show "and_then (d ((u @ u2) @ rest)) f = Inr (mk2 rest)"
    using d d2 f by (simp add: reads_def)
next
  fix n assume n: "n < length (u @ u2)"
  show "\<exists>ctx. and_then (d (take n (u @ u2))) f = Inl (Truncated ctx)"
  proof (cases "n < length u")
    case True
    then show ?thesis using d by (auto simp: reads_def)
  next
    case False
    then have "n - length u < length u2" using n by auto
    then obtain ctx where "d2 (take (n - length u) u2) = Inl (Truncated ctx)" using d2 by (auto simp: reads_def)
    then show ?thesis using d f False by (auto simp: reads_def)
  qed
qed

text \<open>\<open>dec\<close> took the front of \<open>i\<close> and left \<open>rest\<close>.\<close>

definition took :: "(bytes \<Rightarrow> codec_error + 'r) \<Rightarrow> bytes \<Rightarrow> (bytes \<Rightarrow> 'r) \<Rightarrow> bytes \<Rightarrow> bool" where
  "took dec i mk rest = (\<exists>u. i = u @ rest \<and> reads dec u mk)"

lemma took_return [simp]: "took (\<lambda>i. Inr (mk i)) i mk i"
  unfolding took_def by (rule exI [of _ "[]"]) simp

lemma took_then:
  assumes "took d i mk r1" and "\<And>r. f (mk r) = d2 r" and "took d2 r1 mk2 rest"
  shows "took (\<lambda>i. and_then (d i) f) i mk2 rest"
proof -
  obtain u u2 where "i = u @ r1" "reads d u mk" "r1 = u2 @ rest" "reads d2 u2 mk2"
    using assms(1,3) by (auto simp: took_def)
  then show ?thesis using reads_then [of d u mk f d2 u2 mk2] assms(2)
    unfolding took_def by (intro exI [of _ "u @ u2"]) simp
qed

lemma took_map:
  assumes "took d i mk rest" and "\<And>r. f (mk r) = Inr (mk2 r)"
  shows "took (\<lambda>i. and_then (d i) f) i mk2 rest"
  using took_then [OF assms(1), of f "\<lambda>r. Inr (mk2 r)" mk2 rest] assms(2) by simp

lemma read_exact_took:
  assumes "read_exact i n ctx = Inr (x, rest)"
  shows "took (\<lambda>i. read_exact i n ctx) i (\<lambda>r. (x, r)) rest"
proof -
  have "n = length x" "i = x @ rest" using assms by (auto simp: read_exact_Inr)
  moreover have "reads (\<lambda>i. read_exact i (length x) ctx) x (\<lambda>r. (x, r))" by (auto simp: reads_def read_exact_def)
  ultimately show ?thesis by (auto simp: took_def)
qed

lemma read_byte_took:
  assumes "read_byte i ctx = Inr (x, rest)"
  shows "took (\<lambda>i. read_byte i ctx) i (\<lambda>r. (x, r)) rest"
proof -
  obtain u where u: "read_exact i 1 ctx = Inr (u, rest)" and x: "x = hd u"
    using assms by (auto simp: read_byte_def and_then_Inr)
  show ?thesis unfolding read_byte_def by (rule took_map [OF read_exact_took [OF u]]) (simp add: x)
qed

lemma read_le_took:
  fixes x :: "'a::len word"
  assumes "read_le i ctx = Inr (x, rest)"
  shows "took (\<lambda>i. read_le i ctx) i (\<lambda>r. (x, r)) rest"
proof -
  obtain u where u: "read_exact i (LENGTH('a) div 8) ctx = Inr (u, rest)" and x: "x = from_le u"
    using assms by (auto simp: read_le_def and_then_Inr)
  show ?thesis unfolding read_le_def by (rule took_map [OF read_exact_took [OF u]]) (simp add: x)
qed

lemma read_variant_tag_took:
  assumes "read_variant_tag i t = Inr (tag, rest)"
  shows "took (\<lambda>i. read_variant_tag i t) i (\<lambda>r. (tag, r)) rest"
proof (cases "t \<in> {WireType_Variant8, WireType_RepeatedVariant8}")
  case True
  then obtain x where x: "read_byte i ''variant8 tag'' = Inr (x, rest)" and tag: "tag = ucast x"
    using assms by (auto simp: read_variant_tag_def and_then_Inr)
  have "took (\<lambda>i. and_then (read_byte i ''variant8 tag'') (\<lambda>(b, rest). Inr (ucast b, rest))) i (\<lambda>r. (tag, r)) rest"
    by (rule took_map [OF read_byte_took [OF x]]) (simp add: tag)
  then show ?thesis using True by (simp add: read_variant_tag_def)
next
  case False
  then show ?thesis using assms read_le_took [of i "''variant16 tag''" tag rest]
    by (simp add: read_variant_tag_def)
qed

lemma read_blob_took:
  assumes "read_blob i t b = Inr (x, rest, b')"
  shows "took (\<lambda>i. read_blob i t b) i (\<lambda>r. (x, r, b')) rest"
proof -
  obtain n :: u32 and r1 where n: "read_le i ''blob length'' = Inr (n, r1)"
    and c: "check_blob_length t (unat n) (max_blob b) = Inr ()" "charge b (unat n) = Inr b'"
    and p: "read_exact r1 (unat n) ''blob payload'' = Inr (x, rest)"
    using assms by (auto simp: read_blob_def blob_length_def and_then_Inr)
  have l: "took (\<lambda>i. blob_length i t b) i (\<lambda>r. (unat n, r, b')) r1"
    unfolding blob_length_def by (rule took_map [OF read_le_took [OF n]]) (simp add: c)
  show ?thesis unfolding read_blob_def
    by (rule took_then [OF l _ took_map [OF read_exact_took [OF p]]]) (rule refl | simp)+
qed

lemma decode_word_took:
  "decode_word i ctx b mk = Inr (v, rest, b') \<Longrightarrow> took (\<lambda>i. decode_word i ctx b mk) i (\<lambda>r. (v, r, b')) rest"
  unfolding decode_word_def by (auto simp: and_then_Inr intro!: took_map [OF read_le_took])

lemma decode_scalar_took:
  "decode_scalar t i b = Inr (v, rest, b') \<Longrightarrow> took (\<lambda>i. decode_scalar t i b) i (\<lambda>r. (v, r, b')) rest"
  by (cases t) (auto simp: decode_scalar_def and_then_Inr intro!: decode_word_took
      took_map [OF read_byte_took] took_map [OF read_blob_took] took_map [OF read_exact_took])

lemma decode_took:
  "decode_value nc s i b = Inr (v, rest, b') \<Longrightarrow> took (\<lambda>i. decode_value nc s i b) i (\<lambda>r. (v, r, b')) rest"
  "decode_items nc s i b = Inr (items, rest, b') \<Longrightarrow> took (\<lambda>i. decode_items nc s i b) i (\<lambda>r. (items, r, b')) rest"
  "decode_tuple nc cs i b = Inr (vs, rest, b') \<Longrightarrow> took (\<lambda>i. decode_tuple nc cs i b) i (\<lambda>r. (vs, r, b')) rest"
proof (induction nc s i b and nc s i b and nc cs i b arbitrary: v rest b' and items rest b' and vs rest b'
    rule: decode_value_decode_items_decode_tuple.induct)
  case (1 nc s i b)
  let ?t = "wire_type_of s"
  note dv = decode_value.simps [of nc s _ b]
  obtain b1 where c: "charge b nc = Inr b1" using 1(4) by (auto simp: dv [of i] and_then_Inr)
  consider (var) "is_variant ?t" | (rep) "\<not> is_variant ?t" "is_repeated_variant ?t"
    | (tup) "\<not> is_variant ?t" "\<not> is_repeated_variant ?t" "?t = WireType_Tuple"
    | (sca) "\<not> is_variant ?t" "\<not> is_repeated_variant ?t" "?t \<noteq> WireType_Tuple" by blast
  then show ?case
  proof cases
    case var
    then obtain tag r1 child x where t: "read_variant_tag i ?t = Inr (tag, r1)" and ch: "variant_child s tag = Inr child"
      and x: "decode_value nc child r1 b1 = Inr (x, rest, b')" "v = Skiff_Variant tag x"
      using 1(4) c by (auto simp: dv [of i] and_then_Inr)
    let ?f = "\<lambda>i. and_then (decode_value nc child i b1) (\<lambda>(v, r, b'). Inr (Skiff_Variant tag v, r, b'))"
    have "took ?f r1 (\<lambda>r. (v, r, b')) rest"
      by (rule took_map [OF 1(1) [OF c var t refl ch x(1)]]) (simp add: x(2))
    then show ?thesis unfolding dv using c var ch
      by (simp add: took_then [OF read_variant_tag_took [OF t], of _ ?f])
  next
    case rep
    then obtain items where x: "decode_items nc s i b1 = Inr (items, rest, b')" "v = Skiff_RepeatedVariants items"
      using 1(4) c by (auto simp: dv [of i] and_then_Inr)
    show ?thesis unfolding dv using c rep x(2) by (simp add: took_map [OF 1(2) [OF c rep x(1)]])
  next
    case tup
    then obtain vs where x: "decode_tuple nc (children s) i b1 = Inr (vs, rest, b')" "v = Skiff_Tuple vs"
      using 1(4) c by (auto simp: dv [of i] and_then_Inr)
    show ?thesis unfolding dv using c tup x(2) by (simp add: took_map [OF 1(3) [OF c tup x(1)]])
  next
    case sca
    then show ?thesis using 1(4) c unfolding dv by (simp add: decode_scalar_took)
  qed
next
  case (2 nc s i b)
  let ?t = "wire_type_of s"
  note di = decode_items.simps [of nc s _ b]
  obtain tag r1 where t: "read_variant_tag i ?t = Inr (tag, r1)" using 2(3) by (auto simp: di [of i] and_then_Inr)
  show ?case
  proof (cases "is_repeated_variant_end ?t tag")
    case True
    then have e: "items = []" "rest = r1" "b' = b" using 2(3) t by (auto simp: di [of i])
    show ?thesis unfolding di e by (rule took_map [OF read_variant_tag_took [OF t]]) (simp add: True)
  next
    case False
    then obtain child x r2 b2 xs where ch: "variant_child s tag = Inr child"
      and x: "decode_value nc child r1 b = Inr (x, r2, b2)" and r: "decode_items nc s r2 b2 = Inr (xs, rest, b')"
        "items = (tag, x) # xs"
      using 2(3) t by (auto simp: di [of i] and_then_Inr)
    let ?g = "\<lambda>i. and_then (decode_items nc s i b2) (\<lambda>(items, r, b'). Inr ((tag, x) # items, r, b'))"
    let ?f = "\<lambda>i. and_then (decode_value nc child i b) (\<lambda>(v, r, b').
      and_then (decode_items nc s r b') (\<lambda>(items, r, b''). Inr ((tag, v) # items, r, b'')))"
    have "took ?g r2 (\<lambda>r. (items, r, b')) rest"
      by (rule took_map [OF 2(2) [OF t refl False ch x refl refl r(1)]]) (simp add: r(2))
    then have "took ?f r1 (\<lambda>r. (items, r, b')) rest"
      by (intro took_then [OF 2(1) [OF t refl False ch x], of _ ?g]) simp_all
    then show ?thesis unfolding di using ch False
      by (simp add: took_then [OF read_variant_tag_took [OF t], of _ ?f])
  qed
next
  case (4 nc c cs i b)
  obtain x r1 b1 xs where x: "decode_value nc c i b = Inr (x, r1, b1)"
    and r: "decode_tuple nc cs r1 b1 = Inr (xs, rest, b')" "vs = x # xs"
    using 4(3) by (auto simp: and_then_Inr)
  let ?g = "\<lambda>i. and_then (decode_tuple nc cs i b1) (\<lambda>(vs, r, b'). Inr (x # vs, r, b'))"
  have "took ?g r1 (\<lambda>r. (vs, r, b')) rest"
    by (rule took_map [OF 4(2) [OF x refl refl r(1)]]) (simp add: r(2))
  then show ?case
    by (simp add: took_then [OF 4(1) [OF x], of _ ?g])
qed simp

section \<open>What a decoded value is\<close>

lemma unat_u32_less: "unat (x :: u32) < 4294967296"
  using unsigned_less [of x] by simp

text \<open>A decoded value fits its schema, so it encodes again, to as many bytes as were read.\<close>

lemma decode_scalar_result:
  assumes "decode_scalar t i b = Inr (v, rest, b')" "\<not> is_variant t" "\<not> is_repeated_variant t" "t \<noteq> WireType_Tuple"
  shows "remaining b = remaining b' + footprint 0 v \<and> max_blob b' = max_blob b \<and> row_limit b' = row_limit b \<and>
    skiff_wf v \<and> footprint nc v = nc + footprint 0 v \<and>
    (\<exists>bs. encode_scalar t v (max_blob b) = (bs, None) \<and> length bs + length rest = length i \<and>
       (\<forall>s. wire_type_of s = t \<longrightarrow> encode_value s v (max_blob b) = encode_scalar t v (max_blob b)))"
  using assms
  by (cases t) (auto simp: decode_scalar_def decode_word_def read_byte_def read_le_def read_exact_Inr
      read_blob_def blob_length_def check_blob_length_def charge_def and_then_Inr encode_scalar_def
      write_all_def write_blob_def unat_u32_less is_variant_def is_repeated_variant_def
      encode_value.simps split: if_splits)

lemma written_tag:
  assumes "read_variant_tag i t = Inr (tag, rest)"
  shows "\<exists>bs. write_variant_tag t tag = (bs, None) \<and> length bs + length rest = length i"
proof (cases "t \<in> {WireType_Variant8, WireType_RepeatedVariant8}")
  case True
  then obtain x :: u8 where x: "read_byte i ''variant8 tag'' = Inr (x, rest)" and tag: "tag = ucast x"
    using assms by (auto simp: read_variant_tag_def and_then_Inr)
  have "unat x < 256" using unsigned_less [of x] by simp
  then have "tag \<le> 0xFF"
    by (simp add: tag word_le_nat_alt unsigned_ucast_eq unsigned_take_bit_eq take_bit_nat_eq_self)
  then show ?thesis using True x
    by (auto simp: write_variant_tag_def write_all_def read_byte_def and_then_Inr read_exact_Inr)
next
  case False
  then show ?thesis using assms
    by (auto simp: write_variant_tag_def write_all_def read_variant_tag_def read_le_def and_then_Inr read_exact_Inr)
qed

lemma written_end:
  "read_variant_tag i t = Inr (tag, rest) \<Longrightarrow> is_repeated_variant t \<Longrightarrow>
   \<exists>bs. write_repeated_variant_end t = (bs, None) \<and> length bs + length rest = length i"
  by (auto simp: is_repeated_variant_def write_repeated_variant_end_def write_all_def read_variant_tag_def
      read_byte_def read_le_def and_then_Inr read_exact_Inr)

definition kept :: "row_budget \<Rightarrow> row_budget \<Rightarrow> nat \<Rightarrow> bool" where
  "kept b b' n = (remaining b = remaining b' + n \<and> max_blob b' = max_blob b \<and> row_limit b' = row_limit b)"

lemma charge_kept: "charge b n = Inr b' \<Longrightarrow> kept b b' n"
  by (auto simp: charge_def kept_def split: if_splits)

lemma kept_trans: "kept b b1 n \<Longrightarrow> kept b1 b2 m \<Longrightarrow> kept b b2 (n + m)"
  by (auto simp: kept_def)

lemma decode_result:
  "decode_value nc s i b = Inr (v, rest, b') \<Longrightarrow>
     kept b b' (footprint nc v) \<and> skiff_wf v \<and>
     (\<exists>bs. encode_value s v (max_blob b) = (bs, None) \<and> length bs + length rest = length i)"
  "decode_items nc s i b = Inr (items, rest, b') \<Longrightarrow> is_repeated_variant (wire_type_of s) \<Longrightarrow>
     kept b b' (footprint_items nc items) \<and> skiff_wf_items items \<and>
     (\<exists>bs es. encode_items s items (max_blob b) = (bs, None) \<and>
        write_repeated_variant_end (wire_type_of s) = (es, None) \<and> length bs + length es + length rest = length i)"
  "decode_tuple nc cs i b = Inr (vs, rest, b') \<Longrightarrow>
     kept b b' (footprint_tuple nc vs) \<and> skiff_wf_tuple vs \<and> length vs = length cs \<and>
     (\<exists>bs. encode_tuple cs vs (max_blob b) = (bs, None) \<and> length bs + length rest = length i)"
proof (induction nc s i b and nc s i b and nc cs i b arbitrary: v rest b' and items rest b' and vs rest b'
    rule: decode_value_decode_items_decode_tuple.induct)
  case (1 nc s i b)
  let ?t = "wire_type_of s"
  note dv = decode_value.simps [of nc s i b]
  obtain b1 where c: "charge b nc = Inr b1" using 1(4) by (auto simp: dv and_then_Inr)
  have k: "kept b b1 nc" and mb: "max_blob b1 = max_blob b" using charge_kept [OF c] by (auto simp: kept_def)
  consider (var) "is_variant ?t" | (rep) "\<not> is_variant ?t" "is_repeated_variant ?t"
    | (tup) "\<not> is_variant ?t" "\<not> is_repeated_variant ?t" "?t = WireType_Tuple"
    | (sca) "\<not> is_variant ?t" "\<not> is_repeated_variant ?t" "?t \<noteq> WireType_Tuple" by blast
  then show ?case
  proof cases
    case var
    then obtain tag r1 child x where t: "read_variant_tag i ?t = Inr (tag, r1)" and ch: "variant_child s tag = Inr child"
      and x: "decode_value nc child r1 b1 = Inr (x, rest, b')" "v = Skiff_Variant tag x"
      using 1(4) c by (auto simp: dv and_then_Inr)
    show ?thesis
      using written_tag [OF t] 1(1) [OF c var t refl ch x(1)] kept_trans [OF k] var ch
      by (auto simp: x(2) mb encode_value.simps [of s] add.assoc)
  next
    case rep
    then obtain items where x: "decode_items nc s i b1 = Inr (items, rest, b')" "v = Skiff_RepeatedVariants items"
      using 1(4) c by (auto simp: dv and_then_Inr)
    show ?thesis
      using 1(2) [OF c rep x(1) rep(2)] kept_trans [OF k] rep
      by (auto simp: x(2) mb encode_value.simps [of s])
  next
    case tup
    then obtain vs where x: "decode_tuple nc (children s) i b1 = Inr (vs, rest, b')" "v = Skiff_Tuple vs"
      using 1(4) c by (auto simp: dv and_then_Inr)
    show ?thesis
      using 1(3) [OF c tup x(1)] kept_trans [OF k] tup by (auto simp: x(2) mb encode_value.simps [of s])
  next
    case sca
    then have d: "decode_scalar ?t i b1 = Inr (v, rest, b')" using 1(4) c by (simp add: dv)
    note r = decode_scalar_result [OF d sca, of nc]
    then have "kept b b' (footprint nc v)" using k by (auto simp: kept_def)
    then show ?thesis using r mb by auto
  qed
next
  case (2 nc s i b)
  let ?t = "wire_type_of s"
  note di = decode_items.simps [of nc s i b]
  obtain tag r1 where t: "read_variant_tag i ?t = Inr (tag, r1)" using 2(3) by (auto simp: di and_then_Inr)
  show ?case
  proof (cases "is_repeated_variant_end ?t tag")
    case True
    then have e: "items = []" "rest = r1" "b' = b" using 2(3) t by (auto simp: di)
    show ?thesis using written_end [OF t 2(4)] by (auto simp: e kept_def write_all_def)
  next
    case False
    then obtain child x r2 b2 xs where ch: "variant_child s tag = Inr child"
      and x: "decode_value nc child r1 b = Inr (x, r2, b2)" and r: "decode_items nc s r2 b2 = Inr (xs, rest, b')"
        "items = (tag, x) # xs"
      using 2(3) t by (auto simp: di and_then_Inr)
    have v: "kept b b2 (footprint nc x)" and rs: "kept b2 b' (footprint_items nc xs)"
      using 2(1) [OF t refl False ch x] 2(2) [OF t refl False ch x refl refl r(1) 2(4)] by simp_all
    have mb: "max_blob b2 = max_blob b" using v by (simp add: kept_def)
    show ?thesis
      using written_tag [OF t] 2(1) [OF t refl False ch x] 2(2) [OF t refl False ch x refl refl r(1) 2(4)]
        kept_trans [OF v rs] ch
      by (auto simp: r(2) mb)
  qed
next
  case (4 nc c cs i b)
  obtain x r1 b1 xs where x: "decode_value nc c i b = Inr (x, r1, b1)"
    and r: "decode_tuple nc cs r1 b1 = Inr (xs, rest, b')" "vs = x # xs"
    using 4(3) by (auto simp: and_then_Inr)
  have v: "kept b b1 (footprint nc x)" and rs: "kept b1 b' (footprint_tuple nc xs)"
    using 4(1) [OF x] 4(2) [OF x refl refl r(1)] by simp_all
  have mb: "max_blob b1 = max_blob b" using v by (simp add: kept_def)
  show ?case
    using 4(1) [OF x] 4(2) [OF x refl refl r(1)] kept_trans [OF v rs] by (auto simp: r(2) mb)
qed (simp_all add: kept_def write_all_def)

end
