(* ===== verification/Skiff_Stream.thy ===== *)
theory Skiff_Stream
  imports Skiff_Wire
begin

text \<open>
  The \<open>Encoder\<close> and \<open>Decoder\<close> of \<open>crates/ytsaurus-skiff/src/wire.rs\<close> over the codec of
  \<open>Skiff_Wire\<close>, the codec's interpretation of the shared interface, and the properties of the
  stream. \<open>node_cost\<close> is \<open>size_of::<Value>()\<close>, as there.
\<close>

section \<open>The encoder\<close>

record encoder =
  encoder_out :: bytes
  encoder_schema :: schema
  encoder_max_blob :: nat

definition encoder_new :: "bytes \<Rightarrow> schema \<Rightarrow> codec_error + encoder" where
  "encoder_new out s =
     (case schema_validate s of
        Inl e \<Rightarrow> Inl (InvalidSchema e)
      | Inr _ \<Rightarrow>
          if wire_type_of s \<noteq> WireType_Tuple then Inl (TableSchemaMustBeTuple (wire_type_of s))
          else
            (case validate_table_schema s of
               Inl e \<Rightarrow> Inl (InvalidSchema e)
             | Inr _ \<Rightarrow>
                 Inr \<lparr>encoder_out = out, encoder_schema = s, encoder_max_blob = DEFAULT_MAX_BLOB_BYTES\<rparr>))"

definition encoder_with_max_blob_bytes :: "encoder \<Rightarrow> nat \<Rightarrow> encoder" where
  "encoder_with_max_blob_bytes e n = e\<lparr>encoder_max_blob := n\<rparr>"

text \<open>\<open>Encoder::write\<close>: the bytes that reached the writer stay there when the row is refused.\<close>

definition encoder_write :: "encoder \<Rightarrow> skiff_value \<Rightarrow> codec_error option \<times> encoder" where
  "encoder_write e row =
     (let w = then_write (write_all (to_le (0 :: u16))) (encode_value (encoder_schema e) row (encoder_max_blob e))
      in (snd w, e\<lparr>encoder_out := encoder_out e @ fst w\<rparr>))"

text \<open>A caller writing rows until one is refused.\<close>

fun write_rows :: "encoder \<Rightarrow> skiff_value list \<Rightarrow> codec_error option \<times> encoder" where
  "write_rows e [] = (None, e)"
| "write_rows e (row # rows) =
     (case encoder_write e row of
        (Some err, e') \<Rightarrow> (Some err, e')
      | (None, e') \<Rightarrow> write_rows e' rows)"

section \<open>The decoder\<close>

record decoder =
  decoder_input :: bytes
  decoder_format :: skiff_format
  decoder_max_blob :: nat
  decoder_max_row :: nat

definition decoder_new :: "bytes \<Rightarrow> skiff_format \<Rightarrow> decoder" where
  "decoder_new input f =
     \<lparr>decoder_input = input, decoder_format = f, decoder_max_blob = DEFAULT_MAX_BLOB_BYTES,
      decoder_max_row = DEFAULT_MAX_ROW_BYTES\<rparr>"

definition decoder_with_max_blob_bytes :: "decoder \<Rightarrow> nat \<Rightarrow> decoder" where
  "decoder_with_max_blob_bytes d n = d\<lparr>decoder_max_blob := n\<rparr>"

definition decoder_with_max_row_bytes :: "decoder \<Rightarrow> nat \<Rightarrow> decoder" where
  "decoder_with_max_row_bytes d n = d\<lparr>decoder_max_row := n\<rparr>"

fun read_first_byte :: "bytes \<Rightarrow> (u8 \<times> bytes) option" where
  "read_first_byte [] = None"
| "read_first_byte (b # rest) = Some (b, rest)"

text \<open>The table index and the schema it selects, after the first byte of a row.\<close>

definition row_schema :: "decoder \<Rightarrow> u8 \<Rightarrow> bytes \<Rightarrow> codec_error + nat \<times> schema \<times> bytes" where
  "row_schema d first input =
     and_then (read_exact input 1 ''table Variant16 tag'') (\<lambda>(second, rest).
       let index = unat (from_le (first # second) :: u16)
       in case table_schema (decoder_format d) index of
            Inl e \<Rightarrow> Inl (InvalidSchema e)
          | Inr s \<Rightarrow> Inr (index, s, rest))"

definition next_row :: "nat \<Rightarrow> decoder \<Rightarrow> codec_error + (nat \<times> skiff_value) option \<times> decoder" where
  "next_row node_cost d =
     (case read_first_byte (decoder_input d) of
        None \<Rightarrow> Inr (None, d)
      | Some (first, input) \<Rightarrow>
          and_then (row_schema d first input) (\<lambda>(index, s, rest).
          and_then (decode_value node_cost s rest (budget_new (decoder_max_blob d) (decoder_max_row d))) (\<lambda>(row, rest', _).
            Inr (Some (index, row), d\<lparr>decoder_input := rest'\<rparr>))))"

definition skip_row :: "nat \<Rightarrow> decoder \<Rightarrow> codec_error + nat option \<times> decoder" where
  "skip_row node_cost d =
     (case read_first_byte (decoder_input d) of
        None \<Rightarrow> Inr (None, d)
      | Some (first, input) \<Rightarrow>
          and_then (row_schema d first input) (\<lambda>(index, s, rest).
          and_then (skip_value node_cost s rest (budget_new (decoder_max_blob d) (decoder_max_row d))) (\<lambda>(rest', _).
            Inr (Some index, d\<lparr>decoder_input := rest'\<rparr>))))"

lemma row_schema_Inr: "row_schema d first input = Inr (index, s, rest) \<longleftrightarrow>
   (\<exists>second. input = second # rest \<and> index = unat (from_le [first, second] :: u16) \<and>
     table_schema (decoder_format d) index = Inr s)"
  by (cases input) (auto simp: row_schema_def read_exact_def Let_def split: sum.splits)

lemma next_row_Some: "next_row nc d = Inr (Some (index, row), d') \<longleftrightarrow>
   (\<exists>first second s rest b'. decoder_input d = first # second # rest \<and>
     index = unat (from_le [first, second] :: u16) \<and> table_schema (decoder_format d) index = Inr s \<and>
     decode_value nc s rest (budget_new (decoder_max_blob d) (decoder_max_row d)) = Inr (row, decoder_input d', b') \<and>
     d' = d\<lparr>decoder_input := decoder_input d'\<rparr>)"
  by (cases "decoder_input d") (auto simp: next_row_def and_then_Inr row_schema_Inr)

lemma next_row_None: "next_row nc d = Inr (None, d') \<longleftrightarrow> decoder_input d = [] \<and> d' = d"
  by (cases "decoder_input d") (auto simp: next_row_def and_then_Inr)

lemma next_row_shorter:
  assumes "next_row nc d = Inr (Some r, d')"
  shows "length (decoder_input d') < length (decoder_input d)"
proof -
  obtain index row where r: "r = (index, row)" by fastforce
  obtain first second s rest b' where d: "decoder_input d = first # second # rest"
    and v: "decode_value nc s rest (budget_new (decoder_max_blob d) (decoder_max_row d)) = Inr (row, decoder_input d', b')"
    using assms unfolding r next_row_Some by blast
  show ?thesis using decode_length_dom(1) [OF decode_terminates [rule_format] v] by (simp add: d)
qed

text \<open>A caller reading rows to the end of the stream.\<close>

function read_rows_to_end :: "nat \<Rightarrow> decoder \<Rightarrow> codec_error + (nat \<times> skiff_value) list" where
  "read_rows_to_end nc d =
     and_then (next_row nc d) (\<lambda>(row, d').
       case row of
         None \<Rightarrow> Inr []
       | Some r \<Rightarrow> and_then (read_rows_to_end nc d') (\<lambda>rows. Inr (r # rows)))"
  by pat_completeness auto
termination by (relation "measure (\<lambda>(nc, d). length (decoder_input d))") (auto dest: next_row_shorter)

declare read_rows_to_end.simps [simp del]

section \<open>The interface\<close>

definition encode_bytes :: "nat \<Rightarrow> schema \<Rightarrow> skiff_value \<Rightarrow> bytes" where
  "encode_bytes mb s v = fst (encode_value s v mb)"

definition decode_bytes :: "nat \<Rightarrow> nat \<Rightarrow> nat \<Rightarrow> schema \<Rightarrow> bytes \<Rightarrow> codec_error + skiff_value \<times> nat" where
  "decode_bytes nc mb mr s input =
     and_then (decode_value nc s input (budget_new mb mr)) (\<lambda>(v, rest, _). Inr (v, length input - length rest))"

definition encodable :: "nat \<Rightarrow> nat \<Rightarrow> nat \<Rightarrow> schema \<Rightarrow> skiff_value \<Rightarrow> bool" where
  "encodable nc mb mr s v =
     (schema_validate s = Inr () \<and> skiff_wf v \<and> snd (encode_value s v mb) = None \<and> footprint nc v \<le> mr)"

fun is_truncated :: "codec_error \<Rightarrow> bool" where
  "is_truncated (Truncated _) = True"
| "is_truncated _ = False"

lemma decode_encodable:
  assumes "encodable nc mb mr s v" "mb \<le> mb'"
  shows "\<exists>b'. decode_value nc s (encode_bytes mb s v @ rest) (budget_new mb' mr) = Inr (v, rest, b')"
  using assms decode_encode(1) [of s v mb "encode_bytes mb s v" "budget_new mb' mr" nc rest]
  by (cases "encode_value s v mb") (auto simp: encodable_def encode_bytes_def budget_new_def spend_def)

interpretation skiff: starving_codec "encode_bytes mb s" "decode_bytes nc mb mr s" "encodable nc mb mr s" is_truncated
  for mb nc mr s
proof
  fix v rest
  assume "encodable nc mb mr s v"
  then show "decode_bytes nc mb mr s (encode_bytes mb s v @ rest) = Inr (v, length (encode_bytes mb s v))"
    using decode_encodable [of nc mb mr s v mb rest] by (auto simp: decode_bytes_def)
next
  fix v n
  assume v: "encodable nc mb mr s v" and n: "n < length (encode_bytes mb s v)"
  let ?dec = "\<lambda>i. decode_value nc s i (budget_new mb mr)"
  obtain b' where d: "?dec (encode_bytes mb s v @ []) = Inr (v, [], b')" using decode_encodable [OF v order.refl] by blast
  then have "reads ?dec (encode_bytes mb s v) (\<lambda>r. (v, r, b'))" using decode_took(1) [OF d] by (simp add: took_def)
  then show "\<exists>e. decode_bytes nc mb mr s (take n (encode_bytes mb s v)) = Inl e \<and> is_truncated e"
    using n by (fastforce simp: reads_def decode_bytes_def)
qed

section \<open>Rows of one table\<close>

lemma encoder_new_Inr: "encoder_new out s = Inr e \<longleftrightarrow>
   schema_validate s = Inr () \<and> validate_table_schema s = Inr () \<and>
   e = \<lparr>encoder_out = out, encoder_schema = s, encoder_max_blob = DEFAULT_MAX_BLOB_BYTES\<rparr>"
proof -
  have "validate_table_schema s = Inr () \<Longrightarrow> wire_type_of s = WireType_Tuple"
    by (simp add: validate_table_schema_Inr)
  then show ?thesis by (auto simp: encoder_new_def split: sum.splits if_splits)
qed

lemma encoder_write_ok: "encoder_write e row = (None, e') \<longleftrightarrow>
   (\<exists>bs. encode_value (encoder_schema e) row (encoder_max_blob e) = (bs, None) \<and>
     e' = e\<lparr>encoder_out := encoder_out e @ [0, 0] @ bs\<rparr>)"
proof -
  have "to_le (0 :: u16) = [0, 0]" by (simp add: to_le_def numeral_2_eq_2)
  then show ?thesis
    by (cases "encode_value (encoder_schema e) row (encoder_max_blob e)")
      (auto simp: encoder_write_def write_all_def)
qed

text \<open>What \<open>write\<close> emits for a row, without the table tag.\<close>

abbreviation row_bytes :: "encoder \<Rightarrow> skiff_value \<Rightarrow> bytes" where
  "row_bytes e row \<equiv> encode_bytes (encoder_max_blob e) (encoder_schema e) row"

lemma write_rows_ok: "write_rows e rows = (None, e') \<longleftrightarrow>
   (\<forall>row \<in> set rows. snd (encode_value (encoder_schema e) row (encoder_max_blob e)) = None) \<and>
   e' = e\<lparr>encoder_out := encoder_out e @ concat (map (\<lambda>row. [0, 0] @ row_bytes e row) rows)\<rparr>"
proof (induction rows arbitrary: e)
  case (Cons row rows)
  show ?case
  proof (cases "encoder_write e row")
    case (Pair err e1)
    show ?thesis
    proof (cases err)
      case None
      then obtain bs where "encode_value (encoder_schema e) row (encoder_max_blob e) = (bs, None)"
        "e1 = e\<lparr>encoder_out := encoder_out e @ [0, 0] @ bs\<rparr>"
        using Pair encoder_write_ok by blast
      then show ?thesis using Pair None Cons.IH [of e1] by (simp add: encode_bytes_def)
    next
      case (Some x)
      then have "snd (encode_value (encoder_schema e) row (encoder_max_blob e)) = Some x"
        using Pair by (auto simp: encoder_write_def Let_def write_all_def)
      then show ?thesis using Pair Some by simp
    qed
  qed
qed auto

lemma from_le_zero [simp]: "from_le [0, 0] = (0 :: u16)"
  by (simp add: from_le_def)

lemma next_row_encoded:
  assumes "schema_validate s = Inr ()" "table_schema (decoder_format d) 0 = Inr s" "skiff_wf row"
    and "encode_value s row mb = (bs, None)" "mb \<le> decoder_max_blob d" "decoder_input d = [0, 0] @ bs @ rest"
  shows "next_row nc d =
    (if footprint nc row \<le> decoder_max_row d then Inr (Some (0, row), d\<lparr>decoder_input := rest\<rparr>)
     else Inl (RowTooLarge (decoder_max_row d)))"
  using assms decode_encode(1) [OF assms(4,1,3), of "budget_new (decoder_max_blob d) (decoder_max_row d)" nc rest]
  by (simp add: next_row_def row_schema_def read_exact_def spend_def budget_new_def)

lemma read_rows_encoded:
  assumes "schema_validate s = Inr ()" "table_schema (decoder_format d) 0 = Inr s" "mb \<le> decoder_max_blob d"
    and "\<forall>row \<in> set rows. skiff_wf row \<and> snd (encode_value s row mb) = None \<and> footprint nc row \<le> decoder_max_row d"
    and "decoder_input d = concat (map (\<lambda>row. [0, 0] @ encode_bytes mb s row) rows)"
  shows "read_rows_to_end nc d = Inr (map (\<lambda>row. (0, row)) rows)"
  using assms
proof (induction rows arbitrary: d)
  case Nil
  then show ?case by (subst read_rows_to_end.simps) (simp add: next_row_def)
next
  case (Cons row rows)
  let ?rest = "concat (map (\<lambda>row. [0, 0] @ encode_bytes mb s row) rows)"
  have "next_row nc d = Inr (Some (0, row), d\<lparr>decoder_input := ?rest\<rparr>)"
    using next_row_encoded [of s d row mb "encode_bytes mb s row" ?rest nc] Cons.prems
    by (simp add: encode_bytes_def prod_eq_iff)
  moreover have "read_rows_to_end nc (d\<lparr>decoder_input := ?rest\<rparr>) = Inr (map (\<lambda>row. (0, row)) rows)"
    using Cons.prems by (intro Cons.IH) simp_all
  ultimately show ?case by (subst read_rows_to_end.simps) simp
qed

section \<open>Properties\<close>

lemma format_of_schema: "format_new [Inline s] = Inr f \<longleftrightarrow>
   schema_validate s = Inr () \<and> validate_table_schema s = Inr () \<and> f = \<lparr>table_schemas = [Inline s], schema_registry = []\<rparr>"
  by (auto simp: format_new_def format_from_parts_def format_validate_def validate_reference_def
      table_schema_def and_then_Inr Let_def)

text \<open>\<open>Encoder::new\<close> accepts exactly the schemas that \<open>Format::new\<close> accepts as an inline table
  schema: a schema that can be encoded can also be declared to the cluster, and the reverse.\<close>

theorem encoder_schema_is_declarable:
  "(\<exists>e. encoder_new out s = Inr e) = (\<exists>f. format_new [Inline s] = Inr f)"
  by (simp add: encoder_new_Inr format_of_schema)

text \<open>C33: rows written one after the other by an \<open>Encoder\<close>, none of them refused, are read back by
  a \<open>Decoder\<close> for the matching format as the same rows, in order, each at table index 0, and then
  the stream ends cleanly, whatever the schema, the row types and their nesting, as long as each
  row's decoded footprint fits the decoder's row limit and its blob limit is not below the encoder's.\<close>

theorem skiff_stream_roundtrip:
  assumes "encoder_new [] s = Inr e" and "format_new [Inline s] = Inr f"
    and "write_rows (encoder_with_max_blob_bytes e mb) rows = (None, e')"
    and "decoder_format d = f" and "decoder_input d = encoder_out e'" and "mb \<le> decoder_max_blob d"
    and "\<forall>row \<in> set rows. skiff_wf row \<and> footprint nc row \<le> decoder_max_row d"
  shows "read_rows_to_end nc d = Inr (map (\<lambda>row. (0, row)) rows)"
proof (rule read_rows_encoded)
  show "table_schema (decoder_format d) 0 = Inr s"
    using assms(2,4) by (auto simp: format_of_schema table_schema_def)
  show "decoder_input d = concat (map (\<lambda>row. [0, 0] @ encode_bytes mb s row) rows)"
    using assms(1,3,5) by (auto simp: write_rows_ok encoder_new_Inr encoder_with_max_blob_bytes_def)
qed (use assms in \<open>auto simp: write_rows_ok encoder_new_Inr encoder_with_max_blob_bytes_def\<close>)

definition sample_row :: skiff_value where
  "sample_row = Skiff_Tuple [Skiff_Int64 5, Skiff_Variant 1 (Skiff_Bytes [0x68, 0x69]),
     Skiff_RepeatedVariants [(1, Skiff_Uint8 7), (0, Skiff_Nothing)]]"

lemma le_nat_numeral [simp]: "le_nat (numeral k) x = of_nat (x mod 256) # le_nat (pred_numeral k) (x div 256)"
  by (simp only: numeral_eq_Suc [of k] le_nat.simps)

lemma le5: "to_le (5 :: u64) = [5, 0, 0, 0, 0, 0, 0, 0]" by (simp add: to_le_def)

lemma le2: "to_le (2 :: u32) = [2, 0, 0, 0]" by (simp add: to_le_def)

lemma le0: "to_le (0 :: u16) = [0, 0]" by (simp add: to_le_def)

lemma sample_row_encodes:
  "encode_value sample_schema sample_row 16 =
     ([5, 0, 0, 0, 0, 0, 0, 0, 1, 2, 0, 0, 0, 0x68, 0x69, 1, 7, 0, 0xFF], None)"
proof -
  have n: "encode_value (Schema WireType_Int64 n cs) (Skiff_Int64 5) 16 = ([5, 0, 0, 0, 0, 0, 0, 0], None)" for n cs
    by (simp add: encode_value.simps encode_scalar_def write_all_def le5)
  have b: "encode_value (Schema WireType_String32 n cs) (Skiff_Bytes [0x68, 0x69]) 16 = ([2, 0, 0, 0, 0x68, 0x69], None)" for n cs
    by (simp add: encode_value.simps encode_scalar_def write_all_def write_blob_def check_blob_length_def le2)
  have u: "encode_value (Schema WireType_Uint8 n cs) (Skiff_Uint8 7) 16 = ([7], None)" for n cs
    by (simp add: encode_value.simps encode_scalar_def write_all_def to_le_u8)
  have z: "encode_value (Schema WireType_Nothing n cs) Skiff_Nothing 16 = ([], None)" for n cs
    by (simp add: encode_value.simps encode_scalar_def write_all_def)
  note defs = is_variant_def is_repeated_variant_def variant_child_def write_variant_tag_def write_all_def
    write_repeated_variant_end_def leaf_def
  have o: "encode_value (optional_schema (named nm WireType_String32)) (Skiff_Variant 1 (Skiff_Bytes [0x68, 0x69])) 16 =
      ([1, 2, 0, 0, 0, 0x68, 0x69], None)" for nm
    by (subst encode_value.simps) (simp add: optional_schema_def named_def defs b)
  have r: "encode_value (Schema WireType_RepeatedVariant8 nm [leaf WireType_Nothing, leaf WireType_Uint8])
      (Skiff_RepeatedVariants [(1, Skiff_Uint8 7), (0, Skiff_Nothing)]) 16 = ([1, 7, 0, 0xFF], None)" for nm
    by (subst encode_value.simps) (simp add: defs u z)
  show ?thesis
    unfolding sample_schema_def sample_row_def tuple_schema_def
    by (subst encode_value.simps) (simp add: n [folded named_def] o r, simp add: named_def n write_all_def)
qed

lemma sample_row_ok [simp]: "skiff_wf sample_row" "footprint nc sample_row = 7 * nc + 2"
  by (simp_all add: sample_row_def)

definition sample_encoder :: encoder where
  "sample_encoder = \<lparr>encoder_out = [], encoder_schema = sample_schema, encoder_max_blob = DEFAULT_MAX_BLOB_BYTES\<rparr>"

definition sample_decoder :: "bytes \<Rightarrow> decoder" where
  "sample_decoder input = decoder_new input \<lparr>table_schemas = [Inline sample_schema], schema_registry = []\<rparr>"

lemma sample_decoder_simps [simp]:
  "decoder_input (sample_decoder input) = input"
  "decoder_format (sample_decoder input) = \<lparr>table_schemas = [Inline sample_schema], schema_registry = []\<rparr>"
  "decoder_max_blob (sample_decoder input) = 134217728" "decoder_max_row (sample_decoder input) = 268435456"
  "(sample_decoder input)\<lparr>decoder_input := rest\<rparr> = sample_decoder rest"
  by (simp_all add: sample_decoder_def decoder_new_def DEFAULT_MAX_BLOB_BYTES_def DEFAULT_MAX_ROW_BYTES_def)

abbreviation sample_bytes :: bytes where
  "sample_bytes \<equiv> [0, 0, 5, 0, 0, 0, 0, 0, 0, 0, 1, 2, 0, 0, 0, 0x68, 0x69, 1, 7, 0, 0xFF]"

lemma skiff_stream_roundtrip_witness:
  "read_rows_to_end 48 (sample_decoder (sample_bytes @ sample_bytes)) = Inr [(0, sample_row), (0, sample_row)]"
proof -
  have e: "encoder_new [] sample_schema = Inr sample_encoder"
    by (simp add: encoder_new_Inr sample_encoder_def)
  have f: "format_new [Inline sample_schema] = Inr \<lparr>table_schemas = [Inline sample_schema], schema_registry = []\<rparr>"
    by (simp add: format_of_schema)
  have w: "write_rows (encoder_with_max_blob_bytes sample_encoder 16) [sample_row, sample_row] =
      (None, (encoder_with_max_blob_bytes sample_encoder 16)\<lparr>encoder_out := sample_bytes @ sample_bytes\<rparr>)"
    unfolding write_rows_ok
    by (simp add: encoder_with_max_blob_bytes_def sample_encoder_def sample_row_encodes encode_bytes_def)
  show ?thesis
    using skiff_stream_roundtrip [OF e f w, of "sample_decoder (sample_bytes @ sample_bytes)" 48] by simp
qed

text \<open>The row limit is exact. A row that was encoded, in front of any other bytes, decodes to
  itself and leaves those bytes when its footprint (one node per value plus the blob payloads) is at
  most the row limit; one byte over, the answer is \<open>RowTooLarge\<close>, never a partial row.\<close>

theorem row_limit_is_exact:
  assumes "schema_validate s = Inr ()" and "table_schema (decoder_format d) 0 = Inr s" and "skiff_wf row"
    and "encode_value s row (decoder_max_blob d) = (bs, None)"
  shows "next_row nc (d\<lparr>decoder_input := [0, 0] @ bs @ rest\<rparr>) =
    (if footprint nc row \<le> decoder_max_row d then Inr (Some (0, row), d\<lparr>decoder_input := rest\<rparr>)
     else Inl (RowTooLarge (decoder_max_row d)))"
  using next_row_encoded [OF assms(1) _ assms(3,4), of "d\<lparr>decoder_input := [0, 0] @ bs @ rest\<rparr>" rest nc] assms(2)
  by simp

lemma row_limit_is_exact_witness:
  "next_row 48 ((sample_decoder [])\<lparr>decoder_max_blob := 16, decoder_max_row := 337, decoder_input := sample_bytes\<rparr>)
     = Inl (RowTooLarge 337)"
  using row_limit_is_exact [of sample_schema "(sample_decoder [])\<lparr>decoder_max_blob := 16, decoder_max_row := 337\<rparr>"
      sample_row _ 48 "[]"] sample_row_encodes
  by (simp add: table_schema_def)

lemma skip_row_next_row:
  "skip_row nc d = and_then (next_row nc d) (\<lambda>(row, d'). Inr (map_option fst row, d'))"
proof (cases "read_first_byte (decoder_input d)")
  case (Some fi)
  obtain first input where fi: "fi = (first, input)" by fastforce
  show ?thesis
  proof (cases "row_schema d first input")
    case (Inr r)
    obtain index s rest where r: "r = (index, s, rest)" by (cases r)
    show ?thesis
      by (cases "decode_value nc s rest (budget_new (decoder_max_blob d) (decoder_max_row d))")
        (auto simp: skip_row_def next_row_def Some fi Inr r skip_decode(1))
  qed (simp add: skip_row_def next_row_def Some fi)
qed (simp add: skip_row_def next_row_def)

text \<open>C35: \<open>skip_row\<close> answers what \<open>next_row\<close> answers on every stream, valid or not: the same table
  index, the same position afterwards and the same error, from the limits to the truncation
  context; it only leaves out the value.\<close>

theorem skip_row_agrees:
  "skip_row nc d = and_then (next_row nc d) (\<lambda>(row, d'). Inr (map_option fst row, d'))"
  by (rule skip_row_next_row)

text \<open>When a row decodes from a stream, it is one definite, non-empty run of bytes: any other
  bytes may follow it, and a stream that ends anywhere inside the row is reported as truncated,
  never as a shorter row or as the end of the stream.\<close>

theorem truncated_row_detected:
  assumes "next_row nc d = Inr (Some r, d')"
  shows "\<exists>used. decoder_input d = used @ decoder_input d' \<and> used \<noteq> [] \<and>
    (\<forall>rest. next_row nc (d\<lparr>decoder_input := used @ rest\<rparr>) = Inr (Some r, d\<lparr>decoder_input := rest\<rparr>)) \<and>
    (\<forall>n. 0 < n \<and> n < length used \<longrightarrow> (\<exists>ctx. next_row nc (d\<lparr>decoder_input := take n used\<rparr>) = Inl (Truncated ctx)))"
proof -
  obtain index row where r: "r = (index, row)" by fastforce
  let ?b = "budget_new (decoder_max_blob d) (decoder_max_row d)"
  obtain first second s rest b' where d: "decoder_input d = first # second # rest"
    and i: "index = unat (from_le [first, second] :: u16)" "table_schema (decoder_format d) index = Inr s"
    and v: "decode_value nc s rest ?b = Inr (row, decoder_input d', b')"
    using assms unfolding r next_row_Some by blast
  obtain u where u: "rest = u @ decoder_input d'" "reads (\<lambda>i. decode_value nc s i ?b) u (\<lambda>r. (row, r, b'))"
    using decode_took(1) [OF v] by (auto simp: took_def)
  have whole: "next_row nc (d\<lparr>decoder_input := (first # second # u) @ rest'\<rparr>) = Inr (Some r, d\<lparr>decoder_input := rest'\<rparr>)" for rest'
  proof -
    have "decode_value nc s (u @ rest') ?b = Inr (row, rest', b')" using u(2) by (simp add: reads_def)
    then show ?thesis using i by (simp add: next_row_def row_schema_def read_exact_def r)
  qed
  have inside: "\<exists>ctx. next_row nc (d\<lparr>decoder_input := take n (first # second # u)\<rparr>) = Inl (Truncated ctx)"
    if n: "0 < n" "n < length (first # second # u)" for n
  proof (cases "n = 1")
    case True
    then show ?thesis by (simp add: next_row_def row_schema_def read_exact_def)
  next
    case False
    then have m: "n = Suc (Suc (n - 2))" using n(1) by simp
    define m where "m = n - 2"
    have m: "n = Suc (Suc m)" "m < length u" using m n(2) by (simp_all add: m_def)
    then obtain ctx where "decode_value nc s (take m u) ?b = Inl (Truncated ctx)"
      using u(2) unfolding reads_def by blast
    moreover have "row_schema (d\<lparr>decoder_input := first # second # take m u\<rparr>) first (second # take m u) = Inr (index, s, take m u)"
      using i by (simp add: row_schema_Inr)
    ultimately show ?thesis by (simp add: next_row_def m)
  qed
  show ?thesis
  proof (intro exI [of _ "first # second # u"] conjI allI impI)
    show "decoder_input d = (first # second # u) @ decoder_input d'" by (simp add: d u(1))
  next
    show "first # second # u \<noteq> []" by simp
  next
    fix rest' show "next_row nc (d\<lparr>decoder_input := (first # second # u) @ rest'\<rparr>) = Inr (Some r, d\<lparr>decoder_input := rest'\<rparr>)"
      by (rule whole)
  next
    fix n assume "0 < n \<and> n < length (first # second # u)"
    then show "\<exists>ctx. next_row nc (d\<lparr>decoder_input := take n (first # second # u)\<rparr>) = Inl (Truncated ctx)"
      using inside by blast
  qed
qed

lemma sample_row_read: "next_row 48 (sample_decoder (sample_bytes @ [9])) = Inr (Some (0, sample_row), sample_decoder [9])"
  using next_row_encoded [of sample_schema "sample_decoder (sample_bytes @ [9])" sample_row 16 _ "[9]" 48] sample_row_encodes
  by (simp add: table_schema_def)

lemma truncated_row_detected_witness:
  "\<exists>used. sample_bytes @ [9] = used @ [9] \<and> used \<noteq> [] \<and>
     (\<exists>ctx. next_row 48 (sample_decoder (take 12 sample_bytes)) = Inl (Truncated ctx))"
proof -
  obtain used where u: "sample_bytes @ [9] = used @ [9]" "used \<noteq> []"
    and t: "\<forall>n. 0 < n \<and> n < length used \<longrightarrow> (\<exists>ctx. next_row 48 (sample_decoder (take n used)) = Inl (Truncated ctx))"
    using truncated_row_detected [OF sample_row_read] by auto
  have "used = sample_bytes" using u(1) by (metis append_same_eq)
  then have "\<exists>ctx. next_row 48 (sample_decoder (take 12 sample_bytes)) = Inl (Truncated ctx)"
    using t [rule_format, of 12] by simp
  then show ?thesis using u by blast
qed

text \<open>Whatever bytes a row is decoded from, the row's footprint is within the row limit, and the
  row fits its table's schema: the encoder accepts it under the same blob limit and writes as many
  bytes as the decoder read after the table tag.\<close>

theorem decoded_row_is_bounded_and_encodable:
  assumes "next_row nc d = Inr (Some (index, row), d')"
  shows "footprint nc row \<le> decoder_max_row d \<and> skiff_wf row \<and>
    (\<exists>s bs. table_schema (decoder_format d) index = Inr s \<and> encode_value s row (decoder_max_blob d) = (bs, None) \<and>
       length (decoder_input d) = 2 + length bs + length (decoder_input d'))"
proof -
  let ?b = "budget_new (decoder_max_blob d) (decoder_max_row d)"
  obtain first second s rest b' where d: "decoder_input d = first # second # rest"
    and i: "table_schema (decoder_format d) index = Inr s"
    and v: "decode_value nc s rest ?b = Inr (row, decoder_input d', b')"
    using assms unfolding next_row_Some by blast
  show ?thesis using decode_result(1) [OF v] d i by (auto simp: kept_def budget_new_def)
qed

lemma decoded_row_is_bounded_and_encodable_witness:
  "footprint 48 sample_row \<le> 268435456 \<and>
     (\<exists>bs. encode_value sample_schema sample_row 134217728 = (bs, None) \<and> length bs = 19)"
  using decoded_row_is_bounded_and_encodable [OF sample_row_read] by (auto simp: table_schema_def)

text \<open>Encodings under one schema are self-delimiting: two rows that both encode within the
  limits never produce bytes of which one run starts with the other, unless the rows are equal.\<close>

theorem skiff_encoding_prefix_free:
  assumes "encodable nc mb mr s v" and "encodable nc mb mr s w"
    and "encode_bytes mb s v @ x = encode_bytes mb s w @ y"
  shows "v = w \<and> x = y"
  by (rule skiff.prefix_free [OF assms])

lemma skiff_encoding_prefix_free_witness:
  "encode_bytes 16 sample_schema sample_row @ [1] \<noteq> encode_bytes 16 sample_schema sample_row @ [2]"
  using skiff_encoding_prefix_free [of 48 16 1000 sample_schema sample_row sample_row "[1]" "[2]"]
  by (auto simp: encodable_def sample_row_encodes)

end
