(* ===== verification/Job_Error.thy ===== *)
theory Job_Error
  imports Skiff_Wire
begin

text \<open>
  \<open>crates/ytsaurus-job/src/error.rs\<close>: what a job fails with, its stable names, and which failures
  are about one row only. An \<open>io::Error\<close> is an opaque value.
\<close>

type_synonym io_error = string

text \<open>The reasons of \<open>BadControlRecord\<close>, each with what its format string interpolates.\<close>

datatype control_reason =
    Must_be_int64 string yson_node
  | Must_be_boolean yson_node

datatype job_error =
    Job_Read io_error
  | Job_Write nat io_error
  | Job_Yson nat yson_error
  | TruncatedRecord nat nat
  | RecordTooLarge nat nat
  | BadControlRecord nat control_reason
  | Job_Skiff codec_error
  | BadSkiffSchema nat string
  | BadSkiffControl nat string string
  | SkiffOutputSchemaCount nat nat
  | SkiffWrite nat codec_error
  | UnsupportedDataFormat
  | WorkerRowFormatMismatch string string
  | UnknownTable nat nat "bytes list"
  | Serialize nat yson_error
  | TooManyStatistics nat bytes
  | Statistics string
  | WriteAfterFinish nat

fun job_error_kind :: "job_error \<Rightarrow> string" where
  "job_error_kind (Job_Read _) = ''read_failed''"
| "job_error_kind (Job_Write _ _) = ''write_failed''"
| "job_error_kind (Job_Yson _ _) = ''invalid_yson''"
| "job_error_kind (TruncatedRecord _ _) = ''truncated_record''"
| "job_error_kind (RecordTooLarge _ _) = ''record_too_large''"
| "job_error_kind (BadControlRecord _ _) = ''bad_control_record''"
| "job_error_kind (Job_Skiff _) = ''invalid_skiff''"
| "job_error_kind (BadSkiffSchema _ _) = ''bad_skiff_schema''"
| "job_error_kind (BadSkiffControl _ _ _) = ''bad_skiff_control''"
| "job_error_kind (SkiffOutputSchemaCount _ _) = ''skiff_output_schema_count''"
| "job_error_kind (SkiffWrite _ _) = ''skiff_write_failed''"
| "job_error_kind UnsupportedDataFormat = ''unsupported_data_format''"
| "job_error_kind (WorkerRowFormatMismatch _ _) = ''worker_row_format_mismatch''"
| "job_error_kind (UnknownTable _ _ _) = ''unknown_table''"
| "job_error_kind (Serialize _ _) = ''serialize_failed''"
| "job_error_kind (TooManyStatistics _ _) = ''too_many_statistics''"
| "job_error_kind (Statistics _) = ''statistics_failed''"
| "job_error_kind (WriteAfterFinish _) = ''write_after_finish''"

fun is_row_local :: "job_error \<Rightarrow> bool" where
  "is_row_local (Job_Yson _ _) = True"
| "is_row_local (Serialize _ _) = True"
| "is_row_local _ = False"

end
