(* ===== verification/Job_Reader.thy ===== *)
theory Job_Reader
  imports Job_Error Yson_Scan Yson_De
begin

text \<open>
  \<open>crates/ytsaurus-job/src/reader.rs\<close>: the incremental reader of a job's input. The state is the
  code's: a buffer with the unconsumed region between \<open>pos\<close> and \<open>filled\<close>, the offset of the
  buffer in the stream, what is lined up, and the table, row and range indices that control
  records set. The input is the list of answers its \<open>read\<close> calls give. After an error the reader is
  not used again, so an error carries no state.
\<close>

section \<open>The input\<close>

datatype read_outcome =
    Chunk bytes
  | Interrupted
  | Failed io_error

text \<open>
  The loop around \<open>read\<close>, with room for \<open>space\<close> bytes: an interrupted call is repeated, a chunk
  larger than the room stays in the input, the end of the list is the end of file, and no bytes
  read are the end of file too.
\<close>

fun read_some :: "read_outcome list \<Rightarrow> nat \<Rightarrow> job_error + bytes \<times> read_outcome list" where
  "read_some [] space = Inr ([], [])"
| "read_some (Interrupted # input) space = read_some input space"
| "read_some (Failed e # input) space = Inl (Job_Read e)"
| "read_some (Chunk c # input) space =
     Inr (take space c, if length c \<le> space then input else Chunk (drop space c) # input)"

fun outcome_size :: "read_outcome \<Rightarrow> nat" where
  "outcome_size (Chunk c) = Suc (length c)"
| "outcome_size _ = 1"

abbreviation input_size :: "read_outcome list \<Rightarrow> nat" where
  "input_size input \<equiv> sum_list (map outcome_size input)"

fun input_bytes :: "read_outcome list \<Rightarrow> nat" where
  "input_bytes [] = 0"
| "input_bytes (Chunk c # input) = length c + input_bytes input"
| "input_bytes (_ # input) = input_bytes input"

lemma read_some_size: "read_some input space = Inr (bs, rest) \<Longrightarrow> bs \<noteq> [] \<Longrightarrow> input_size rest < input_size input"
  by (induction input space rule: read_some.induct) (auto split: if_splits)

lemma read_some_bytes: "read_some input space = Inr (bs, rest) \<Longrightarrow>
   length bs + input_bytes rest = input_bytes input \<and> length bs \<le> space"
  by (induction input space rule: read_some.induct) (auto split: if_splits)

section \<open>The reader\<close>

datatype pending = Pending_Row nat | Pending_KeySwitch nat

record job_reader =
  jr_input :: "read_outcome list"
  jr_format :: yson_format
  jr_buf :: bytes
  jr_pos :: nat
  jr_filled :: nat
  jr_base_offset :: nat
  jr_input_done :: bool
  jr_pending :: "pending option"
  jr_max_record_bytes :: nat
  jr_table_index :: i64
  jr_row_index :: "i64 option"
  jr_range_index :: "i64 option"

definition DEFAULT_BUFFER_BYTES :: nat where "DEFAULT_BUFFER_BYTES = 1024 * 1024"
definition DEFAULT_MAX_RECORD_BYTES :: nat where "DEFAULT_MAX_RECORD_BYTES = 256 * 1024 * 1024"
definition USIZE_MAX :: nat where "USIZE_MAX = 2 ^ 64 - 1"

definition reader_with_format :: "read_outcome list \<Rightarrow> yson_format \<Rightarrow> job_reader" where
  "reader_with_format input format =
     \<lparr>jr_input = input, jr_format = format, jr_buf = replicate DEFAULT_BUFFER_BYTES 0, jr_pos = 0,
      jr_filled = 0, jr_base_offset = 0, jr_input_done = False, jr_pending = None,
      jr_max_record_bytes = DEFAULT_MAX_RECORD_BYTES, jr_table_index = 0, jr_row_index = None,
      jr_range_index = None\<rparr>"

definition reader_with_buffer_size :: "job_reader \<Rightarrow> nat \<Rightarrow> job_reader" where
  "reader_with_buffer_size r n = r\<lparr>jr_buf := replicate (max n 64) 0\<rparr>"

definition reader_with_max_record_bytes :: "job_reader \<Rightarrow> nat \<Rightarrow> job_reader" where
  "reader_with_max_record_bytes r n = r\<lparr>jr_max_record_bytes := n\<rparr>"

text \<open>The unconsumed bytes of the buffer.\<close>

definition jr_window :: "job_reader \<Rightarrow> bytes" where
  "jr_window r = take (jr_filled r - jr_pos r) (drop (jr_pos r) (jr_buf r))"

definition is_separator :: "u8 \<Rightarrow> bool" where
  "is_separator b = (b = 0x3B \<or> is_space b)"

function skip_from :: "bytes \<Rightarrow> nat \<Rightarrow> nat \<Rightarrow> nat" where
  "skip_from buf p filled =
     (if p < filled \<and> is_separator (buf ! p) then skip_from buf (p + 1) filled else p)"
  by pat_completeness auto
termination by (relation "measure (\<lambda>(buf, p, filled). filled - p)") auto

declare skip_from.simps [simp del]

definition skip_separators :: "job_reader \<Rightarrow> job_reader" where
  "skip_separators r = r\<lparr>jr_pos := skip_from (jr_buf r) (jr_pos r) (jr_filled r)\<rparr>"

text \<open>The three steps of \<open>fill\<close>: compact, grow, read.\<close>

definition compact :: "job_reader \<Rightarrow> job_reader" where
  "compact r =
     (if jr_pos r > 0 then
        r\<lparr>jr_buf := jr_window r @ drop (length (jr_window r)) (jr_buf r),
          jr_filled := jr_filled r - jr_pos r,
          jr_base_offset := jr_base_offset r + jr_pos r,
          jr_pos := 0\<rparr>
      else r)"

definition grow :: "job_reader \<Rightarrow> job_error + job_reader" where
  "grow r =
     (if jr_filled r = length (jr_buf r) then
        (let new_len = min (length (jr_buf r) * 2) USIZE_MAX
         in if length (jr_buf r) \<ge> jr_max_record_bytes r
            then Inl (RecordTooLarge (jr_base_offset r) (jr_max_record_bytes r))
            else
              (let target = min new_len (jr_max_record_bytes r)
               in Inr (r\<lparr>jr_buf := take target (jr_buf r) @ replicate (target - length (jr_buf r)) 0\<rparr>)))
      else Inr r)"

definition fill :: "job_reader \<Rightarrow> job_error + job_reader" where
  "fill r =
     and_then (grow (compact r)) (\<lambda>r1.
     and_then (read_some (jr_input r1) (length (jr_buf r1) - jr_filled r1)) (\<lambda>(bs, rest).
       Inr (if bs = [] then r1\<lparr>jr_input := rest, jr_input_done := True\<rparr>
            else r1\<lparr>jr_input := rest,
              jr_buf := take (jr_filled r1) (jr_buf r1) @ bs @ drop (jr_filled r1 + length bs) (jr_buf r1),
              jr_filled := jr_filled r1 + length bs\<rparr>)))"

lemma grow_simps:
  assumes "grow r = Inr r'"
  shows "jr_input r' = jr_input r \<and> jr_input_done r' = jr_input_done r \<and> jr_filled r' = jr_filled r \<and>
    jr_pos r' = jr_pos r \<and> jr_base_offset r' = jr_base_offset r"
  using assms by (auto simp: grow_def Let_def split: if_splits)

lemma compact_simps [simp]:
  "jr_input (compact r) = jr_input r" "jr_input_done (compact r) = jr_input_done r"
  "jr_pos (compact r) = 0" "jr_filled (compact r) = jr_filled r - jr_pos r"
  "jr_base_offset (compact r) = jr_base_offset r + jr_pos r"
  by (auto simp: compact_def)

lemma fill_Inr:
  assumes "fill r = Inr r'"
  obtains r1 bs rest where "grow (compact r) = Inr r1"
    "read_some (jr_input r1) (length (jr_buf r1) - jr_filled r1) = Inr (bs, rest)"
    "r' = (if bs = [] then r1\<lparr>jr_input := rest, jr_input_done := True\<rparr>
            else r1\<lparr>jr_input := rest,
              jr_buf := take (jr_filled r1) (jr_buf r1) @ bs @ drop (jr_filled r1 + length bs) (jr_buf r1),
              jr_filled := jr_filled r1 + length bs\<rparr>)"
proof -
  obtain r1 where r1: "grow (compact r) = Inr r1" using assms by (cases "grow (compact r)") (auto simp: fill_def)
  moreover obtain bs rest where "read_some (jr_input r1) (length (jr_buf r1) - jr_filled r1) = Inr (bs, rest)"
    using assms r1 by (cases "read_some (jr_input r1) (length (jr_buf r1) - jr_filled r1)") (auto simp: fill_def)
  ultimately show thesis using that assms by (simp add: fill_def)
qed

lemma fill_progress:
  assumes "fill r = Inr r'"
  shows "jr_input_done r' \<or> (jr_input_done r' = jr_input_done r \<and> input_size (jr_input r') < input_size (jr_input r))"
  using assms
proof (rule fill_Inr)
  fix r1 bs rest
  assume a: "grow (compact r) = Inr r1" "read_some (jr_input r1) (length (jr_buf r1) - jr_filled r1) = Inr (bs, rest)"
    "r' = (if bs = [] then r1\<lparr>jr_input := rest, jr_input_done := True\<rparr>
            else r1\<lparr>jr_input := rest,
              jr_buf := take (jr_filled r1) (jr_buf r1) @ bs @ drop (jr_filled r1 + length bs) (jr_buf r1),
              jr_filled := jr_filled r1 + length bs\<rparr>)"
  show ?thesis using grow_simps [OF a(1)] read_some_size [OF a(2)] a(3) by (cases "bs = []") simp_all
qed

text \<open>The scan of the window, where it holds anything.\<close>

definition scan_window :: "job_reader \<Rightarrow> job_error + nat option" where
  "scan_window r =
     (if jr_pos r < jr_filled r then
        (case scan_value (jr_window r) (jr_format r) of
           Inr (Complete len) \<Rightarrow> Inr (Some len)
         | Inr Incomplete \<Rightarrow> Inr None
         | Inl e \<Rightarrow> Inl (Job_Yson (jr_base_offset r + jr_pos r) e))
      else Inr None)"

function next_record_len :: "job_reader \<Rightarrow> job_error + nat option \<times> job_reader" where
  "next_record_len r0 =
     (let r = skip_separators r0
      in and_then (scan_window r) (\<lambda>found.
           (case found of
              Some len \<Rightarrow> Inr (Some len, r)
            | None \<Rightarrow>
                if jr_input_done r then
                  (if jr_pos r = jr_filled r then Inr (None, r)
                   else Inl (TruncatedRecord (jr_base_offset r + jr_pos r) (jr_filled r - jr_pos r)))
                else and_then (fill r) next_record_len)))"
  by pat_completeness auto
termination
  by (relation "measure (\<lambda>r. if jr_input_done r then 0 else Suc (input_size (jr_input r)))")
    (auto simp: skip_separators_def dest!: fill_progress)

declare next_record_len.simps [simp del]

text \<open>A record found is inside the window, and nothing but separators was given up for it.\<close>

definition jr_remaining :: "job_reader \<Rightarrow> nat" where
  "jr_remaining r = jr_filled r - jr_pos r + input_bytes (jr_input r)"

lemma skip_from_ge: "p \<le> skip_from buf p filled"
  by (induction buf p filled rule: skip_from.induct) (subst skip_from.simps, auto)

lemma skip_from_le: "p \<le> filled \<Longrightarrow> skip_from buf p filled \<le> filled"
  by (induction buf p filled rule: skip_from.induct) (subst skip_from.simps, auto)

lemma fill_remaining:
  assumes "fill r = Inr r'" shows "jr_remaining r' = jr_remaining r"
  using assms
proof (rule fill_Inr)
  fix r1 bs rest
  assume a: "grow (compact r) = Inr r1" "read_some (jr_input r1) (length (jr_buf r1) - jr_filled r1) = Inr (bs, rest)"
    "r' = (if bs = [] then r1\<lparr>jr_input := rest, jr_input_done := True\<rparr>
            else r1\<lparr>jr_input := rest,
              jr_buf := take (jr_filled r1) (jr_buf r1) @ bs @ drop (jr_filled r1 + length bs) (jr_buf r1),
              jr_filled := jr_filled r1 + length bs\<rparr>)"
  show ?thesis using grow_simps [OF a(1)] read_some_bytes [OF a(2)] a(3)
    by (cases "bs = []") (simp_all add: jr_remaining_def)
qed

lemma skip_separators_simps [simp]:
  "jr_input (skip_separators r) = jr_input r" "jr_buf (skip_separators r) = jr_buf r"
  "jr_filled (skip_separators r) = jr_filled r" "jr_base_offset (skip_separators r) = jr_base_offset r"
  "jr_input_done (skip_separators r) = jr_input_done r" "jr_format (skip_separators r) = jr_format r"
  by (simp_all add: skip_separators_def)

lemma skip_separators_remaining: "jr_remaining (skip_separators r) \<le> jr_remaining r"
  using skip_from_ge [of "jr_pos r" "jr_buf r" "jr_filled r"]
  by (simp add: jr_remaining_def skip_separators_def diff_le_mono2)

lemma scan_window_Some: "scan_window r = Inr (Some n) \<Longrightarrow> 0 < n \<and> n \<le> jr_filled r - jr_pos r"
  using scan_tree_consumes [of "jr_format r = Binary" "jr_window r" 0 0 n]
  by (auto simp: scan_window_def scan_value_Complete jr_window_def split: if_splits sum.splits scan.splits)

lemma next_record_len_Some:
  "next_record_len r0 = Inr (Some n, r) \<Longrightarrow>
     0 < n \<and> n \<le> jr_filled r - jr_pos r \<and> jr_remaining r \<le> jr_remaining r0"
proof (induction r0 rule: next_record_len.induct)
  case (1 r0)
  let ?r = "skip_separators r0"
  obtain found where found: "scan_window ?r = Inr found"
    and eq: "(case found of Some len \<Rightarrow> Inr (Some len, ?r)
            | None \<Rightarrow> if jr_input_done ?r then
                  (if jr_pos ?r = jr_filled ?r then Inr (None, ?r)
                   else Inl (TruncatedRecord (jr_base_offset ?r + jr_pos ?r) (jr_filled ?r - jr_pos ?r)))
                else and_then (fill ?r) next_record_len) = Inr (Some n, r)"
    using 1(2) unfolding next_record_len.simps [of r0] Let_def and_then_Inr by blast
  show ?case
  proof (cases found)
    case (Some len)
    then show ?thesis using eq found scan_window_Some [of ?r] skip_separators_remaining [of r0] by auto
  next
    case None
    then have nd: "\<not> jr_input_done ?r" using eq by (auto split: if_splits)
    then obtain r1 where r1: "fill ?r = Inr r1" "next_record_len r1 = Inr (Some n, r)"
      using eq None by (auto simp: and_then_Inr)
    show ?thesis
      using 1(1) [OF refl found None nd r1] fill_remaining [OF r1(1)] skip_separators_remaining [of r0] by simp
  qed
qed

section \<open>Rows and control records\<close>

definition first_significant_byte :: "bytes \<Rightarrow> yson_format \<Rightarrow> u8 option" where
  "first_significant_byte record format =
     (case format of
        Binary \<Rightarrow> (case record of [] \<Rightarrow> None | b # _ \<Rightarrow> Some b)
      | Text \<Rightarrow> find (\<lambda>b. \<not> is_space b) record)"

datatype classified =
    Classified_Row
  | Classified_Skip
  | TableIndex i64
  | RowIndex i64
  | RangeIndex i64
  | Classified_KeySwitch

definition control_i64 :: "nat \<Rightarrow> string \<Rightarrow> yson_value \<Rightarrow> job_error + i64" where
  "control_i64 offset name v = ok_or (as_i64 v) (BadControlRecord offset (Must_be_int64 name (node v)))"

text \<open>The loop over the attributes: the first one with a known name decides.\<close>

fun classify_attributes :: "nat \<Rightarrow> (bytes \<times> yson_value) list \<Rightarrow> job_error + classified" where
  "classify_attributes offset [] = Inr Classified_Skip"
| "classify_attributes offset ((key, v) # others) =
     (if key = ascii ''key_switch'' then
        (case node v of
           Boolean True \<Rightarrow> Inr Classified_KeySwitch
         | Boolean False \<Rightarrow> Inr Classified_Skip
         | other \<Rightarrow> Inl (BadControlRecord offset (Must_be_boolean other)))
      else if key = ascii ''table_index'' then
        and_then (control_i64 offset ''table_index'' v) (\<lambda>i. Inr (TableIndex i))
      else if key = ascii ''row_index'' then
        and_then (control_i64 offset ''row_index'' v) (\<lambda>i. Inr (RowIndex i))
      else if key = ascii ''range_index'' then
        and_then (control_i64 offset ''range_index'' v) (\<lambda>i. Inr (RangeIndex i))
      else classify_attributes offset others)"

definition map_yson :: "nat \<Rightarrow> yson_error + 'a \<Rightarrow> job_error + 'a" where
  "map_yson offset r = (case r of Inl e \<Rightarrow> Inl (Job_Yson offset e) | Inr x \<Rightarrow> Inr x)"

definition classify_attributed :: "bytes \<Rightarrow> yson_format \<Rightarrow> nat \<Rightarrow> job_error + classified" where
  "classify_attributed record format offset =
     and_then (map_yson offset (from_slice record format)) (\<lambda>value.
       if node value \<noteq> Entity then Inr Classified_Row
       else (case attributes value of
               None \<Rightarrow> Inr Classified_Skip
             | Some listed \<Rightarrow> classify_attributes offset listed))"

definition classify :: "bytes \<Rightarrow> yson_format \<Rightarrow> nat \<Rightarrow> job_error + classified" where
  "classify record format offset =
     (if first_significant_byte record format = Some 0x3C then classify_attributed record format offset
      else Inr Classified_Row)"

text \<open>The bytes of the buffer between two positions.\<close>

definition jr_slice :: "job_reader \<Rightarrow> nat \<Rightarrow> nat \<Rightarrow> bytes" where
  "jr_slice r a b = take (b - a) (drop a (jr_buf r))"

text \<open>What a control record changes before its bytes are skipped.\<close>

fun apply_control :: "classified \<Rightarrow> job_reader \<Rightarrow> job_reader" where
  "apply_control (TableIndex i) r = r\<lparr>jr_table_index := i, jr_row_index := None, jr_range_index := None\<rparr>"
| "apply_control (RowIndex i) r = r\<lparr>jr_row_index := Some i\<rparr>"
| "apply_control (RangeIndex i) r = r\<lparr>jr_range_index := Some i\<rparr>"
| "apply_control _ r = r"

lemma apply_control_simps [simp]:
  "jr_filled (apply_control c r) = jr_filled r" "jr_pos (apply_control c r) = jr_pos r"
  "jr_input (apply_control c r) = jr_input r" "jr_buf (apply_control c r) = jr_buf r"
  "jr_base_offset (apply_control c r) = jr_base_offset r" "jr_format (apply_control c r) = jr_format r"
  "jr_input_done (apply_control c r) = jr_input_done r" "jr_pending (apply_control c r) = jr_pending r"
  "jr_max_record_bytes (apply_control c r) = jr_max_record_bytes r"
  by (cases c; simp)+

function ensure_loop :: "job_reader \<Rightarrow> job_error + pending option \<times> job_reader" where
  "ensure_loop r0 =
     (case next_record_len r0 of
        Inl e \<Rightarrow> Inl e
      | Inr (None, r) \<Rightarrow> Inr (None, r)
      | Inr (Some len, r) \<Rightarrow>
          (case classify (jr_slice r (jr_pos r) (jr_pos r + len)) (jr_format r) (jr_base_offset r + jr_pos r) of
             Inl e \<Rightarrow> Inl e
           | Inr Classified_Row \<Rightarrow> Inr (Some (Pending_Row len), r\<lparr>jr_pending := Some (Pending_Row len)\<rparr>)
           | Inr Classified_KeySwitch \<Rightarrow>
               Inr (Some (Pending_KeySwitch len), r\<lparr>jr_pending := Some (Pending_KeySwitch len)\<rparr>)
           | Inr c \<Rightarrow> ensure_loop ((apply_control c r)\<lparr>jr_pos := jr_pos r + len\<rparr>)))"
  by pat_completeness auto
termination
  by (relation "measure jr_remaining") (auto simp: jr_remaining_def dest!: next_record_len_Some)

declare ensure_loop.simps [simp del]

definition ensure_pending :: "job_reader \<Rightarrow> job_error + pending option \<times> job_reader" where
  "ensure_pending r =
     (case jr_pending r of
        Some pending \<Rightarrow> Inr (Some pending, r)
      | None \<Rightarrow> ensure_loop r)"

definition consume :: "job_reader \<Rightarrow> nat \<Rightarrow> job_reader" where
  "consume r len =
     r\<lparr>jr_pos := jr_pos r + len,
       jr_row_index := (case jr_pending r of
           Some (Pending_Row _) \<Rightarrow> map_option (\<lambda>index. index + 1) (jr_row_index r)
         | _ \<Rightarrow> jr_row_index r),
       jr_pending := None\<rparr>"

definition discard_pending :: "job_reader \<Rightarrow> job_reader" where
  "discard_pending r =
     (case jr_pending r of
        Some (Pending_Row len) \<Rightarrow> consume r len
      | Some (Pending_KeySwitch len) \<Rightarrow> consume r len
      | None \<Rightarrow> r)"

record job_row =
  row_table_index :: i64
  row_row_index :: "i64 option"
  row_range_index :: "i64 option"
  row_bytes :: bytes
  row_format :: yson_format
  row_offset :: nat

datatype event = Row job_row | KeySwitch

text \<open>The row \<open>next_event\<close> and \<open>Group::next_row\<close> build before they consume it.\<close>

definition pending_row :: "job_reader \<Rightarrow> nat \<Rightarrow> job_row" where
  "pending_row r len =
     \<lparr>row_table_index = jr_table_index r, row_row_index = jr_row_index r,
      row_range_index = jr_range_index r, row_bytes = jr_slice r (jr_pos r) (jr_pos r + len),
      row_format = jr_format r, row_offset = jr_base_offset r + jr_pos r\<rparr>"

definition next_event :: "job_reader \<Rightarrow> job_error + event option \<times> job_reader" where
  "next_event r0 =
     and_then (ensure_pending r0) (\<lambda>(pending, r).
       case pending of
         None \<Rightarrow> Inr (None, r)
       | Some (Pending_KeySwitch len) \<Rightarrow> Inr (Some KeySwitch, consume r len)
       | Some (Pending_Row len) \<Rightarrow> Inr (Some (Row (pending_row r len)), consume r len))"

definition row_value :: "job_row \<Rightarrow> job_error + yson_value" where
  "row_value row = map_yson (row_offset row) (from_slice (row_bytes row) (row_format row))"

section \<open>Reduce groups\<close>

type_synonym group_key = "(bytes \<times> yson_value) list"

definition decode_key :: "job_reader \<Rightarrow> nat \<Rightarrow> bytes list \<Rightarrow> job_error + group_key" where
  "decode_key r len columns =
     (let offset = jr_base_offset r + jr_pos r
      in and_then (map_yson offset (from_slice (jr_slice r (jr_pos r) (jr_pos r + len)) (jr_format r))) (\<lambda>value.
           case node value of
             Map entries \<Rightarrow>
               Inr (concat (map (\<lambda>name. case map_of entries name of Some v \<Rightarrow> [(name, v)] | None \<Rightarrow> []) columns))
           | _ \<Rightarrow> Inl (Job_Yson offset (Custom Reduce_key_not_a_map))))"

definition key_get :: "group_key \<Rightarrow> bytes \<Rightarrow> yson_value option" where
  "key_get key name = map_of key name"

definition key_bytes :: "group_key \<Rightarrow> bytes \<Rightarrow> bytes option" where
  "key_bytes key name =
     (case key_get key name of
        None \<Rightarrow> None
      | Some v \<Rightarrow> (case node v of String bs \<Rightarrow> Some bs | _ \<Rightarrow> None))"

definition key_i64 :: "group_key \<Rightarrow> bytes \<Rightarrow> i64 option" where
  "key_i64 key name = (case key_get key name of None \<Rightarrow> None | Some v \<Rightarrow> as_i64 v)"

record job_groups =
  gs_reader :: job_reader
  gs_in_group :: bool
  gs_key_columns :: "bytes list"

definition groups_by :: "job_reader \<Rightarrow> bytes list \<Rightarrow> job_groups" where
  "groups_by r columns = \<lparr>gs_reader = r, gs_in_group = False, gs_key_columns = columns\<rparr>"

definition groups :: "job_reader \<Rightarrow> job_groups" where
  "groups r = groups_by r []"

text \<open>A group borrows the reader: here it holds it, and gives it back when the group is dropped.\<close>

record job_group =
  gr_reader :: job_reader
  gr_done :: bool
  gr_key :: group_key

text \<open>The loops over pending records end: each pass consumes one.\<close>

fun pending_len :: "pending \<Rightarrow> nat" where
  "pending_len (Pending_Row len) = len"
| "pending_len (Pending_KeySwitch len) = len"

lemma ensure_loop_unfold:
  assumes "next_record_len r0 = Inr (Some len, r)"
    and "classify (jr_slice r (jr_pos r) (jr_pos r + len)) (jr_format r) (jr_base_offset r + jr_pos r) = Inr c"
  shows "ensure_loop r0 =
    (if c = Classified_Row then Inr (Some (Pending_Row len), r\<lparr>jr_pending := Some (Pending_Row len)\<rparr>)
     else if c = Classified_KeySwitch then
       Inr (Some (Pending_KeySwitch len), r\<lparr>jr_pending := Some (Pending_KeySwitch len)\<rparr>)
     else ensure_loop ((apply_control c r)\<lparr>jr_pos := jr_pos r + len\<rparr>))"
  using assms by (cases c) (simp_all add: ensure_loop.simps [of r0])

lemma ensure_loop_Some:
  "ensure_loop r0 = Inr (Some p, r) \<Longrightarrow>
     jr_pending r = Some p \<and> 0 < pending_len p \<and> pending_len p \<le> jr_filled r - jr_pos r \<and>
     jr_remaining r \<le> jr_remaining r0"
proof (induction "jr_remaining r0" arbitrary: r0 rule: less_induct)
  case less
  obtain len r1 where n: "next_record_len r0 = Inr (Some len, r1)"
    using less(2) by (auto simp: ensure_loop.simps [of r0] split: sum.splits option.splits prod.splits)
  have b: "0 < len" "len \<le> jr_filled r1 - jr_pos r1" "jr_remaining r1 \<le> jr_remaining r0"
    using next_record_len_Some [OF n] by auto
  obtain c where c: "classify (jr_slice r1 (jr_pos r1) (jr_pos r1 + len)) (jr_format r1) (jr_base_offset r1 + jr_pos r1) = Inr c"
    using less(2) n by (auto simp: ensure_loop.simps [of r0] split: sum.splits)
  note eq = less(2) [unfolded ensure_loop_unfold [OF n c]]
  let ?r2 = "(apply_control c r1)\<lparr>jr_pos := jr_pos r1 + len\<rparr>"
  have rem: "jr_remaining ?r2 < jr_remaining r0"
    using b by (auto simp: jr_remaining_def)
  show ?case
  proof (cases "c = Classified_Row \<or> c = Classified_KeySwitch")
    case True
    then show ?thesis using eq b by (auto simp: jr_remaining_def split: if_splits)
  next
    case False
    then have "ensure_loop ?r2 = Inr (Some p, r)" using eq by simp
    from less(1) [OF rem this] show ?thesis using rem by simp
  qed
qed

definition groups_measure :: "job_reader \<Rightarrow> nat" where
  "groups_measure r = 2 * jr_remaining r + (if jr_pending r = None then 0 else 1)"

lemma ensure_pending_Some: "ensure_pending r0 = Inr (Some p, r) \<Longrightarrow> jr_pending r = Some p"
  using ensure_loop_Some [of r0 p r] by (auto simp: ensure_pending_def split: option.splits)

lemma consume_simps [simp]: "jr_pending (consume r n) = None" "jr_filled (consume r n) = jr_filled r"
    "jr_pos (consume r n) = jr_pos r + n" "jr_input (consume r n) = jr_input r"
  by (simp_all add: consume_def)

lemma discard_shrinks:
  assumes "ensure_pending r0 = Inr (Some p, r)"
  shows "groups_measure (discard_pending r) < groups_measure r0"
proof (cases "jr_pending r0")
  case None
  then have e: "ensure_loop r0 = Inr (Some p, r)" using assms by (simp add: ensure_pending_def)
  show ?thesis using ensure_loop_Some [OF e] None
    by (cases p) (auto simp: groups_measure_def discard_pending_def jr_remaining_def)
next
  case (Some q)
  then show ?thesis using assms
    by (cases q) (auto simp: ensure_pending_def groups_measure_def discard_pending_def jr_remaining_def)
qed

text \<open>
  What \<open>next_group\<close> drains of the current group; whether it stopped at a boundary (and not at
  the end of the stream).
\<close>

function drain_group :: "job_reader \<Rightarrow> job_error + bool \<times> job_reader" where
  "drain_group r0 =
     (case ensure_pending r0 of
        Inl e \<Rightarrow> Inl e
      | Inr (None, r) \<Rightarrow> Inr (False, r)
      | Inr (Some (Pending_KeySwitch len), r) \<Rightarrow> Inr (True, discard_pending r)
      | Inr (Some (Pending_Row len), r) \<Rightarrow> drain_group (discard_pending r))"
  by pat_completeness auto
termination by (relation "measure groups_measure") (auto dest: discard_shrinks)

declare drain_group.simps [simp del]

definition open_group :: "job_groups \<Rightarrow> job_error + job_group option \<times> job_groups" where
  "open_group gs =
     and_then (ensure_pending (gs_reader gs)) (\<lambda>(pending, r).
       case pending of
         None \<Rightarrow> Inr (None, gs\<lparr>gs_reader := r, gs_in_group := False\<rparr>)
       | Some (Pending_KeySwitch len) \<Rightarrow>
           (let gs' = gs\<lparr>gs_reader := discard_pending r, gs_in_group := False\<rparr>
            in Inr (Some \<lparr>gr_reader = gs_reader gs', gr_done = True, gr_key = []\<rparr>, gs'))
       | Some (Pending_Row len) \<Rightarrow>
           and_then (if gs_key_columns gs = [] then Inr [] else decode_key r len (gs_key_columns gs)) (\<lambda>key.
             (let gs' = gs\<lparr>gs_reader := r, gs_in_group := True\<rparr>
              in Inr (Some \<lparr>gr_reader = r, gr_done = False, gr_key = key\<rparr>, gs'))))"

definition next_group :: "job_groups \<Rightarrow> job_error + job_group option \<times> job_groups" where
  "next_group gs =
     (if gs_in_group gs then
        and_then (drain_group (gs_reader gs)) (\<lambda>(boundary, r).
          if boundary then open_group (gs\<lparr>gs_reader := r\<rparr>)
          else Inr (None, gs\<lparr>gs_reader := r, gs_in_group := False\<rparr>))
      else open_group gs)"

definition group_next_row :: "job_group \<Rightarrow> job_error + job_row option \<times> job_group" where
  "group_next_row g =
     (if gr_done g then Inr (None, g)
      else and_then (ensure_pending (gr_reader g)) (\<lambda>(pending, r).
        case pending of
          Some (Pending_Row len) \<Rightarrow> Inr (Some (pending_row r len), g\<lparr>gr_reader := consume r len\<rparr>)
        | _ \<Rightarrow> Inr (None, g\<lparr>gr_reader := r, gr_done := True\<rparr>)))"

text \<open>Dropping a group gives the reader back to the \<open>Groups\<close> it came from.\<close>

definition drop_group :: "job_group \<Rightarrow> job_groups \<Rightarrow> job_groups" where
  "drop_group g gs = gs\<lparr>gs_reader := gr_reader g\<rparr>"

end
