(* ===== verification/Job_Stream.thy ===== *)
theory Job_Stream
  imports Job_Reader
begin

text \<open>
  What the job reader promises, stated on the whole stream at once: no buffer, no positions, no
  reads. The reader of \<open>Job_Reader\<close> refines it for every way the input arrives in chunks, for
  every buffer size, and when reads are interrupted or fail.
\<close>

section \<open>The stream an input stands for\<close>

text \<open>The bytes up to the end of file or the first failing read, and that failure.\<close>

fun stream_of :: "read_outcome list \<Rightarrow> bytes" where
  "stream_of [] = []"
| "stream_of (Interrupted # input) = stream_of input"
| "stream_of (Failed e # input) = []"
| "stream_of (Chunk c # input) = (if c = [] then [] else c @ stream_of input)"

fun fate_of :: "read_outcome list \<Rightarrow> io_error option" where
  "fate_of [] = None"
| "fate_of (Interrupted # input) = fate_of input"
| "fate_of (Failed e # input) = Some e"
| "fate_of (Chunk c # input) = (if c = [] then None else fate_of input)"

lemma read_some_Inl:
  "read_some input space = Inl e \<Longrightarrow> \<exists>io. e = Job_Read io \<and> fate_of input = Some io \<and> stream_of input = []"
  by (induction input space rule: read_some.induct) auto

lemma read_some_Nil:
  "read_some input space = Inr ([], rest) \<Longrightarrow> 0 < space \<Longrightarrow> stream_of input = [] \<and> fate_of input = None"
  by (induction input space rule: read_some.induct) (auto split: if_splits)

lemma read_some_Cons:
  "read_some input space = Inr (bs, rest) \<Longrightarrow> bs \<noteq> [] \<Longrightarrow> 0 < space \<Longrightarrow>
     stream_of input = bs @ stream_of rest \<and> fate_of input = fate_of rest"
  by (induction input space rule: read_some.induct) (auto split: if_splits)

section \<open>The abstract reader\<close>

record stream_reader =
  sr_rest :: bytes
  sr_fate :: "io_error option"
  sr_offset :: nat
  sr_format :: yson_format
  sr_table_index :: i64
  sr_row_index :: "i64 option"
  sr_range_index :: "i64 option"

definition sr_skip :: "stream_reader \<Rightarrow> stream_reader" where
  "sr_skip s =
     s\<lparr>sr_rest := dropWhile is_separator (sr_rest s),
       sr_offset := sr_offset s + length (takeWhile is_separator (sr_rest s))\<rparr>"

text \<open>
  The next record: separators are skipped, and a value is looked for in the \<open>limit\<close> bytes that
  follow. A value that does not end there is too large, or cut off by the end of the stream.
\<close>

definition stream_record :: "nat \<Rightarrow> nat \<Rightarrow> stream_reader \<Rightarrow> job_error + (nat \<times> stream_reader) option" where
  "stream_record limit max_bytes s0 =
     (let s = sr_skip s0;
          short = (if length (sr_rest s) \<ge> limit then Inl (RecordTooLarge (sr_offset s) max_bytes)
                   else (case sr_fate s of
                           Some io \<Rightarrow> Inl (Job_Read io)
                         | None \<Rightarrow>
                             if sr_rest s = [] then Inr None
                             else Inl (TruncatedRecord (sr_offset s) (length (sr_rest s)))))
      in if sr_rest s = [] then short
         else (case scan_value (take limit (sr_rest s)) (sr_format s) of
                 Inl e \<Rightarrow> Inl (Job_Yson (sr_offset s) e)
               | Inr (Complete n) \<Rightarrow> Inr (Some (n, s))
               | Inr Incomplete \<Rightarrow> short))"

definition sr_advance :: "nat \<Rightarrow> stream_reader \<Rightarrow> stream_reader" where
  "sr_advance n s = s\<lparr>sr_rest := drop n (sr_rest s), sr_offset := sr_offset s + n\<rparr>"

fun sr_control :: "classified \<Rightarrow> stream_reader \<Rightarrow> stream_reader" where
  "sr_control (TableIndex i) s = s\<lparr>sr_table_index := i, sr_row_index := None, sr_range_index := None\<rparr>"
| "sr_control (RowIndex i) s = s\<lparr>sr_row_index := Some i\<rparr>"
| "sr_control (RangeIndex i) s = s\<lparr>sr_range_index := Some i\<rparr>"
| "sr_control _ s = s"

definition sr_row :: "stream_reader \<Rightarrow> nat \<Rightarrow> job_row" where
  "sr_row s n =
     \<lparr>row_table_index = sr_table_index s, row_row_index = sr_row_index s,
      row_range_index = sr_range_index s, row_bytes = take n (sr_rest s), row_format = sr_format s,
      row_offset = sr_offset s\<rparr>"

lemma sr_control_simps [simp]:
  "sr_rest (sr_control c s) = sr_rest s" "sr_offset (sr_control c s) = sr_offset s"
  "sr_format (sr_control c s) = sr_format s" "sr_fate (sr_control c s) = sr_fate s"
  by (cases c; simp)+

lemma stream_record_shrinks:
  assumes "stream_record limit m s0 = Inr (Some (n, s))"
  shows "0 < n \<and> n \<le> length (sr_rest s) \<and> length (sr_rest s) \<le> length (sr_rest s0) \<and> s = sr_skip s0"
proof -
  from assms have s: "s = sr_skip s0" "scan_value (take limit (sr_rest s)) (sr_format s) = Inr (Complete n)"
    by (auto simp: stream_record_def Let_def split: if_splits option.splits sum.splits scan.splits)
  show ?thesis
    using scan_tree_consumes [of "sr_format s = Binary" "take limit (sr_rest s)" 0 0 n] s
    by (auto simp: scan_value_Complete sr_skip_def length_dropWhile_le)
qed

text \<open>All events of a stream, and the error that ends it, if one does.\<close>

function stream_events :: "nat \<Rightarrow> nat \<Rightarrow> stream_reader \<Rightarrow> event list \<times> job_error option" where
  "stream_events limit m s0 =
     (case stream_record limit m s0 of
        Inl e \<Rightarrow> ([], Some e)
      | Inr None \<Rightarrow> ([], None)
      | Inr (Some (n, s)) \<Rightarrow>
          (case classify (take n (sr_rest s)) (sr_format s) (sr_offset s) of
             Inl e \<Rightarrow> ([], Some e)
           | Inr c \<Rightarrow>
               (if c = Classified_Row then
                  apfst (Cons (Row (sr_row s n)))
                    (stream_events limit m
                      ((sr_advance n s)\<lparr>sr_row_index := map_option (\<lambda>i. i + 1) (sr_row_index s)\<rparr>))
                else if c = Classified_KeySwitch then
                  apfst (Cons KeySwitch) (stream_events limit m (sr_advance n s))
                else stream_events limit m (sr_advance n (sr_control c s)))))"
  by pat_completeness auto
termination
  by (relation "measure (\<lambda>(limit, m, s). length (sr_rest s))")
    (auto simp: sr_advance_def dest!: stream_record_shrinks)

declare stream_events.simps [simp del]

section \<open>The reader refines it\<close>

definition reader_ok :: "job_reader \<Rightarrow> bool" where
  "reader_ok r =
     (jr_pos r \<le> jr_filled r \<and> jr_filled r \<le> length (jr_buf r) \<and> 0 < length (jr_buf r) \<and>
      jr_max_record_bytes r \<le> USIZE_MAX \<and> (jr_input_done r \<longrightarrow> jr_filled r < length (jr_buf r)))"

definition jr_tail :: "job_reader \<Rightarrow> bytes" where
  "jr_tail r = (if jr_input_done r then [] else stream_of (jr_input r))"

definition abs_reader :: "job_reader \<Rightarrow> stream_reader" where
  "abs_reader r =
     \<lparr>sr_rest = jr_window r @ jr_tail r, sr_fate = (if jr_input_done r then None else fate_of (jr_input r)),
      sr_offset = jr_base_offset r + jr_pos r, sr_format = jr_format r,
      sr_table_index = jr_table_index r, sr_row_index = jr_row_index r, sr_range_index = jr_range_index r\<rparr>"

text \<open>The most a record can have: the ceiling, or the buffer where that is larger.\<close>

definition jr_limit :: "job_reader \<Rightarrow> nat" where
  "jr_limit r = max (length (jr_buf r)) (jr_max_record_bytes r)"

definition jr_same :: "job_reader \<Rightarrow> job_reader \<Rightarrow> bool" where
  "jr_same r r' \<longleftrightarrow> jr_limit r' = jr_limit r \<and> jr_max_record_bytes r' = jr_max_record_bytes r \<and>
     jr_pending r' = jr_pending r \<and> jr_format r' = jr_format r"

lemma jr_same_refl [simp]: "jr_same r r"
  by (simp add: jr_same_def)

lemma jr_same_trans: "jr_same r r' \<Longrightarrow> jr_same r' r'' \<Longrightarrow> jr_same r r''"
  by (simp add: jr_same_def)

lemma length_window: "reader_ok r \<Longrightarrow> length (jr_window r) = jr_filled r - jr_pos r"
  by (auto simp: jr_window_def reader_ok_def)

lemma skip_from_takeWhile:
  "filled \<le> length buf \<Longrightarrow> skip_from buf p filled = p + length (takeWhile is_separator (take (filled - p) (drop p buf)))"
proof (induction buf p filled rule: skip_from.induct)
  case (1 buf p filled)
  show ?case
  proof (cases "p < filled")
    case True
    then have "take (filled - p) (drop p buf) = buf ! p # take (filled - (p + 1)) (drop (p + 1) buf)"
      using 1(2) by (metis Cons_nth_drop_Suc Suc_diff_Suc Suc_eq_plus1 order_less_le_trans take_Suc_Cons)
    then show ?thesis using 1 True by (subst skip_from.simps) auto
  qed (subst skip_from.simps, simp)
qed

lemma skip_window:
  assumes "reader_ok r"
  shows "jr_window (skip_separators r) = dropWhile is_separator (jr_window r)"
    and "jr_pos (skip_separators r) = jr_pos r + length (takeWhile is_separator (jr_window r))"
    and "reader_ok (skip_separators r)" and "jr_same r (skip_separators r)"
proof -
  have len: "jr_filled r \<le> length (jr_buf r)" using assms by (simp add: reader_ok_def)
  show pos: "jr_pos (skip_separators r) = jr_pos r + length (takeWhile is_separator (jr_window r))"
    using skip_from_takeWhile [OF len, of "jr_pos r"] by (simp add: skip_separators_def jr_window_def)
  show "reader_ok (skip_separators r)"
    using assms skip_from_le [of "jr_pos r" "jr_filled r" "jr_buf r"] by (simp add: reader_ok_def skip_separators_def)
  show "jr_same r (skip_separators r)" by (simp add: jr_same_def skip_separators_def jr_limit_def)
  have "jr_window (skip_separators r) = drop (length (takeWhile is_separator (jr_window r))) (jr_window r)"
    using pos by (simp add: jr_window_def drop_take add.commute)
  then show "jr_window (skip_separators r) = dropWhile is_separator (jr_window r)"
    by (simp add: dropWhile_eq_drop)
qed

lemma dropWhile_twice: "dropWhile P (dropWhile P xs @ ys) = dropWhile P (xs @ ys)"
  by (induction xs) auto

lemma takeWhile_twice:
  "length (takeWhile P xs) + length (takeWhile P (dropWhile P xs @ ys)) = length (takeWhile P (xs @ ys))"
  by (induction xs) auto

lemma jr_tail_skip: "jr_tail (skip_separators r) = jr_tail r"
  by (simp add: jr_tail_def)

lemma sr_skip_abs: "reader_ok r \<Longrightarrow> sr_skip (abs_reader (skip_separators r)) = sr_skip (abs_reader r)"
  using takeWhile_twice [of is_separator "jr_window r" "jr_tail r"]
  by (simp add: sr_skip_def abs_reader_def skip_window dropWhile_twice jr_tail_skip)
    (simp add: skip_separators_def)

lemma stream_record_skip: "sr_skip s = sr_skip s' \<Longrightarrow> stream_record limit m s = stream_record limit m s'"
  by (simp add: stream_record_def)

text \<open>Compacting, growing and reading do not change what the reader stands for.\<close>

lemma compact_ok:
  assumes "reader_ok r"
  shows "jr_window (compact r) = jr_window r" "length (jr_buf (compact r)) = length (jr_buf r)"
    "reader_ok (compact r)" "abs_reader (compact r) = abs_reader r" "jr_same r (compact r)"
proof -
  have w: "length (jr_window r) = jr_filled r - jr_pos r" using length_window [OF assms] .
  have b: "jr_filled r - jr_pos r \<le> length (jr_buf r)" using assms by (auto simp: reader_ok_def)
  show win: "jr_window (compact r) = jr_window r"
  proof (cases "jr_pos r > 0")
    case True
    have "jr_window (compact r) = take (jr_filled r - jr_pos r) (jr_window r @ drop (length (jr_window r)) (jr_buf r))"
      by (subst jr_window_def) (simp add: compact_def True)
    then show ?thesis using w by simp
  qed (simp add: compact_def)
  show len: "length (jr_buf (compact r)) = length (jr_buf r)"
    using w b by (simp add: compact_def)
  show "reader_ok (compact r)"
    using assms len by (auto simp: reader_ok_def) (simp_all add: compact_def)
  show "abs_reader (compact r) = abs_reader r"
    using win by (simp add: abs_reader_def jr_tail_def) (simp add: compact_def)
  show "jr_same r (compact r)" using len by (simp add: jr_same_def jr_limit_def) (simp add: compact_def)
qed

lemma grow_ok:
  assumes "reader_ok r" "jr_pos r = 0"
  shows "grow r = Inl e \<Longrightarrow> e = RecordTooLarge (jr_base_offset r) (jr_max_record_bytes r) \<and>
      length (jr_window r) = jr_limit r"
    and "grow r = Inr r' \<Longrightarrow> reader_ok r' \<and> abs_reader r' = abs_reader r \<and> jr_same r r' \<and> jr_pos r' = 0 \<and>
      jr_window r' = jr_window r \<and> jr_filled r' < length (jr_buf r')"
proof -
  assume "grow r = Inl e"
  then show "e = RecordTooLarge (jr_base_offset r) (jr_max_record_bytes r) \<and> length (jr_window r) = jr_limit r"
    using assms by (auto simp: grow_def Let_def jr_limit_def jr_window_def split: if_splits)
next
  assume g: "grow r = Inr r'"
  show "reader_ok r' \<and> abs_reader r' = abs_reader r \<and> jr_same r r' \<and> jr_pos r' = 0 \<and>
      jr_window r' = jr_window r \<and> jr_filled r' < length (jr_buf r')"
  proof (cases "jr_filled r = length (jr_buf r)")
    case False
    then show ?thesis using g assms by (auto simp: grow_def reader_ok_def)
  next
    case True
    define target where "target = min (min (length (jr_buf r) * 2) USIZE_MAX) (jr_max_record_bytes r)"
    have t: "length (jr_buf r) < jr_max_record_bytes r"
      and r': "r' = r\<lparr>jr_buf := take target (jr_buf r) @ replicate (target - length (jr_buf r)) 0\<rparr>"
      using g True by (auto simp: grow_def Let_def target_def split: if_splits)
    have big: "length (jr_buf r) < target" "target \<le> jr_max_record_bytes r"
      using t assms by (auto simp: target_def reader_ok_def)
    have len: "length (jr_buf r') = target" using big by (simp add: r')
    have win: "jr_window r' = jr_window r" using big True assms by (simp add: r' jr_window_def)
    have ok: "reader_ok r'"
      using len big True assms by (simp add: reader_ok_def) (simp add: r')
    have abs: "abs_reader r' = abs_reader r"
      using win by (simp add: abs_reader_def jr_tail_def) (simp add: r')
    have same: "jr_same r r'"
      using len big by (simp add: jr_same_def jr_limit_def) (simp add: r')
    have "jr_pos r' = 0" "jr_filled r' = jr_filled r" using assms(2) by (simp_all add: r')
    then show ?thesis using ok abs same win len big True by simp
  qed
qed

lemma fill_ok:
  assumes "reader_ok r" "\<not> jr_input_done r"
  shows "fill r = Inl e \<Longrightarrow>
      e = RecordTooLarge (jr_base_offset r + jr_pos r) (jr_max_record_bytes r) \<and> length (jr_window r) = jr_limit r \<or>
      (\<exists>io. e = Job_Read io \<and> sr_fate (abs_reader r) = Some io \<and> jr_tail r = [] \<and> length (jr_window r) < jr_limit r)"
    and "fill r = Inr r' \<Longrightarrow> reader_ok r' \<and> abs_reader r' = abs_reader r \<and> jr_same r r'"
proof -
  note c = compact_ok [OF assms(1)]
  assume f: "fill r = Inl e"
  show "e = RecordTooLarge (jr_base_offset r + jr_pos r) (jr_max_record_bytes r) \<and> length (jr_window r) = jr_limit r \<or>
      (\<exists>io. e = Job_Read io \<and> sr_fate (abs_reader r) = Some io \<and> jr_tail r = [] \<and> length (jr_window r) < jr_limit r)"
  proof (cases "grow (compact r)")
    case (Inl e')
    then show ?thesis using f c grow_ok(1) [OF c(3) _ Inl] by (simp add: fill_def jr_same_def)
  next
    case (Inr r1)
    note g = grow_ok(2) [OF c(3) _ Inr, simplified]
    have rd: "read_some (jr_input r1) (length (jr_buf r1) - jr_filled r1) = Inl e"
      using f Inr by (auto simp: fill_def and_then_Inl split: prod.splits if_splits)
    have same: "jr_input r1 = jr_input r" "jr_input_done r1 = jr_input_done r" using grow_simps [OF Inr] by simp_all
    have "length (jr_window r1) < jr_limit r1" using g length_window [of r1] by (simp add: jr_limit_def less_max_iff_disj)
    then have "length (jr_window r) < jr_limit r" using g c by (simp add: jr_same_def)
    then show ?thesis using read_some_Inl [OF rd] same assms by (auto simp: abs_reader_def jr_tail_def)
  qed
next
  note c = compact_ok [OF assms(1)]
  assume f: "fill r = Inr r'"
  then show "reader_ok r' \<and> abs_reader r' = abs_reader r \<and> jr_same r r'"
  proof (rule fill_Inr)
    fix r1 bs rest
    assume g': "grow (compact r) = Inr r1"
      and rd: "read_some (jr_input r1) (length (jr_buf r1) - jr_filled r1) = Inr (bs, rest)"
      and r': "r' = (if bs = [] then r1\<lparr>jr_input := rest, jr_input_done := True\<rparr>
            else r1\<lparr>jr_input := rest,
              jr_buf := take (jr_filled r1) (jr_buf r1) @ bs @ drop (jr_filled r1 + length bs) (jr_buf r1),
              jr_filled := jr_filled r1 + length bs\<rparr>)"
    note g = grow_ok(2) [OF c(3) _ g', simplified]
    have nd: "\<not> jr_input_done r1" using grow_simps [OF g'] assms by simp
    have abs: "reader_ok r1" "abs_reader r1 = abs_reader r" "jr_same r r1"
      using g c jr_same_trans by auto
    have room: "0 < length (jr_buf r1) - jr_filled r1" using g by simp
    have small: "length bs \<le> length (jr_buf r1) - jr_filled r1" using read_some_bytes [OF rd] by simp
    show ?thesis
    proof (cases "bs = []")
      case True
      have "abs_reader r' = abs_reader r1"
        using read_some_Nil [OF rd [unfolded True] room] nd True
        by (simp add: r' abs_reader_def jr_tail_def jr_window_def)
      moreover have "reader_ok r'" "jr_same r1 r'"
        using abs(1) g True by (auto simp: r' reader_ok_def jr_same_def jr_limit_def)
      ultimately show ?thesis using abs jr_same_trans by auto
    next
      case False
      have "jr_window r' = jr_window r1 @ bs"
        using g small False abs(1) by (simp add: r' jr_window_def reader_ok_def)
      then have "abs_reader r' = abs_reader r1"
        using read_some_Cons [OF rd False room] nd False
        by (simp add: abs_reader_def jr_tail_def) (simp add: r')
      moreover have "reader_ok r'" "jr_same r1 r'"
        using abs(1) g False small nd by (auto simp: r' reader_ok_def jr_same_def jr_limit_def)
      ultimately show ?thesis using abs jr_same_trans by auto
    qed
  qed
qed

text \<open>What the scan of a full-enough prefix says is what the scan of the whole says.\<close>

lemma scan_value_more:
  assumes "scan_value xs Binary = res" "res \<noteq> Inr Incomplete"
  shows "scan_value (xs @ ys) Binary = res"
proof -
  have "settled (scan_tree True xs 0 0)"
    using assms by (auto simp: scan_value_def settled_def is_starved_def split: sum.splits yson_error.splits)
  from scan_settled(1) [OF _ this, of ys] assms show ?thesis by (simp add: scan_value_def)
qed

lemma sr_skip_done: "dropWhile is_separator (sr_rest s) = sr_rest s \<Longrightarrow> sr_skip s = s"
  using takeWhile_dropWhile_id [of is_separator "sr_rest s"] by (simp add: sr_skip_def)

lemma abs_reader_simps [simp]:
  "sr_rest (abs_reader r) = jr_window r @ jr_tail r" "sr_offset (abs_reader r) = jr_base_offset r + jr_pos r"
  "sr_format (abs_reader r) = jr_format r"
  by (simp_all add: abs_reader_def)

lemma sr_skip_window:
  assumes "dropWhile is_separator (jr_window r) = jr_window r" "jr_window r \<noteq> [] \<or> jr_tail r = []"
  shows "sr_skip (abs_reader r) = abs_reader r"
proof (rule sr_skip_done, cases "jr_window r")
  case (Cons b bs)
  then have "\<not> is_separator b" using assms(1) length_dropWhile_le [of is_separator bs] by auto
  then show "dropWhile is_separator (sr_rest (abs_reader r)) = sr_rest (abs_reader r)" by (simp add: Cons)
qed (use assms in simp)

lemma window_limit:
  assumes "reader_ok r" shows "length (jr_window r) \<le> jr_limit r" "0 < jr_limit r"
proof -
  have "length (jr_window r) \<le> length (jr_buf r)" by (simp add: jr_window_def)
  then show "length (jr_window r) \<le> jr_limit r" by (simp add: jr_limit_def)
  have "0 < length (jr_buf r)" using assms unfolding reader_ok_def by blast
  then show "0 < jr_limit r" unfolding jr_limit_def by linarith
qed

lemma record_refines_skipped:
  assumes "reader_ok r" "jr_format r = Binary" "dropWhile is_separator (jr_window r) = jr_window r"
  shows "scan_window r = Inl e \<Longrightarrow> stream_record (jr_limit r) m (abs_reader r) = Inl e"
    and "scan_window r = Inr (Some n) \<Longrightarrow> stream_record (jr_limit r) m (abs_reader r) = Inr (Some (n, abs_reader r))"
    and "scan_window r = Inr None \<Longrightarrow> length (jr_window r) = jr_limit r \<or> jr_tail r = [] \<Longrightarrow>
      stream_record (jr_limit r) m (abs_reader r) =
          (if length (jr_window r) \<ge> jr_limit r then Inl (RecordTooLarge (jr_base_offset r + jr_pos r) m)
           else case sr_fate (abs_reader r) of
             Some io \<Rightarrow> Inl (Job_Read io)
           | None \<Rightarrow> if jr_window r = [] then Inr None
                     else Inl (TruncatedRecord (jr_base_offset r + jr_pos r) (length (jr_window r))))"
proof -
  let ?w = "jr_window r" and ?L = "jr_limit r"
  have empty: "?w = [] \<longleftrightarrow> \<not> jr_pos r < jr_filled r" using length_window [OF assms(1)] by auto
  have short: "length ?w \<le> ?L" "0 < ?L"
    by (rule window_limit [OF assms(1)])+
  have take: "take ?L (?w @ t) = ?w @ take (?L - length ?w) t" for t using short by simp
  have more: "stream_record ?L m (abs_reader r) =
      (case res of Inl e \<Rightarrow> Inl (Job_Yson (jr_base_offset r + jr_pos r) e)
         | Inr (Complete n) \<Rightarrow> Inr (Some (n, abs_reader r)))"
    if "scan_value ?w Binary = res" "res \<noteq> Inr Incomplete" "?w \<noteq> []" for res
  proof -
    have "scan_value (take ?L (?w @ jr_tail r)) Binary = res"
      using scan_value_more [OF that(1,2)] take by simp
    then show ?thesis using that sr_skip_window [OF assms(3)] assms(2)
      by (simp add: stream_record_def Let_def del: take_append split: sum.split scan.split)
  qed
  show "stream_record ?L m (abs_reader r) = Inl e" if "scan_window r = Inl e"
    using that more empty assms(2) by (auto simp: scan_window_def split: if_splits sum.splits scan.splits)
  show "stream_record ?L m (abs_reader r) = Inr (Some (n, abs_reader r))" if "scan_window r = Inr (Some n)"
    using that more empty assms(2) by (auto simp: scan_window_def split: if_splits sum.splits scan.splits)
  assume none: "scan_window r = Inr None" and whole: "length ?w = ?L \<or> jr_tail r = []"
  have ne: "?w \<noteq> [] \<or> jr_tail r = []"
  proof (cases "?w = []")
    case True
    then have "length ?w \<noteq> ?L" using short(2) by (metis list.size(3) less_irrefl)
    with whole show ?thesis by blast
  qed blast
  have sk: "sr_skip (abs_reader r) = abs_reader r" by (rule sr_skip_window [OF assms(3) ne])
  have "scan_value ?w Binary = Inr Incomplete" if "?w \<noteq> []"
    using none that empty assms(2) by (auto simp: scan_window_def split: if_splits sum.splits scan.splits)
  moreover have "take ?L (?w @ jr_tail r) = ?w"
    using whole
  proof
    assume "length ?w = ?L"
    then show ?thesis by (metis append_eq_conv_conj)
  qed (use short(1) in simp)
  moreover have "?L \<le> length (?w @ jr_tail r) \<longleftrightarrow> ?L \<le> length ?w" using whole by (elim disjE; simp)
  moreover have "?w @ jr_tail r = [] \<longleftrightarrow> ?w = []" using ne by blast
  moreover have "\<not> ?L \<le> length ?w \<Longrightarrow> jr_tail r = []" using whole by linarith
  ultimately show "stream_record ?L m (abs_reader r) =
          (if length ?w \<ge> ?L then Inl (RecordTooLarge (jr_base_offset r + jr_pos r) m)
           else case sr_fate (abs_reader r) of
             Some io \<Rightarrow> Inl (Job_Read io)
           | None \<Rightarrow> if ?w = [] then Inr None
                     else Inl (TruncatedRecord (jr_base_offset r + jr_pos r) (length ?w)))"
    using assms(2)
    by (cases "?w = []"; cases "sr_fate (abs_reader r)") (simp_all add: stream_record_def Let_def sk del: take_append length_append)
qed


lemma next_record_len_refines:
  assumes "reader_ok r0" "jr_format r0 = Binary"
  shows "case next_record_len r0 of
      Inl e \<Rightarrow> stream_record (jr_limit r0) (jr_max_record_bytes r0) (abs_reader r0) = Inl e
    | Inr (None, r) \<Rightarrow> stream_record (jr_limit r0) (jr_max_record_bytes r0) (abs_reader r0) = Inr None
    | Inr (Some n, r) \<Rightarrow>
        stream_record (jr_limit r0) (jr_max_record_bytes r0) (abs_reader r0) = Inr (Some (n, abs_reader r)) \<and>
        reader_ok r \<and> jr_same r0 r"
  using assms
proof (induction r0 rule: next_record_len.induct)
  case (1 r0)
  let ?r = "skip_separators r0" and ?L = "jr_limit r0" and ?m = "jr_max_record_bytes r0"
  note s = skip_window [OF 1(2)]
  have L: "jr_limit ?r = ?L" "jr_max_record_bytes ?r = ?m" "jr_format ?r = Binary"
    using s(4) 1(3) by (auto simp: jr_same_def)
  have eq: "stream_record ?L ?m (abs_reader ?r) = stream_record ?L ?m (abs_reader r0)"
    by (rule stream_record_skip) (rule sr_skip_abs [OF 1(2)])
  have dw: "dropWhile is_separator (jr_window ?r) = jr_window ?r" by (simp add: s(1) dropWhile_twice [where ys = "[]", simplified])
  note scan = record_refines_skipped [OF s(3) L(3) dw, where m = ?m, unfolded L eq]
  have lw: "length (jr_window ?r) = jr_filled ?r - jr_pos ?r" by (rule length_window [OF s(3)])
  show ?case
  proof (cases "scan_window ?r")
    case (Inl e)
    then show ?thesis using scan(1) by (simp add: next_record_len.simps [of r0])
  next
    case (Inr found)
    show ?thesis
    proof (cases found)
      case (Some n)
      then show ?thesis using Inr scan(2) s(3,4) by (simp add: next_record_len.simps [of r0])
    next
      case None
      with Inr have none: "scan_window ?r = Inr None" by simp
      note stuck = scan(3) [OF none]
      show ?thesis
      proof (cases "jr_input_done ?r")
        case True
        then have "length (jr_window ?r) < ?L" "jr_tail ?r = []" "sr_fate (abs_reader ?r) = None"
          using lw s(3) L(1) by (auto simp: reader_ok_def jr_limit_def jr_tail_def abs_reader_def less_max_iff_disj)
        then show ?thesis using True none stuck lw s(3)
          by (auto simp: next_record_len.simps [of r0] reader_ok_def Let_def)
      next
        case False
        note f = fill_ok [OF s(3) False]
        show ?thesis
        proof (cases "fill ?r")
          case (Inl e)
          then show ?thesis using f(1) [OF Inl] none False stuck L
            by (auto simp: next_record_len.simps [of r0])
        next
          case (Inr r1)
          note f = f(2) [OF Inr]
          then have r1: "reader_ok r1" "abs_reader r1 = abs_reader ?r" "jr_format r1 = Binary" "jr_limit r1 = ?L"
              "jr_max_record_bytes r1 = ?m" "jr_same r0 r1"
            using s(4) L jr_same_trans by (auto simp: jr_same_def)
          have "next_record_len r0 = next_record_len r1"
            using none False Inr by (simp add: next_record_len.simps [of r0])
          then show ?thesis
            using 1(1) [OF refl none refl False Inr r1(1,3)] r1 eq
            by (auto split: sum.split option.split simp: jr_same_def)
        qed
      qed
    qed
  qed
qed

section \<open>Events\<close>

text \<open>The client's loop over \<open>next_event\<close>, to the end of the stream or the first error.\<close>

lemma next_event_Some:
  assumes "next_event r0 = Inr (Some ev, r)"
  shows "groups_measure r < groups_measure r0"
proof -
  obtain o' r1 where o': "ensure_pending r0 = Inr (o', r1)"
    using assms by (cases "ensure_pending r0") (auto simp: next_event_def)
  then obtain p where "o' = Some p" using assms by (cases o') (auto simp: next_event_def)
  with o' have p: "ensure_pending r0 = Inr (Some p, r1)" and r: "r = consume r1 (pending_len p)"
    using assms by (cases p; simp add: next_event_def)+
  have "discard_pending r1 = r"
    using ensure_pending_Some [OF p] r by (cases p) (simp_all add: discard_pending_def)
  then show ?thesis using discard_shrinks [OF p] by simp
qed

function read_events :: "job_reader \<Rightarrow> event list \<times> job_error option" where
  "read_events r0 =
     (case next_event r0 of
        Inl e \<Rightarrow> ([], Some e)
      | Inr (None, r) \<Rightarrow> ([], None)
      | Inr (Some ev, r) \<Rightarrow> apfst (Cons ev) (read_events r))"
  by pat_completeness auto
termination by (relation "measure groups_measure") (auto dest: next_event_Some)

declare read_events.simps [simp del]

lemma abs_apply_control: "abs_reader (apply_control c r) = sr_control c (abs_reader r)"
  by (cases c) (simp_all add: abs_reader_def jr_window_def jr_tail_def)

lemma abs_advance:
  assumes "n \<le> jr_filled r - jr_pos r" "jr_filled r \<le> length (jr_buf r)"
  shows "abs_reader (r\<lparr>jr_pos := jr_pos r + n\<rparr>) = sr_advance n (abs_reader r)"
  using assms by (simp add: abs_reader_def sr_advance_def jr_window_def jr_tail_def drop_take add.commute)

lemma slice_window:
  assumes "n \<le> jr_filled r - jr_pos r" "reader_ok r"
  shows "take n (sr_rest (abs_reader r)) = jr_slice r (jr_pos r) (jr_pos r + n)"
  using assms by (auto simp: jr_slice_def jr_window_def reader_ok_def)

lemma abs_consume:
  assumes "n \<le> jr_filled r - jr_pos r" "jr_filled r \<le> length (jr_buf r)"
  shows "jr_pending r = Some (Pending_Row k) \<Longrightarrow> abs_reader (consume r n) =
      (sr_advance n (abs_reader r))\<lparr>sr_row_index := map_option (\<lambda>i. i + 1) (sr_row_index (abs_reader r))\<rparr>"
    and "jr_pending r = Some (Pending_KeySwitch k) \<Longrightarrow> abs_reader (consume r n) = sr_advance n (abs_reader r)"
  using assms
  by (simp_all add: consume_def abs_reader_def sr_advance_def jr_window_def jr_tail_def drop_take add.commute)

lemma abs_pending [simp]: "abs_reader (r\<lparr>jr_pending := p\<rparr>) = abs_reader r"
  by (simp add: abs_reader_def jr_window_def jr_tail_def)

text \<open>The state the refinement keeps, with the limits the specification is given.\<close>

definition reads_within :: "nat \<Rightarrow> nat \<Rightarrow> job_reader \<Rightarrow> bool" where
  "reads_within limit m r \<longleftrightarrow>
     reader_ok r \<and> jr_format r = Binary \<and> jr_limit r = limit \<and> jr_max_record_bytes r = m"

lemma reads_within_advance:
  assumes "reads_within limit m r" "n \<le> jr_filled r - jr_pos r"
  shows "reads_within limit m ((apply_control c r)\<lparr>jr_pos := jr_pos r + n\<rparr>)"
    and "reads_within limit m ((consume r n))"
    and "reads_within limit m (r\<lparr>jr_pending := p\<rparr>)"
  using assms by (auto simp: reads_within_def reader_ok_def jr_limit_def consume_def)

definition ensured :: "nat \<Rightarrow> nat \<Rightarrow> job_reader \<Rightarrow> event list \<times> job_error option \<Rightarrow> job_error + pending option \<times> job_reader \<Rightarrow> bool" where
  "ensured limit m r0 events res =
     (case res of
        Inl e \<Rightarrow> events = ([], Some e)
      | Inr (None, r) \<Rightarrow> events = ([], None)
      | Inr (Some p, r) \<Rightarrow>
          events = apfst (Cons (case p of Pending_Row n \<Rightarrow> Row (pending_row r n) | Pending_KeySwitch n \<Rightarrow> KeySwitch))
            (stream_events limit m (abs_reader (consume r (pending_len p)))) \<and>
          reads_within limit m (consume r (pending_len p)))"

lemma ensure_loop_refines:
  assumes "reads_within limit m r0"
  shows "ensured limit m r0 (stream_events limit m (abs_reader r0)) (ensure_loop r0)"
  using assms
proof (induction "jr_remaining r0" arbitrary: r0 rule: less_induct)
  case less
  have ref: "case next_record_len r0 of
      Inl e \<Rightarrow> stream_record limit m (abs_reader r0) = Inl e
    | Inr (None, r) \<Rightarrow> stream_record limit m (abs_reader r0) = Inr None
    | Inr (Some n, r) \<Rightarrow>
        stream_record limit m (abs_reader r0) = Inr (Some (n, abs_reader r)) \<and> reader_ok r \<and> jr_same r0 r"
    using next_record_len_refines [of r0] less(2) unfolding reads_within_def by blast
  consider (err) e where "next_record_len r0 = Inl e" | (fin) r where "next_record_len r0 = Inr (None, r)"
    | (rec) n r where "next_record_len r0 = Inr (Some n, r)"
    by (metis option.exhaust sum.exhaust surj_pair)
  then show ?case
  proof cases
    case err
    then show ?thesis using ref
      by (simp add: ensured_def ensure_loop.simps [of r0] stream_events.simps [of _ _ "abs_reader r0"])
  next
    case fin
    then show ?thesis using ref
      by (simp add: ensured_def ensure_loop.simps [of r0] stream_events.simps [of _ _ "abs_reader r0"])
  next
    case rec
    have s: "stream_record limit m (abs_reader r0) = Inr (Some (n, abs_reader r))" and ok: "reads_within limit m r"
      using ref rec less(2) by (auto simp: reads_within_def jr_same_def)
    have b: "0 < n" "n \<le> jr_filled r - jr_pos r" "jr_remaining r \<le> jr_remaining r0"
      using next_record_len_Some [OF rec] by auto
    have buf: "reader_ok r" "jr_filled r \<le> length (jr_buf r)" using ok by (auto simp: reads_within_def reader_ok_def)
    define cl where "cl = classify (jr_slice r (jr_pos r) (jr_pos r + n)) (jr_format r) (jr_base_offset r + jr_pos r)"
    have cl': "classify (take n (sr_rest (abs_reader r))) (sr_format (abs_reader r)) (sr_offset (abs_reader r)) = cl"
      by (subst slice_window [OF b(2) buf(1)]) (simp add: cl_def)
    have row: "sr_row (abs_reader r) n = pending_row r n"
      unfolding sr_row_def slice_window [OF b(2) buf(1)] by (simp add: abs_reader_def pending_row_def)
    show ?thesis
    proof (cases cl)
      case (Inl e)
      then show ?thesis using rec s cl'
        by (simp add: ensured_def ensure_loop.simps [of r0] cl_def stream_events.simps [of _ _ "abs_reader r0"])
    next
      case (Inr c)
      let ?r2 = "(apply_control c r)\<lparr>jr_pos := jr_pos r + n\<rparr>"
      have e: "stream_events limit m (abs_reader r0) =
         (if c = Classified_Row then
            apfst (Cons (Row (sr_row (abs_reader r) n)))
              (stream_events limit m ((sr_advance n (abs_reader r))
                \<lparr>sr_row_index := map_option (\<lambda>i. i + 1) (sr_row_index (abs_reader r))\<rparr>))
          else if c = Classified_KeySwitch then
            apfst (Cons KeySwitch) (stream_events limit m (sr_advance n (abs_reader r)))
          else stream_events limit m (sr_advance n (sr_control c (abs_reader r))))"
        using s cl' Inr by (subst stream_events.simps) (simp del: abs_reader_simps)
      have l: "ensure_loop r0 =
        (if c = Classified_Row then Inr (Some (Pending_Row n), r\<lparr>jr_pending := Some (Pending_Row n)\<rparr>)
         else if c = Classified_KeySwitch then
           Inr (Some (Pending_KeySwitch n), r\<lparr>jr_pending := Some (Pending_KeySwitch n)\<rparr>)
         else ensure_loop ?r2)"
        using ensure_loop_unfold [OF rec] Inr cl_def by simp
      have shrink: "jr_remaining ?r2 < jr_remaining r0" using b by (auto simp: jr_remaining_def)
      have abs2: "abs_reader ?r2 = sr_advance n (sr_control c (abs_reader r))"
        using abs_advance [of n "apply_control c r"] b buf by (simp add: abs_apply_control)
      have pr: "pending_row (r\<lparr>jr_pending := p\<rparr>) n = pending_row r n" for p
        by (simp add: pending_row_def jr_slice_def)
      note step = reads_within_advance(2) [OF reads_within_advance(3) [OF ok b(2)], of n] 
      note ac = abs_consume [of n "r\<lparr>jr_pending := Some q\<rparr>" for q]
      show ?thesis
        using e l row b buf step ac less(1) [OF shrink reads_within_advance(1) [OF ok b(2)]] abs2 pr
        by (auto simp: ensured_def)
    qed
  qed
qed

lemma next_event_refines:
  assumes "reads_within limit m r0" "jr_pending r0 = None"
  shows "case next_event r0 of
      Inl e \<Rightarrow> stream_events limit m (abs_reader r0) = ([], Some e)
    | Inr (None, r) \<Rightarrow> stream_events limit m (abs_reader r0) = ([], None)
    | Inr (Some ev, r) \<Rightarrow>
        stream_events limit m (abs_reader r0) = apfst (Cons ev) (stream_events limit m (abs_reader r)) \<and>
        reads_within limit m r \<and> jr_pending r = None"
proof -
  have e: "ensured limit m r0 (stream_events limit m (abs_reader r0)) (ensure_pending r0)"
    using ensure_loop_refines [OF assms(1)] assms(2) by (simp add: ensure_pending_def)
  show ?thesis
  proof (cases "ensure_pending r0")
    case (Inl e')
    then show ?thesis using e by (simp add: ensured_def next_event_def)
  next
    case (Inr pr)
    obtain po r where pr: "pr = (po, r)" by fastforce
    show ?thesis
    proof (cases po)
      case None
      then show ?thesis using e Inr pr by (simp add: ensured_def next_event_def)
    next
      case (Some p)
      then show ?thesis using e Inr pr by (cases p) (simp_all add: ensured_def next_event_def)
    qed
  qed
qed

lemma read_events_refines:
  assumes "reads_within limit m r" "jr_pending r = None"
  shows "read_events r = stream_events limit m (abs_reader r)"
  using assms
proof (induction r rule: read_events.induct)
  case (1 r0)
  note step = next_event_refines [OF 1(2,3)]
  consider (err) e where "next_event r0 = Inl e" | (fin) r where "next_event r0 = Inr (None, r)"
    | (event) ev r where "next_event r0 = Inr (Some ev, r)"
    by (metis option.exhaust sum.exhaust surj_pair)
  then show ?case
  proof cases
    case event
    then show ?thesis using step 1(1) [OF event refl refl] by (simp add: read_events.simps [of r0])
  qed (use step in \<open>simp_all add: read_events.simps [of r0]\<close>)
qed

text \<open>A reader of binary records as its builder methods leave it.\<close>

definition job_reader_of :: "nat \<Rightarrow> nat \<Rightarrow> read_outcome list \<Rightarrow> job_reader" where
  "job_reader_of buffer_size max_bytes input =
     reader_with_max_record_bytes (reader_with_buffer_size (reader_with_format input Binary) buffer_size) max_bytes"

definition stream_start :: "bytes \<Rightarrow> io_error option \<Rightarrow> stream_reader" where
  "stream_start data fate =
     \<lparr>sr_rest = data, sr_fate = fate, sr_offset = 0, sr_format = Binary, sr_table_index = 0,
      sr_row_index = None, sr_range_index = None\<rparr>"

lemma job_reader_of_simps:
  "m \<le> USIZE_MAX \<Longrightarrow> reads_within (max (max b 64) m) m (job_reader_of b m input)"
  "jr_pending (job_reader_of b m input) = None"
  "abs_reader (job_reader_of b m input) = stream_start (stream_of input) (fate_of input)"
  by (simp_all add: job_reader_of_def reader_with_max_record_bytes_def reader_with_buffer_size_def
      reader_with_format_def reads_within_def reader_ok_def jr_limit_def abs_reader_def stream_start_def
      jr_window_def jr_tail_def)

text \<open>Rows are no longer than the limit, and an event is never made of the bytes of another.\<close>

fun event_bytes :: "event \<Rightarrow> bytes" where
  "event_bytes (Row row) = row_bytes row"
| "event_bytes KeySwitch = []"

lemma stream_record_limit:
  "stream_record limit m s0 = Inr (Some (n, s)) \<Longrightarrow> n \<le> limit"
  using scan_tree_consumes [of "sr_format s = Binary" "take limit (sr_rest s)" 0 0 n]
  by (auto simp: stream_record_def Let_def scan_value_Complete split: if_splits option.splits sum.splits scan.splits)

lemma stream_events_limit:
  "ev \<in> set (fst (stream_events limit m s)) \<Longrightarrow> length (event_bytes ev) \<le> limit"
proof (induction limit m s rule: stream_events.induct)
  case (1 limit m s0)
  show ?case
  proof (cases "stream_record limit m s0")
    case (Inl e)
    then show ?thesis using 1(4) by (simp add: stream_events.simps [of _ _ s0])
  next
    case (Inr res)
    show ?thesis
    proof (cases res)
      case None
      then show ?thesis using Inr 1(4) by (simp add: stream_events.simps [of _ _ s0])
    next
      case (Some ns)
      obtain n s where ns: "ns = (n, s)" by fastforce
      with Inr Some have s: "stream_record limit m s0 = Inr (Some (n, s))" by simp
      note IH = 1(1-3) [OF Inr Some ns [symmetric]]
      show ?thesis
      proof (cases "classify (take n (sr_rest s)) (sr_format s) (sr_offset s)")
        case (Inl e)
        then show ?thesis using s 1(4) by (simp add: stream_events.simps [of _ _ s0])
      next
        case (Inr c)
        then show ?thesis
          using s 1(4) IH [OF Inr] stream_record_limit [OF s]
          by (auto simp: stream_events.simps [of _ _ s0] sr_row_def split: if_splits)
      qed
    qed
  qed
qed

section \<open>Properties\<close>

text \<open>A row, a key switch and another row, in three reads of which one is interrupted.\<close>

definition sample_input :: "read_outcome list" where
  "sample_input =
     [Chunk [0x7B, 1, 2, 0x6B], Interrupted,
      Chunk ([0x3D, 2, 2, 0x7D, 0x3B, 0x3C, 1, 20] @ ascii ''key_switch'' @ [0x3D, 5, 0x3E]),
      Chunk [0x23, 0x3B, 0x7B, 0x7D]]"

definition sample_row_at :: "bytes \<Rightarrow> nat \<Rightarrow> job_row" where
  "sample_row_at bs offset =
     \<lparr>row_table_index = 0, row_row_index = None, row_range_index = None, row_bytes = bs, row_format = Binary,
      row_offset = offset\<rparr>"

lemma sample_events:
  "stream_events 256 256 (stream_start (stream_of sample_input) (fate_of sample_input)) =
     ([Row (sample_row_at [0x7B, 1, 2, 0x6B, 0x3D, 2, 2, 0x7D] 0), KeySwitch,
       Row (sample_row_at [0x7B, 0x7D] 27)], None)"
  by code_simp

text \<open>C26: the reader reads the stream. Whatever the sizes of the chunks its \<open>read\<close> calls return,
  whichever of them are interrupted, and whatever its buffer size, the events it hands out, the
  rows' offsets and indices, and the error that ends them are those of the specification on the
  whole stream, with the larger of the buffer and the ceiling as the limit of one record.
\<close>

theorem job_reader_refines_stream:
  assumes "m \<le> USIZE_MAX"
  shows "read_events (job_reader_of b m input) =
    stream_events (max (max b 64) m) m (stream_start (stream_of input) (fate_of input))"
  using read_events_refines [OF job_reader_of_simps(1) [OF assms, of b input] job_reader_of_simps(2)]
  by (simp add: job_reader_of_simps)

lemma job_reader_refines_stream_witness:
  "read_events (job_reader_of 100 256 sample_input) =
     ([Row (sample_row_at [0x7B, 1, 2, 0x6B, 0x3D, 2, 2, 0x7D] 0), KeySwitch,
       Row (sample_row_at [0x7B, 0x7D] 27)], None)"
  using job_reader_refines_stream [of 256 100 sample_input] by (simp add: sample_events USIZE_MAX_def)

text \<open>C37: no row is longer than the larger of the ceiling and the read buffer. The witness shows
  that the ceiling alone is not a bound: with a ceiling of one byte, a row of two is handed out.\<close>

theorem row_length_bounded:
  assumes "m \<le> USIZE_MAX" "Row row \<in> set (fst (read_events (job_reader_of b m input)))"
  shows "length (row_bytes row) \<le> max (max b 64) m"
  using stream_events_limit [of "Row row"] assms
    read_events_refines [OF job_reader_of_simps(1) [OF assms(1), of b input] job_reader_of_simps(2)]
  by (fastforce simp: job_reader_of_simps)

lemma row_length_bounded_witness:
  "length (row_bytes (sample_row_at [0x7B, 0x7D] 0)) \<le> 64 \<and>
     read_events (job_reader_of 64 1 [Chunk [0x7B, 0x7D, 0x3B]]) = ([Row (sample_row_at [0x7B, 0x7D] 0)], None)"
proof
  have "stream_events (max (max 64 64) 1) 1 (stream_start (stream_of [Chunk [0x7B, 0x7D, 0x3B]]) (fate_of [Chunk [0x7B, 0x7D, 0x3B]])) =
      ([Row (sample_row_at [0x7B, 0x7D] 0)], None)"
    by code_simp
  then show r: "read_events (job_reader_of 64 1 [Chunk [0x7B, 0x7D, 0x3B]]) = ([Row (sample_row_at [0x7B, 0x7D] 0)], None)"
    using read_events_refines [OF job_reader_of_simps(1) job_reader_of_simps(2), of 1 64 "[Chunk [0x7B, 0x7D, 0x3B]]"]
    by (simp add: job_reader_of_simps USIZE_MAX_def)
  show "length (row_bytes (sample_row_at [0x7B, 0x7D] 0)) \<le> 64"
    using row_length_bounded [of 1 "sample_row_at [0x7B, 0x7D] 0" 64 "[Chunk [0x7B, 0x7D, 0x3B]]"] r
    by (simp add: USIZE_MAX_def)
qed

end
