(* ===== verification/Job_Groups.thy ===== *)
theory Job_Groups
  imports Job_Stream
begin

text \<open>
  Reduce groups: what \<open>Groups::next_group\<close> and \<open>Group::next_row\<close> hand out is the reader's event
  sequence cut at the key switches, however many rows of each group the job reads.
\<close>

section \<open>The end of the stream\<close>

lemma fill_pending: "fill r = Inr r' \<Longrightarrow> jr_pending r' = jr_pending r"
proof (erule fill_Inr)
  fix r1 bs rest
  assume g: "grow (compact r) = Inr r1"
    and r': "r' = (if bs = [] then r1\<lparr>jr_input := rest, jr_input_done := True\<rparr>
            else r1\<lparr>jr_input := rest,
              jr_buf := take (jr_filled r1) (jr_buf r1) @ bs @ drop (jr_filled r1 + length bs) (jr_buf r1),
              jr_filled := jr_filled r1 + length bs\<rparr>)"
  have "jr_pending r1 = jr_pending (compact r)" using g by (auto simp: grow_def Let_def split: if_splits)
  also have "\<dots> = jr_pending r" by (simp add: compact_def)
  finally show "jr_pending r' = jr_pending r" by (simp add: r')
qed

lemma next_record_len_pending: "next_record_len r0 = Inr (res, r) \<Longrightarrow> jr_pending r = jr_pending r0"
proof (induction r0 rule: next_record_len.induct)
  case (1 r0)
  let ?r = "skip_separators r0"
  have p: "jr_pending ?r = jr_pending r0" by (simp add: skip_separators_def)
  obtain found where found: "scan_window ?r = Inr found" using 1(2)
    by (cases "scan_window ?r") (auto simp: next_record_len.simps [of r0] Let_def)
  show ?case
  proof (cases "found = None \<and> \<not> jr_input_done ?r")
    case True
    then obtain r1 where r1: "fill ?r = Inr r1" "next_record_len r1 = Inr (res, r)"
      using 1(2) found by (cases "fill ?r") (auto simp: next_record_len.simps [of r0] Let_def)
    show ?thesis using 1(1) [OF refl found _ _ r1(1,2)] True fill_pending [OF r1(1)] p by simp
  next
    case False
    then show ?thesis using 1(2) found p
      by (cases found) (auto simp: next_record_len.simps [of r0] Let_def split: if_splits)
  qed
qed

lemma next_record_len_None:
  "next_record_len r0 = Inr (None, r) \<Longrightarrow> jr_input_done r \<and> jr_pos r = jr_filled r"
proof (induction r0 rule: next_record_len.induct)
  case (1 r0)
  let ?r = "skip_separators r0"
  obtain found where found: "scan_window ?r = Inr found" using 1(2)
    by (cases "scan_window ?r") (auto simp: next_record_len.simps [of r0] Let_def)
  then have none: "found = None" using 1(2) by (cases found) (auto simp: next_record_len.simps [of r0] Let_def)
  show ?case
  proof (cases "jr_input_done ?r")
    case False
    then obtain r1 where r1: "fill ?r = Inr r1" "next_record_len r1 = Inr (None, r)"
      using 1(2) found none by (cases "fill ?r") (auto simp: next_record_len.simps [of r0] Let_def)
    show ?thesis using 1(1) [OF refl found none False r1] .
  next
    case True
    then show ?thesis using 1(2) found none by (auto simp: next_record_len.simps [of r0] Let_def split: if_splits)
  qed
qed

lemma ensure_loop_None:
  "ensure_loop r0 = Inr (None, r) \<Longrightarrow> jr_input_done r \<and> jr_pos r = jr_filled r \<and> jr_pending r = jr_pending r0"
proof (induction "jr_remaining r0" arbitrary: r0 rule: less_induct)
  case less
  consider (err) e where "next_record_len r0 = Inl e" | (fin) r1 where "next_record_len r0 = Inr (None, r1)"
    | (rec) n r1 where "next_record_len r0 = Inr (Some n, r1)"
    by (metis option.exhaust sum.exhaust surj_pair)
  then show ?case
  proof cases
    case rec
    have b: "0 < n" "n \<le> jr_filled r1 - jr_pos r1" "jr_remaining r1 \<le> jr_remaining r0"
      using next_record_len_Some [OF rec] by auto
    obtain c where c: "classify (jr_slice r1 (jr_pos r1) (jr_pos r1 + n)) (jr_format r1) (jr_base_offset r1 + jr_pos r1) = Inr c"
      using less(2) rec by (auto simp: ensure_loop.simps [of r0] split: sum.splits)
    let ?r2 = "(apply_control c r1)\<lparr>jr_pos := jr_pos r1 + n\<rparr>"
    have "ensure_loop ?r2 = Inr (None, r)"
      using less(2) ensure_loop_unfold [OF rec c] by (simp split: if_splits)
    moreover have "jr_remaining ?r2 < jr_remaining r0" using b by (auto simp: jr_remaining_def)
    ultimately show ?thesis using less(1) [of ?r2] next_record_len_pending [OF rec] by simp
  qed (use less(2) next_record_len_None [of r0 r] next_record_len_pending [of r0 None r] in
      \<open>auto simp: ensure_loop.simps [of r0]\<close>)
qed

lemma skip_at_end: "jr_pos r = jr_filled r \<Longrightarrow> skip_separators r = r"
  by (simp add: skip_separators_def skip_from.simps)

text \<open>The end of the stream stays the end.\<close>

lemma ensure_end: "ensure_pending r0 = Inr (None, r) \<Longrightarrow> ensure_pending r = Inr (None, r)"
proof -
  assume "ensure_pending r0 = Inr (None, r)"
  then have e: "jr_pending r = None" "jr_input_done r" "jr_pos r = jr_filled r"
    using ensure_loop_None [of r0 r] by (auto simp: ensure_pending_def split: option.splits)
  then have "next_record_len r = Inr (None, r)"
    by (subst next_record_len.simps) (simp add: skip_at_end scan_window_def)
  then show ?thesis using e(1) by (simp add: ensure_pending_def ensure_loop.simps [of r])
qed

section \<open>What is left to read\<close>

lemma read_events_ensure:
  "ensure_pending r0 = Inl e \<Longrightarrow> read_events r0 = ([], Some e)"
  "ensure_pending r0 = Inr (None, r) \<Longrightarrow> read_events r0 = ([], None)"
  "ensure_pending r0 = Inr (Some (Pending_Row n), r) \<Longrightarrow>
     read_events r0 = apfst (Cons (Row (pending_row r n))) (read_events (consume r n))"
  "ensure_pending r0 = Inr (Some (Pending_KeySwitch n), r) \<Longrightarrow>
     read_events r0 = apfst (Cons KeySwitch) (read_events (consume r n))"
  by (subst read_events.simps, simp add: next_event_def)+

lemma ensure_twice: "ensure_pending r0 = Inr (Some p, r) \<Longrightarrow> ensure_pending r = Inr (Some p, r)"
  using ensure_pending_Some [of r0 p r] by (simp add: ensure_pending_def)

lemma read_events_looked: "ensure_pending r0 = Inr (Some p, r) \<Longrightarrow> read_events r = read_events r0"
  using ensure_twice [of r0 p r] read_events_ensure(3,4) by (cases p) fastforce+

lemma discard_is_consume:
  "ensure_pending r0 = Inr (Some p, r) \<Longrightarrow> discard_pending r = consume r (pending_len p)"
  using ensure_pending_Some [of r0 p r] by (cases p) (simp_all add: discard_pending_def)

text \<open>A reader that ends without an error has a row, a switch or the end in front of it.\<close>

lemma ensure_cases:
  assumes "read_events r0 = (evs, None)"
  obtains (end_) r where "ensure_pending r0 = Inr (None, r)" "evs = []"
  | (row) n r evs' where "ensure_pending r0 = Inr (Some (Pending_Row n), r)"
      "evs = Row (pending_row r n) # evs'" "read_events (consume r n) = (evs', None)"
      "read_events r = (evs, None)" "discard_pending r = consume r n"
  | (switch) n r evs' where "ensure_pending r0 = Inr (Some (Pending_KeySwitch n), r)" "evs = KeySwitch # evs'"
      "read_events (consume r n) = (evs', None)" "read_events r = (evs, None)" "discard_pending r = consume r n"
proof (cases "ensure_pending r0")
  case (Inl e)
  then show thesis using assms read_events_ensure(1) by simp
next
  case (Inr pr)
  obtain po r where pr: "pr = (po, r)" by fastforce
  show thesis
  proof (cases po)
    case None
    then show thesis using assms Inr pr end_ read_events_ensure(2) by simp
  next
    case (Some p)
    with Inr pr have e: "ensure_pending r0 = Inr (Some p, r)" by simp
    obtain evs' err where left: "read_events (consume r (pending_len p)) = (evs', err)" by fastforce
    show thesis
    proof (cases p)
      case (Pending_Row n)
      then show thesis
        using e left assms read_events_ensure(3) [of r0 n r] read_events_looked [OF e] discard_is_consume [OF e]
        by (intro row) auto
    next
      case (Pending_KeySwitch n)
      then show thesis
        using e left assms read_events_ensure(4) [of r0 n r] read_events_looked [OF e] discard_is_consume [OF e]
        by (intro switch) auto
    qed
  qed
qed

section \<open>The groups of an event sequence\<close>

fun is_row :: "event \<Rightarrow> bool" where
  "is_row (Row _) = True"
| "is_row KeySwitch = False"

fun row_prefix :: "event list \<Rightarrow> job_row list" where
  "row_prefix (Row row # evs) = row # row_prefix evs"
| "row_prefix _ = []"

definition after_group :: "event list \<Rightarrow> event list" where
  "after_group evs = tl (dropWhile is_row evs)"

lemma length_after_group [termination_simp]: "length (after_group evs) \<le> length evs"
  using length_dropWhile_le [of is_row evs] by (simp add: after_group_def)

text \<open>A switch ends the group before it; a switch with no rows before it is an empty group.\<close>

fun split_groups :: "event list \<Rightarrow> job_row list list" where
  "split_groups [] = []"
| "split_groups (KeySwitch # evs) = [] # split_groups evs"
| "split_groups (Row row # evs) = (row # row_prefix evs) # split_groups (after_group evs)"

text \<open>The reduce key of a row.\<close>

definition row_key :: "bytes list \<Rightarrow> job_row \<Rightarrow> job_error + group_key" where
  "row_key columns row =
     and_then (row_value row) (\<lambda>value.
       case node value of
         Map entries \<Rightarrow> Inr [(name, the (map_of entries name)). name \<leftarrow> columns, map_of entries name \<noteq> None]
       | _ \<Rightarrow> Inl (Job_Yson (row_offset row) (Custom Reduce_key_not_a_map)))"

definition group_key_of :: "bytes list \<Rightarrow> job_row list \<Rightarrow> job_error + group_key" where
  "group_key_of columns rows =
     (case rows of row # _ \<Rightarrow> if columns = [] then Inr [] else row_key columns row | [] \<Rightarrow> Inr [])"

lemma decode_key_row: "decode_key r n columns = row_key columns (pending_row r n)"
proof -
  have "concat (map (\<lambda>name. case map_of entries name of Some v \<Rightarrow> [(name, v)] | None \<Rightarrow> []) columns) =
      [(name, the (map_of entries name)). name \<leftarrow> columns, map_of entries name \<noteq> None]" for entries :: "(bytes \<times> yson_value) list"
    by (induction columns) (auto split: option.splits)
  then show ?thesis
    by (simp only: decode_key_def row_key_def row_value_def pending_row_def Let_def job_row.simps)
qed

section \<open>Visiting the groups\<close>

text \<open>
  A job that reads up to \<open>k\<close> rows of each group, \<open>k\<close> from a list, and stops when the list or the
  groups run out.
\<close>

fun take_rows :: "nat \<Rightarrow> job_group \<Rightarrow> job_error + job_row list \<times> job_group" where
  "take_rows 0 g = Inr ([], g)"
| "take_rows (Suc k) g =
     and_then (group_next_row g) (\<lambda>(row, g').
       case row of
         None \<Rightarrow> Inr ([], g')
       | Some row \<Rightarrow> and_then (take_rows k g') (\<lambda>(rows, g''). Inr (row # rows, g'')))"

fun visit_groups :: "nat list \<Rightarrow> job_groups \<Rightarrow> job_error + (group_key \<times> job_row list) list" where
  "visit_groups [] gs = Inr []"
| "visit_groups (k # ks) gs =
     and_then (next_group gs) (\<lambda>(group, gs').
       case group of
         None \<Rightarrow> Inr []
       | Some g \<Rightarrow>
           and_then (take_rows k g) (\<lambda>(rows, g').
           and_then (visit_groups ks (drop_group g' gs')) (\<lambda>rest.
             Inr ((gr_key g, rows) # rest))))"

fun visit_lists :: "bytes list \<Rightarrow> nat list \<Rightarrow> job_row list list \<Rightarrow> job_error + (group_key \<times> job_row list) list" where
  "visit_lists columns (k # ks) (rows # others) =
     and_then (group_key_of columns rows) (\<lambda>key.
     and_then (visit_lists columns ks others) (\<lambda>rest. Inr ((key, take k rows) # rest)))"
| "visit_lists columns _ _ = Inr []"

lemma drain_group_events:
  assumes "read_events r0 = (evs, None)"
  shows "\<exists>r. drain_group r0 = Inr (dropWhile is_row evs \<noteq> [], r) \<and> 
    (dropWhile is_row evs \<noteq> [] \<longrightarrow> read_events r = (after_group evs, None))"
  using assms
proof (induction r0 arbitrary: evs rule: drain_group.induct)
  case (1 r0)
  from 1(2) show ?case
  proof (cases rule: ensure_cases)
    case (row n r evs')
    have "drain_group r0 = drain_group (discard_pending r)"
      using row(1) by (simp add: drain_group.simps [of r0])
    then show ?thesis using 1(1) [OF row(1) refl refl refl, of evs'] row by (simp add: after_group_def)
  qed (auto simp: drain_group.simps [of r0] after_group_def)
qed

lemma take_rows_events:
  assumes "\<not> gr_done g" "read_events (gr_reader g) = (evs, None)"
  shows "\<exists>g' evs'. take_rows k g = Inr (take k (row_prefix evs), g') \<and> read_events (gr_reader g') = (evs', None) \<and>
    dropWhile is_row evs' = dropWhile is_row evs"
  using assms
proof (induction k arbitrary: g evs)
  case (Suc k)
  from Suc(3) show ?case
  proof (cases rule: ensure_cases)
    case (end_ r)
    moreover from this have "read_events r = ([], None)"
      using ensure_end read_events_ensure(2) by blast
    ultimately show ?thesis using Suc(2,3) by (simp add: group_next_row_def)
  next
    case (row n r evs')
    have n: "group_next_row g = Inr (Some (pending_row r n), g\<lparr>gr_reader := consume r n\<rparr>)"
      using row Suc(2) by (simp add: group_next_row_def)
    show ?thesis using Suc(1) [of "g\<lparr>gr_reader := consume r n\<rparr>" evs'] Suc(2) n row by auto
  next
    case (switch n r evs')
    then show ?thesis using Suc(2) by (simp add: group_next_row_def)
  qed
qed auto

definition step_group :: "bytes list \<Rightarrow> event list \<Rightarrow> job_error + job_group option \<times> job_groups \<Rightarrow> bool" where
  "step_group columns evs res =
     (case evs of
        [] \<Rightarrow> \<exists>gs'. res = Inr (None, gs')
      | KeySwitch # evs' \<Rightarrow>
          \<exists>g gs'. res = Inr (Some g, gs') \<and> gr_done g \<and> gr_key g = [] \<and> read_events (gr_reader g) = (evs', None) \<and>
            \<not> gs_in_group gs' \<and> gs_key_columns gs' = columns
      | Row row # evs' \<Rightarrow>
          (case group_key_of columns [row] of
             Inl e \<Rightarrow> res = Inl e
           | Inr key \<Rightarrow>
               \<exists>g gs'. res = Inr (Some g, gs') \<and> \<not> gr_done g \<and> gr_key g = key \<and>
                 read_events (gr_reader g) = (evs, None) \<and> gs_in_group gs' \<and> gs_key_columns gs' = columns))"

lemma open_group_events:
  assumes "read_events (gs_reader gs) = (evs, None)"
  shows "step_group (gs_key_columns gs) evs (open_group gs)"
  using assms
proof (cases rule: ensure_cases)
  case (end_ r)
  then show ?thesis by (simp add: open_group_def step_group_def)
next
  case (row n r evs')
  have k: "(if gs_key_columns gs = [] then Inr [] else decode_key r n (gs_key_columns gs)) =
      group_key_of (gs_key_columns gs) [pending_row r n]"
    by (simp add: group_key_of_def decode_key_row)
  show ?thesis
    using row by (simp add: open_group_def k step_group_def Let_def split: sum.split)
next
  case (switch n r evs')
  then show ?thesis by (simp add: open_group_def step_group_def Let_def)
qed

definition left_groups :: "job_groups \<Rightarrow> event list \<Rightarrow> event list" where
  "left_groups gs evs = (if gs_in_group gs then after_group evs else evs)"

lemma next_group_events:
  assumes "read_events (gs_reader gs) = (evs, None)"
  shows "step_group (gs_key_columns gs) (left_groups gs evs) (next_group gs)"
proof (cases "gs_in_group gs")
  case True
  obtain r where r: "drain_group (gs_reader gs) = Inr (dropWhile is_row evs \<noteq> [], r)"
    and left: "dropWhile is_row evs \<noteq> [] \<longrightarrow> read_events r = (after_group evs, None)"
    using drain_group_events [OF assms] by blast
  show ?thesis
  proof (cases "dropWhile is_row evs = []")
    case True
    then have "after_group evs = []" by (simp only: after_group_def list.sel)
    then show ?thesis
      using \<open>gs_in_group gs\<close> r True by (simp add: next_group_def step_group_def left_groups_def)
  next
    case False
    then have "step_group (gs_key_columns gs) (after_group evs) (open_group (gs\<lparr>gs_reader := r\<rparr>))"
      using left open_group_events [of "gs\<lparr>gs_reader := r\<rparr>"] by simp
    then show ?thesis
      using False \<open>gs_in_group gs\<close> r
      by (simp add: next_group_def left_groups_def)
  qed
next
  case False
  then show ?thesis using open_group_events [OF assms] by (simp add: next_group_def left_groups_def)
qed

lemma row_prefix_eq: "after_group (Row row # evs) = after_group evs"
  by (simp add: after_group_def)

lemma visit_groups_events:
  "read_events (gs_reader gs) = (evs, None) \<Longrightarrow>
     visit_groups ks gs = visit_lists (gs_key_columns gs) ks (split_groups (left_groups gs evs))"
proof (induction ks arbitrary: gs evs)
  case (Cons k ks)
  note step = next_group_events [OF Cons(2)]
  show ?case
  proof (cases "left_groups gs evs" rule: split_groups.cases)
    case 1
    then show ?thesis using step by (auto simp: step_group_def)
  next
    case (2 evs')
    then obtain g gs' where g: "next_group gs = Inr (Some g, gs')" "gr_done g" "gr_key g = []"
        "read_events (gr_reader g) = (evs', None)" "\<not> gs_in_group gs'" "gs_key_columns gs' = gs_key_columns gs"
      using step by (auto simp: step_group_def)
    have "take_rows k g = Inr ([], g)" using g(2) by (cases k) (simp_all add: group_next_row_def)
    moreover have "visit_groups ks (drop_group g gs') = visit_lists (gs_key_columns gs) ks (split_groups evs')"
      using Cons(1) [of "drop_group g gs'" evs'] g by (simp add: drop_group_def left_groups_def)
    ultimately show ?thesis using 2 g by (simp add: group_key_of_def)
  next
    case (3 row evs')
    let ?evs = "Row row # evs'"
    have key: "group_key_of (gs_key_columns gs) (row # row_prefix evs') = group_key_of (gs_key_columns gs) [row]"
      by (simp add: group_key_of_def)
    show ?thesis
    proof (cases "group_key_of (gs_key_columns gs) [row]")
      case (Inl e)
      then show ?thesis using step 3 key by (simp add: step_group_def)
    next
      case (Inr columns)
      then obtain g gs' where g: "next_group gs = Inr (Some g, gs')" "\<not> gr_done g" "gr_key g = columns"
          "read_events (gr_reader g) = (?evs, None)" "gs_in_group gs'" "gs_key_columns gs' = gs_key_columns gs"
        using step 3 by (auto simp: step_group_def)
      obtain g' left where g': "take_rows k g = Inr (take k (row_prefix ?evs), g')"
          "read_events (gr_reader g') = (left, None)" "dropWhile is_row left = dropWhile is_row ?evs"
        using take_rows_events [OF g(2,4)] by blast
      have "visit_groups ks (drop_group g' gs') = visit_lists (gs_key_columns gs) ks (split_groups (after_group evs'))"
        using Cons(1) [of "drop_group g' gs'" left] g g'
        by (simp add: drop_group_def left_groups_def after_group_def)
      then show ?thesis using 3 g g' Inr key by simp
    qed
  qed
qed simp

section \<open>Properties\<close>

text \<open>C31: a job that walks the reduce groups sees the event sequence cut at its key switches: one
  group per run of rows, an empty one for a switch with no rows before it, and nothing of one
  group in another, whichever number of rows it reads of each. A group's key is read from its
  first row, in the order the columns were asked for, and the first key that does not decode is
  the error the job gets.\<close>

theorem groups_split_events:
  assumes "read_events r = (evs, None)"
  shows "visit_groups ks (groups_by r columns) = visit_lists columns ks (split_groups evs)"
  using visit_groups_events [of "groups_by r columns" evs ks] assms
  by (simp add: groups_by_def left_groups_def)

lemma groups_split_events_witness:
  "visit_groups [1, 1] (groups_by (job_reader_of 64 256 sample_input) [ascii ''k'']) =
     Inr [([(ascii ''k'', plain (Int64 1))], [sample_row_at [0x7B, 1, 2, 0x6B, 0x3D, 2, 2, 0x7D] 0]),
          ([], [sample_row_at [0x7B, 0x7D] 27])]"
proof -
  let ?evs = "[Row (sample_row_at [0x7B, 1, 2, 0x6B, 0x3D, 2, 2, 0x7D] 0), KeySwitch, Row (sample_row_at [0x7B, 0x7D] 27)]"
  have "read_events (job_reader_of 64 256 sample_input) = (?evs, None)"
    using read_events_refines [OF job_reader_of_simps(1) job_reader_of_simps(2), of 256 64 sample_input]
    by (simp add: job_reader_of_simps USIZE_MAX_def sample_events)
  moreover have "visit_lists [ascii ''k''] [1, 1] (split_groups ?evs) =
     Inr [([(ascii ''k'', plain (Int64 1))], [sample_row_at [0x7B, 1, 2, 0x6B, 0x3D, 2, 2, 0x7D] 0]),
          ([], [sample_row_at [0x7B, 0x7D] 27])]"
    by code_simp
  ultimately show ?thesis
    using groups_split_events [of "job_reader_of 64 256 sample_input" ?evs "[1, 1]" "[ascii ''k'']"] by simp
qed

end
