(* ===== verification/Job_Writer.thy ===== *)
theory Job_Writer
  imports Job_Error Yson_Properties
begin

text \<open>
  \<open>crates/ytsaurus-job/src/writer.rs\<close>: the writer of a job's output tables. A sink is what it has
  accepted and how its next calls will answer; a writer is its sinks, the number of tables the job
  addresses, and how rows reach them. The scratch buffer, cleared before every use, is an
  allocation and not modelled.
\<close>

section \<open>Sinks\<close>

text \<open>An answer to \<open>write_all\<close> or \<open>flush\<close>: success, or an error after some of the bytes went out.\<close>

datatype sink_answer = Accepts | Rejects nat io_error

record sink =
  sk_bytes :: bytes
  sk_answers :: "sink_answer list"

definition sink_write_all :: "sink \<Rightarrow> bytes \<Rightarrow> io_error option \<times> sink" where
  "sink_write_all s bs =
     (case sk_answers s of
        Rejects n e # answers \<Rightarrow> (Some e, s\<lparr>sk_bytes := sk_bytes s @ take n bs, sk_answers := answers\<rparr>)
      | Accepts # answers \<Rightarrow> (None, s\<lparr>sk_bytes := sk_bytes s @ bs, sk_answers := answers\<rparr>)
      | [] \<Rightarrow> (None, s\<lparr>sk_bytes := sk_bytes s @ bs\<rparr>))"

definition sink_flush :: "sink \<Rightarrow> io_error option \<times> sink" where
  "sink_flush s = sink_write_all s []"

section \<open>The writer\<close>

datatype routing = Descriptors | TableSwitches i64

record job_writer =
  wr_tables :: "sink list"
  wr_logical_tables :: nat
  wr_format :: yson_format
  wr_routing :: routing
  wr_finished :: bool
  wr_names :: "bytes list"

text \<open>What a call returns; an index out of range would panic.\<close>

datatype write_result = Write_Ok | Write_Err job_error | Write_Panic

definition table_descriptor :: "nat \<Rightarrow> i32" where
  "table_descriptor index = of_nat (3 * index + 1)"

definition from_writers :: "sink list \<Rightarrow> yson_format \<Rightarrow> job_writer" where
  "from_writers tables format =
     \<lparr>wr_tables = tables, wr_logical_tables = length tables, wr_format = format,
      wr_routing = Descriptors, wr_finished = False, wr_names = []\<rparr>"

definition from_writer_with_switches :: "sink \<Rightarrow> nat \<Rightarrow> yson_format \<Rightarrow> job_writer" where
  "from_writer_with_switches s table_count format =
     (from_writers [s] format)\<lparr>wr_routing := TableSwitches 0, wr_logical_tables := table_count\<rparr>"

text \<open>\<open>named_writers\<close>; the handles are the indices.\<close>

definition named_writers :: "bytes list \<Rightarrow> sink list \<Rightarrow> yson_format \<Rightarrow> job_writer \<times> nat list" where
  "named_writers names tables format = ((from_writers tables format)\<lparr>wr_names := names\<rparr>, [0..<length names])"

definition table_name :: "job_writer \<Rightarrow> nat \<Rightarrow> bytes option" where
  "table_name w table = (if table < length (wr_names w) then Some (wr_names w ! table) else None)"

definition check_table :: "job_writer \<Rightarrow> nat \<Rightarrow> job_error + unit" where
  "check_table w table =
     (if wr_finished w then Inl (WriteAfterFinish table)
      else if table \<ge> wr_logical_tables w then Inl (UnknownTable table (wr_logical_tables w) (wr_names w))
      else Inr ())"

text \<open>The crate's own copy of the variable-length encoding.\<close>

function zigzag_bytes :: "u64 \<Rightarrow> bytes" where
  "zigzag_bytes v = (if v \<ge> 0x80 then (ucast v OR 0x80) # zigzag_bytes (drop_bit 7 v) else [ucast v])"
  by pat_completeness auto
termination zigzag_bytes
proof (relation "measure unat")
  fix v :: u64
  assume "v \<ge> 0x80"
  then have "128 \<le> unat v" by (simp add: word_le_nat_alt)
  then show "(drop_bit 7 v, v) \<in> measure unat" unfolding in_measure unat_shift_group by simp
qed simp

declare zigzag_bytes.simps [simp del]

definition write_zigzag :: "i64 \<Rightarrow> bytes" where
  "write_zigzag value = zigzag_bytes (push_bit 1 value XOR signed_drop_bit 63 value)"

definition encode_table_switch :: "i64 \<Rightarrow> yson_format \<Rightarrow> bytes" where
  "encode_table_switch index format =
     (case format of
        Text \<Rightarrow> ascii ''<table_index='' @ fmt_signed (sint index) @ ascii ''>#;''
      | Binary \<Rightarrow>
          [0x3C, 0x01] @ write_zigzag (of_nat (length (ascii ''table_index''))) @ ascii ''table_index'' @
          [0x3D, 0x02] @ write_zigzag index @ [0x3E, 0x23, 0x3B])"

definition as_table_index :: "nat \<Rightarrow> i64" where
  "as_table_index table = (if table < 2 ^ 63 then of_nat table else 2 ^ 63 - 1)"

text \<open>Where a row goes, with the switch record to write before it, and the routing afterwards.\<close>

definition route :: "routing \<Rightarrow> nat \<Rightarrow> nat \<times> i64 option \<times> routing" where
  "route r table =
     (case r of
        Descriptors \<Rightarrow> (table, None, Descriptors)
      | TableSwitches current \<Rightarrow>
          (let needed = as_table_index table
           in (0, if current = needed then None else Some needed, TableSwitches needed)))"

text \<open>Writes one after the other, up to the first that fails.\<close>

fun write_each :: "sink \<Rightarrow> bytes list \<Rightarrow> io_error option \<times> sink" where
  "write_each s [] = (None, s)"
| "write_each s (bs # bss) =
     (case sink_write_all s bs of
        (None, s') \<Rightarrow> write_each s' bss
      | (Some e, s') \<Rightarrow> (Some e, s'))"

definition row_writes :: "i64 option \<Rightarrow> yson_format \<Rightarrow> bytes \<Rightarrow> bytes list" where
  "row_writes switch format encoded =
     (case switch of Some index \<Rightarrow> [encode_table_switch index format] | None \<Rightarrow> []) @ [encoded, [0x3B]]"

definition jw_write_bytes :: "job_writer \<Rightarrow> nat \<Rightarrow> bytes \<Rightarrow> write_result \<times> job_writer" where
  "jw_write_bytes w table encoded =
     (case route (wr_routing w) table of
        (sink_index, switch, routing) \<Rightarrow>
          if sink_index < length (wr_tables w) then
            (case write_each (wr_tables w ! sink_index) (row_writes switch (wr_format w) encoded) of
               (failure, s) \<Rightarrow>
                 (case failure of None \<Rightarrow> Write_Ok | Some e \<Rightarrow> Write_Err (Job_Write table e),
                  w\<lparr>wr_routing := routing, wr_tables := (wr_tables w)[sink_index := s]\<rparr>))
          else (Write_Panic, w\<lparr>wr_routing := routing\<rparr>))"

definition jw_write_raw :: "job_writer \<Rightarrow> nat \<Rightarrow> bytes \<Rightarrow> write_result \<times> job_writer" where
  "jw_write_raw w table row =
     (case check_table w table of
        Inl e \<Rightarrow> (Write_Err e, w)
      | Inr _ \<Rightarrow> jw_write_bytes w table row)"

definition jw_write :: "formatters \<Rightarrow> job_writer \<Rightarrow> nat \<Rightarrow> serde \<Rightarrow> write_result \<times> job_writer" where
  "jw_write fmt w table row =
     (case check_table w table of
        Inl e \<Rightarrow> (Write_Err e, w)
      | Inr _ \<Rightarrow>
          (case serialize fmt row (with_buffer [] (wr_format w = Binary)) of
             Inl e \<Rightarrow> (Write_Err (Serialize table e), w)
           | Inr ser \<Rightarrow> jw_write_bytes w table (out ser)))"

text \<open>\<open>flush\<close> goes over the sinks in order and stops at the first that fails.\<close>

fun flush_from :: "nat \<Rightarrow> sink list \<Rightarrow> write_result \<times> sink list" where
  "flush_from table [] = (Write_Ok, [])"
| "flush_from table (s # ss) =
     (case sink_flush s of
        (Some e, s') \<Rightarrow> (Write_Err (Job_Write table e), s' # ss)
      | (None, s') \<Rightarrow> (case flush_from (table + 1) ss of (res, ss') \<Rightarrow> (res, s' # ss')))"

definition jw_flush :: "job_writer \<Rightarrow> write_result \<times> job_writer" where
  "jw_flush w = (case flush_from 0 (wr_tables w) of (res, ss) \<Rightarrow> (res, w\<lparr>wr_tables := ss\<rparr>))"

definition jw_finish :: "job_writer \<Rightarrow> write_result \<times> job_writer" where
  "jw_finish w =
     (case jw_flush w of
        (Write_Ok, w') \<Rightarrow> (Write_Ok, w'\<lparr>wr_finished := True\<rparr>)
      | (res, w') \<Rightarrow> (res, w'))"

text \<open>Dropping a writer flushes it unless it is finished; a failure is only printed.\<close>

definition jw_drop :: "job_writer \<Rightarrow> job_writer" where
  "jw_drop w = (if wr_finished w then w else snd (jw_flush w))"

section \<open>The invariant: no index is out of range\<close>

definition writer_ok :: "job_writer \<Rightarrow> bool" where
  "writer_ok w =
     (case wr_routing w of
        Descriptors \<Rightarrow> wr_logical_tables w = length (wr_tables w)
      | TableSwitches _ \<Rightarrow> length (wr_tables w) = 1)"

lemma writer_ok_built:
  "writer_ok (from_writers tables format)"
  "writer_ok (from_writer_with_switches s n format)"
  "writer_ok (fst (named_writers names tables format))"
  by (simp_all add: writer_ok_def from_writers_def from_writer_with_switches_def named_writers_def)

lemma write_bytes_ok:
  assumes "writer_ok w" "table < wr_logical_tables w"
  shows "writer_ok (snd (jw_write_bytes w table bs)) \<and> fst (jw_write_bytes w table bs) \<noteq> Write_Panic"
  using assms by (auto simp: writer_ok_def jw_write_bytes_def route_def Let_def split: routing.splits prod.splits option.splits)

lemma check_table_Inr: "check_table w table = Inr u \<Longrightarrow> table < wr_logical_tables w"
  by (simp add: check_table_def split: if_splits)

lemma length_flush_from: "length (snd (flush_from k ss)) = length ss"
  by (induction ss arbitrary: k) (auto split: prod.splits option.splits, metis snd_conv)

section \<open>Any sequence of calls\<close>

datatype job_op = Op_write nat serde | Op_write_raw nat bytes | Op_flush | Op_finish

fun run_op :: "formatters \<Rightarrow> job_writer \<Rightarrow> job_op \<Rightarrow> write_result \<times> job_writer" where
  "run_op fmt w (Op_write table row) = jw_write fmt w table row"
| "run_op fmt w (Op_write_raw table row) = jw_write_raw w table row"
| "run_op fmt w Op_flush = jw_flush w"
| "run_op fmt w Op_finish = jw_finish w"

text \<open>The answers, in order; a job may go on after an error.\<close>

fun run_ops :: "formatters \<Rightarrow> job_writer \<Rightarrow> job_op list \<Rightarrow> write_result list \<times> job_writer" where
  "run_ops fmt w [] = ([], w)"
| "run_ops fmt w (op # ops) =
     (case run_op fmt w op of
        (res, w') \<Rightarrow> (case run_ops fmt w' ops of (results, w'') \<Rightarrow> (res # results, w'')))"

lemma flush_from_no_panic: "fst (flush_from k ss) \<noteq> Write_Panic"
  by (induction ss arbitrary: k) (auto split: prod.splits option.splits, metis fst_conv)

lemma flush_ok: "writer_ok w \<Longrightarrow> writer_ok (snd (jw_flush w)) \<and> fst (jw_flush w) \<noteq> Write_Panic"
  using length_flush_from [of 0 "wr_tables w"] flush_from_no_panic [of 0 "wr_tables w"]
  by (auto simp: jw_flush_def writer_ok_def split: prod.splits routing.splits)

lemma run_op_ok:
  assumes "writer_ok w"
  shows "writer_ok (snd (run_op fmt w op)) \<and> fst (run_op fmt w op) \<noteq> Write_Panic"
proof (cases op)
  case (Op_write table row)
  then show ?thesis using assms write_bytes_ok check_table_Inr
    by (auto simp: jw_write_def split: sum.splits)
next
  case (Op_write_raw table row)
  then show ?thesis using assms write_bytes_ok check_table_Inr by (auto simp: jw_write_raw_def split: sum.splits)
next
  case Op_flush
  then show ?thesis using flush_ok [OF assms] by simp
next
  case Op_finish
  then show ?thesis using flush_ok [OF assms]
    by (cases "jw_flush w") (auto simp: jw_finish_def writer_ok_def split: write_result.splits routing.splits)
qed

lemma run_op_finished:
  assumes "wr_finished w"
  shows "wr_finished (snd (run_op fmt w op)) \<and> map sk_bytes (wr_tables (snd (run_op fmt w op))) = map sk_bytes (wr_tables w)"
proof -
  have f: "map sk_bytes (snd (flush_from k ss)) = map sk_bytes ss" for k ss
    by (induction ss arbitrary: k)
      (auto simp: sink_flush_def sink_write_all_def split: prod.splits option.splits list.splits sink_answer.splits, (metis snd_conv)+)
  show ?thesis
    using assms f [of 0 "wr_tables w"]
    by (cases op) (auto simp: jw_write_def jw_write_raw_def check_table_def jw_flush_def jw_finish_def
        split: prod.splits write_result.splits)
qed

section \<open>Properties\<close>

text \<open>Whatever a job calls on a writer it has built, in whatever order and whatever its sinks
  answer, no call indexes a sink that is not there, and once \<open>finish\<close> has succeeded no later call
  puts another byte on any sink, so no row is accepted that will not be flushed.\<close>

theorem job_writer_guarded:
  assumes "writer_ok w"
  shows "Write_Panic \<notin> set (fst (run_ops fmt w ops)) \<and>
    (wr_finished w \<longrightarrow> map sk_bytes (wr_tables (snd (run_ops fmt w ops))) = map sk_bytes (wr_tables w))"
proof
  show "Write_Panic \<notin> set (fst (run_ops fmt w ops))"
    using assms
  proof (induction ops arbitrary: w)
    case (Cons op ops)
    then show ?case using run_op_ok [of w fmt op] by (auto split: prod.splits) (metis fst_conv snd_conv)
  qed simp
  show "wr_finished w \<longrightarrow> map sk_bytes (wr_tables (snd (run_ops fmt w ops))) = map sk_bytes (wr_tables w)"
  proof (induction ops arbitrary: w)
    case (Cons op ops)
    then show ?case using run_op_finished [of w fmt op] by (auto split: prod.splits) (metis snd_conv)
  qed simp
qed

lemma job_writer_guarded_witness:
  "Write_Panic \<notin> set (fst (run_ops decimal_formatters (from_writers [\<lparr>sk_bytes = [], sk_answers = [Rejects 1 ''EPIPE'']\<rparr>] Binary)
      [Op_write_raw 0 [0x23], Op_write_raw 1 [0x23], Op_finish, Op_write_raw 0 [0x23]])) \<and>
   map sk_bytes (wr_tables (snd (run_ops decimal_formatters ((from_writers [\<lparr>sk_bytes = [1], sk_answers = []\<rparr>] Binary)\<lparr>wr_finished := True\<rparr>)
      [Op_write_raw 0 [0x23], Op_flush]))) = [[1]]"
proof
  show "Write_Panic \<notin> set (fst (run_ops decimal_formatters (from_writers [\<lparr>sk_bytes = [], sk_answers = [Rejects 1 ''EPIPE'']\<rparr>] Binary)
      [Op_write_raw 0 [0x23], Op_write_raw 1 [0x23], Op_finish, Op_write_raw 0 [0x23]]))"
    using job_writer_guarded [OF writer_ok_built(1)] by blast
  show "map sk_bytes (wr_tables (snd (run_ops decimal_formatters ((from_writers [\<lparr>sk_bytes = [1], sk_answers = []\<rparr>] Binary)\<lparr>wr_finished := True\<rparr>)
      [Op_write_raw 0 [0x23], Op_flush]))) = [[1]]"
    using job_writer_guarded [of "(from_writers [\<lparr>sk_bytes = [1], sk_answers = []\<rparr>] Binary)\<lparr>wr_finished := True\<rparr>" decimal_formatters
      "[Op_write_raw 0 [0x23], Op_flush]"]
    by (simp add: writer_ok_def from_writers_def del: run_ops.simps)
qed

end
