(* ===== verification/Job_Tables.thy ===== *)
theory Job_Tables
  imports Job_Stream Job_Writer
begin

text \<open>
  The two ends of a job together: rows written to several tables over one descriptor, with
  \<open>table_index\<close> records between them, are the rows a reader of that descriptor sees, each under
  the index of the table it was written to.
\<close>

section \<open>The crate's zigzag is YSON's\<close>

lemma zigzag_bytes_is_uvarint: "zigzag_bytes v = write_uvarint v"
  by (induction v rule: zigzag_bytes.induct) (subst zigzag_bytes.simps, subst write_uvarint.simps, simp)

lemma write_zigzag_is_varint: "write_zigzag v = write_varint v"
  by (simp add: write_zigzag_def write_varint_def zigzag_def zigzag_bytes_is_uvarint)

definition switch_value :: "i64 \<Rightarrow> yson_value" where
  "switch_value index = YsonValue (Some [(ascii ''table_index'', plain (Int64 index))]) Entity"

lemma encode_table_switch_value:
  "encode_table_switch index Binary = enc_value (scalar_bytes fmt True) (switch_value index) @ [0x3B]"
proof -
  have "write_varint (of_nat (length (ascii ''table_index''))) = write_varint 11" by simp
  moreover have "utf8_valid (ascii ''table_index'')" by code_simp
  ultimately show ?thesis
    by (simp add: encode_table_switch_def switch_value_def write_zigzag_is_varint write_string_def check_first_def
        write_i64_def)
qed

section \<open>Encoded values as records\<close>

definition job_row_ok :: "yson_value \<Rightarrow> bool" where
  "job_row_ok v \<longleftrightarrow> value_ok binary_ok v \<and> need_value v \<le> 128 \<and> (node v = Entity \<longrightarrow> attributes v = None)"

abbreviation enc_binary :: "formatters \<Rightarrow> yson_value \<Rightarrow> bytes" where
  "enc_binary fmt v \<equiv> enc_value (scalar_bytes fmt True) v"

lemma enc_node_head:
  "\<exists>b bs. enc_node (scalar_bytes fmt True) n = b # bs \<and> \<not> is_separator b \<and> b \<noteq> 0x3C"
  by (cases n) (auto simp: is_separator_def is_space_def write_bool_def write_i64_def write_u64_def write_f64_def
      write_string_def write_bytes_def)

lemma enc_value_head:
  assumes "value_ok binary_ok v"
  shows "\<exists>b bs. enc_binary fmt v = b # bs \<and> \<not> is_separator b \<and> (b = 0x3C \<longleftrightarrow> attributes v \<noteq> None)"
proof (cases v)
  case (YsonValue a n)
  then show ?thesis using assms enc_node_head [of fmt n]
    by (auto simp: is_separator_def is_space_def split: option.splits list.splits)
qed

lemma scan_encoded:
  assumes "value_ok binary_ok v" "need_value v \<le> 128" "rest = [] \<or> hd rest = 0x3B"
  shows "scan_value (enc_binary fmt v @ rest) Binary = Inr (Complete (length (enc_binary fmt v)))"
proof -
  have "delimited rest" using assms(3) by (auto simp: delimited_def)
  then show ?thesis
    using binary_fmt.scan_back [of v rest fmt] assms(1,2) by (simp add: scan_value_Complete MAX_DEPTH_def)
qed

lemma decode_encoded:
  assumes "value_ok binary_ok v" "need_value v \<le> 128"
  shows "from_slice (enc_binary fmt v) Binary = Inr v"
  using binary_fmt.read_back [OF assms(1)] assms(2) by (intro from_slice_end) (simp add: DE_MAX_DEPTH_def)

lemma classify_encoded:
  assumes "job_row_ok v" shows "classify (enc_binary fmt v) Binary off = Inr Classified_Row"
proof -
  note ok = assms [unfolded job_row_ok_def]
  obtain b bs where b: "enc_binary fmt v = b # bs" "b = 0x3C \<longleftrightarrow> attributes v \<noteq> None"
    using enc_value_head [of v fmt] ok by blast
  show ?thesis
  proof (cases "b = 0x3C")
    case True
    then have "node v \<noteq> Entity" using b ok by auto
    then show ?thesis
      using b True ok decode_encoded [of v fmt]
      by (simp add: classify_def first_significant_byte_def classify_attributed_def map_yson_def)
  qed (use b in \<open>simp add: classify_def first_significant_byte_def\<close>)
qed

lemma switch_value_ok: "value_ok binary_ok (switch_value i)" "need_value (switch_value i) \<le> 128"
  by (simp_all add: switch_value_def binary_ok_def btree_wf_def)

lemma classify_switch: "classify (enc_binary fmt (switch_value i)) Binary off = Inr (TableIndex i)"
proof -
  have "\<exists>bs. enc_binary fmt (switch_value i) = 0x3C # bs" by (simp add: switch_value_def)
  then show ?thesis
    using decode_encoded [OF switch_value_ok, of fmt i]
    by (auto simp: classify_def first_significant_byte_def classify_attributed_def map_yson_def switch_value_def
        ascii_eq_iff control_i64_def as_i64_def)
qed

lemma switch_length: "length (enc_binary fmt (switch_value i)) \<le> 64"
proof -
  have "length (write_varint v) \<le> 10" for v by (simp add: write_varint_def write_uvarint_length_10)
  moreover have "utf8_valid (ascii ''table_index'')" by code_simp
  ultimately show ?thesis
    using add_mono [of "length (write_varint 11)" 10 "length (write_varint i)" 10]
    by (simp add: switch_value_def write_string_def check_first_def write_i64_def)
qed

text \<open>A separated encoded value at the front of a stream is its next record.\<close>

lemma record_encoded:
  assumes v: "value_ok binary_ok v" "need_value v \<le> 128" "length (enc_binary fmt v) \<le> limit"
    and s: "sr_rest s = pre @ enc_binary fmt v @ 0x3B # rest" "\<forall>b \<in> set pre. is_separator b" "sr_format s = Binary"
  shows "stream_record limit m s = Inr (Some (length (enc_binary fmt v),
    s\<lparr>sr_rest := enc_binary fmt v @ 0x3B # rest, sr_offset := sr_offset s + length pre\<rparr>))"
proof -
  let ?e = "enc_binary fmt v"
  obtain b bs where b: "?e = b # bs" "\<not> is_separator b" using enc_value_head [OF v(1)] by blast
  have skip: "sr_skip s = s\<lparr>sr_rest := ?e @ 0x3B # rest, sr_offset := sr_offset s + length pre\<rparr>"
    using s b by (simp add: sr_skip_def)
  have "scan_value (?e @ take (limit - length ?e) (0x3B # rest)) Binary = Inr (Complete (length ?e))"
    by (rule scan_encoded [OF v(1,2)]) (cases "limit - length ?e"; simp)
  then have tk: "scan_value (take limit (?e @ 0x3B # rest)) Binary = Inr (Complete (length ?e))"
    using v(3) by simp
  have "?e \<noteq> []" using b by simp
  then show ?thesis using s(3) tk by (simp add: stream_record_def skip Let_def del: take_append)
qed

section \<open>Writing over one descriptor\<close>

type_synonym table_rows = "(nat \<times> yson_value) list"

fun write_rows :: "formatters \<Rightarrow> job_writer \<Rightarrow> table_rows \<Rightarrow> write_result \<times> job_writer" where
  "write_rows fmt w [] = (Write_Ok, w)"
| "write_rows fmt w ((table, v) # rows) =
     (case jw_write fmt w table (value_serde v) of
        (Write_Ok, w') \<Rightarrow> write_rows fmt w' rows
      | (res, w') \<Rightarrow> (res, w'))"

text \<open>The bytes on the descriptor, from the table the last switch selected.\<close>

fun switched :: "formatters \<Rightarrow> i64 \<Rightarrow> table_rows \<Rightarrow> bytes" where
  "switched fmt current [] = []"
| "switched fmt current ((table, v) # rows) =
     (if current = as_table_index table then []
      else enc_binary fmt (switch_value (as_table_index table)) @ [0x3B]) @
     enc_binary fmt v @ 0x3B # switched fmt (as_table_index table) rows"

definition switching :: "job_writer \<Rightarrow> i64 \<Rightarrow> bytes \<Rightarrow> nat \<Rightarrow> bool" where
  "switching w current bs n \<longleftrightarrow>
     wr_tables w = [\<lparr>sk_bytes = bs, sk_answers = []\<rparr>] \<and> wr_logical_tables w = n \<and> wr_format w = Binary \<and>
     wr_routing w = TableSwitches current \<and> \<not> wr_finished w"

lemma jw_write_switching:
  assumes "switching w current bs n" "table < n"
  shows "\<exists>w'. jw_write fmt w table (value_serde v) = (Write_Ok, w') \<and>
    switching w' (as_table_index table) (bs @ switched fmt current [(table, v)]) n"
proof -
  have "serialize fmt (value_serde v) (with_buffer [] True) =
      Inr (push (with_buffer [] True) (enc_binary fmt v))"
    by (rule serialize_grammar(1)) (simp_all add: with_buffer_def)
  then show ?thesis
    using assms
    by (auto simp: switching_def jw_write_def check_table_def jw_write_bytes_def route_def Let_def row_writes_def
        sink_write_all_def encode_table_switch_value [of _ fmt] with_buffer_def push_def)
qed

lemma write_rows_switching:
  assumes "switching w current bs n" "\<forall>(table, v) \<in> set rows. table < n"
  shows "\<exists>w' current'. write_rows fmt w rows = (Write_Ok, w') \<and> switching w' current' (bs @ switched fmt current rows) n"
  using assms
proof (induction rows arbitrary: w current bs)
  case (Cons tv rows)
  obtain table v where tv: "tv = (table, v)" by fastforce
  obtain w1 where w1: "jw_write fmt w table (value_serde v) = (Write_Ok, w1)"
      "switching w1 (as_table_index table) (bs @ switched fmt current [(table, v)]) n"
    using jw_write_switching [OF Cons(2), of table fmt v] Cons(3) tv by auto
  from Cons(1) [OF w1(2)] Cons(3) tv w1(1) show ?case by auto
qed auto

section \<open>Reading it back\<close>

fun event_row :: "event \<Rightarrow> (i64 \<times> (job_error + yson_value)) option" where
  "event_row (Row row) = Some (row_table_index row, row_value row)"
| "event_row KeySwitch = None"

lemma stream_events_row:
  assumes "stream_record limit m s0 = Inr (Some (n, s))"
    and "classify (take n (sr_rest s)) (sr_format s) (sr_offset s) = Inr Classified_Row"
  shows "stream_events limit m s0 = apfst (Cons (Row (sr_row s n)))
     (stream_events limit m ((sr_advance n s)\<lparr>sr_row_index := map_option (\<lambda>i. i + 1) (sr_row_index s)\<rparr>))"
  using assms by (subst stream_events.simps) simp

lemma stream_events_table:
  assumes "stream_record limit m s0 = Inr (Some (n, s))"
    and "classify (take n (sr_rest s)) (sr_format s) (sr_offset s) = Inr (TableIndex i)"
  shows "stream_events limit m s0 = stream_events limit m (sr_advance n (sr_control (TableIndex i) s))"
  using assms by (subst stream_events.simps) simp

lemma switched_events:
  assumes "\<forall>(table, v) \<in> set rows. job_row_ok v \<and> length (enc_binary fmt v) \<le> limit" "64 \<le> limit"
    and "sr_rest s = pre @ switched fmt current rows" "\<forall>b \<in> set pre. is_separator b"
    and "sr_format s = Binary" "sr_fate s = None" "sr_table_index s = current"
  shows "\<exists>evs. stream_events limit m s = (evs, None) \<and>
    map event_row evs = map (\<lambda>(table, v). Some (as_table_index table, Inr v)) rows"
  using assms
proof (induction rows arbitrary: s pre current)
  case Nil
  have "sr_rest (sr_skip s) = []" using Nil(3,4) by (simp add: sr_skip_def)
  then have "stream_record limit m s = Inr None"
    using Nil(2,6) by (simp add: stream_record_def Let_def) (simp add: sr_skip_def)
  then show ?case by (simp add: stream_events.simps [of _ _ s])
next
  case (Cons tv rows)
  obtain table v where tv: "tv = (table, v)" by fastforce
  let ?i = "as_table_index table" and ?e = "enc_binary fmt v"
  let ?tail = "?e @ 0x3B # switched fmt ?i rows"
  have v: "job_row_ok v" "length ?e \<le> limit" "value_ok binary_ok v" "need_value v \<le> 128"
    using Cons(2) tv by (auto simp: job_row_ok_def)
  have row: "\<exists>evs. stream_events limit m s1 = (evs, None) \<and>
      map event_row evs = map (\<lambda>(table, v). Some (as_table_index table, Inr v)) (tv # rows)"
    if "sr_rest s1 = pre1 @ ?tail" "\<forall>b \<in> set pre1. is_separator b" "sr_format s1 = Binary" "sr_fate s1 = None"
      "sr_table_index s1 = ?i" for s1 pre1
  proof -
    note s1 = that
    let ?s = "s1\<lparr>sr_rest := ?tail, sr_offset := sr_offset s1 + length pre1\<rparr>"
    let ?next = "(sr_advance (length ?e) ?s)\<lparr>sr_row_index := map_option (\<lambda>i. i + 1) (sr_row_index ?s)\<rparr>"
    have rec: "stream_record limit m s1 = Inr (Some (length ?e, ?s))"
      by (rule record_encoded [OF v(3,4,2) s1(1,2,3)])
    have "stream_events limit m s1 = apfst (Cons (Row (sr_row ?s (length ?e)))) (stream_events limit m ?next)"
      by (rule stream_events_row [OF rec]) (simp add: classify_encoded [OF v(1)] s1(3))
    moreover obtain evs where "stream_events limit m ?next = (evs, None)"
        "map event_row evs = map (\<lambda>(table, v). Some (as_table_index table, Inr v)) rows"
      using Cons(1) [of ?next "[0x3B]" ?i] Cons(2,3) s1 tv by (auto simp: sr_advance_def is_separator_def)
    moreover have "event_row (Row (sr_row ?s (length ?e))) = Some (?i, Inr v)"
      using s1 decode_encoded [OF v(3,4), of fmt] by (simp add: sr_row_def row_value_def map_yson_def)
    ultimately show ?thesis by (simp add: tv)
  qed
  show ?case
  proof (cases "current = ?i")
    case True
    then show ?thesis using row [of s pre] Cons(4-8) tv by simp
  next
    case False
    let ?sw = "enc_binary fmt (switch_value ?i)"
    let ?s = "s\<lparr>sr_rest := ?sw @ 0x3B # ?tail, sr_offset := sr_offset s + length pre\<rparr>"
    let ?next = "sr_advance (length ?sw) (sr_control (TableIndex ?i) ?s)"
    have rec: "stream_record limit m s = Inr (Some (length ?sw, ?s))"
      by (rule record_encoded [OF switch_value_ok])
        (use Cons(3-6) switch_length [of fmt ?i] tv False in auto)
    have "stream_events limit m s = stream_events limit m ?next"
      by (rule stream_events_table [OF rec]) (simp add: classify_switch Cons(6))
    then show ?thesis
      using row [of ?next "[0x3B]"] Cons(6,7) by (simp add: sr_advance_def is_separator_def)
  qed
qed

section \<open>Writing to one descriptor per table\<close>

lemma write_all_None: "sink_write_all s bs = (None, s') \<Longrightarrow> sk_bytes s' = sk_bytes s @ bs"
  by (auto simp: sink_write_all_def split: list.splits sink_answer.splits)

lemma write_each_None: "write_each s bss = (None, s') \<Longrightarrow> sk_bytes s' = sk_bytes s @ concat bss"
  by (induction bss arbitrary: s) (auto split: prod.splits option.splits dest: write_all_None)

lemma delivered_step:
  assumes "wr_routing w = Descriptors" "jw_write fmt w table (value_serde v) = (Write_Ok, w1)"
  shows "wr_routing w1 = Descriptors \<and> wr_format w1 = wr_format w \<and> table < length (wr_tables w) \<and>
    (\<exists>s. wr_tables w1 = (wr_tables w)[table := s] \<and> sk_bytes s = sk_bytes (wr_tables w ! table) @
      enc_value (scalar_bytes fmt (wr_format w = Binary)) v @ [0x3B])"
proof -
  let ?bin = "wr_format w = Binary" and ?s0 = "wr_tables w ! table"
  let ?e = "enc_value (scalar_bytes fmt ?bin) v"
  have "serialize fmt (value_serde v) (with_buffer [] ?bin) = Inr (push (with_buffer [] ?bin) ?e)"
    by (rule serialize_grammar(1)) (simp_all add: with_buffer_def)
  then have "jw_write_bytes w table ?e = (Write_Ok, w1)"
    using assms(2) by (auto simp: jw_write_def with_buffer_def push_def split: sum.splits)
  then obtain s where s: "table < length (wr_tables w)" "write_each ?s0 [?e, [0x3B]] = (None, s)"
      "w1 = w\<lparr>wr_routing := Descriptors, wr_tables := (wr_tables w)[table := s]\<rparr>"
    using assms(1) by (auto simp: jw_write_bytes_def route_def row_writes_def simp del: write_each.simps
        split: if_splits prod.splits option.splits)
  then show ?thesis using write_each_None [OF s(2)] by auto
qed

section \<open>Properties\<close>

text \<open>C30: rows written to several tables over one descriptor come back under the table they were
  written to: whatever tables they go to and in whatever order, every write succeeds, and a reader
  of that descriptor, however its reads are cut, ends without an error after handing out exactly
  the written rows in order, each with the index of its table and the value that was written.\<close>

theorem job_tables_roundtrip:
  assumes "\<forall>(table, v) \<in> set rows. table < n \<and> job_row_ok v \<and> length (enc_binary fmt v) \<le> max (max b 64) m"
    and "write_rows fmt (from_writer_with_switches \<lparr>sk_bytes = [], sk_answers = []\<rparr> n Binary) rows = (res, w)"
    and "stream_of input = sk_bytes (wr_tables w ! 0)" "fate_of input = None" "m \<le> USIZE_MAX"
  shows "res = Write_Ok \<and> snd (read_events (job_reader_of b m input)) = None \<and>
    map event_row (fst (read_events (job_reader_of b m input))) =
      map (\<lambda>(table, v). Some (as_table_index table, Inr v)) rows"
proof -
  let ?w0 = "from_writer_with_switches \<lparr>sk_bytes = [], sk_answers = []\<rparr> n Binary" and ?L = "max (max b 64) m"
  have "switching ?w0 0 [] n" by (simp add: switching_def from_writer_with_switches_def from_writers_def)
  moreover have "\<forall>(table, v) \<in> set rows. table < n" using assms(1) by auto
  ultimately obtain current where w: "res = Write_Ok" "switching w current (switched fmt 0 rows) n"
    using write_rows_switching [of ?w0 0 "[]" n rows fmt] assms(2) by auto
  have "\<exists>evs. stream_events ?L m (stream_start (stream_of input) (fate_of input)) = (evs, None) \<and>
    map event_row evs = map (\<lambda>(table, v). Some (as_table_index table, Inr v)) rows"
    by (rule switched_events [where fmt = fmt and current = 0 and pre = "[]"])
      (use assms w in \<open>auto simp: stream_start_def switching_def\<close>)
  then show ?thesis
    using w read_events_refines [OF job_reader_of_simps(1) [OF assms(5), of b input] job_reader_of_simps(2)]
    by (auto simp: job_reader_of_simps)
qed

lemma job_tables_roundtrip_witness:
  "map event_row (fst (read_events (job_reader_of 64 100
     [Chunk [0x3C, 1], Interrupted, Chunk ([22] @ ascii ''table_index'' @ [0x3D, 2, 2, 0x3E, 0x23, 0x3B, 2, 2, 0x3B, 2, 2]),
      Chunk [0x3B]]))) = [Some (1, Inr (plain (Int64 1))), Some (1, Inr (plain (Int64 1)))]"
proof -
  let ?rows = "[(1, plain (Int64 1)), (1, plain (Int64 1))] :: table_rows"
  let ?input = "[Chunk [0x3C, 1], Interrupted,
      Chunk ([22] @ ascii ''table_index'' @ [0x3D, 2, 2, 0x3E, 0x23, 0x3B, 2, 2, 0x3B, 2, 2]), Chunk [0x3B]]"
  let ?run = "write_rows decimal_formatters (from_writer_with_switches \<lparr>sk_bytes = [], sk_answers = []\<rparr> 2 Binary) ?rows"
  have ai: "as_table_index 1 = 1" "as_table_index (Suc 0) = 1" by (simp_all add: as_table_index_def)
  have enc: "enc_binary decimal_formatters (plain (Int64 1)) = [2, 2]" by (simp add: write_i64_def write_varint_1)
  have "\<exists>w' current'. ?run = (Write_Ok, w') \<and> switching w' current' ([] @ switched decimal_formatters 0 ?rows) 2"
    by (rule write_rows_switching)
      (simp_all add: switching_def from_writer_with_switches_def from_writers_def)
  then have "sk_bytes (wr_tables (snd ?run) ! 0) = switched decimal_formatters 0 ?rows"
    by (auto simp: switching_def)
  also have "\<dots> = encode_table_switch 1 Binary @ [2, 2, 0x3B, 2, 2, 0x3B]"
    by (simp add: ai enc encode_table_switch_value [of 1 decimal_formatters] del: enc_value.simps)
  also have "\<dots> = stream_of ?input" by code_simp
  finally have "sk_bytes (wr_tables (snd ?run) ! 0) = stream_of ?input" .
  moreover have "fate_of ?input = None" by simp
  moreover have "\<forall>(table, v) \<in> set ?rows. table < 2 \<and> job_row_ok v \<and>
      length (enc_binary decimal_formatters v) \<le> max (max 64 64) 100"
    by (simp add: job_row_ok_def binary_ok_def enc del: enc_value.simps)
  ultimately have "fst ?run = Write_Ok \<and> snd (read_events (job_reader_of 64 100 ?input)) = None \<and>
    map event_row (fst (read_events (job_reader_of 64 100 ?input))) =
      map (\<lambda>(table, v). Some (as_table_index table, Inr v)) ?rows"
    by (intro job_tables_roundtrip [where n = 2 and fmt = decimal_formatters and w = "snd ?run"])
      (simp_all only: prod.collapse USIZE_MAX_def, simp)
  then show ?thesis by (simp only: ai list.map prod.case)
qed

text \<open>A job that writes to one descriptor per table and is told that every row was written has
  every row in its table: each sink has what it had, followed by the encodings of exactly the rows
  written to that table, in order, each with its separator, whatever the sinks may answer.\<close>

theorem reported_rows_delivered:
  assumes "wr_routing w = Descriptors" "write_rows fmt w rows = (Write_Ok, w')" "k < length (wr_tables w)"
  shows "sk_bytes (wr_tables w' ! k) = sk_bytes (wr_tables w ! k) @
    concat (map (\<lambda>(table, v). enc_value (scalar_bytes fmt (wr_format w = Binary)) v @ [0x3B])
      (filter (\<lambda>(table, v). table = k) rows))"
  using assms
proof (induction rows arbitrary: w)
  case (Cons tv rows)
  obtain table v where tv: "tv = (table, v)" by fastforce
  obtain w1 where w1: "jw_write fmt w table (value_serde v) = (Write_Ok, w1)" "write_rows fmt w1 rows = (Write_Ok, w')"
    using Cons(3) tv by (auto split: prod.splits write_result.splits)
  from delivered_step [OF Cons(2) w1(1)] Cons(1) [OF _ w1(2)] Cons(4) tv show ?case
    by (auto simp: nth_list_update split: if_splits)
qed auto

lemma reported_rows_delivered_witness:
  "sk_bytes (wr_tables (snd (write_rows decimal_formatters (from_writers [\<lparr>sk_bytes = [], sk_answers = []\<rparr>] Binary)
     [(0, plain Entity), (0, plain Entity)])) ! 0) = [0x23, 0x3B, 0x23, 0x3B]"
proof -
  let ?w = "from_writers [\<lparr>sk_bytes = [], sk_answers = []\<rparr>] Binary"
  have "\<exists>w'. write_rows decimal_formatters ?w [(0, plain Entity), (0, plain Entity)] = (Write_Ok, w')"
    by (simp add: from_writers_def jw_write_def check_table_def jw_write_bytes_def route_def row_writes_def sink_write_all_def)
  then show ?thesis
    using reported_rows_delivered [of ?w decimal_formatters "[(0, plain Entity), (0, plain Entity)]" _ 0]
    by (auto simp: from_writers_def)
qed

end
