(* ===== verification/Rpc_Envelope.thy ===== *)
theory Rpc_Envelope
  imports Rpc_Packet
begin

text \<open>
  \<open>crates/ytsaurus-rpc/src/rpc.rs\<close> and the error tree of \<open>error.rs\<close>: the RPC envelope inside a bus
  message. The protobuf library is a parameter: what it serializes a header to, and what it reads
  a response header from.
\<close>

section \<open>Errors\<close>

datatype yt_error = YtError
  (yt_code: i32) (yt_message: bytes) (yt_attributes: "(bytes \<times> bytes) list") (yt_inner_errors: "yt_error list")

fun yt_find :: "i32 \<Rightarrow> yt_error \<Rightarrow> yt_error option"
  and yt_find_first :: "i32 \<Rightarrow> yt_error list \<Rightarrow> yt_error option"
where
  "yt_find code (YtError c m a inner) =
     (if c = code then Some (YtError c m a inner) else yt_find_first code inner)"
| "yt_find_first code [] = None"
| "yt_find_first code (e # es) = (case yt_find code e of Some x \<Rightarrow> Some x | None \<Rightarrow> yt_find_first code es)"

definition yt_has_code :: "yt_error \<Rightarrow> i32 \<Rightarrow> bool" where
  "yt_has_code e code = (yt_find code e \<noteq> None)"

fun yt_innermost :: "yt_error \<Rightarrow> yt_error" where
  "yt_innermost (YtError c m a []) = YtError c m a []"
| "yt_innermost (YtError c m a (e # es)) = yt_innermost e"

definition yt_attribute :: "yt_error \<Rightarrow> bytes \<Rightarrow> bytes option" where
  "yt_attribute e key = map_of (yt_attributes e) key"

text \<open>Every code in the tree, outermost first.\<close>

fun yt_codes :: "yt_error \<Rightarrow> i32 list" where
  "yt_codes (YtError c m a inner) = c # concat (map yt_codes inner)"

lemma yt_find_codes:
  "(yt_find code e \<noteq> None) = (code \<in> set (yt_codes e))"
  "(yt_find_first code' es \<noteq> None) = (\<exists>e \<in> set es. code' \<in> set (yt_codes e))"
  by (induction code e and code' es rule: yt_find_yt_find_first.induct)
    (auto split: option.splits)

lemma yt_has_code_iff: "yt_has_code e code \<longleftrightarrow> code \<in> set (yt_codes e)"
  by (simp only: yt_has_code_def yt_find_codes)

lemma yt_innermost_in_tree: "yt_has_code e (yt_code (yt_innermost e))"
  by (induction e rule: yt_innermost.induct) (simp_all add: yt_has_code_iff)

section \<open>Headers\<close>

definition API_SERVICE :: bytes where "API_SERVICE = ascii ''ApiService''"
definition PROTOCOL_VERSION_MAJOR :: i32 where "PROTOCOL_VERSION_MAJOR = 1"
definition DEFAULT_PROTOCOL_VERSION_MAJOR :: i32 where "DEFAULT_PROTOCOL_VERSION_MAJOR = 0"
definition CODEC_NONE :: i32 where "CODEC_NONE = 0"
definition CREDENTIALS_EXT_FIELD :: nat where "CREDENTIALS_EXT_FIELD = 110"

definition protocol_version_major :: "bytes \<Rightarrow> i32" where
  "protocol_version_major service =
     (if service = API_SERVICE then PROTOCOL_VERSION_MAJOR else DEFAULT_PROTOCOL_VERSION_MAJOR)"

datatype message_type = Request_Message | Request_Cancelation | Response_Message

fun message_type_word :: "message_type \<Rightarrow> u32" where
  "message_type_word Request_Message = 0x69637072"
| "message_type_word Request_Cancelation = 0x63637072"
| "message_type_word Response_Message = 0x6f637072"

definition message_type_from_wire :: "u32 \<Rightarrow> message_type option" where
  "message_type_from_wire v =
     (if v = 0x69637072 then Some Request_Message else if v = 0x63637072 then Some Request_Cancelation
      else if v = 0x6f637072 then Some Response_Message else None)"

lemma message_type_roundtrip [simp]: "message_type_from_wire (message_type_word t) = Some t"
  by (cases t) (simp_all add: message_type_from_wire_def)

record request_header =
  rq_request_id :: guid
  rq_service :: bytes
  rq_method :: bytes
  rq_protocol_version_major :: i32
  rq_timeout :: "i64 option"
  rq_mutation_id :: "guid option"
  rq_retry :: bool
  rq_user :: "bytes option"
  rq_request_codec :: i32
  rq_response_codec :: i32

text \<open>\<open>RequestHeaderBuilder\<close>; a timeout is a duration in nanoseconds.\<close>

record header_builder =
  hb_request_id :: guid
  hb_service :: bytes
  hb_method :: bytes
  hb_timeout :: "nat option"
  hb_mutation_id :: "guid option"
  hb_retry :: bool
  hb_user :: "bytes option"

definition builder_new :: "guid \<Rightarrow> bytes \<Rightarrow> bytes \<Rightarrow> header_builder" where
  "builder_new request_id service method =
     \<lparr>hb_request_id = request_id, hb_service = service, hb_method = method, hb_timeout = None,
      hb_mutation_id = None, hb_retry = False, hb_user = None\<rparr>"

definition build_header :: "header_builder \<Rightarrow> request_header" where
  "build_header b =
     \<lparr>rq_request_id = hb_request_id b, rq_service = hb_service b, rq_method = hb_method b,
      rq_protocol_version_major = protocol_version_major (hb_service b),
      rq_timeout = map_option (\<lambda>ns. of_nat (ns div 1000)) (hb_timeout b),
      rq_mutation_id = hb_mutation_id b, rq_retry = hb_retry b, rq_user = hb_user b,
      rq_request_codec = CODEC_NONE, rq_response_codec = CODEC_NONE\<rparr>"

record cancelation_header =
  ch_request_id :: guid
  ch_service :: bytes
  ch_method :: bytes

record response_header =
  rh_request_id :: "guid option"
  rh_error :: "yt_error option"

record proto_codec =
  pc_request_header :: "request_header \<Rightarrow> bytes"
  pc_cancelation_header :: "cancelation_header \<Rightarrow> bytes"
  pc_credentials :: "bytes \<Rightarrow> bytes"
  pc_delimited_key :: "nat \<Rightarrow> bytes"
  pc_varint :: "u64 \<Rightarrow> bytes"
  pc_response_header :: "bytes \<Rightarrow> string + response_header"

section \<open>Envelopes\<close>

definition append_length_delimited_field :: "proto_codec \<Rightarrow> bytes \<Rightarrow> nat \<Rightarrow> bytes \<Rightarrow> bytes" where
  "append_length_delimited_field pc buffer field_number payload =
     buffer @ pc_delimited_key pc field_number @ pc_varint pc (of_nat (length payload)) @ payload"

definition encode_header_part :: "proto_codec \<Rightarrow> message_type \<Rightarrow> bytes \<Rightarrow> bytes option \<Rightarrow> bytes" where
  "encode_header_part pc message_type header token =
     (let buffer = to_le (message_type_word message_type) @ header
      in case token of
           Some t \<Rightarrow> append_length_delimited_field pc buffer CREDENTIALS_EXT_FIELD (pc_credentials pc t)
         | None \<Rightarrow> buffer)"

definition encode_request ::
  "proto_codec \<Rightarrow> request_header \<Rightarrow> bytes option \<Rightarrow> bytes \<Rightarrow> bytes list \<Rightarrow> bytes option list" where
  "encode_request pc header token body attachments =
     Some (encode_header_part pc Request_Message (pc_request_header pc header) token) # Some body #
     map Some attachments"

definition encode_cancelation :: "proto_codec \<Rightarrow> guid \<Rightarrow> bytes \<Rightarrow> bytes \<Rightarrow> bytes option list" where
  "encode_cancelation pc request_id service method =
     [Some (encode_header_part pc Request_Cancelation
       (pc_cancelation_header pc \<lparr>ch_request_id = request_id, ch_service = service, ch_method = method\<rparr>) None)]"

datatype envelope_error =
    No_header_part
  | Header_too_short nat
  | Not_a_response message_type
  | Unknown_message_type u32
  | Header_decode string

record response_message =
  rm_header :: response_header
  rm_body :: "bytes option"
  rm_attachments :: "bytes list"

definition response_request_id :: "response_message \<Rightarrow> guid option" where
  "response_request_id r = rh_request_id (rm_header r)"

text \<open>An error with code 0 is success.\<close>

definition response_error :: "response_message \<Rightarrow> yt_error option" where
  "response_error r =
     (case rh_error (rm_header r) of
        None \<Rightarrow> None
      | Some e \<Rightarrow> if yt_code e \<noteq> 0 then Some e else None)"

definition decode_response :: "proto_codec \<Rightarrow> bytes option list \<Rightarrow> envelope_error + response_message" where
  "decode_response pc message =
     (case message of
        Some header_part # rest \<Rightarrow>
          if length header_part < 4 then Inl (Header_too_short (length header_part))
          else
            (let raw_type = from_le (take 4 header_part) :: u32
             in case message_type_from_wire raw_type of
                  Some Response_Message \<Rightarrow>
                    (case pc_response_header pc (drop 4 header_part) of
                       Inl e \<Rightarrow> Inl (Header_decode e)
                     | Inr header \<Rightarrow>
                         Inr \<lparr>rm_header = header,
                              rm_body = (case rest of p # _ \<Rightarrow> p | [] \<Rightarrow> None),
                              rm_attachments = map the (filter (\<lambda>p. p \<noteq> None) (tl rest))\<rparr>)
                | Some other \<Rightarrow> Inl (Not_a_response other)
                | None \<Rightarrow> Inl (Unknown_message_type raw_type))
      | _ \<Rightarrow> Inl No_header_part)"

lemma from_le_type_word: "from_le (take 4 (to_le (message_type_word t) @ rest)) = message_type_word t"
  by simp

text \<open>What the client itself sends is never taken for a response.\<close>

lemma requests_are_not_responses:
  "decode_response pc (encode_request pc header token body attachments) = Inl (Not_a_response Request_Message)"
  "decode_response pc (encode_cancelation pc rid service method) = Inl (Not_a_response Request_Cancelation)"
  by (auto simp: decode_response_def encode_request_def encode_cancelation_def encode_header_part_def
      append_length_delimited_field_def Let_def simp del: message_type_word.simps split: option.split)

end
