(* ===== verification/Rpc_Connection.thy ===== *)
theory Rpc_Connection
  imports Rpc_Envelope
begin

text \<open>
  \<open>crates/ytsaurus-rpc/src/connection.rs\<close>: the connection actor. Callers, the writer task, the
  reader task and the removals that a dropped call spawns interleave; one step of the model is what
  runs between two suspension points of one of them. A call is named by its request id, a random
  GUID, so a new call takes an id no other call has. The packets that wait for the socket are named
  by the call they are for; what they hold is \<open>Rpc_Envelope\<close>'s.
\<close>

section \<open>The state\<close>

definition OUTBOUND_QUEUE :: nat where "OUTBOUND_QUEUE = 64"
definition MAX_IN_FLIGHT :: nat where "MAX_IN_FLIGHT = 256"
definition CANCEL_QUEUE :: nat where "CANCEL_QUEUE = MAX_IN_FLIGHT"

text \<open>How a call ends; for a timeout or a dropped future, whether its request had been queued.\<close>

datatype call_result =
    Answered response_message
  | Failed_response yt_error
  | Connection_closed
  | Timed_out bool
  | Abandoned bool

text \<open>
  Where \<open>invoke_raw\<close> is suspended: at the semaphore, at the lock of the waiters with a permit in
  hand, at the outbound queue with its guard armed, at its \<open>oneshot\<close>.
\<close>

datatype call_phase = Acquiring | Admitted | Queueing | Waiting | Finished call_result

record call =
  cl_deadline :: bool
  cl_phase :: call_phase

datatype slot = Slot_empty | Slot_value response_message | Slot_dropped

datatype outgoing = Request guid | Cancellation guid

text \<open>A stopping task has up to three things left to do: set \<open>closed\<close>, close the semaphore, close the waiters.\<close>

datatype writer_phase = Writer_idle | Writer_sending outgoing | Writer_stopping nat | Writer_done
datatype reader_phase = Reader_reading | Reader_stopping nat | Reader_done

record connection =
  cn_calls :: "guid \<rightharpoonup> call"
  cn_available :: nat
  cn_semaphore_closed :: bool
  cn_waiters_closed :: bool
  cn_by_request :: "guid set"
  cn_slots :: "guid \<rightharpoonup> slot"
  cn_outbound :: "guid list"
  cn_cancels :: "guid list"
  cn_removals :: "guid list"
  cn_skipped :: "guid set"
  cn_closed :: bool
  cn_writer :: writer_phase
  cn_reader :: reader_phase
  cn_overflow :: bool
  cn_wire :: "outgoing list"
  cn_received :: "response_message list"

definition from_bus :: connection where
  "from_bus =
     \<lparr>cn_calls = Map.empty, cn_available = MAX_IN_FLIGHT, cn_semaphore_closed = False,
      cn_waiters_closed = False, cn_by_request = {}, cn_slots = Map.empty, cn_outbound = [],
      cn_cancels = [], cn_removals = [], cn_skipped = {}, cn_closed = False, cn_writer = Writer_idle,
      cn_reader = Reader_reading, cn_overflow = False, cn_wire = [], cn_received = []\<rparr>"

section \<open>Callers\<close>

text \<open>How a guard's drop removes its entry: in a spawned task, at once, or not at all.\<close>

datatype drop_mode = Spawned | Lock_free | Lock_contended

definition with_phase :: "guid \<Rightarrow> call_phase \<Rightarrow> (guid \<rightharpoonup> call) \<Rightarrow> (guid \<rightharpoonup> call)" where
  "with_phase rid p calls = calls(rid := map_option (\<lambda>c. c\<lparr>cl_phase := p\<rparr>) (calls rid))"

abbreviation set_phase :: "guid \<Rightarrow> call_phase \<Rightarrow> connection \<Rightarrow> connection" where
  "set_phase rid p s \<equiv> s\<lparr>cn_calls := with_phase rid p (cn_calls s)\<rparr>"

definition phase_in :: "(guid \<rightharpoonup> call) \<Rightarrow> guid \<Rightarrow> call_phase option" where
  "phase_in calls rid = map_option cl_phase (calls rid)"

abbreviation phase_of :: "connection \<Rightarrow> guid \<Rightarrow> call_phase option" where
  "phase_of s \<equiv> phase_in (cn_calls s)"

definition deadline_in :: "(guid \<rightharpoonup> call) \<Rightarrow> guid \<Rightarrow> bool" where
  "deadline_in calls rid = (case calls rid of Some c \<Rightarrow> cl_deadline c | None \<Rightarrow> False)"

abbreviation has_deadline :: "connection \<Rightarrow> guid \<Rightarrow> bool" where
  "has_deadline s \<equiv> deadline_in (cn_calls s)"

definition release :: "connection \<Rightarrow> connection" where
  "release s = s\<lparr>cn_available := cn_available s + 1\<rparr>"

text \<open>Removing an entry drops the sender it holds.\<close>

definition remove_waiter :: "guid \<Rightarrow> connection \<Rightarrow> connection" where
  "remove_waiter rid s =
     (if rid \<in> cn_by_request s
      then s\<lparr>cn_by_request := cn_by_request s - {rid}, cn_slots := (cn_slots s)(rid \<mapsto> Slot_dropped)\<rparr>
      else s)"

fun guard_remove :: "drop_mode \<Rightarrow> guid \<Rightarrow> connection \<Rightarrow> connection" where
  "guard_remove Spawned rid s = s\<lparr>cn_removals := cn_removals s @ [rid]\<rparr>"
| "guard_remove Lock_free rid s = remove_waiter rid s"
| "guard_remove Lock_contended rid s = s\<lparr>cn_skipped := insert rid (cn_skipped s)\<rparr>"

text \<open>
  The second half of the guard's drop: a request that was queued is cancelled, and its permit goes
  with the cancellation; otherwise, or when the writer is gone, the permit is given back.
\<close>

definition guard_cancel :: "guid \<Rightarrow> bool \<Rightarrow> connection \<Rightarrow> connection" where
  "guard_cancel rid sent s =
     (if \<not> sent then release s
      else if cn_writer s = Writer_done then release s
      else if length (cn_cancels s) < CANCEL_QUEUE then s\<lparr>cn_cancels := cn_cancels s @ [rid]\<rparr>
      else (release s)\<lparr>cn_overflow := True\<rparr>)"

definition guard_drop :: "drop_mode \<Rightarrow> guid \<Rightarrow> bool \<Rightarrow> connection \<Rightarrow> connection" where
  "guard_drop mode rid sent s = guard_cancel rid sent (guard_remove mode rid s)"

definition start_call :: "guid \<Rightarrow> bool \<Rightarrow> connection \<Rightarrow> connection option" where
  "start_call rid deadline s =
     (if cn_calls s rid = None
      then Some (s\<lparr>cn_calls := (cn_calls s)(rid \<mapsto> \<lparr>cl_deadline = deadline, cl_phase = Acquiring\<rparr>)\<rparr>)
      else None)"

definition acquire :: "guid \<Rightarrow> connection \<Rightarrow> connection option" where
  "acquire rid s =
     (if phase_of s rid \<noteq> Some Acquiring then None
      else if cn_semaphore_closed s then Some (set_phase rid (Finished Connection_closed) s)
      else if cn_available s > 0 then Some (set_phase rid Admitted (s\<lparr>cn_available := cn_available s - 1\<rparr>))
      else None)"

definition register_call :: "guid \<Rightarrow> connection \<Rightarrow> connection option" where
  "register_call rid s =
     (if phase_of s rid \<noteq> Some Admitted then None
      else if cn_waiters_closed s then Some (set_phase rid (Finished Connection_closed) (release s))
      else Some (set_phase rid Queueing
        (s\<lparr>cn_by_request := insert rid (cn_by_request s), cn_slots := (cn_slots s)(rid \<mapsto> Slot_empty)\<rparr>)))"

definition enqueue :: "drop_mode \<Rightarrow> guid \<Rightarrow> connection \<Rightarrow> connection option" where
  "enqueue mode rid s =
     (if phase_of s rid \<noteq> Some Queueing then None
      else if cn_writer s = Writer_done then
        Some (set_phase rid (Finished Connection_closed) (guard_drop mode rid False s))
      else if length (cn_outbound s) < OUTBOUND_QUEUE then
        Some (set_phase rid Waiting (s\<lparr>cn_outbound := cn_outbound s @ [rid]\<rparr>))
      else None)"

text \<open>The \<open>oneshot\<close> has an answer, or lost its sender: the guard stands down and its permit is freed.\<close>

definition receive_response :: "guid \<Rightarrow> connection \<Rightarrow> connection option" where
  "receive_response rid s =
     (if phase_of s rid \<noteq> Some Waiting then None
      else (case cn_slots s rid of
              Some (Slot_value r) \<Rightarrow>
                Some (set_phase rid
                  (Finished (case response_error r of Some e \<Rightarrow> Failed_response e | None \<Rightarrow> Answered r)) (release s))
            | Some Slot_dropped \<Rightarrow> Some (set_phase rid (Finished Connection_closed) (release s))
            | _ \<Rightarrow> None))"

text \<open>
  A deadline that passes ends the call where it waits; the lock of the waiters is not under the
  deadline. A caller may drop the future anywhere.
\<close>

definition expire :: "drop_mode \<Rightarrow> guid \<Rightarrow> connection \<Rightarrow> connection option" where
  "expire mode rid s =
     (if \<not> has_deadline s rid then None
      else (case phase_of s rid of
              Some Acquiring \<Rightarrow> Some (set_phase rid (Finished (Timed_out False)) s)
            | Some Queueing \<Rightarrow> Some (set_phase rid (Finished (Timed_out False)) (guard_drop mode rid False s))
            | Some Waiting \<Rightarrow> Some (set_phase rid (Finished (Timed_out True)) (guard_drop mode rid True s))
            | _ \<Rightarrow> None))"

definition abandon :: "drop_mode \<Rightarrow> guid \<Rightarrow> connection \<Rightarrow> connection option" where
  "abandon mode rid s =
     (case phase_of s rid of
        Some Acquiring \<Rightarrow> Some (set_phase rid (Finished (Abandoned False)) s)
      | Some Admitted \<Rightarrow> Some (set_phase rid (Finished (Abandoned False)) (release s))
      | Some Queueing \<Rightarrow> Some (set_phase rid (Finished (Abandoned False)) (guard_drop mode rid False s))
      | Some Waiting \<Rightarrow> Some (set_phase rid (Finished (Abandoned True)) (guard_drop mode rid True s))
      | _ \<Rightarrow> None)"

definition run_removal :: "guid \<Rightarrow> connection \<Rightarrow> connection option" where
  "run_removal rid s =
     (if rid \<in> set (cn_removals s)
      then Some (remove_waiter rid (s\<lparr>cn_removals := remove1 rid (cn_removals s)\<rparr>)) else None)"

section \<open>The tasks\<close>

text \<open>\<open>Waiters::close\<close> drops every sender.\<close>

definition close_waiters :: "connection \<Rightarrow> connection" where
  "close_waiters s =
     s\<lparr>cn_waiters_closed := True,
       cn_slots := (\<lambda>rid. if rid \<in> cn_by_request s then Some Slot_dropped else cn_slots s rid),
       cn_by_request := {}\<rparr>"

definition close_step :: "nat \<Rightarrow> connection \<Rightarrow> connection" where
  "close_step k s =
     (if k = 0 then s\<lparr>cn_closed := True\<rparr>
      else if k = 1 then s\<lparr>cn_semaphore_closed := True\<rparr>
      else close_waiters s)"

text \<open>The \<open>biased\<close> select: a cancellation first, then a request.\<close>

definition writer_take :: "connection \<Rightarrow> connection option" where
  "writer_take s =
     (if cn_writer s \<noteq> Writer_idle then None
      else (case cn_cancels s of
              rid # rest \<Rightarrow> Some (s\<lparr>cn_cancels := rest, cn_writer := Writer_sending (Cancellation rid)\<rparr>)
            | [] \<Rightarrow>
                (case cn_outbound s of
                   rid # rest \<Rightarrow> Some (s\<lparr>cn_outbound := rest, cn_writer := Writer_sending (Request rid)\<rparr>)
                 | [] \<Rightarrow> None)))"

text \<open>A cancellation's permit is freed when the writer is done with it, sent or not.\<close>

definition free_outgoing :: "outgoing \<Rightarrow> connection \<Rightarrow> connection" where
  "free_outgoing o' s = (case o' of Cancellation _ \<Rightarrow> release s | Request _ \<Rightarrow> s)"

definition writer_sent :: "connection \<Rightarrow> connection option" where
  "writer_sent s =
     (case cn_writer s of
        Writer_sending o' \<Rightarrow>
          Some (free_outgoing o' (s\<lparr>cn_wire := cn_wire s @ [o'], cn_writer := Writer_idle\<rparr>))
      | _ \<Rightarrow> None)"

definition writer_failed :: "connection \<Rightarrow> connection option" where
  "writer_failed s =
     (case cn_writer s of
        Writer_sending o' \<Rightarrow> Some (free_outgoing o' (s\<lparr>cn_writer := Writer_stopping 0\<rparr>))
      | _ \<Rightarrow> None)"

text \<open>After the shutdown the task ends and drops both receivers, with what is queued in them.\<close>

definition writer_close :: "connection \<Rightarrow> connection option" where
  "writer_close s =
     (case cn_writer s of
        Writer_stopping k \<Rightarrow>
          (if k < 3 then Some ((close_step k s)\<lparr>cn_writer := Writer_stopping (k + 1)\<rparr>)
           else Some (s\<lparr>cn_writer := Writer_done, cn_outbound := [], cn_cancels := [],
                       cn_available := cn_available s + length (cn_cancels s)\<rparr>))
      | _ \<Rightarrow> None)"

text \<open>What the reader makes of a packet: the response it routes, if it is one.\<close>

definition routed :: "proto_codec \<Rightarrow> packet \<Rightarrow> (guid \<times> response_message) option" where
  "routed pc p =
     (if packet_type p \<noteq> Message then None
      else (case decode_response pc (parts p) of
              Inl _ \<Rightarrow> None
            | Inr r \<Rightarrow> map_option (\<lambda>rid. (rid, r)) (response_request_id r)))"

definition reader_packet :: "proto_codec \<Rightarrow> packet \<Rightarrow> connection \<Rightarrow> connection option" where
  "reader_packet pc p s =
     (if cn_reader s \<noteq> Reader_reading then None
      else (case routed pc p of
              None \<Rightarrow> Some s
            | Some (rid, r) \<Rightarrow>
                Some (let s' = s\<lparr>cn_received := cn_received s @ [r]\<rparr>
                      in if rid \<in> cn_by_request s
                         then s'\<lparr>cn_by_request := cn_by_request s - {rid}, cn_slots := (cn_slots s)(rid \<mapsto> Slot_value r)\<rparr>
                         else s')))"

definition reader_failed :: "connection \<Rightarrow> connection option" where
  "reader_failed s = (if cn_reader s = Reader_reading then Some (s\<lparr>cn_reader := Reader_stopping 0\<rparr>) else None)"

definition reader_close :: "connection \<Rightarrow> connection option" where
  "reader_close s =
     (case cn_reader s of
        Reader_stopping k \<Rightarrow>
          Some ((close_step k s)\<lparr>cn_reader := (if k < 2 then Reader_stopping (k + 1) else Reader_done)\<rparr>)
      | _ \<Rightarrow> None)"

section \<open>Interleavings\<close>

datatype action =
    Start guid bool
  | Acquire guid
  | Register guid
  | Enqueue drop_mode guid
  | Receive guid
  | Expire drop_mode guid
  | Abandon drop_mode guid
  | Removal guid
  | Take
  | Sent
  | Send_failed
  | Writer_closes
  | Arrives packet
  | Receive_failed
  | Reader_closes

fun conn_step :: "proto_codec \<Rightarrow> action \<Rightarrow> connection \<Rightarrow> connection option" where
  "conn_step pc (Start rid deadline) s = start_call rid deadline s"
| "conn_step pc (Acquire rid) s = acquire rid s"
| "conn_step pc (Register rid) s = register_call rid s"
| "conn_step pc (Enqueue mode rid) s = enqueue mode rid s"
| "conn_step pc (Receive rid) s = receive_response rid s"
| "conn_step pc (Expire mode rid) s = expire mode rid s"
| "conn_step pc (Abandon mode rid) s = abandon mode rid s"
| "conn_step pc (Removal rid) s = run_removal rid s"
| "conn_step pc Take s = writer_take s"
| "conn_step pc Sent s = writer_sent s"
| "conn_step pc Send_failed s = writer_failed s"
| "conn_step pc Writer_closes s = writer_close s"
| "conn_step pc (Arrives p) s = reader_packet pc p s"
| "conn_step pc Receive_failed s = reader_failed s"
| "conn_step pc Reader_closes s = reader_close s"

definition actions_of_call :: "guid \<Rightarrow> action set" where
  "actions_of_call rid = {Acquire rid, Register rid, Enqueue Spawned rid, Receive rid}"

inductive conn_reach :: "proto_codec \<Rightarrow> connection \<Rightarrow> bool" for pc where
  initially: "conn_reach pc from_bus"
| steps: "conn_reach pc s \<Longrightarrow> conn_step pc a s = Some s' \<Longrightarrow> conn_reach pc s'"

inductive_cases conn_reach_cases: "conn_reach pc s"

end
