(* ===== verification/Transition.thy ===== *)
theory Transition
  imports Prelude
begin

text \<open>
  State machines given by a step function on labelled actions, and the contract by which an
  invariant of their reachable states is proved: it holds at the start and every step keeps it.
\<close>

fun run_steps :: "('a \<Rightarrow> 's \<Rightarrow> 's option) \<Rightarrow> 'a list \<Rightarrow> 's \<Rightarrow> 's option" where
  "run_steps step [] s = Some s"
| "run_steps step (a # as) s = (case step a s of None \<Rightarrow> None | Some s' \<Rightarrow> run_steps step as s')"

lemma run_steps_append:
  "run_steps step (as @ bs) s = (case run_steps step as s of None \<Rightarrow> None | Some s' \<Rightarrow> run_steps step bs s')"
  by (induction as arbitrary: s) (auto split: option.splits)

locale state_machine =
  fixes start :: 's
    and step :: "'a \<Rightarrow> 's \<Rightarrow> 's option"
    and reach :: "'s \<Rightarrow> bool"
  assumes reach_cases: "reach s \<Longrightarrow> s = start \<or> (\<exists>s0 a. reach s0 \<and> step a s0 = Some s)"
    and reach_induct: "reach s \<Longrightarrow> P start \<Longrightarrow>
      (\<And>s a s'. reach s \<Longrightarrow> P s \<Longrightarrow> step a s = Some s' \<Longrightarrow> P s') \<Longrightarrow> P s"
    and reach_start: "reach start"
    and reach_step: "reach s \<Longrightarrow> step a s = Some s' \<Longrightarrow> reach s'"
begin

lemma reach_run: "reach s \<Longrightarrow> run_steps step as s = Some s' \<Longrightarrow> reach s'"
  by (induction as arbitrary: s) (auto split: option.splits intro: reach_step)

lemma reach_by_run: "reach s \<longleftrightarrow> (\<exists>as. run_steps step as start = Some s)"
proof
  assume "reach s"
  then show "\<exists>as. run_steps step as start = Some s"
  proof (rule reach_induct)
    show "\<exists>as. run_steps step as start = Some start" by (rule exI [of _ "[]"]) simp
  next
    fix s a s'
    assume "\<exists>as. run_steps step as start = Some s" and a: "step a s = Some s'"
    then obtain as where "run_steps step as start = Some s" by blast
    with a have "run_steps step (as @ [a]) start = Some s'" by (simp add: run_steps_append)
    then show "\<exists>as. run_steps step as start = Some s'" by blast
  qed
qed (use reach_run [OF reach_start] in blast)

lemma invariant:
  assumes "reach s" "I start" "\<And>s a s'. reach s \<Longrightarrow> I s \<Longrightarrow> step a s = Some s' \<Longrightarrow> I s'"
  shows "I s"
  using assms(1) by (rule reach_induct) (use assms(2,3) in blast)+

end

end
