(* ===== verification/Rpc_Actor.thy ===== *)
theory Rpc_Actor
  imports Rpc_Connection Transition
begin

text \<open>
  What holds of the connection actor in every state its tasks and callers can reach, whatever the
  interleaving: permits are conserved, no waiter is lost or left behind, responses reach the call
  they answer, and requests and cancellations are written at most once.
\<close>

interpretation actor: state_machine from_bus "conn_step pc" "conn_reach pc" for pc
proof unfold_locales
  fix s
  assume "conn_reach pc s"
  then show "s = from_bus \<or> (\<exists>s0 a. conn_reach pc s0 \<and> conn_step pc a s0 = Some s)"
    by (rule conn_reach_cases) blast+
next
  fix s P
  assume "conn_reach pc s" "P from_bus"
    "\<And>s a s'. conn_reach pc s \<Longrightarrow> P s \<Longrightarrow> conn_step pc a s = Some s' \<Longrightarrow> P s'"
  then show "P s" by (induction rule: conn_reach.induct) blast+
qed (auto intro: conn_reach.intros)

lemmas conn_defs = start_call_def acquire_def register_call_def enqueue_def receive_response_def expire_def
  abandon_def run_removal_def writer_take_def writer_sent_def writer_failed_def writer_close_def
  reader_packet_def reader_failed_def reader_close_def guard_drop_def guard_cancel_def release_def
  close_step_def close_waiters_def free_outgoing_def remove_waiter_def

lemma phase_in_update [simp]:
  "phase_in (calls(rid \<mapsto> c)) rid' = (if rid' = rid then Some (cl_phase c) else phase_in calls rid')"
  "phase_in (with_phase rid p calls) rid' =
     (if rid' = rid \<and> calls rid \<noteq> None then Some p else phase_in calls rid')"
  by (auto simp: phase_in_def with_phase_def split: option.splits)

lemma phase_in_None: "phase_in calls rid = None \<longleftrightarrow> calls rid = None"
  by (simp add: phase_in_def)

lemma phase_in_SomeD: "phase_in calls rid = Some p \<Longrightarrow> \<exists>c. calls rid = Some c"
  by (auto simp: phase_in_def)

section \<open>Permits\<close>

fun holds_permit :: "call_phase \<Rightarrow> bool" where
  "holds_permit Admitted = True"
| "holds_permit Queueing = True"
| "holds_permit Waiting = True"
| "holds_permit _ = False"

definition holders :: "(guid \<rightharpoonup> call) \<Rightarrow> guid set" where
  "holders calls = {rid. \<exists>p. phase_in calls rid = Some p \<and> holds_permit p}"

definition cancelling :: "writer_phase \<Rightarrow> nat" where
  "cancelling w = (case w of Writer_sending (Cancellation rid) \<Rightarrow> 1 | _ \<Rightarrow> 0)"

lemma cancelling_simps [simp]:
  "cancelling Writer_idle = 0" "cancelling (Writer_sending (Cancellation rid)) = 1"
  "cancelling (Writer_sending (Request rid)) = 0" "cancelling (Writer_stopping k) = 0" "cancelling Writer_done = 0"
  by (simp_all add: cancelling_def)

definition permits_ok :: "connection \<Rightarrow> bool" where
  "permits_ok s \<longleftrightarrow> finite (holders (cn_calls s)) \<and>
     cn_available s + card (holders (cn_calls s)) + length (cn_cancels s) + cancelling (cn_writer s) = MAX_IN_FLIGHT \<and>
     \<not> cn_overflow s"

lemma holders_start:
  "calls rid = None \<Longrightarrow> \<not> holds_permit (cl_phase c) \<Longrightarrow> holders (calls(rid \<mapsto> c)) = holders calls"
  by (auto simp: holders_def phase_in_None [symmetric])

lemma holders_phase:
  assumes "finite (holders calls)" "phase_in calls rid = Some q"
  shows "finite (holders (with_phase rid p calls))"
    "holds_permit q \<Longrightarrow> holds_permit p \<Longrightarrow> card (holders (with_phase rid p calls)) = card (holders calls)"
    "holds_permit q \<Longrightarrow> \<not> holds_permit p \<Longrightarrow> card (holders (with_phase rid p calls)) = card (holders calls) - 1"
    "holds_permit q \<Longrightarrow> 0 < card (holders calls)"
    "\<not> holds_permit q \<Longrightarrow> holds_permit p \<Longrightarrow> card (holders (with_phase rid p calls)) = Suc (card (holders calls))"
    "\<not> holds_permit q \<Longrightarrow> \<not> holds_permit p \<Longrightarrow> card (holders (with_phase rid p calls)) = card (holders calls)"
proof -
  have some: "calls rid \<noteq> None" using assms(2) by (auto simp: phase_in_def)
  have eq: "holders (with_phase rid p calls) = (if holds_permit p then insert rid (holders calls) else holders calls - {rid})"
    using some by (auto simp: holders_def)
  have mem: "rid \<in> holders calls \<longleftrightarrow> holds_permit q" using assms(2) by (simp add: holders_def)
  show "finite (holders (with_phase rid p calls))" using assms(1) by (simp add: eq)
  show "holds_permit q \<Longrightarrow> holds_permit p \<Longrightarrow> card (holders (with_phase rid p calls)) = card (holders calls)"
    using mem by (simp add: eq insert_absorb)
  show "holds_permit q \<Longrightarrow> \<not> holds_permit p \<Longrightarrow> card (holders (with_phase rid p calls)) = card (holders calls) - 1"
    using assms(1) mem by (simp add: eq)
  show "holds_permit q \<Longrightarrow> 0 < card (holders calls)"
    using assms(1) mem by (auto simp: card_gt_0_iff)
  show "\<not> holds_permit q \<Longrightarrow> holds_permit p \<Longrightarrow> card (holders (with_phase rid p calls)) = Suc (card (holders calls))"
    using assms(1) mem by (simp add: eq)
  show "\<not> holds_permit q \<Longrightarrow> \<not> holds_permit p \<Longrightarrow> card (holders (with_phase rid p calls)) = card (holders calls)"
    using mem by (simp add: eq)
qed

lemma guard_remove_simps [simp]:
  "cn_calls (guard_remove mode rid s) = cn_calls s" "cn_available (guard_remove mode rid s) = cn_available s"
  "cn_cancels (guard_remove mode rid s) = cn_cancels s" "cn_writer (guard_remove mode rid s) = cn_writer s"
  "cn_overflow (guard_remove mode rid s) = cn_overflow s" "cn_outbound (guard_remove mode rid s) = cn_outbound s"
  "cn_wire (guard_remove mode rid s) = cn_wire s" "cn_received (guard_remove mode rid s) = cn_received s"
  "cn_closed (guard_remove mode rid s) = cn_closed s" "cn_reader (guard_remove mode rid s) = cn_reader s"
  "cn_semaphore_closed (guard_remove mode rid s) = cn_semaphore_closed s"
  "cn_waiters_closed (guard_remove mode rid s) = cn_waiters_closed s"
  by (cases mode; simp add: remove_waiter_def)+

lemma permits_step:
  assumes inv: "permits_ok s" and st: "conn_step pc a s = Some s'"
  shows "permits_ok s'"
proof (cases a)
  case (Start rid deadline)
  then show ?thesis using assms by (auto simp: permits_ok_def start_call_def holders_start split: if_splits)
next
  case (Acquire rid)
  then show ?thesis using assms holders_phase [of "cn_calls s" rid Acquiring]
    by (auto simp: permits_ok_def acquire_def split: if_splits)
next
  case (Register rid)
  then show ?thesis using assms holders_phase [of "cn_calls s" rid Admitted]
    by (auto simp: permits_ok_def register_call_def release_def split: if_splits)
next
  case (Enqueue mode rid)
  then show ?thesis using assms holders_phase [of "cn_calls s" rid Queueing]
    by (auto simp: permits_ok_def enqueue_def guard_drop_def guard_cancel_def release_def split: if_splits)
next
  case (Receive rid)
  then show ?thesis using assms holders_phase [of "cn_calls s" rid Waiting]
    by (auto simp: permits_ok_def receive_response_def release_def split: if_splits option.splits slot.splits)
next
  case (Expire mode rid)
  then obtain q where q: "phase_of s rid = Some q"
    using st by (auto simp: expire_def split: if_splits option.splits)
  then show ?thesis using Expire assms holders_phase [OF _ q]
    by (auto simp: permits_ok_def expire_def guard_drop_def guard_cancel_def release_def CANCEL_QUEUE_def
        split: if_splits call_phase.splits)
next
  case (Abandon mode rid)
  then obtain q where q: "phase_of s rid = Some q"
    using st by (auto simp: abandon_def split: if_splits option.splits)
  then show ?thesis using Abandon assms holders_phase [OF _ q]
    by (auto simp: permits_ok_def abandon_def guard_drop_def guard_cancel_def release_def CANCEL_QUEUE_def
        split: if_splits call_phase.splits)
next
  case (Removal rid)
  then show ?thesis using assms by (auto simp: permits_ok_def run_removal_def remove_waiter_def split: if_splits)
next
  case Take
  then show ?thesis using assms by (auto simp: permits_ok_def writer_take_def split: if_splits list.splits)
next
  case Sent
  then show ?thesis using assms
    by (auto simp: permits_ok_def writer_sent_def free_outgoing_def release_def split: writer_phase.splits outgoing.splits)
next
  case Send_failed
  then show ?thesis using assms
    by (auto simp: permits_ok_def writer_failed_def free_outgoing_def release_def split: writer_phase.splits outgoing.splits)
next
  case Writer_closes
  then show ?thesis using assms
    by (auto simp: permits_ok_def writer_close_def close_step_def close_waiters_def split: writer_phase.splits if_splits)
next
  case (Arrives p)
  then show ?thesis using assms
    by (auto simp: permits_ok_def reader_packet_def Let_def split: if_splits option.splits)
next
  case Receive_failed
  then show ?thesis using assms by (auto simp: permits_ok_def reader_failed_def split: if_splits)
next
  case Reader_closes
  then show ?thesis using assms
    by (auto simp: permits_ok_def reader_close_def close_step_def close_waiters_def split: reader_phase.splits if_splits)
qed

lemma permits_start: "permits_ok from_bus"
  by (simp add: permits_ok_def from_bus_def holders_def phase_in_def)

lemma permits_invariant: "conn_reach pc s \<Longrightarrow> permits_ok s"
  by (erule actor.invariant [where I = permits_ok, OF _ permits_start]) (rule permits_step)

section \<open>Closing\<close>

text \<open>How far a stopping task has come is seen in the shared flags, and they are set in order.\<close>

definition stage :: "connection \<Rightarrow> nat \<Rightarrow> bool" where
  "stage s k \<longleftrightarrow> (1 \<le> k \<longrightarrow> cn_closed s) \<and> (2 \<le> k \<longrightarrow> cn_semaphore_closed s) \<and> (3 \<le> k \<longrightarrow> cn_waiters_closed s)"

definition closing_ok :: "connection \<Rightarrow> bool" where
  "closing_ok s \<longleftrightarrow>
     (cn_waiters_closed s \<longrightarrow> cn_semaphore_closed s) \<and> (cn_semaphore_closed s \<longrightarrow> cn_closed s) \<and>
     (\<forall>k. cn_writer s = Writer_stopping k \<longrightarrow> stage s k) \<and> (cn_writer s = Writer_done \<longrightarrow> stage s 3) \<and>
     (\<forall>k. cn_reader s = Reader_stopping k \<longrightarrow> stage s k) \<and> (cn_reader s = Reader_done \<longrightarrow> stage s 3)"

lemma guard_drop_simps [simp]:
  "cn_calls (guard_drop mode rid sent s) = cn_calls s" "cn_writer (guard_drop mode rid sent s) = cn_writer s"
  "cn_outbound (guard_drop mode rid sent s) = cn_outbound s" "cn_wire (guard_drop mode rid sent s) = cn_wire s"
  "cn_received (guard_drop mode rid sent s) = cn_received s" "cn_closed (guard_drop mode rid sent s) = cn_closed s"
  "cn_reader (guard_drop mode rid sent s) = cn_reader s"
  "cn_semaphore_closed (guard_drop mode rid sent s) = cn_semaphore_closed s"
  "cn_waiters_closed (guard_drop mode rid sent s) = cn_waiters_closed s"
  "cn_by_request (guard_drop mode rid sent s) = cn_by_request (guard_remove mode rid s)"
  "cn_slots (guard_drop mode rid sent s) = cn_slots (guard_remove mode rid s)"
  "cn_removals (guard_drop mode rid sent s) = cn_removals (guard_remove mode rid s)"
  "cn_skipped (guard_drop mode rid sent s) = cn_skipped (guard_remove mode rid s)"
  by (simp_all add: guard_drop_def guard_cancel_def release_def)

text \<open>Most steps leave the flags and the stopping tasks alone.\<close>

definition same_flags :: "connection \<Rightarrow> connection \<Rightarrow> bool" where
  "same_flags s s' \<longleftrightarrow> cn_closed s' = cn_closed s \<and> cn_semaphore_closed s' = cn_semaphore_closed s \<and>
     cn_waiters_closed s' = cn_waiters_closed s \<and>
     (cn_writer s' = cn_writer s \<or> cn_writer s' = Writer_idle \<or> (\<exists>o'. cn_writer s' = Writer_sending o') \<or>
      cn_writer s' = Writer_stopping 0) \<and>
     (cn_reader s' = cn_reader s \<or> cn_reader s' = Reader_stopping 0)"

lemma closing_same: "closing_ok s \<Longrightarrow> same_flags s s' \<Longrightarrow> closing_ok s'"
  unfolding closing_ok_def same_flags_def stage_def by (elim conjE disjE exE; simp)

lemma same_flags_step:
  assumes "conn_step pc a s = Some s'" "a \<noteq> Writer_closes" "a \<noteq> Reader_closes"
  shows "same_flags s s'"
proof -
  have rel: "same_flags s (release s1) = same_flags s s1" for s1 by (simp add: same_flags_def release_def)
  have gd: "same_flags s (set_phase rid p (guard_drop mode rid' sent s))" for rid p mode rid' sent
    by (simp add: same_flags_def)
  have ph: "same_flags s (set_phase rid p s1) = same_flags s s1" for rid p s1 by (simp add: same_flags_def)
  show ?thesis
  proof (cases a)
    case (Expire mode rid)
    then show ?thesis using assms gd ph
      by (auto simp: expire_def same_flags_def [of s s] split: if_splits option.splits call_phase.splits)
  next
    case (Abandon mode rid)
    then show ?thesis using assms gd ph rel
      by (auto simp: abandon_def same_flags_def [of s s] split: option.splits call_phase.splits)
  next
    case (Enqueue mode rid)
    then show ?thesis using assms gd by (auto simp: enqueue_def same_flags_def split: if_splits)
  next
    case (Arrives p)
    then show ?thesis using assms by (auto simp: reader_packet_def Let_def same_flags_def split: if_splits option.splits)
  next
    case (Removal rid)
    then show ?thesis using assms by (auto simp: run_removal_def remove_waiter_def same_flags_def split: if_splits)
  next
    case Sent
    then show ?thesis using assms
      by (auto simp: writer_sent_def free_outgoing_def release_def same_flags_def split: writer_phase.splits outgoing.splits)
  next
    case Send_failed
    then show ?thesis using assms
      by (auto simp: writer_failed_def free_outgoing_def release_def same_flags_def split: writer_phase.splits outgoing.splits)
  next
    case (Receive rid)
    then show ?thesis using assms
      by (auto simp: receive_response_def release_def same_flags_def split: if_splits option.splits slot.splits)
  qed (use assms in \<open>auto simp: start_call_def acquire_def register_call_def release_def writer_take_def reader_failed_def
      same_flags_def split: if_splits list.splits\<close>)
qed

lemma closing_step:
  assumes inv: "closing_ok s" and st: "conn_step pc a s = Some s'"
  shows "closing_ok s'"
proof -
  consider "a = Writer_closes" | "a = Reader_closes" | "a \<noteq> Writer_closes" "a \<noteq> Reader_closes" by blast
  then show ?thesis
  proof cases
    case 1
    then show ?thesis using assms
      by (auto simp: closing_ok_def stage_def writer_close_def close_step_def close_waiters_def split: writer_phase.splits if_splits)
  next
    case 2
    then show ?thesis using assms
      by (auto simp: closing_ok_def stage_def reader_close_def close_step_def close_waiters_def split: reader_phase.splits if_splits)
  next
    case 3
    then show ?thesis using closing_same [OF inv same_flags_step [OF st]] by simp
  qed
qed

lemma closing_invariant: "conn_reach pc s \<Longrightarrow> closing_ok s"
  by (erule actor.invariant [where I = closing_ok])
    (simp add: closing_ok_def from_bus_def, rule closing_step)

section \<open>Waiters\<close>

text \<open>A call whose guard is armed: it is registered, or was until its answer came.\<close>

fun armed :: "call_phase \<Rightarrow> bool" where
  "armed Queueing = True"
| "armed Waiting = True"
| "armed _ = False"

definition waiters_ok :: "connection \<Rightarrow> bool" where
  "waiters_ok s \<longleftrightarrow>
     cn_by_request s = {rid. cn_slots s rid = Some Slot_empty} \<and>
     (cn_waiters_closed s \<longrightarrow> cn_by_request s = {}) \<and>
     (\<forall>rid p. phase_of s rid = Some p \<longrightarrow> armed p \<longrightarrow>
        cn_slots s rid \<noteq> None \<and> (cn_slots s rid = Some Slot_dropped \<longrightarrow> cn_waiters_closed s)) \<and>
     (\<forall>rid \<in> cn_by_request s. \<exists>p. phase_of s rid = Some p \<and>
        (armed p \<or> (\<exists>r. p = Finished r) \<and> (rid \<in> set (cn_removals s) \<or> rid \<in> cn_skipped s))) \<and>
     (\<forall>rid \<in> set (cn_removals s). \<exists>r. phase_of s rid = Some (Finished r))"

lemma waiters_finish:
  assumes inv: "waiters_ok s" and q: "phase_of s rid = Some q" "armed q" and r: "p = Finished r"
    and s': "s' = set_phase rid p s1" "cn_calls s1 = cn_calls s" "cn_waiters_closed s1 = cn_waiters_closed s"
      "cn_by_request s1 = cn_by_request (guard_remove mode rid s)" "cn_slots s1 = cn_slots (guard_remove mode rid s)"
      "cn_removals s1 = cn_removals (guard_remove mode rid s)" "cn_skipped s1 = cn_skipped (guard_remove mode rid s)"
  shows "waiters_ok s'"
  using assms phase_in_SomeD [OF q(1)]
  by (cases mode) (auto simp: waiters_ok_def remove_waiter_def split: if_splits)

text \<open>A change of phase that neither arms nor disarms the guard.\<close>

lemma waiters_rephase:
  assumes inv: "waiters_ok s" and q: "phase_of s rid = Some q" "armed p = armed q" "\<nexists>r. q = Finished r"
    and s': "s' = set_phase rid p s1" "cn_calls s1 = cn_calls s" "cn_waiters_closed s1 = cn_waiters_closed s"
      "cn_by_request s1 = cn_by_request s" "cn_slots s1 = cn_slots s" "cn_removals s1 = cn_removals s"
      "cn_skipped s1 = cn_skipped s"
  shows "waiters_ok s'"
proof -
  have some: "cn_calls s rid \<noteq> None" using phase_in_SomeD [OF q(1)] by simp
  have nr: "rid \<notin> set (cn_removals s)" using inv q(1,3) by (fastforce simp: waiters_ok_def)
  have ph: "phase_of s' r = (if r = rid then Some p else phase_of s r)" for r using some s'(1,2) by simp
  have br: "\<exists>p'. phase_of s' r = Some p' \<and> (armed p' \<or> (\<exists>x. p' = Finished x) \<and> (r \<in> set (cn_removals s) \<or> r \<in> cn_skipped s))"
    if "r \<in> cn_by_request s" for r
    using inv that q ph [of r] unfolding waiters_ok_def by (metis option.inject)
  have ar: "cn_slots s r \<noteq> None \<and> (cn_slots s r = Some Slot_dropped \<longrightarrow> cn_waiters_closed s)"
    if "phase_of s' r = Some p'" "armed p'" for r p'
    using inv that q ph [of r] unfolding waiters_ok_def by (metis option.inject)
  have rm: "\<exists>x. phase_of s' r = Some (Finished x)" if "r \<in> set (cn_removals s)" for r
    using inv that nr ph [of r] unfolding waiters_ok_def by auto
  have same: "cn_waiters_closed s' = cn_waiters_closed s" "cn_by_request s' = cn_by_request s"
      "cn_slots s' = cn_slots s" "cn_removals s' = cn_removals s" "cn_skipped s' = cn_skipped s"
    using s' by simp_all
  have "cn_by_request s = {rid. cn_slots s rid = Some Slot_empty}" "cn_waiters_closed s \<longrightarrow> cn_by_request s = {}"
    using inv unfolding waiters_ok_def by blast+
  then show ?thesis unfolding waiters_ok_def same using br ar rm by blast
qed

lemma waiters_step:
  assumes inv: "waiters_ok s" and st: "conn_step pc a s = Some s'"
  shows "waiters_ok s'"
proof (cases a)
  case (Start rid deadline)
  then show ?thesis using assms
    by (fastforce simp: waiters_ok_def start_call_def phase_in_None [symmetric] split: if_splits)
next
  case (Acquire rid)
  with st have q: "phase_of s rid = Some Acquiring" by (auto simp: acquire_def split: if_splits)
  consider "s' = set_phase rid (Finished Connection_closed) s"
    | "s' = set_phase rid Admitted (s\<lparr>cn_available := cn_available s - 1\<rparr>)"
    using Acquire st by (auto simp: acquire_def split: if_splits)
  then show ?thesis
  proof cases
    case 1
    show ?thesis by (rule waiters_rephase [OF inv q _ _ 1]) simp_all
  next
    case 2
    show ?thesis by (rule waiters_rephase [OF inv q _ _ 2]) simp_all
  qed
next
  case (Register rid)
  then show ?thesis using assms phase_in_SomeD [of "cn_calls s" rid Admitted]
    by (fastforce simp: waiters_ok_def register_call_def release_def split: if_splits)
next
  case (Enqueue mode rid)
  show ?thesis
  proof (cases "cn_writer s = Writer_done")
    case True
    with Enqueue st have q: "phase_of s rid = Some Queueing"
      and s': "s' = set_phase rid (Finished Connection_closed) (guard_drop mode rid False s)"
      by (auto simp: enqueue_def split: if_splits)
    show ?thesis by (rule waiters_finish [OF inv q _ refl s']) simp_all
  next
    case False
    with Enqueue st have q: "phase_of s rid = Some Queueing"
      and s': "s' = set_phase rid Waiting (s\<lparr>cn_outbound := cn_outbound s @ [rid]\<rparr>)"
      by (auto simp: enqueue_def split: if_splits)
    show ?thesis by (rule waiters_rephase [OF inv q _ _ s']) simp_all
  qed
next
  case (Receive rid)
  then show ?thesis using assms
    by (fastforce simp: waiters_ok_def receive_response_def release_def split: if_splits option.splits slot.splits)
next
  case (Expire mode rid)
  then obtain q where q: "phase_of s rid = Some q"
    using st by (auto simp: expire_def split: if_splits option.splits)
  show ?thesis
  proof (cases "armed q")
    case True
    with Expire st q obtain r sent where s': "s' = set_phase rid (Finished r) (guard_drop mode rid sent s)"
      by (cases q) (auto simp: expire_def split: if_splits)
    show ?thesis by (rule waiters_finish [OF inv q True refl s']) simp_all
  next
    case False
    with Expire st q obtain r s1 where s': "s' = set_phase rid (Finished r) s1" "s1 = s \<or> s1 = release s"
        and nf: "\<nexists>r. q = Finished r"
      by (cases q) (auto simp: expire_def split: if_splits)
    show ?thesis
      using s'(2) by (intro waiters_rephase [OF inv q _ nf s'(1)]) (use False in \<open>auto simp: release_def\<close>)
  qed
next
  case (Abandon mode rid)
  then obtain q where q: "phase_of s rid = Some q"
    using st by (auto simp: abandon_def split: if_splits option.splits)
  show ?thesis
  proof (cases "armed q")
    case True
    with Abandon st q obtain r sent where s': "s' = set_phase rid (Finished r) (guard_drop mode rid sent s)"
      by (cases q) (auto simp: abandon_def split: if_splits)
    show ?thesis by (rule waiters_finish [OF inv q True refl s']) simp_all
  next
    case False
    with Abandon st q obtain r s1 where s': "s' = set_phase rid (Finished r) s1" "s1 = s \<or> s1 = release s"
        and nf: "\<nexists>r. q = Finished r"
      by (cases q) (auto simp: abandon_def split: if_splits)
    show ?thesis
      using s'(2) by (intro waiters_rephase [OF inv q _ nf s'(1)]) (use False in \<open>auto simp: release_def\<close>)
  qed
next
  case (Removal rid)
  with st have m: "rid \<in> set (cn_removals s)"
    and s': "s' = remove_waiter rid (s\<lparr>cn_removals := remove1 rid (cn_removals s)\<rparr>)"
    by (auto simp: run_removal_def split: if_splits)
  obtain r where r: "phase_of s rid = Some (Finished r)" using inv m by (auto simp: waiters_ok_def)
  have keep: "r' \<in> set (remove1 rid (cn_removals s)) \<longleftrightarrow> r' \<in> set (cn_removals s)" if "r' \<noteq> rid" for r'
    using that by simp
  have sub: "set (remove1 rid (cn_removals s)) \<subseteq> set (cn_removals s)" by (rule set_remove1_subset)
  show ?thesis using inv r keep sub unfolding waiters_ok_def s' remove_waiter_def
    by (auto split: if_splits) (metis in_set_remove1)
next
  case Writer_closes
  then show ?thesis using assms
    by (auto simp: waiters_ok_def writer_close_def close_step_def close_waiters_def split: writer_phase.splits if_splits)
next
  case (Arrives p)
  then show ?thesis using assms
    by (auto simp: waiters_ok_def reader_packet_def Let_def split: if_splits option.splits)
next
  case Reader_closes
  then show ?thesis using assms
    by (auto simp: waiters_ok_def reader_close_def close_step_def close_waiters_def split: reader_phase.splits if_splits)
qed (use assms in \<open>auto simp: waiters_ok_def writer_take_def writer_sent_def writer_failed_def free_outgoing_def
    release_def reader_failed_def split: if_splits list.splits writer_phase.splits outgoing.splits\<close>)

lemma waiters_invariant: "conn_reach pc s \<Longrightarrow> waiters_ok s"
  by (erule actor.invariant [where I = waiters_ok])
    (simp add: waiters_ok_def from_bus_def phase_in_def, rule waiters_step)

end
