(* ===== verification/Rpc_Delivery.thy ===== *)
theory Rpc_Delivery
  imports Rpc_Actor
begin

text \<open>
  What reaches whom: responses go to the call they answer and to nobody else, every packet is
  queued and written at most once, and a call that is given up after its request was queued is
  cancelled, as long as the writer lives.
\<close>

section \<open>Responses\<close>

fun justified :: "connection \<Rightarrow> guid \<Rightarrow> call_result \<Rightarrow> bool" where
  "justified s rid (Answered r) \<longleftrightarrow> response_request_id r = Some rid \<and> r \<in> set (cn_received s) \<and> response_error r = None"
| "justified s rid (Failed_response e) \<longleftrightarrow>
     (\<exists>r \<in> set (cn_received s). response_request_id r = Some rid \<and> response_error r = Some e)"
| "justified s rid Connection_closed \<longleftrightarrow> cn_closed s"
| "justified s rid (Timed_out sent) \<longleftrightarrow> has_deadline s rid"
| "justified s rid (Abandoned sent) \<longleftrightarrow> True"

definition routing_ok :: "connection \<Rightarrow> bool" where
  "routing_ok s \<longleftrightarrow>
     (\<forall>rid r. cn_slots s rid = Some (Slot_value r) \<longrightarrow> response_request_id r = Some rid \<and> r \<in> set (cn_received s)) \<and>
     (\<forall>rid x. phase_of s rid = Some (Finished x) \<longrightarrow> justified s rid x)"

lemma deadline_update [simp]:
  "deadline_in (with_phase rid p calls) rid' = deadline_in calls rid'"
  "deadline_in (calls(rid \<mapsto> c)) rid' = (if rid' = rid then cl_deadline c else deadline_in calls rid')"
  by (auto simp: deadline_in_def with_phase_def split: option.splits)

lemma routing_intro:
  assumes inv: "routing_ok s"
    and "\<And>rid r. cn_slots s' rid = Some (Slot_value r) \<Longrightarrow>
      cn_slots s rid = Some (Slot_value r) \<or> response_request_id r = Some rid \<and> r \<in> set (cn_received s')"
    and "set (cn_received s) \<subseteq> set (cn_received s')" "cn_closed s \<Longrightarrow> cn_closed s'"
    and "\<And>rid. has_deadline s rid \<Longrightarrow> has_deadline s' rid"
    and "\<And>rid x. phase_of s' rid = Some (Finished x) \<Longrightarrow> phase_of s rid = Some (Finished x) \<or> justified s' rid x"
  shows "routing_ok s'"
proof -
  have keep: "justified s rid x \<Longrightarrow> justified s' rid x" for rid x
    using assms(3-5) by (cases x) auto
  show ?thesis using assms(1,2,3,6) keep unfolding routing_ok_def by (metis subsetD)
qed

lemma guard_drop_values: "cn_slots (guard_drop mode rid sent s) rid' = Some (Slot_value r) \<Longrightarrow> cn_slots s rid' = Some (Slot_value r)"
  by (cases mode) (auto simp: remove_waiter_def split: if_splits)

lemma routing_finish:
  assumes inv: "routing_ok s"
    and s': "s' = set_phase rid (Finished x) s1" "cn_calls s1 = cn_calls s"
      "\<And>rid' r. cn_slots s1 rid' = Some (Slot_value r) \<Longrightarrow> cn_slots s rid' = Some (Slot_value r)"
      "cn_received s1 = cn_received s" "cn_closed s1 = cn_closed s"
    and x: "justified s rid x"
  shows "routing_ok s'"
proof (rule routing_intro [OF inv])
  have j: "justified s' rid x" using x s' by (cases x) auto
  show "phase_of s rid' = Some (Finished y) \<or> justified s' rid' y" if "phase_of s' rid' = Some (Finished y)" for rid' y
    using that s'(1,2) j by (auto split: if_splits)
  show "has_deadline s' rid'" if "has_deadline s rid'" for rid' using that s'(1,2) by simp
qed (use s' in auto)

lemma expire_cases:
  assumes "expire mode rid s = Some s'"
  obtains (acquiring) "has_deadline s rid" "phase_of s rid = Some Acquiring" "s' = set_phase rid (Finished (Timed_out False)) s"
  | (queueing) "has_deadline s rid" "phase_of s rid = Some Queueing"
      "s' = set_phase rid (Finished (Timed_out False)) (guard_drop mode rid False s)"
  | (waiting) "has_deadline s rid" "phase_of s rid = Some Waiting"
      "s' = set_phase rid (Finished (Timed_out True)) (guard_drop mode rid True s)"
  using assms unfolding expire_def by (auto split: if_splits option.splits call_phase.splits)

lemma abandon_cases:
  assumes "abandon mode rid s = Some s'"
  obtains (acquiring) "phase_of s rid = Some Acquiring" "s' = set_phase rid (Finished (Abandoned False)) s"
  | (admitted) "phase_of s rid = Some Admitted" "s' = set_phase rid (Finished (Abandoned False)) (release s)"
  | (queueing) "phase_of s rid = Some Queueing"
      "s' = set_phase rid (Finished (Abandoned False)) (guard_drop mode rid False s)"
  | (waiting) "phase_of s rid = Some Waiting"
      "s' = set_phase rid (Finished (Abandoned True)) (guard_drop mode rid True s)"
  using assms unfolding abandon_def by (auto split: option.splits call_phase.splits)

lemma routing_step:
  assumes reach: "conn_reach pc s" and inv: "routing_ok s" and st: "conn_step pc a s = Some s'"
  shows "routing_ok s'"
proof -
  note closing = closing_invariant [OF reach, unfolded closing_ok_def stage_def]
  note waiters = waiters_invariant [OF reach, unfolded waiters_ok_def]
  show ?thesis
  proof (cases a)
    case (Start rid deadline)
    with st have s': "cn_calls s rid = None"
      "s' = s\<lparr>cn_calls := (cn_calls s)(rid \<mapsto> \<lparr>cl_deadline = deadline, cl_phase = Acquiring\<rparr>)\<rparr>"
      by (auto simp: start_call_def split: if_splits)
    have "\<not> has_deadline s rid" using s'(1) by (simp add: deadline_in_def)
    then show ?thesis by (intro routing_intro [OF inv]) (use s'(2) in \<open>auto split: if_splits\<close>)
  next
    case (Acquire rid)
    show ?thesis
    proof (cases "cn_semaphore_closed s")
      case True
      with Acquire st have s': "s' = set_phase rid (Finished Connection_closed) s" by (auto simp: acquire_def split: if_splits)
      show ?thesis by (rule routing_finish [OF inv s']) (use closing True in auto)
    next
      case False
      with Acquire st have s': "s' = set_phase rid Admitted (s\<lparr>cn_available := cn_available s - 1\<rparr>)"
        by (auto simp: acquire_def split: if_splits)
      show ?thesis
        by (rule routing_intro [OF inv]) (use s' in \<open>auto split: if_splits\<close>)
    qed
  next
    case (Register rid)
    show ?thesis
    proof (cases "cn_waiters_closed s")
      case True
      with Register st have s': "s' = set_phase rid (Finished Connection_closed) (release s)"
        by (auto simp: register_call_def split: if_splits)
      show ?thesis by (rule routing_finish [OF inv s']) (use closing True in \<open>auto simp: release_def\<close>)
    next
      case False
      with Register st have s': "s' = set_phase rid Queueing
          (s\<lparr>cn_by_request := insert rid (cn_by_request s), cn_slots := (cn_slots s)(rid \<mapsto> Slot_empty)\<rparr>)"
        by (auto simp: register_call_def split: if_splits)
      show ?thesis
        by (rule routing_intro [OF inv]) (use s' in \<open>auto split: if_splits\<close>)
    qed
  next
    case (Enqueue mode rid)
    show ?thesis
    proof (cases "cn_writer s = Writer_done")
      case True
      with Enqueue st have s': "s' = set_phase rid (Finished Connection_closed) (guard_drop mode rid False s)"
        by (auto simp: enqueue_def split: if_splits)
      show ?thesis
        by (rule routing_finish [OF inv s' _ guard_drop_values]) (use closing True in auto)
    next
      case False
      with Enqueue st have s': "s' = set_phase rid Waiting (s\<lparr>cn_outbound := cn_outbound s @ [rid]\<rparr>)"
        by (auto simp: enqueue_def split: if_splits)
      show ?thesis
        by (rule routing_intro [OF inv]) (use s' in \<open>auto split: if_splits\<close>)
    qed
  next
    case (Receive rid)
    with st have ph: "phase_of s rid = Some Waiting" by (auto simp: receive_response_def split: if_splits)
    consider (val) r where "cn_slots s rid = Some (Slot_value r)"
        "s' = set_phase rid (Finished (case response_error r of Some e \<Rightarrow> Failed_response e | None \<Rightarrow> Answered r)) (release s)"
      | (gone) "cn_slots s rid = Some Slot_dropped" "s' = set_phase rid (Finished Connection_closed) (release s)"
      using Receive st by (auto simp: receive_response_def split: if_splits option.splits slot.splits)
    then show ?thesis
    proof cases
      case val
      show ?thesis
        by (rule routing_finish [OF inv val(2)])
          (use inv val(1) in \<open>auto simp: release_def routing_ok_def split: option.split\<close>)
    next
      case gone
      have "cn_waiters_closed s" using waiters ph gone(1) by (metis armed.simps(2))
      then show ?thesis by (intro routing_finish [OF inv gone(2)]) (use closing in \<open>auto simp: release_def\<close>)
    qed
  next
    case (Expire mode rid)
    with st have "expire mode rid s = Some s'" by simp
    then show ?thesis
    proof (cases rule: expire_cases)
      case acquiring
      show ?thesis by (rule routing_finish [OF inv acquiring(3)]) (use acquiring(1) in auto)
    next
      case queueing
      show ?thesis by (rule routing_finish [OF inv queueing(3) _ guard_drop_values]) (use queueing(1) in auto)
    next
      case waiting
      show ?thesis by (rule routing_finish [OF inv waiting(3) _ guard_drop_values]) (use waiting(1) in auto)
    qed
  next
    case (Abandon mode rid)
    with st have "abandon mode rid s = Some s'" by simp
    then show ?thesis
    proof (cases rule: abandon_cases)
      case acquiring
      show ?thesis by (rule routing_finish [OF inv acquiring(2)]) auto
    next
      case admitted
      show ?thesis by (rule routing_finish [OF inv admitted(2)]) (auto simp: release_def)
    next
      case queueing
      show ?thesis by (rule routing_finish [OF inv queueing(2) _ guard_drop_values]) auto
    next
      case waiting
      show ?thesis by (rule routing_finish [OF inv waiting(2) _ guard_drop_values]) auto
    qed
  next
    case (Removal rid)
    with st have s': "s' = remove_waiter rid (s\<lparr>cn_removals := remove1 rid (cn_removals s)\<rparr>)"
      by (auto simp: run_removal_def split: if_splits)
    show ?thesis
      by (rule routing_intro [OF inv]) (use s' in \<open>auto simp: remove_waiter_def split: if_splits\<close>)
  next
    case (Arrives p)
    then show ?thesis
      using st inv by (intro routing_intro [OF inv])
        (auto simp: reader_packet_def routed_def Let_def deadline_in_def split: if_splits option.splits sum.splits)
  next
    case Writer_closes
    then show ?thesis
      using st by (intro routing_intro [OF inv])
        (auto simp: writer_close_def close_step_def close_waiters_def deadline_in_def split: if_splits writer_phase.splits)
  next
    case Reader_closes
    then show ?thesis
      using st by (intro routing_intro [OF inv])
        (auto simp: reader_close_def close_step_def close_waiters_def deadline_in_def split: if_splits reader_phase.splits)
  next
    case Sent
    then show ?thesis
      using st by (intro routing_intro [OF inv])
        (auto simp: writer_sent_def free_outgoing_def release_def deadline_in_def split: writer_phase.splits outgoing.splits)
  next
    case Send_failed
    then show ?thesis
      using st by (intro routing_intro [OF inv])
        (auto simp: writer_failed_def free_outgoing_def release_def deadline_in_def split: writer_phase.splits outgoing.splits)
  next
    case Take
    then show ?thesis
      using st by (intro routing_intro [OF inv]) (auto simp: writer_take_def deadline_in_def split: if_splits list.splits)
  next
    case Receive_failed
    then show ?thesis
      using st by (intro routing_intro [OF inv]) (auto simp: reader_failed_def deadline_in_def split: if_splits)
  qed
qed

lemma routing_invariant: "conn_reach pc s \<Longrightarrow> routing_ok s"
  by (erule actor.invariant [where I = routing_ok])
    (simp add: routing_ok_def from_bus_def phase_in_def, rule routing_step)

section \<open>Packets\<close>

text \<open>Every packet ever queued: written, being written, or waiting.\<close>

definition sending :: "writer_phase \<Rightarrow> outgoing list" where
  "sending w = (case w of Writer_sending o' \<Rightarrow> [o'] | _ \<Rightarrow> [])"

lemma sending_simps [simp]:
  "sending Writer_idle = []" "sending (Writer_sending o') = [o']" "sending (Writer_stopping k) = []" "sending Writer_done = []"
  by (simp_all add: sending_def)

definition messages :: "connection \<Rightarrow> outgoing list" where
  "messages s = cn_wire s @ sending (cn_writer s) @ map Cancellation (cn_cancels s) @ map Request (cn_outbound s)"

definition live_writer :: "connection \<Rightarrow> bool" where
  "live_writer s = (cn_writer s = Writer_idle \<or> (\<exists>o'. cn_writer s = Writer_sending o'))"

definition given_up :: "call_phase option \<Rightarrow> bool" where
  "given_up p = (p = Some (Finished (Timed_out True)) \<or> p = Some (Finished (Abandoned True)))"

definition queued :: "call_phase option \<Rightarrow> bool" where
  "queued p = (p = Some Waiting \<or> (\<exists>x. p = Some (Finished x)))"

definition messages_ok :: "connection \<Rightarrow> bool" where
  "messages_ok s \<longleftrightarrow> distinct (messages s) \<and>
     (\<forall>rid. Cancellation rid \<in> set (messages s) \<longrightarrow> given_up (phase_of s rid)) \<and>
     (\<forall>rid. Request rid \<in> set (messages s) \<longrightarrow> queued (phase_of s rid)) \<and>
     (live_writer s \<longrightarrow> (\<forall>rid. given_up (phase_of s rid) \<longrightarrow> Cancellation rid \<in> set (messages s))) \<and>
     (live_writer s \<longrightarrow> (\<forall>rid. phase_of s rid = Some Waiting \<longrightarrow> Request rid \<in> set (messages s)))"

text \<open>Nothing is queued or lost, and the phases keep what the packets say of them.\<close>

lemma messages_keep:
  assumes inv: "messages_ok s" and m: "messages s' = messages s" and l: "live_writer s' \<Longrightarrow> live_writer s"
    and p: "\<And>rid. phase_of s' rid = phase_of s rid \<or>
      \<not> given_up (phase_of s rid) \<and> \<not> given_up (phase_of s' rid) \<and> phase_of s' rid \<noteq> Some Waiting \<and>
      (queued (phase_of s rid) \<longrightarrow> queued (phase_of s' rid))"
  shows "messages_ok s'"
proof -
  have "given_up (phase_of s' rid) = given_up (phase_of s rid)" "queued (phase_of s rid) \<longrightarrow> queued (phase_of s' rid)"
    "phase_of s' rid = Some Waiting \<longrightarrow> phase_of s rid = Some Waiting" for rid
    using p [of rid] by auto
  then show ?thesis using inv m l unfolding messages_ok_def by metis
qed

text \<open>A stopped writer loses what it had queued.\<close>

lemma messages_lose:
  assumes inv: "messages_ok s" and m: "set (messages s') \<subseteq> set (messages s)" "distinct (messages s')"
    and l: "\<not> live_writer s'" and p: "cn_calls s' = cn_calls s"
  shows "messages_ok s'"
  using assms unfolding messages_ok_def by auto

lemma messages_guard:
  assumes "\<not> sent \<or> cn_writer s = Writer_done"
  shows "messages (guard_drop mode rid sent s) = messages s"
  using assms by (auto simp: messages_def guard_drop_def guard_cancel_def release_def)

lemma messages_calls [simp]: "messages (s\<lparr>cn_calls := calls\<rparr>) = messages s"
  by (simp add: messages_def)

lemma messages_release [simp]: "messages (release s) = messages s" "cn_calls (release s) = cn_calls s"
  by (simp_all add: messages_def release_def)

lemma live_writer_simps [simp]:
  "live_writer (s\<lparr>cn_calls := calls\<rparr>) = live_writer s" "live_writer (release s) = live_writer s"
  "live_writer (guard_drop mode rid sent s) = live_writer s"
  by (simp_all add: live_writer_def release_def)

lemma messages_finish:
  assumes inv: "messages_ok s" and q: "phase_of s rid = Some q" and x: "\<not> given_up (Some (Finished x))"
    and s1: "messages s1 = messages s" "live_writer s1 = live_writer s" "cn_calls s1 = cn_calls s"
    and nf: "\<nexists>y. q = Finished y"
  shows "messages_ok (set_phase rid (Finished x) s1)"
proof (rule messages_keep [OF inv])
  show "phase_of (set_phase rid (Finished x) s1) rid' = phase_of s rid' \<or>
      \<not> given_up (phase_of s rid') \<and> \<not> given_up (phase_of (set_phase rid (Finished x) s1) rid') \<and>
      phase_of (set_phase rid (Finished x) s1) rid' \<noteq> Some Waiting \<and>
      (queued (phase_of s rid') \<longrightarrow> queued (phase_of (set_phase rid (Finished x) s1) rid'))" for rid'
    using q x nf s1(3) phase_in_SomeD [OF q] by (auto simp: given_up_def queued_def)
qed (use s1 in auto)

text \<open>Giving up a call whose request is queued queues its cancellation, while the writer lives.\<close>

lemma messages_give_up:
  assumes inv: "messages_ok s" and permits: "permits_ok s" and q: "phase_of s rid = Some Waiting"
    and x: "given_up (Some (Finished x))"
  shows "messages_ok (set_phase rid (Finished x) (guard_drop mode rid True s))"
proof -
  define s' where "s' = set_phase rid (Finished x) (guard_drop mode rid True s)"
  have ph: "phase_of s' r = (if r = rid then Some (Finished x) else phase_of s r)" for r
    using phase_in_SomeD [OF q] by (auto simp: s'_def)
  have no: "Cancellation rid \<notin> set (messages s)" using inv q by (auto simp: messages_ok_def given_up_def)
  have live: "live_writer s' = live_writer s" by (simp add: s'_def)
  have qu: "queued (phase_of s r) \<Longrightarrow> queued (phase_of s' r)" for r using ph [of r] by (simp add: queued_def)
  have gu: "given_up (phase_of s' r) = (r = rid \<or> given_up (phase_of s r))" for r using ph [of r] x by simp
  have wa: "phase_of s' r = Some Waiting \<Longrightarrow> phase_of s r = Some Waiting" for r using ph [of r] by (simp split: if_splits)
  have "messages_ok s'"
  proof (cases "cn_writer s = Writer_done")
    case True
    then have "messages s' = messages s" "\<not> live_writer s'" by (simp_all add: s'_def messages_guard live_writer_def)
    then show ?thesis using inv gu qu unfolding messages_ok_def by simp
  next
    case False
    have "0 < card (holders (cn_calls s))"
      using permits holders_phase(4) [OF _ q] by (simp add: permits_ok_def)
    then have "length (cn_cancels s) < CANCEL_QUEUE" using permits by (auto simp: permits_ok_def CANCEL_QUEUE_def)
    then have m: "messages s' = cn_wire s @ sending (cn_writer s) @ map Cancellation (cn_cancels s @ [rid]) @ map Request (cn_outbound s)"
      using False by (simp add: s'_def messages_def guard_drop_def guard_cancel_def)
    have st: "set (messages s') = insert (Cancellation rid) (set (messages s))" by (subst m) (auto simp: messages_def)
    have d: "distinct (messages s')" using inv no by (subst m) (auto simp: messages_ok_def messages_def)
    show ?thesis using inv d gu qu wa unfolding messages_ok_def st live by blast
  qed
  then show ?thesis by (simp only: s'_def)
qed

lemma messages_step:
  assumes reach: "conn_reach pc s" and inv: "messages_ok s" and st: "conn_step pc a s = Some s'"
  shows "messages_ok s'"
proof -
  note permits = permits_invariant [OF reach]
  have d: "distinct (messages s)" using inv by (simp add: messages_ok_def)
  have rephase: "messages_ok s''" if "phase_of s rid = Some q" "messages s'' = messages s" "live_writer s'' = live_writer s"
      "cn_calls s'' = with_phase rid p (cn_calls s)" "q \<in> {Acquiring, Admitted}" "p \<in> {Admitted, Queueing}" for s'' rid p q
    by (rule messages_keep [OF inv that(2)]) (use that in \<open>auto simp: given_up_def queued_def\<close>)
  have same: "messages_ok s''" if "messages s'' = messages s" "live_writer s'' \<Longrightarrow> live_writer s" "cn_calls s'' = cn_calls s" for s''
    by (rule messages_keep [OF inv that(1,2)]) (use that in auto)
  show ?thesis
  proof (cases a)
    case (Start rid deadline)
    with st have s': "phase_of s rid = None"
      "s' = s\<lparr>cn_calls := (cn_calls s)(rid \<mapsto> \<lparr>cl_deadline = deadline, cl_phase = Acquiring\<rparr>)\<rparr>"
      by (auto simp: start_call_def phase_in_None split: if_splits)
    show ?thesis
      by (rule messages_keep [OF inv]) (use s' in \<open>auto simp: messages_def live_writer_def given_up_def queued_def\<close>)
  next
    case (Acquire rid)
    with st have q: "phase_of s rid = Some Acquiring" by (auto simp: acquire_def split: if_splits)
    consider "s' = set_phase rid (Finished Connection_closed) s"
      | "s' = set_phase rid Admitted (s\<lparr>cn_available := cn_available s - 1\<rparr>)"
      using Acquire st by (auto simp: acquire_def split: if_splits)
    then show ?thesis
    proof cases
      case 1
      then show ?thesis using messages_finish [OF inv q, of Connection_closed s] by (simp add: given_up_def)
    next
      case 2
      show ?thesis by (rule rephase [OF q, where p = Admitted]) (simp_all add: 2 messages_def live_writer_def)
    qed
  next
    case (Register rid)
    with st have q: "phase_of s rid = Some Admitted" by (auto simp: register_call_def split: if_splits)
    show ?thesis
    proof (cases "cn_waiters_closed s")
      case True
      then show ?thesis using Register st messages_finish [OF inv q, of Connection_closed "release s"]
        by (auto simp: register_call_def given_up_def split: if_splits)
    next
      case False
      show ?thesis
        by (rule rephase [OF q, where p = Queueing]) (use Register st False in \<open>auto simp: register_call_def messages_def live_writer_def split: if_splits\<close>)
    qed
  next
    case (Enqueue mode rid)
    with st have q: "phase_of s rid = Some Queueing" by (auto simp: enqueue_def split: if_splits)
    show ?thesis
    proof (cases "cn_writer s = Writer_done")
      case True
      then show ?thesis
        using Enqueue st messages_finish [OF inv q, of Connection_closed "guard_drop mode rid False s"]
        by (auto simp: enqueue_def given_up_def messages_guard split: if_splits)
    next
      case False
      with Enqueue st have s': "s' = set_phase rid Waiting (s\<lparr>cn_outbound := cn_outbound s @ [rid]\<rparr>)"
        by (auto simp: enqueue_def split: if_splits)
      have ph: "phase_of s' r = (if r = rid then Some Waiting else phase_of s r)" for r
        using phase_in_SomeD [OF q] by (auto simp: s')
      have m: "messages s' = messages s @ [Request rid]" by (simp add: s' messages_def)
      have no: "Request rid \<notin> set (messages s)" "Cancellation rid \<notin> set (messages s)"
        using inv q by (auto simp: messages_ok_def queued_def given_up_def)
      have "live_writer s' = live_writer s" by (simp add: s' live_writer_def)
      then show ?thesis using inv no m ph unfolding messages_ok_def by (auto simp: queued_def given_up_def)
    qed
  next
    case (Receive rid)
    with st have q: "phase_of s rid = Some Waiting" by (auto simp: receive_response_def split: if_splits)
    obtain x where "s' = set_phase rid (Finished x) (release s)" "\<not> given_up (Some (Finished x))"
      using Receive st by (auto simp: receive_response_def given_up_def split: if_splits option.splits slot.splits)
    then show ?thesis using messages_finish [OF inv q, of x "release s"] by simp
  next
    case (Expire mode rid)
    with st have "expire mode rid s = Some s'" by simp
    then show ?thesis
    proof (cases rule: expire_cases)
      case acquiring
      then show ?thesis using messages_finish [OF inv acquiring(2), of _ s] by (simp add: given_up_def)
    next
      case queueing
      then show ?thesis
        using messages_finish [OF inv queueing(2), of _ "guard_drop mode rid False s"] by (simp add: given_up_def messages_guard)
    next
      case waiting
      then show ?thesis using messages_give_up [OF inv permits waiting(2)] by (simp add: given_up_def)
    qed
  next
    case (Abandon mode rid)
    with st have "abandon mode rid s = Some s'" by simp
    then show ?thesis
    proof (cases rule: abandon_cases)
      case acquiring
      then show ?thesis using messages_finish [OF inv acquiring(1), of _ s] by (simp add: given_up_def)
    next
      case admitted
      then show ?thesis using messages_finish [OF inv admitted(1), of _ "release s"] by (simp add: given_up_def)
    next
      case queueing
      then show ?thesis
        using messages_finish [OF inv queueing(1), of _ "guard_drop mode rid False s"] by (simp add: given_up_def messages_guard)
    next
      case waiting
      then show ?thesis using messages_give_up [OF inv permits waiting(1)] by (simp add: given_up_def)
    qed
  next
    case (Removal rid)
    show ?thesis
      by (rule same) (use Removal st in \<open>auto simp: run_removal_def remove_waiter_def messages_def live_writer_def split: if_splits\<close>)
  next
    case Take
    show ?thesis
      by (rule same) (use Take st in \<open>auto simp: writer_take_def messages_def live_writer_def split: if_splits list.splits\<close>)
  next
    case Sent
    show ?thesis
      by (rule same) (use Sent st in \<open>auto simp: writer_sent_def free_outgoing_def release_def messages_def live_writer_def
        split: writer_phase.splits outgoing.splits\<close>)
  next
    case Send_failed
    with st obtain o' where w: "cn_writer s = Writer_sending o'"
      and s': "s' = free_outgoing o' (s\<lparr>cn_writer := Writer_stopping 0\<rparr>)"
      by (auto simp: writer_failed_def split: writer_phase.splits)
    have m: "messages s = cn_wire s @ o' # map Cancellation (cn_cancels s) @ map Request (cn_outbound s)"
      by (simp add: messages_def w)
    have m': "messages s' = cn_wire s @ map Cancellation (cn_cancels s) @ map Request (cn_outbound s)"
      and "\<not> live_writer s'" "cn_calls s' = cn_calls s"
      by (auto simp: s' free_outgoing_def release_def messages_def live_writer_def split: outgoing.split)
    moreover have "set (messages s') \<subseteq> set (messages s)" unfolding m m' by auto
    moreover have "distinct (messages s')" using d unfolding m m' by simp
    ultimately show ?thesis by (intro messages_lose [OF inv])
  next
    case Writer_closes
    with st obtain k where w: "cn_writer s = Writer_stopping k" by (auto simp: writer_close_def split: writer_phase.splits)
    have m: "messages s = cn_wire s @ map Cancellation (cn_cancels s) @ map Request (cn_outbound s)"
      by (simp add: messages_def w)
    have l: "\<not> live_writer s'" "cn_calls s' = cn_calls s" "messages s' = messages s \<or> messages s' = cn_wire s"
      using Writer_closes st w
      by (auto simp: writer_close_def close_step_def close_waiters_def messages_def live_writer_def split: if_splits)
    have "set (messages s') \<subseteq> set (messages s)" "distinct (messages s')"
      using l(3) d unfolding m by auto
    with l show ?thesis by (intro messages_lose [OF inv])
  next
    case (Arrives p)
    show ?thesis
      by (rule same) (use Arrives st in \<open>auto simp: reader_packet_def Let_def messages_def live_writer_def split: if_splits option.splits\<close>)
  next
    case Receive_failed
    show ?thesis
      by (rule same) (use Receive_failed st in \<open>auto simp: reader_failed_def messages_def live_writer_def split: if_splits\<close>)
  next
    case Reader_closes
    show ?thesis
      by (rule same) (use Reader_closes st in \<open>auto simp: reader_close_def close_step_def close_waiters_def messages_def live_writer_def
        split: reader_phase.splits if_splits\<close>)
  qed
qed

lemma messages_invariant: "conn_reach pc s \<Longrightarrow> messages_ok s"
  by (erule actor.invariant [where I = messages_ok])
    (simp add: messages_ok_def messages_def given_up_def from_bus_def phase_in_def, rule messages_step)

section \<open>Properties\<close>

text \<open>A protobuf library for the examples: it writes nothing and reads no header.\<close>

definition silent_codec :: proto_codec where
  "silent_codec = \<lparr>pc_request_header = (\<lambda>_. []), pc_cancelation_header = (\<lambda>_. []), pc_credentials = (\<lambda>_. []),
     pc_delimited_key = (\<lambda>_. []), pc_varint = (\<lambda>_. []), pc_response_header = (\<lambda>_. Inl ''none'')\<rparr>"

text \<open>A call that is queued and times out before the writer looks at its queues.\<close>

definition overtaking :: "guid \<Rightarrow> action list" where
  "overtaking rid = [Start rid True, Acquire rid, Register rid, Enqueue Spawned rid, Expire Spawned rid, Take, Sent, Take, Sent]"

lemma from_bus_simps [simp]:
  "cn_calls from_bus = Map.empty" "cn_available from_bus = 256" "\<not> cn_semaphore_closed from_bus"
  "\<not> cn_waiters_closed from_bus" "cn_by_request from_bus = {}" "cn_slots from_bus = Map.empty" "cn_outbound from_bus = []"
  "cn_cancels from_bus = []" "cn_removals from_bus = []" "cn_skipped from_bus = {}" "cn_writer from_bus = Writer_idle"
  "cn_reader from_bus = Reader_reading" "\<not> cn_overflow from_bus" "cn_wire from_bus = []" "cn_received from_bus = []"
  by (simp_all add: from_bus_def MAX_IN_FLIGHT_def)

lemma overtaking_runs:
  "\<exists>s. run_steps (conn_step pc) (overtaking rid) from_bus = Some s \<and> cn_wire s = [Cancellation rid, Request rid] \<and>
     phase_of s rid = Some (Finished (Timed_out True)) \<and> cn_by_request s = {rid} \<and> cn_removals s = [rid]"
  by (simp add: overtaking_def conn_defs deadline_in_def with_phase_def phase_in_def OUTBOUND_QUEUE_def CANCEL_QUEUE_def
      MAX_IN_FLIGHT_def)

lemma reach_overtaking:
  "\<exists>s. conn_reach pc s \<and> cn_wire s = [Cancellation rid, Request rid] \<and>
     phase_of s rid = Some (Finished (Timed_out True)) \<and> cn_by_request s = {rid} \<and> cn_removals s = [rid]"
  using overtaking_runs [of pc rid] actor.reach_run [OF actor.reach_start] by blast

text \<open>C27: however callers, the writer, the reader and dropped calls interleave, the 256 permits are
  conserved: each is free, or held by one admitted, unfinished call, or travels with one
  cancellation until the writer is done with it. So the queue of cancellations is never full when
  a dropped call adds to it, and the assertion in the guard's destructor never fails.\<close>

theorem permits_conserved:
  assumes "conn_reach pc s"
  shows "\<not> cn_overflow s \<and>
    cn_available s + card {rid. phase_of s rid \<in> {Some Admitted, Some Queueing, Some Waiting}} +
      length (cn_cancels s) + cancelling (cn_writer s) = 256"
proof -
  have "holders (cn_calls s) = {rid. phase_of s rid \<in> {Some Admitted, Some Queueing, Some Waiting}}"
    by (auto simp: holders_def elim: holds_permit.elims)
  then show ?thesis using permits_invariant [OF assms] by (simp add: permits_ok_def MAX_IN_FLIGHT_def)
qed

lemma permits_conserved_witness:
  "\<exists>s. conn_reach silent_codec s \<and> phase_of s guid_NULL = Some (Finished (Timed_out True)) \<and> \<not> cn_overflow s"
  using reach_overtaking [of silent_codec guid_NULL] permits_conserved by blast



text \<open>The map of waiters does not leak: every entry belongs to a call that is still registered, or
  to one that is over and whose removal is spawned, or was skipped for want of a runtime and of
  the lock; and a closed map is empty for good.\<close>

theorem waiters_do_not_leak:
  assumes "conn_reach pc s" "rid \<in> cn_by_request s"
  shows "\<not> cn_waiters_closed s \<and>
    (phase_of s rid \<in> {Some Queueing, Some Waiting} \<or>
     (\<exists>x. phase_of s rid = Some (Finished x)) \<and> (rid \<in> set (cn_removals s) \<or> rid \<in> cn_skipped s))"
proof -
  note waiters = waiters_invariant [OF assms(1), unfolded waiters_ok_def]
  obtain p where p: "phase_of s rid = Some p"
      "armed p \<or> (\<exists>x. p = Finished x) \<and> (rid \<in> set (cn_removals s) \<or> rid \<in> cn_skipped s)"
    using waiters assms(2) by blast
  have "armed p \<Longrightarrow> p = Queueing \<or> p = Waiting" by (cases p) simp_all
  then show ?thesis using p waiters assms(2) by auto
qed

lemma waiters_do_not_leak_witness:
  "\<exists>s. conn_reach silent_codec s \<and> guid_NULL \<in> cn_by_request s \<and> \<not> cn_waiters_closed s"
  using reach_overtaking [of silent_codec guid_NULL] waiters_do_not_leak by blast

text \<open>A call is told the truth: an answer or a server failure it returns came in a response that
  carries its own request id, whatever order responses arrive in; it reports the connection
  closed only when it is; and it reports a timeout only if it had one.\<close>

theorem results_are_justified:
  assumes "conn_reach pc s" "phase_of s rid = Some (Finished x)"
  shows "justified s rid x"
  using routing_invariant [OF assms(1)] assms(2) by (simp add: routing_ok_def)

lemma results_are_justified_witness: "\<exists>s. conn_reach silent_codec s \<and> justified s guid_NULL (Timed_out True)"
  using reach_overtaking [of silent_codec guid_NULL] results_are_justified by blast

text \<open>C29: no request and no cancellation is ever queued or written twice; a cancellation is only sent
  for a call that was given up after its request had been queued; and as long as the writer
  lives, every such call has its cancellation queued or written.\<close>

theorem packets_once:
  assumes "conn_reach pc s"
  shows "distinct (messages s) \<and>
    (\<forall>rid. Cancellation rid \<in> set (messages s) \<longrightarrow> given_up (phase_of s rid)) \<and>
    (live_writer s \<longrightarrow> (\<forall>rid. given_up (phase_of s rid) \<longrightarrow> Cancellation rid \<in> set (messages s)))"
  using messages_invariant [OF assms] by (simp add: messages_ok_def)

lemma packets_once_witness:
  "\<exists>s. conn_reach silent_codec s \<and> distinct (messages s) \<and> given_up (phase_of s guid_NULL) \<and>
     cn_wire s = [Cancellation guid_NULL, Request guid_NULL]"
  using reach_overtaking [of silent_codec guid_NULL] packets_once by (metis given_up_def)


end
