(* ===== verification/Std_Net.thy ===== *)
theory Std_Net
  imports Std_Text
begin

text \<open>
  What the HTTP client uses of Rust's standard library on addresses: searching, splitting and
  trimming strings, ASCII case, and \<open>str::parse\<close> for \<open>IpAddr\<close> and \<open>Ipv6Addr\<close>. Strings are their
  UTF-8 bytes, so a search for an ASCII character is a search for its byte.
\<close>

section \<open>Searching and splitting\<close>

text \<open>\<open>str::split_once\<close> and \<open>rsplit_once\<close>: around the first and the last occurrence of a non-empty pattern.\<close>

fun split_once :: "bytes \<Rightarrow> bytes \<Rightarrow> (bytes \<times> bytes) option" where
  "split_once pat [] = None"
| "split_once pat (c # cs) =
     (if take (length pat) (c # cs) = pat then Some ([], drop (length pat) (c # cs))
      else map_option (\<lambda>(a, b). (c # a, b)) (split_once pat cs))"

definition rsplit_once :: "bytes \<Rightarrow> bytes \<Rightarrow> (bytes \<times> bytes) option" where
  "rsplit_once pat s = map_option (\<lambda>(a, b). (rev b, rev a)) (split_once (rev pat) (rev s))"

definition str_contains :: "bytes \<Rightarrow> bytes \<Rightarrow> bool" where
  "str_contains s pat = (pat = [] \<or> split_once pat s \<noteq> None)"

definition has_prefix :: "bytes \<Rightarrow> bytes \<Rightarrow> bool" where
  "has_prefix s pat = (take (length pat) s = pat)"

definition ends_with :: "bytes \<Rightarrow> bytes \<Rightarrow> bool" where
  "ends_with s pat = has_prefix (rev s) (rev pat)"

definition strip_prefix :: "bytes \<Rightarrow> bytes \<Rightarrow> bytes option" where
  "strip_prefix s pat = (if has_prefix s pat then Some (drop (length pat) s) else None)"

text \<open>\<open>split([..]).next()\<close>: up to the first of these characters.\<close>

definition before_any :: "bytes \<Rightarrow> bytes \<Rightarrow> bytes" where
  "before_any cs s = takeWhile (\<lambda>c. c \<notin> set cs) s"

definition from_any :: "bytes \<Rightarrow> bytes \<Rightarrow> bytes" where
  "from_any cs s = dropWhile (\<lambda>c. c \<notin> set cs) s"

lemma before_from [simp]: "before_any cs s @ from_any cs s = s"
  by (simp add: before_any_def from_any_def)

lemma split_once_Some: "split_once pat s = Some (a, b) \<Longrightarrow> s = a @ pat @ b"
  by (induction s arbitrary: a b) (auto split: if_splits dest: sym simp flip: append_eq_conv_conj,
      metis append_take_drop_id)

lemma split_once_char_None: "split_once [c] s = None \<longleftrightarrow> c \<notin> set s"
  by (induction s) auto

lemma split_once_char: "c \<notin> set a \<Longrightarrow> split_once [c] (a @ c # b) = Some (a, b)"
  by (induction a) auto

lemma split_once_char_Some: "split_once [c] s = Some (a, b) \<longleftrightarrow> s = a @ c # b \<and> c \<notin> set a"
proof
  show "split_once [c] s = Some (a, b) \<Longrightarrow> s = a @ c # b \<and> c \<notin> set a"
    by (induction s arbitrary: a b) (auto split: if_splits)
qed (simp add: split_once_char)

lemma rsplit_once_char_Some: "rsplit_once [c] s = Some (a, b) \<longleftrightarrow> s = a @ c # b \<and> c \<notin> set b"
proof -
  have "rsplit_once [c] s = Some (a, b) \<longleftrightarrow> split_once [c] (rev s) = Some (rev b, rev a)"
    by (cases "split_once [c] (rev s)") (auto simp: rsplit_once_def)
  also have "\<dots> \<longleftrightarrow> rev s = rev b @ c # rev a \<and> c \<notin> set b"
    by (simp add: split_once_char_Some)
  also have "rev s = rev b @ c # rev a \<longleftrightarrow> s = a @ c # b"
    by (metis append.assoc append_Cons append_Nil rev.simps(2) rev_append rev_rev_ident)
  finally show ?thesis .
qed

lemma rsplit_once_char_None: "rsplit_once [c] s = None \<longleftrightarrow> c \<notin> set s"
  by (simp add: rsplit_once_def split_once_char_None)

lemma has_prefix_append [simp]: "has_prefix (pat @ s) pat"
  by (simp add: has_prefix_def)

lemma has_prefix_iff: "has_prefix s pat \<longleftrightarrow> (\<exists>r. s = pat @ r)"
  unfolding has_prefix_def by (metis append_eq_conv_conj)

lemma ends_with_iff: "ends_with s pat \<longleftrightarrow> (\<exists>r. s = r @ pat)"
  unfolding ends_with_def has_prefix_iff by (metis rev_append rev_rev_ident)

section \<open>Case and white space\<close>

definition ascii_lower :: "u8 \<Rightarrow> u8" where
  "ascii_lower c = (if 0x41 \<le> c \<and> c \<le> 0x5A then c + 0x20 else c)"

definition to_ascii_lowercase :: "bytes \<Rightarrow> bytes" where
  "to_ascii_lowercase s = map ascii_lower s"

definition eq_ignore_ascii_case :: "bytes \<Rightarrow> bytes \<Rightarrow> bool" where
  "eq_ignore_ascii_case a b = (to_ascii_lowercase a = to_ascii_lowercase b)"

text \<open>The characters of \<open>char::is_whitespace\<close>, encoded.\<close>

definition whitespace :: "bytes list" where
  "whitespace =
     [[0x09], [0x0A], [0x0B], [0x0C], [0x0D], [0x20], [0xC2, 0x85], [0xC2, 0xA0], [0xE1, 0x9A, 0x80],
      [0xE2, 0x80, 0x80], [0xE2, 0x80, 0x81], [0xE2, 0x80, 0x82], [0xE2, 0x80, 0x83], [0xE2, 0x80, 0x84],
      [0xE2, 0x80, 0x85], [0xE2, 0x80, 0x86], [0xE2, 0x80, 0x87], [0xE2, 0x80, 0x88], [0xE2, 0x80, 0x89],
      [0xE2, 0x80, 0x8A], [0xE2, 0x80, 0xA8], [0xE2, 0x80, 0xA9], [0xE2, 0x80, 0xAF], [0xE2, 0x81, 0x9F],
      [0xE3, 0x80, 0x80]]"

fun trim_front :: "bytes list \<Rightarrow> bytes \<Rightarrow> bytes" where
  "trim_front ws [] = []"
| "trim_front ws (c # cs) =
     (case filter (has_prefix (c # cs)) ws of
        w # _ \<Rightarrow> trim_front ws (drop (length w - 1) cs)
      | [] \<Rightarrow> c # cs)"

text \<open>\<open>str::trim\<close>.\<close>

definition trim :: "bytes \<Rightarrow> bytes" where
  "trim s = rev (trim_front (map rev whitespace) (rev (trim_front whitespace s)))"

definition has_whitespace :: "bytes \<Rightarrow> bool" where
  "has_whitespace s = (\<exists>w \<in> set whitespace. str_contains s w)"

text \<open>\<open>trim_end_matches(c)\<close>, \<open>trim_start_matches(c)\<close>, \<open>trim_matches(c)\<close>.\<close>

definition trim_start_matches :: "u8 \<Rightarrow> bytes \<Rightarrow> bytes" where
  "trim_start_matches c s = dropWhile (\<lambda>x. x = c) s"

definition trim_end_char :: "u8 \<Rightarrow> bytes \<Rightarrow> bytes" where
  "trim_end_char c s = rev (dropWhile (\<lambda>x. x = c) (rev s))"

definition trim_matches :: "u8 \<Rightarrow> bytes \<Rightarrow> bytes" where
  "trim_matches c s = trim_end_char c (trim_start_matches c s)"

lemma ascii_lower_idem [simp]: "ascii_lower (ascii_lower c) = ascii_lower c"
proof -
  have "\<not> (0x41 \<le> c + 0x20 \<and> c + 0x20 \<le> (0x5A :: u8))" if "0x41 \<le> c" "c \<le> 0x5A"
    using that by (auto simp: word_le_nat_alt unat_word_ariths)
  then show ?thesis by (cases "0x41 \<le> c \<and> c \<le> 0x5A") (simp_all only: ascii_lower_def if_True if_False simp_thms)
qed

lemma to_ascii_lowercase_idem [simp]: "to_ascii_lowercase (to_ascii_lowercase s) = to_ascii_lowercase s"
  by (simp add: to_ascii_lowercase_def)

lemma to_ascii_lowercase_append: "to_ascii_lowercase (a @ b) = to_ascii_lowercase a @ to_ascii_lowercase b"
  by (simp add: to_ascii_lowercase_def)

text \<open>Text without white space, in ASCII.\<close>

definition is_graphic :: "u8 \<Rightarrow> bool" where
  "is_graphic c = (0x20 < c \<and> c < 0x80)"

lemma whitespace_not_graphic: "w \<in> set whitespace \<Longrightarrow> w \<noteq> [] \<and> \<not> is_graphic (hd w) \<and> \<not> is_graphic (last w)"
  by (auto simp: whitespace_def is_graphic_def)

lemma graphic_no_whitespace: "list_all is_graphic s \<Longrightarrow> \<not> has_whitespace s"
proof
  assume s: "list_all is_graphic s" and "has_whitespace s"
  then obtain w where w: "w \<in> set whitespace" "str_contains s w" by (auto simp: has_whitespace_def)
  then have "hd w \<in> set s"
    using whitespace_not_graphic [OF w(1)] by (cases w) (auto simp: str_contains_def dest!: split_once_Some)
  then show False using s whitespace_not_graphic [OF w(1)] by (auto simp: list_all_iff)
qed

lemma trim_front_graphic:
  assumes "\<forall>w \<in> set ws. w \<noteq> [] \<and> \<not> is_graphic (hd w)" "s = [] \<or> is_graphic (hd s)"
  shows "trim_front ws s = s"
proof (cases s)
  case (Cons c cs)
  have "\<not> has_prefix s w" if "w \<in> set ws" for w
    using assms that Cons by (cases w) (auto simp: has_prefix_def)
  then have "filter (has_prefix (c # cs)) ws = []" by (simp add: filter_empty_conv flip: Cons)
  then show ?thesis using Cons by simp
qed simp

lemma trim_graphic: "list_all is_graphic s \<Longrightarrow> trim s = s"
proof -
  assume s: "list_all is_graphic s"
  then have "s = [] \<or> is_graphic (hd s)" "rev s = [] \<or> is_graphic (hd (rev s))"
    by (cases s; simp; fail) (metis list_all_iff hd_in_set rev_is_Nil_conv set_rev s)
  then show ?thesis
    using whitespace_not_graphic trim_front_graphic [of whitespace s] trim_front_graphic [of "map rev whitespace" "rev s"]
    by (simp add: trim_def hd_rev)
qed

section \<open>Lossy decoding\<close>

text \<open>
  \<open>String::from_utf8_lossy\<close>: each maximal prefix of a character that is not continued is replaced
  by U+FFFD. The first component tells whether a character starts here, the second its length or
  the length of the prefix that is replaced.
\<close>

definition third_follows :: "u8 \<Rightarrow> u8 \<Rightarrow> bool" where
  "third_follows b c =
     (if b = 0xE0 then 0xA0 \<le> c \<and> c \<le> 0xBF else if b = 0xED then 0x80 \<le> c \<and> c \<le> 0x9F else utf8_cont c)"

definition fourth_follows :: "u8 \<Rightarrow> u8 \<Rightarrow> bool" where
  "fourth_follows b c =
     (if b = 0xF0 then 0x90 \<le> c \<and> c \<le> 0xBF else if b = 0xF4 then 0x80 \<le> c \<and> c \<le> 0x8F else utf8_cont c)"

definition byte_at :: "bytes \<Rightarrow> nat \<Rightarrow> u8" where
  "byte_at s i = (if i < length s then s ! i else 0)"

definition utf8_chunk :: "u8 \<Rightarrow> bytes \<Rightarrow> bool \<times> nat" where
  "utf8_chunk b s =
     (if b < 0x80 then (True, 1)
      else if 0xC2 \<le> b \<and> b \<le> 0xDF then (if utf8_cont (byte_at s 0) then (True, 2) else (False, 1))
      else if 0xE0 \<le> b \<and> b \<le> 0xEF then
        (if \<not> third_follows b (byte_at s 0) then (False, 1)
         else if utf8_cont (byte_at s 1) then (True, 3) else (False, 2))
      else if 0xF0 \<le> b \<and> b \<le> 0xF4 then
        (if \<not> fourth_follows b (byte_at s 0) then (False, 1)
         else if \<not> utf8_cont (byte_at s 1) then (False, 2)
         else if utf8_cont (byte_at s 2) then (True, 4) else (False, 3))
      else (False, 1))"

fun from_utf8_lossy :: "bytes \<Rightarrow> bytes" where
  "from_utf8_lossy [] = []"
| "from_utf8_lossy (b # s) =
     (let (whole, n) = utf8_chunk b s
      in (if whole then b # take (n - 1) s else [0xEF, 0xBF, 0xBD]) @ from_utf8_lossy (drop (n - 1) s))"

lemma from_utf8_lossy_ascii: "\<forall>b \<in> set s. b < 0x80 \<Longrightarrow> from_utf8_lossy s = s"
  by (induction s) (simp_all add: utf8_chunk_def)

section \<open>IP addresses\<close>

text \<open>
  The octets of an IPv4 and the eight groups of an IPv6 address. A reader takes what it can from
  the front; \<open>parse\<close> wants nothing left over.
\<close>

datatype ip_addr = V4 "nat list" | V6 "nat list"

definition read_number :: "nat \<Rightarrow> nat \<Rightarrow> bool \<Rightarrow> nat \<Rightarrow> bytes \<Rightarrow> (nat \<times> bytes) option" where
  "read_number base digits zero_prefix hi s =
     (let ds = takeWhile (\<lambda>c. to_digit base c \<noteq> None) s;
          n = foldl (\<lambda>acc c. acc * base + the (to_digit base c)) 0 ds
      in if ds = [] \<or> length ds > digits \<or> \<not> zero_prefix \<and> hd ds = 0x30 \<and> length ds > 1 \<or> n > hi then None
         else Some (n, drop (length ds) s))"

definition read_separator :: "u8 \<Rightarrow> nat \<Rightarrow> (bytes \<Rightarrow> ('a \<times> bytes) option) \<Rightarrow> bytes \<Rightarrow> ('a \<times> bytes) option" where
  "read_separator sep i inner s =
     (if i = 0 then inner s
      else (case s of c # cs \<Rightarrow> if c = sep then inner cs else None | [] \<Rightarrow> None))"

fun read_octets :: "nat \<Rightarrow> nat \<Rightarrow> bytes \<Rightarrow> (nat list \<times> bytes) option" where
  "read_octets i 0 s = Some ([], s)"
| "read_octets i (Suc left) s =
     (case read_separator 0x2E i (read_number 10 3 False 255) s of
        None \<Rightarrow> None
      | Some (o', r) \<Rightarrow> map_option (\<lambda>(os, r'). (o' # os, r')) (read_octets (i + 1) left r))"

definition read_ipv4_addr :: "bytes \<Rightarrow> (nat list \<times> bytes) option" where
  "read_ipv4_addr s = read_octets 0 4 s"

text \<open>The groups read, whether the last two were an embedded IPv4 address, and the rest.\<close>

fun read_groups :: "nat \<Rightarrow> nat \<Rightarrow> bytes \<Rightarrow> nat list \<times> bool \<times> bytes" where
  "read_groups i 0 s = ([], False, s)"
| "read_groups i (Suc left) s =
     (case (if left > 0 then read_separator 0x3A i read_ipv4_addr s else None) of
        Some (os, r) \<Rightarrow> ([os ! 0 * 256 + os ! 1, os ! 2 * 256 + os ! 3], True, r)
      | None \<Rightarrow>
          (case read_separator 0x3A i (read_number 16 4 True 0xFFFF) s of
             Some (g, r) \<Rightarrow> (let (gs, v4, r') = read_groups (i + 1) left r in (g # gs, v4, r'))
           | None \<Rightarrow> ([], False, s)))"

definition read_ipv6_addr :: "bytes \<Rightarrow> (nat list \<times> bytes) option" where
  "read_ipv6_addr s =
     (let (front, v4, r) = read_groups 0 8 s
      in if length front = 8 then Some (front, r)
         else if v4 then None
         else (case r of
                 a # b # r' \<Rightarrow>
                   if a = 0x3A \<and> b = 0x3A
                   then (let (back, _, r'') = read_groups 0 (8 - (length front + 1)) r'
                         in Some (front @ replicate (8 - length front - length back) 0 @ back, r''))
                   else None
               | _ \<Rightarrow> None))"

definition parse_ipv6 :: "bytes \<Rightarrow> nat list option" where
  "parse_ipv6 s = (case read_ipv6_addr s of Some (gs, []) \<Rightarrow> Some gs | _ \<Rightarrow> None)"

definition parse_ip :: "bytes \<Rightarrow> ip_addr option" where
  "parse_ip s =
     (case read_ipv4_addr s of
        Some (os, r) \<Rightarrow> if r = [] then Some (V4 os) else None
      | None \<Rightarrow> map_option V6 (parse_ipv6 s))"

fun is_loopback :: "ip_addr \<Rightarrow> bool" where
  "is_loopback (V4 os) = (hd os = 127)"
| "is_loopback (V6 gs) = (gs = [0, 0, 0, 0, 0, 0, 0, 1])"

fun is_unspecified :: "ip_addr \<Rightarrow> bool" where
  "is_unspecified (V4 os) = (os = [0, 0, 0, 0])"
| "is_unspecified (V6 gs) = (gs = replicate 8 0)"

lemma read_octets_length: "read_octets i n s = Some (os, r) \<Longrightarrow> length os = n"
  by (induction i n s arbitrary: os r rule: read_octets.induct) (auto split: option.splits)

lemma read_groups_length: "length (fst (read_groups i n s)) \<le> n"
proof (induction n arbitrary: i s)
  case (Suc left)
  show ?case
    using Suc [of "i + 1"] by (cases "left = 0") (auto split: option.split simp: Let_def split_beta)
qed simp

text \<open>An address that parses has its full width.\<close>

lemma parse_ip_width:
  "parse_ip s = Some a \<Longrightarrow> (case a of V4 os \<Rightarrow> length os = 4 | V6 gs \<Rightarrow> length gs = 8)"
proof -
  have "length front + length (fst (read_groups 0 (8 - (length front + 1)) r)) \<le> 8"
    if "length front \<le> 8" "length front \<noteq> 8" for front :: "nat list" and r
    using read_groups_length [of 0 "8 - (length front + 1)" r] that by simp
  then have "length gs = 8" if "read_ipv6_addr s = Some (gs, r)" for gs r
    using that read_groups_length [of 0 8 s]
    by (auto simp: read_ipv6_addr_def Let_def split_beta split: if_splits list.splits)
  then show "parse_ip s = Some a \<Longrightarrow> (case a of V4 os \<Rightarrow> length os = 4 | V6 gs \<Rightarrow> length gs = 8)"
    using read_octets_length [of 0 4 s]
    by (auto simp: parse_ip_def parse_ipv6_def read_ipv4_addr_def split: option.splits if_splits list.splits)
qed

text \<open>A text that begins with neither a hexadecimal digit nor a colon is no address.\<close>

lemma parse_ip_name:
  assumes "to_digit 16 c = None" "c \<noteq> 0x3A"
  shows "parse_ip (c # cs) = None"
proof -
  have ten: "to_digit 10 c = None" using assms(1) by (auto simp: to_digit_def Let_def split: if_splits)
  then have octets: "read_octets 0 (Suc n) (c # cs) = None" for n
    by (simp add: read_separator_def read_number_def)
  have four: "read_ipv4_addr (c # cs) = None"
    unfolding read_ipv4_addr_def using octets [of 3] by simp
  have "read_groups 0 (Suc n) (c # cs) = ([], False, c # cs)" for n
    using four assms(1) by (simp add: read_separator_def read_number_def)
  from this [of 7] have "read_groups 0 8 (c # cs) = ([], False, c # cs)" by simp
  then have "read_ipv6_addr (c # cs) = None"
    using assms(2) by (simp add: read_ipv6_addr_def split: list.split)
  then show ?thesis using four by (simp add: parse_ip_def parse_ipv6_def)
qed

end
