(* ===== verification/Client_Url.thy ===== *)
theory Client_Url
  imports Std_Net
begin

text \<open>
  \<open>crates/ytsaurus-client/src/http.rs\<close>: what the HTTP client reads out of addresses (host, port,
  authority, origin) and how it resolves a \<open>Location\<close> against the address of the request.
\<close>

section \<open>Hosts and ports\<close>

definition SCHEME_SEP :: bytes where "SCHEME_SEP = ascii ''://''"

definition authority_of :: "bytes \<Rightarrow> bytes" where
  "authority_of base =
     (let authority = before_any (ascii ''/?#'') (case split_once SCHEME_SEP base of Some (_, rest) \<Rightarrow> rest | None \<Rightarrow> base)
      in case rsplit_once (ascii ''@'') authority of Some (_, h) \<Rightarrow> h | None \<Rightarrow> authority)"

definition host_of :: "bytes \<Rightarrow> bytes" where
  "host_of base =
     (let authority = authority_of base
      in case strip_prefix authority (ascii ''['') of
           Some literal \<Rightarrow> before_any (ascii '']'') literal
         | None \<Rightarrow> before_any (ascii '':'') authority)"

definition is_port :: "bytes \<Rightarrow> bool" where
  "is_port port = (port \<noteq> [] \<and> list_all is_digit port)"

definition has_port :: "bytes \<Rightarrow> bool" where
  "has_port authority =
     (case split_once (ascii '']'') authority of
        Some (_, rest) \<Rightarrow> has_prefix rest (ascii '':'')
      | None \<Rightarrow> str_contains authority (ascii '':''))"

definition port_of :: "bytes \<Rightarrow> bytes option" where
  "port_of base =
     (let authority = authority_of base;
          port = (case split_once (ascii '']'') authority of
                    Some (_, rest) \<Rightarrow> strip_prefix rest (ascii '':'')
                  | None \<Rightarrow> map_option snd (split_once (ascii '':'') authority))
      in case port of Some p \<Rightarrow> if is_port p then Some p else None | None \<Rightarrow> None)"

definition is_authority :: "bytes \<Rightarrow> bool" where
  "is_authority host =
     (case strip_prefix host (ascii ''['') of
        Some rest \<Rightarrow>
          (case split_once (ascii '']'') rest of
             Some (literal, tail) \<Rightarrow>
               parse_ipv6 literal \<noteq> None \<and>
               (tail = [] \<or> (case strip_prefix tail (ascii '':'') of Some p \<Rightarrow> is_port p | None \<Rightarrow> False))
           | None \<Rightarrow> False)
      | None \<Rightarrow>
          (case split_once (ascii '':'') host of
             Some (name, port) \<Rightarrow> name \<noteq> [] \<and> is_port port
           | None \<Rightarrow> True))"

definition is_local :: "bytes \<Rightarrow> bool" where
  "is_local base =
     (let host = host_of base
      in case parse_ip host of
           Some address \<Rightarrow> is_loopback address \<or> is_unspecified address
         | None \<Rightarrow> eq_ignore_ascii_case host (ascii ''localhost''))"

section \<open>Locations\<close>

definition is_scheme_char :: "u8 \<Rightarrow> bool" where
  "is_scheme_char c = (is_alnum c \<or> c \<in> set (ascii ''+-.''))"

definition has_scheme :: "bytes \<Rightarrow> bool" where
  "has_scheme url =
     (case split_once (ascii '':'') url of
        None \<Rightarrow> False
      | Some (scheme, _) \<Rightarrow> scheme \<noteq> [] \<and> is_alpha (hd scheme) \<and> list_all is_scheme_char scheme)"

text \<open>The part of a reference after the authority that a relative location replaces.\<close>

definition resolve_in :: "bytes \<Rightarrow> bytes \<Rightarrow> bytes" where
  "resolve_in target location =
     (let base = before_any (ascii ''#'') target;
          path = before_any (ascii ''?'') base
      in if has_prefix location (ascii ''#'') then base @ location
         else if has_prefix location (ascii ''?'') then path @ location
         else (case rsplit_once (ascii ''/'') path of Some (head, _) \<Rightarrow> head | None \<Rightarrow> []) @ ascii ''/'' @ location)"

definition resolve :: "bytes \<Rightarrow> bytes \<Rightarrow> bytes option" where
  "resolve request loc =
     (let location = trim loc
      in if location = [] then None
         else if has_scheme location then Some location
         else (case split_once SCHEME_SEP request of
                 None \<Rightarrow> None
               | Some (scheme, rest) \<Rightarrow>
                   (let authority = before_any (ascii ''/?#'') rest;
                        target = from_any (ascii ''/?#'') rest
                    in if authority = [] then None
                       else (case strip_prefix location (ascii ''//'') of
                               Some elsewhere \<Rightarrow> Some (scheme @ SCHEME_SEP @ elsewhere)
                             | None \<Rightarrow>
                                 if has_prefix location (ascii ''/'') then Some (scheme @ SCHEME_SEP @ authority @ location)
                                 else Some (scheme @ SCHEME_SEP @ authority @ resolve_in target location)))))"

text \<open>Scheme, host and port. A scheme the client does not speak has no origin.\<close>

definition default_port :: "bytes \<Rightarrow> nat option" where
  "default_port scheme =
     (if scheme = ascii ''http'' then Some 80 else if scheme = ascii ''https'' then Some 443 else None)"

definition origin_authority :: "bytes \<Rightarrow> nat \<Rightarrow> bytes \<Rightarrow> (bytes \<times> nat) option" where
  "origin_authority authority port0 host_port =
     (case (case rsplit_once (ascii '':'') host_port of
              Some (host, given) \<Rightarrow>
                if is_port given then map_option (Pair host) (parse_unsigned 10 65535 given)
                else Some (host_port, port0)
            | None \<Rightarrow> Some (host_port, port0)) of
        Some (host, port) \<Rightarrow> if host = [] then None else Some (to_ascii_lowercase host, port)
      | None \<Rightarrow> None)"

definition origin :: "bytes \<Rightarrow> (bytes \<times> bytes \<times> nat) option" where
  "origin url =
     (case split_once SCHEME_SEP url of
        None \<Rightarrow> None
      | Some (scheme0, rest) \<Rightarrow>
          (let scheme = to_ascii_lowercase scheme0
           in case default_port scheme of
                None \<Rightarrow> None
              | Some port0 \<Rightarrow>
                  (let authority = before_any (ascii ''/?#'') rest;
                       host_port = (case rsplit_once (ascii ''@'') authority of Some (_, h) \<Rightarrow> h | None \<Rightarrow> authority)
                   in map_option (Pair scheme) (origin_authority authority port0 host_port))))"

definition same_origin :: "bytes \<Rightarrow> bytes \<Rightarrow> bool" where
  "same_origin one other =
     (case (origin one, origin other) of (Some a, Some b) \<Rightarrow> a = b | _ \<Rightarrow> False)"

section \<open>Lemmas\<close>

text \<open>The characters the lemmas compare, as bytes.\<close>

lemma url_bytes:
  "ascii ''/?#'' = [0x2F, 0x3F, 0x23]" "ascii ''/'' = [0x2F]" "ascii ''?'' = [0x3F]" "ascii ''#'' = [0x23]"
  "ascii ''//'' = [0x2F, 0x2F]"
  by (simp_all add: ascii_def)

lemma same_origin_iff: "same_origin u v \<longleftrightarrow> origin u \<noteq> None \<and> origin u = origin v"
  by (auto simp: same_origin_def split: option.split)

lemma same_origin_trans: "same_origin u v \<Longrightarrow> same_origin v w \<Longrightarrow> same_origin u w"
  unfolding same_origin_iff by metis

lemma same_origin_sym: "same_origin u v \<longleftrightarrow> same_origin v u"
  unfolding same_origin_iff by metis

lemma split_once_rest:
  "pat \<noteq> [] \<Longrightarrow> split_once pat s = Some (a, b) \<Longrightarrow> split_once pat (a @ pat @ b') = Some (a, b')"
proof (induction s arbitrary: a b)
  case (Cons c cs)
  note pat = \<open>pat \<noteq> []\<close>
  show ?case
  proof (cases "take (length pat) (c # cs) = pat")
    case True
    then have [simp]: "a = []" using Cons.prems by simp
    show ?thesis using pat by (cases pat) auto
  next
    case False
    then obtain a' where a: "a = c # a'" and a': "split_once pat cs = Some (a', b)"
      using Cons.prems by (auto split: if_splits)
    have "cs = a' @ pat @ b" using split_once_Some [OF a'] .
    then have "take (length pat) (c # a' @ pat @ b') \<noteq> pat"
      using False by (cases "length pat") (auto simp: take_Cons')
    then show ?thesis using Cons.IH [OF pat a'] by (simp add: a)
  qed
qed simp

lemma before_any_append: "set a \<inter> set cs = {} \<Longrightarrow> s = [] \<or> hd s \<in> set cs \<Longrightarrow> before_any cs (a @ s) = a"
  unfolding before_any_def by (cases s) (auto simp: takeWhile_append disjoint_iff)

lemma before_any_disjoint [simp]: "set (before_any cs s) \<inter> set cs = {}"
  unfolding before_any_def by (auto dest: set_takeWhileD)

lemma from_any_hd: "from_any cs s \<noteq> [] \<Longrightarrow> hd (from_any cs s) \<in> set cs"
  unfolding from_any_def by (metis hd_dropWhile)

text \<open>Replacing what follows the authority does not change the origin.\<close>

lemma origin_authority_only:
  assumes "split_once SCHEME_SEP url = Some (scheme, rest)" "r = [] \<or> hd r \<in> set (ascii ''/?#'')"
  shows "origin (scheme @ SCHEME_SEP @ before_any (ascii ''/?#'') rest @ r) = origin url"
proof -
  have "split_once SCHEME_SEP (scheme @ SCHEME_SEP @ before_any (ascii ''/?#'') rest @ r) =
      Some (scheme, before_any (ascii ''/?#'') rest @ r)"
    using split_once_rest [OF _ assms(1)] by (simp add: SCHEME_SEP_def ascii_def)
  moreover have "before_any (ascii ''/?#'') (before_any (ascii ''/?#'') rest @ r) = before_any (ascii ''/?#'') rest"
    using assms(2) by (intro before_any_append) simp_all
  ultimately show ?thesis using assms(1) by (simp only: origin_def option.case prod.case Let_def)
qed

lemma before_any_hd: "before_any cs s \<noteq> [] \<Longrightarrow> hd (before_any cs s) = hd s"
  unfolding before_any_def by (cases s) auto

lemma resolve_in_hd:
  assumes "target = [] \<or> hd target \<in> set (ascii ''/?#'')"
  shows "hd (resolve_in target location) \<in> set (ascii ''/?#'')"
proof -
  define base where "base = before_any (ascii ''#'') target"
  define path where "path = before_any (ascii ''?'') base"
  have base: "base = [] \<or> hd base \<in> set (ascii ''/?#'')"
    using assms before_any_hd [of "ascii ''#''" target] unfolding base_def by (metis before_any_def takeWhile.simps(1))
  then have path: "path = [] \<or> hd path \<in> set (ascii ''/?#'')"
    using before_any_hd [of "ascii ''?''" base] unfolding path_def by (metis before_any_def takeWhile.simps(1))
  have slash: "rsplit_once (ascii ''/'') path = Some (h, x) \<Longrightarrow> h = [] \<or> hd h \<in> set (ascii ''/?#'')" for h x
    using path by (cases h) (auto simp: rsplit_once_char_Some url_bytes)
  show ?thesis
    using base path slash
    unfolding resolve_in_def Let_def base_def [symmetric] path_def [symmetric]
    by (cases "rsplit_once (ascii ''/'') path") (auto simp: has_prefix_iff hd_append url_bytes)
qed

text \<open>
  A location with no scheme and no authority of its own stays on the origin of the request.
\<close>

lemma relative_location_stays:
  assumes "resolve url loc = Some next'" "\<not> has_scheme (trim loc)" "\<not> has_prefix (trim loc) (ascii ''//'')"
  shows "origin next' = origin url"
proof -
  obtain scheme rest where split: "split_once SCHEME_SEP url = Some (scheme, rest)"
    using assms(1,2) by (auto simp: resolve_def Let_def split: if_splits option.splits)
  have target: "from_any (ascii ''/?#'') rest = [] \<or> hd (from_any (ascii ''/?#'') rest) \<in> set (ascii ''/?#'')"
    using from_any_hd by blast
  obtain r where "next' = scheme @ SCHEME_SEP @ before_any (ascii ''/?#'') rest @ r" "hd r \<in> set (ascii ''/?#'')"
    using assms split resolve_in_hd [OF target]
    by (auto simp: resolve_def Let_def strip_prefix_def has_prefix_iff url_bytes split: if_splits)
  then show ?thesis using origin_authority_only [OF split] by metis
qed

end
