(* ===== verification/Client_Error.thy ===== *)
theory Client_Error
  imports Client_Url Yson_Types
begin

text \<open>
  \<open>crates/ytsaurus-client/src/error.rs\<close>: what a client call fails with, and how the cluster's error
  document becomes an error. The document is JSON; the JSON parser is a parameter, which answers
  what a text denotes, or nothing when it is not JSON.
\<close>

section \<open>Error documents\<close>

datatype json =
    J_null
  | J_bool bool
  | J_integer int
  | J_float f64
  | J_string bytes
  | J_array "json list"
  | J_object "(bytes \<times> json) list"

type_synonym json_parser = "bytes \<Rightarrow> json option"

fun json_get :: "json \<Rightarrow> bytes \<Rightarrow> json option" where
  "json_get (J_object m) key = map_of m key"
| "json_get _ key = None"

fun json_as_i64 :: "json \<Rightarrow> int option" where
  "json_as_i64 (J_integer n) = (if - (2 ^ 63) \<le> n \<and> n < 2 ^ 63 then Some n else None)"
| "json_as_i64 _ = None"

fun json_as_str :: "json \<Rightarrow> bytes option" where
  "json_as_str (J_string s) = Some s"
| "json_as_str _ = None"

fun json_as_array :: "json \<Rightarrow> json list option" where
  "json_as_array (J_array xs) = Some xs"
| "json_as_array _ = None"

text \<open>The errors directly under a document.\<close>

definition inner_errors :: "json \<Rightarrow> json list option" where
  "inner_errors v = Option.bind (json_get v (ascii ''inner_errors'')) json_as_array"

lemma size_map_of: "map_of m k = Some (v :: json) \<Longrightarrow> size v < Suc (size_list (size_prod (\<lambda>_. 0) size) m)"
  by (induction m) (auto split: if_splits)

lemma size_inner_errors: "inner_errors v = Some xs \<Longrightarrow> x \<in> set xs \<Longrightarrow> size x < size v"
proof -
  assume "inner_errors v = Some xs" "x \<in> set xs"
  then obtain m where m: "v = J_object m" "map_of m (ascii ''inner_errors'') = Some (J_array xs)"
    by (auto simp: inner_errors_def Option.bind_eq_Some_conv elim!: json_get.elims json_as_array.elims)
  have "size x < size (J_array xs)" using \<open>x \<in> set xs\<close> by (simp add: size_list_estimation' less_Suc_eq_le)
  then show "size x < size v" using size_map_of [OF m(2)] m(1) by simp
qed

function innermost_message :: "json \<Rightarrow> bytes option" where
  "innermost_message v =
     (case inner_errors v of
        Some (first # _) \<Rightarrow>
          (case innermost_message first of
             Some m \<Rightarrow> Some m
           | None \<Rightarrow> Option.bind (json_get first (ascii ''message'')) json_as_str)
      | _ \<Rightarrow> None)"
  by pat_completeness auto
termination innermost_message
  by (relation "measure size") (auto dest: size_inner_errors)

declare innermost_message.simps [simp del]

section \<open>Errors\<close>

text \<open>What the HTTP library reports: an I/O error, whether its kind is \<open>InvalidData\<close>, and its text; or one of its own.\<close>

datatype transport_error =
    Io_error bool bytes
  | Timeout_global
  | Body_exceeds_limit u64
  | Other_error bytes

datatype redirect_refusal = Credentials | Body | Payload | TooMany

record job_failure =
  jf_id :: bytes
  jf_address :: "bytes option"
  jf_error :: "bytes option"
  jf_stderr :: "bytes option"

datatype client_error =
    Transport bytes transport_error
  | Cluster bytes int bytes bytes
  | Http bytes nat bytes
  | Redirected bytes nat bytes redirect_refusal bool
  | Decode bytes bytes
  | ResponseTooLarge bytes u64
  | BatchInterrupted "(client_error + yson_value) list" nat client_error
  | Io bytes bytes
  | OperationFailed bytes bytes "bytes option" "job_failure list"
  | NotAWorker bytes bytes
  | Config bytes

text \<open>A string cut to a number of bytes, at a character boundary, with a note of its length.\<close>

fun boundary_below :: "bytes \<Rightarrow> nat \<Rightarrow> nat" where
  "boundary_below s 0 = 0"
| "boundary_below s (Suc n) = (if utf8_cont (byte_at s (Suc n)) then boundary_below s n else Suc n)"

definition truncate_text :: "bytes \<Rightarrow> nat \<Rightarrow> bytes" where
  "truncate_text s limit =
     (if length s \<le> limit then s
      else take (boundary_below s limit) s @ [0xE2, 0x80, 0xA6] @ ascii '' ('' @ fmt_unsigned (length s) @ ascii '' bytes total)'')"

function boundary_above :: "bytes \<Rightarrow> nat \<Rightarrow> nat" where
  "boundary_above s n = (if n < length s \<and> utf8_cont (byte_at s n) then boundary_above s (Suc n) else n)"
  by pat_completeness auto
termination boundary_above
  by (relation "measure (\<lambda>(s, n). length s - n)") auto

declare boundary_above.simps [simp del]

definition tail_text :: "bytes \<Rightarrow> nat \<Rightarrow> bytes" where
  "tail_text s limit =
     (if length s \<le> limit then s
      else
        (let start = boundary_above s (length s - limit)
         in [0xE2, 0x80, 0xA6] @ ascii '' ('' @ fmt_unsigned (length s) @ ascii '' bytes total, last '' @
            fmt_unsigned (length s - start) @ ascii '' shown)'' @ [0x0A] @ drop start s))"

definition from_yt_error :: "json_parser \<Rightarrow> bytes \<Rightarrow> nat \<Rightarrow> bytes \<Rightarrow> client_error" where
  "from_yt_error parse command status raw =
     (case parse raw of
        Some v \<Rightarrow>
          (let code = (case Option.bind (json_get v (ascii ''code'')) json_as_i64 of Some c \<Rightarrow> c | None \<Rightarrow> - 1);
               message = (case Option.bind (json_get v (ascii ''message'')) json_as_str of
                            Some m \<Rightarrow> m | None \<Rightarrow> ascii ''(no message)'')
           in Cluster command code
                (case innermost_message v of
                   Some inner \<Rightarrow> if inner \<noteq> message then message @ ascii '': '' @ inner else message
                 | None \<Rightarrow> message)
                raw)
      | None \<Rightarrow> Http command status (truncate_text raw 400))"

section \<open>Lemmas\<close>

lemma boundary_below_le: "boundary_below s n \<le> n"
  by (induction s n rule: boundary_below.induct) auto

lemma boundary_below_boundary: "0 < boundary_below s n \<Longrightarrow> \<not> utf8_cont (byte_at s (boundary_below s n))"
  by (induction s n rule: boundary_below.induct) auto

lemma boundary_above_ge: "n \<le> boundary_above s n"
proof (induction s n rule: boundary_above.induct)
  case (1 s n)
  then show ?case by (subst boundary_above.simps) auto
qed

lemma truncate_text_keeps: "length s \<le> limit \<Longrightarrow> truncate_text s limit = s"
  by (simp add: truncate_text_def)

end
