(* ===== verification/Client_Retry.thy ===== *)
theory Client_Retry
  imports Client_Error
begin

text \<open>
  \<open>crates/ytsaurus-client/src/retry.rs\<close>: which failures are worth repeating, how long to wait, and
  the loop that repeats a command. The action is a parameter: what the attempt with a given number
  does and answers, told whether it is a retry. A duration is a number of nanoseconds.
\<close>

section \<open>Classification\<close>

datatype repeatable = Freely | WithMutationId | Never | Heavy

definition RETRIABLE_CODES :: "int list" where
  "RETRIABLE_CODES = [3, 100, 105, 108, 904, 2100]"

definition RETRIABLE_STATUSES :: "nat list" where
  "RETRIABLE_STATUSES = [429, 500, 502, 503, 504]"

definition CERTIFICATE_VERDICT :: bytes where
  "CERTIFICATE_VERDICT = ascii ''invalid peer certificate: ''"

definition SETTLED_REJECTIONS :: "bytes list" where
  "SETTLED_REJECTIONS = [ascii ''UnknownIssuer'', ascii ''NotValidForName'', ascii ''certificate not valid for name '']"

definition CONTROL_REFUSAL :: bytes where
  "CONTROL_REFUSAL = ascii ''may not serve heavy requests''"

fun settled_certificate_verdict :: "transport_error \<Rightarrow> bytes option" where
  "settled_certificate_verdict (Io_error invalid_data message) =
     (if \<not> invalid_data then None
      else (case split_once CERTIFICATE_VERDICT message of
              None \<Rightarrow> None
            | Some (_, reason) \<Rightarrow> find (\<lambda>settled. has_prefix reason settled) SETTLED_REJECTIONS))"
| "settled_certificate_verdict _ = None"

definition rejected_the_certificate :: "transport_error \<Rightarrow> bool" where
  "rejected_the_certificate e = (settled_certificate_verdict e \<noteq> None)"

text \<open>The walk over an error document: its own code, then every error nested under it.\<close>

definition own_code :: "json \<Rightarrow> int option" where
  "own_code v = Option.bind (json_get v (ascii ''code'')) json_as_i64"

function contains_code :: "int list \<Rightarrow> json \<Rightarrow> bool" where
  "contains_code wanted v =
     ((case own_code v of Some c \<Rightarrow> c \<in> set wanted | None \<Rightarrow> False) \<or>
      (case inner_errors v of Some xs \<Rightarrow> list_ex (contains_code wanted) xs | None \<Rightarrow> False))"
  by pat_completeness auto
termination contains_code
  by (relation "measure (\<lambda>(_, v). size v)") (auto dest: size_inner_errors)

declare contains_code.simps [simp del]

definition raw_contains_code :: "json_parser \<Rightarrow> bytes \<Rightarrow> int list \<Rightarrow> bool" where
  "raw_contains_code parse raw wanted = (case parse raw of Some v \<Rightarrow> contains_code wanted v | None \<Rightarrow> False)"

fun is_retriable :: "json_parser \<Rightarrow> client_error \<Rightarrow> bool" where
  "is_retriable parse (Transport _ source) = (\<not> rejected_the_certificate source)"
| "is_retriable parse (Http _ status _) = (status \<in> set RETRIABLE_STATUSES)"
| "is_retriable parse (Cluster _ code _ raw) =
     (code \<in> set RETRIABLE_CODES \<or> raw_contains_code parse raw RETRIABLE_CODES)"
| "is_retriable parse _ = False"

fun refused_for_being_the_wrong_proxy :: "client_error \<Rightarrow> bool" where
  "refused_for_being_the_wrong_proxy (Cluster _ _ message _) = str_contains message CONTROL_REFUSAL"
| "refused_for_being_the_wrong_proxy _ = False"

fun is_redirected :: "client_error \<Rightarrow> bool" where
  "is_redirected (Redirected _ _ _ _ _) = True"
| "is_redirected _ = False"

definition worth_asking_again :: "json_parser \<Rightarrow> client_error \<Rightarrow> bool" where
  "worth_asking_again parse e =
     (is_retriable parse e \<or> refused_for_being_the_wrong_proxy e \<or> is_redirected e)"

definition attributable_to_the_host :: "json_parser \<Rightarrow> client_error \<Rightarrow> bool" where
  "attributable_to_the_host parse e =
     ((case e of Transport _ source \<Rightarrow> rejected_the_certificate source | _ \<Rightarrow> False) \<or> worth_asking_again parse e)"

text \<open>The errors of a document: itself and, recursively, those under it.\<close>

inductive nested_in :: "json \<Rightarrow> json \<Rightarrow> bool" where
  itself: "nested_in v v"
| under: "inner_errors v = Some xs \<Longrightarrow> x \<in> set xs \<Longrightarrow> nested_in e x \<Longrightarrow> nested_in e v"

inductive_cases nested_inE: "nested_in e v"

lemma nested_in_iff:
  "nested_in e v \<longleftrightarrow> e = v \<or> (\<exists>xs x. inner_errors v = Some xs \<and> x \<in> set xs \<and> nested_in e x)"
  by (metis nested_in.cases nested_in.itself nested_in.under)

lemma contains_code_iff:
  "contains_code wanted v \<longleftrightarrow> (\<exists>e c. nested_in e v \<and> own_code e = Some c \<and> c \<in> set wanted)"
proof (induction wanted v rule: contains_code.induct)
  case (1 wanted v)
  have own: "(case own_code v of Some c \<Rightarrow> c \<in> set wanted | None \<Rightarrow> False) \<longleftrightarrow>
      (\<exists>c. own_code v = Some c \<and> c \<in> set wanted)"
    by (cases "own_code v") simp_all
  have inner: "(case inner_errors v of Some xs \<Rightarrow> list_ex (contains_code wanted) xs | None \<Rightarrow> False) \<longleftrightarrow>
      (\<exists>xs x e c. inner_errors v = Some xs \<and> x \<in> set xs \<and> nested_in e x \<and> own_code e = Some c \<and> c \<in> set wanted)"
  proof (cases "inner_errors v")
    case (Some xs)
    then show ?thesis using 1 [OF Some] by (auto simp: list_ex_iff)
  qed simp
  have "contains_code wanted v \<longleftrightarrow> (\<exists>c. own_code v = Some c \<and> c \<in> set wanted) \<or>
      (\<exists>xs x e c. inner_errors v = Some xs \<and> x \<in> set xs \<and> nested_in e x \<and> own_code e = Some c \<and> c \<in> set wanted)"
    by (subst contains_code.simps) (simp only: own inner)
  also have "\<dots> \<longleftrightarrow> (\<exists>e c. nested_in e v \<and> own_code e = Some c \<and> c \<in> set wanted)"
    by (subst nested_in_iff [of _ v]) blast
  finally show ?case .
qed

section \<open>The policy\<close>

definition DURATION_MAX :: nat where "DURATION_MAX = 2 ^ 64 * 1000000000 - 1"

definition U32_MAX :: nat where "U32_MAX = 2 ^ 32 - 1"

record retry_policy =
  rp_attempts :: nat
  rp_initial_backoff :: nat
  rp_max_backoff :: nat
  rp_report :: bool

text \<open>The values the Rust types can hold, and at least one attempt.\<close>

definition policy_wf :: "retry_policy \<Rightarrow> bool" where
  "policy_wf p = (1 \<le> rp_attempts p \<and> rp_attempts p \<le> U32_MAX \<and> rp_initial_backoff p \<le> DURATION_MAX \<and>
     rp_max_backoff p \<le> DURATION_MAX)"

definition policy_default :: retry_policy where
  "policy_default = \<lparr>rp_attempts = 5, rp_initial_backoff = 1000000000, rp_max_backoff = 10000000000, rp_report = True\<rparr>"

definition policy_new :: "nat \<Rightarrow> nat \<Rightarrow> nat \<Rightarrow> retry_policy" where
  "policy_new attempts initial_backoff max_backoff =
     \<lparr>rp_attempts = max attempts 1, rp_initial_backoff = initial_backoff, rp_max_backoff = max_backoff, rp_report = True\<rparr>"

definition policy_none :: retry_policy where
  "policy_none = policy_new 1 0 0"

definition policy_quiet :: "retry_policy \<Rightarrow> retry_policy" where
  "policy_quiet p = p\<lparr>rp_report := False\<rparr>"

definition policy_loud :: "retry_policy \<Rightarrow> retry_policy" where
  "policy_loud p = p\<lparr>rp_report := True\<rparr>"

definition checked_shl_one :: "nat \<Rightarrow> nat option" where
  "checked_shl_one n = (if n < 32 then Some (2 ^ n) else None)"

definition checked_mul_duration :: "nat \<Rightarrow> nat \<Rightarrow> nat option" where
  "checked_mul_duration d n = (if d * n \<le> DURATION_MAX then Some (d * n) else None)"

definition backoff :: "retry_policy \<Rightarrow> nat \<Rightarrow> nat" where
  "backoff p attempt =
     (let factor = (case checked_shl_one (attempt - 1) of Some f \<Rightarrow> f | None \<Rightarrow> U32_MAX);
          doubled = (case checked_mul_duration (rp_initial_backoff p) factor of Some d \<Rightarrow> d | None \<Rightarrow> rp_max_backoff p)
      in min doubled (rp_max_backoff p))"

lemma policy_new_wf:
  "attempts \<le> U32_MAX \<Longrightarrow> initial_backoff \<le> DURATION_MAX \<Longrightarrow> max_backoff \<le> DURATION_MAX \<Longrightarrow>
   policy_wf (policy_new attempts initial_backoff max_backoff)"
  by (auto simp: policy_wf_def policy_new_def U32_MAX_def)

section \<open>Mutation ids\<close>

record mutation_id =
  mi_id :: bytes
  mi_retry :: bool

text \<open>The four words of an id in hexadecimal; the two 64-bit draws are given.\<close>

definition generate_id :: "u64 \<Rightarrow> u64 \<Rightarrow> bytes" where
  "generate_id w0 w1 =
     (let hex = (\<lambda>n. radix_digits 16 n);
          hi = (\<lambda>w. hex (unat w div 2 ^ 32));
          lo = (\<lambda>w. hex (unat w mod 2 ^ 32))
      in hi w0 @ ascii ''-'' @ lo w0 @ ascii ''-'' @ hi w1 @ ascii ''-'' @ lo w1)"

definition mutation_new :: "u64 \<Rightarrow> u64 \<Rightarrow> mutation_id" where
  "mutation_new w0 w1 = \<lparr>mi_id = generate_id w0 w1, mi_retry = False\<rparr>"

definition as_retry :: "mutation_id \<Rightarrow> mutation_id" where
  "as_retry m = m\<lparr>mi_retry := True\<rparr>"

section \<open>The loop\<close>

definition allowed_attempts :: "retry_policy \<Rightarrow> repeatable \<Rightarrow> nat" where
  "allowed_attempts p r = (case r of Never \<Rightarrow> 1 | Heavy \<Rightarrow> 1 | _ \<Rightarrow> rp_attempts p)"

text \<open>
  What each attempt did, the waits between the attempts, and the answer. The action is told whether it
  is a retry, and leaves a record of what it did beside its result.
\<close>

function run_from ::
  "json_parser \<Rightarrow> retry_policy \<Rightarrow> nat \<Rightarrow> (nat \<Rightarrow> bool \<Rightarrow> 'l \<times> (client_error + 'a)) \<Rightarrow> nat \<Rightarrow>
     'l list \<times> nat list \<times> (client_error + 'a)" where
  "run_from parse p allowed action attempt =
     (let (did, answered) = action attempt (attempt > 1)
      in case answered of
           Inr v \<Rightarrow> ([did], [], Inr v)
         | Inl e \<Rightarrow>
             if attempt \<ge> allowed \<or> \<not> is_retriable parse e then ([did], [], Inl e)
             else (let (dids, waits, r) = run_from parse p allowed action (attempt + 1)
                   in (did # dids, backoff p attempt # waits, r)))"
  by pat_completeness auto
termination run_from
  by (relation "measure (\<lambda>(_, _, allowed, _, attempt). allowed - attempt)") auto

declare run_from.simps [simp del]

definition retry_run ::
  "json_parser \<Rightarrow> retry_policy \<Rightarrow> repeatable \<Rightarrow> (nat \<Rightarrow> bool \<Rightarrow> 'l \<times> (client_error + 'a)) \<Rightarrow>
     'l list \<times> nat list \<times> (client_error + 'a)" where
  "retry_run parse p r action = run_from parse p (allowed_attempts p r) action 1"

text \<open>An attempt that leaves the loop, and one after which it goes round again.\<close>

definition goes_on :: "json_parser \<Rightarrow> client_error + 'a \<Rightarrow> bool" where
  "goes_on parse x = (case x of Inl e \<Rightarrow> is_retriable parse e | Inr _ \<Rightarrow> False)"

lemma run_from_spec:
  assumes "run_from parse p allowed action attempt = (dids, waits, r)"
  shows "attempt + length waits \<le> max attempt allowed \<and>
    dids = map (\<lambda>i. fst (action (attempt + i) (attempt + i > 1))) [0..<Suc (length waits)] \<and>
    r = snd (action (attempt + length waits) (attempt + length waits > 1)) \<and>
    (\<forall>i < length waits. goes_on parse (snd (action (attempt + i) (attempt + i > 1))) \<and> waits ! i = backoff p (attempt + i)) \<and>
    (allowed \<le> attempt + length waits \<or> \<not> goes_on parse r)"
  using assms
proof (induction parse p allowed action attempt arbitrary: dids waits rule: run_from.induct)
  case (1 parse p allowed action attempt)
  obtain did answered where act: "action attempt (attempt > 1) = (did, answered)" by fastforce
  show ?case
  proof (cases "goes_on parse answered \<and> attempt < allowed")
    case False
    then have "dids = [did] \<and> waits = [] \<and> r = answered"
      using "1.prems" act by (subst (asm) run_from.simps) (auto simp: goes_on_def split: sum.splits if_splits)
    then show ?thesis using False act by auto
  next
    case True
    then obtain e where e: "answered = Inl e" "is_retriable parse e"
      by (auto simp: goes_on_def split: sum.splits)
    then obtain ds ws where ws: "run_from parse p allowed action (attempt + 1) = (ds, ws, r)" "waits = backoff p attempt # ws"
        "dids = did # ds"
      using "1.prems" True act by (subst (asm) run_from.simps) (auto split: prod.splits)
    have *: "attempt + 1 + length ws \<le> max (attempt + 1) allowed" "r = snd (action (attempt + 1 + length ws) (attempt + 1 + length ws > 1))"
      "ds = map (\<lambda>i. fst (action (attempt + 1 + i) (attempt + 1 + i > 1))) [0..<Suc (length ws)]"
      "\<forall>i < length ws. goes_on parse (snd (action (attempt + 1 + i) (attempt + 1 + i > 1))) \<and> ws ! i = backoff p (attempt + 1 + i)"
      "allowed \<le> attempt + 1 + length ws \<or> \<not> goes_on parse r"
      using "1.IH" [OF refl act [symmetric] e(1) _ ws(1)] True e(2) by (auto simp del: upt_Suc)
    have "goes_on parse (snd (action (attempt + i) (attempt + i > 1))) \<and> waits ! i = backoff p (attempt + i)"
      if "i < length waits" for i
      using that *(4) True ws(2) act e by (cases i) (auto simp: goes_on_def)
    moreover have "dids = map (\<lambda>i. fst (action (attempt + i) (attempt + i > 1))) [0..<Suc (length waits)]"
      using *(3) ws(2,3) act by (simp add: map_upt_Suc del: upt_Suc)
    ultimately show ?thesis using *(1,2,5) ws(2) True by (auto simp del: upt_Suc)
  qed
qed

lemma backoff_eq:
  assumes "policy_wf p" "1 \<le> attempt"
  shows "backoff p attempt = min (rp_initial_backoff p * min (2 ^ (attempt - 1)) U32_MAX) (rp_max_backoff p)"
proof -
  have "(case checked_shl_one (attempt - 1) of Some f \<Rightarrow> f | None \<Rightarrow> U32_MAX) = min (2 ^ (attempt - 1)) U32_MAX"
  proof (cases "attempt - 1 < 32")
    case True
    then have "(2::nat) ^ (attempt - 1) \<le> 2 ^ 31" by (intro power_increasing) simp_all
    then show ?thesis using True by (simp add: checked_shl_one_def U32_MAX_def min_def)
  next
    case False
    then have "(2::nat) ^ 32 \<le> 2 ^ (attempt - 1)" by (intro power_increasing) simp_all
    then show ?thesis using False by (simp add: checked_shl_one_def U32_MAX_def min_def)
  qed
  then show ?thesis using assms
    by (auto simp: backoff_def Let_def checked_mul_duration_def policy_wf_def min_def split: option.split)
qed

lemma backoff_le_max: "backoff p attempt \<le> rp_max_backoff p"
  by (simp add: backoff_def Let_def)

lemma sum_list_le_bound: "(\<forall>x \<in> set xs. x \<le> (b :: nat)) \<Longrightarrow> sum_list xs \<le> length xs * b"
  by (induction xs) auto

lemma allowed_pos: "policy_wf p \<Longrightarrow> 1 \<le> allowed_attempts p r"
  by (auto simp: allowed_attempts_def policy_wf_def split: repeatable.split)

section \<open>Properties\<close>

text \<open>C8: the retry loop sends a command at least once and at most as often as the policy and the
  kind of the command allow: a heavy or unrepeatable command exactly once, any other at most
  \<open>attempts\<close> times. It goes on after retriable failures only, the first attempt is not marked as a
  retry and all others are, what it did is what those attempts did, it answers with the last
  attempt, and it stops early only on a success or a failure that is not retriable. All the waits together are at most
  \<open>attempts - 1\<close> times the longest wait.\<close>

theorem retry_run_spec:
  assumes "policy_wf p" "retry_run parse p r action = (dids, waits, x)"
  shows "length waits < allowed_attempts p r \<and> (r = Never \<or> r = Heavy \<longrightarrow> waits = []) \<and>
    dids = map (\<lambda>i. fst (action (Suc i) (i > 0))) [0..<Suc (length waits)] \<and>
    x = snd (action (Suc (length waits)) (waits \<noteq> [])) \<and>
    (\<forall>i < length waits. goes_on parse (snd (action (Suc i) (i > 0)))) \<and>
    (Suc (length waits) = allowed_attempts p r \<or> \<not> goes_on parse x) \<and>
    sum_list waits \<le> (rp_attempts p - 1) * rp_max_backoff p"
proof -
  note spec = run_from_spec [OF assms(2) [unfolded retry_run_def]]
  then have len: "length waits < allowed_attempts p r" using allowed_pos [OF assms(1), of r] by simp
  have "allowed_attempts p r \<le> rp_attempts p"
    using assms(1) by (auto simp: allowed_attempts_def policy_wf_def split: repeatable.split)
  moreover have "sum_list waits \<le> length waits * rp_max_backoff p"
    using spec backoff_le_max by (intro sum_list_le_bound) (metis in_set_conv_nth)
  moreover have "length waits * rp_max_backoff p \<le> (rp_attempts p - 1) * rp_max_backoff p"
    using len calculation(1) by (intro mult_right_mono) auto
  moreover have "r = Never \<or> r = Heavy \<longrightarrow> waits = []" using len by (auto simp: allowed_attempts_def)
  ultimately have "sum_list waits \<le> (rp_attempts p - 1) * rp_max_backoff p" "r = Never \<or> r = Heavy \<longrightarrow> waits = []"
    by (blast intro: le_trans)+
  then show ?thesis using spec len by (auto simp del: upt_Suc)
qed

lemma retry_run_spec_witness:
  "retry_run (\<lambda>_. None) policy_default Freely (\<lambda>n again. ((n, again), if n < 3 then Inl (Http [] 503 []) else Inr again)) =
     ([(1, False), (2, True), (3, True)], [1000000000, 2000000000], Inr True) \<and>
   sum_list [1000000000, 2000000000 :: nat] \<le> 4 * 10000000000"
proof -
  have run: "retry_run (\<lambda>_. None) policy_default Freely (\<lambda>n again. ((n, again), if n < 3 then Inl (Http [] 503 []) else Inr again)) =
     ([(1, False), (2, True), (3, True)], [1000000000, 2000000000], Inr True)"
    by (simp add: retry_run_def allowed_attempts_def policy_default_def RETRIABLE_STATUSES_def backoff_def
        checked_shl_one_def checked_mul_duration_def DURATION_MAX_def run_from.simps)
  have wf: "policy_wf policy_default" by (simp add: policy_wf_def policy_default_def U32_MAX_def DURATION_MAX_def)
  show ?thesis using retry_run_spec [OF wf run] run by (simp add: policy_default_def)
qed

text \<open>The wait after the \<open>n\<close>-th failure is the initial wait doubled \<open>n - 1\<close> times and capped, with
  the factor saturated where 32 bits end; it never overflows and never shrinks.\<close>

theorem backoff_saturates:
  assumes "policy_wf p" "1 \<le> n"
  shows "backoff p n = min (rp_initial_backoff p * min (2 ^ (n - 1)) U32_MAX) (rp_max_backoff p)
    \<and> backoff p n \<le> backoff p (Suc n)"
proof -
  have "min (2 ^ (n - 1)) U32_MAX \<le> min (2 ^ (Suc n - 1)) U32_MAX"
    using power_increasing [of "n - 1" "Suc n - 1" "2 :: nat"] by (simp add: min_le_iff_disj le_SucI)
  then have "rp_initial_backoff p * min (2 ^ (n - 1)) U32_MAX \<le> rp_initial_backoff p * min (2 ^ (Suc n - 1)) U32_MAX"
    by (rule mult_left_mono) simp
  then show ?thesis using backoff_eq [OF assms] backoff_eq [OF assms(1), of "Suc n"] by (auto simp: min_le_iff_disj)
qed

lemma backoff_saturates_witness:
  "backoff policy_default 4 = 8000000000 \<and> backoff policy_default 5 = 10000000000 \<and>
   backoff policy_default 5 \<le> backoff policy_default 6"
proof -
  have wf: "policy_wf policy_default" by (simp add: policy_wf_def policy_default_def U32_MAX_def DURATION_MAX_def)
  show ?thesis using backoff_saturates [OF wf, of 4] backoff_saturates [OF wf, of 5]
    by (simp add: policy_default_def U32_MAX_def)
qed

end
