(* ===== verification/Client_Transport.thy ===== *)
theory Client_Transport
  imports Client_Retry Yson_Ser
begin

text \<open>
  \<open>crates/ytsaurus-client/src/http.rs\<close>: the transport, a configured connection to one cluster, with
  its setters; the transaction stamp; the capped reader of response bodies. The address the
  cluster named for heavy commands, which clones of a transport share under a lock, is a state of
  its own. Clock readings are given, in nanoseconds.
\<close>

section \<open>Commands\<close>

definition HEAVY :: "bytes list" where
  "HEAVY = map ascii [''read_table'', ''write_table'', ''read_file'', ''write_file'', ''read_blob_table'',
     ''get_job_input'', ''get_job_stderr'', ''lookup_rows'', ''select_rows'', ''insert_rows'', ''delete_rows'']"

definition is_heavy :: "bytes \<Rightarrow> bool" where
  "is_heavy command = (command \<in> set HEAVY)"

definition NO_TRANSACTION :: "bytes list" where
  "NO_TRANSACTION = map ascii [''execute_batch'', ''get_operation'', ''list_operations'', ''list_operation_events'',
     ''abort_operation'', ''complete_operation'', ''suspend_operation'', ''resume_operation'',
     ''update_operation_parameters'', ''list_jobs'', ''get_job'', ''get_job_stderr'', ''get_job_input'',
     ''abort_job'', ''poll_job_shell'']"

definition takes_no_transaction :: "bytes \<Rightarrow> bool" where
  "takes_no_transaction command = (command \<in> set NO_TRANSACTION)"

definition TRANSACTION_ID :: bytes where "TRANSACTION_ID = ascii ''transaction_id''"

section \<open>The transport\<close>

datatype heavy_hosts =
    SameDomain
  | Under (under_domains: "bytes list") (under_ignored: "bytes list")
  | Anywhere
  | Only "bytes list"

record heavy_pool =
  hp_hosts :: "bytes list"
  hp_fetched :: nat

datatype heavy_proxy =
    Unasked
  | Pool heavy_pool
  | Configured nat
  | FellBack "nat option"

definition HOSTS_TIMEOUT :: nat where "HOSTS_TIMEOUT = 800000000"
definition HOSTS_RETRY_AFTER :: nat where "HOSTS_RETRY_AFTER = 10000000000"
definition HOST_LIST_REFRESH_INTERVAL :: nat where "HOST_LIST_REFRESH_INTERVAL = 60000000000"
definition RESPONSE_LIMIT :: nat where "RESPONSE_LIMIT = 512 * 1024 * 1024"

text \<open>\<open>tr_tls\<close> is whether the crate was built with its \<open>tls\<close> feature.\<close>

record transport =
  tr_base :: bytes
  tr_discovery :: bool
  tr_hosts :: heavy_hosts
  tr_hosts_timeout :: nat
  tr_hosts_retry_after :: nat
  tr_host_list_refresh :: nat
  tr_token :: "bytes option"
  tr_retries :: retry_policy
  tr_timeout :: nat
  tr_response_limit :: nat
  tr_transaction :: "bytes option"
  tr_trace :: "bytes option"
  tr_tracestate :: "bytes option"
  tr_caller :: "(bytes \<times> bytes) list"
  tr_tls_refused :: "bytes option"
  tr_tls :: bool

definition render_caller_headers :: "transport \<Rightarrow> transport" where
  "render_caller_headers t =
     t\<lparr>tr_caller :=
         (case tr_token t of Some token \<Rightarrow> [(ascii ''Authorization'', ascii ''OAuth '' @ token)] | None \<Rightarrow> []) @
         (case tr_trace t of Some trace \<Rightarrow> [(ascii ''traceparent'', trace)] | None \<Rightarrow> []) @
         (case (tr_trace t, tr_tracestate t) of
            (Some _, Some state) \<Rightarrow> [(ascii ''tracestate'', state)]
          | _ \<Rightarrow> [])\<rparr>"

definition base_url :: "bytes \<Rightarrow> bytes" where
  "base_url proxy =
     (if has_prefix proxy (ascii ''http://'') \<or> has_prefix proxy (ascii ''https://'')
      then trim_end_char 0x2F proxy
      else ascii ''https://'' @ trim_end_char 0x2F proxy)"

text \<open>What the environment decides is given: whether the process is a job, and the TLS configuration.\<close>

definition transport_new :: "bool \<Rightarrow> bool \<Rightarrow> bytes option \<Rightarrow> bytes \<Rightarrow> bytes option \<Rightarrow> nat \<Rightarrow> transport \<times> heavy_proxy" where
  "transport_new tls in_job tls_refused proxy token timeout =
     (render_caller_headers
       \<lparr>tr_base = base_url proxy, tr_discovery = \<not> is_local (base_url proxy), tr_hosts = SameDomain,
        tr_hosts_timeout = HOSTS_TIMEOUT, tr_hosts_retry_after = HOSTS_RETRY_AFTER,
        tr_host_list_refresh = HOST_LIST_REFRESH_INTERVAL, tr_token = token,
        tr_retries = (if in_job then policy_quiet policy_default else policy_default), tr_timeout = timeout,
        tr_response_limit = RESPONSE_LIMIT, tr_transaction = None, tr_trace = None, tr_tracestate = None,
        tr_caller = [], tr_tls_refused = tls_refused, tr_tls = tls\<rparr>, Unasked)"

text \<open>A setter of the routing rules also forgets what was resolved under the old ones.\<close>

definition set_proxy_discovery :: "bool \<Rightarrow> transport \<Rightarrow> transport \<times> heavy_proxy" where
  "set_proxy_discovery enabled t = (t\<lparr>tr_discovery := enabled\<rparr>, Unasked)"

definition set_heavy_proxies_anywhere :: "bool \<Rightarrow> transport \<Rightarrow> transport \<times> heavy_proxy" where
  "set_heavy_proxies_anywhere enabled t =
     (t\<lparr>tr_hosts := (if enabled then Anywhere else SameDomain)\<rparr>, Unasked)"

definition set_heavy_proxies_in :: "bytes list \<Rightarrow> transport \<Rightarrow> transport \<times> heavy_proxy" where
  "set_heavy_proxies_in names t = (t\<lparr>tr_hosts := Only names\<rparr>, Unasked)"

definition normalised_domain :: "bytes \<Rightarrow> bytes" where
  "normalised_domain domain =
     to_ascii_lowercase (trim_matches 0x2E (trim_start_matches 0x2A (host_of (trim domain))))"

definition push_new :: "bytes \<Rightarrow> bytes list \<Rightarrow> bytes list" where
  "push_new v xs = (if v \<in> set xs then xs else xs @ [v])"

fun sort_domains :: "bytes list \<Rightarrow> bytes list \<Rightarrow> bytes list \<Rightarrow> bytes list \<times> bytes list" where
  "sort_domains kept ignored [] = (kept, ignored)"
| "sort_domains kept ignored (domain # rest) =
     (let normalised = normalised_domain domain
      in if normalised = [] then sort_domains kept ignored rest
         else if str_contains normalised (ascii ''.'') then sort_domains (push_new normalised kept) ignored rest
         else sort_domains kept (push_new (trim domain) ignored) rest)"

definition set_heavy_proxies_under :: "bytes list \<Rightarrow> transport \<Rightarrow> transport \<times> heavy_proxy" where
  "set_heavy_proxies_under domains t =
     (let (kept, ignored) = sort_domains [] [] domains in (t\<lparr>tr_hosts := Under kept ignored\<rparr>, Unasked))"

definition set_trace :: "bytes \<Rightarrow> bytes option \<Rightarrow> transport \<Rightarrow> transport" where
  "set_trace header state t = render_caller_headers (t\<lparr>tr_trace := Some header, tr_tracestate := state\<rparr>)"

section \<open>Guards and clocks\<close>

definition tls_unavailable :: "transport \<Rightarrow> bytes \<Rightarrow> client_error option" where
  "tls_unavailable t base =
     (if \<not> tr_tls t \<and> has_prefix base (ascii ''https://'')
      then Some (Config (base @ ascii '' needs TLS, and this build has none: the `tls` feature of ytsaurus-client is off. Enable it, or use an http:// proxy.''))
      else None)"

definition unusable :: "transport \<Rightarrow> bytes \<Rightarrow> client_error option" where
  "unusable t base =
     (case tls_unavailable t base of
        Some e \<Rightarrow> Some e
      | None \<Rightarrow>
          (case tr_tls_refused t of
             Some why \<Rightarrow> if has_prefix base (ascii ''https://'') then Some (Config why) else None
           | None \<Rightarrow> None))"

text \<open>The largest \<open>Instant\<close>, counted as the clock is.\<close>

definition INSTANT_MAX :: nat where "INSTANT_MAX = 2 ^ 63 * 1000000000 - 1"

definition instant_add :: "nat \<Rightarrow> nat \<Rightarrow> nat option" where
  "instant_add now d = (if now + d \<le> INSTANT_MAX then Some (now + d) else None)"

definition deadline_for :: "transport \<Rightarrow> bool \<Rightarrow> nat \<Rightarrow> nat option" where
  "deadline_for t streaming now = (if streaming then None else instant_add now (tr_timeout t))"

definition remaining :: "nat option \<Rightarrow> bytes \<Rightarrow> nat \<Rightarrow> client_error + nat option" where
  "remaining deadline command now =
     (case deadline of
        None \<Rightarrow> Inr None
      | Some d \<Rightarrow> if now < d then Inr (Some (d - now)) else Inl (Transport command Timeout_global))"

section \<open>Transactions\<close>

text \<open>\<open>yson_build::insert\<close>: into a dict. The callers pass nothing else; the code panics on it.\<close>

definition yson_insert :: "yson_value \<Rightarrow> bytes \<Rightarrow> yson_value \<Rightarrow> yson_value option" where
  "yson_insert target key v =
     (case node target of
        Map m \<Rightarrow> Some (YsonValue (attributes target) (Map (btree_insert key v m)))
      | _ \<Rightarrow> None)"

definition yson_str :: "bytes \<Rightarrow> yson_value" where "yson_str s = plain (String s)"
definition yson_boolean :: "bool \<Rightarrow> yson_value" where "yson_boolean b = plain (Boolean b)"
definition yson_int :: "i64 \<Rightarrow> yson_value" where "yson_int i = plain (Int64 i)"
definition yson_uint :: "u64 \<Rightarrow> yson_value" where "yson_uint u = plain (Uint64 u)"
definition yson_double :: "f64 \<Rightarrow> yson_value" where "yson_double d = plain (Double d)"
definition yson_list :: "yson_value list \<Rightarrow> yson_value" where "yson_list vs = plain (List vs)"

definition yson_map :: "(bytes \<times> yson_value) list \<Rightarrow> yson_value" where
  "yson_map entries = plain (Map (btree_extend [] entries))"

definition yson_empty_map :: yson_value where "yson_empty_map = plain (Map [])"

text \<open>\<open>yson_build::with_attributes\<close>: the attributes given replace those of the value.\<close>

definition yson_with_attributes :: "yson_value \<Rightarrow> (bytes \<times> yson_value) list \<Rightarrow> yson_value" where
  "yson_with_attributes v new =
     (let attrs = btree_extend [] new
      in YsonValue (if attrs = [] then None else Some attrs) (node v))"

definition binary_yson_format :: yson_value where
  "binary_yson_format = yson_with_attributes (yson_str (ascii ''yson'')) [(ascii ''format'', yson_str (ascii ''binary''))]"

definition names_transaction :: "yson_value \<Rightarrow> bool" where
  "names_transaction parameters =
     (case node parameters of Map m \<Rightarrow> map_of m TRANSACTION_ID \<noteq> None | _ \<Rightarrow> False)"

text \<open>\<open>None\<close>: nothing to add. \<open>Some None\<close>: a panic, for parameters that are not a dict.\<close>

definition in_transaction :: "transport \<Rightarrow> bytes \<Rightarrow> yson_value \<Rightarrow> yson_value option option" where
  "in_transaction t command parameters =
     (case tr_transaction t of
        None \<Rightarrow> None
      | Some i \<Rightarrow>
          if takes_no_transaction command \<or> names_transaction parameters then None
          else Some (yson_insert parameters TRANSACTION_ID (yson_str i)))"

section \<open>Response bodies\<close>

text \<open>
  What a body answers to reads: data (a read with less room leaves the rest), an interruption,
  or an error; the list ends where the body does.
\<close>

datatype body_read = Data bytes | Interrupted | Failed_read transport_error

type_synonym body = "body_read list"

definition U64_MAX :: nat where "U64_MAX = 2 ^ 64 - 1"

text \<open>\<open>CapReader::read\<close> into a buffer: the bytes, the rest of the body and what is left of the cap.\<close>

fun cap_read :: "nat \<Rightarrow> nat \<Rightarrow> body \<Rightarrow> nat \<Rightarrow> body_read \<times> body \<times> nat" where
  "cap_read limit left [] buf = (Data [], [], left)"
| "cap_read limit left (Interrupted # rest) buf = (Interrupted, rest, left)"
| "cap_read limit left (Failed_read e # rest) buf = (Failed_read e, rest, left)"
| "cap_read limit left (Data bs # rest) buf =
     (let room = min (min (left + 1) U64_MAX) buf;
          got = take room bs;
          rest' = (if drop room bs = [] then rest else Data (drop room bs) # rest)
      in if length got > left then (Failed_read (Body_exceeds_limit (of_nat limit)), rest', left)
         else (Data got, rest', left - length got))"

definition body_bytes :: "body \<Rightarrow> nat" where
  "body_bytes body = sum_list (map (\<lambda>r. case r of Data bs \<Rightarrow> length bs | _ \<Rightarrow> 0) body)"

lemma cap_read_decreases:
  "cap_read limit left body buf = (Data got, body', left') \<Longrightarrow> got \<noteq> [] \<Longrightarrow> body_bytes body' < body_bytes body"
  "cap_read limit left body buf = (Interrupted, body', left') \<Longrightarrow>
     body_bytes body' = body_bytes body \<and> length body' < length body"
  by (induction limit left body buf rule: cap_read.induct) (auto simp: body_bytes_def Let_def split: if_splits)

text \<open>\<open>read_to_end\<close>: the \<open>i\<close>-th read has a buffer of some size above 0; a read of 0 bytes is the end.\<close>

function read_to_end :: "(nat \<Rightarrow> nat) \<Rightarrow> nat \<Rightarrow> nat \<Rightarrow> nat \<Rightarrow> body \<Rightarrow> bytes \<Rightarrow> transport_error + bytes" where
  "read_to_end bufs i limit left body acc =
     (case cap_read limit left body (Suc (bufs i)) of
        (Data got, body', left') \<Rightarrow>
          if got = [] then Inr acc else read_to_end bufs (Suc i) limit left' body' (acc @ got)
      | (Interrupted, body', left') \<Rightarrow> read_to_end bufs (Suc i) limit left' body' acc
      | (Failed_read e, _, _) \<Rightarrow> Inl e)"
  by pat_completeness auto
termination read_to_end
proof (relation "measures [\<lambda>(_, _, _, _, body, _). body_bytes body, \<lambda>(_, _, _, _, body, _). length body]", goal_cases)
  case (2 bufs i limit left body acc r s got body' left')
  then show ?case using cap_read_decreases(1) [of limit left body "Suc (bufs i)" got body' left'] by simp
next
  case (3 bufs i limit left body acc r s body' left')
  then show ?case using cap_read_decreases(2) [of limit left body "Suc (bufs i)" body' left'] by simp
qed simp

declare read_to_end.simps [simp del]

definition wire_budget :: "nat \<Rightarrow> nat" where
  "wire_budget limit =
     min (min (min (limit + limit div 8) U64_MAX + limit div 64) U64_MAX + 64) U64_MAX"

definition body_failure :: "bytes \<Rightarrow> nat \<Rightarrow> transport_error \<Rightarrow> client_error" where
  "body_failure command limit e =
     (case e of Body_exceeds_limit _ \<Rightarrow> ResponseTooLarge command (of_nat limit) | _ \<Rightarrow> Transport command e)"

text \<open>The body is the decoder's output, which the HTTP library stops after \<open>wire_budget limit\<close> bytes of the wire.\<close>

definition read_capped :: "(nat \<Rightarrow> nat) \<Rightarrow> bytes \<Rightarrow> body \<Rightarrow> nat \<Rightarrow> client_error + bytes" where
  "read_capped bufs command body limit =
     (case read_to_end bufs 0 limit limit body [] of
        Inl e \<Rightarrow> Inl (body_failure command limit e)
      | Inr bs \<Rightarrow> Inr bs)"

end
