(* ===== verification/Client_Dispatch.thy ===== *)
theory Client_Dispatch
  imports Client_Transport
begin

text \<open>
  \<open>crates/ytsaurus-client/src/http.rs\<close>: one attempt of a command. What becomes of a redirect, the
  loop that sends a request and follows redirects, and the ways its response is consumed. The
  network is a parameter: what the \<open>n\<close>-th request of an attempt is answered with. The clock is
  read before each request.
\<close>

section \<open>Requests and responses\<close>

datatype http_method = Get | Post | Put

datatype outgoing_body = Empty | Bytes bytes | Stream bytes

fun replayable :: "outgoing_body \<Rightarrow> bool" where
  "replayable (Stream _) = False"
| "replayable _ = True"

fun carries_data :: "outgoing_body \<Rightarrow> bool" where
  "carries_data Empty = False"
| "carries_data (Bytes bs) = (bs \<noteq> [])"
| "carries_data (Stream _) = True"

text \<open>
  A request as it is put on the wire: a GET has no body. The limit is what is left of the
  deadline; a streaming request is bounded in each phase instead.
\<close>

record http_request =
  rqs_url :: bytes
  rqs_method :: http_method
  rqs_headers :: "(bytes \<times> bytes) list"
  rqs_body :: outgoing_body
  rqs_limit :: "nat option"

record http_response =
  rs_status :: nat
  rs_location :: "bytes option"
  rs_error :: "bytes option"
  rs_body :: body
  rs_text :: "transport_error + bytes"

type_synonym network = "nat \<Rightarrow> http_request \<Rightarrow> transport_error + http_response"
type_synonym clock = "nat \<Rightarrow> nat"

definition MAX_REDIRECTS :: nat where "MAX_REDIRECTS = 10"

section \<open>Redirects\<close>

definition redirect ::
  "transport \<Rightarrow> bytes \<Rightarrow> http_response \<Rightarrow> bytes \<Rightarrow> outgoing_body \<Rightarrow> nat \<Rightarrow> client_error + bytes option" where
  "redirect t command response request_url body hops =
     (if \<not> (300 \<le> rs_status response \<and> rs_status response < 400) then Inr None
      else (case rs_location response of
              None \<Rightarrow> Inr None
            | Some location \<Rightarrow>
                (case resolve request_url location of
                   None \<Rightarrow> Inr None
                 | Some target \<Rightarrow>
                     (let refused = (\<lambda>refusal. Inl (Redirected command (rs_status response) target refusal (is_heavy command)));
                          elsewhere = (\<not> same_origin request_url target)
                      in if tr_token t \<noteq> None \<and> elsewhere then refused Credentials
                         else if \<not> replayable body then refused Body
                         else if elsewhere \<and> carries_data body then refused Payload
                         else if hops \<ge> MAX_REDIRECTS then refused TooMany
                         else Inr (Some target)))))"

lemma redirect_follows:
  assumes "redirect t command response url body hops = Inr (Some next')"
  shows "hops < MAX_REDIRECTS" "replayable body"
    "tr_token t \<noteq> None \<or> carries_data body \<Longrightarrow> same_origin url next'"
  using assms by (auto simp: redirect_def Let_def split: if_splits option.splits)

section \<open>The request loop\<close>

definition make_request ::
  "bytes \<Rightarrow> http_method \<Rightarrow> (bytes \<times> bytes) list \<Rightarrow> outgoing_body \<Rightarrow> nat option \<Rightarrow> http_request" where
  "make_request url verb hdrs body left =
     \<lparr>rqs_url = url, rqs_method = verb, rqs_headers = hdrs,
      rqs_body = (if verb = Get then Empty else body), rqs_limit = left\<rparr>"

text \<open>The requests sent and the response, or the error. \<open>guard\<close> is the check of the next address.\<close>

function request_loop ::
  "transport \<Rightarrow> network \<Rightarrow> clock \<Rightarrow> (bytes \<Rightarrow> client_error option) \<Rightarrow> bytes \<Rightarrow> http_method \<Rightarrow>
     (bytes \<times> bytes) list \<Rightarrow> outgoing_body \<Rightarrow> nat option \<Rightarrow> bytes \<Rightarrow> nat \<Rightarrow>
     http_request list \<times> (client_error + http_response)" where
  "request_loop t net clock guard command verb hdrs body deadline url hops =
     (case remaining deadline command (clock hops) of
        Inl e \<Rightarrow> ([], Inl e)
      | Inr left \<Rightarrow>
          (let request = make_request url verb hdrs body left
           in case net hops request of
                Inl e \<Rightarrow> ([request], Inl (Transport command e))
              | Inr response \<Rightarrow>
                  (case redirect t command response url body hops of
                     Inl e \<Rightarrow> ([request], Inl e)
                   | Inr None \<Rightarrow> ([request], Inr response)
                   | Inr (Some next') \<Rightarrow>
                       (case guard next' of
                          Some e \<Rightarrow> ([request], Inl e)
                        | None \<Rightarrow>
                            (let (requests, r) =
                                   request_loop t net clock guard command verb hdrs body deadline next' (hops + 1)
                             in (request # requests, r))))))"
  by pat_completeness auto
termination request_loop
  by (relation "measure (\<lambda>(_, _, _, _, _, _, _, _, _, _, hops). MAX_REDIRECTS - hops)")
    (auto dest: redirect_follows(1))

declare request_loop.simps [simp del]

definition command_headers :: "transport \<Rightarrow> bytes \<Rightarrow> (bytes \<times> bytes) list" where
  "command_headers t encoded =
     [(ascii ''X-YT-Header-Format'', ascii ''<format=text>yson''), (ascii ''X-YT-Parameters'', encoded),
      (ascii ''X-YT-Output-Format'', ascii ''<format=text>yson''), (ascii ''Content-Type'', ascii ''application/octet-stream'')] @
     tr_caller t"

definition command_url :: "bytes \<Rightarrow> bytes \<Rightarrow> bytes" where
  "command_url base command = base @ ascii ''/api/v4/'' @ command"

text \<open>The text of a failed encoding is not modelled.\<close>

definition dispatch ::
  "json_parser \<Rightarrow> formatters \<Rightarrow> transport \<Rightarrow> network \<Rightarrow> clock \<Rightarrow> bytes \<Rightarrow> http_method \<Rightarrow> bytes \<Rightarrow> yson_value \<Rightarrow>
     outgoing_body \<Rightarrow> bool \<Rightarrow> http_request list \<times> (client_error + http_response)" where
  "dispatch parse fmt t net clock base verb command parameters body streaming =
     (case unusable t base of
        Some e \<Rightarrow> ([], Inl e)
      | None \<Rightarrow>
          (case to_string fmt (value_serde parameters) Text of
             Inl _ \<Rightarrow> ([], Inl (Decode command (ascii ''could not encode parameters'')))
           | Inr encoded \<Rightarrow>
               (let (requests, r) =
                      request_loop t net clock (tls_unavailable t) command verb (command_headers t encoded) body
                        (deadline_for t streaming (clock 0)) (command_url base command) 0
                in (requests,
                    and_then r (\<lambda>response.
                      case rs_error response of
                        Some raw \<Rightarrow> Inl (from_yt_error parse command (rs_status response) raw)
                      | None \<Rightarrow> Inr response)))))"

definition fetch ::
  "json_parser \<Rightarrow> transport \<Rightarrow> network \<Rightarrow> clock \<Rightarrow> bytes \<Rightarrow> bytes \<Rightarrow> http_request list \<times> (client_error + bytes)" where
  "fetch parse t net clock path what =
     (case unusable t (tr_base t) of
        Some e \<Rightarrow> ([], Inl e)
      | None \<Rightarrow>
          (let (requests, r) =
                 request_loop t net clock (unusable t) what Get (tr_caller t) Empty
                   (instant_add (clock 0) (tr_hosts_timeout t)) (tr_base t @ path) 0
           in (requests,
               and_then r (\<lambda>response.
                 case rs_text response of
                   Inl e \<Rightarrow> Inl (Transport what e)
                 | Inr text \<Rightarrow>
                     if 200 \<le> rs_status response \<and> rs_status response < 300 then Inr text
                     else Inl (Http what (rs_status response) (truncate_text text 400))))))"

section \<open>Consuming the response\<close>

definition is_success :: "http_response \<Rightarrow> bool" where
  "is_success r = (200 \<le> rs_status r \<and> rs_status r < 300)"

definition status_error :: "bytes \<Rightarrow> http_response \<Rightarrow> bytes \<Rightarrow> client_error" where
  "status_error command response body =
     Http command (rs_status response) (truncate_text (from_utf8_lossy body) 400)"

definition send ::
  "json_parser \<Rightarrow> formatters \<Rightarrow> (nat \<Rightarrow> nat) \<Rightarrow> transport \<Rightarrow> network \<Rightarrow> clock \<Rightarrow> bytes \<Rightarrow> http_method \<Rightarrow> bytes \<Rightarrow>
     yson_value \<Rightarrow> bytes option \<Rightarrow> http_request list \<times> (client_error + bytes)" where
  "send parse fmt bufs t net clock base verb command parameters payload =
     (let (requests, r) = dispatch parse fmt t net clock base verb command parameters
            (Bytes (case payload of None \<Rightarrow> [] | Some bs \<Rightarrow> bs)) False
      in (requests,
          and_then r (\<lambda>response.
            and_then (read_capped bufs command (rs_body response) (tr_response_limit t)) (\<lambda>body.
              if is_success response then Inr body else Inl (status_error command response body)))))"

text \<open>\<open>open\<close> hands the body back unread; a failed one it reads as text, and takes for empty if it cannot.\<close>

definition open_body ::
  "json_parser \<Rightarrow> formatters \<Rightarrow> transport \<Rightarrow> network \<Rightarrow> clock \<Rightarrow> bytes \<Rightarrow> http_method \<Rightarrow> bytes \<Rightarrow> yson_value \<Rightarrow>
     http_request list \<times> (client_error + body)" where
  "open_body parse fmt t net clock base verb command parameters =
     (let (requests, r) = dispatch parse fmt t net clock base verb command parameters Empty True
      in (requests,
          and_then r (\<lambda>response.
            if is_success response then Inr (rs_body response)
            else Inl (Http command (rs_status response)
              (truncate_text (case rs_text response of Inr text \<Rightarrow> text | Inl _ \<Rightarrow> []) 400)))))"

fun is_too_large :: "client_error \<Rightarrow> bool" where
  "is_too_large (ResponseTooLarge _ _) = True"
| "is_too_large _ = False"

definition upload_once ::
  "json_parser \<Rightarrow> formatters \<Rightarrow> (nat \<Rightarrow> nat) \<Rightarrow> transport \<Rightarrow> network \<Rightarrow> clock \<Rightarrow> bytes \<Rightarrow> http_method \<Rightarrow> bytes \<Rightarrow>
     yson_value \<Rightarrow> bytes \<Rightarrow> http_request list \<times> (client_error + bytes)" where
  "upload_once parse fmt bufs t net clock base verb command parameters rows =
     (let (requests, r) = dispatch parse fmt t net clock base verb command parameters (Stream rows) True
      in (requests,
          and_then r (\<lambda>response.
            and_then (case read_capped bufs command (rs_body response) (tr_response_limit t) of
                        Inr body \<Rightarrow> Inr body
                      | Inl e \<Rightarrow> if is_too_large e then Inl e else Inr []) (\<lambda>body.
              if is_success response then Inr body else Inl (status_error command response body)))))"

end
