(* ===== verification/Client_Confinement.thy ===== *)
theory Client_Confinement
  imports Client_Dispatch
begin

text \<open>
  Where a request can go: what the loop over redirects sends, to which addresses, and how often;
  and what the capped reader of a response body returns.
\<close>

section \<open>The request loop\<close>

text \<open>The hops of one attempt: the first request goes to the given address, each further one to an address the rules allow.\<close>

definition confined ::
  "transport \<Rightarrow> clock \<Rightarrow> http_method \<Rightarrow> (bytes \<times> bytes) list \<Rightarrow> outgoing_body \<Rightarrow> nat option \<Rightarrow> bytes \<Rightarrow> nat \<Rightarrow>
     http_request list \<Rightarrow> bool" where
  "confined t clock verb hdrs body deadline url hops rs =
     (length rs \<le> Suc (MAX_REDIRECTS - hops) \<and>
      (\<not> replayable body \<longrightarrow> length rs \<le> 1) \<and>
      (\<forall>i < length rs.
         rs ! i = make_request (rqs_url (rs ! i)) verb hdrs body (map_option (\<lambda>d. d - clock (hops + i)) deadline) \<and>
         (i = 0 \<longrightarrow> rqs_url (rs ! i) = url) \<and>
         (tr_token t \<noteq> None \<or> carries_data body \<longrightarrow> rqs_url (rs ! i) = url \<or> same_origin url (rqs_url (rs ! i)))))"

lemma confined_Nil [simp]: "confined t clock verb hdrs body deadline url hops []"
  by (simp add: confined_def)

lemma confined_single:
  "remaining deadline command (clock hops) = Inr left \<Longrightarrow>
   confined t clock verb hdrs body deadline url hops [make_request url verb hdrs body left]"
  by (auto simp: confined_def make_request_def remaining_def split: option.splits if_splits)

lemma confined_Cons:
  assumes "confined t clock verb hdrs body deadline next' (Suc hops) rs"
    and "remaining deadline command (clock hops) = Inr left"
    and "redirect t command response url body hops = Inr (Some next')"
  shows "confined t clock verb hdrs body deadline url hops (make_request url verb hdrs body left # rs)"
proof -
  note follows = redirect_follows [OF assms(3)]
  have left: "left = map_option (\<lambda>d. d - clock hops) deadline"
    using assms(2) by (auto simp: remaining_def split: option.splits if_splits)
  have len: "length rs \<le> MAX_REDIRECTS - hops" using assms(1) follows(1) by (simp add: confined_def Suc_diff_Suc)
  have step: "rs ! i = make_request (rqs_url (rs ! i)) verb hdrs body (map_option (\<lambda>d. d - clock (hops + Suc i)) deadline)
      \<and> (tr_token t \<noteq> None \<or> carries_data body \<longrightarrow> same_origin url (rqs_url (rs ! i)))" if "i < length rs" for i
  proof -
    have "tr_token t \<noteq> None \<or> carries_data body \<longrightarrow> rqs_url (rs ! i) = next' \<or> same_origin next' (rqs_url (rs ! i))"
      using assms(1) that by (simp add: confined_def)
    then have "tr_token t \<noteq> None \<or> carries_data body \<longrightarrow> same_origin url (rqs_url (rs ! i))"
      using follows(3) same_origin_trans by metis
    then show ?thesis using assms(1) that by (simp add: confined_def)
  qed
  have "(make_request url verb hdrs body left # rs) ! i =
      make_request (rqs_url ((make_request url verb hdrs body left # rs) ! i)) verb hdrs body
        (map_option (\<lambda>d. d - clock (hops + i)) deadline) \<and>
      (i = 0 \<longrightarrow> rqs_url ((make_request url verb hdrs body left # rs) ! i) = url) \<and>
      (tr_token t \<noteq> None \<or> carries_data body \<longrightarrow> rqs_url ((make_request url verb hdrs body left # rs) ! i) = url \<or>
        same_origin url (rqs_url ((make_request url verb hdrs body left # rs) ! i)))"
    if "i < Suc (length rs)" for i
    using that step [of "i - 1"] left by (cases i) (simp_all add: make_request_def)
  then show ?thesis using len follows(2) by (simp add: confined_def)
qed

lemma request_loop_confined:
  "request_loop t net clock guard command verb hdrs body deadline url hops = (rs, r) \<Longrightarrow>
   confined t clock verb hdrs body deadline url hops rs"
proof (induction t net clock guard command verb hdrs body deadline url hops arbitrary: rs r
    rule: request_loop.induct)
  case (1 t net clock guard command verb hdrs body deadline url hops)
  show ?case
  proof (cases "remaining deadline command (clock hops)")
    case (Inl e)
    then show ?thesis using "1.prems" by (subst (asm) request_loop.simps) auto
  next
    case left: (Inr left)
    let ?request = "make_request url verb hdrs body left"
    show ?thesis
    proof (cases "\<exists>response next'. net hops ?request = Inr response \<and>
        redirect t command response url body hops = Inr (Some next') \<and> guard next' = None")
      case False
      then have "rs = [?request]"
        using "1.prems" left
        by (subst (asm) request_loop.simps) (auto simp: Let_def split: sum.splits option.splits prod.splits)
      then show ?thesis using confined_single [where clock = clock and hops = hops, OF left] by simp
    next
      case True
      then obtain response next' where *: "net hops ?request = Inr response"
          "redirect t command response url body hops = Inr (Some next')" "guard next' = None" by blast
      obtain rs' r' where rec: "request_loop t net clock guard command verb hdrs body deadline next' (hops + 1) = (rs', r')"
        by fastforce
      then have "rs = ?request # rs'"
        using "1.prems" left * by (subst (asm) request_loop.simps) (simp add: Let_def)
      then show ?thesis
        using confined_Cons [where clock = clock and hops = hops, OF _ left *(2), where rs = rs'] "1.IH" [OF left refl *(1) *(2) refl *(3) rec] by simp
    qed
  qed
qed

section \<open>Response bodies\<close>

text \<open>What a body holds: the bytes up to its end or its first error.\<close>

fun body_content :: "body \<Rightarrow> bytes \<times> transport_error option" where
  "body_content [] = ([], None)"
| "body_content (Interrupted # r) = body_content r"
| "body_content (Failed_read e # r) = ([], Some e)"
| "body_content (Data bs # r) = (if bs = [] then ([], None) else apfst (append bs) (body_content r))"

lemma cap_read_content:
  assumes "cap_read limit left body (Suc buf) = (x, body', left')"
  shows "case x of
      Data got \<Rightarrow>
        if got = [] then body_content body = ([], None)
        else body_content body = apfst (append got) (body_content body') \<and> left = left' + length got
    | Interrupted \<Rightarrow> body_content body = body_content body' \<and> left' = left
    | Failed_read e \<Rightarrow>
        body_content body = ([], Some e) \<or>
        left < length (fst (body_content body)) \<and> e = Body_exceeds_limit (of_nat limit)"
proof (cases body)
  case (Cons r rest)
  show ?thesis
  proof (cases r)
    case (Data bs)
    show ?thesis
    proof (cases "bs = []")
      case False
      define room where "room = min (min (left + 1) U64_MAX) (Suc buf)"
      have room: "room > 0" by (simp add: room_def U64_MAX_def)
      have content: "body_content body =
          apfst (append (take room bs)) (body_content (if drop room bs = [] then rest else Data (drop room bs) # rest))"
        using False Cons Data by (cases "body_content rest") (auto simp flip: append_assoc)
      let ?rest = "if drop room bs = [] then rest else Data (drop room bs) # rest"
      have read: "cap_read limit left body (Suc buf) =
          (if length (take room bs) > left then (Failed_read (Body_exceeds_limit (of_nat limit)), ?rest, left)
           else (Data (take room bs), ?rest, left - length (take room bs)))"
        by (simp only: Cons Data cap_read.simps Let_def room_def)
      show ?thesis
      proof (cases "left < length (take room bs)")
        case True
        have "length (take room bs) \<le> length (fst (body_content body))" unfolding content by simp
        then show ?thesis using assms read True by auto
      next
        case False
        have "take room bs \<noteq> []" using room \<open>bs \<noteq> []\<close> by simp
        then show ?thesis using assms content False unfolding read if_not_P [OF False] by auto
      qed
    qed (use assms Cons Data in \<open>auto simp: Let_def split: if_splits\<close>)
  qed (use assms Cons in auto)
qed (use assms in auto)

lemma read_to_end_content:
  "read_to_end bufs i limit left body acc =
     (let (bs, e) = body_content body
      in if left < length bs then Inl (Body_exceeds_limit (of_nat limit))
         else (case e of Some e' \<Rightarrow> Inl e' | None \<Rightarrow> Inr (acc @ bs)))"
proof (induction bufs i limit left body acc rule: read_to_end.induct)
  case (1 bufs i limit left body acc)
  obtain x body' left' where read: "cap_read limit left body (Suc (bufs i)) = (x, body', left')"
    by (metis prod_cases3)
  note content = cap_read_content [OF read]
  show ?case
  proof (cases x)
    case (Data got)
    show ?thesis
    proof (cases "got = []")
      case False
      then show ?thesis
        using "1.IH"(1) [OF read [symmetric] Data refl False] content read Data
        by (subst read_to_end.simps) (auto simp: Let_def split_beta split: option.split)
    qed (use content read Data in \<open>subst read_to_end.simps, auto\<close>)
  next
    case Interrupted
    then show ?thesis
      using "1.IH"(2) [OF read [symmetric] Interrupted refl] content read
      by (subst read_to_end.simps) auto
  next
    case (Failed_read e)
    then show ?thesis using content read by (subst read_to_end.simps) (auto simp: split_beta)
  qed
qed

section \<open>Properties\<close>

text \<open>C7: a token never leaves the origin it was addressed to, and neither does data. Whatever the
  network answers, the requests of one attempt of a command all go to the origin of the first one
  when the transport has a token or the body carries data; they are at most eleven, carry the same
  method, headers and body, and share one deadline; and a body that is read as it is sent is sent
  at most once.\<close>

theorem dispatch_confined:
  assumes "fst (dispatch parse fmt t net clock base verb command parameters body streaming) = rs"
  shows "length rs \<le> 11 \<and> (\<not> replayable body \<longrightarrow> length rs \<le> 1) \<and>
    (\<forall>i < length rs. \<exists>encoded.
       rs ! i = make_request (rqs_url (rs ! i)) verb (command_headers t encoded) body
         (map_option (\<lambda>d. d - clock i) (deadline_for t streaming (clock 0))) \<and>
       (i = 0 \<longrightarrow> rqs_url (rs ! i) = command_url base command)) \<and>
    (tr_token t \<noteq> None \<or> carries_data body \<longrightarrow>
       list_all (\<lambda>r. rqs_url r = command_url base command \<or> same_origin (command_url base command) (rqs_url r)) rs)"
proof (cases "rs = []")
  case False
  then obtain encoded where encoded: "to_string fmt (value_serde parameters) Text = Inr encoded" "unusable t base = None"
    using assms by (auto simp: dispatch_def split: option.splits sum.splits)
  then have "confined t clock verb (command_headers t encoded) body (deadline_for t streaming (clock 0))
      (command_url base command) 0 rs"
    using assms by (auto simp: dispatch_def split_beta intro: request_loop_confined [OF prod.collapse [symmetric]])
  then show ?thesis unfolding confined_def MAX_REDIRECTS_def list_all_length by auto
qed simp

text \<open>A cluster that redirects to a path of its own, and then answers.\<close>

definition sample_transport :: "transport" where
  "sample_transport = render_caller_headers
     \<lparr>tr_base = ascii ''https://h.net'', tr_discovery = True, tr_hosts = SameDomain, tr_hosts_timeout = 8,
      tr_hosts_retry_after = 10, tr_host_list_refresh = 60, tr_token = Some (ascii ''t''), tr_retries = policy_none,
      tr_timeout = 9, tr_response_limit = 9, tr_transaction = None, tr_trace = None, tr_tracestate = None,
      tr_caller = [], tr_tls_refused = None, tr_tls = True\<rparr>"

definition sample_response :: "nat \<Rightarrow> bytes option \<Rightarrow> http_response" where
  "sample_response status location =
     \<lparr>rs_status = status, rs_location = location, rs_error = None, rs_body = [], rs_text = Inr []\<rparr>"

definition sample_network :: network where
  "sample_network n r = Inr (if n = 0 then sample_response 307 (Some (ascii ''/api/v4/exists?x'')) else sample_response 200 None)"

definition no_formatters :: formatters where
  "no_formatters = \<lparr>itoa_i64 = (\<lambda>_. []), itoa_u64 = (\<lambda>_. []), ryu_f64 = (\<lambda>_. [])\<rparr>"

definition sample_requests :: "http_request list" where
  "sample_requests = fst (dispatch (\<lambda>_. None) no_formatters sample_transport sample_network (\<lambda>_. 0) (tr_base sample_transport)
     Post (ascii ''exists'') (plain (Map [])) (Bytes [1]) False)"

lemma sample_simps [simp]:
  "tr_token sample_transport = Some (ascii ''t'')" "tr_base sample_transport = ascii ''https://h.net''"
  "tr_timeout sample_transport = 9" "tr_retries sample_transport = policy_none" "tr_tls sample_transport"
  "tr_tls_refused sample_transport = None" "tr_response_limit sample_transport = 9"
  by (simp_all add: sample_transport_def render_caller_headers_def)

lemma sample_resolves:
  "resolve (ascii ''https://h.net/api/v4/exists'') (ascii ''/api/v4/exists?x'') = Some (ascii ''https://h.net/api/v4/exists?x'')"
  "same_origin (ascii ''https://h.net/api/v4/exists'') (ascii ''https://h.net/api/v4/exists?x'')"
  by code_simp+

lemma sample_encodes: "to_string no_formatters (value_serde (plain (Map []))) Text = Inr (ascii ''{}'')"
  by code_simp

lemma sample_urls:
  "map rqs_url sample_requests = [ascii ''https://h.net/api/v4/exists'', ascii ''https://h.net/api/v4/exists?x'']"
proof -
  have url: "command_url (ascii ''https://h.net'') (ascii ''exists'') = ascii ''https://h.net/api/v4/exists''"
    by (simp add: command_url_def ascii_def)
  have two: "map rqs_url (fst (request_loop sample_transport sample_network (\<lambda>_. 0) (\<lambda>_. None) (ascii ''exists'') Post hs
      (Bytes [1]) (Some 9) (ascii ''https://h.net/api/v4/exists'') 0)) =
      [ascii ''https://h.net/api/v4/exists'', ascii ''https://h.net/api/v4/exists?x'']" for hs
    by (subst request_loop.simps, subst request_loop.simps)
      (simp add: remaining_def sample_network_def sample_response_def redirect_def sample_resolves make_request_def
        MAX_REDIRECTS_def split_beta)
  have "unusable sample_transport (ascii ''https://h.net'') = None" "tls_unavailable sample_transport = (\<lambda>_. None)"
    by (simp_all add: unusable_def tls_unavailable_def fun_eq_iff)
  moreover have "deadline_for sample_transport False 0 = Some 9"
    by (simp add: deadline_for_def instant_add_def INSTANT_MAX_def)
  ultimately show ?thesis using two
    by (simp add: sample_requests_def dispatch_def sample_encodes [simplified] split_beta url)
qed

lemma dispatch_confined_witness:
  "list_all (\<lambda>r. rqs_url r = command_url (ascii ''https://h.net'') (ascii ''exists'') \<or>
      same_origin (command_url (ascii ''https://h.net'') (ascii ''exists'')) (rqs_url r)) sample_requests \<and>
   length sample_requests = 2"
  using dispatch_confined [OF sample_requests_def [symmetric]] arg_cong [OF sample_urls, of length] by simp

text \<open>A redirect to a place on the same host is followed. A \<open>Location\<close> with neither a scheme nor a
  host of its own never leaves the origin of the request, token or not, so a request whose body
  can be sent again goes on to it until the limit of hops.\<close>

theorem relative_redirect_followed:
  assumes "300 \<le> rs_status response \<and> rs_status response < 400" "rs_location response = Some location"
    and "resolve url location = Some target" "origin url \<noteq> None"
    and "\<not> has_scheme (trim location)" "\<not> has_prefix (trim location) (ascii ''//'')"
    and "replayable body" "hops < MAX_REDIRECTS"
  shows "redirect t command response url body hops = Inr (Some target) \<and> same_origin url target"
proof -
  have "same_origin url target"
    using relative_location_stays [OF assms(3,5,6)] assms(4) by (simp add: same_origin_iff)
  then show ?thesis using assms(1,2,3,7,8) by (simp add: redirect_def)
qed

lemma relative_redirect_followed_witness:
  "redirect sample_transport (ascii ''exists'') (sample_response 307 (Some (ascii ''/api/v4/exists?x'')))
     (ascii ''https://h.net/api/v4/exists'') (Bytes [1]) 3 = Inr (Some (ascii ''https://h.net/api/v4/exists?x''))"
proof -
  have "\<not> has_scheme (trim (ascii ''/api/v4/exists?x''))" "\<not> has_prefix (trim (ascii ''/api/v4/exists?x'')) (ascii ''//'')"
    by code_simp+
  moreover have "origin (ascii ''https://h.net/api/v4/exists'') \<noteq> None" by code_simp
  ultimately show ?thesis
    using relative_redirect_followed [OF _ _ sample_resolves(1)] by (simp add: sample_response_def MAX_REDIRECTS_def)
qed

text \<open>The memory cap of a response is exact however the reads cut the body: a body of at most
  \<open>limit\<close> decoded bytes is returned whole or fails with its own error, and a longer one is
  \<open>ResponseTooLarge\<close> with the cap, never a truncated answer.\<close>

theorem read_capped_exact:
  "read_capped bufs command body limit =
     (let (bs, e) = body_content body
      in if limit < length bs then Inl (ResponseTooLarge command (of_nat limit))
         else (case e of Some e' \<Rightarrow> Inl (body_failure command limit e') | None \<Rightarrow> Inr bs))"
  by (simp add: read_capped_def read_to_end_content split_beta Let_def body_failure_def split: option.split)

end
