(* ===== verification/Client_Heavy.thy ===== *)
theory Client_Heavy
  imports Client_Confinement Transition
begin

text \<open>
  \<open>crates/ytsaurus-client/src/http.rs\<close>: where a heavy command goes. Which of the names the cluster
  gives are used, the pool they form, and the state the clones of a transport share under a lock.
  One step is what happens under that lock. The texts that announce a refused answer are not
  modelled; which names were refused, and why, is.
\<close>

section \<open>Which names are used\<close>

datatype declined = Malformed | Elsewhere

definition same_name :: "bytes \<Rightarrow> bytes \<Rightarrow> bool" where
  "same_name listed0 discovered =
     (let listed = trim listed0
      in eq_ignore_ascii_case (host_of listed) (host_of discovered) \<and>
         (case (port_of listed, port_of discovered) of (Some l, Some d) \<Rightarrow> l = d | _ \<Rightarrow> True))"

definition same_domain :: "bytes \<Rightarrow> bytes \<Rightarrow> bool" where
  "same_domain configured0 discovered0 =
     (let configured = to_ascii_lowercase configured0;
          discovered = to_ascii_lowercase discovered0;
          under = (\<lambda>domain. discovered = domain \<or> ends_with discovered (ascii ''.'' @ domain))
      in configured = discovered \<or>
         parse_ip configured = None \<and> parse_ip discovered = None \<and>
         (case split_once (ascii ''.'') configured of
            Some (_, parent) \<Rightarrow> if str_contains parent (ascii ''.'') then under parent else under configured
          | None \<Rightarrow> configured \<in> set (tl (split_on 0x2E discovered))))"

definition under_domain :: "bytes \<Rightarrow> bytes \<Rightarrow> bool" where
  "under_domain domain discovered0 =
     (let discovered = to_ascii_lowercase discovered0
      in discovered = domain \<or> ends_with discovered (ascii ''.'' @ domain))"

fun admits :: "heavy_hosts \<Rightarrow> bytes \<Rightarrow> bytes \<Rightarrow> bool" where
  "admits SameDomain configured discovered = same_domain (host_of configured) (host_of discovered)"
| "admits (Under domains _) configured discovered =
     (same_domain (host_of configured) (host_of discovered) \<or>
      list_ex (\<lambda>domain. under_domain domain (host_of discovered)) domains)"
| "admits Anywhere configured discovered = True"
| "admits (Only names) configured discovered = list_ex (\<lambda>name. same_name name discovered) names"

definition heavy_base :: "bytes \<Rightarrow> bytes \<Rightarrow> heavy_hosts \<Rightarrow> declined + bytes" where
  "heavy_base configured host0 allowed =
     (let host = trim host0
      in if host = [] \<or> str_contains host SCHEME_SEP \<or> str_contains host (ascii ''/'') \<or> str_contains host (ascii ''@'') \<or>
            list_ex (\<lambda>c. c \<in> set (ascii ''?#'')) host \<or> has_whitespace host \<or> \<not> is_authority host
         then Inl Malformed
         else if \<not> admits allowed configured host then Inl Elsewhere
         else
           (let scheme = (if has_prefix configured (ascii ''https://'') then ascii ''https://'' else ascii ''http://'')
            in Inr (case (has_port host, port_of configured) of
                      (False, Some port) \<Rightarrow> scheme @ host @ ascii '':'' @ port
                    | _ \<Rightarrow> scheme @ host)))"

section \<open>The pool\<close>

definition pick :: "u64 \<Rightarrow> heavy_pool \<Rightarrow> bytes" where
  "pick draw pool = hp_hosts pool ! (unat draw mod length (hp_hosts pool))"

text \<open>What is left of the pool and whether it survived.\<close>

definition drop_host :: "bytes \<Rightarrow> heavy_pool \<Rightarrow> heavy_pool \<times> bool" where
  "drop_host base pool =
     (let hosts = filter (\<lambda>h. h \<noteq> base) (hp_hosts pool)
      in (pool\<lparr>hp_hosts := hosts\<rparr>, hosts \<noteq> []))"

datatype destination = Discovered bytes | At_configured bytes

fun address :: "destination \<Rightarrow> bytes" where
  "address (Discovered base) = base"
| "address (At_configured base) = base"

text \<open>The answer of \<open>/hosts\<close>: a JSON list of strings.\<close>

fun json_strings :: "json list \<Rightarrow> bytes list option" where
  "json_strings [] = Some []"
| "json_strings (J_string s # xs) = map_option (Cons s) (json_strings xs)"
| "json_strings (_ # xs) = None"

definition heavy_hosts_of :: "json_parser \<Rightarrow> client_error + bytes \<Rightarrow> client_error + bytes list" where
  "heavy_hosts_of parse answer =
     and_then answer (\<lambda>body.
       case Option.bind (Option.bind (parse body) json_as_array) json_strings of
         Some names \<Rightarrow> Inr names
       | None \<Rightarrow> Inl (Decode (ascii ''hosts'') (ascii ''/hosts did not answer with a list of host names'')))"

fun admitted :: "transport \<Rightarrow> bytes list \<Rightarrow> bytes list \<times> (bytes \<times> declined) list" where
  "admitted t [] = ([], [])"
| "admitted t (host # hosts) =
     (let (usable, refused) = admitted t hosts
      in case heavy_base (tr_base t) host (tr_hosts t) of
           Inr base \<Rightarrow> (base # usable, refused)
         | Inl why \<Rightarrow> (usable, (host, why) # refused))"


section \<open>Routing\<close>

text \<open>
  What one routing decision reads from outside: the clock before, during and after a lookup, the
  network that answers its requests if it is made, and the random draw.
\<close>

record routing_input =
  ri_now :: nat
  ri_net :: network
  ri_clock :: clock
  ri_after :: nat
  ri_draw :: u64

text \<open>The lookup: the requests it sends, with the token and the headers of every other, and the names.\<close>

definition heavy_hosts :: "json_parser \<Rightarrow> transport \<Rightarrow> routing_input \<Rightarrow> http_request list \<times> (client_error + bytes list)" where
  "heavy_hosts parse t i =
     (let (requests, body) = fetch parse t (ri_net i) (ri_clock i) (ascii ''/hosts'') (ascii ''hosts'')
      in (requests, heavy_hosts_of parse body))"

definition usable_hosts :: "json_parser \<Rightarrow> transport \<Rightarrow> routing_input \<Rightarrow> http_request list \<times> (client_error + bytes list)" where
  "usable_hosts parse t i =
     (let (requests, answer) = heavy_hosts parse t i
      in (requests, and_then answer (\<lambda>hosts.
            Inr (concat (map (\<lambda>host. case heavy_base (tr_base t) host (tr_hosts t) of Inr base \<Rightarrow> [base] | Inl _ \<Rightarrow> []) hosts)))))"

text \<open>Whether the state has to be resolved anew.\<close>

fun unsettled :: "transport \<Rightarrow> nat \<Rightarrow> heavy_proxy \<Rightarrow> bool" where
  "unsettled t now Unasked = True"
| "unsettled t now (Pool pool) = False"
| "unsettled t now (Configured asked) = (\<not> now - asked < tr_host_list_refresh t)"
| "unsettled t now (FellBack until) = (case until of None \<Rightarrow> False | Some u \<Rightarrow> \<not> now < u)"

text \<open>
  The requests of the lookup, the destination, the state and, on the first asking, the refusals to
  announce.
\<close>

definition resolve_heavy ::
  "json_parser \<Rightarrow> transport \<Rightarrow> bool \<Rightarrow> routing_input \<Rightarrow>
     http_request list \<times> destination \<times> heavy_proxy \<times> (bytes \<times> declined) list" where
  "resolve_heavy parse t first_asking i =
     (let (requests, answer) = heavy_hosts parse t i
      in (requests,
          case answer of
            Inr hosts \<Rightarrow>
              (let (usable, refused) = admitted t hosts
               in if usable = []
                  then (At_configured (tr_base t), Configured (ri_after i),
                        if first_asking \<and> rp_report (tr_retries t) then refused else [])
                  else (let pool = \<lparr>hp_hosts = usable, hp_fetched = ri_after i\<rparr>
                        in (Discovered (pick (ri_draw i) pool), Pool pool, [])))
          | Inl e \<Rightarrow>
              (At_configured (tr_base t),
               if worth_asking_again parse e then FellBack (instant_add (ri_after i) (tr_hosts_retry_after t))
               else Configured (ri_after i), [])))"

definition refreshed :: "json_parser \<Rightarrow> transport \<Rightarrow> routing_input \<Rightarrow> heavy_pool \<Rightarrow> http_request list \<times> heavy_pool" where
  "refreshed parse t i pool =
     (if ri_now i - hp_fetched pool \<ge> tr_host_list_refresh t
      then (let (requests, usable) = usable_hosts parse t i
            in (requests,
                case usable of
                  Inr hosts \<Rightarrow>
                    if hosts \<noteq> [] then \<lparr>hp_hosts = hosts, hp_fetched = ri_after i\<rparr> else pool\<lparr>hp_fetched := ri_after i\<rparr>
                | Inl _ \<Rightarrow> pool\<lparr>hp_fetched := ri_after i\<rparr>))
      else ([], pool))"

definition base_for ::
  "json_parser \<Rightarrow> transport \<Rightarrow> repeatable \<Rightarrow> routing_input \<Rightarrow> heavy_proxy \<Rightarrow>
     http_request list \<times> destination \<times> heavy_proxy \<times> (bytes \<times> declined) list" where
  "base_for parse t r i s =
     (if r \<noteq> Heavy \<or> \<not> tr_discovery t then ([], At_configured (tr_base t), s, [])
      else (case s of
              Pool pool \<Rightarrow>
                (let (requests, pool') = refreshed parse t i pool
                 in (requests, Discovered (pick (ri_draw i) pool'), Pool pool', []))
            | _ \<Rightarrow>
                if unsettled t (ri_now i) s then resolve_heavy parse t (s = Unasked) i
                else ([], At_configured (tr_base t), s, [])))"

text \<open>The sentence a control proxy's refusal is given, by the state that let the command go there.\<close>

definition EM_DASH :: bytes where "EM_DASH = [0xE2, 0x80, 0x94]"
definition ELLIPSIS :: bytes where "ELLIPSIS = [0xE2, 0x80, 0xA6]"

fun declined_routing :: "heavy_proxy \<Rightarrow> bytes" where
  "declined_routing (Configured _) =
     ascii ''/hosts named no heavy proxy this client would use '' @ EM_DASH @ ascii '' Client::with_heavy_proxies_under(['' @
     ELLIPSIS @ ascii '']) or YT_HEAVY_PROXY_DOMAINS names the domain they are in, Client::with_heavy_proxies_in(['' @ ELLIPSIS @
     ascii '']) names the proxies themselves, and Client::with_heavy_proxies_anywhere(true) or YT_HEAVY_PROXIES_ANYWHERE=1 allows any name it refused''"
| "declined_routing (FellBack _) =
     ascii ''the heavy proxies /hosts named have all just failed, so this went to the configured address for a moment''"
| "declined_routing _ = ascii ''this client did not route this command''"

definition NOT_ROUTED :: bytes where
  "NOT_ROUTED = ascii ''this client does not route heavy commands: Client::with_proxy_discovery(true) turns the /hosts lookup on''"

fun refusal_hint :: "client_error \<Rightarrow> bytes \<Rightarrow> client_error" where
  "refusal_hint (Cluster command code message raw) why =
     (if str_contains message CONTROL_REFUSAL then Cluster command code (message @ ascii '' ('' @ why @ ascii '')'') raw
      else Cluster command code message raw)"
| "refusal_hint e why = e"

fun routed_to :: "client_error \<Rightarrow> bytes \<Rightarrow> client_error" where
  "routed_to (Transport command source) base = Transport (command @ ascii '' at '' @ authority_of base) source"
| "routed_to (Cluster command code message raw) base = Cluster (command @ ascii '' at '' @ authority_of base) code message raw"
| "routed_to (Http command status body) base = Http (command @ ascii '' at '' @ authority_of base) status body"
| "routed_to (Decode command reason) base = Decode (command @ ascii '' at '' @ authority_of base) reason"
| "routed_to e base = e"

text \<open>What a failure does to the state.\<close>

definition blame :: "json_parser \<Rightarrow> transport \<Rightarrow> bytes \<Rightarrow> client_error \<Rightarrow> nat \<Rightarrow> heavy_proxy \<Rightarrow> heavy_proxy" where
  "blame parse t base e now s =
     (if attributable_to_the_host parse e
      then (case s of
              Pool pool \<Rightarrow>
                (let (pool', survived) = drop_host base pool
                 in if survived then Pool pool' else FellBack (instant_add now (tr_hosts_retry_after t)))
            | _ \<Rightarrow> s)
      else s)"

definition after_heavy ::
  "json_parser \<Rightarrow> transport \<Rightarrow> repeatable \<Rightarrow> destination \<Rightarrow> client_error + 'a \<Rightarrow> nat \<Rightarrow> heavy_proxy \<Rightarrow>
     (client_error + 'a) \<times> heavy_proxy" where
  "after_heavy parse t r destination result now s =
     (if r \<noteq> Heavy then (result, s)
      else (case result of
              Inr v \<Rightarrow> (Inr v, s)
            | Inl e \<Rightarrow>
                if \<not> tr_discovery t then (Inl (refusal_hint e NOT_ROUTED), s)
                else (case destination of
                        At_configured _ \<Rightarrow> (Inl (refusal_hint e (declined_routing s)), s)
                      | Discovered base \<Rightarrow> (Inl (routed_to e base), blame parse t base e now s))))"

section \<open>The shared state\<close>

text \<open>
  Commands of any clone route and report in any order. A report may come when the state has
  moved on; the destination it names was chosen by some earlier step.
\<close>

datatype heavy_action =
    Route repeatable routing_input
  | Report bytes client_error nat

fun heavy_step :: "json_parser \<Rightarrow> transport \<Rightarrow> heavy_action \<Rightarrow> heavy_proxy \<Rightarrow> heavy_proxy option" where
  "heavy_step parse t (Route r i) s = (let (_, _, s', _) = base_for parse t r i s in Some s')"
| "heavy_step parse t (Report base e now) s =
     (if tr_discovery t then Some (blame parse t base e now s) else None)"

inductive heavy_reach :: "json_parser \<Rightarrow> transport \<Rightarrow> heavy_proxy \<Rightarrow> bool" for parse t where
  unasked: "heavy_reach parse t Unasked"
| steps: "heavy_reach parse t s \<Longrightarrow> heavy_step parse t a s = Some s' \<Longrightarrow> heavy_reach parse t s'"

inductive_cases heavy_reach_cases: "heavy_reach parse t s"

interpretation heavy: state_machine Unasked "heavy_step parse t" "heavy_reach parse t" for parse t
proof unfold_locales
  show "P s" if "heavy_reach parse t s" "P Unasked"
      "\<And>s a s'. heavy_reach parse t s \<Longrightarrow> P s \<Longrightarrow> heavy_step parse t a s = Some s' \<Longrightarrow> P s'" for P s
    using that(1) by induction (use that(2,3) in blast)+
qed (auto elim: heavy_reach_cases intro: heavy_reach.intros)

end
