(* ===== verification/Client_Routing.thy ===== *)
theory Client_Routing
  imports Client_Heavy
begin

text \<open>
  What holds of the routing of heavy commands: the addresses built from the names the cluster gives,
  the invariant of the shared state, and what failures and refreshes do to the pool.
\<close>

section \<open>Addresses built from names\<close>

lemma heavy_base_Inr:
  assumes "heavy_base configured name allowed = Inr url"
  obtains host suffix where
    "host = trim name" "host \<noteq> []" "set host \<inter> set (ascii ''/@?#'') = {}" "\<not> str_contains host SCHEME_SEP"
    "is_authority host" "admits allowed configured host"
    "url = (if has_prefix configured (ascii ''https://'') then ascii ''https://'' else ascii ''http://'') @ host @ suffix"
    "suffix = [] \<or> (\<exists>port. \<not> has_port host \<and> port_of configured = Some port \<and> suffix = ascii '':'' @ port)"
proof -
  have ok: "trim name \<noteq> [] \<and> \<not> str_contains (trim name) SCHEME_SEP \<and> \<not> str_contains (trim name) (ascii ''/'') \<and>
      \<not> str_contains (trim name) (ascii ''@'') \<and> \<not> list_ex (\<lambda>c. c \<in> set (ascii ''?#'')) (trim name) \<and>
      is_authority (trim name) \<and> admits allowed configured (trim name)"
    using assms by (auto simp: heavy_base_def Let_def split: if_splits)
  then have "set (trim name) \<inter> set (ascii ''/@?#'') = {}"
    by (auto simp: str_contains_def ascii_def list_ex_iff split_once_char_None)
  moreover define suffix where
    "suffix = (case (has_port (trim name), port_of configured) of (False, Some port) \<Rightarrow> ascii '':'' @ port | _ \<Rightarrow> [])"
  moreover have "url = (if has_prefix configured (ascii ''https://'') then ascii ''https://'' else ascii ''http://'') @ trim name @ suffix"
    using assms ok by (auto simp: heavy_base_def Let_def suffix_def split: if_splits bool.splits option.splits)
  moreover have "suffix = [] \<or> (\<exists>port. \<not> has_port (trim name) \<and> port_of configured = Some port \<and> suffix = ascii '':'' @ port)"
    by (auto simp: suffix_def split: bool.split option.split)
  ultimately show thesis using that ok by blast
qed

lemma port_of_is_port: "port_of base = Some port \<Longrightarrow> is_port port"
  by (auto simp: port_of_def Let_def split: option.splits if_splits)

lemma is_port_chars: "is_port p \<Longrightarrow> set p \<inter> set (ascii ''/@?#:[]'') = {}"
  by (auto simp: is_port_def is_digit_def list_all_iff ascii_def)

lemma split_scheme: "split_once SCHEME_SEP (ascii ''http://'' @ r) = Some (ascii ''http'', r)"
  "split_once SCHEME_SEP (ascii ''https://'' @ r) = Some (ascii ''https'', r)"
  by (simp_all add: SCHEME_SEP_def ascii_def)

lemma before_any_all: "set s \<inter> set cs = {} \<Longrightarrow> before_any cs s = s"
  unfolding before_any_def by (simp add: takeWhile_eq_all_conv disjoint_iff)

text \<open>The address dialled is the name itself, under the client's own scheme, and at most one port.\<close>

lemma authority_of_built:
  assumes "set a \<inter> set (ascii ''/@?#'') = {}"
  shows "authority_of (ascii ''http://'' @ a) = a" "authority_of (ascii ''https://'' @ a) = a"
proof -
  have "before_any (ascii ''/?#'') a = a" using assms by (intro before_any_all) (auto simp: ascii_def)
  moreover have "rsplit_once (ascii ''@'') a = None"
    using assms by (auto simp: ascii_def rsplit_once_char_None)
  ultimately show "authority_of (ascii ''http://'' @ a) = a" "authority_of (ascii ''https://'' @ a) = a"
    by (simp_all add: authority_of_def split_scheme)
qed

lemma heavy_base_authority:
  assumes "heavy_base configured name allowed = Inr url"
  shows "\<exists>suffix. authority_of url = trim name @ suffix \<and> (suffix = [] \<or> \<not> has_port (trim name) \<and>
    (\<exists>port. port_of configured = Some port \<and> suffix = ascii '':'' @ port)) \<and>
    url = (if has_prefix configured (ascii ''https://'') then ascii ''https://'' else ascii ''http://'') @ authority_of url"
proof -
  from assms obtain host suffix where *:
    "host = trim name" "set host \<inter> set (ascii ''/@?#'') = {}"
    "url = (if has_prefix configured (ascii ''https://'') then ascii ''https://'' else ascii ''http://'') @ host @ suffix"
    "suffix = [] \<or> (\<exists>port. \<not> has_port host \<and> port_of configured = Some port \<and> suffix = ascii '':'' @ port)"
    by (elim heavy_base_Inr)
  have "set suffix \<inter> set (ascii ''/@?#'') = {}"
  proof (cases "suffix = []")
    case False
    then obtain port where port: "port_of configured = Some port" "suffix = ascii '':'' @ port" using *(4) by blast
    show ?thesis using is_port_chars [OF port_of_is_port [OF port(1)]] port(2) by (auto simp: ascii_def)
  qed simp
  then have "set (host @ suffix) \<inter> set (ascii ''/@?#'') = {}" using *(2) by auto
  then have "authority_of url = host @ suffix" using *(3) authority_of_built [of "host @ suffix"] by auto
  then show ?thesis using *(1,3,4) by auto
qed

lemma host_of_authority: "host_of url = (case strip_prefix (authority_of url) (ascii ''['') of
    Some literal \<Rightarrow> before_any (ascii '']'') literal | None \<Rightarrow> before_any (ascii '':'') (authority_of url))"
  by (simp add: host_of_def Let_def)

lemma before_any_mem: "c \<in> set a \<Longrightarrow> before_any [c] (a @ s) = before_any [c] a"
  unfolding before_any_def by (simp add: takeWhile_append1)

lemma before_any_colon: "before_any (ascii '':'') (a @ ascii '':'' @ s) = before_any (ascii '':'') a"
  unfolding before_any_def by (induction a) (simp_all add: ascii_def)

lemma host_of_heavy_base:
  assumes "heavy_base configured name allowed = Inr url"
  shows "host_of url = host_of (trim name)"
proof -
  from assms have host: "set (trim name) \<inter> set (ascii ''/@?#'') = {}" "\<not> str_contains (trim name) SCHEME_SEP"
      "is_authority (trim name)"
    by (auto elim: heavy_base_Inr)
  have self: "authority_of (trim name) = trim name"
  proof -
    have "before_any (ascii ''/?#'') (trim name) = trim name" using host(1) by (intro before_any_all) (auto simp: ascii_def)
    moreover have "rsplit_once (ascii ''@'') (trim name) = None" using host(1) by (auto simp: ascii_def rsplit_once_char_None)
    moreover have "split_once SCHEME_SEP (trim name) = None" using host(2) by (cases "split_once SCHEME_SEP (trim name)") (auto simp: str_contains_def)
    ultimately show ?thesis by (simp add: authority_of_def)
  qed
  obtain suffix where url: "authority_of url = trim name @ suffix" "suffix = [] \<or> (\<exists>port. suffix = ascii '':'' @ port)"
    using heavy_base_authority [OF assms] by blast
  show ?thesis
  proof (cases "strip_prefix (trim name) (ascii ''['')")
    case None
    then have "strip_prefix (trim name @ suffix) (ascii ''['') = None"
      using host(3) url(2)
      by (cases "trim name") (auto simp: strip_prefix_def has_prefix_def ascii_def is_authority_def)
    then show ?thesis
      using None url self before_any_colon [of "trim name"] by (auto simp: host_of_authority)
  next
    case (Some literal)
    then have pre: "trim name = ascii ''['' @ literal"
      by (auto simp: strip_prefix_def has_prefix_iff split: if_splits)
    have mem: "0x5D \<in> set literal"
      using host(3) Some split_once_char_None [of "0x5D" literal]
      by (auto simp: is_authority_def ascii_def split: option.splits)
    have "strip_prefix (trim name @ suffix) (ascii ''['') = Some (literal @ suffix)"
      unfolding pre by (simp add: strip_prefix_def ascii_def has_prefix_def)
    then show ?thesis
      using Some url(1) self before_any_mem [OF mem, of suffix] by (simp add: host_of_authority ascii_def)
  qed
qed

section \<open>The shared state\<close>

definition allowed_address :: "transport \<Rightarrow> bytes \<Rightarrow> bool" where
  "allowed_address t url = (\<exists>name. heavy_base (tr_base t) name (tr_hosts t) = Inr url)"

definition heavy_ok :: "transport \<Rightarrow> heavy_proxy \<Rightarrow> bool" where
  "heavy_ok t s =
     (case s of Pool pool \<Rightarrow> hp_hosts pool \<noteq> [] \<and> (\<forall>h \<in> set (hp_hosts pool). allowed_address t h) | _ \<Rightarrow> True)"

lemma admitted_allowed: "h \<in> set (fst (admitted t hosts)) \<Longrightarrow> allowed_address t h"
  by (induction t hosts rule: admitted.induct) (auto simp: allowed_address_def Let_def split_beta split: sum.splits)

lemma usable_allowed: "usable_hosts parse t i = (requests, Inr hosts) \<Longrightarrow> h \<in> set hosts \<Longrightarrow> allowed_address t h"
  by (auto simp: usable_hosts_def and_then_Inr split: sum.splits prod.splits, metis allowed_address_def)

lemma pick_mem: "hp_hosts pool \<noteq> [] \<Longrightarrow> pick draw pool \<in> set (hp_hosts pool)"
  by (simp add: pick_def)

lemma refreshed_ok: "heavy_ok t (Pool pool) \<Longrightarrow> refreshed parse t i pool = (requests, pool') \<Longrightarrow> heavy_ok t (Pool pool')"
  by (auto simp: heavy_ok_def refreshed_def dest: usable_allowed split: sum.splits prod.splits if_splits)

lemma resolve_heavy_ok:
  assumes "resolve_heavy parse t first_asking i = (requests, d, s, refused)"
  shows "heavy_ok t s \<and> (address d = tr_base t \<or> allowed_address t (address d))"
proof (cases "snd (heavy_hosts parse t i)")
  case (Inr hosts)
  show ?thesis
  proof (cases "fst (admitted t hosts) = []")
    case False
    then have "address d \<in> set (fst (admitted t hosts))"
      using assms Inr pick_mem [of "\<lparr>hp_hosts = fst (admitted t hosts), hp_fetched = ri_after i\<rparr>"]
      by (auto simp: resolve_heavy_def split_beta Let_def)
    then show ?thesis using assms Inr False admitted_allowed
      by (auto simp: resolve_heavy_def split_beta Let_def heavy_ok_def)
  qed (use assms Inr in \<open>auto simp: resolve_heavy_def split_beta Let_def heavy_ok_def\<close>)
qed (use assms in \<open>auto simp: resolve_heavy_def heavy_ok_def split_beta Let_def split: if_splits\<close>)

lemma base_for_ok:
  assumes "heavy_ok t s" "base_for parse t r i s = (requests, d, s', refused)"
  shows "heavy_ok t s' \<and> (address d = tr_base t \<or> allowed_address t (address d))"
proof (cases "r \<noteq> Heavy \<or> \<not> tr_discovery t")
  case False
  show ?thesis
  proof (cases s)
    case (Pool pool)
    obtain sent pool' where new: "refreshed parse t i pool = (sent, pool')" by fastforce
    then have ok: "heavy_ok t (Pool pool')" using assms(1) Pool refreshed_ok by blast
    then have "allowed_address t (pick (ri_draw i) pool')" using pick_mem [of pool'] by (simp add: heavy_ok_def)
    then show ?thesis using assms(2) False Pool ok new by (auto simp: base_for_def)
  next
    case Unasked
    then show ?thesis using assms(2) False resolve_heavy_ok by (fastforce simp: base_for_def)
  next
    case (Configured asked)
    then show ?thesis using assms False resolve_heavy_ok by (fastforce simp: base_for_def split: if_splits)
  next
    case (FellBack until)
    then show ?thesis using assms False resolve_heavy_ok by (fastforce simp: base_for_def split: if_splits)
  qed
qed (use assms in \<open>auto simp: base_for_def\<close>)

text \<open>The lookup of a routing decision: none at all, or that of \<open>/hosts\<close> at the configured address.\<close>

lemma base_for_lookup:
  assumes "base_for parse t r i s = (requests, d, s', refused)"
  shows "requests = [] \<or> r = Heavy \<and> tr_discovery t \<and> requests = fst (heavy_hosts parse t i)"
  using assms by (auto simp: base_for_def resolve_heavy_def refreshed_def usable_hosts_def split_beta Let_def
      split: if_splits heavy_proxy.splits)

lemma heavy_hosts_confined:
  "\<exists>deadline. confined t (ri_clock i) Get (tr_caller t) Empty deadline (tr_base t @ ascii ''/hosts'') 0 (fst (heavy_hosts parse t i))"
proof (cases "unusable t (tr_base t)")
  case None
  then show ?thesis
    by (auto simp: heavy_hosts_def fetch_def split_beta Let_def intro!: exI request_loop_confined [OF prod.collapse [symmetric]])
qed (simp add: heavy_hosts_def fetch_def)

lemma blame_ok: "heavy_ok t s \<Longrightarrow> heavy_ok t (blame parse t base e now s)"
  by (auto simp: blame_def heavy_ok_def drop_host_def Let_def split: heavy_proxy.split)

lemma heavy_invariant: "heavy_reach parse t s \<Longrightarrow> heavy_ok t s"
proof (rule heavy.invariant)
  fix s a s'
  assume "heavy_ok t s" "heavy_step parse t a s = Some s'"
  then show "heavy_ok t s'"
    by (cases a) (auto intro: blame_ok dest: base_for_ok split: if_splits prod.splits)
qed (simp_all add: heavy_ok_def)

section \<open>A cluster for the examples\<close>

definition names_text :: "bytes list \<Rightarrow> bytes" where
  "names_text names = ascii ''['' @ tl (concat (map (\<lambda>name. [0x2C, 0x22] @ name @ [0x22]) names)) @ ascii '']''"

definition names_parser :: "bytes list \<Rightarrow> json_parser" where
  "names_parser names text = (if text = names_text names then Some (J_array (map J_string names)) else None)"

definition sample_input :: "nat \<Rightarrow> transport_error + bytes list \<Rightarrow> routing_input" where
  "sample_input now answer =
     \<lparr>ri_now = now,
      ri_net = (\<lambda>_ _. case answer of
         Inl e \<Rightarrow> Inl e
       | Inr names \<Rightarrow> Inr \<lparr>rs_status = 200, rs_location = None, rs_error = None, rs_body = [], rs_text = Inr (names_text names)\<rparr>),
      ri_clock = (\<lambda>_. 0), ri_after = now, ri_draw = 1\<rparr>"

definition sample_pool :: heavy_pool where
  "sample_pool = \<lparr>hp_hosts = [ascii ''https://n1.h.net'', ascii ''https://n2.h.net''], hp_fetched = 5\<rparr>"

lemma sample_graphic: "list_all is_graphic (ascii ''n1.h.net'')" "list_all is_graphic (ascii ''n2.h.net'')" "list_all is_graphic (ascii ''n2.evil'')"
  by (simp_all add: is_graphic_def ascii_def)

lemmas sample_trims = sample_graphic [THEN trim_graphic] sample_graphic [THEN graphic_no_whitespace]

lemma sample_hosts:
  "host_of (ascii ''https://h.net'') = ascii ''h.net''" "host_of (ascii ''n1.h.net'') = ascii ''n1.h.net''"
  "host_of (ascii ''n2.h.net'') = ascii ''n2.h.net''" "host_of (ascii ''n2.evil'') = ascii ''n2.evil''"
  "to_ascii_lowercase (ascii ''h.net'') = ascii ''h.net''" "to_ascii_lowercase (ascii ''n1.h.net'') = ascii ''n1.h.net''"
  "to_ascii_lowercase (ascii ''n2.h.net'') = ascii ''n2.h.net''" "to_ascii_lowercase (ascii ''n2.evil'') = ascii ''n2.evil''"
  "is_authority (ascii ''n1.h.net'')" "is_authority (ascii ''n2.h.net'')" "is_authority (ascii ''n2.evil'')"
  "port_of (ascii ''https://h.net'') = None"
  by code_simp+

lemma sample_no_ips:
  "parse_ip (ascii ''h.net'') = None" "parse_ip (ascii ''n1.h.net'') = None" "parse_ip (ascii ''n2.h.net'') = None"
  "parse_ip (ascii ''n2.evil'') = None"
  by (simp_all add: ascii_def parse_ip_name to_digit_def)

lemma sample_admits:
  "same_domain (ascii ''h.net'') (ascii ''n1.h.net'')" "same_domain (ascii ''h.net'') (ascii ''n2.h.net'')"
  "\<not> same_domain (ascii ''h.net'') (ascii ''n2.evil'')"
  unfolding same_domain_def sample_hosts Let_def sample_no_ips
  by (simp_all add: ascii_def str_contains_def ends_with_def has_prefix_def)

lemma sample_names:
  "heavy_base (ascii ''https://h.net'') (ascii ''n1.h.net'') SameDomain = Inr (ascii ''https://n1.h.net'')"
  "heavy_base (ascii ''https://h.net'') (ascii ''n2.h.net'') SameDomain = Inr (ascii ''https://n2.h.net'')"
  "heavy_base (ascii ''https://h.net'') (ascii ''n2.evil'') SameDomain = Inl Elsewhere"
  unfolding heavy_base_def sample_trims admits.simps sample_hosts Let_def
  by (simp_all add: sample_admits sample_hosts sample_trims split: bool.split)
    (simp_all add: ascii_def str_contains_def SCHEME_SEP_def has_prefix_def)

lemma sample_rules [simp]:
  "tr_discovery sample_transport" "tr_hosts sample_transport = SameDomain" "tr_host_list_refresh sample_transport = 60"
  "tr_hosts_retry_after sample_transport = 10"
  by (simp_all add: sample_transport_def render_caller_headers_def)

lemma json_strings_map: "json_strings (map J_string names) = Some names"
  by (induction names) simp_all

definition lookup_request :: http_request where
  "lookup_request = make_request (ascii ''https://h.net/hosts'') Get (tr_caller sample_transport) Empty (Some 8)"

lemma sample_lookup:
  "heavy_hosts parse sample_transport (sample_input now answer) =
     ([lookup_request], case answer of
        Inl e \<Rightarrow> Inl (Transport (ascii ''hosts'') e)
      | Inr names \<Rightarrow> heavy_hosts_of parse (Inr (names_text names)))"
proof -
  have "unusable sample_transport (ascii ''https://h.net'') = None"
    by (simp add: unusable_def tls_unavailable_def)
  moreover have "instant_add 0 (tr_hosts_timeout sample_transport) = Some 8"
    by (simp add: instant_add_def INSTANT_MAX_def sample_transport_def render_caller_headers_def)
  moreover have "ascii ''https://h.net'' @ ascii ''/hosts'' = ascii ''https://h.net/hosts''" by (simp add: ascii_def)
  ultimately show ?thesis
    by (simp add: heavy_hosts_def fetch_def sample_input_def request_loop.simps Client_Transport.remaining_def redirect_def
        lookup_request_def make_request_def heavy_hosts_of_def split: sum.split)
qed

lemma sample_answer: "heavy_hosts_of (names_parser names) (Inr (names_text names)) = Inr names"
  by (simp add: heavy_hosts_of_def names_parser_def json_strings_map)

definition sample_names_listed :: "bytes list" where
  "sample_names_listed = [ascii ''n1.h.net'', ascii ''n2.evil'', ascii ''n2.h.net'']"

abbreviation sample_parser :: json_parser where
  "sample_parser \<equiv> names_parser sample_names_listed"

lemma sample_routes:
  "base_for sample_parser sample_transport Heavy (sample_input 5 (Inr sample_names_listed)) Unasked =
     ([lookup_request], Discovered (ascii ''https://n2.h.net''), Pool sample_pool, [])"
proof -
  have "admitted sample_transport sample_names_listed = (hp_hosts sample_pool, [(ascii ''n2.evil'', Elsewhere)])"
    by (simp add: sample_names_listed_def sample_names sample_pool_def)
  then show ?thesis
    by (simp add: base_for_def resolve_heavy_def sample_lookup sample_answer)
      (simp add: sample_input_def pick_def sample_pool_def)
qed

lemma sample_reach: "heavy_reach sample_parser sample_transport (Pool sample_pool)"
proof -
  have "heavy_step sample_parser sample_transport (Route Heavy (sample_input 5 (Inr sample_names_listed))) Unasked =
      Some (Pool sample_pool)"
    by (simp add: sample_routes)
  then show ?thesis using heavy_reach.intros by metis
qed

section \<open>Properties\<close>

text \<open>A name the cluster gives cannot move a command off the rules. The address built from it has
  the client's own scheme, its host is the host of the name, which the client's rule admits, and
  no userinfo hides another host behind it.\<close>

theorem heavy_base_safe:
  assumes "heavy_base configured name allowed = Inr url"
  shows "has_prefix url (ascii ''https://'') = has_prefix configured (ascii ''https://'') \<and>
    host_of url = host_of (trim name) \<and> admits allowed configured (trim name) \<and>
    rsplit_once (ascii ''@'') url = None \<and> is_authority (trim name)"
proof -
  from assms obtain host suffix where *:
    "host = trim name" "set host \<inter> set (ascii ''/@?#'') = {}" "is_authority host" "admits allowed configured host"
    "url = (if has_prefix configured (ascii ''https://'') then ascii ''https://'' else ascii ''http://'') @ host @ suffix"
    "suffix = [] \<or> (\<exists>port. \<not> has_port host \<and> port_of configured = Some port \<and> suffix = ascii '':'' @ port)"
    by (elim heavy_base_Inr)
  have "0x40 \<notin> set suffix"
    using *(6) is_port_chars port_of_is_port by (fastforce simp: ascii_def)
  then have "0x40 \<notin> set url" using *(2,5) by (auto simp: ascii_def)
  moreover have "has_prefix url (ascii ''https://'') = has_prefix configured (ascii ''https://'')"
    using *(5) by (simp add: has_prefix_def ascii_def)
  ultimately show ?thesis using * host_of_heavy_base [OF assms] by (simp add: rsplit_once_char_None ascii_def)
qed

lemma heavy_base_safe_witness:
  "host_of (ascii ''https://n1.h.net'') = host_of (trim (ascii ''n1.h.net'')) \<and>
   admits SameDomain (ascii ''https://h.net'') (trim (ascii ''n1.h.net''))"
  using heavy_base_safe [OF sample_names(1)] by simp

text \<open>C10: in every state the shared routing can reach, a command goes to the configured address or to one
  the rules admit; only a heavy command, and only with discovery on, is routed at all or asks
  \<open>/hosts\<close>, at the configured address; and the pool a host is drawn from is never empty.\<close>

theorem heavy_destinations_allowed:
  assumes "heavy_reach parse t s" "base_for parse t r i s = (requests, d, s', refused)"
  shows "(address d = tr_base t \<or> (\<exists>name. heavy_base (tr_base t) name (tr_hosts t) = Inr (address d))) \<and>
    (d \<noteq> At_configured (tr_base t) \<or> requests \<noteq> [] \<longrightarrow> r = Heavy \<and> tr_discovery t) \<and>
    (requests \<noteq> [] \<longrightarrow> rqs_url (hd requests) = tr_base t @ ascii ''/hosts'') \<and>
    s' \<noteq> Pool \<lparr>hp_hosts = [], hp_fetched = now\<rparr>"
proof -
  obtain deadline where c: "confined t (ri_clock i) Get (tr_caller t) Empty deadline (tr_base t @ ascii ''/hosts'') 0
      (fst (heavy_hosts parse t i))"
    using heavy_hosts_confined by blast
  have "requests \<noteq> [] \<Longrightarrow> rqs_url (hd requests) = tr_base t @ ascii ''/hosts''"
    using base_for_lookup [OF assms(2)] c by (auto simp: confined_def hd_conv_nth)
  then show ?thesis
    using base_for_ok [OF heavy_invariant [OF assms(1)] assms(2)] assms(2)
    by (auto simp: allowed_address_def heavy_ok_def base_for_def split: if_splits)
qed

lemma heavy_destinations_allowed_witness:
  "\<exists>name. heavy_base (ascii ''https://h.net'') name SameDomain = Inr (ascii ''https://n2.h.net'')"
  using heavy_destinations_allowed [OF heavy_reach.unasked sample_routes] by (auto simp: ascii_eq_iff)

text \<open>C9: a failure that may be the host's takes that host, and no other, out of the pool; the last one
  gone, heavy commands fall back to the configured address for the configured time. A failure
  that is the request's own changes nothing. The command's failure is reported either way.\<close>

theorem failed_host_dropped:
  assumes "heavy_reach parse t (Pool pool)" "tr_discovery t"
    and "after_heavy parse t Heavy (Discovered base) (Inl e) now (Pool pool) = (result, s')"
  shows "result = Inl (routed_to e base) \<and>
    (\<not> attributable_to_the_host parse e \<longrightarrow> s' = Pool pool) \<and>
    (attributable_to_the_host parse e \<longrightarrow>
      (case s' of
         Pool pool' \<Rightarrow> set (hp_hosts pool') = set (hp_hosts pool) - {base} \<and> set (hp_hosts pool') \<noteq> {} \<and>
           hp_fetched pool' = hp_fetched pool
       | FellBack until \<Rightarrow> set (hp_hosts pool) = {base} \<and> until = instant_add now (tr_hosts_retry_after t)
       | _ \<Rightarrow> False))"
proof -
  have "hp_hosts pool \<noteq> []" using heavy_invariant [OF assms(1)] by (simp add: heavy_ok_def)
  then have all: "(\<forall>x \<in> set (hp_hosts pool). x = base) \<Longrightarrow> set (hp_hosts pool) = {base}" by (cases "hp_hosts pool") auto
  have result: "result = Inl (routed_to e base)" and s': "s' = blame parse t base e now (Pool pool)"
    using assms(2,3) by (simp_all add: after_heavy_def)
  show ?thesis
  proof (cases "filter (\<lambda>h. h \<noteq> base) (hp_hosts pool) = []")
    case True
    then have "attributable_to_the_host parse e \<Longrightarrow> s' = FellBack (instant_add now (tr_hosts_retry_after t))"
      by (simp add: s' blame_def drop_host_def)
    then show ?thesis using result s' all True by (auto simp: filter_empty_conv blame_def)
  next
    case False
    then have "attributable_to_the_host parse e \<Longrightarrow>
        s' = Pool (pool\<lparr>hp_hosts := filter (\<lambda>h. h \<noteq> base) (hp_hosts pool)\<rparr>)"
      by (simp add: s' blame_def drop_host_def)
    moreover have "set (filter (\<lambda>h. h \<noteq> base) (hp_hosts pool)) \<noteq> {}" using False by (simp only: set_empty not_False_eq_True)
    ultimately show ?thesis using result s' by (auto simp: blame_def)
  qed
qed

lemma failed_host_dropped_witness:
  "set (hp_hosts (fst (drop_host (ascii ''https://n2.h.net'') sample_pool))) =
     set (hp_hosts sample_pool) - {ascii ''https://n2.h.net''}"
proof -
  let ?e = "Transport (ascii ''write_table'') Timeout_global"
  have hit: "attributable_to_the_host sample_parser ?e"
    by (simp add: attributable_to_the_host_def worth_asking_again_def rejected_the_certificate_def)
  have "after_heavy sample_parser sample_transport Heavy (Discovered (ascii ''https://n2.h.net'')) (Inl ?e :: client_error + unit)
      7 (Pool sample_pool) =
      (Inl (routed_to ?e (ascii ''https://n2.h.net'')), Pool (fst (drop_host (ascii ''https://n2.h.net'') sample_pool)))"
    using hit by (simp add: after_heavy_def blame_def drop_host_def sample_pool_def Let_def ascii_eq_iff)
  from failed_host_dropped [OF sample_reach _ this] hit show ?thesis by simp
qed

text \<open>A list older than the refresh interval is replaced whole by the next usable answer, so a host
  that was dropped and is still listed comes back; an answer with nobody usable, or none at all,
  keeps the pool for another interval.\<close>

theorem stale_pool_refreshed:
  assumes "tr_discovery t" "ri_now i - hp_fetched pool \<ge> tr_host_list_refresh t"
    and "base_for parse t Heavy i (Pool pool) = (requests, d, Pool pool', refused)"
  shows "requests = fst (heavy_hosts parse t i) \<and> hp_fetched pool' = ri_after i \<and>
    hp_hosts pool' = (case snd (usable_hosts parse t i) of
      Inr (h # hs) \<Rightarrow> h # hs | _ \<Rightarrow> hp_hosts pool) \<and> address d = pick (ri_draw i) pool'"
proof -
  have "fst (usable_hosts parse t i) = fst (heavy_hosts parse t i)" by (simp add: usable_hosts_def split_beta)
  then show ?thesis using assms
    by (auto simp: base_for_def refreshed_def split_beta Let_def split: sum.splits list.splits if_splits)
qed

lemma stale_pool_refreshed_witness:
  "hp_hosts (snd (refreshed (names_parser [ascii ''n1.h.net'']) sample_transport (sample_input 99 (Inr [ascii ''n1.h.net'']))
     sample_pool)) = [ascii ''https://n1.h.net'']"
proof -
  let ?i = "sample_input 99 (Inr [ascii ''n1.h.net''])" and ?parse = "names_parser [ascii ''n1.h.net'']"
  obtain requests pool' where new: "refreshed ?parse sample_transport ?i sample_pool = (requests, pool')" by fastforce
  have "base_for ?parse sample_transport Heavy ?i (Pool sample_pool) = (requests, Discovered (pick 1 pool'), Pool pool', [])"
    by (simp add: base_for_def new) (simp add: sample_input_def)
  moreover have "snd (usable_hosts ?parse sample_transport ?i) = Inr [ascii ''https://n1.h.net'']"
    by (simp add: usable_hosts_def sample_lookup sample_answer sample_names)
  ultimately show ?thesis
    using stale_pool_refreshed [of sample_transport ?i sample_pool ?parse] new by (simp add: sample_input_def sample_pool_def)
qed

text \<open>The explanation of a refused heavy command can name the wrong cause. When the \<open>/hosts\<close> lookup
  itself times out, the command goes to the configured address; if the proxy there refuses it, the
  error says that the heavy proxies \<open>/hosts\<close> named have all just failed, though none was named.\<close>

theorem fallback_hint_misnames_cause:
  "(case base_for parse sample_transport Heavy (sample_input 0 (Inl Timeout_global)) Unasked of
      (_, d, s, _) \<Rightarrow>
        d = At_configured (tr_base sample_transport) \<and>
        fst (after_heavy parse sample_transport Heavy d (Inl (Cluster command 1 CONTROL_REFUSAL raw) :: client_error + unit) 0 s) =
          Inl (Cluster command 1 (CONTROL_REFUSAL @ ascii '' ('' @
            ascii ''the heavy proxies /hosts named have all just failed, so this went to the configured address for a moment'' @
            ascii '')'') raw))"
proof -
  have "str_contains CONTROL_REFUSAL CONTROL_REFUSAL" by code_simp
  then show ?thesis
    by (simp add: base_for_def resolve_heavy_def sample_lookup worth_asking_again_def rejected_the_certificate_def
        after_heavy_def)
qed

end
