(* ===== verification/Client_Call.thy ===== *)
theory Client_Call
  imports Client_Routing
begin

text \<open>
  \<open>crates/ytsaurus-client/src/http.rs\<close>: a command from end to end. The transaction stamp, the mutation
  id, the choice of the address, the retry loop over attempts, and what a failure does to the
  routing. What the code reads from outside during a call is given: per attempt the network, the
  clock and the sizes of the read buffers. \<open>None\<close> is the panic of \<open>insert\<close> on parameters that are not
  a dict.
\<close>

section \<open>Calls\<close>

record call_env =
  ce_net :: "nat \<Rightarrow> network"
  ce_clock :: "nat \<Rightarrow> clock"
  ce_bufs :: "nat \<Rightarrow> nat"
  ce_route :: routing_input
  ce_after :: nat
  ce_draws :: "u64 \<times> u64"

definition stamped :: "transport \<Rightarrow> bytes \<Rightarrow> yson_value \<Rightarrow> yson_value option" where
  "stamped t command parameters =
     (case in_transaction t command parameters of None \<Rightarrow> Some parameters | Some p \<Rightarrow> p)"

definition chosen_mutation_id :: "repeatable \<Rightarrow> mutation_id option \<Rightarrow> u64 \<times> u64 \<Rightarrow> mutation_id option" where
  "chosen_mutation_id r given draws =
     (case given of
        Some m \<Rightarrow> Some m
      | None \<Rightarrow> if r = WithMutationId then Some (mutation_new (fst draws) (snd draws)) else None)"

definition tagged :: "mutation_id option \<Rightarrow> yson_value \<Rightarrow> bool \<Rightarrow> yson_value option" where
  "tagged mutation_id parameters is_retry =
     (case mutation_id of
        None \<Rightarrow> Some parameters
      | Some m \<Rightarrow>
          Option.bind (yson_insert parameters (ascii ''mutation_id'') (yson_str (mi_id m)))
            (\<lambda>p. yson_insert p (ascii ''retry'') (yson_boolean (is_retry \<or> mi_retry m))))"

text \<open>
  What the lookup of \<open>/hosts\<close> sent, if the call made one, what the attempts of the call sent, its
  result, and the state of the routing.
\<close>

record 'a outcome =
  oc_lookup :: "http_request list"
  oc_requests :: "http_request list list"
  oc_waits :: "nat list"
  oc_result :: "client_error + 'a"
  oc_state :: heavy_proxy
  oc_destination :: destination

definition run_call ::
  "json_parser \<Rightarrow> transport \<Rightarrow> repeatable \<Rightarrow> call_env \<Rightarrow> heavy_proxy \<Rightarrow> (bool \<Rightarrow> yson_value) \<Rightarrow>
     (bytes \<Rightarrow> nat \<Rightarrow> yson_value \<Rightarrow> http_request list \<times> (client_error + 'a)) \<Rightarrow> 'a outcome" where
  "run_call parse t r env s params attempt =
     (let (lookup, destination, s', _) = base_for parse t r (ce_route env) s;
          (requests, waits, sent) =
            retry_run parse (tr_retries t) r (\<lambda>n is_retry. attempt (address destination) n (params is_retry));
          (result, s'') = after_heavy parse t r destination sent (ce_after env) s'
      in \<lparr>oc_lookup = lookup, oc_requests = requests, oc_waits = waits, oc_result = result, oc_state = s'',
          oc_destination = destination\<rparr>)"

definition call_with ::
  "json_parser \<Rightarrow> formatters \<Rightarrow> transport \<Rightarrow> call_env \<Rightarrow> heavy_proxy \<Rightarrow> http_method \<Rightarrow> bytes \<Rightarrow> yson_value \<Rightarrow>
     bytes option \<Rightarrow> repeatable \<Rightarrow> mutation_id option \<Rightarrow> bytes outcome option" where
  "call_with parse fmt t env s verb command parameters payload r given =
     (let mutation_id = chosen_mutation_id r given (ce_draws env)
      in case stamped t command parameters of
           None \<Rightarrow> None
         | Some p \<Rightarrow>
             (case (tagged mutation_id p False, tagged mutation_id p True) of
                (Some first, Some again) \<Rightarrow>
                  Some (run_call parse t r env s (\<lambda>is_retry. if is_retry then again else first)
                    (\<lambda>base n q. send parse fmt (ce_bufs env) t (ce_net env n) (ce_clock env n) base verb command q payload))
              | _ \<Rightarrow> None))"

definition plain_call ::
  "json_parser \<Rightarrow> formatters \<Rightarrow> transport \<Rightarrow> call_env \<Rightarrow> heavy_proxy \<Rightarrow> http_method \<Rightarrow> bytes \<Rightarrow> yson_value \<Rightarrow>
     bytes option \<Rightarrow> repeatable \<Rightarrow> bytes outcome option" where
  "plain_call parse fmt t env s verb command parameters payload r =
     call_with parse fmt t env s verb command parameters payload r None"

definition open_stream ::
  "json_parser \<Rightarrow> formatters \<Rightarrow> transport \<Rightarrow> call_env \<Rightarrow> heavy_proxy \<Rightarrow> http_method \<Rightarrow> bytes \<Rightarrow> yson_value \<Rightarrow>
     body outcome option" where
  "open_stream parse fmt t env s verb command parameters =
     map_option (\<lambda>p. run_call parse t Heavy env s (\<lambda>_. p)
       (\<lambda>base n q. open_body parse fmt t (ce_net env n) (ce_clock env n) base verb command q)) (stamped t command parameters)"

definition upload ::
  "json_parser \<Rightarrow> formatters \<Rightarrow> transport \<Rightarrow> call_env \<Rightarrow> heavy_proxy \<Rightarrow> http_method \<Rightarrow> bytes \<Rightarrow> yson_value \<Rightarrow> bytes \<Rightarrow>
     bytes outcome option" where
  "upload parse fmt t env s verb command parameters rows =
     map_option (\<lambda>p. run_call parse t Heavy env s (\<lambda>_. p)
       (\<lambda>base n q. upload_once parse fmt (ce_bufs env) t (ce_net env n) (ce_clock env n) base verb command q rows))
       (stamped t command parameters)"

section \<open>Lemmas\<close>

definition yson_entry :: "yson_value \<Rightarrow> bytes \<Rightarrow> yson_value option" where
  "yson_entry v key = (case node v of Map m \<Rightarrow> map_of m key | _ \<Rightarrow> None)"

definition is_dict :: "yson_value \<Rightarrow> bool" where
  "is_dict v = (case node v of Map m \<Rightarrow> btree_wf m | _ \<Rightarrow> False)"

lemma yson_insert_dict:
  "is_dict v \<Longrightarrow> \<exists>w. yson_insert v key x = Some w \<and> is_dict w \<and> yson_entry w = (yson_entry v)(key \<mapsto> x)"
  by (cases "node v") (auto simp: yson_insert_def is_dict_def yson_entry_def btree_wf_insert map_of_btree_insert fun_eq_iff)

lemma stamped_dict:
  assumes "is_dict v"
  shows "\<exists>w. stamped t command v = Some w \<and> is_dict w \<and>
    yson_entry w = (case tr_transaction t of
      Some i \<Rightarrow> if takes_no_transaction command \<or> yson_entry v TRANSACTION_ID \<noteq> None then yson_entry v
                else (yson_entry v)(TRANSACTION_ID \<mapsto> yson_str i)
    | None \<Rightarrow> yson_entry v)"
proof -
  have names: "names_transaction v \<longleftrightarrow> yson_entry v TRANSACTION_ID \<noteq> None"
    by (auto simp: names_transaction_def yson_entry_def split: yson_node.splits)
  show ?thesis
    using yson_insert_dict [OF assms, of TRANSACTION_ID] assms
    by (auto simp: stamped_def in_transaction_def names split: option.split)
qed

lemma tagged_dict:
  assumes "is_dict v"
  shows "\<exists>w. tagged (Some m) v again = Some w \<and> is_dict w \<and>
    yson_entry w = (yson_entry v)(ascii ''mutation_id'' \<mapsto> yson_str (mi_id m), ascii ''retry'' \<mapsto> yson_boolean (again \<or> mi_retry m))"
proof -
  obtain w where w: "yson_insert v (ascii ''mutation_id'') (yson_str (mi_id m)) = Some w" "is_dict w"
      "yson_entry w = (yson_entry v)(ascii ''mutation_id'' \<mapsto> yson_str (mi_id m))"
    using yson_insert_dict [OF assms] by blast
  then show ?thesis using yson_insert_dict [OF w(2), of "ascii ''retry''"] by (simp add: tagged_def)
qed

lemma run_call_simps:
  assumes "run_call parse t r env s params attempt = x"
  obtains s' refused sent where "base_for parse t r (ce_route env) s = (oc_lookup x, oc_destination x, s', refused)"
    "retry_run parse (tr_retries t) r (\<lambda>n is_retry. attempt (address (oc_destination x)) n (params is_retry)) =
       (oc_requests x, oc_waits x, sent)"
    "after_heavy parse t r (oc_destination x) sent (ce_after env) s' = (oc_result x, oc_state x)"
  using assms unfolding run_call_def Let_def by (auto split: prod.splits)

text \<open>What the attempts sent: the flag the retry loop passes is that of every attempt but the first.\<close>

lemma run_call_requests:
  assumes "run_call parse t r env s params attempt = x"
  shows "oc_requests x = map (\<lambda>i. fst (attempt (address (oc_destination x)) (Suc i) (params (i > 0)))) [0..<Suc (length (oc_waits x))]"
proof -
  from assms obtain sent where "retry_run parse (tr_retries t) r
      (\<lambda>n is_retry. attempt (address (oc_destination x)) n (params is_retry)) = (oc_requests x, oc_waits x, sent)"
    by (elim run_call_simps)
  from run_from_spec [OF this [unfolded retry_run_def]] show ?thesis by (simp del: upt_Suc)
qed

lemma send_requests:
  "fst (send parse fmt bufs t net clock base verb command parameters payload) =
     fst (dispatch parse fmt t net clock base verb command parameters (Bytes (case payload of None \<Rightarrow> [] | Some bs \<Rightarrow> bs)) False)"
  by (simp add: send_def split_beta)

lemma upload_requests:
  "fst (upload_once parse fmt bufs t net clock base verb command parameters rows) =
     fst (dispatch parse fmt t net clock base verb command parameters (Stream rows) True)"
  by (simp add: upload_once_def split_beta)

lemma after_heavy_reach:
  assumes "heavy_reach parse t s" "after_heavy parse t r d result now s = (result', s')"
  shows "heavy_reach parse t s'"
proof -
  have "s' = s \<or> (\<exists>base e. heavy_step parse t (Report base e now) s = Some s')"
    using assms(2) by (auto simp: after_heavy_def split: if_splits sum.splits destination.splits)
  then show ?thesis using assms(1) heavy.reach_step by blast
qed

lemma run_call_reach:
  assumes "heavy_reach parse t s" "run_call parse t r env s params attempt = x"
  shows "heavy_reach parse t (oc_state x) \<and>
    (address (oc_destination x) = tr_base t \<or> allowed_address t (address (oc_destination x)))"
proof -
  from assms(2) obtain s' refused sent where
    base: "base_for parse t r (ce_route env) s = (oc_lookup x, oc_destination x, s', refused)" and
    after: "after_heavy parse t r (oc_destination x) sent (ce_after env) s' = (oc_result x, oc_state x)"
    by (elim run_call_simps)
  have "heavy_step parse t (Route r (ce_route env)) s = Some s'" by (simp add: base)
  then have "heavy_reach parse t s'" using assms(1) heavy.reach_step by blast
  then show ?thesis
    using after_heavy_reach [OF _ after] base_for_ok [OF heavy_invariant [OF assms(1)] base] by blast
qed

lemma run_call_attempts:
  fixes x :: "'a outcome"
  assumes "policy_wf (tr_retries t)" "run_call parse t r env s params attempt = x"
  shows "length (oc_requests x) \<le> allowed_attempts (tr_retries t) r \<and> oc_requests x \<noteq> []"
proof -
  from assms(2) obtain sent where run: "retry_run parse (tr_retries t) r
      (\<lambda>n is_retry. attempt (address (oc_destination x)) n (params is_retry)) = (oc_requests x, oc_waits x, sent)"
    by (elim run_call_simps)
  from run_from_spec [OF run [unfolded retry_run_def]] show ?thesis
    using allowed_pos [OF assms(1), of r] by simp
qed

text \<open>The lookup of a call, if it makes one, is confined to the configured address.\<close>

lemma run_call_lookup:
  assumes "run_call parse t r env s params attempt = x" "tr_token t \<noteq> None"
  shows "list_all (\<lambda>q. rqs_url q = tr_base t @ ascii ''/hosts'' \<or> same_origin (tr_base t @ ascii ''/hosts'') (rqs_url q)) (oc_lookup x) \<and>
    length (oc_lookup x) \<le> 11 \<and> (oc_lookup x \<noteq> [] \<longrightarrow> r = Heavy \<and> tr_discovery t)"
proof -
  from assms(1) obtain s' refused where "base_for parse t r (ce_route env) s = (oc_lookup x, oc_destination x, s', refused)"
    by (elim run_call_simps)
  note base_for_lookup [OF this]
  moreover obtain deadline where "confined t (ri_clock (ce_route env)) Get (tr_caller t) Empty deadline (tr_base t @ ascii ''/hosts'') 0
      (fst (heavy_hosts parse t (ce_route env)))"
    using heavy_hosts_confined by blast
  ultimately show ?thesis using assms(2) unfolding confined_def MAX_REDIRECTS_def list_all_length by auto
qed

text \<open>Every request of an attempt carries the parameters it was given, encoded, in its header.\<close>

lemma dispatch_carries:
  assumes "q \<in> set (fst (dispatch parse fmt t net clock base verb command parameters body streaming))"
  shows "\<exists>encoded. to_string fmt (value_serde parameters) Text = Inr encoded \<and> rqs_headers q = command_headers t encoded"
proof -
  obtain encoded where encoded: "to_string fmt (value_serde parameters) Text = Inr encoded" "unusable t base = None"
    using assms by (auto simp: dispatch_def split: option.splits sum.splits)
  then have "confined t clock verb (command_headers t encoded) body (deadline_for t streaming (clock 0))
      (command_url base command) 0 (fst (dispatch parse fmt t net clock base verb command parameters body streaming))"
    by (auto simp: dispatch_def split_beta intro: request_loop_confined [OF prod.collapse [symmetric]])
  then have "rqs_headers q = command_headers t encoded"
    using assms unfolding confined_def in_set_conv_nth by (metis http_request.select_convs(3) make_request_def)
  then show ?thesis using encoded by blast
qed

lemma dispatch_origin:
  assumes "tr_token t \<noteq> None \<or> carries_data body"
  shows "list_all (\<lambda>q. rqs_url q = command_url base command \<or> same_origin (command_url base command) (rqs_url q))
    (fst (dispatch parse fmt t net clock base verb command parameters body streaming))"
proof (cases "fst (dispatch parse fmt t net clock base verb command parameters body streaming) = []")
  case False
  then obtain encoded where "to_string fmt (value_serde parameters) Text = Inr encoded" "unusable t base = None"
    by (auto simp: dispatch_def split: option.splits sum.splits)
  then have "confined t clock verb (command_headers t encoded) body (deadline_for t streaming (clock 0))
      (command_url base command) 0 (fst (dispatch parse fmt t net clock base verb command parameters body streaming))"
    by (auto simp: dispatch_def split_beta intro: request_loop_confined [OF prod.collapse [symmetric]])
  then show ?thesis using assms unfolding confined_def list_all_length by auto
qed simp

section \<open>Properties\<close>

text \<open>C5: end to end, a token is only sent where the rules allow. Whatever the cluster names and wherever
  it redirects, every request of a call made with a token goes either, for the lookup of \<open>/hosts\<close> a
  heavy command may make first, to the origin of the configured address, or, for the attempts of the
  command, to the origin of the configured address or of a heavy proxy whose name the client's rule
  admits; the lookup is at most eleven requests; there are no more attempts than the policy and the
  command allow, one for a heavy command; and the call leaves the shared routing in a state the
  invariant covers.\<close>

theorem call_confined:
  assumes "heavy_reach parse t s" "policy_wf (tr_retries t)" "tr_token t \<noteq> None"
    and "call_with parse fmt t env s verb command parameters payload r given = Some x"
  shows "list_all (\<lambda>q. rqs_url q = tr_base t @ ascii ''/hosts'' \<or> same_origin (tr_base t @ ascii ''/hosts'') (rqs_url q)) (oc_lookup x) \<and>
    length (oc_lookup x) \<le> 11 \<and> (oc_lookup x \<noteq> [] \<longrightarrow> r = Heavy \<and> tr_discovery t) \<and>
    (\<exists>base. (base = tr_base t \<or> (\<exists>name. heavy_base (tr_base t) name (tr_hosts t) = Inr base)) \<and>
      list_all (list_all (\<lambda>q. rqs_url q = command_url base command \<or> same_origin (command_url base command) (rqs_url q)))
        (oc_requests x)) \<and>
    length (oc_requests x) \<le> allowed_attempts (tr_retries t) r \<and> heavy_reach parse t (oc_state x)"
proof -
  obtain params where x: "run_call parse t r env s params
      (\<lambda>base n q. send parse fmt (ce_bufs env) t (ce_net env n) (ce_clock env n) base verb command q payload) = x"
    using assms(4) by (auto simp: call_with_def Let_def split: option.splits)
  note run_call_requests [OF x]
  then have "list_all (list_all (\<lambda>q. rqs_url q = command_url (address (oc_destination x)) command \<or>
      same_origin (command_url (address (oc_destination x)) command) (rqs_url q))) (oc_requests x)"
    using dispatch_origin [OF disjI1 [OF assms(3)]] by (auto simp: send_requests list_all_iff)
  then show ?thesis
    using run_call_reach [OF assms(1) x] run_call_attempts [OF assms(2) x] run_call_lookup [OF x assms(3)]
    by (auto simp: allowed_address_def)
qed

lemma call_confined_witness:
  "\<exists>x. call_with sample_parser no_formatters sample_transport
     \<lparr>ce_net = (\<lambda>_. sample_network), ce_clock = (\<lambda>_ _. 0), ce_bufs = (\<lambda>_. 9),
       ce_route = sample_input 5 (Inr sample_names_listed), ce_after = 9, ce_draws = (1, 2)\<rparr>
     Unasked Post (ascii ''exists'') (plain (Map [])) None Heavy None = Some x \<and>
     oc_lookup x = [lookup_request] \<and> length (oc_requests x) = 1"
proof -
  let ?env = "\<lparr>ce_net = (\<lambda>_. sample_network), ce_clock = (\<lambda>_ _. 0), ce_bufs = (\<lambda>_. 9),
    ce_route = sample_input 5 (Inr sample_names_listed), ce_after = 9, ce_draws = (1, 2)\<rparr>"
  have "tr_transaction sample_transport = None" by (simp add: sample_transport_def render_caller_headers_def)
  then obtain x params attempt where
    x: "call_with sample_parser no_formatters sample_transport ?env Unasked Post (ascii ''exists'') (plain (Map []))
      None Heavy None = Some x" and run: "run_call sample_parser sample_transport Heavy ?env Unasked params attempt = x"
    by (auto simp: call_with_def stamped_def in_transaction_def tagged_def chosen_mutation_id_def)
  have wf: "policy_wf (tr_retries sample_transport)"
    by (simp add: policy_wf_def policy_none_def policy_new_def U32_MAX_def)
  have "length (oc_requests x) \<le> 1"
    using call_confined [OF heavy_reach.unasked wf _ x] by (auto simp: allowed_attempts_def)
  moreover have "oc_requests x \<noteq> []" using run_call_attempts [OF wf run] by blast
  moreover from run obtain s' refused where
    "base_for sample_parser sample_transport Heavy (ce_route ?env) Unasked = (oc_lookup x, oc_destination x, s', refused)"
    by (elim run_call_simps)
  then have "oc_lookup x = [lookup_request]" by (simp add: sample_routes)
  ultimately show ?thesis using x by (auto simp: le_Suc_eq)
qed

text \<open>C6: a repeated mutation cannot be applied twice by accident. Every request of every attempt of a
  command that is repeated under a mutation id carries the same id in its parameters, and is marked
  as a retry exactly when the attempt is not the first or the caller's id is already a replay; all
  other parameters are the same in every attempt: the caller's, with the client's transaction where
  the command has one to be in and does not name its own. Such a call never panics on a dict.\<close>

theorem mutation_retried_under_one_id:
  assumes "is_dict parameters" "r = WithMutationId \<or> given \<noteq> None"
  shows "\<exists>x m. call_with parse fmt t env s verb command parameters payload r given = Some x \<and>
    (case given of Some g \<Rightarrow> m = g | None \<Rightarrow> \<not> mi_retry m) \<and> oc_requests x \<noteq> [] \<and>
    (\<forall>n < length (oc_requests x). \<exists>sent. is_dict sent \<and>
      yson_entry sent =
        (case tr_transaction t of
           Some i \<Rightarrow> if takes_no_transaction command \<or> yson_entry parameters TRANSACTION_ID \<noteq> None then yson_entry parameters
                     else (yson_entry parameters)(TRANSACTION_ID \<mapsto> yson_str i)
         | None \<Rightarrow> yson_entry parameters)
        (ascii ''mutation_id'' \<mapsto> yson_str (mi_id m), ascii ''retry'' \<mapsto> yson_boolean (n > 0 \<or> mi_retry m)) \<and>
      oc_requests x ! n = fst (send parse fmt (ce_bufs env) t (ce_net env (Suc n)) (ce_clock env (Suc n))
        (address (oc_destination x)) verb command sent payload) \<and>
      (\<forall>q \<in> set (oc_requests x ! n). \<exists>encoded. to_string fmt (value_serde sent) Text = Inr encoded \<and>
        (ascii ''X-YT-Parameters'', encoded) \<in> set (rqs_headers q)))"
proof -
  obtain m where m: "chosen_mutation_id r given (ce_draws env) = Some m" "case given of Some g \<Rightarrow> m = g | None \<Rightarrow> \<not> mi_retry m"
    using assms(2) by (cases given) (auto simp: chosen_mutation_id_def mutation_new_def)
  obtain p where p: "stamped t command parameters = Some p" "is_dict p"
    "yson_entry p = (case tr_transaction t of
       Some i \<Rightarrow> if takes_no_transaction command \<or> yson_entry parameters TRANSACTION_ID \<noteq> None then yson_entry parameters
                 else (yson_entry parameters)(TRANSACTION_ID \<mapsto> yson_str i)
     | None \<Rightarrow> yson_entry parameters)"
    using stamped_dict [OF assms(1)] by blast
  obtain q where q: "\<And>again. tagged (Some m) p again = Some (q again)" "\<And>again. is_dict (q again)"
    "\<And>again. yson_entry (q again) = (yson_entry p)
       (ascii ''mutation_id'' \<mapsto> yson_str (mi_id m), ascii ''retry'' \<mapsto> yson_boolean (again \<or> mi_retry m))"
    using tagged_dict [OF p(2), of m] by metis
  have flag: "(\<lambda>is_retry. if is_retry then q True else q False) = q" by (auto simp: fun_eq_iff)
  obtain x where x: "call_with parse fmt t env s verb command parameters payload r given = Some x"
      "run_call parse t r env s q
        (\<lambda>base n q. send parse fmt (ce_bufs env) t (ce_net env n) (ce_clock env n) base verb command q payload) = x"
    using m(1) p(1) q(1) flag by (auto simp: call_with_def)
  note requests = run_call_requests [OF x(2)]
  have "\<exists>sent. is_dict sent \<and> yson_entry sent = (yson_entry p)
        (ascii ''mutation_id'' \<mapsto> yson_str (mi_id m), ascii ''retry'' \<mapsto> yson_boolean (n > 0 \<or> mi_retry m)) \<and>
      oc_requests x ! n = fst (send parse fmt (ce_bufs env) t (ce_net env (Suc n)) (ce_clock env (Suc n))
        (address (oc_destination x)) verb command sent payload) \<and>
      (\<forall>q \<in> set (oc_requests x ! n). \<exists>encoded. to_string fmt (value_serde sent) Text = Inr encoded \<and>
        (ascii ''X-YT-Parameters'', encoded) \<in> set (rqs_headers q))" if "n < length (oc_requests x)" for n
  proof (intro exI [of _ "q (n > 0)"] conjI ballI)
    show sent: "oc_requests x ! n = fst (send parse fmt (ce_bufs env) t (ce_net env (Suc n)) (ce_clock env (Suc n))
        (address (oc_destination x)) verb command (q (n > 0)) payload)"
      using that by (simp add: requests del: upt_Suc)
    show "\<exists>encoded. to_string fmt (value_serde (q (n > 0))) Text = Inr encoded \<and>
        (ascii ''X-YT-Parameters'', encoded) \<in> set (rqs_headers one)" if "one \<in> set (oc_requests x ! n)" for one
      using dispatch_carries [OF that [unfolded sent send_requests]] by (auto simp: command_headers_def)
  qed (simp_all add: q)
  then show ?thesis using x(1) m(2) unfolding p(3) by (intro exI [of _ x] exI [of _ m]) (simp add: requests)
qed

text \<open>A cluster that is busy once, and the two attempts of a mutation.\<close>

definition busy_env :: call_env where
  "busy_env =
     \<lparr>ce_net = (\<lambda>n _ _. Inr (sample_response (if n = 1 then 503 else 200) None)), ce_clock = (\<lambda>_ _. 0), ce_bufs = (\<lambda>_. 9),
      ce_route = sample_input 9 (Inr []), ce_after = 9, ce_draws = (1, 2)\<rparr>"

definition patient_transport :: transport where
  "patient_transport = sample_transport\<lparr>tr_retries := policy_default\<rparr>"

definition replayed :: mutation_id where "replayed = \<lparr>mi_id = ascii ''1-2-3-4'', mi_retry = False\<rparr>"

lemma patient_simps:
  "tr_retries patient_transport = policy_default" "tr_transaction patient_transport = None"
  "tr_base patient_transport = ascii ''https://h.net''" "tr_response_limit patient_transport = 9"
  "unusable patient_transport (ascii ''https://h.net'') = None" "tls_unavailable patient_transport = (\<lambda>_. None)"
  "deadline_for patient_transport False 0 = Some 9"
  by (simp_all add: patient_transport_def sample_transport_def render_caller_headers_def unusable_def tls_unavailable_def
      deadline_for_def instant_add_def INSTANT_MAX_def fun_eq_iff)

lemma busy_simps: "ce_bufs busy_env = (\<lambda>_. 9)" "ce_clock busy_env n = (\<lambda>_. 0)" "ce_draws busy_env = (1, 2)"
  by (simp_all add: busy_env_def)

lemma busy_send:
  assumes "to_string no_formatters (value_serde q) Text = Inr encoded"
  shows "snd (send (\<lambda>_. None) no_formatters (\<lambda>_. 9) patient_transport (ce_net busy_env n) (\<lambda>_. 0) (ascii ''https://h.net'') verb
      command q None) =
    (if n = 1 then Inl (status_error command (sample_response 503 None) []) else Inr [])"
  by (simp add: send_def dispatch_def assms patient_simps split_beta request_loop.simps Client_Transport.remaining_def
      redirect_def read_capped_exact busy_env_def sample_response_def is_success_def)

lemma mutation_retried_under_one_id_witness:
  "\<exists>x. call_with (\<lambda>_. None) no_formatters patient_transport busy_env Unasked Post (ascii ''create'') (plain (Map [])) None
     WithMutationId (Some replayed) = Some x \<and> length (oc_requests x) = 2 \<and>
     (\<exists>first second. yson_entry first (ascii ''retry'') = Some (yson_boolean False) \<and>
       yson_entry second (ascii ''retry'') = Some (yson_boolean True) \<and>
       yson_entry first (ascii ''mutation_id'') = yson_entry second (ascii ''mutation_id'') \<and>
       oc_requests x ! 0 = fst (send (\<lambda>_. None) no_formatters (\<lambda>_. 9) patient_transport (ce_net busy_env 1) (\<lambda>_. 0)
         (address (oc_destination x)) Post (ascii ''create'') first None) \<and>
       oc_requests x ! 1 = fst (send (\<lambda>_. None) no_formatters (\<lambda>_. 9) patient_transport (ce_net busy_env 2) (\<lambda>_. 0)
         (address (oc_destination x)) Post (ascii ''create'') second None))"
proof -
  let ?call = "call_with (\<lambda>_. None) no_formatters patient_transport busy_env Unasked Post (ascii ''create'') (plain (Map [])) None
     WithMutationId (Some replayed)"
  let ?sent = "\<lambda>again. plain (Map [(ascii ''mutation_id'', yson_str (ascii ''1-2-3-4'')), (ascii ''retry'', yson_boolean again)])"
  have tag: "tagged (Some replayed) (plain (Map [])) True = Some (?sent True)"
    "tagged (Some replayed) (plain (Map [])) False = Some (?sent False)"
    by code_simp+
  have "\<not> isl (to_string no_formatters (value_serde (?sent True)) Text)"
    "\<not> isl (to_string no_formatters (value_serde (?sent False)) Text)"
    by code_simp+
  then obtain s1 s2 where enc: "to_string no_formatters (value_serde (?sent True)) Text = Inr s1"
      "to_string no_formatters (value_serde (?sent False)) Text = Inr s2"
    by (metis obj_sumE isl_def)
  have "is_retriable (\<lambda>_. None) (status_error (ascii ''create'') (sample_response 503 None) [])"
    by (simp add: status_error_def sample_response_def RETRIABLE_STATUSES_def)
  then have two: "map_option (length \<circ> oc_requests) ?call = Some 2"
    by (simp add: call_with_def chosen_mutation_id_def stamped_def in_transaction_def patient_simps tag run_call_def base_for_def
        retry_run_def allowed_attempts_def policy_default_def run_from.simps split_beta Let_def after_heavy_def busy_simps
        busy_send [OF enc(1)] busy_send [OF enc(2)])
  have dict: "is_dict (plain (Map []))" by (simp add: is_dict_def)
  have names: "ascii ''mutation_id'' \<noteq> ascii ''retry''" by code_simp
  show ?thesis
    using mutation_retried_under_one_id [OF dict disjI1 [OF refl], of "\<lambda>_. None" no_formatters patient_transport busy_env Unasked
        Post "ascii ''create''" None "Some replayed"]
    unfolding patient_simps option.case
  proof (elim exE conjE, goal_cases)
    case (1 x m)
    have len: "length (oc_requests x) = 2" using two 1(1) by simp
    then have "0 < length (oc_requests x)" "1 < length (oc_requests x)" by simp_all
    note sent = 1(4) [rule_format, OF this(1)] 1(4) [rule_format, OF this(2)]
    let ?entries = "\<lambda>again. (yson_entry (plain (Map [])))(ascii ''mutation_id'' \<mapsto> yson_str (mi_id m),
      ascii ''retry'' \<mapsto> yson_boolean again)"
    let ?sent = "\<lambda>n q. oc_requests x ! n = fst (send (\<lambda>_. None) no_formatters (\<lambda>_. 9) patient_transport
      (ce_net busy_env (Suc n)) (\<lambda>_. 0) (address (oc_destination x)) Post (ascii ''create'') q None)"
    have "\<exists>q. yson_entry q = ?entries (0 < (0 :: nat) \<or> mi_retry m) \<and> ?sent 0 q"
      "\<exists>q. yson_entry q = ?entries (0 < (1 :: nat) \<or> mi_retry m) \<and> ?sent 1 q"
      using sent unfolding busy_simps by blast+
    then obtain first second where "yson_entry first = ?entries False" "?sent 0 first" "yson_entry second = ?entries True" "?sent 1 second"
      using 1(2) by (auto simp: replayed_def)
    then show ?case using 1(1) len names by (intro exI [of _ x] conjI exI [of _ first] exI [of _ second]) (simp_all add: numeral_2_eq_2)
  qed
qed

end
