(* ===== verification/Client_Path.thy ===== *)
theory Client_Path
  imports Client_Transport
begin

text \<open>
  \<open>crates/ytsaurus-client/src/path.rs\<close>: table paths with a row and column selection, the guards
  that keep a selection off a write and a second one off a read, row ranges and key tuples. A
  refusal is a constructor with what its text interpolates. The rows a range selects are stated
  after \<open>docs/protocol-reference.md\<close>, which records how the cluster reads each limit.
\<close>

section \<open>Orderings\<close>

datatype ordering = Less | Equal | Greater

definition cmp :: "'a::linorder \<Rightarrow> 'a \<Rightarrow> ordering" where
  "cmp a b = (if a < b then Less else if a = b then Equal else Greater)"

lemma cmp_simps [simp]:
  "cmp a b = Less \<longleftrightarrow> a < b" "cmp a b = Equal \<longleftrightarrow> a = b" "cmp a b = Greater \<longleftrightarrow> b < a"
  by (auto simp: cmp_def)

text \<open>\<open>f64::partial_cmp\<close> on the bits: sign and magnitude, one zero, and no order on a NaN.\<close>

definition f64_rank :: "f64 \<Rightarrow> int" where
  "f64_rank v = (if f64_sign_negative v then - uint (take_bit 63 v) else uint (take_bit 63 v))"

definition f64_partial_cmp :: "f64 \<Rightarrow> f64 \<Rightarrow> ordering option" where
  "f64_partial_cmp a b =
     (if f64_is_nan a \<or> f64_is_nan b then None else Some (cmp (f64_rank a) (f64_rank b)))"

section \<open>Keys and limits\<close>

type_synonym key = "yson_value list"

fun component_ordering :: "yson_node \<Rightarrow> yson_node \<Rightarrow> ordering option" where
  "component_ordering (Boolean a) (Boolean b) = Some (cmp a b)"
| "component_ordering (Int64 a) (Int64 b) = Some (cmp (sint a) (sint b))"
| "component_ordering (Uint64 a) (Uint64 b) = Some (cmp a b)"
| "component_ordering (String a) (String b) = Some (cmp a b)"
| "component_ordering (Double a) (Double b) = f64_partial_cmp a b"
| "component_ordering _ _ = None"

text \<open>Components are compared in pairs; when all agree, the lengths decide.\<close>

fun key_ordering :: "key \<Rightarrow> key \<Rightarrow> ordering option" where
  "key_ordering (a # as) (b # bs) =
     (if attributes a \<noteq> None \<or> attributes b \<noteq> None then None
      else case component_ordering (node a) (node b) of
             None \<Rightarrow> None
           | Some Equal \<Rightarrow> key_ordering as bs
           | Some c \<Rightarrow> Some c)"
| "key_ordering as bs = Some (cmp (length as) (length bs))"

datatype limit =
    RowIndex i64
  | Key key
  | KeyBound bytes key

fun limit_key :: "limit \<Rightarrow> key option" where
  "limit_key (RowIndex _) = None"
| "limit_key (Key k) = Some k"
| "limit_key (KeyBound _ k) = Some k"

fun limit_to_yson :: "limit \<Rightarrow> yson_value" where
  "limit_to_yson (RowIndex i) = yson_map [(ascii ''row_index'', yson_int i)]"
| "limit_to_yson (Key k) = yson_map [(ascii ''key'', yson_list k)]"
| "limit_to_yson (KeyBound relation k) =
     yson_map [(ascii ''key_bound'', yson_list [yson_str relation, yson_list k])]"

section \<open>Row ranges\<close>

text \<open>\<open>std::ops::Bound\<close>; a Rust range is its start and end bound.\<close>

datatype 'a bound = Included 'a | Excluded 'a | Unbounded

record row_range =
  rr_lower :: "limit option"
  rr_upper :: "limit option"
  rr_exact :: "limit option"

definition i64_MAX :: i64 where "i64_MAX = 0x7FFFFFFFFFFFFFFF"

definition saturating_inc :: "i64 \<Rightarrow> i64" where
  "saturating_inc i = (if i = i64_MAX then i else i + 1)"

definition checked_inc :: "i64 \<Rightarrow> i64 option" where
  "checked_inc i = (if i = i64_MAX then None else Some (i + 1))"

definition range_rows :: "i64 bound \<Rightarrow> i64 bound \<Rightarrow> row_range" where
  "range_rows start stop =
     \<lparr>rr_lower = (case start of
                    Included i \<Rightarrow> Some (RowIndex i)
                  | Excluded i \<Rightarrow> Some (RowIndex (saturating_inc i))
                  | Unbounded \<Rightarrow> None),
      rr_upper = (case stop of
                    Included i \<Rightarrow> map_option RowIndex (checked_inc i)
                  | Excluded i \<Rightarrow> Some (RowIndex i)
                  | Unbounded \<Rightarrow> None),
      rr_exact = None\<rparr>"

definition range_keys :: "key bound \<Rightarrow> key bound \<Rightarrow> row_range" where
  "range_keys start stop =
     \<lparr>rr_lower = (case start of
                    Included k \<Rightarrow> Some (Key k)
                  | Excluded k \<Rightarrow> Some (KeyBound (ascii ''>'') k)
                  | Unbounded \<Rightarrow> None),
      rr_upper = (case stop of
                    Included k \<Rightarrow> Some (KeyBound (ascii ''<='') k)
                  | Excluded k \<Rightarrow> Some (Key k)
                  | Unbounded \<Rightarrow> None),
      rr_exact = None\<rparr>"

definition exact_key :: "key \<Rightarrow> row_range" where
  "exact_key k = \<lparr>rr_lower = None, rr_upper = None, rr_exact = Some (Key k)\<rparr>"

definition range_to_yson :: "row_range \<Rightarrow> yson_value" where
  "range_to_yson r =
     yson_map
       ((case rr_exact r of Some l \<Rightarrow> [(ascii ''exact'', limit_to_yson l)] | None \<Rightarrow> []) @
        (case rr_lower r of Some l \<Rightarrow> [(ascii ''lower_limit'', limit_to_yson l)] | None \<Rightarrow> []) @
        (case rr_upper r of Some l \<Rightarrow> [(ascii ''upper_limit'', limit_to_yson l)] | None \<Rightarrow> []))"

datatype range_refusal = Negative_index i64 | Rows_reversed i64 i64 | Keys_reversed

fun negative_index :: "limit option list \<Rightarrow> i64 option" where
  "negative_index [] = None"
| "negative_index (Some (RowIndex i) # ls) = (if sint i < 0 then Some i else negative_index ls)"
| "negative_index (_ # ls) = negative_index ls"

definition range_refusal :: "row_range \<Rightarrow> range_refusal option" where
  "range_refusal r =
     (case negative_index [rr_lower r, rr_upper r] of
        Some i \<Rightarrow> Some (Negative_index i)
      | None \<Rightarrow>
          (case (rr_lower r, rr_upper r) of
             (Some (RowIndex l), Some (RowIndex u)) \<Rightarrow>
               if sint l > sint u then Some (Rows_reversed l u) else None
           | (Some l, Some u) \<Rightarrow>
               (case (limit_key l, limit_key u) of
                  (Some a, Some b) \<Rightarrow> if key_ordering a b = Some Greater then Some Keys_reversed else None
                | _ \<Rightarrow> None)
           | _ \<Rightarrow> None))"

section \<open>Paths\<close>

record table_path =
  tp_path :: bytes
  tp_append :: bool
  tp_columns :: "bytes list option"
  tp_ranges :: "row_range list"

definition table_path_new :: "bytes \<Rightarrow> table_path" where
  "table_path_new path = \<lparr>tp_path = path, tp_append = False, tp_columns = None, tp_ranges = []\<rparr>"

definition path_append :: "table_path \<Rightarrow> table_path" where
  "path_append p = p\<lparr>tp_append := True\<rparr>"

definition path_columns :: "bytes list \<Rightarrow> table_path \<Rightarrow> table_path" where
  "path_columns cs p = p\<lparr>tp_columns := Some cs\<rparr>"

definition path_range :: "row_range \<Rightarrow> table_path \<Rightarrow> table_path" where
  "path_range r p = p\<lparr>tp_ranges := tp_ranges p @ [r]\<rparr>"

definition path_to_yson :: "table_path \<Rightarrow> yson_value" where
  "path_to_yson p =
     (let attrs =
        (if tp_append p then [(ascii ''append'', yson_boolean True)] else []) @
        (case tp_columns p of Some cs \<Rightarrow> [(ascii ''columns'', yson_list (map yson_str cs))] | None \<Rightarrow> []) @
        (if tp_ranges p \<noteq> [] then [(ascii ''ranges'', yson_list (map range_to_yson (tp_ranges p)))] else [])
      in if attrs = [] then yson_str (tp_path p) else yson_with_attributes (yson_str (tp_path p)) attrs)"

text \<open>\<open>Display\<close>: the attributes in text form, a question mark for one that cannot be written.\<close>

definition path_display :: "formatters \<Rightarrow> table_path \<Rightarrow> bytes" where
  "path_display fmt p =
     (case attributes (path_to_yson p) of
        None \<Rightarrow> []
      | Some attrs \<Rightarrow>
          (let entry = (\<lambda>(name, v). from_utf8_lossy name @ [0x3D] @
                 (case to_string fmt (value_serde v) Text of Inr s \<Rightarrow> s | Inl _ \<Rightarrow> ascii ''?''))
           in [0x3C] @ entry (hd attrs) @ concat (map (\<lambda>a. [0x3B] @ entry a) (tl attrs)) @ [0x3E])) @ tp_path p"

fun first_unescaped_selector :: "bytes \<Rightarrow> u8 option" where
  "first_unescaped_selector [] = None"
| "first_unescaped_selector (b # r) =
     (if b = 0x5C then first_unescaped_selector (tl r)
      else if b = 0x5B then Some 0x5B
      else if b = 0x7B then Some 0x7B
      else first_unescaped_selector r)"

record selectors =
  sel_rows :: bool
  sel_columns :: bool

fun selectors_from :: "bytes \<Rightarrow> selectors \<Rightarrow> selectors" where
  "selectors_from [] found = found"
| "selectors_from (b # r) found =
     (if b = 0x5C then selectors_from (tl r) found
      else if b = 0x5B then selectors_from r (found\<lparr>sel_rows := True\<rparr>)
      else if b = 0x7B then selectors_from r (found\<lparr>sel_columns := True\<rparr>)
      else selectors_from r found)"

definition unescaped_selectors :: "bytes \<Rightarrow> selectors" where
  "unescaped_selectors path = selectors_from path \<lparr>sel_rows = False, sel_columns = False\<rparr>"

definition opens_with_attributes :: "bytes \<Rightarrow> bool" where
  "opens_with_attributes path = has_prefix path [0x3C]"

datatype path_refusal =
    Write_of_columns table_path
  | Write_of_ranges table_path
  | Write_of_attributes bytes
  | Write_of_selector bytes u8
  | Read_of_range bytes range_refusal
  | Read_beside_attributes bytes
  | Columns_twice bytes bytes
  | Rows_twice bytes bytes

definition write_refusal :: "table_path \<Rightarrow> path_refusal option" where
  "write_refusal p =
     (if tp_columns p \<noteq> None then Some (Write_of_columns p)
      else if tp_ranges p \<noteq> [] then Some (Write_of_ranges p)
      else if opens_with_attributes (tp_path p) then Some (Write_of_attributes (tp_path p))
      else map_option (Write_of_selector (tp_path p)) (first_unescaped_selector (tp_path p)))"

definition selection_conflict :: "bytes \<Rightarrow> bool \<Rightarrow> bool \<Rightarrow> bytes \<Rightarrow> bytes \<Rightarrow> path_refusal option" where
  "selection_conflict path adding_columns adding_rows columns_source rows_source =
     (if \<not> adding_columns \<and> \<not> adding_rows then None
      else if opens_with_attributes path then Some (Read_beside_attributes path)
      else
        (let spelled = unescaped_selectors path
         in if adding_columns \<and> sel_columns spelled then Some (Columns_twice path columns_source)
            else if adding_rows \<and> sel_rows spelled then Some (Rows_twice path rows_source)
            else None))"

fun first_refusal :: "row_range list \<Rightarrow> range_refusal option" where
  "first_refusal [] = None"
| "first_refusal (r # rs) = (case range_refusal r of Some e \<Rightarrow> Some e | None \<Rightarrow> first_refusal rs)"

definition read_refusal :: "table_path \<Rightarrow> path_refusal option" where
  "read_refusal p =
     (case first_refusal (tp_ranges p) of
        Some e \<Rightarrow> Some (Read_of_range (tp_path p) e)
      | None \<Rightarrow>
          selection_conflict (tp_path p) (tp_columns p \<noteq> None) (tp_ranges p \<noteq> [])
            (ascii ''TablePath::columns'') (ascii ''TablePath::range''))"

end
