(* ===== verification/Client_Selection.thy ===== *)
theory Client_Selection
  imports Client_Path
begin

text \<open>
  What is proved of table paths: which rows a range selects, when a range is refused, and what a
  path may carry into a write or a read. The cluster's reading of a limit is the one that
  \<open>docs/protocol-reference.md\<close> records: \<open>row_index\<close> is inclusive below and exclusive above, \<open>key\<close>
  compares a whole key, and \<open>key_bound\<close> the row's key cut to the length of the bound.
\<close>

section \<open>What a path spells\<close>

text \<open>The characters of a path string, each with whether a backslash escapes it.\<close>

fun path_characters :: "bytes \<Rightarrow> (bool \<times> u8) list" where
  "path_characters [] = []"
| "path_characters (b # r) =
     (if b = 0x5C then (if r = [] then [] else (True, hd r) # path_characters (tl r))
      else (False, b) # path_characters r)"

definition spells :: "u8 \<Rightarrow> bytes \<Rightarrow> bool" where
  "spells b path = ((False, b) \<in> set (path_characters path))"

lemma first_unescaped_selector_None:
  "first_unescaped_selector path = None \<longleftrightarrow> \<not> spells 0x5B path \<and> \<not> spells 0x7B path"
  by (induction path rule: path_characters.induct) (auto simp: spells_def)

lemma selectors_from_rows: "sel_rows (selectors_from path found) \<longleftrightarrow> sel_rows found \<or> spells 0x5B path"
  by (induction path found rule: selectors_from.induct) (auto simp: spells_def)

lemma selectors_from_columns:
  "sel_columns (selectors_from path found) \<longleftrightarrow> sel_columns found \<or> spells 0x7B path"
  by (induction path found rule: selectors_from.induct) (auto simp: spells_def)

section \<open>The order of keys\<close>

fun flip :: "ordering \<Rightarrow> ordering" where
  "flip Less = Greater"
| "flip Equal = Equal"
| "flip Greater = Less"

text \<open>The order of the outer two from those of neighbours, when neither is \<open>Greater\<close>.\<close>

fun chain :: "ordering \<Rightarrow> ordering \<Rightarrow> ordering" where
  "chain Equal c = c"
| "chain c _ = c"

lemma cmp_flip: "cmp b a = flip (cmp a b)"
  by (auto simp: cmp_def)

lemma cmp_chain: "cmp a b \<noteq> Greater \<Longrightarrow> cmp b c \<noteq> Greater \<Longrightarrow> cmp a c = chain (cmp a b) (cmp b c)"
  by (auto simp: cmp_def split: if_splits)

lemma component_flip: "component_ordering a b = Some c \<Longrightarrow> component_ordering b a = Some (flip c)"
  by (cases a; cases b) (auto simp: f64_partial_cmp_def intro: cmp_flip split: if_splits)

lemma f64_chain:
  "f64_partial_cmp a b = Some c \<Longrightarrow> f64_partial_cmp b d = Some e \<Longrightarrow> c \<noteq> Greater \<Longrightarrow> e \<noteq> Greater \<Longrightarrow>
   f64_partial_cmp a d = Some (chain c e)"
  unfolding f64_partial_cmp_def by (auto split: if_splits intro: cmp_chain)

lemma component_chain:
  assumes ab: "component_ordering a b = Some c" and bd: "component_ordering b d = Some e"
    and ce: "c \<noteq> Greater" "e \<noteq> Greater"
  shows "component_ordering a d = Some (chain c e)"
proof (cases a)
  case (Boolean x)
  then obtain y where b: "b = Boolean y" and c: "c = cmp x y" using ab by (cases b) auto
  then obtain z where "d = Boolean z" "e = cmp y z" using bd by (cases d) auto
  then show ?thesis using Boolean c ce by (simp add: cmp_chain [of x y z])
next
  case (Int64 x)
  then obtain y where b: "b = Int64 y" and c: "c = cmp (sint x) (sint y)" using ab by (cases b) auto
  then obtain z where "d = Int64 z" "e = cmp (sint y) (sint z)" using bd by (cases d) auto
  then show ?thesis using Int64 c ce by (simp add: cmp_chain [of "sint x" "sint y" "sint z"])
next
  case (Uint64 x)
  then obtain y where b: "b = Uint64 y" and c: "c = cmp x y" using ab by (cases b) auto
  then obtain z where "d = Uint64 z" "e = cmp y z" using bd by (cases d) auto
  then show ?thesis using Uint64 c ce by (simp add: cmp_chain [of x y z])
next
  case (String x)
  then obtain y where b: "b = String y" and c: "c = cmp x y" using ab by (cases b) auto
  then obtain z where "d = String z" "e = cmp y z" using bd by (cases d) auto
  then show ?thesis using String c ce by (simp add: cmp_chain [of x y z])
next
  case (Double x)
  then obtain y where b: "b = Double y" and c: "f64_partial_cmp x y = Some c" using ab by (cases b) auto
  then obtain z where "d = Double z" "f64_partial_cmp y z = Some e" using bd by (cases d) auto
  then show ?thesis using Double c ce by (simp add: f64_chain [of x y c z e])
qed (use ab in simp_all)

lemma key_ordering_Cons:
  "key_ordering (a # as) (b # bs) = Some c \<longleftrightarrow>
     attributes a = None \<and> attributes b = None \<and>
     (\<exists>d. component_ordering (node a) (node b) = Some d \<and>
       (if d = Equal then key_ordering as bs = Some c else c = d))"
  by (auto split: option.splits ordering.splits)

declare key_ordering.simps(1) [simp del]

lemma key_flip: "key_ordering a b = Some c \<Longrightarrow> key_ordering b a = Some (flip c)"
proof (induction a arbitrary: b)
  case Nil
  then show ?case using cmp_flip [of "length b" 0] by (cases b) auto
next
  case step: (Cons x xs)
  show ?case
  proof (cases b)
    case Nil
    then show ?thesis using step.prems by (auto simp: cmp_def)
  next
    case (Cons y ys)
    then obtain d where d: "component_ordering (node x) (node y) = Some d" "attributes x = None" "attributes y = None"
      using step.prems by (auto simp: key_ordering_Cons)
    then show ?thesis
      using Cons step.IH step.prems component_flip [OF d(1)] by (cases d) (auto simp: key_ordering_Cons)
  qed
qed

lemma key_chain:
  "key_ordering a b = Some c \<Longrightarrow> key_ordering b d = Some e \<Longrightarrow> c \<noteq> Greater \<Longrightarrow> e \<noteq> Greater \<Longrightarrow>
   key_ordering a d = Some (chain c e)"
proof (induction a arbitrary: b d)
  case Nil
  then show ?case by (cases b; cases d) (auto simp: cmp_def)
next
  case (Cons x xs)
  from Cons.prems(1,3) obtain y ys where b: "b = y # ys" by (cases b) auto
  from Cons.prems(2,4) obtain z zs where d: "d = z # zs" unfolding b by (cases d) auto
  from Cons.prems(1) obtain c' where c': "component_ordering (node x) (node y) = Some c'" "attributes x = None"
      "if c' = Equal then key_ordering xs ys = Some c else c = c'"
    unfolding b key_ordering_Cons by blast
  from Cons.prems(2) obtain e' where e': "component_ordering (node y) (node z) = Some e'" "attributes z = None"
      "if e' = Equal then key_ordering ys zs = Some e else e = e'"
    unfolding b d key_ordering_Cons by blast
  have ne: "c' \<noteq> Greater" "e' \<noteq> Greater" using c'(3) e'(3) Cons.prems(3,4) by (auto split: if_splits)
  have outer: "component_ordering (node x) (node z) = Some (chain c' e')"
    by (rule component_chain [OF c'(1) e'(1) ne])
  show ?case
  proof (cases "c' = Equal \<and> e' = Equal")
    case True
    then show ?thesis
      using Cons.IH [of ys zs] Cons.prems(3,4) c' e' outer by (simp add: d key_ordering_Cons)
  next
    case False
    then have "chain c' e' = Less" "chain c e = Less"
      using ne c'(3) e'(3) Cons.prems(3,4) by (cases c'; cases e'; cases c; cases e; simp)+
    then show ?thesis using c' e' outer by (simp add: d key_ordering_Cons)
  qed
qed

lemma key_ordering_take_Greater:
  "key_ordering (take (length a) k) a = Some Greater \<Longrightarrow> key_ordering k a = Some Greater"
proof (induction a arbitrary: k)
  case (Cons x xs)
  then show ?case by (cases k) (auto simp: key_ordering_Cons split: if_splits)
qed simp

lemma key_ordering_take_both:
  "key_ordering a k = Some c \<Longrightarrow> c \<noteq> Greater \<Longrightarrow>
   \<exists>e. key_ordering (take m a) (take m k) = Some e \<and> e \<noteq> Greater"
proof (induction a arbitrary: k m)
  case Nil
  then show ?case by simp
next
  case (Cons x xs)
  then obtain y ys where k: "k = y # ys" by (cases k) auto
  show ?case
  proof (cases m)
    case (Suc m')
    then show ?thesis using Cons by (auto simp: k key_ordering_Cons split: if_splits)
  qed simp
qed

section \<open>The rows a range selects\<close>

definition bound_holds :: "bytes \<Rightarrow> key \<Rightarrow> key \<Rightarrow> bool" where
  "bound_holds relation b k =
     (case key_ordering (take (length b) k) b of
        None \<Rightarrow> False
      | Some c \<Rightarrow> (if relation = ascii ''>'' then c = Greater else relation = ascii ''<='' \<and> c \<noteq> Greater))"

text \<open>Row \<open>n\<close> of the table, whose key is \<open>k\<close>, against the lower, the upper and the exact limit.\<close>

fun above :: "limit \<Rightarrow> nat \<Rightarrow> key \<Rightarrow> bool" where
  "above (RowIndex i) n k = (sint i \<le> int n)"
| "above (Key b) n k = (key_ordering b k = Some Less \<or> key_ordering b k = Some Equal)"
| "above (KeyBound relation b) n k = bound_holds relation b k"

fun below :: "limit \<Rightarrow> nat \<Rightarrow> key \<Rightarrow> bool" where
  "below (RowIndex i) n k = (int n < sint i)"
| "below (Key b) n k = (key_ordering k b = Some Less)"
| "below (KeyBound relation b) n k = bound_holds relation b k"

fun exactly :: "limit \<Rightarrow> nat \<Rightarrow> key \<Rightarrow> bool" where
  "exactly (RowIndex i) n k = (int n = sint i)"
| "exactly (Key b) n k = (key_ordering (take (length b) k) b = Some Equal)"
| "exactly (KeyBound relation b) n k = False"

definition range_selects :: "row_range \<Rightarrow> nat \<Rightarrow> key \<Rightarrow> bool" where
  "range_selects r n k =
     ((case rr_lower r of None \<Rightarrow> True | Some l \<Rightarrow> above l n k) \<and>
      (case rr_upper r of None \<Rightarrow> True | Some l \<Rightarrow> below l n k) \<and>
      (case rr_exact r of None \<Rightarrow> True | Some l \<Rightarrow> exactly l n k))"

text \<open>The indices in a Rust range, its first index, and the index it ends before.\<close>

definition contains_index :: "i64 bound \<Rightarrow> i64 bound \<Rightarrow> int \<Rightarrow> bool" where
  "contains_index start stop n =
     ((case start of Included i \<Rightarrow> sint i \<le> n | Excluded i \<Rightarrow> sint i < n | Unbounded \<Rightarrow> True) \<and>
      (case stop of Included i \<Rightarrow> n \<le> sint i | Excluded i \<Rightarrow> n < sint i | Unbounded \<Rightarrow> True))"

fun first_index :: "i64 bound \<Rightarrow> int" where
  "first_index (Included i) = sint i"
| "first_index (Excluded i) = min (sint i + 1) (2 ^ 63 - 1)"
| "first_index Unbounded = 0"

fun stop_index :: "i64 bound \<Rightarrow> int" where
  "stop_index (Included i) = sint i + 1"
| "stop_index (Excluded i) = sint i"
| "stop_index Unbounded = 2 ^ 63"

lemma sint_i64_MAX: "sint i64_MAX = 2 ^ 63 - 1"
  by (simp add: i64_MAX_def)

lemma sint_le_MAX: "sint (i :: i64) \<le> 2 ^ 63 - 1"
  using sint_less [of i] by simp

lemma sint_eq_MAX: "sint (i :: i64) = 2 ^ 63 - 1 \<longleftrightarrow> i = i64_MAX"
  using sint_i64_MAX by (metis signed_word_eqI)

lemma sint_inc:
  assumes "i \<noteq> i64_MAX"
  shows "sint (i + 1) = sint i + 1"
proof -
  have "sint i < 2 ^ 63 - 1" using assms sint_le_MAX [of i] sint_eq_MAX [of i] by linarith
  moreover have "- (2 ^ 63) \<le> sint i" using sint_ge [of i] by simp
  ultimately show ?thesis by (simp add: sint_word_ariths(1) signed_take_bit_int_eq_self)
qed

lemma sint_saturating_inc: "sint (saturating_inc i) = min (sint i + 1) (2 ^ 63 - 1)"
proof (cases "i = i64_MAX")
  case True
  then show ?thesis by (simp add: saturating_inc_def sint_i64_MAX)
next
  case False
  then show ?thesis using sint_le_MAX [of i] sint_eq_MAX [of i] by (simp add: saturating_inc_def sint_inc)
qed

lemma range_refusal_rows:
  "range_refusal (range_rows start stop) = None \<longleftrightarrow>
     0 \<le> first_index start \<and> 0 \<le> stop_index stop \<and> first_index start \<le> stop_index stop"
proof -
  have "sint i \<le> 9223372036854775808" "\<not> 9223372036854775808 < sint i" for i :: i64
    using sint_le_MAX [of i] by simp_all
  then show ?thesis
    using sint_le_MAX
    by (cases start; cases stop)
      (auto simp: range_refusal_def range_rows_def checked_inc_def sint_saturating_inc sint_i64_MAX sint_inc not_less min_def
        split: if_splits)
qed

text \<open>C23: a range of row indices selects, as the cluster reads its limits, exactly the rows the Rust
  range contains, up to the last index a 64-bit row number can have; it is refused exactly when one
  of its ends lies before row 0 or it ends before it starts, and a range refused for being reversed
  contains no row.\<close>

theorem row_range_exact:
  assumes "n < 2 ^ 63 - 1"
  shows "(range_selects (range_rows start stop) n k \<longleftrightarrow> contains_index start stop (int n)) \<and>
    (range_refusal (range_rows start stop) = None \<longleftrightarrow>
       0 \<le> first_index start \<and> 0 \<le> stop_index stop \<and> first_index start \<le> stop_index stop) \<and>
    (range_refusal (range_rows start stop) = Some (Rows_reversed l u) \<longrightarrow> \<not> contains_index start stop (int n))"
proof (intro conjI impI)
  have n: "int n < 2 ^ 63 - 1" using assms by simp
  show sel: "range_selects (range_rows start stop) n k \<longleftrightarrow> contains_index start stop (int n)"
    using n by (cases start; cases stop)
      (auto simp: range_selects_def range_rows_def contains_index_def checked_inc_def sint_saturating_inc sint_i64_MAX
        sint_inc split: if_splits)
  show "\<not> contains_index start stop (int n)"
    if "range_refusal (range_rows start stop) = Some (Rows_reversed l u)"
    using that n unfolding sel [symmetric]
    by (cases start; cases stop)
      (auto simp: range_selects_def range_refusal_def range_rows_def split: if_splits option.splits)
qed (rule range_refusal_rows)

theorem row_range_exact_witness:
  "range_selects (range_rows (Included 3) (Included 5)) 5 [] \<and> range_refusal (range_rows (Excluded 7) (Included 2)) \<noteq> None"
  using row_range_exact [of 5 "Included 3" "Included 5" "[]"] row_range_exact [of 5 "Excluded 7" "Included 2" "[]"]
  by (simp add: contains_index_def)

section \<open>Ranges of keys\<close>

text \<open>Two keys of which the longer one starts with the other.\<close>

definition key_extends :: "key \<Rightarrow> key \<Rightarrow> bool" where
  "key_extends a b = (length b < length a \<and> key_ordering (take (length b) a) b = Some Equal)"

lemma ascii_relations [simp]: "ascii ''<='' \<noteq> ascii ''>''" "ascii ''>'' \<noteq> ascii ''<=''"
  by (simp_all add: ascii_eq_iff)

lemma key_ordering_take_Less:
  "key_ordering (take (length b) a) b = Some Less \<Longrightarrow> key_ordering a b = Some Less"
proof (induction b arbitrary: a)
  case (Cons y ys)
  then show ?case by (cases a) (auto simp: key_ordering_Cons split: if_splits)
qed simp

lemma key_less_trans:
  "key_ordering a k = Some c \<Longrightarrow> c \<noteq> Greater \<Longrightarrow> key_ordering k b = Some e \<Longrightarrow> e \<noteq> Greater \<Longrightarrow>
   key_ordering a b \<noteq> Some Greater"
  using key_chain [of a k c b e] by (cases c) auto

lemma start_below:
  assumes "above l n k" "l = Key a \<or> l = KeyBound (ascii ''>'') a"
  obtains c where "key_ordering a k = Some c" "c \<noteq> Greater"
  using assms(2)
proof
  assume "l = Key a"
  then show thesis using assms(1) that by auto
next
  assume "l = KeyBound (ascii ''>'') a"
  then have "key_ordering k a = Some Greater"
    using assms(1) by (auto simp: bound_holds_def intro: key_ordering_take_Greater split: option.splits)
  then show thesis using key_flip that by fastforce
qed

lemma keys_refused_limits:
  assumes "range_refusal (range_keys start stop) = Some Keys_reversed"
  obtains a b l u where "rr_lower (range_keys start stop) = Some l" "rr_upper (range_keys start stop) = Some u"
    "l = Key a \<or> l = KeyBound (ascii ''>'') a" "start = Included a \<or> start = Excluded a"
    "u = Key b \<and> stop = Excluded b \<or> u = KeyBound (ascii ''<='') b \<and> stop = Included b"
    "key_ordering a b = Some Greater"
proof -
  have bounds: "start \<noteq> Unbounded" "stop \<noteq> Unbounded"
    using assms by (cases start; cases stop; simp add: range_refusal_def range_keys_def)+
  define a where "a = (case start of Included a \<Rightarrow> a | Excluded a \<Rightarrow> a | Unbounded \<Rightarrow> [])"
  define b where "b = (case stop of Included b \<Rightarrow> b | Excluded b \<Rightarrow> b | Unbounded \<Rightarrow> [])"
  have "key_ordering a b = Some Greater"
    using assms bounds by (cases start; cases stop) (simp_all add: range_refusal_def range_keys_def a_def b_def split: if_splits)
  then show thesis
    using that [of "the (rr_lower (range_keys start stop))" "the (rr_upper (range_keys start stop))" a b] bounds
    by (cases start; cases stop) (simp_all add: range_keys_def a_def b_def)
qed

lemma key_range_refusal:
  assumes refused: "range_refusal (range_keys start stop) = Some Keys_reversed"
    and selected: "range_selects (range_keys start stop) n k"
  shows "\<exists>a b. (start = Included a \<or> start = Excluded a) \<and> stop = Included b \<and> key_extends a b"
proof -
  obtain a b l u where lim: "rr_lower (range_keys start stop) = Some l" "rr_upper (range_keys start stop) = Some u"
      and l: "l = Key a \<or> l = KeyBound (ascii ''>'') a" and start: "start = Included a \<or> start = Excluded a"
      and u: "u = Key b \<and> stop = Excluded b \<or> u = KeyBound (ascii ''<='') b \<and> stop = Included b"
      and rev: "key_ordering a b = Some Greater"
    by (rule keys_refused_limits [OF refused])
  have ab: "above l n k" "below u n k" using selected lim by (simp_all add: range_selects_def)
  obtain c where c: "key_ordering a k = Some c" "c \<noteq> Greater" using start_below [OF ab(1) l] .
  from u show ?thesis
  proof
    assume "u = Key b \<and> stop = Excluded b"
    then have "key_ordering k b = Some Less" using ab(2) by simp
    then show ?thesis using key_less_trans [OF c] rev by auto
  next
    assume u: "u = KeyBound (ascii ''<='') b \<and> stop = Included b"
    then obtain e where e: "key_ordering (take (length b) k) b = Some e" "e \<noteq> Greater"
      using ab(2) by (auto simp: bound_holds_def split: option.splits if_splits)
    obtain d where d: "key_ordering (take (length b) a) (take (length b) k) = Some d" "d \<noteq> Greater"
      using key_ordering_take_both [OF c] by blast
    have cut: "key_ordering (take (length b) a) b = Some (chain d e)" by (rule key_chain [OF d(1) e(1) d(2) e(2)])
    have "length b < length a"
    proof (rule ccontr)
      assume "\<not> length b < length a"
      then have "chain d e = Greater" using cut rev by simp
      then show False using d(2) e(2) by (cases d; cases e) auto
    qed
    moreover have "chain d e = Equal"
    proof (rule ccontr)
      assume "chain d e \<noteq> Equal"
      then have "chain d e = Less" using d(2) e(2) by (cases d; cases e) auto
      then show False using key_ordering_take_Less cut rev by fastforce
    qed
    ultimately show ?thesis using u start cut by (auto simp: key_extends_def)
  qed
qed

text \<open>A range of keys that is refused for starting after it ends selects no row of the table,
  unless its end is inclusive and names a prefix of the key it starts at.\<close>

theorem reversed_keys_select_nothing:
  assumes "range_refusal (range_keys start stop) = Some Keys_reversed"
    and "\<not> (\<exists>a b. (start = Included a \<or> start = Excluded a) \<and> stop = Included b \<and> key_extends a b)"
  shows "\<not> range_selects (range_keys start stop) n k"
  using key_range_refusal assms by blast

theorem reversed_keys_select_nothing_witness:
  "\<not> range_selects (range_keys (Included [yson_int 3]) (Included [yson_int 1])) 2 [yson_int 2]"
  by (rule reversed_keys_select_nothing)
    (simp_all add: range_refusal_def range_keys_def yson_int_def key_ordering_Cons key_extends_def cmp_def)

text \<open>The rows of a group from a key on, \<open>keys((a, x)..=a)\<close>, are refused as a range that ends before
  it starts, although the cluster, which cuts a row's key to the length of an inclusive upper bound,
  reads them.\<close>

theorem prefix_range_refused:
  "let a = yson_str (ascii ''a''); x = yson_str (ascii ''/x''); y = yson_str (ascii ''/y'');
       r = range_keys (Included [a, x]) (Included [a])
   in range_selects r 0 [a, x] \<and> range_selects r 1 [a, y] \<and>
      read_refusal (path_range r (table_path_new (ascii ''//tmp/t''))) = Some (Read_of_range (ascii ''//tmp/t'') Keys_reversed)"
  by code_simp

section \<open>Writes and reads\<close>

text \<open>A path is let into a write exactly when it selects nothing: no columns, no ranges, no attribute
  block at the start of its string and no bracket or brace in it that is not escaped. What is then
  sent is the string alone, with the append attribute or without.\<close>

theorem write_takes_bare_path:
  "(write_refusal p = None \<longleftrightarrow>
      tp_columns p = None \<and> tp_ranges p = [] \<and> \<not> opens_with_attributes (tp_path p) \<and>
      \<not> spells 0x5B (tp_path p) \<and> \<not> spells 0x7B (tp_path p)) \<and>
   (write_refusal p = None \<longrightarrow>
      path_to_yson p =
        YsonValue (if tp_append p then Some [(ascii ''append'', yson_boolean True)] else None) (String (tp_path p)))"
  by (auto simp: write_refusal_def first_unescaped_selector_None path_to_yson_def yson_with_attributes_def yson_str_def
      btree_extend_def Let_def split: if_splits)

theorem write_takes_bare_path_witness:
  "path_to_yson (path_append (table_path_new (ascii ''//tmp/t''))) =
     YsonValue (Some [(ascii ''append'', yson_boolean True)]) (String (ascii ''//tmp/t''))"
proof -
  have "write_refusal (path_append (table_path_new (ascii ''//tmp/t''))) = None" by code_simp
  then show ?thesis
    using write_takes_bare_path [of "path_append (table_path_new (ascii ''//tmp/t''))"]
    by (simp add: path_append_def table_path_new_def)
qed

lemma first_refusal_None: "first_refusal rs = None \<longleftrightarrow> (\<forall>r \<in> set rs. range_refusal r = None)"
  by (induction rs) (auto split: option.splits)

lemma path_attributes:
  "attr (path_to_yson p) (ascii ''columns'') = map_option (\<lambda>cs. yson_list (map yson_str cs)) (tp_columns p)"
  "attr (path_to_yson p) (ascii ''ranges'') =
     (if tp_ranges p = [] then None else Some (yson_list (map range_to_yson (tp_ranges p))))"
  "attr (path_to_yson p) (ascii ''append'') = (if tp_append p then Some (yson_boolean True) else None)"
  by (cases "tp_append p"; cases "tp_columns p"; cases "tp_ranges p = []";
      simp add: path_to_yson_def yson_with_attributes_def attr_def yson_str_def btree_extend_def ascii_eq_iff;
      simp add: ascii_def)+

text \<open>A read that is let through carries its column and row selections as attributes, and names
  neither a second time in the path string, where the cluster would drop it: no brace beside typed
  columns, no bracket beside typed ranges, no attribute block beside either; and none of its ranges
  is refused.\<close>

theorem read_selects_once:
  assumes "read_refusal p = None"
  shows "(tp_columns p \<noteq> None \<longrightarrow> \<not> spells 0x7B (tp_path p)) \<and>
    (tp_ranges p \<noteq> [] \<longrightarrow> \<not> spells 0x5B (tp_path p)) \<and>
    (opens_with_attributes (tp_path p) \<longrightarrow> tp_columns p = None \<and> tp_ranges p = []) \<and>
    list_all (\<lambda>r. range_refusal r = None) (tp_ranges p) \<and>
    attr (path_to_yson p) (ascii ''columns'') = map_option (\<lambda>cs. yson_list (map yson_str cs)) (tp_columns p) \<and>
    attr (path_to_yson p) (ascii ''ranges'') =
      (if tp_ranges p = [] then None else Some (yson_list (map range_to_yson (tp_ranges p))))"
proof -
  have ranges: "first_refusal (tp_ranges p) = None"
    using assms by (auto simp: read_refusal_def split: option.splits)
  have "selection_conflict (tp_path p) (tp_columns p \<noteq> None) (tp_ranges p \<noteq> [])
      (ascii ''TablePath::columns'') (ascii ''TablePath::range'') = None"
    using assms ranges by (simp add: read_refusal_def)
  then have "(tp_columns p \<noteq> None \<longrightarrow> \<not> spells 0x7B (tp_path p)) \<and> (tp_ranges p \<noteq> [] \<longrightarrow> \<not> spells 0x5B (tp_path p)) \<and>
      (opens_with_attributes (tp_path p) \<longrightarrow> tp_columns p = None \<and> tp_ranges p = [])"
    by (auto simp: selection_conflict_def unescaped_selectors_def selectors_from_rows selectors_from_columns Let_def
        split: if_splits)
  then show ?thesis using ranges by (auto simp: first_refusal_None list_all_iff path_attributes)
qed

theorem read_selects_once_witness:
  "attr (path_to_yson (path_columns [ascii ''n''] (table_path_new (ascii ''//tmp/t[#0:#2]'')))) (ascii ''columns'') =
     Some (yson_list [yson_str (ascii ''n'')])"
proof -
  have "read_refusal (path_columns [ascii ''n''] (table_path_new (ascii ''//tmp/t[#0:#2]''))) = None" by code_simp
  then show ?thesis
    using read_selects_once [of "path_columns [ascii ''n''] (table_path_new (ascii ''//tmp/t[#0:#2]''))"]
    by (simp add: path_columns_def table_path_new_def)
qed

end
