(* ===== verification/Client_Rows.thy ===== *)
theory Client_Rows
  imports Yson_Ser "HOL-Library.Sublist"
begin

text \<open>
  \<open>crates/ytsaurus-client/src/stream.rs\<close>: the body of a table write as a reader that encodes rows a
  bufferful at a time. The iterator is the list of its answers to \<open>next\<close>, which may go on after the
  \<open>None\<close> that ends it. A failed encoding leaves an unfinished row in the buffer; no reader reads on
  after the error, so the failure is the whole answer here.
\<close>

section \<open>The reader\<close>

record row_stream =
  ro_rows :: "serde option list"
  ro_buffer :: bytes
  ro_position :: nat
  ro_written :: nat
  ro_exhausted :: bool

type_synonym row_failure = "nat \<times> yson_error"

definition ROW_CHUNK :: nat where "ROW_CHUNK = 64 * 1024"

definition row_stream_new :: "serde option list \<Rightarrow> row_stream" where
  "row_stream_new rows =
     \<lparr>ro_rows = rows, ro_buffer = [], ro_position = 0, ro_written = 0, ro_exhausted = False\<rparr>"

text \<open>The loop of \<open>fill\<close>: the rows left, the buffer, the rows written, and whether the rows ran out.\<close>

fun encode_rows ::
  "formatters \<Rightarrow> serde option list \<Rightarrow> bytes \<Rightarrow> nat \<Rightarrow> row_failure + serde option list \<times> bytes \<times> nat \<times> bool" where
  "encode_rows fmt [] buffer written =
     (if length buffer < ROW_CHUNK then Inr ([], buffer, written, True) else Inr ([], buffer, written, False))"
| "encode_rows fmt (next' # rows) buffer written =
     (if length buffer < ROW_CHUNK then
        (case next' of
           None \<Rightarrow> Inr (rows, buffer, written, True)
         | Some row \<Rightarrow>
             (case serialize fmt row (with_buffer buffer True) of
                Inl e \<Rightarrow> Inl (written, e)
              | Inr s \<Rightarrow> encode_rows fmt rows (out s @ [0x3B]) (written + 1)))
      else Inr (next' # rows, buffer, written, False))"

definition fill_rows :: "formatters \<Rightarrow> row_stream \<Rightarrow> row_failure + row_stream" where
  "fill_rows fmt st =
     (if ro_exhausted st then Inr (st\<lparr>ro_buffer := [], ro_position := 0\<rparr>)
      else and_then (encode_rows fmt (ro_rows st) [] (ro_written st)) (\<lambda>(rows, buffer, written, ended).
        Inr \<lparr>ro_rows = rows, ro_buffer = buffer, ro_position = 0, ro_written = written, ro_exhausted = ended\<rparr>))"

definition row_read :: "formatters \<Rightarrow> nat \<Rightarrow> row_stream \<Rightarrow> row_failure + bytes \<times> row_stream" where
  "row_read fmt room st =
     and_then (if ro_position st = length (ro_buffer st) then fill_rows fmt st else Inr st) (\<lambda>st.
       let got = take room (drop (ro_position st) (ro_buffer st))
       in Inr (got, st\<lparr>ro_position := ro_position st + length got\<rparr>))"

text \<open>
  A reader's reads, each with room for at least one byte: what they hand out, the failure they end
  with, and whether they got to the failure or to the read of no bytes that ends the body.
\<close>

fun row_reads :: "formatters \<Rightarrow> nat list \<Rightarrow> row_stream \<Rightarrow> bytes \<times> row_failure option \<times> bool" where
  "row_reads fmt [] st = ([], None, False)"
| "row_reads fmt (room # rooms) st =
     (case row_read fmt (Suc room) st of
        Inl e \<Rightarrow> ([], Some e, True)
      | Inr (got, st') \<Rightarrow> if got = [] then ([], None, True) else apfst (append got) (row_reads fmt rooms st'))"

section \<open>Serializing behind a prefix\<close>

definition behind :: "bytes \<Rightarrow> serializer \<Rightarrow> serializer" where
  "behind p s = s\<lparr>out := p @ out s\<rparr>"

lemma behind_simps [simp]:
  "push (behind p s) xs = behind p (push s xs)" "is_binary (behind p s) = is_binary s"
  "is_writing_attributes (behind p s) = is_writing_attributes s" "out (behind p s) = p @ out s"
  "(behind p s)\<lparr>is_writing_attributes := b\<rparr> = behind p (s\<lparr>is_writing_attributes := b\<rparr>)"
  "map_open (behind p s) = map_open s"
  by (simp_all add: behind_def push_def map_open_def)

lemma struct_open_behind: "struct_open name (behind p s) = apsnd (behind p) (struct_open name s)"
  by (simp add: struct_open_def)

definition map_ok :: "('a \<Rightarrow> 'b) \<Rightarrow> 'e + 'a \<Rightarrow> 'e + 'b" where
  "map_ok f r = and_then r (\<lambda>x. Inr (f x))"

lemma map_ok_simps [simp]: "map_ok f (Inl e) = Inl e" "map_ok f (Inr x) = Inr (f x)"
  by (simp_all add: map_ok_def)

lemma map_ok_and_then [simp]: "map_ok f (and_then r k) = and_then r (\<lambda>x. map_ok f (k x))"
  by (cases r) simp_all

lemma and_then_map_ok [simp]: "and_then (map_ok f r) k = and_then r (\<lambda>x. k (f x))"
  by (cases r) simp_all

lemma serialize_behind:
  "serialize fmt v (behind p s) = map_ok (behind p) (serialize fmt v s)"
  "serialize_elements fmt vs first (behind p s) = map_ok (behind p) (serialize_elements fmt vs first s)"
  "serialize_entries fmt es first (behind p s) = map_ok (behind p) (serialize_entries fmt es first s)"
  "serialize_fields fmt fs first mode (behind p s) =
     map_ok (apfst (behind p)) (serialize_fields fmt fs first mode s)"
proof (induction fmt v s and fmt vs first s and fmt es first s and fmt fs first mode s
    rule: serialize_serialize_elements_serialize_entries_serialize_fields.induct)
  case (20 fmt k v es first s)
  then show ?case by (simp cong: and_then_cong)
qed (auto simp: struct_open_behind Let_def intro!: and_then_cong split: prod.splits)

lemma serialize_after:
  "serialize fmt v (with_buffer buffer True) = map_ok (behind buffer) (serialize fmt v (with_buffer [] True))"
proof -
  have "with_buffer buffer True = behind buffer (with_buffer [] True)"
    by (simp add: with_buffer_def behind_def)
  then show ?thesis by (simp add: serialize_behind)
qed

section \<open>What the reader gives\<close>

text \<open>The list fragment of the rows before the iterator first answers \<open>None\<close>, and the row that cannot be encoded.\<close>

fun fragment_of :: "formatters \<Rightarrow> serde option list \<Rightarrow> nat \<Rightarrow> bytes \<times> row_failure option" where
  "fragment_of fmt [] n = ([], None)"
| "fragment_of fmt (None # rows) n = ([], None)"
| "fragment_of fmt (Some row # rows) n =
     (case to_vec fmt row Binary of
        Inl e \<Rightarrow> ([], Some (n, e))
      | Inr bs \<Rightarrow> apfst (append (bs @ [0x3B])) (fragment_of fmt rows (Suc n)))"

lemma apfst_append [simp]:
  "apfst (append []) x = x" "apfst (append xs) (apfst (append ys) x) = apfst (append (xs @ ys)) x"
  by (cases x; simp)+

lemma encode_rows_fragment:
  "case encode_rows fmt rows buffer written of
     Inl e \<Rightarrow> snd (fragment_of fmt rows written) = Some e
   | Inr (rows', buffer', written', ended) \<Rightarrow>
       (\<exists>bs. buffer' = buffer @ bs \<and>
         fragment_of fmt rows written =
           (if ended then (bs, None) else apfst (append bs) (fragment_of fmt rows' written')) \<and>
         (\<not> ended \<longrightarrow> length buffer' \<ge> ROW_CHUNK))"
proof (induction rows arbitrary: buffer written)
  case Nil
  then show ?case by simp
next
  case (Cons a rows)
  show ?case
  proof (cases a)
    case None
    then show ?thesis by (auto simp: apfst_def)
  next
    case (Some row)
    show ?thesis
    proof (cases "length buffer < ROW_CHUNK")
      case room: True
      show ?thesis
      proof (cases "serialize fmt row (with_buffer [] True)")
        case (Inl e)
        then show ?thesis using room by (simp add: Some serialize_after [of fmt row buffer] to_vec_def)
      next
        case (Inr s)
        then show ?thesis
          using room Cons.IH [where buffer = "buffer @ out s @ [0x3B]" and written = "Suc written"]
          by (auto simp: Some serialize_after [of fmt row buffer] to_vec_def apfst_def map_prod_def split: sum.splits prod.splits)
      qed
    next
      case False
      then show ?thesis by (simp add: Some)
    qed
  qed
qed

text \<open>What a stream still has to give.\<close>

definition rows_left :: "formatters \<Rightarrow> row_stream \<Rightarrow> bytes \<times> row_failure option" where
  "rows_left fmt st =
     apfst (append (drop (ro_position st) (ro_buffer st)))
       (if ro_exhausted st then ([], None) else fragment_of fmt (ro_rows st) (ro_written st))"

lemma fill_rows_left:
  "case fill_rows fmt st of
     Inl e \<Rightarrow> ro_position st = length (ro_buffer st) \<longrightarrow> snd (rows_left fmt st) = Some e
   | Inr st' \<Rightarrow> ro_position st = length (ro_buffer st) \<longrightarrow>
       rows_left fmt st' = rows_left fmt st \<and> ro_position st' \<le> length (ro_buffer st') \<and>
       (ro_buffer st' = [] \<longrightarrow> rows_left fmt st = ([], None))"
  using encode_rows_fragment [where fmt = fmt and rows = "ro_rows st" and buffer = "[]" and written = "ro_written st"]
  by (auto simp: fill_rows_def rows_left_def ROW_CHUNK_def split: sum.splits prod.splits if_splits)

lemma take_then_drop: "take k xs @ drop (length (take k xs)) xs = xs"
  by (cases "k \<le> length xs") simp_all

lemma rows_left_take:
  fixes st n
  defines "got \<equiv> take n (drop (ro_position st) (ro_buffer st))"
  shows "rows_left fmt st = apfst (append got) (rows_left fmt (st\<lparr>ro_position := ro_position st + length got\<rparr>))"
proof -
  have "got @ drop (ro_position st + length got) (ro_buffer st) = drop (ro_position st) (ro_buffer st)"
    using take_then_drop [of n "drop (ro_position st) (ro_buffer st)"]
    unfolding got_def drop_drop add.commute [of "ro_position st"] .
  then show ?thesis by (simp add: rows_left_def)
qed

definition copy_out :: "nat \<Rightarrow> row_stream \<Rightarrow> bytes \<times> row_stream" where
  "copy_out room st =
     (let got = take room (drop (ro_position st) (ro_buffer st))
      in (got, st\<lparr>ro_position := ro_position st + length got\<rparr>))"

lemma row_read_copy:
  "row_read fmt room st =
     and_then (if ro_position st = length (ro_buffer st) then fill_rows fmt st else Inr st) (\<lambda>st. Inr (copy_out room st))"
  by (simp add: row_read_def copy_out_def Let_def)

lemma copy_out_left:
  assumes "copy_out (Suc n) st = (got, st')" "ro_position st \<le> length (ro_buffer st)"
  shows "rows_left fmt st = apfst (append got) (rows_left fmt st')" "ro_position st' \<le> length (ro_buffer st')"
    "got = [] \<Longrightarrow> ro_position st = length (ro_buffer st)"
proof -
  have got: "got = take (Suc n) (drop (ro_position st) (ro_buffer st))"
    and st': "st' = st\<lparr>ro_position := ro_position st + length got\<rparr>"
    using assms(1) by (auto simp: copy_out_def Let_def)
  show "rows_left fmt st = apfst (append got) (rows_left fmt st')"
    unfolding st' got by (rule rows_left_take)
  show "ro_position st' \<le> length (ro_buffer st')" using assms(2) by (simp add: st' got)
  show "got = [] \<Longrightarrow> ro_position st = length (ro_buffer st)" using assms(2) by (simp add: got)
qed

lemma row_read_left:
  assumes "ro_position st \<le> length (ro_buffer st)"
  shows "row_read fmt (Suc n) st = Inl e \<Longrightarrow> snd (rows_left fmt st) = Some e"
    and "row_read fmt (Suc n) st = Inr (got, st') \<Longrightarrow>
       rows_left fmt st = apfst (append got) (rows_left fmt st') \<and> ro_position st' \<le> length (ro_buffer st') \<and>
       (got = [] \<longrightarrow> rows_left fmt st = ([], None))"
proof -
  note filled = fill_rows_left [where fmt = fmt and st = st]
  show "row_read fmt (Suc n) st = Inl e \<Longrightarrow> snd (rows_left fmt st) = Some e"
    using filled by (auto simp: row_read_copy and_then_Inl split: if_splits)
  assume read: "row_read fmt (Suc n) st = Inr (got, st')"
  show "rows_left fmt st = apfst (append got) (rows_left fmt st') \<and> ro_position st' \<le> length (ro_buffer st') \<and>
       (got = [] \<longrightarrow> rows_left fmt st = ([], None))"
  proof (cases "ro_position st = length (ro_buffer st)")
    case True
    then obtain st1 where f: "fill_rows fmt st = Inr st1" and c: "copy_out (Suc n) st1 = (got, st')"
      using read by (auto simp: row_read_copy and_then_Inr)
    have zero: "ro_position st1 = 0" using f by (auto simp: fill_rows_def and_then_Inr split: if_splits)
    show ?thesis
      using filled f True copy_out_left [OF c] zero by auto
  next
    case False
    then have "copy_out (Suc n) st = (got, st')" using read by (simp add: row_read_copy)
    from copy_out_left [OF this assms] False show ?thesis by blast
  qed
qed

lemma row_reads_left:
  assumes "ro_position st \<le> length (ro_buffer st)" "row_reads fmt rooms st = (bs, failed, ended)"
  shows "prefix bs (fst (rows_left fmt st)) \<and> (failed \<noteq> None \<longrightarrow> ended) \<and>
    (ended \<longrightarrow> failed = snd (rows_left fmt st) \<and> (failed = None \<longrightarrow> bs = fst (rows_left fmt st))) \<and>
    (length (fst (rows_left fmt st)) < length rooms \<longrightarrow> ended)"
  using assms
proof (induction rooms arbitrary: st bs)
  case (Cons room rooms)
  note left = row_read_left [where fmt = fmt and n = room, OF Cons.prems(1)]
  show ?case
  proof (cases "row_read fmt (Suc room) st")
    case (Inl e)
    then show ?thesis using Cons.prems(2) left(1) by auto
  next
    case (Inr r)
    obtain got st' where r: "r = (got, st')" by fastforce
    note left = left(2) [OF Inr [unfolded r]]
    show ?thesis
    proof (cases "got = []")
      case True
      then have "rows_left fmt st = ([], None)" using left by blast
      then show ?thesis using Cons.prems(2) Inr r True by auto
    next
      case False
      obtain bs' where rec: "row_reads fmt rooms st' = (bs', failed, ended)" and bs: "bs = got @ bs'"
        using Cons.prems(2) Inr r False by (cases "row_reads fmt rooms st'") auto
      obtain rest f where rest: "rows_left fmt st' = (rest, f)" by fastforce
      have "rows_left fmt st = (got @ rest, f)" using left rest by simp
      moreover have "length rest < length rooms" if "length (got @ rest) < length (room # rooms)"
        using that False by (cases got) auto
      moreover have "ro_position st' \<le> length (ro_buffer st')" using left by blast
      ultimately show ?thesis using Cons.IH [OF _ rec] rest bs by auto
    qed
  qed
qed simp

lemma rows_left_new: "rows_left fmt (row_stream_new rows) = fragment_of fmt rows 0"
  by (simp add: row_stream_new_def rows_left_def)

lemma row_body:
  assumes "row_reads fmt rooms (row_stream_new rows) = (bs, failed, ended)"
  shows "prefix bs (fst (fragment_of fmt rows 0)) \<and> (failed \<noteq> None \<longrightarrow> ended) \<and>
    (ended \<longrightarrow> failed = snd (fragment_of fmt rows 0) \<and> (failed = None \<longrightarrow> bs = fst (fragment_of fmt rows 0))) \<and>
    (length (fst (fragment_of fmt rows 0)) < length rooms \<longrightarrow> ended)"
proof -
  have "ro_position (row_stream_new rows) \<le> length (ro_buffer (row_stream_new rows))" by (simp add: row_stream_new_def)
  from row_reads_left [OF this assms] show ?thesis unfolding rows_left_new .
qed

text \<open>Whatever room the transport reads with, the body of a write of rows is a beginning of their
  list fragment, each row once and terminated, up to the iterator's first \<open>None\<close>. Reads that get to the
  end have all of it, or fail naming the first row that cannot be encoded; and reads one more than
  there are bytes get to the end.\<close>

theorem row_body_exact:
  assumes "row_reads fmt rooms (row_stream_new rows) = (bs, failed, ended)"
  shows "prefix bs (fst (fragment_of fmt rows 0)) \<and> (failed \<noteq> None \<longrightarrow> ended) \<and>
    (ended \<longrightarrow> failed = snd (fragment_of fmt rows 0) \<and> (failed = None \<longrightarrow> bs = fst (fragment_of fmt rows 0))) \<and>
    (length (fst (fragment_of fmt rows 0)) < length rooms \<longrightarrow> ended)"
  by (rule row_body [OF assms])

theorem row_body_exact_witness:
  "row_reads \<lparr>itoa_i64 = (\<lambda>_. []), itoa_u64 = (\<lambda>_. []), ryu_f64 = (\<lambda>_. [])\<rparr> [0, 0, 0] (row_stream_new [Some Ser_unit, None, Some Ser_unit]) = ([0x23, 0x3B], None, True)"
proof -
  obtain bs failed ended where r: "row_reads \<lparr>itoa_i64 = (\<lambda>_. []), itoa_u64 = (\<lambda>_. []), ryu_f64 = (\<lambda>_. [])\<rparr> [0, 0, 0]
      (row_stream_new [Some Ser_unit, None, Some Ser_unit]) = (bs, failed, ended)"
    by (metis prod_cases3)
  from row_body_exact [OF r] show ?thesis
    unfolding r by (auto simp: to_vec_def with_buffer_def push_def)
qed

end
