(* ===== verification/Client_Tables.thy ===== *)
theory Client_Tables
  imports Client_Call Client_Selection Client_Rows Skiff_Stream Yson_Properties
begin

text \<open>
  The table commands of \<open>crates/ytsaurus-client/src/lib.rs\<close>, with \<open>DataFormat\<close> of
  \<open>crates/ytsaurus-format\<close>: what is refused before anything is sent, the parameters of a command, the
  check that an answer is whole, and the rows read out of it. A \<open>Config\<close> or \<open>Decode\<close> error made here is
  a constructor with what its text interpolates. \<open>rooms\<close> are the reads the transport makes of a body.
\<close>

section \<open>Formats\<close>

datatype data_format = Yson_data yson_format | Skiff_data skiff_format

definition yson_declaration :: "yson_format \<Rightarrow> yson_value" where
  "yson_declaration format =
     YsonValue
       (Some (btree_insert (ascii ''format'')
          (plain (String (case format of Binary \<Rightarrow> ascii ''binary'' | Text \<Rightarrow> ascii ''text''))) []))
       (String (ascii ''yson''))"

definition data_format_to_yson :: "data_format \<Rightarrow> yson_value" where
  "data_format_to_yson f =
     (case f of Yson_data format \<Rightarrow> yson_declaration format | Skiff_data format \<Rightarrow> format_to_yson format)"

definition data_format_as_yson :: "data_format \<Rightarrow> yson_format option" where
  "data_format_as_yson f = (case f of Yson_data format \<Rightarrow> Some format | Skiff_data _ \<Rightarrow> None)"

definition data_format_as_skiff :: "data_format \<Rightarrow> skiff_format option" where
  "data_format_as_skiff f = (case f of Yson_data _ \<Rightarrow> None | Skiff_data format \<Rightarrow> Some format)"

section \<open>Whole answers\<close>

datatype fragment_error = Ends_inside_record nat nat | Not_yson yson_format nat yson_error

definition skip_between :: "bytes \<Rightarrow> bytes" where
  "skip_between data = dropWhile (\<lambda>b. b = 0x3B \<or> is_space b) data"

lemma length_skip_between: "length (skip_between data) \<le> length data"
  by (simp add: skip_between_def length_dropWhile_le)

function check_fragment :: "yson_format \<Rightarrow> nat \<Rightarrow> bytes \<Rightarrow> fragment_error + unit" where
  "check_fragment format whole data =
     (let rest = skip_between data
      in if rest = [] then Inr ()
         else (case scan_value rest format of
                 Inr (Complete len) \<Rightarrow> check_fragment format whole (drop len rest)
               | Inr Incomplete \<Rightarrow> Inl (Ends_inside_record (whole - length rest) whole)
               | Inl e \<Rightarrow> Inl (Not_yson format (whole - length rest) e)))"
  by pat_completeness auto

lemma scan_value_advances: "scan_value data format = Inr (Complete len) \<Longrightarrow> 0 < len \<and> len \<le> length data"
  using scan_tree_consumes [of "format = Binary" data 0 0 len] by (simp add: scan_value_Complete)

termination check_fragment
proof (relation "measure (\<lambda>(_, _, data). length data)", goal_cases)
  case (2 format whole data rest x len)
  then show ?case
    using scan_value_advances [of rest format len] length_skip_between [of data] by (cases rest) auto
qed simp

declare check_fragment.simps [simp del]

definition check_complete_yson_fragment :: "bytes \<Rightarrow> yson_format \<Rightarrow> fragment_error + unit" where
  "check_complete_yson_fragment data format = check_fragment format (length data) data"

lemma skip_row_shorter:
  "skip_row node_cost d = Inr (Some i, d') \<Longrightarrow> length (decoder_input d') < length (decoder_input d)"
  by (auto simp: skip_row_next_row and_then_Inr dest: next_row_shorter)

function skip_all_rows :: "nat \<Rightarrow> decoder \<Rightarrow> codec_error + unit" where
  "skip_all_rows node_cost d =
     (case skip_row node_cost d of
        Inl e \<Rightarrow> Inl e
      | Inr (None, _) \<Rightarrow> Inr ()
      | Inr (Some _, d') \<Rightarrow> skip_all_rows node_cost d')"
  by pat_completeness auto
termination skip_all_rows
  by (relation "measure (\<lambda>(_, d). length (decoder_input d))") (auto dest: skip_row_shorter)

declare skip_all_rows.simps [simp del]

definition check_complete_skiff_stream :: "nat \<Rightarrow> bytes \<Rightarrow> skiff_format \<Rightarrow> codec_error + unit" where
  "check_complete_skiff_stream node_cost data format = skip_all_rows node_cost (decoder_new data format)"

section \<open>What a table command fails with\<close>

datatype table_error =
    Failed client_error
  | Path_refused path_refusal
  | Skiff_selects_columns bytes
  | Skiff_table_count nat
  | Skiff_invalid_schema schema_error
  | Skiff_unnamed_column
  | Skiff_system_column bytes
  | Fragment_incomplete table_path fragment_error
  | Skiff_incomplete table_path codec_error
  | Row_not_encoded table_path nat yson_error
  | Row_not_decoded table_path nat yson_error

definition refuse_selection_on_write :: "table_path \<Rightarrow> table_error + unit" where
  "refuse_selection_on_write p = (case write_refusal p of Some reason \<Rightarrow> Inl (Path_refused reason) | None \<Rightarrow> Inr ())"

definition refuse_mixed_selection_on_read :: "table_path \<Rightarrow> table_error + unit" where
  "refuse_mixed_selection_on_read p = (case read_refusal p of Some reason \<Rightarrow> Inl (Path_refused reason) | None \<Rightarrow> Inr ())"

definition skiff_column :: "schema \<Rightarrow> table_error + yson_value" where
  "skiff_column column =
     and_then (ok_or (name_of column) Skiff_unnamed_column) (\<lambda>name.
       if name \<in> {ascii ''$key_switch'', ascii ''$row_index'', ascii ''$range_index''} then Inl (Skiff_system_column name)
       else Inr (yson_str name))"

definition skiff_table_path :: "table_path \<Rightarrow> skiff_format \<Rightarrow> table_error + yson_value" where
  "skiff_table_path p format =
     (if tp_columns p \<noteq> None then Inl (Skiff_selects_columns (tp_path p))
      else
        (case selection_conflict (tp_path p) True False (ascii ''the Skiff format's fields become'')
                (ascii ''the Skiff read adds'') of
           Some reason \<Rightarrow> Inl (Path_refused reason)
         | None \<Rightarrow>
             if length (table_schemas format) \<noteq> 1 then Inl (Skiff_table_count (length (table_schemas format)))
             else
               (case table_schema format 0 of
                  Inl e \<Rightarrow> Inl (Skiff_invalid_schema e)
                | Inr s \<Rightarrow>
                    and_then (collect skiff_column (children s)) (\<lambda>columns.
                      let v = path_to_yson p
                      in Inr (YsonValue
                           (Some (btree_insert (ascii ''columns'') (yson_list columns)
                              (case attributes v of None \<Rightarrow> [] | Some m \<Rightarrow> m)))
                           (node v))))))"

section \<open>Commands\<close>

text \<open>What a command sent, the state of the routing after it, and its result.\<close>

record 'a answer =
  an_requests :: "http_request list list"
  an_state :: heavy_proxy
  an_result :: "table_error + 'a"

definition answered :: "'b outcome option \<Rightarrow> ('b \<Rightarrow> table_error + 'a) \<Rightarrow> 'a answer option" where
  "answered outcome k =
     map_option (\<lambda>oc. \<lparr>an_requests = oc_requests oc, an_state = oc_state oc,
        an_result = (case oc_result oc of Inl e \<Rightarrow> Inl (Failed e) | Inr x \<Rightarrow> k x)\<rparr>) outcome"

definition unless_refused :: "table_error + 'b \<Rightarrow> heavy_proxy \<Rightarrow> ('b \<Rightarrow> 'a answer option) \<Rightarrow> 'a answer option" where
  "unless_refused check s k =
     (case check of
        Inl e \<Rightarrow> Some \<lparr>an_requests = [], an_state = s, an_result = Inl e\<rparr>
      | Inr x \<Rightarrow> k x)"

definition table_parameters :: "yson_value \<Rightarrow> string \<Rightarrow> yson_value \<Rightarrow> yson_value" where
  "table_parameters path key format = yson_map [(ascii ''path'', path), (ascii key, format)]"

definition write_yson_table ::
  "json_parser \<Rightarrow> formatters \<Rightarrow> transport \<Rightarrow> call_env \<Rightarrow> heavy_proxy \<Rightarrow> table_path \<Rightarrow> bytes \<Rightarrow> yson_format \<Rightarrow>
     unit answer option" where
  "write_yson_table parse fmt t env s p rows format =
     unless_refused (refuse_selection_on_write p) s (\<lambda>_.
       answered (plain_call parse fmt t env s Put (ascii ''write_table'')
           (table_parameters (path_to_yson p) ''input_format'' (data_format_to_yson (Yson_data format)))
           (Some rows) Heavy)
         (\<lambda>_. Inr ()))"

definition write_skiff_table ::
  "json_parser \<Rightarrow> formatters \<Rightarrow> nat \<Rightarrow> transport \<Rightarrow> call_env \<Rightarrow> heavy_proxy \<Rightarrow> table_path \<Rightarrow> bytes \<Rightarrow> skiff_format \<Rightarrow>
     unit answer option" where
  "write_skiff_table parse fmt node_cost t env s p rows format =
     unless_refused (refuse_selection_on_write p) s (\<lambda>_.
     unless_refused (skiff_table_path p format) s (\<lambda>path.
     unless_refused
       (case check_complete_skiff_stream node_cost rows format of
          Inl e \<Rightarrow> Inl (Skiff_incomplete p e) | Inr u \<Rightarrow> Inr u) s (\<lambda>_.
       answered (plain_call parse fmt t env s Put (ascii ''write_table'')
           (table_parameters path ''input_format'' (format_to_yson format)) (Some rows) Heavy)
         (\<lambda>_. Inr ()))))"

definition write_table_with_format ::
  "json_parser \<Rightarrow> formatters \<Rightarrow> nat \<Rightarrow> transport \<Rightarrow> call_env \<Rightarrow> heavy_proxy \<Rightarrow> table_path \<Rightarrow> bytes \<Rightarrow> data_format \<Rightarrow>
     unit answer option" where
  "write_table_with_format parse fmt node_cost t env s p rows format =
     (case format of
        Yson_data f \<Rightarrow> write_yson_table parse fmt t env s p rows f
      | Skiff_data f \<Rightarrow> write_skiff_table parse fmt node_cost t env s p rows f)"

definition read_yson_table ::
  "json_parser \<Rightarrow> formatters \<Rightarrow> transport \<Rightarrow> call_env \<Rightarrow> heavy_proxy \<Rightarrow> table_path \<Rightarrow> yson_format \<Rightarrow>
     bytes answer option" where
  "read_yson_table parse fmt t env s p format =
     unless_refused (refuse_mixed_selection_on_read p) s (\<lambda>_.
       answered (plain_call parse fmt t env s Get (ascii ''read_table'')
           (table_parameters (path_to_yson p) ''output_format'' (data_format_to_yson (Yson_data format))) None Heavy)
         (\<lambda>body. case check_complete_yson_fragment body format of
            Inl e \<Rightarrow> Inl (Fragment_incomplete p e) | Inr _ \<Rightarrow> Inr body))"

definition read_skiff_table ::
  "json_parser \<Rightarrow> formatters \<Rightarrow> nat \<Rightarrow> transport \<Rightarrow> call_env \<Rightarrow> heavy_proxy \<Rightarrow> table_path \<Rightarrow> skiff_format \<Rightarrow>
     bytes answer option" where
  "read_skiff_table parse fmt node_cost t env s p format =
     unless_refused (refuse_mixed_selection_on_read p) s (\<lambda>_.
     unless_refused (skiff_table_path p format) s (\<lambda>path.
       answered (plain_call parse fmt t env s Get (ascii ''read_table'')
           (table_parameters path ''output_format'' (format_to_yson format)) None Heavy)
         (\<lambda>body. case check_complete_skiff_stream node_cost body format of
            Inl e \<Rightarrow> Inl (Skiff_incomplete p e) | Inr _ \<Rightarrow> Inr body)))"

definition read_table_with_format ::
  "json_parser \<Rightarrow> formatters \<Rightarrow> nat \<Rightarrow> transport \<Rightarrow> call_env \<Rightarrow> heavy_proxy \<Rightarrow> table_path \<Rightarrow> data_format \<Rightarrow>
     bytes answer option" where
  "read_table_with_format parse fmt node_cost t env s p format =
     (case format of
        Yson_data f \<Rightarrow> read_yson_table parse fmt t env s p f
      | Skiff_data f \<Rightarrow> read_skiff_table parse fmt node_cost t env s p f)"

section \<open>Rows\<close>

text \<open>\<open>decode_rows\<close>, for rows of type \<open>YsonValue\<close>: the failure names the row.\<close>

function decode_rows_from :: "bytes \<Rightarrow> nat \<Rightarrow> bool \<Rightarrow> nat \<Rightarrow> row_failure + yson_value list" where
  "decode_rows_from input pos first n =
     (case next_item True input pos first of
        Inl e \<Rightarrow> Inl (n, e)
      | Inr (None, _, _) \<Rightarrow> Inr []
      | Inr (Some v, pos', first') \<Rightarrow> and_then (decode_rows_from input pos' first' (n + 1)) (\<lambda>vs. Inr (v # vs)))"
  by pat_completeness auto
termination decode_rows_from
  by (relation "measure (\<lambda>(input, pos, first, n). length input - pos)") (auto dest!: next_item_consumes)

declare decode_rows_from.simps [simp del]

definition decode_rows :: "table_path \<Rightarrow> bytes \<Rightarrow> table_error + yson_value list" where
  "decode_rows p input =
     (case decode_rows_from input 0 True 0 of
        Inl (n, e) \<Rightarrow> Inl (Row_not_decoded p n e)
      | Inr rows \<Rightarrow> Inr rows)"

definition read_table_rows ::
  "json_parser \<Rightarrow> formatters \<Rightarrow> transport \<Rightarrow> call_env \<Rightarrow> heavy_proxy \<Rightarrow> table_path \<Rightarrow> yson_value list answer option" where
  "read_table_rows parse fmt t env s p =
     map_option (\<lambda>a. \<lparr>an_requests = an_requests a, an_state = an_state a,
        an_result = and_then (an_result a) (decode_rows p)\<rparr>)
       (read_yson_table parse fmt t env s p Binary)"

definition write_table_rows ::
  "json_parser \<Rightarrow> formatters \<Rightarrow> transport \<Rightarrow> call_env \<Rightarrow> heavy_proxy \<Rightarrow> table_path \<Rightarrow> serde option list \<Rightarrow> nat list \<Rightarrow>
     unit answer option" where
  "write_table_rows parse fmt t env s p rows rooms =
     unless_refused (refuse_selection_on_write p) s (\<lambda>_.
       let (body, failed, _) = row_reads fmt rooms (row_stream_new rows);
           sent = answered (upload parse fmt t env s Put (ascii ''write_table'')
             (table_parameters (path_to_yson p) ''input_format'' binary_yson_format) body) (\<lambda>_. Inr ())
       in case failed of
            None \<Rightarrow> sent
          | Some (n, e) \<Rightarrow> map_option (an_result_update (\<lambda>_. Inl (Row_not_encoded p n e))) sent)"

definition read_table_streaming ::
  "json_parser \<Rightarrow> formatters \<Rightarrow> transport \<Rightarrow> call_env \<Rightarrow> heavy_proxy \<Rightarrow> table_path \<Rightarrow> body answer option" where
  "read_table_streaming parse fmt t env s p =
     unless_refused (refuse_mixed_selection_on_read p) s (\<lambda>_.
       answered (open_stream parse fmt t env s Get (ascii ''read_table'')
           (table_parameters (path_to_yson p) ''output_format'' binary_yson_format))
         Inr)"

definition write_table_streaming ::
  "json_parser \<Rightarrow> formatters \<Rightarrow> transport \<Rightarrow> call_env \<Rightarrow> heavy_proxy \<Rightarrow> table_path \<Rightarrow> bytes \<Rightarrow> unit answer option" where
  "write_table_streaming parse fmt t env s p rows =
     unless_refused (refuse_selection_on_write p) s (\<lambda>_.
       answered (upload parse fmt t env s Put (ascii ''write_table'')
           (table_parameters (path_to_yson p) ''input_format'' binary_yson_format) rows)
         (\<lambda>_. Inr ()))"

end
