(* ===== verification/Client_Fragments.thy ===== *)
theory Client_Fragments
  imports Client_Tables
begin

text \<open>
  What is proved of the table commands: rows that are written are the rows that are read, the check
  of an answer finds every cut inside a row and no other, and a Skiff stream passes the check exactly
  when all of it decodes.
\<close>

section \<open>Fragments of rows\<close>

abbreviation row_bytes :: "formatters \<Rightarrow> yson_value \<Rightarrow> bytes" where
  "row_bytes fmt v \<equiv> enc_value (scalar_bytes fmt True) v"

definition row_fragment :: "formatters \<Rightarrow> yson_value list \<Rightarrow> bytes" where
  "row_fragment fmt rows = concat (map (\<lambda>v. row_bytes fmt v @ [0x3B]) rows)"

lemma row_fragment_simps [simp]:
  "row_fragment fmt [] = []" "row_fragment fmt (v # rows) = row_bytes fmt v @ 0x3B # row_fragment fmt rows"
  by (simp_all add: row_fragment_def)

text \<open>The values \<open>binary_roundtrip\<close> speaks of.\<close>

definition row_ok :: "yson_value \<Rightarrow> bool" where
  "row_ok v = (value_ok binary_ok v \<and> need_value v \<le> 128)"

lemma fragment_of_values: "fragment_of fmt (map (Some \<circ> value_serde) rows) n = (row_fragment fmt rows, None)"
  by (induction rows arbitrary: n) (simp_all add: to_vec_grammar)

lemma row_bytes_first: "\<exists>b r. row_bytes fmt v = b # r \<and> b \<noteq> 0x3B \<and> \<not> is_space b"
proof -
  have node: "\<exists>b r. enc_node (scalar_bytes fmt True) n = b # r \<and> b \<noteq> 0x3B \<and> \<not> is_space b" for n
    by (cases n) (auto simp: write_bool_def write_i64_def write_u64_def write_f64_def write_string_def
        write_bytes_def is_space_def)
  obtain a n where v: "v = YsonValue a n" by (cases v)
  show ?thesis
    by (cases a) (use node [of n] in \<open>auto simp: v is_space_def split: list.splits\<close>)
qed

lemma skip_between_row [simp]: "skip_between (row_bytes fmt v @ rest) = row_bytes fmt v @ rest"
  using row_bytes_first [of fmt v] by (auto simp: skip_between_def)

lemma row_bytes_ne [simp]: "row_bytes fmt v \<noteq> []"
  using row_bytes_first [of fmt v] by auto

lemma scan_row:
  assumes "row_ok v" "rest = [] \<or> hd rest = 0x3B"
  shows "scan_value (row_bytes fmt v @ rest) Binary = Inr (Complete (length (row_bytes fmt v)))"
proof -
  have "delimited rest" using assms(2) by (auto simp: delimited_def)
  then show ?thesis
    using binary_fmt.scan_back [of v rest fmt] assms(1) by (simp add: row_ok_def scan_value_Complete MAX_DEPTH_def)
qed

lemma scan_row_cut:
  assumes "row_ok v" "k < length (row_bytes fmt v)"
  shows "scan_value (take k (row_bytes fmt v)) Binary = Inr Incomplete"
proof -
  have "scan_frame (row_bytes fmt v) = Inr (Some (row_bytes fmt v, length (row_bytes fmt v)))"
    using scan_row [OF assms(1), of "[]" fmt] by (simp add: scan_frame_def)
  from records.frame_cut [OF this assms(2)] show ?thesis
    by (auto simp: scan_frame_def split: sum.splits scan.splits)
qed

section \<open>The check of a fragment\<close>

lemma check_separator [simp]: "check_fragment Binary w (0x3B # rest) = check_fragment Binary w rest"
  by (subst (1 2) check_fragment.simps) (simp add: skip_between_def)

lemma check_end [simp]: "check_fragment Binary w [] = Inr ()"
  by (subst check_fragment.simps) (simp add: skip_between_def)

lemma check_row:
  "row_ok v \<Longrightarrow> rest = [] \<or> hd rest = 0x3B \<Longrightarrow>
   check_fragment Binary w (row_bytes fmt v @ rest) = check_fragment Binary w rest"
  by (subst check_fragment.simps) (simp add: scan_row)

lemma check_row_cut:
  assumes "row_ok v" "0 < k" "k < length (row_bytes fmt v)"
  shows "check_fragment Binary w (take k (row_bytes fmt v)) = Inl (Ends_inside_record (w - k) w)"
proof -
  obtain b r where b: "row_bytes fmt v = b # r" "b \<noteq> 0x3B" "\<not> is_space b" using row_bytes_first by blast
  then have "skip_between (take k (row_bytes fmt v)) = take k (row_bytes fmt v)"
    using assms(2) by (cases k) (auto simp: skip_between_def)
  then show ?thesis
    using assms b(1) scan_row_cut [OF assms(1,3)] by (subst check_fragment.simps) (simp add: min_def)
qed

text \<open>Whether a fragment cut to \<open>k\<close> bytes ends with a row, its separator there or not; and where the row
  it otherwise ends inside starts.\<close>

fun at_row_end :: "formatters \<Rightarrow> yson_value list \<Rightarrow> nat \<Rightarrow> bool" where
  "at_row_end fmt [] k = (k = 0)"
| "at_row_end fmt (v # rows) k =
     (let n = length (row_bytes fmt v)
      in k = 0 \<or> k = n \<or> n < k \<and> at_row_end fmt rows (k - n - 1))"

fun cut_row_start :: "formatters \<Rightarrow> yson_value list \<Rightarrow> nat \<Rightarrow> nat" where
  "cut_row_start fmt [] k = 0"
| "cut_row_start fmt (v # rows) k =
     (let n = length (row_bytes fmt v)
      in if n < k then n + 1 + cut_row_start fmt rows (k - n - 1) else 0)"

lemma cut_row_start_le: "cut_row_start fmt rows k \<le> k"
proof (induction fmt rows k rule: cut_row_start.induct)
  case (2 fmt v rows k)
  then show ?case by (fastforce simp: Let_def)
qed simp

lemma check_cut:
  "list_all row_ok rows \<Longrightarrow> k \<le> length (row_fragment fmt rows) \<Longrightarrow> k \<le> w \<Longrightarrow>
   check_fragment Binary w (take k (row_fragment fmt rows)) =
     (if at_row_end fmt rows k then Inr ()
      else Inl (Ends_inside_record (w - (k - cut_row_start fmt rows k)) w))"
proof (induction rows arbitrary: k)
  case (Cons v rows)
  let ?n = "length (row_bytes fmt v)"
  have v: "row_ok v" using Cons.prems(1) by simp
  consider "k = 0" | "0 < k" "k < ?n" | "k = ?n" | "?n < k" by linarith
  then show ?case
  proof cases
    case 2
    then show ?thesis using check_row_cut [OF v 2] by (simp add: Let_def)
  next
    case 3
    then show ?thesis using check_row [OF v, of "[]" w fmt] by (simp add: Let_def)
  next
    case 4
    then obtain m where m: "k = ?n + Suc m" by (metis add_Suc_right less_imp_Suc_add)
    have "check_fragment Binary w (take k (row_fragment fmt (v # rows))) =
        check_fragment Binary w (take m (row_fragment fmt rows))"
      using check_row [OF v, of "0x3B # take m (row_fragment fmt rows)" w fmt] by (simp add: m)
    then show ?thesis using Cons.IH [of m] Cons.prems m by (simp add: Let_def)
  qed simp
qed simp

section \<open>Reading rows back\<close>

lemma de_row:
  assumes "row_ok v" "drop pos input = row_bytes fmt v @ 0x3B # rest"
  shows "de_value True input pos 0 = Inr (v, pos + length (row_bytes fmt v))"
    and "\<exists>b. peek_byte True input pos = Inr (b, pos) \<and> b \<noteq> 0x3B"
proof -
  have d: "delimited (0x3B # rest)" by (simp add: delimited_def)
  show "de_value True input pos 0 = Inr (v, pos + length (row_bytes fmt v))"
    using binary_fmt.reads_all(1) [of v fmt] assms d unfolding binary_fmt.reads_value_def row_ok_def
    by (simp add: DE_MAX_DEPTH_def)
  show "\<exists>b. peek_byte True input pos = Inr (b, pos) \<and> b \<noteq> 0x3B"
    using binary_fmt.peek_value [of v pos input fmt] assms unfolding row_ok_def by blast
qed

lemma decode_separated:
  "list_all row_ok rows \<Longrightarrow> drop pos input = 0x3B # row_fragment fmt rows \<Longrightarrow>
   decode_rows_from input pos False n = Inr rows"
proof (induction rows arbitrary: pos n)
  case Nil
  have p: "peek_byte True input pos = Inr (0x3B, pos)" "next_token True input pos = Inr (ItemSeparator, pos + 1)"
    using lex_punctuation [of pos input "0x3B" "[]" ItemSeparator True] Nil.prems(2) by simp_all
  have "length input = Suc pos" using arg_cong [OF Nil.prems(2), of length] by simp
  then have "peek_byte True input (Suc pos) = Inl Eof" by (simp add: peek_byte_def skip_def)
  then show ?case using p by (subst decode_rows_from.simps) (simp add: next_item_def)
next
  case (Cons v rows)
  have ok: "row_ok v" using Cons.prems(1) by simp
  have p: "peek_byte True input pos = Inr (0x3B, pos)" "next_token True input pos = Inr (ItemSeparator, pos + 1)"
    using lex_punctuation [of pos input "0x3B" _ ItemSeparator True] Cons.prems(2) by simp_all
  have at: "drop (pos + 1) input = row_bytes fmt v @ 0x3B # row_fragment fmt rows"
    using drop_Cons_nth [OF Cons.prems(2)] by simp
  obtain b where b: "peek_byte True input (pos + 1) = Inr (b, pos + 1)" using de_row(2) [OF ok at] by blast
  have "drop (pos + 1 + length (row_bytes fmt v)) input = 0x3B # row_fragment fmt rows"
    using drop_append_eq [OF at] .
  from Cons.IH [OF _ this, of "Suc n"] Cons.prems(1) show ?case
    using p b de_row(1) [OF ok at] by (subst decode_rows_from.simps) (simp add: next_item_def)
qed

lemma decode_fragment: "list_all row_ok rows \<Longrightarrow> decode_rows p (row_fragment fmt rows) = Inr rows"
proof (cases rows)
  case Nil
  have "next_item True [] 0 True = Inr (None, 0, True)" by (simp add: next_item_def peek_byte_def skip_def)
  then show ?thesis by (simp add: Nil decode_rows_def decode_rows_from.simps)
next
  case (Cons v vs)
  assume ok: "list_all row_ok rows"
  let ?input = "row_fragment fmt rows"
  have v: "row_ok v" and at: "drop 0 ?input = row_bytes fmt v @ 0x3B # row_fragment fmt vs" using ok Cons by simp_all
  obtain b where "peek_byte True ?input 0 = Inr (b, 0)" using de_row(2) [OF v at] by blast
  moreover have "decode_rows_from ?input (0 + length (row_bytes fmt v)) False 1 = Inr vs"
    by (rule decode_separated [where fmt = fmt]) (use ok Cons drop_append_eq [OF at] in auto)
  ultimately have "decode_rows_from ?input 0 True 0 = Inr rows"
    using de_row(1) [OF v at] by (subst decode_rows_from.simps) (simp add: next_item_def Cons)
  then show ?thesis by (simp add: decode_rows_def)
qed

lemma check_whole: "list_all row_ok rows \<Longrightarrow> check_complete_yson_fragment (row_fragment fmt rows) Binary = Inr ()"
proof -
  have whole: "at_row_end fmt rows (length (row_fragment fmt rows))"
    by (induction rows) (simp_all add: Let_def)
  assume "list_all row_ok rows"
  from check_cut [OF this order.refl order.refl] whole show ?thesis
    by (simp add: check_complete_yson_fragment_def)
qed

section \<open>Properties\<close>

text \<open>C12: the check of a binary answer is exact on every cut of a table's rows: a cut at the end of a row,
  before or after its separator, passes, and any other is reported with where the unfinished row starts.
  So a stream that the proxy cut between two rows is not noticed.\<close>

theorem fragment_check_exact:
  assumes "list_all row_ok rows" "k \<le> length (row_fragment fmt rows)"
  shows "check_complete_yson_fragment (take k (row_fragment fmt rows)) Binary =
    (if at_row_end fmt rows k then Inr () else Inl (Ends_inside_record (cut_row_start fmt rows k) k))"
  using check_cut [OF assms order.refl] assms(2) cut_row_start_le [of fmt rows k]
  by (simp add: check_complete_yson_fragment_def)

theorem fragment_check_exact_witness:
  "check_complete_yson_fragment [0x7B, 0x7D, 0x3B, 0x7B] Binary = Inl (Ends_inside_record 3 4) \<and>
   check_complete_yson_fragment [0x7B, 0x7D, 0x3B] Binary = Inr ()"
proof -
  have rows: "list_all row_ok [plain (Map []), plain (Map [])]" by (simp add: row_ok_def)
  show ?thesis
    using fragment_check_exact [OF rows, of 4 no_formatters] fragment_check_exact [OF rows, of 3 no_formatters]
    by (simp add: eval_nat_numeral)
qed

lemma answered_result:
  "map_option oc_result oc = Some (Inr x) \<Longrightarrow> map_option an_result (answered oc k) = Some (k x)"
  by (cases oc) (auto simp: answered_def)

text \<open>C11: rows written one by one are the rows read. When the body of a write of rows is read to its end
  and the cluster takes it, the write succeeds; and when the cluster answers a read with those bytes,
  the read gives back the same rows in the same order, whatever room the transport read the body with.\<close>

theorem table_rows_roundtrip:
  assumes "list_all row_ok rows" "write_refusal p = None" "read_refusal p' = None"
    and body: "row_reads fmt rooms (row_stream_new (map (Some \<circ> value_serde) rows)) = (body, failed, True)"
    and sent: "map_option oc_result (upload parse fmt t env s Put (ascii ''write_table'')
      (table_parameters (path_to_yson p) ''input_format'' binary_yson_format) body) = Some (Inr reply)"
    and got: "map_option oc_result (plain_call parse fmt t' env' s' Get (ascii ''read_table'')
      (table_parameters (path_to_yson p') ''output_format'' (data_format_to_yson (Yson_data Binary))) None Heavy) = Some (Inr body)"
  shows "map_option an_result (write_table_rows parse fmt t env s p (map (Some \<circ> value_serde) rows) rooms) = Some (Inr ()) \<and>
    map_option an_result (read_table_rows parse fmt t' env' s' p') = Some (Inr rows)"
proof
  have b: "failed = None" "body = row_fragment fmt rows"
    using row_body [OF body] by (simp_all add: fragment_of_values)
  show "map_option an_result (write_table_rows parse fmt t env s p (map (Some \<circ> value_serde) rows) rooms) = Some (Inr ())"
    using answered_result [OF sent]
    by (simp add: write_table_rows_def unless_refused_def refuse_selection_on_write_def assms(2) body b(1))
  have "map_option an_result (read_yson_table parse fmt t' env' s' p' Binary) = Some (Inr body)"
    using answered_result [OF got, where k = "\<lambda>body. case check_complete_yson_fragment body Binary of
        Inl e \<Rightarrow> Inl (Fragment_incomplete p' e) | Inr _ \<Rightarrow> Inr body"] check_whole [OF assms(1), of fmt]
    by (simp add: read_yson_table_def unless_refused_def refuse_mixed_selection_on_read_def assms(3) b)
  then obtain a where a: "read_yson_table parse fmt t' env' s' p' Binary = Some a" "an_result a = Inr body" by auto
  show "map_option an_result (read_table_rows parse fmt t' env' s' p') = Some (Inr rows)"
    using decode_fragment [OF assms(1), of p' fmt] by (simp add: read_table_rows_def a b)
qed

text \<open>A cluster that answers every request alike.\<close>

definition steady_transport :: transport where
  "steady_transport = sample_transport\<lparr>tr_discovery := False\<rparr>"

definition steady_env :: "bytes \<Rightarrow> call_env" where
  "steady_env content =
     \<lparr>ce_net = (\<lambda>_ _ _. Inr \<lparr>rs_status = 200, rs_location = None, rs_error = None,
        rs_body = (if content = [] then [] else [Data content]), rs_text = Inr []\<rparr>),
      ce_clock = (\<lambda>_ _. 0), ce_bufs = (\<lambda>_. 9), ce_route = sample_input 9 (Inr []), ce_after = 9, ce_draws = (1, 2)\<rparr>"

lemma steady_dispatch:
  assumes "to_string no_formatters (value_serde q) Text = Inr encoded"
  shows "snd (dispatch (\<lambda>_. None) no_formatters steady_transport (ce_net (steady_env content) n) (ce_clock (steady_env content) n)
      (ascii ''https://h.net'') verb command q body streaming) =
    Inr \<lparr>rs_status = 200, rs_location = None, rs_error = None,
      rs_body = (if content = [] then [] else [Data content]), rs_text = Inr []\<rparr>"
proof -
  have "unusable steady_transport (ascii ''https://h.net'') = None" "tls_unavailable steady_transport = (\<lambda>_. None)"
    by (simp_all add: unusable_def tls_unavailable_def fun_eq_iff steady_transport_def)
  moreover have "deadline_for steady_transport streaming 0 = (if streaming then None else Some 9)"
    by (simp add: deadline_for_def instant_add_def INSTANT_MAX_def steady_transport_def)
  ultimately show ?thesis
    by (simp add: dispatch_def assms split_beta steady_env_def request_loop.simps Client_Transport.remaining_def redirect_def)
qed

lemma steady_read:
  assumes "length content \<le> 9"
  shows "read_capped bufs command (if content = [] then [] else [Data content]) (tr_response_limit steady_transport) = Inr content"
  using assms by (simp add: read_capped_def read_to_end_content steady_transport_def)

lemma steady_call:
  assumes "to_string no_formatters (value_serde q) Text = Inr encoded" "length content \<le> 9"
  shows "map_option oc_result (plain_call (\<lambda>_. None) no_formatters steady_transport (steady_env content) Unasked verb command q None Heavy) =
      Some (Inr content)"
    and "map_option oc_result (upload (\<lambda>_. None) no_formatters steady_transport (steady_env content) Unasked verb command q rows) =
      Some (Inr content)"
proof -
  have tr: "tr_transaction steady_transport = None" "\<not> tr_discovery steady_transport"
      "tr_base steady_transport = ascii ''https://h.net''"
    by (simp_all add: steady_transport_def sample_transport_def render_caller_headers_def)
  note defs = run_call_def base_for_def after_heavy_def retry_run_def run_from.simps Let_def split_beta
    is_success_def steady_read [OF assms(2)] steady_dispatch [OF assms(1)] tr
  show "map_option oc_result (plain_call (\<lambda>_. None) no_formatters steady_transport (steady_env content) Unasked verb command q None Heavy) =
      Some (Inr content)"
    by (simp add: plain_call_def call_with_def chosen_mutation_id_def stamped_def in_transaction_def tagged_def send_def defs)
  show "map_option oc_result (upload (\<lambda>_. None) no_formatters steady_transport (steady_env content) Unasked verb command q rows) =
      Some (Inr content)"
    by (simp add: upload_def stamped_def in_transaction_def upload_once_def defs)
qed

theorem table_rows_roundtrip_witness:
  "map_option an_result (read_table_rows (\<lambda>_. None) no_formatters steady_transport (steady_env [0x23, 0x3B]) Unasked
     (table_path_new (ascii ''//t''))) = Some (Inr [plain Entity])"
proof -
  have ok: "list_all row_ok [plain Entity]" by (simp add: row_ok_def)
  have refusals: "write_refusal (table_path_new (ascii ''//t'')) = None" "read_refusal (table_path_new (ascii ''//t'')) = None"
    by code_simp+
  have reads: "row_reads no_formatters [1, 1] (row_stream_new (map (Some \<circ> value_serde) [plain Entity])) = ([0x23, 0x3B], None, True)"
    by (simp add: row_stream_new_def row_read_def fill_rows_def with_buffer_def push_def ROW_CHUNK_def)
  have "\<not> isl (to_string no_formatters (value_serde (table_parameters (path_to_yson (table_path_new (ascii ''//t''))) ''input_format''
      binary_yson_format)) Text)"
    and "\<not> isl (to_string no_formatters (value_serde (table_parameters (path_to_yson (table_path_new (ascii ''//t''))) ''output_format''
      (data_format_to_yson (Yson_data Binary)))) Text)"
    by code_simp+
  then obtain s1 s2 where enc:
      "to_string no_formatters (value_serde (table_parameters (path_to_yson (table_path_new (ascii ''//t''))) ''input_format''
        binary_yson_format)) Text = Inr s1"
      "to_string no_formatters (value_serde (table_parameters (path_to_yson (table_path_new (ascii ''//t''))) ''output_format''
        (data_format_to_yson (Yson_data Binary)))) Text = Inr s2"
    by (metis obj_sumE isl_def)
  have "length [] \<le> (9::nat)" "length [0x23, 0x3B :: u8] \<le> 9" by simp_all
  from table_rows_roundtrip [OF ok refusals reads steady_call(2) [OF enc(1) this(1)] steady_call(1) [OF enc(2) this(2)]]
  show ?thesis by blast
qed

section \<open>Skiff streams\<close>

lemma skip_all_rows_reads:
  "skip_all_rows node_cost d = and_then (read_rows_to_end node_cost d) (\<lambda>_. Inr ())"
proof (induction "length (decoder_input d)" arbitrary: d rule: less_induct)
  case less
  show ?case
  proof (cases "next_row node_cost d")
    case (Inl e)
    then show ?thesis
      by (subst skip_all_rows.simps, subst read_rows_to_end.simps) (simp add: skip_row_next_row)
  next
    case (Inr r)
    obtain row d' where r: "r = (row, d')" by fastforce
    show ?thesis
    proof (cases row)
      case None
      then show ?thesis using Inr r
        by (subst skip_all_rows.simps, subst read_rows_to_end.simps) (simp add: skip_row_next_row)
    next
      case (Some x)
      have "length (decoder_input d') < length (decoder_input d)"
        using next_row_shorter Inr r Some by blast
      from less [OF this] show ?thesis using Inr r Some
        by (subst skip_all_rows.simps, subst read_rows_to_end.simps)
          (cases "read_rows_to_end node_cost d'"; simp add: skip_row_next_row)
    qed
  qed
qed

text \<open>A Skiff stream passes the check before it is written, and an answer the check after it is read,
  exactly when a decoder for the format reads all of it, to the same error otherwise; no row is built
  for it.\<close>

theorem skiff_check_decodes:
  "check_complete_skiff_stream node_cost data format =
     and_then (read_rows_to_end node_cost (decoder_new data format)) (\<lambda>_. Inr ())"
  by (simp add: check_complete_skiff_stream_def skip_all_rows_reads)

end
