(* ===== verification/Client_Schema.thy ===== *)
theory Client_Schema
  imports Client_Transport
begin

text \<open>
  \<open>crates/ytsaurus-client/src/schema.rs\<close>: column types and their names, columns, table schemas, the
  check the client makes before it sends one, and the YSON form. A refusal is a constructor with
  what its text interpolates.
\<close>

section \<open>Columns\<close>

datatype column_type =
    Ty_int8 | Ty_int16 | Ty_int32 | Ty_int64 | Ty_uint8 | Ty_uint16 | Ty_uint32 | Ty_uint64
  | Ty_float | Ty_double | Ty_boolean | Ty_string | Ty_utf8 | Ty_any
  | Ty_date | Ty_datetime | Ty_timestamp | Ty_interval | Ty_date32 | Ty_datetime64 | Ty_timestamp64 | Ty_interval64
  | Ty_json | Ty_uuid | Ty_void | Ty_null

fun column_type_name :: "column_type \<Rightarrow> string" where
  "column_type_name Ty_int8 = ''int8''"
| "column_type_name Ty_int16 = ''int16''"
| "column_type_name Ty_int32 = ''int32''"
| "column_type_name Ty_int64 = ''int64''"
| "column_type_name Ty_uint8 = ''uint8''"
| "column_type_name Ty_uint16 = ''uint16''"
| "column_type_name Ty_uint32 = ''uint32''"
| "column_type_name Ty_uint64 = ''uint64''"
| "column_type_name Ty_float = ''float''"
| "column_type_name Ty_double = ''double''"
| "column_type_name Ty_boolean = ''boolean''"
| "column_type_name Ty_string = ''string''"
| "column_type_name Ty_utf8 = ''utf8''"
| "column_type_name Ty_any = ''any''"
| "column_type_name Ty_date = ''date''"
| "column_type_name Ty_datetime = ''datetime''"
| "column_type_name Ty_timestamp = ''timestamp''"
| "column_type_name Ty_interval = ''interval''"
| "column_type_name Ty_date32 = ''date32''"
| "column_type_name Ty_datetime64 = ''datetime64''"
| "column_type_name Ty_timestamp64 = ''timestamp64''"
| "column_type_name Ty_interval64 = ''interval64''"
| "column_type_name Ty_json = ''json''"
| "column_type_name Ty_uuid = ''uuid''"
| "column_type_name Ty_void = ''void''"
| "column_type_name Ty_null = ''null''"

definition can_be_required :: "column_type \<Rightarrow> bool" where
  "can_be_required t = (t \<notin> {Ty_any, Ty_null, Ty_void})"

definition column_types :: "column_type list" where
  "column_types =
     [Ty_int8, Ty_int16, Ty_int32, Ty_int64, Ty_uint8, Ty_uint16, Ty_uint32, Ty_uint64, Ty_float, Ty_double, Ty_boolean,
      Ty_string, Ty_utf8, Ty_any, Ty_date, Ty_datetime, Ty_timestamp, Ty_interval, Ty_date32, Ty_datetime64,
      Ty_timestamp64, Ty_interval64, Ty_json, Ty_uuid, Ty_void, Ty_null]"

text \<open>\<open>ColumnType::parse\<close>: the wire name of each type, and two other spellings.\<close>

definition column_type_parse :: "bytes \<Rightarrow> column_type option" where
  "column_type_parse name =
     map_of (map (\<lambda>t. (ascii (column_type_name t), t)) column_types @
       [(ascii ''bool'', Ty_boolean), (ascii ''yson'', Ty_any)]) name"

datatype sort_order = Ascending | Descending

fun sort_order_name :: "sort_order \<Rightarrow> string" where
  "sort_order_name Ascending = ''ascending''"
| "sort_order_name Descending = ''descending''"

record column =
  col_name :: bytes
  col_type :: column_type
  col_required :: bool
  col_sort :: "sort_order option"

definition column_new :: "bytes \<Rightarrow> column_type \<Rightarrow> column" where
  "column_new name t = \<lparr>col_name = name, col_type = t, col_required = False, col_sort = None\<rparr>"

definition column_required :: "column \<Rightarrow> column" where
  "column_required c = c\<lparr>col_required := True\<rparr>"

definition column_sorted :: "sort_order \<Rightarrow> column \<Rightarrow> column" where
  "column_sorted order c = c\<lparr>col_sort := Some order\<rparr>"

definition column_key :: "column \<Rightarrow> column" where
  "column_key = column_sorted Ascending"

definition column_to_yson :: "column \<Rightarrow> yson_value" where
  "column_to_yson c =
     (let fields = yson_map
            [(ascii ''name'', yson_str (col_name c)), (ascii ''type'', yson_str (ascii (column_type_name (col_type c)))),
             (ascii ''required'', yson_boolean (col_required c))]
      in case col_sort c of
           None \<Rightarrow> fields
         | Some order \<Rightarrow> the (yson_insert fields (ascii ''sort_order'') (yson_str (ascii (sort_order_name order)))))"

section \<open>Schemas\<close>

record column_schema =
  cs_columns :: "column list"
  cs_strict :: bool
  cs_unique_keys :: bool

definition column_schema_new :: "column list \<Rightarrow> column_schema" where
  "column_schema_new columns = \<lparr>cs_columns = columns, cs_strict = True, cs_unique_keys = False\<rparr>"

definition non_strict :: "column_schema \<Rightarrow> column_schema" where
  "non_strict s = s\<lparr>cs_strict := False\<rparr>"

definition with_unique_keys :: "bool \<Rightarrow> column_schema \<Rightarrow> column_schema" where
  "with_unique_keys unique s = s\<lparr>cs_unique_keys := unique\<rparr>"

definition MAX_COLUMNS :: nat where "MAX_COLUMNS = 32000"
definition MAX_NAME :: nat where "MAX_NAME = 256"

datatype column_refusal =
    Too_many_columns nat
  | Empty_column_name
  | Column_name_too_long bytes nat
  | Reserved_column_name bytes
  | Duplicate_column bytes
  | Cannot_be_required bytes column_type
  | Key_not_first bytes bytes
  | No_key_columns

text \<open>The loop over the columns, with the names seen.\<close>

fun check_columns :: "bytes list \<Rightarrow> column list \<Rightarrow> column_refusal + unit" where
  "check_columns seen [] = Inr ()"
| "check_columns seen (c # cs) =
     (let name = col_name c
      in if name = [] then Inl Empty_column_name
         else if length name > MAX_NAME then Inl (Column_name_too_long name (length name))
         else if has_prefix name [0x40] then Inl (Reserved_column_name name)
         else if name \<in> set seen then Inl (Duplicate_column name)
         else if col_required c \<and> \<not> can_be_required (col_type c) then Inl (Cannot_be_required name (col_type c))
         else check_columns (name # seen) cs)"

definition is_key :: "column \<Rightarrow> bool" where "is_key c = (col_sort c \<noteq> None)"

definition check_keys :: "column_schema \<Rightarrow> column_refusal + unit" where
  "check_keys s =
     (case find is_key (dropWhile is_key (cs_columns s)) of
        Some stray \<Rightarrow> Inl (Key_not_first (col_name stray) (col_name (hd (dropWhile is_key (cs_columns s)))))
      | None \<Rightarrow>
          if cs_unique_keys s \<and> takeWhile is_key (cs_columns s) = [] then Inl No_key_columns else Inr ())"

definition column_schema_validate :: "column_schema \<Rightarrow> column_refusal + unit" where
  "column_schema_validate s =
     (if length (cs_columns s) > MAX_COLUMNS then Inl (Too_many_columns (length (cs_columns s)))
      else and_then (check_columns [] (cs_columns s)) (\<lambda>_. check_keys s))"

definition column_schema_to_yson :: "column_schema \<Rightarrow> yson_value" where
  "column_schema_to_yson s =
     yson_with_attributes (yson_list (map column_to_yson (cs_columns s)))
       [(ascii ''strict'', yson_boolean (cs_strict s)), (ascii ''unique_keys'', yson_boolean (cs_unique_keys s))]"

section \<open>Lemmas\<close>

lemma column_type_parse_name: "column_type_parse (ascii (column_type_name t)) = Some t"
  by (cases t) (simp_all add: column_type_parse_def column_types_def ascii_eq_iff)

lemma check_columns_Inr:
  "check_columns seen cs = Inr () \<longleftrightarrow>
     (\<forall>c \<in> set cs. col_name c \<noteq> [] \<and> length (col_name c) \<le> MAX_NAME \<and> \<not> has_prefix (col_name c) [0x40] \<and>
       (col_required c \<longrightarrow> can_be_required (col_type c))) \<and>
     distinct (map col_name cs) \<and> set (map col_name cs) \<inter> set seen = {}"
  by (induction seen cs rule: check_columns.induct) (auto simp: Let_def)

lemma keys_first:
  "find is_key (dropWhile is_key cs) = None \<longleftrightarrow> (\<exists>n \<le> length cs. list_all is_key (take n cs) \<and> \<not> list_ex is_key (drop n cs))"
proof
  assume *: "find is_key (dropWhile is_key cs) = None"
  have "takeWhile is_key cs = take (length (takeWhile is_key cs)) cs"
    by (metis append_eq_conv_conj takeWhile_dropWhile_id)
  moreover have "dropWhile is_key cs = drop (length (takeWhile is_key cs)) cs"
    by (rule dropWhile_eq_drop)
  moreover have "length (takeWhile is_key cs) \<le> length cs" by (rule length_takeWhile_le)
  ultimately show "\<exists>n \<le> length cs. list_all is_key (take n cs) \<and> \<not> list_ex is_key (drop n cs)"
    using * by (metis (no_types, lifting) find_None_iff list_all_iff list_ex_iff set_takeWhileD)
next
  assume "\<exists>n \<le> length cs. list_all is_key (take n cs) \<and> \<not> list_ex is_key (drop n cs)"
  then obtain n where n: "list_all is_key (take n cs)" "\<not> list_ex is_key (drop n cs)" by blast
  have "dropWhile is_key (take n cs @ drop n cs) = dropWhile is_key (drop n cs)"
    using n(1) by (simp add: list_all_iff dropWhile_append1 del: append_take_drop_id)
  then show "find is_key (dropWhile is_key cs) = None"
    using n(2) by (auto simp: find_None_iff list_ex_iff dest: set_dropWhileD)
qed

text \<open>A schema is let through exactly when the cluster's rules hold: bounds, distinct names that are not
  reserved, no required column of a type that cannot be, the key columns first, and keys to be unique.\<close>

theorem column_schema_validate_exact:
  "column_schema_validate s = Inr () \<longleftrightarrow>
     length (cs_columns s) \<le> MAX_COLUMNS \<and> distinct (map col_name (cs_columns s)) \<and>
     (\<forall>c \<in> set (cs_columns s). col_name c \<noteq> [] \<and> length (col_name c) \<le> MAX_NAME \<and> \<not> has_prefix (col_name c) [0x40] \<and>
       (col_required c \<longrightarrow> can_be_required (col_type c))) \<and>
     (\<exists>n \<le> length (cs_columns s). list_all is_key (take n (cs_columns s)) \<and> \<not> list_ex is_key (drop n (cs_columns s))) \<and>
     (cs_unique_keys s \<longrightarrow> cs_columns s \<noteq> [] \<and> is_key (hd (cs_columns s)))"
proof -
  have first: "takeWhile is_key cs = [] \<longleftrightarrow> cs = [] \<or> \<not> is_key (hd cs)" for cs
    by (cases cs) simp_all
  show ?thesis
    unfolding column_schema_validate_def check_keys_def keys_first [symmetric]
    by (auto simp: and_then_Inr check_columns_Inr first split: option.splits)
qed

end
