(* ===== verification/Yson_Utf8.thy ===== *)
theory Yson_Utf8
  imports Yson_Properties
begin

text \<open>
  \<open>crates/ytsaurus-yson/src/ser.rs\<close>, \<open>to_string\<close>: the text form of a value is UTF-8 whatever bytes its
  strings hold, so \<open>to_string\<close> fails on no value.
\<close>

section \<open>UTF-8\<close>

lemma utf8_ascii [simp]: "b < 0x80 \<Longrightarrow> utf8_valid (b # r) = utf8_valid r"
  by simp

text \<open>A valid string is empty, or starts with a character of one to four bytes.\<close>

lemma utf8_cases [consumes 1, case_names empty ascii multi]:
  assumes "utf8_valid bs"
  obtains "bs = []"
  | b r where "bs = b # r" "b < 0x80" "utf8_valid r"
  | b cs r where "bs = b # cs @ r" "\<not> b < 0x80" "list_all utf8_cont cs" "utf8_valid r"
      "\<And>ys. utf8_valid (b # cs @ ys) = utf8_valid ys"
proof (cases bs)
  case (Cons b r)
  show thesis
  proof (cases "b < 0x80")
    case False
    then obtain c1 r1 where r: "r = c1 # r1" using assms Cons by (cases r) simp_all
    show thesis
    proof (cases "0xC2 \<le> b \<and> b \<le> 0xDF")
      case True
      then show thesis using that(3) [of b "[c1]" r1] assms False Cons r by simp
    next
      case two: False
      then obtain c2 r2 where r1: "r1 = c2 # r2" using assms Cons r False two by (cases r1) (auto split: if_splits)
      show thesis
      proof (cases "0xE0 \<le> b \<and> b \<le> 0xEF")
        case True
        then show thesis using that(3) [of b "[c1, c2]" r2] assms False two Cons r r1 by (auto split: if_splits)
      next
        case three: False
        then obtain c3 r3 where r2: "r2 = c3 # r3" using assms Cons r r1 False two three by (cases r2) (auto split: if_splits)
        then show thesis using that(3) [of b "[c1, c2, c3]" r3] assms False two three Cons r r1 r2 by (auto split: if_splits)
      qed
    qed
  qed (use that(2) assms Cons in simp)
qed (use that(1) in simp)

lemma utf8_induct [consumes 1, case_names empty ascii multi]:
  assumes "utf8_valid bs"
    and "P []"
    and "\<And>b r. b < 0x80 \<Longrightarrow> utf8_valid r \<Longrightarrow> P r \<Longrightarrow> P (b # r)"
    and "\<And>b cs r. \<not> b < 0x80 \<Longrightarrow> list_all utf8_cont cs \<Longrightarrow> (\<And>ys. utf8_valid (b # cs @ ys) = utf8_valid ys) \<Longrightarrow>
      utf8_valid r \<Longrightarrow> P r \<Longrightarrow> P (b # cs @ r)"
  shows "P bs"
  using assms(1)
proof (induction "length bs" arbitrary: bs rule: less_induct)
  case less
  from less.prems show ?case
    by (cases rule: utf8_cases) (use assms(2-4) less.hyps in auto)
qed

lemma utf8_valid_append: "utf8_valid xs \<Longrightarrow> utf8_valid (xs @ ys) = utf8_valid ys"
  by (induction xs rule: utf8_induct) (simp_all del: utf8_valid.simps(2))

lemma utf8_valid_join: "utf8_valid xs \<Longrightarrow> utf8_valid ys \<Longrightarrow> utf8_valid (xs @ ys)"
  by (simp add: utf8_valid_append)

lemma utf8_valid_quoted: "utf8_valid xs \<Longrightarrow> utf8_valid (0x22 # xs @ [0x22])"
  using utf8_valid_join [of xs "[0x22]"] by simp

lemma hex_escape_ascii: "\<forall>c \<in> set (hex_escape b). c < 0x80"
proof -
  have "unat b < 256" using unsigned_less [of b] by simp
  then show ?thesis
    using digit_char_bounds [of "unat b div 16"] digit_char_bounds [of "unat b mod 16"]
    by (auto simp: hex_escape_def)
qed

lemma escape_char_ascii: "b < 0x80 \<Longrightarrow> \<forall>c \<in> set (escape_char b). c < 0x80"
  using hex_escape_ascii [of b] by (auto simp: escape_char_def)

lemma escape_char_high: "0x80 \<le> b \<Longrightarrow> escape_char b = [b]"
  by (auto simp: escape_char_def word_le_nat_alt)

lemma escape_char_cont: "utf8_cont b \<Longrightarrow> escape_char b = [b]"
  by (simp add: utf8_cont_def escape_char_high)

lemma utf8_escaped: "utf8_valid bs \<Longrightarrow> utf8_valid (concat (map escape_char bs))"
proof (induction bs rule: utf8_induct)
  case (ascii b r)
  then show ?case using utf8_valid_ascii [OF escape_char_ascii [OF ascii(1)]] by (simp add: utf8_valid_append)
next
  case (multi b cs r)
  have "concat (map escape_char cs) = cs" using multi(2) by (induction cs) (simp_all add: escape_char_cont)
  then show ?case using multi escape_char_high [of b] by (simp del: utf8_valid.simps(2))
qed simp

lemma escape_byte_ascii: "\<forall>c \<in> set (escape_byte b). c < 0x80"
  using hex_escape_ascii [of b] by (auto simp: escape_byte_def word_le_nat_alt word_less_nat_alt)

lemma utf8_string: "utf8_valid (scalar_bytes fmt False (Token_String v))"
proof (cases "utf8_valid v")
  case True
  then show ?thesis using utf8_valid_quoted [OF utf8_escaped [OF True]] by (simp add: write_string_def)
next
  case False
  have "utf8_valid (concat (map escape_byte v))" by (rule utf8_valid_ascii) (use escape_byte_ascii in auto)
  then show ?thesis using False utf8_valid_quoted by (simp add: write_bytes_def)
qed

section \<open>Values\<close>

text \<open>Formatters of numbers write ASCII.\<close>

definition ascii_formatters :: "formatters \<Rightarrow> bool" where
  "ascii_formatters fmt =
     (\<forall>i u d. (\<forall>c \<in> set (itoa_i64 fmt i). c < 0x80) \<and> (\<forall>c \<in> set (itoa_u64 fmt u). c < 0x80) \<and>
       (\<forall>c \<in> set (ryu_f64 fmt d). c < 0x80))"

lemma utf8_scalar:
  assumes "ascii_formatters fmt"
  shows "utf8_valid (scalar_bytes fmt False t)"
proof (cases t)
  case (Token_String v)
  then show ?thesis using utf8_string by simp
qed (use assms in \<open>auto simp: ascii_formatters_def write_bool_def write_i64_def write_u64_def write_f64_def ascii_def Let_def
  intro!: utf8_valid_ascii\<close>)

lemma utf8_grammar:
  assumes "\<And>t. utf8_valid (tok t)"
  shows "utf8_valid (enc_value tok v)" "utf8_valid (enc_node tok n)" "utf8_valid (enc_list tok first vs)"
    "utf8_valid (enc_entries tok first es)"
  by (induction v and n and vs and es arbitrary: and and first and first rule: value_serde_node_serde_values_serde_entries_serde.induct)
    (auto simp: utf8_valid_append assms check_first_def split: option.split list.split)

text \<open>\<open>to_string\<close> fails on no value: strings of any bytes are escaped to text.\<close>

theorem to_string_total:
  assumes "ascii_formatters fmt"
  shows "to_string fmt (value_serde v) Text = Inr (enc_value (scalar_bytes fmt False) v)"
  using utf8_grammar(1) [of "scalar_bytes fmt False" v] utf8_scalar [OF assms] by (simp add: to_string_def to_vec_grammar)

end
