(* ===== verification/Client_Batch.thy ===== *)
theory Client_Batch
  imports Client_Call Client_Schema Yson_De Yson_Utf8
begin

text \<open>
  \<open>crates/ytsaurus-client/src/batch.rs\<close> and \<open>execute_batch\<close> of \<open>lib.rs\<close>: the parts of a batch, how it may
  be repeated, its cut into requests, the body of a request, the reading of an answer into a result
  per part, and the loop over the requests. A \<open>Config\<close> or \<open>Decode\<close> error made here is a constructor
  with what its text interpolates. \<open>None\<close> is the panic of \<open>insert\<close> on parameters that are not a dict.
\<close>

section \<open>Parts\<close>

definition DEFAULT_CONCURRENCY :: int where "DEFAULT_CONCURRENCY = 50"
definition PARTS_PER_CONCURRENCY :: nat where "PARTS_PER_CONCURRENCY = 5"

definition NOT_A_BATCH_PART :: "bytes list" where
  "NOT_A_BATCH_PART = map ascii
     [''alter_query'', ''get_job_fail_context'', ''get_job_input'', ''get_job_stderr'', ''get_job_trace'', ''lookup_rows'',
      ''pull_consumer'', ''pull_queue'', ''pull_queue_consumer'', ''pull_rows'', ''read_blob_table'', ''read_file'',
      ''read_journal'', ''read_query_result'', ''read_shuffle_data'', ''read_table'', ''read_table_partition'',
      ''run_job_shell_command'', ''select_rows'', ''write_file'', ''write_file_fragment'']"

datatype part_kind = Part_read | Part_master_mutation | Part_raw

datatype part_output = Keyed bytes | Unchecked

record batch_part =
  bp_command :: bytes
  bp_parameters :: yson_value
  bp_input :: "yson_value option"
  bp_kind :: part_kind
  bp_output :: part_output

record batch_request =
  br_parts :: "batch_part list"
  br_concurrency :: "int option"
  br_max_part_size :: "nat option"

definition batch_new :: batch_request where
  "batch_new = \<lparr>br_parts = [], br_concurrency = None, br_max_part_size = None\<rparr>"

text \<open>The argument is a \<open>u32\<close>, and a \<open>usize\<close> below.\<close>

definition with_concurrency :: "nat \<Rightarrow> batch_request \<Rightarrow> batch_request" where
  "with_concurrency concurrency b = b\<lparr>br_concurrency := Some (int (max concurrency 1))\<rparr>"

definition with_max_part_size :: "nat \<Rightarrow> batch_request \<Rightarrow> batch_request" where
  "with_max_part_size parts b = b\<lparr>br_max_part_size := Some (max parts 1)\<rparr>"

definition batch_push ::
  "bytes \<Rightarrow> yson_value \<Rightarrow> yson_value option \<Rightarrow> part_kind \<Rightarrow> part_output \<Rightarrow> batch_request \<Rightarrow> batch_request" where
  "batch_push command parameters input kind output b =
     b\<lparr>br_parts := br_parts b @ [\<lparr>bp_command = command, bp_parameters = parameters, bp_input = input, bp_kind = kind,
        bp_output = output\<rparr>]\<rparr>"

definition path_only :: "bytes \<Rightarrow> yson_value" where
  "path_only path = yson_map [(ascii ''path'', yson_str path)]"

definition batch_create :: "bytes \<Rightarrow> bytes \<Rightarrow> batch_request \<Rightarrow> batch_request" where
  "batch_create node_type path =
     batch_push (ascii ''create'')
       (yson_map [(ascii ''path'', yson_str path), (ascii ''type'', yson_str node_type),
          (ascii ''recursive'', yson_boolean True), (ascii ''ignore_existing'', yson_boolean True)])
       None Part_master_mutation (Keyed (ascii ''node_id''))"

definition batch_create_table :: "bytes \<Rightarrow> column_schema \<Rightarrow> batch_request \<Rightarrow> (bytes \<times> column_refusal) + batch_request" where
  "batch_create_table path s b =
     (case column_schema_validate s of
        Inl reason \<Rightarrow> Inl (path, reason)
      | Inr _ \<Rightarrow>
          Inr (batch_push (ascii ''create'')
            (yson_map [(ascii ''path'', yson_str path), (ascii ''type'', yson_str (ascii ''table'')),
               (ascii ''recursive'', yson_boolean True),
               (ascii ''attributes'', yson_map [(ascii ''schema'', column_schema_to_yson s)])])
            None Part_master_mutation (Keyed (ascii ''node_id'')) b))"

definition batch_exists :: "bytes \<Rightarrow> batch_request \<Rightarrow> batch_request" where
  "batch_exists path = batch_push (ascii ''exists'') (path_only path) None Part_read (Keyed (ascii ''value''))"

definition batch_get :: "bytes \<Rightarrow> batch_request \<Rightarrow> batch_request" where
  "batch_get path = batch_push (ascii ''get'') (path_only path) None Part_read (Keyed (ascii ''value''))"

definition batch_list :: "bytes \<Rightarrow> batch_request \<Rightarrow> batch_request" where
  "batch_list path = batch_push (ascii ''list'') (path_only path) None Part_read (Keyed (ascii ''value''))"

definition remove_parameters :: "bytes \<Rightarrow> bool \<Rightarrow> yson_value" where
  "remove_parameters path whole =
     yson_map [(ascii ''path'', yson_str path), (ascii ''recursive'', yson_boolean whole), (ascii ''force'', yson_boolean whole)]"

definition batch_remove :: "bytes \<Rightarrow> batch_request \<Rightarrow> batch_request" where
  "batch_remove path = batch_push (ascii ''remove'') (remove_parameters path False) None Part_master_mutation Unchecked"

definition batch_remove_tree :: "bytes \<Rightarrow> batch_request \<Rightarrow> batch_request" where
  "batch_remove_tree path = batch_push (ascii ''remove'') (remove_parameters path True) None Part_master_mutation Unchecked"

definition batch_set_attribute :: "bytes \<Rightarrow> bytes \<Rightarrow> yson_value \<Rightarrow> batch_request \<Rightarrow> batch_request" where
  "batch_set_attribute path name v =
     batch_push (ascii ''set'') (path_only (path @ ascii ''/@'' @ name)) (Some v) Part_master_mutation Unchecked"

section \<open>Raw parts\<close>

datatype command_refusal =
    Empty_command
  | Not_a_command_name bytes
  | Parameters_not_a_dict bytes yson_node
  | Refused_as_part bytes
  | Bulk_data_part bytes
  | Heavy_part bytes

text \<open>The name is a Rust string; any byte of a character that is not ASCII is refused with it.\<close>

definition check_command_name :: "bytes \<Rightarrow> command_refusal + unit" where
  "check_command_name command =
     (if command = [] then Inl Empty_command
      else if list_ex (\<lambda>c. \<not> is_alnum c \<and> c \<noteq> 0x5F) command then Inl (Not_a_command_name command)
      else Inr ())"

definition refuse_non_dict_parameters :: "bytes \<Rightarrow> yson_value \<Rightarrow> command_refusal + unit" where
  "refuse_non_dict_parameters command params =
     (case node params of Map _ \<Rightarrow> Inr () | n \<Rightarrow> Inl (Parameters_not_a_dict command n))"

definition part_kind_of :: "repeatable \<Rightarrow> part_kind" where
  "part_kind_of r = (case r of Freely \<Rightarrow> Part_read | WithMutationId \<Rightarrow> Part_master_mutation | _ \<Rightarrow> Part_raw)"

definition batch_raw_with ::
  "bytes \<Rightarrow> yson_value \<Rightarrow> yson_value option \<Rightarrow> repeatable \<Rightarrow> batch_request \<Rightarrow> command_refusal + batch_request" where
  "batch_raw_with command params input r b =
     and_then (check_command_name command) (\<lambda>_.
     and_then (refuse_non_dict_parameters command params) (\<lambda>_.
       if command \<in> set NOT_A_BATCH_PART then Inl (Refused_as_part command)
       else if is_heavy command then Inl (Bulk_data_part command)
       else if r = Heavy then Inl (Heavy_part command)
       else Inr (batch_push command params input (part_kind_of r) Unchecked b)))"

definition batch_raw :: "bytes \<Rightarrow> yson_value \<Rightarrow> yson_value option \<Rightarrow> batch_request \<Rightarrow> command_refusal + batch_request" where
  "batch_raw command params input b = batch_raw_with command params input Never b"

section \<open>The whole batch\<close>

definition USIZE_MAX :: nat where "USIZE_MAX = 2 ^ 64 - 1"

definition max_part_size :: "batch_request \<Rightarrow> nat" where
  "max_part_size b =
     (case br_max_part_size b of
        Some n \<Rightarrow> n
      | None \<Rightarrow>
          (let concurrency = (case br_concurrency b of Some c \<Rightarrow> c | None \<Rightarrow> DEFAULT_CONCURRENCY)
           in max (min ((if concurrency < 0 then USIZE_MAX else nat concurrency) * PARTS_PER_CONCURRENCY) USIZE_MAX) 1))"

definition batch_repeatable :: "batch_request \<Rightarrow> repeatable" where
  "batch_repeatable b =
     (if list_ex (\<lambda>part. bp_kind part = Part_raw) (br_parts b) then Never
      else if list_ex (\<lambda>part. bp_kind part = Part_master_mutation) (br_parts b) then WithMutationId
      else Freely)"

definition stamped_part :: "bytes option \<Rightarrow> batch_part \<Rightarrow> yson_value option" where
  "stamped_part transaction part =
     (case transaction of
        Some i \<Rightarrow>
          if \<not> takes_no_transaction (bp_command part) \<and> \<not> names_transaction (bp_parameters part)
          then yson_insert (bp_parameters part) TRANSACTION_ID (yson_str i)
          else Some (bp_parameters part)
      | None \<Rightarrow> Some (bp_parameters part))"

definition render_part :: "bytes option \<Rightarrow> batch_part \<Rightarrow> yson_value option" where
  "render_part transaction part =
     Option.bind (stamped_part transaction part) (\<lambda>parameters.
       let request = yson_map [(ascii ''command'', yson_str (bp_command part)), (ascii ''parameters'', parameters)]
       in case bp_input part of
            Some input \<Rightarrow> yson_insert request (ascii ''input'') input
          | None \<Rightarrow> Some request)"

fun render_parts :: "bytes option \<Rightarrow> batch_part list \<Rightarrow> yson_value list option" where
  "render_parts transaction [] = Some []"
| "render_parts transaction (part # parts) =
     Option.bind (render_part transaction part) (\<lambda>v. map_option (Cons v) (render_parts transaction parts))"

definition chunk_value :: "batch_part list \<Rightarrow> int option \<Rightarrow> bytes option \<Rightarrow> yson_value option" where
  "chunk_value parts concurrency transaction =
     Option.bind (render_parts transaction parts) (\<lambda>requests.
       let rendered = yson_map [(ascii ''requests'', yson_list requests)]
       in case concurrency of
            Some c \<Rightarrow> yson_insert rendered (ascii ''concurrency'') (yson_int (word_of_int c))
          | None \<Rightarrow> Some rendered)"

definition render_chunk ::
  "formatters \<Rightarrow> batch_part list \<Rightarrow> int option \<Rightarrow> bytes option \<Rightarrow> (yson_error + bytes) option" where
  "render_chunk fmt parts concurrency transaction =
     map_option (\<lambda>v. to_string fmt (value_serde v) Text) (chunk_value parts concurrency transaction)"

section \<open>Answers\<close>

datatype answer_refusal =
    Answer_not_yson yson_error bytes
  | No_results "bytes list"
  | Answer_not_a_dict yson_node
  | Results_not_a_list yson_node
  | Results_miscounted nat nat
  | Result_not_a_dict bytes yson_node
  | Result_without_key bytes bytes yson_value
  | Result_empty bytes
  | Result_of_unknown_keys bytes "bytes list"

definition yson_field :: "yson_value \<Rightarrow> bytes \<Rightarrow> yson_value option" where
  "yson_field v key = (case node v of Map m \<Rightarrow> map_of m key | _ \<Rightarrow> None)"

definition yson_as_str :: "yson_value \<Rightarrow> bytes option" where
  "yson_as_str v = (case node v of String s \<Rightarrow> if utf8_valid s then Some s else None | _ \<Rightarrow> None)"

lemma size_yson_field: "yson_field v key = Some w \<Longrightarrow> size w < size v"
  by (cases v) (auto simp: yson_field_def split: yson_node.splits dest!: map_of_SomeD
    dest: size_list_estimation' [of _ _ _ "size_prod (\<lambda>_. 0) size"])

function innermost_yson_message :: "yson_value \<Rightarrow> bytes option" where
  "innermost_yson_message document =
     (case yson_field document (ascii ''inner_errors'') of
        None \<Rightarrow> None
      | Some inner \<Rightarrow>
          (case node inner of
             List (first # _) \<Rightarrow>
               (case innermost_yson_message first of
                  Some m \<Rightarrow> Some m
                | None \<Rightarrow> Option.bind (yson_field first (ascii ''message'')) yson_as_str)
           | _ \<Rightarrow> None))"
  by pat_completeness auto
termination innermost_yson_message
proof (relation "measure size", goal_cases)
  case (2 document inner vs first rest)
  have "size first < size inner" using 2(2,3) by (cases inner) auto
  then show ?case using size_yson_field [OF 2(1)] by simp
qed simp

declare innermost_yson_message.simps [simp del]

definition part_error :: "formatters \<Rightarrow> bytes \<Rightarrow> yson_value \<Rightarrow> client_error" where
  "part_error fmt command document =
     (let code = (case Option.bind (yson_field document (ascii ''code'')) as_i64 of Some c \<Rightarrow> sint c | None \<Rightarrow> - 1);
          outer = (case Option.bind (yson_field document (ascii ''message'')) yson_as_str of
                     Some m \<Rightarrow> m | None \<Rightarrow> ascii ''(no message)'')
      in Cluster command code
           (case innermost_yson_message document of
              Some inner \<Rightarrow> if inner \<noteq> outer then outer @ ascii '': '' @ inner else outer
            | None \<Rightarrow> outer)
           (case to_string fmt (value_serde document) Text of Inr s \<Rightarrow> s | Inl _ \<Rightarrow> []))"

type_synonym part_answer = "client_error + yson_value"

definition part_result :: "formatters \<Rightarrow> yson_value \<Rightarrow> batch_part \<Rightarrow> answer_refusal + part_answer" where
  "part_result fmt item part =
     (let command = bp_command part
      in case node item of
           Map entries \<Rightarrow>
             (case (map_of entries (ascii ''error''), map_of entries (ascii ''output'')) of
                (Some e, None) \<Rightarrow>
                  if length entries = 1 then Inr (Inl (part_error fmt command e))
                  else Inl (Result_of_unknown_keys command (map fst entries))
              | (None, Some output) \<Rightarrow>
                  if length entries = 1 then
                    (case bp_output part of
                       Keyed key \<Rightarrow>
                         if yson_field output key = None then Inl (Result_without_key command key output) else Inr (Inr output)
                     | Unchecked \<Rightarrow> Inr (Inr output))
                  else Inl (Result_of_unknown_keys command (map fst entries))
              | _ \<Rightarrow>
                  if entries = [] then
                    (if bp_output part = Unchecked then Inr (Inr yson_empty_map) else Inl (Result_empty command))
                  else Inl (Result_of_unknown_keys command (map fst entries)))
         | n \<Rightarrow> Inl (Result_not_a_dict command n))"

definition parse_results :: "formatters \<Rightarrow> bytes \<Rightarrow> batch_part list \<Rightarrow> answer_refusal + part_answer list" where
  "parse_results fmt body parts =
     (case from_slice body Text of
        Inl e \<Rightarrow> Inl (Answer_not_yson e (truncate_text (from_utf8_lossy body) 200))
      | Inr envelope \<Rightarrow>
          (case node envelope of
             Map m \<Rightarrow>
               (case map_of m (ascii ''results'') of
                  None \<Rightarrow> Inl (No_results (map fst m))
                | Some results \<Rightarrow>
                    (case node results of
                       List items \<Rightarrow>
                         if length items \<noteq> length parts then Inl (Results_miscounted (length parts) (length items))
                         else collect (\<lambda>(item, part). part_result fmt item part) (zip items parts)
                     | n \<Rightarrow> Inl (Results_not_a_list n)))
           | n \<Rightarrow> Inl (Answer_not_a_dict n)))"

section \<open>Execution\<close>

datatype batch_error =
    Batch_empty
  | Batch_id_over_requests nat nat
  | Batch_not_encoded yson_error
  | Batch_failed client_error
  | Batch_answer_refused answer_refusal
  | Batch_interrupted "part_answer list" nat batch_error

function chunks :: "nat \<Rightarrow> 'a list \<Rightarrow> 'a list list" where
  "chunks n xs = (if n = 0 \<or> xs = [] then [] else take n xs # chunks n (drop n xs))"
  by pat_completeness auto
termination chunks
  by (relation "measure (\<lambda>(n, xs). length xs)") auto

declare chunks.simps [simp del]

text \<open>
  The calls of a batch, request by request, none where the body could not be encoded; the state of the
  routing; the result.
\<close>

record batch_answer =
  ba_calls :: "bytes outcome option list"
  ba_state :: heavy_proxy
  ba_result :: "batch_error + part_answer list"

text \<open>One request: its call, the state after it, and the answers of its parts.\<close>

definition run_chunk ::
  "json_parser \<Rightarrow> formatters \<Rightarrow> transport \<Rightarrow> call_env \<Rightarrow> heavy_proxy \<Rightarrow> repeatable \<Rightarrow> int option \<Rightarrow> mutation_id option \<Rightarrow>
     batch_part list \<Rightarrow> (bytes outcome option \<times> heavy_proxy \<times> (batch_error + part_answer list)) option" where
  "run_chunk parse fmt t env s r concurrency given parts =
     (case render_chunk fmt parts concurrency (tr_transaction t) of
        None \<Rightarrow> None
      | Some (Inl e) \<Rightarrow> Some (None, s, Inl (Batch_not_encoded e))
      | Some (Inr body) \<Rightarrow>
          map_option (\<lambda>oc.
            (Some oc, oc_state oc,
             case oc_result oc of
               Inl e \<Rightarrow> Inl (Batch_failed e)
             | Inr answer \<Rightarrow>
                 (case parse_results fmt answer parts of Inl e \<Rightarrow> Inl (Batch_answer_refused e) | Inr rs \<Rightarrow> Inr rs)))
            (call_with parse fmt t env s Post (ascii ''execute_batch'') yson_empty_map (Some body) r given))"

fun run_chunks ::
  "json_parser \<Rightarrow> formatters \<Rightarrow> transport \<Rightarrow> (nat \<Rightarrow> call_env) \<Rightarrow> nat \<Rightarrow> heavy_proxy \<Rightarrow> repeatable \<Rightarrow> int option \<Rightarrow>
     mutation_id option \<Rightarrow> nat \<Rightarrow> part_answer list \<Rightarrow> batch_part list list \<Rightarrow> batch_answer option" where
  "run_chunks parse fmt t envs n s r concurrency given whole results [] =
     Some \<lparr>ba_calls = [], ba_state = s, ba_result = Inr results\<rparr>"
| "run_chunks parse fmt t envs n s r concurrency given whole results (chunk # rest) =
     (case run_chunk parse fmt t (envs n) s r concurrency given chunk of
        None \<Rightarrow> None
      | Some (call, s', answered) \<Rightarrow>
          (case answered of
             Inr answers \<Rightarrow>
               map_option (ba_calls_update (Cons call))
                 (run_chunks parse fmt t envs (Suc n) s' r concurrency given whole (results @ answers) rest)
           | Inl cause \<Rightarrow>
               Some \<lparr>ba_calls = [call], ba_state = s',
                 ba_result = Inl (if results = [] then cause else Batch_interrupted results whole cause)\<rparr>))"

definition execute_batch_with ::
  "json_parser \<Rightarrow> formatters \<Rightarrow> transport \<Rightarrow> (nat \<Rightarrow> call_env) \<Rightarrow> heavy_proxy \<Rightarrow> batch_request \<Rightarrow> mutation_id option \<Rightarrow>
     batch_answer option" where
  "execute_batch_with parse fmt t envs s b given =
     (let refused = (\<lambda>e. Some \<lparr>ba_calls = [], ba_state = s, ba_result = Inl e\<rparr>)
      in if br_parts b = [] then refused Batch_empty
         else if given \<noteq> None \<and> length (br_parts b) > max_part_size b
         then refused (Batch_id_over_requests (length (br_parts b)) (max_part_size b))
         else run_chunks parse fmt t envs 0 s (batch_repeatable b) (br_concurrency b) given (length (br_parts b)) []
                (chunks (max_part_size b) (br_parts b)))"

definition execute_batch ::
  "json_parser \<Rightarrow> formatters \<Rightarrow> transport \<Rightarrow> (nat \<Rightarrow> call_env) \<Rightarrow> heavy_proxy \<Rightarrow> batch_request \<Rightarrow> batch_answer option" where
  "execute_batch parse fmt t envs s b = execute_batch_with parse fmt t envs s b None"


section \<open>Lemmas\<close>

text \<open>The batches a caller can build.\<close>

inductive batch_built :: "batch_request \<Rightarrow> bool" where
  built_new: "batch_built batch_new"
| built_concurrency: "batch_built b \<Longrightarrow> batch_built (with_concurrency n b)"
| built_max_part_size: "batch_built b \<Longrightarrow> batch_built (with_max_part_size n b)"
| built_create: "batch_built b \<Longrightarrow> batch_built (batch_create node_type path b)"
| built_create_table: "batch_built b \<Longrightarrow> batch_create_table path s b = Inr b' \<Longrightarrow> batch_built b'"
| built_exists: "batch_built b \<Longrightarrow> batch_built (batch_exists path b)"
| built_get: "batch_built b \<Longrightarrow> batch_built (batch_get path b)"
| built_list: "batch_built b \<Longrightarrow> batch_built (batch_list path b)"
| built_remove: "batch_built b \<Longrightarrow> batch_built (batch_remove path b)"
| built_remove_tree: "batch_built b \<Longrightarrow> batch_built (batch_remove_tree path b)"
| built_set: "batch_built b \<Longrightarrow> batch_built (batch_set_attribute path name v b)"
| built_raw: "batch_built b \<Longrightarrow> batch_raw_with command params input r b = Inr b' \<Longrightarrow> batch_built b'"

definition dict_part :: "batch_part \<Rightarrow> bool" where
  "dict_part part = (\<exists>m. node (bp_parameters part) = Map m)"

lemma dict_part_map [simp]: "dict_part \<lparr>bp_command = c, bp_parameters = yson_map es, bp_input = i, bp_kind = k, bp_output = keyed\<rparr>"
  by (simp add: dict_part_def yson_map_def)

lemma batch_built_ok:
  "batch_built b \<Longrightarrow> list_all dict_part (br_parts b) \<and> br_max_part_size b \<noteq> Some 0"
proof (induction rule: batch_built.induct)
  case (built_create_table b path s b')
  then show ?case by (auto simp: batch_create_table_def batch_push_def split: sum.splits)
next
  case (built_raw b command params input r b')
  then show ?case
    by (auto simp: batch_raw_with_def batch_push_def and_then_Inr refuse_non_dict_parameters_def dict_part_def
      split: if_splits yson_node.splits)
qed (simp_all add: batch_new_def with_concurrency_def with_max_part_size_def batch_create_def batch_exists_def
  batch_get_def batch_list_def batch_remove_def batch_remove_tree_def batch_set_attribute_def batch_push_def
  path_only_def remove_parameters_def)

lemma max_part_size_pos: "br_max_part_size b \<noteq> Some 0 \<Longrightarrow> 0 < max_part_size b"
  by (cases "br_max_part_size b") (simp_all add: max_part_size_def Let_def less_max_iff_disj)

lemma chunks_Nil [simp]: "chunks n [] = []"
  by (simp add: chunks.simps)

lemma chunks_concat: "0 < n \<Longrightarrow> concat (chunks n xs) = xs"
  by (induction n xs rule: chunks.induct) (subst chunks.simps, auto)

lemma chunks_ne: "0 < n \<Longrightarrow> c \<in> set (chunks n xs) \<Longrightarrow> c \<noteq> []"
proof (induction n xs rule: chunks.induct)
  case (1 n xs)
  then have "xs \<noteq> []" by (auto simp: chunks.simps)
  then show ?case using 1 by (auto simp: chunks.simps [of n xs])
qed

lemma concat_take_chunks: "0 < n \<Longrightarrow> concat (take m (chunks n xs)) = take (m * n) xs"
proof (induction m arbitrary: xs)
  case (Suc m)
  show ?case
  proof (cases "xs = []")
    case True
    then show ?thesis by (simp add: chunks.simps)
  next
    case False
    then have "chunks n xs = take n xs # chunks n (drop n xs)" using Suc.prems by (subst chunks.simps) simp
    then show ?thesis using Suc by (simp add: take_add)
  qed
qed simp

lemma length_chunks_gt: "0 < n \<Longrightarrow> m < length (chunks n xs) \<Longrightarrow> m * n < length xs"
proof (induction m arbitrary: xs)
  case (Suc m)
  then have "xs \<noteq> []" by (auto simp: chunks.simps)
  then have "chunks n xs = take n xs # chunks n (drop n xs)" using Suc.prems(1) by (subst chunks.simps) simp
  then have "m * n < length (drop n xs)" using Suc.prems by (intro Suc.IH) simp_all
  then show ?case by (simp add: less_diff_conv)
qed (auto simp: chunks.simps split: if_splits)

lemma render_part_total: "dict_part part \<Longrightarrow> \<exists>v. render_part transaction part = Some v"
  by (cases transaction; cases "bp_input part")
    (auto simp: render_part_def stamped_part_def dict_part_def yson_insert_def yson_map_def Let_def)

lemma render_parts_total: "list_all dict_part parts \<Longrightarrow> \<exists>vs. render_parts transaction parts = Some vs"
  by (induction parts) (auto dest: render_part_total [where transaction = transaction])

lemma render_chunk_total: "list_all dict_part parts \<Longrightarrow> \<exists>r. render_chunk fmt parts concurrency transaction = Some r"
  using render_parts_total [of parts transaction]
  by (cases concurrency) (auto simp: render_chunk_def chunk_value_def yson_insert_def yson_map_def Let_def)

lemma call_with_total:
  assumes "is_dict parameters"
  shows "\<exists>x. call_with parse fmt t env s verb command parameters payload r given = Some x"
proof -
  obtain p where p: "stamped t command parameters = Some p" "is_dict p" using stamped_dict [OF assms] by blast
  show ?thesis
  proof (cases "chosen_mutation_id r given (ce_draws env)")
    case None
    then show ?thesis using p by (simp add: call_with_def tagged_def)
  next
    case (Some m)
    then show ?thesis using p tagged_dict [OF p(2), of m True] tagged_dict [OF p(2), of m False]
      by (auto simp: call_with_def)
  qed
qed

lemma run_chunk_total:
  assumes "list_all dict_part parts"
  shows "\<exists>x. run_chunk parse fmt t env s r concurrency given parts = Some x"
proof -
  have "is_dict yson_empty_map" by (simp add: is_dict_def yson_empty_map_def btree_wf_def)
  from call_with_total [OF this] show ?thesis
    using render_chunk_total [OF assms, of fmt concurrency "tr_transaction t"]
    by (fastforce simp: run_chunk_def split: sum.split)
qed

lemma run_chunks_total:
  "list_all (list_all dict_part) cs \<Longrightarrow>
   \<exists>x. run_chunks parse fmt t envs n s r concurrency given whole results cs = Some x"
proof (induction cs arbitrary: n s results)
  case (Cons c cs)
  obtain x where x: "run_chunk parse fmt t (envs n) s r concurrency given c = Some x"
    using run_chunk_total Cons.prems by fastforce
  obtain requests s' answered where "x = (requests, s', answered)" by (cases x)
  then show ?case using x Cons by (cases answered) fastforce+
qed simp

text \<open>
  The results in an answer of the cluster. Answers are in order when the \<open>k\<close>-th is what the \<open>k\<close>-th
  result reads as under the rule of the \<open>k\<close>-th part, the results of the calls taken one after the
  other, and the parts chunk after chunk, with as many results in a call as parts in its chunk.
\<close>

definition results_of :: "bytes \<Rightarrow> yson_value list option" where
  "results_of body =
     (case from_slice body Text of
        Inr envelope \<Rightarrow>
          (case yson_field envelope (ascii ''results'') of
             Some results \<Rightarrow> (case node results of List items \<Rightarrow> Some items | _ \<Rightarrow> None)
           | None \<Rightarrow> None)
      | Inl _ \<Rightarrow> None)"

definition call_results :: "bytes outcome option \<Rightarrow> yson_value list option" where
  "call_results call = Option.bind call (\<lambda>oc. case oc_result oc of Inr body \<Rightarrow> results_of body | Inl _ \<Rightarrow> None)"

definition answers_in_order :: "formatters \<Rightarrow> bytes outcome option list \<Rightarrow> batch_part list list \<Rightarrow> part_answer list \<Rightarrow> bool" where
  "answers_in_order fmt calls cs rs =
     (\<exists>items. map call_results calls = map Some items \<and> map length items = map length cs \<and>
        length rs = length (concat cs) \<and>
        (\<forall>k < length rs. part_result fmt (concat items ! k) (concat cs ! k) = Inr (rs ! k)))"

text \<open>A failure is an error of that part's command, and a success has the key the typed commands are read by.\<close>

definition answer_fits :: "batch_part \<Rightarrow> part_answer \<Rightarrow> bool" where
  "answer_fits part r =
     (case r of
        Inl e \<Rightarrow> (case e of Cluster command _ _ _ \<Rightarrow> command = bp_command part | _ \<Rightarrow> False)
      | Inr v \<Rightarrow> (case bp_output part of Keyed key \<Rightarrow> yson_field v key \<noteq> None | Unchecked \<Rightarrow> True))"

lemma part_result_fits:
  assumes item: "part_result fmt item part = Inr r"
  shows "answer_fits part r"
proof -
  from item obtain entries where entries: "node item = Map entries" by (auto simp: part_result_def Let_def split: yson_node.splits)
  consider e where "r = Inl (part_error fmt (bp_command part) e)"
    | v where "r = Inr v" "\<forall>key. bp_output part = Keyed key \<longrightarrow> yson_field v key \<noteq> None"
    | "r = Inr yson_empty_map" "bp_output part = Unchecked"
    using item by (cases "map_of entries (ascii ''error'')"; cases "map_of entries (ascii ''output'')";
      cases "bp_output part") (auto simp: part_result_def entries Let_def split: if_splits)
  then show ?thesis
    by cases (auto simp: answer_fits_def part_error_def Let_def split: part_output.split)
qed

lemma answers_in_order_fit: "answers_in_order fmt calls cs rs \<Longrightarrow> list_all2 answer_fits (concat cs) rs"
  by (auto simp: answers_in_order_def list_all2_conv_all_nth intro: part_result_fits)

lemma answers_in_order_Nil [simp]: "answers_in_order fmt [] [] []"
  by (auto simp: answers_in_order_def)

lemma answers_in_order_append:
  assumes "answers_in_order fmt calls cs rs" "answers_in_order fmt calls' cs' rs'"
  shows "answers_in_order fmt (calls @ calls') (cs @ cs') (rs @ rs')"
proof -
  from assms(1) obtain items where a: "map call_results calls = map Some items" "map length items = map length cs"
      "length rs = length (concat cs)" "\<forall>k < length rs. part_result fmt (concat items ! k) (concat cs ! k) = Inr (rs ! k)"
    by (auto simp: answers_in_order_def)
  from assms(2) obtain items' where b: "map call_results calls' = map Some items'" "map length items' = map length cs'"
      "length rs' = length (concat cs')" "\<forall>k < length rs'. part_result fmt (concat items' ! k) (concat cs' ! k) = Inr (rs' ! k)"
    by (auto simp: answers_in_order_def)
  have len: "length (concat items) = length (concat cs)" using a(2) by (simp add: length_concat)
  have "part_result fmt (concat (items @ items') ! k) (concat (cs @ cs') ! k) = Inr ((rs @ rs') ! k)" if "k < length (rs @ rs')" for k
    using that a(3,4) b(3,4) len by (auto simp: nth_append)
  then show ?thesis using a b unfolding answers_in_order_def by (intro exI [of _ "items @ items'"]) auto
qed

lemma parse_results_in_order:
  assumes "parse_results fmt body parts = Inr rs" "oc_result oc = Inr body"
  shows "answers_in_order fmt [Some oc] [parts] rs"
proof -
  obtain items where items: "results_of body = Some items" "length items = length parts"
      "collect (\<lambda>(item, part). part_result fmt item part) (zip items parts) = Inr rs"
    using assms(1) by (auto simp: parse_results_def results_of_def yson_field_def split: sum.splits yson_node.splits option.splits if_splits)
  from collect_Inr [OF items(3)] have "length rs = length parts" "\<forall>k < length rs. part_result fmt (items ! k) (parts ! k) = Inr (rs ! k)"
    using items(2) by (auto simp: list_all2_conv_all_nth)
  then show ?thesis using items(1,2) assms(2) unfolding answers_in_order_def
    by (intro exI [of _ "[items]"]) (simp add: call_results_def)
qed

fun request_failure :: "batch_error \<Rightarrow> bool" where
  "request_failure (Batch_not_encoded _) = True"
| "request_failure (Batch_failed _) = True"
| "request_failure (Batch_answer_refused _) = True"
| "request_failure _ = False"

lemma run_chunk_answers:
  "run_chunk parse fmt t env s r concurrency given parts = Some (call, s', answered) \<Longrightarrow>
   (case answered of
      Inr rs \<Rightarrow> answers_in_order fmt [call] [parts] rs
    | Inl cause \<Rightarrow> request_failure cause)"
proof (cases "render_chunk fmt parts concurrency (tr_transaction t)")
  case (Some rendered)
  assume run: "run_chunk parse fmt t env s r concurrency given parts = Some (call, s', answered)"
  show ?thesis
  proof (cases rendered)
    case (Inr body)
    then obtain oc where oc: "call = Some oc" "answered = (case oc_result oc of
               Inl e \<Rightarrow> Inl (Batch_failed e)
             | Inr answer \<Rightarrow> (case parse_results fmt answer parts of Inl e \<Rightarrow> Inl (Batch_answer_refused e) | Inr rs \<Rightarrow> Inr rs))"
      using run Some by (auto simp: run_chunk_def)
    show ?thesis
    proof (cases "oc_result oc")
      case (Inr answer)
      then show ?thesis using oc parse_results_in_order [of fmt answer parts _ oc]
        by (cases "parse_results fmt answer parts") auto
    qed (simp add: oc)
  qed (use run Some in \<open>auto simp: run_chunk_def\<close>)
qed (simp add: run_chunk_def)

text \<open>After \<open>m\<close> requests that were answered: all of them, or the next one was not.\<close>

lemma run_chunks_answers:
  assumes "run_chunks parse fmt t envs n s r concurrency given whole results cs = Some x"
  obtains answers where "ba_result x = Inr (results @ answers)" "answers_in_order fmt (ba_calls x) cs answers"
      "length (ba_calls x) = length cs"
  | m answers cause where "m < length cs" "answers_in_order fmt (take m (ba_calls x)) (take m cs) answers"
      "length (ba_calls x) = Suc m" "request_failure cause"
      "ba_result x = Inl (if results @ answers = [] then cause else Batch_interrupted (results @ answers) whole cause)"
  using assms
proof (induction cs arbitrary: n s results x thesis)
  case (Cons c cs)
  obtain call s' answered where one: "run_chunk parse fmt t (envs n) s r concurrency given c = Some (call, s', answered)"
    using Cons.prems(3) by (auto split: option.splits)
  show ?case
  proof (cases answered)
    case (Inl cause)
    then have "ba_calls x = [call]" "ba_result x = Inl (if results = [] then cause else Batch_interrupted results whole cause)"
      using Cons.prems(3) one by auto
    moreover have "request_failure cause" using run_chunk_answers [OF one] Inl by simp
    ultimately show ?thesis using Cons.prems(2) [of 0 "[]" cause] by simp
  next
    case (Inr answers)
    then obtain y where y: "run_chunks parse fmt t envs (Suc n) s' r concurrency given whole (results @ answers) cs = Some y"
        and x: "x = ba_calls_update (Cons call) y"
      using Cons.prems(3) one by auto
    have a: "answers_in_order fmt [call] [c] answers" using run_chunk_answers [OF one] Inr by simp
    note more = answers_in_order_append [OF a, simplified]
    show ?thesis
    proof (rule Cons.IH [OF _ _ y])
      fix rest assume "ba_result y = Inr ((results @ answers) @ rest)" "answers_in_order fmt (ba_calls y) cs rest"
        "length (ba_calls y) = length cs"
      then show thesis using Cons.prems(1) [of "answers @ rest"] more by (simp add: x)
    next
      fix m rest cause assume "m < length cs" "answers_in_order fmt (take m (ba_calls y)) (take m cs) rest"
        "length (ba_calls y) = Suc m" "request_failure cause"
        "ba_result y = Inl (if (results @ answers) @ rest = [] then cause else Batch_interrupted ((results @ answers) @ rest) whole cause)"
      then show thesis using Cons.prems(2) [of "Suc m" "answers @ rest" cause] more by (simp add: x)
    qed
  qed
next
  case Nil
  then show ?case using Nil(1) [of "[]"] Nil(3) by auto
qed

lemma execute_batch_runs:
  assumes "batch_built b"
  obtains "br_parts b = []"
      "execute_batch_with parse fmt t envs s b given = Some \<lparr>ba_calls = [], ba_state = s, ba_result = Inl Batch_empty\<rparr>"
  | "given \<noteq> None" "max_part_size b < length (br_parts b)"
      "execute_batch_with parse fmt t envs s b given =
        Some \<lparr>ba_calls = [], ba_state = s, ba_result = Inl (Batch_id_over_requests (length (br_parts b)) (max_part_size b))\<rparr>"
  | x where "br_parts b \<noteq> []" "given = None \<or> length (br_parts b) \<le> max_part_size b"
      "execute_batch_with parse fmt t envs s b given = Some x"
      "run_chunks parse fmt t envs 0 s (batch_repeatable b) (br_concurrency b) given (length (br_parts b)) []
        (chunks (max_part_size b) (br_parts b)) = Some x"
proof -
  have pos: "0 < max_part_size b" using max_part_size_pos batch_built_ok [OF assms] by blast
  have "concat (chunks (max_part_size b) (br_parts b)) = br_parts b" by (rule chunks_concat [OF pos])
  then have "list_all (list_all dict_part) (chunks (max_part_size b) (br_parts b))"
    using batch_built_ok [OF assms] by (metis (no_types, lifting) list_all_iff set_concat UN_I)
  then show thesis
    using that run_chunks_total [of "chunks (max_part_size b) (br_parts b)" parse fmt t envs 0 s "batch_repeatable b"
      "br_concurrency b" given "length (br_parts b)" "[]"]
    by (cases "br_parts b = []"; cases "given \<noteq> None \<and> max_part_size b < length (br_parts b)")
      (auto simp: execute_batch_with_def)
qed

section \<open>Properties\<close>

text \<open>C13: a batch never gives a caller the answer of another part. Whatever the cluster answers, a batch
  that was built ends without a panic. A success has one answer per part: the \<open>k\<close>-th is what the
  \<open>k\<close>-th of the results the requests were answered with reads as under the rule of the \<open>k\<close>-th part,
  so no typed answer lacks the key it is read by and an error is one of that part's command. An
  interrupted batch reports in the same way the answers of all and only the requests before the one
  that failed, and cannot happen under an id of the caller; an id that cannot cover the batch, and
  an empty batch, send nothing.\<close>

theorem batch_answers_paired:
  assumes "batch_built b"
  shows "\<exists>x. execute_batch_with parse fmt t envs s b given = Some x \<and>
    (case ba_result x of
       Inr rs \<Rightarrow> br_parts b \<noteq> [] \<and> list_all2 answer_fits (br_parts b) rs \<and>
         answers_in_order fmt (ba_calls x) (chunks (max_part_size b) (br_parts b)) rs
     | Inl (Batch_interrupted a n cause) \<Rightarrow>
         n = length (br_parts b) \<and> given = None \<and> 0 < length a \<and> length a < n \<and>
         length a = (length (ba_calls x) - 1) * max_part_size b \<and> list_all2 answer_fits (take (length a) (br_parts b)) a \<and>
         answers_in_order fmt (butlast (ba_calls x)) (take (length (ba_calls x) - 1) (chunks (max_part_size b) (br_parts b))) a
     | Inl Batch_empty \<Rightarrow> br_parts b = [] \<and> ba_calls x = []
     | Inl (Batch_id_over_requests n m) \<Rightarrow> given \<noteq> None \<and> m < n \<and> ba_calls x = []
     | Inl _ \<Rightarrow> length (ba_calls x) = 1) \<and>
    concat (chunks (max_part_size b) (br_parts b)) = br_parts b"
proof -
  have pos: "0 < max_part_size b" using max_part_size_pos batch_built_ok [OF assms] by blast
  note all = chunks_concat [OF pos, of "br_parts b"]
  from assms show ?thesis
  proof (cases rule: execute_batch_runs [where parse = parse and fmt = fmt and t = t and envs = envs and s = s and given = given])
    case (3 x)
    from 3(4) show ?thesis
    proof (cases rule: run_chunks_answers)
      case (1 answers)
      then show ?thesis using 3(1,3) all answers_in_order_fit [OF 1(2)] by simp
    next
      case (2 m answers cause)
      let ?n = "length (br_parts b)"
      have less: "m * max_part_size b < ?n" using length_chunks_gt [OF pos 2(1)] .
      have fit: "list_all2 answer_fits (take (m * max_part_size b) (br_parts b)) answers"
        using answers_in_order_fit [OF 2(2)] by (simp add: concat_take_chunks [OF pos])
      then have len: "length answers = m * max_part_size b" using less list_all2_lengthD by fastforce
      have butlast: "take m (ba_calls x) = butlast (ba_calls x)" using 2(3) by (simp add: butlast_conv_take)
      show ?thesis
      proof (cases "m = 0")
        case True
        then show ?thesis using 3(3) 2(3-5) len all by (cases cause) auto
      next
        case False
        then have "max_part_size b \<le> m * max_part_size b" by simp
        then have "given = None" using 3(2) less by linarith
        then show ?thesis using 3(3) 2 len False pos less fit all butlast by auto
      qed
    qed
  qed (simp_all add: all)
qed

text \<open>A batch of two parts, and a cluster that answers it.\<close>

definition two_parts :: batch_request where
  "two_parts = batch_exists (ascii ''//b'') (batch_exists (ascii ''//a'') batch_new)"

definition two_answers :: bytes where
  "two_answers = ascii ''{results=[{output={value=%true}};{output={value=%false}}]}''"

definition answering_env :: call_env where
  "answering_env = busy_env\<lparr>ce_net := \<lambda>_ _ _. Inr ((sample_response 200 None)\<lparr>rs_body := [Data two_answers]\<rparr>)\<rparr>"

definition roomy_transport :: transport where
  "roomy_transport = patient_transport\<lparr>tr_response_limit := 99\<rparr>"

lemma roomy_simps:
  "tr_retries roomy_transport = policy_default" "tr_transaction roomy_transport = None"
  "tr_base roomy_transport = ascii ''https://h.net''" "tr_response_limit roomy_transport = 99"
  "unusable roomy_transport (ascii ''https://h.net'') = None" "tls_unavailable roomy_transport = (\<lambda>_. None)"
  "deadline_for roomy_transport False 0 = Some 9"
  by (simp_all add: roomy_transport_def patient_transport_def sample_transport_def render_caller_headers_def unusable_def
      tls_unavailable_def deadline_for_def instant_add_def INSTANT_MAX_def fun_eq_iff)

lemma answering_call:
  "\<exists>oc. call_with (\<lambda>_. None) no_formatters roomy_transport answering_env Unasked Post (ascii ''execute_batch'') yson_empty_map
     (Some body) Freely None = Some oc \<and> oc_result oc = Inr two_answers"
proof -
  have "length two_answers \<le> 99" "two_answers \<noteq> []" by code_simp+
  then have read: "read_capped bufs command [Data two_answers] 99 = Inr two_answers" for bufs command
    by (simp add: read_capped_exact)
  have encodes: "to_string no_formatters (value_serde yson_empty_map) Text = Inr (ascii ''{}'')" by code_simp
  show ?thesis
    by (simp add: call_with_def chosen_mutation_id_def stamped_def in_transaction_def tagged_def roomy_simps run_call_def
        base_for_def retry_run_def run_from.simps split_beta Let_def after_heavy_def send_def dispatch_def encodes request_loop.simps
        Client_Transport.remaining_def redirect_def answering_env_def busy_env_def sample_response_def is_success_def read)
qed

theorem batch_answers_paired_witness:
  "\<exists>x. execute_batch_with (\<lambda>_. None) no_formatters roomy_transport (\<lambda>_. answering_env) Unasked two_parts None = Some x \<and>
     ba_result x = Inr [Inr (yson_map [(ascii ''value'', yson_boolean True)]), Inr (yson_map [(ascii ''value'', yson_boolean False)])] \<and>
     answers_in_order no_formatters (ba_calls x) [br_parts two_parts]
       [Inr (yson_map [(ascii ''value'', yson_boolean True)]), Inr (yson_map [(ascii ''value'', yson_boolean False)])]"
proof -
  have built: "batch_built two_parts" unfolding two_parts_def by (intro built_exists built_new)
  have "max_part_size two_parts = 250" "length (br_parts two_parts) = 2"
    by (simp_all add: max_part_size_def two_parts_def batch_exists_def batch_push_def batch_new_def DEFAULT_CONCURRENCY_def
        PARTS_PER_CONCURRENCY_def USIZE_MAX_def)
  then have one: "chunks (max_part_size two_parts) (br_parts two_parts) = [br_parts two_parts]"
    by (subst chunks.simps) auto
  have kind: "batch_repeatable two_parts = Freely" "br_parts two_parts \<noteq> []" by code_simp+
  have "\<not> isl (the (render_chunk no_formatters (br_parts two_parts) (br_concurrency two_parts) None))"
    "render_chunk no_formatters (br_parts two_parts) (br_concurrency two_parts) None \<noteq> None"
    by code_simp+
  then obtain body where body: "render_chunk no_formatters (br_parts two_parts) (br_concurrency two_parts) None = Some (Inr body)"
    by (cases "render_chunk no_formatters (br_parts two_parts) (br_concurrency two_parts) None";
      cases "the (render_chunk no_formatters (br_parts two_parts) (br_concurrency two_parts) None)") simp_all
  have parsed: "parse_results no_formatters two_answers (br_parts two_parts) =
      Inr [Inr (yson_map [(ascii ''value'', yson_boolean True)]), Inr (yson_map [(ascii ''value'', yson_boolean False)])]"
    by code_simp
  obtain oc where oc: "call_with (\<lambda>_. None) no_formatters roomy_transport answering_env Unasked Post (ascii ''execute_batch'')
      yson_empty_map (Some body) Freely None = Some oc" "oc_result oc = Inr two_answers"
    using answering_call by blast
  have "map_option ba_result (execute_batch_with (\<lambda>_. None) no_formatters roomy_transport (\<lambda>_. answering_env) Unasked two_parts None) =
      Some (Inr [Inr (yson_map [(ascii ''value'', yson_boolean True)]), Inr (yson_map [(ascii ''value'', yson_boolean False)])])"
    by (simp add: execute_batch_with_def one kind run_chunk_def body roomy_simps oc parsed)
  with batch_answers_paired [OF built, of "\<lambda>_. None" no_formatters roomy_transport "\<lambda>_. answering_env" Unasked None]
  show ?thesis
  proof (elim exE conjE, goal_cases)
    case (1 x)
    then show ?case by (intro exI [of _ x] conjI) (simp_all only: option.map option.inject sum.case one)
  qed
qed

text \<open>How often a batch may be sent: as its most cautious part. A batch with a raw part sends each of its
  requests once, whatever the policy; and no batch sends one more often than the policy says.\<close>

lemma call_with_attempts:
  assumes "policy_wf (tr_retries t)" "call_with parse fmt t env s verb command parameters payload r given = Some x"
  shows "length (oc_requests x) \<le> allowed_attempts (tr_retries t) r"
proof -
  obtain params where "run_call parse t r env s params
      (\<lambda>base n q. send parse fmt (ce_bufs env) t (ce_net env n) (ce_clock env n) base verb command q payload) = x"
    using assms(2) by (auto simp: call_with_def Let_def split: option.splits)
  from run_call_attempts [OF assms(1) this] show ?thesis by simp
qed

definition call_requests :: "bytes outcome option \<Rightarrow> http_request list list" where
  "call_requests call = (case call of None \<Rightarrow> [] | Some oc \<Rightarrow> oc_requests oc)"

lemma run_chunks_attempts:
  assumes "policy_wf (tr_retries t)"
  shows "run_chunks parse fmt t envs n s r concurrency given whole results cs = Some x \<Longrightarrow>
    list_all (\<lambda>call. length (call_requests call) \<le> allowed_attempts (tr_retries t) r) (ba_calls x)"
proof (induction cs arbitrary: n s results x)
  case (Cons c cs)
  obtain call s' answered where one: "run_chunk parse fmt t (envs n) s r concurrency given c = Some (call, s', answered)"
    using Cons.prems by (auto split: option.splits)
  then have "length (call_requests call) \<le> allowed_attempts (tr_retries t) r"
    by (cases "render_chunk fmt c concurrency (tr_transaction t)"; cases "the (render_chunk fmt c concurrency (tr_transaction t))")
      (auto simp: run_chunk_def call_requests_def dest: call_with_attempts [OF assms])
  then show ?case using Cons one by (cases answered) auto
qed auto

theorem batch_as_cautious_as_its_parts:
  assumes "policy_wf (tr_retries t)" "execute_batch_with parse fmt t envs s b given = Some x"
  shows "list_all (\<lambda>call. length (call_requests call) \<le>
    (if list_ex (\<lambda>part. bp_kind part = Part_raw) (br_parts b) then 1 else rp_attempts (tr_retries t))) (ba_calls x)"
proof -
  have "allowed_attempts (tr_retries t) (batch_repeatable b) =
      (if list_ex (\<lambda>part. bp_kind part = Part_raw) (br_parts b) then 1 else rp_attempts (tr_retries t))"
    by (simp add: allowed_attempts_def batch_repeatable_def)
  then show ?thesis
    using assms(2) by (auto simp: execute_batch_with_def Let_def dest!: run_chunks_attempts [OF assms(1)] split: if_splits)
qed

lemma yson_field_entry: "yson_field = yson_entry"
  by (simp add: fun_eq_iff yson_field_def yson_entry_def)

lemma yson_inserted: "is_dict v \<Longrightarrow> yson_insert v key x = Some w \<Longrightarrow> yson_field w = (yson_field v)(key \<mapsto> x)"
  using yson_insert_dict [of v key x] by (auto simp: yson_field_entry)

lemma yson_map_dict: "is_dict (yson_map es)" "yson_field (yson_map es) = map_of (rev es)"
  by (simp_all add: is_dict_def yson_map_def btree_wf_extend yson_field_def map_of_btree_extend fun_eq_iff)

lemma render_part_fields:
  assumes "is_dict (bp_parameters part)" "render_part transaction part = Some request"
  shows "yson_field request (ascii ''command'') = Some (yson_str (bp_command part)) \<and>
      yson_field request (ascii ''input'') = bp_input part \<and>
      (\<exists>ps. yson_field request (ascii ''parameters'') = Some ps \<and>
        yson_field ps = (case transaction of
          Some i \<Rightarrow> if takes_no_transaction (bp_command part) \<or> yson_field (bp_parameters part) TRANSACTION_ID \<noteq> None
                    then yson_field (bp_parameters part)
                    else (yson_field (bp_parameters part))(TRANSACTION_ID \<mapsto> yson_str i)
        | None \<Rightarrow> yson_field (bp_parameters part)))"
proof -
  obtain ps where ps: "stamped_part transaction part = Some ps"
    using assms(2) by (auto simp: render_part_def bind_eq_Some_conv)
  have names: "names_transaction (bp_parameters part) \<longleftrightarrow> yson_field (bp_parameters part) TRANSACTION_ID \<noteq> None"
    by (auto simp: names_transaction_def yson_field_def split: yson_node.splits)
  have fields: "yson_field ps = (case transaction of
          Some i \<Rightarrow> if takes_no_transaction (bp_command part) \<or> yson_field (bp_parameters part) TRANSACTION_ID \<noteq> None
                    then yson_field (bp_parameters part)
                    else (yson_field (bp_parameters part))(TRANSACTION_ID \<mapsto> yson_str i)
        | None \<Rightarrow> yson_field (bp_parameters part))"
    using ps by (auto simp: stamped_part_def names dest: yson_inserted [OF assms(1)] split: option.splits if_splits)
  let ?request = "yson_map [(ascii ''command'', yson_str (bp_command part)), (ascii ''parameters'', ps)]"
  have keys: "ascii ''command'' \<noteq> ascii ''parameters''" "ascii ''input'' \<noteq> ascii ''parameters''" "ascii ''input'' \<noteq> ascii ''command''"
    by code_simp+
  have "yson_field request = (case bp_input part of Some i \<Rightarrow> (yson_field ?request)(ascii ''input'' \<mapsto> i) | None \<Rightarrow> yson_field ?request)"
    using assms(2) by (cases "bp_input part") (auto simp: render_part_def ps dest: yson_inserted [OF yson_map_dict(1)])
  then show ?thesis using keys fields by (cases "bp_input part") (simp_all add: yson_map_dict(2))
qed

lemma render_parts_fields:
  "render_parts transaction parts = Some requests \<Longrightarrow> list_all2 (\<lambda>part request. render_part transaction part = Some request) parts requests"
  by (induction parts arbitrary: requests) (auto simp: bind_eq_Some_conv)

text \<open>C14: what the cluster reads from the body of a request is the parts that were asked for, in order, each
  with its command, its input and its parameters; a bound transaction is stamped on each part that
  has one to be in and does not name its own, and never on the envelope, where the cluster drops it.\<close>

theorem batch_body_roundtrip:
  assumes "list_all (\<lambda>part. is_dict (bp_parameters part)) parts" "ascii_formatters fmt"
    and "chunk_value parts concurrency transaction = Some v" "value_ok (text_ok fmt) v" "need_value v \<le> 128"
  shows "\<exists>body requests. render_chunk fmt parts concurrency transaction = Some (Inr body) \<and> from_slice body Text = Inr v \<and>
    yson_field v (ascii ''requests'') = Some (yson_list requests) \<and>
    yson_field v (ascii ''concurrency'') = map_option (\<lambda>c. yson_int (word_of_int c)) concurrency \<and>
    yson_field v TRANSACTION_ID = None \<and> in_transaction t (ascii ''execute_batch'') yson_empty_map = None \<and>
    list_all2 (\<lambda>part request.
      yson_field request (ascii ''command'') = Some (yson_str (bp_command part)) \<and>
      yson_field request (ascii ''input'') = bp_input part \<and>
      (\<exists>ps. yson_field request (ascii ''parameters'') = Some ps \<and>
        yson_field ps = (case transaction of
          Some i \<Rightarrow> if takes_no_transaction (bp_command part) \<or> yson_field (bp_parameters part) TRANSACTION_ID \<noteq> None
                    then yson_field (bp_parameters part)
                    else (yson_field (bp_parameters part))(TRANSACTION_ID \<mapsto> yson_str i)
        | None \<Rightarrow> yson_field (bp_parameters part)))) parts requests"
proof -
  obtain requests where requests: "render_parts transaction parts = Some requests"
    using assms(3) by (auto simp: chunk_value_def bind_eq_Some_conv)
  let ?envelope = "yson_map [(ascii ''requests'', yson_list requests)]"
  have keys: "ascii ''requests'' \<noteq> ascii ''concurrency''" "TRANSACTION_ID \<noteq> ascii ''requests''" "TRANSACTION_ID \<noteq> ascii ''concurrency''"
    by code_simp+
  have "yson_field v = (case concurrency of Some c \<Rightarrow> (yson_field ?envelope)(ascii ''concurrency'' \<mapsto> yson_int (word_of_int c))
      | None \<Rightarrow> yson_field ?envelope)"
    using assms(3) by (cases concurrency) (auto simp: chunk_value_def requests dest: yson_inserted [OF yson_map_dict(1)])
  then have fields: "yson_field v (ascii ''requests'') = Some (yson_list requests)"
      "yson_field v (ascii ''concurrency'') = map_option (\<lambda>c. yson_int (word_of_int c)) concurrency" "yson_field v TRANSACTION_ID = None"
    using keys by (cases concurrency; simp add: yson_map_dict(2))+
  let ?body = "enc_value (scalar_bytes fmt False) v"
  have body: "render_chunk fmt parts concurrency transaction = Some (Inr ?body)"
    by (simp add: render_chunk_def assms(3) to_string_total [OF assms(2)])
  have "from_slice ?body Text = Inr v"
    using text_fmt.read_back [OF assms(4)] assms(5) by (intro from_slice_end) (simp add: DE_MAX_DEPTH_def)
  moreover have "in_transaction t (ascii ''execute_batch'') yson_empty_map = None"
    by (simp add: in_transaction_def takes_no_transaction_def NO_TRANSACTION_def split: option.split)
  moreover have "list_all2 (\<lambda>part request. is_dict (bp_parameters part) \<and> render_part transaction part = Some request) parts requests"
    using render_parts_fields [OF requests] assms(1) by (auto simp: list_all2_conv_all_nth list_all_length)
  ultimately show ?thesis
    using body fields by (intro exI conjI; assumption?) (auto elim!: list_all2_mono dest: render_part_fields)
qed

theorem batch_body_roundtrip_witness:
  "\<exists>body v request ps. render_chunk no_formatters (br_parts (batch_exists (ascii ''//t'') batch_new)) None (Some (ascii ''1-2'')) =
      Some (Inr body) \<and> from_slice body Text = Inr v \<and>
    yson_field v (ascii ''requests'') = Some (yson_list [request]) \<and>
    yson_field request (ascii ''command'') = Some (yson_str (ascii ''exists'')) \<and>
    yson_field request (ascii ''parameters'') = Some ps \<and> yson_field ps TRANSACTION_ID = Some (yson_str (ascii ''1-2''))"
proof -
  let ?parts = "br_parts (batch_exists (ascii ''//t'') batch_new)"
  have parts: "list_all (\<lambda>part. is_dict (bp_parameters part)) ?parts"
    by (simp add: batch_exists_def batch_push_def batch_new_def path_only_def yson_map_dict)
  have fmt: "ascii_formatters no_formatters" by (simp add: ascii_formatters_def no_formatters_def)
  have "map_option (\<lambda>v. value_ok (text_ok no_formatters) v \<and> need_value v \<le> 128) (chunk_value ?parts None (Some (ascii ''1-2''))) = Some True"
    by code_simp
  then obtain v where v: "chunk_value ?parts None (Some (ascii ''1-2'')) = Some v"
      "value_ok (text_ok no_formatters) v" "need_value v \<le> 128" by auto
  have one: "?parts = [\<lparr>bp_command = ascii ''exists'', bp_parameters = path_only (ascii ''//t''), bp_input = None,
      bp_kind = Part_read, bp_output = Keyed (ascii ''value'')\<rparr>]"
    by (simp add: batch_exists_def batch_push_def batch_new_def)
  have stamp: "\<not> takes_no_transaction (ascii ''exists'')" "yson_field (path_only (ascii ''//t'')) TRANSACTION_ID = None"
    by code_simp+
  from batch_body_roundtrip [OF parts fmt v, of sample_transport] show ?thesis
    unfolding one list_all2_Cons1 using stamp by fastforce
qed

end
