(* ===== verification/Client_Worker.thy ===== *)
theory Client_Worker
  imports Client_Url
begin

text \<open>
  \<open>crates/ytsaurus-client/src/worker.rs\<close>: whether a binary can run on a node, read off its ELF header.
\<close>

datatype worker_refusal = Not_elf | Not_64_bit_little_endian | Wrong_machine "16 word" | Names_interpreter

definition HEADER_LEN :: nat where "HEADER_LEN = 64"
definition ELF_MAGIC :: bytes where "ELF_MAGIC = [0x7F, 0x45, 0x4C, 0x46]"
definition MACHINE_X86_64 :: "16 word" where "MACHINE_X86_64 = 0x3E"
definition PT_INTERP :: "32 word" where "PT_INTERP = 3"

text \<open>\<open>usize\<close> arithmetic that answers \<open>None\<close> when it overflows.\<close>

definition checked_usize :: "nat \<Rightarrow> nat option" where
  "checked_usize n = (if n < 2 ^ 64 then Some n else None)"

definition segment_is :: "bytes \<Rightarrow> nat \<Rightarrow> nat \<Rightarrow> 32 word \<Rightarrow> nat \<Rightarrow> bool" where
  "segment_is data offset entry_size segment_type i =
     (case Option.bind (checked_usize (i * entry_size)) (\<lambda>at. checked_usize (offset + at)) of
        None \<Rightarrow> False
      | Some start \<Rightarrow>
          (case checked_usize (start + 4) of
             None \<Rightarrow> False
           | Some stop \<Rightarrow>
               (case slice_get data start stop of
                  Some four \<Rightarrow> from_le four = segment_type
                | None \<Rightarrow> False)))"

definition half_at :: "bytes \<Rightarrow> nat \<Rightarrow> 16 word" where
  "half_at data i = from_le [data ! i, data ! (i + 1)]"

definition has_segment :: "bytes \<Rightarrow> 32 word \<Rightarrow> bool" where
  "has_segment data segment_type =
     (let offset = unat (from_le (take 8 (drop 0x20 data)) :: 64 word);
          entry_size = unat (half_at data 0x36);
          count = unat (half_at data 0x38)
      in \<not> entry_size < 4 \<and> list_ex (segment_is data offset entry_size segment_type) [0..<count])"

definition check_worker_binary :: "bytes \<Rightarrow> worker_refusal + unit" where
  "check_worker_binary data =
     (if length data < HEADER_LEN \<or> take 4 data \<noteq> ELF_MAGIC then Inl Not_elf
      else if data ! 4 \<noteq> 2 \<or> data ! 5 \<noteq> 1 then Inl Not_64_bit_little_endian
      else if half_at data 18 \<noteq> MACHINE_X86_64 then Inl (Wrong_machine (half_at data 18))
      else if has_segment data PT_INTERP then Inl Names_interpreter
      else Inr ())"

text \<open>The guards against overflow never hide an entry of the table that is in the file.\<close>

lemma segment_is_iff:
  assumes "length data < 2 ^ 64"
  shows "segment_is data offset entry_size segment_type i \<longleftrightarrow>
    offset + i * entry_size + 4 \<le> length data \<and> from_le (take 4 (drop (offset + i * entry_size) data)) = segment_type"
  using assms by (auto simp: segment_is_def checked_usize_def slice_get_def bind_eq_Some_conv split: option.splits)

text \<open>A binary is let through exactly when it is a 64-bit little-endian ELF file for x86-64 and no entry of
  its program header table that lies in the file names an interpreter; however the header lies about
  where the table is, reading it does not fail.\<close>

theorem check_worker_binary_exact:
  assumes "length data < 2 ^ 64"
  shows "check_worker_binary data = Inr () \<longleftrightarrow>
    64 \<le> length data \<and> take 4 data = [0x7F, 0x45, 0x4C, 0x46] \<and> data ! 4 = 2 \<and> data ! 5 = 1 \<and> half_at data 18 = 0x3E \<and>
    (let offset = unat (from_le (take 8 (drop 32 data)) :: 64 word);
         size = unat (half_at data 54);
         start = (\<lambda>i. offset + i * size)
     in \<not> (\<exists>i < unat (half_at data 56). 4 \<le> size \<and> start i + 4 \<le> length data \<and>
          from_le (take 4 (drop (start i) data)) = (3 :: 32 word)))"
  unfolding check_worker_binary_def has_segment_def Let_def list_ex_iff segment_is_iff [OF assms]
  by (auto simp: HEADER_LEN_def ELF_MAGIC_def MACHINE_X86_64_def PT_INTERP_def)

end
