(* ===== verification/Client_Session.thy ===== *)
theory Client_Session
  imports Client_Batch Client_Worker
begin

text \<open>
  \<open>crates/ytsaurus-client/src/lib.rs\<close>: the client, its builders and the environment it is made from, and
  a session: the commands one thread of a program sends, one after another. What a command reads
  from outside is given by its number in the session. A session keeps the routing the clones of a
  client share and a record of what was sent. \<open>None\<close> is a panic, or a loop that does not end.
\<close>

section \<open>The client\<close>

record client =
  cl_transport :: transport
  cl_poll_interval :: nat
  cl_job_diagnostics :: bool
  cl_file_cache :: bytes

definition DEFAULT_TIMEOUT :: nat where "DEFAULT_TIMEOUT = 120000000000"
definition DEFAULT_POLL_INTERVAL :: nat where "DEFAULT_POLL_INTERVAL = 2000000000"
definition DEFAULT_FILE_CACHE :: bytes where "DEFAULT_FILE_CACHE = ascii ''//tmp/yt_wrapper/file_storage/new_cache''"

text \<open>What the process decides: the build's TLS, whether it is a job, the TLS configuration.\<close>

record process =
  pr_tls :: bool
  pr_in_job :: bool
  pr_tls_refused :: "bytes option"

definition client_on :: "process \<Rightarrow> bytes \<Rightarrow> bytes option \<Rightarrow> client \<times> heavy_proxy" where
  "client_on pr proxy token =
     (let (t, s) = transport_new (pr_tls pr) (pr_in_job pr) (pr_tls_refused pr) proxy token DEFAULT_TIMEOUT
      in (\<lparr>cl_transport = t, cl_poll_interval = DEFAULT_POLL_INTERVAL, cl_job_diagnostics = True,
           cl_file_cache = DEFAULT_FILE_CACHE\<rparr>, s))"

definition client_new :: "process \<Rightarrow> bytes \<Rightarrow> client \<times> heavy_proxy" where
  "client_new pr proxy = client_on pr proxy None"

definition client_with_token :: "process \<Rightarrow> bytes \<Rightarrow> bytes \<Rightarrow> client \<times> heavy_proxy" where
  "client_with_token pr proxy token = client_on pr proxy (Some token)"

definition with_poll_interval :: "nat \<Rightarrow> client \<Rightarrow> client" where
  "with_poll_interval interval c = c\<lparr>cl_poll_interval := interval\<rparr>"

text \<open>Setting the timeout reads the TLS configuration of the process anew.\<close>

definition with_timeout :: "process \<Rightarrow> nat \<Rightarrow> client \<Rightarrow> client" where
  "with_timeout pr timeout c =
     c\<lparr>cl_transport := (cl_transport c)\<lparr>tr_timeout := timeout, tr_tls_refused := pr_tls_refused pr\<rparr>\<rparr>"

definition with_hosts_timeout :: "nat \<Rightarrow> client \<Rightarrow> client" where
  "with_hosts_timeout timeout c = c\<lparr>cl_transport := (cl_transport c)\<lparr>tr_hosts_timeout := timeout\<rparr>\<rparr>"

definition with_hosts_retry_after :: "nat \<Rightarrow> client \<Rightarrow> client" where
  "with_hosts_retry_after after c = c\<lparr>cl_transport := (cl_transport c)\<lparr>tr_hosts_retry_after := after\<rparr>\<rparr>"

definition with_host_list_refresh_interval :: "nat \<Rightarrow> client \<Rightarrow> client" where
  "with_host_list_refresh_interval interval c = c\<lparr>cl_transport := (cl_transport c)\<lparr>tr_host_list_refresh := interval\<rparr>\<rparr>"

definition with_retries :: "retry_policy \<Rightarrow> client \<Rightarrow> client" where
  "with_retries policy c = c\<lparr>cl_transport := (cl_transport c)\<lparr>tr_retries := policy\<rparr>\<rparr>"

definition with_file_cache :: "bytes \<Rightarrow> client \<Rightarrow> client" where
  "with_file_cache path c = c\<lparr>cl_file_cache := path\<rparr>"

definition with_job_diagnostics :: "bool \<Rightarrow> client \<Rightarrow> client" where
  "with_job_diagnostics enabled c = c\<lparr>cl_job_diagnostics := enabled\<rparr>"

definition with_transaction :: "bytes \<Rightarrow> client \<Rightarrow> client" where
  "with_transaction i c = c\<lparr>cl_transport := (cl_transport c)\<lparr>tr_transaction := Some i\<rparr>\<rparr>"

definition transaction_id :: "client \<Rightarrow> bytes option" where
  "transaction_id c = tr_transaction (cl_transport c)"

text \<open>The setters of the routing rules, which forget what was resolved under the old ones.\<close>

definition with_routing :: "(transport \<Rightarrow> transport \<times> heavy_proxy) \<Rightarrow> client \<Rightarrow> client \<times> heavy_proxy" where
  "with_routing setter c = (let (t, s) = setter (cl_transport c) in (c\<lparr>cl_transport := t\<rparr>, s))"

definition with_proxy_discovery :: "bool \<Rightarrow> client \<Rightarrow> client \<times> heavy_proxy" where
  "with_proxy_discovery enabled = with_routing (set_proxy_discovery enabled)"

definition with_heavy_proxies_anywhere :: "bool \<Rightarrow> client \<Rightarrow> client \<times> heavy_proxy" where
  "with_heavy_proxies_anywhere enabled = with_routing (set_heavy_proxies_anywhere enabled)"

definition with_heavy_proxies_in :: "bytes list \<Rightarrow> client \<Rightarrow> client \<times> heavy_proxy" where
  "with_heavy_proxies_in names = with_routing (set_heavy_proxies_in names)"

definition with_heavy_proxies_under :: "bytes list \<Rightarrow> client \<Rightarrow> client \<times> heavy_proxy" where
  "with_heavy_proxies_under domains = with_routing (set_heavy_proxies_under domains)"

section \<open>The environment\<close>

definition expanded_proxy :: "bytes \<Rightarrow> bytes option \<Rightarrow> bytes" where
  "expanded_proxy proxy0 suffix =
     (let proxy = trim proxy0
      in case suffix of
           None \<Rightarrow> proxy
         | Some suffix \<Rightarrow>
             if str_contains proxy (ascii '':'') \<or> str_contains proxy (ascii ''.'') \<or> str_contains proxy (ascii ''localhost'')
             then proxy
             else proxy @ ascii ''.'' @ trim_matches 0x2E suffix)"

text \<open>Splitting at several separators is splitting at each in turn.\<close>

definition split_domains :: "bytes \<Rightarrow> bytes list" where
  "split_domains v =
     filter (\<lambda>domain. domain \<noteq> [])
       (map trim (fold (\<lambda>c parts. concat (map (split_on c) parts)) [0x2C, 0x20, 0x09, 0x0A] [v]))"

definition truthy :: "bytes \<Rightarrow> bool" where
  "truthy v = (to_ascii_lowercase (trim v) \<in> set (map ascii [''1'', ''true'', ''yes'']))"

definition clean_token :: "bytes \<Rightarrow> bytes option" where
  "clean_token raw = (if trim raw \<noteq> [] then Some (trim raw) else None)"

text \<open>The variables of the process and its readable files that hold text.\<close>

type_synonym variables = "bytes \<Rightarrow> bytes option"
type_synonym text_files = "bytes \<Rightarrow> bytes option"

definition read_token_file :: "text_files \<Rightarrow> bytes \<Rightarrow> bytes option" where
  "read_token_file files path = Option.bind (files path) clean_token"

text \<open>\<open>Path::join\<close> of a relative component.\<close>

definition path_join :: "bytes \<Rightarrow> bytes \<Rightarrow> bytes" where
  "path_join base component =
     (if base = [] \<or> last base = 0x2F then base @ component else base @ ascii ''/'' @ component)"

definition or_option :: "'a option \<Rightarrow> 'a option \<Rightarrow> 'a option" where
  "or_option a b = (case a of Some x \<Rightarrow> Some x | None \<Rightarrow> b)"

definition token_from_environment :: "variables \<Rightarrow> text_files \<Rightarrow> bytes option" where
  "token_from_environment vars files =
     or_option (Option.bind (vars (ascii ''YT_TOKEN'')) clean_token)
       (or_option (Option.bind (vars (ascii ''YT_TOKEN_PATH'')) (read_token_file files))
         (Option.bind (or_option (vars (ascii ''HOME'')) (vars (ascii ''USERPROFILE'')))
           (\<lambda>home. read_token_file files (path_join (path_join home (ascii ''.yt'')) (ascii ''token'')))))"

definition variable :: "variables \<Rightarrow> string \<Rightarrow> bytes option" where
  "variable lookup name = Option.bind (lookup (ascii name)) (\<lambda>v. if trim v \<noteq> [] then Some (trim v) else None)"

text \<open>\<open>None\<close>: \<open>YT_PROXY\<close> is not set.\<close>

definition from_lookup :: "process \<Rightarrow> variables \<Rightarrow> text_files \<Rightarrow> variables \<Rightarrow> (client \<times> heavy_proxy) option" where
  "from_lookup pr vars files lookup =
     Option.bind (variable lookup ''YT_PROXY'') (\<lambda>proxy0.
       let proxy = expanded_proxy proxy0 (variable lookup ''YT_PROXY_SUFFIX'');
           made = client_on pr proxy (token_from_environment vars files);
           under = (case variable lookup ''YT_HEAVY_PROXY_DOMAINS'' of
                      Some domains \<Rightarrow> with_heavy_proxies_under (split_domains domains) (fst made)
                    | None \<Rightarrow> made);
           anywhere = (if (case variable lookup ''YT_HEAVY_PROXIES_ANYWHERE'' of Some v \<Rightarrow> truthy v | None \<Rightarrow> False)
                       then with_heavy_proxies_anywhere True (fst under) else under)
       in Some (case variable lookup ''YT_FILE_CACHE'' of
                  Some cache \<Rightarrow> (with_file_cache cache (fst anywhere), snd anywhere)
                | None \<Rightarrow> anywhere))"

definition from_env :: "process \<Rightarrow> variables \<Rightarrow> text_files \<Rightarrow> (client \<times> heavy_proxy) option" where
  "from_env pr vars files = from_lookup pr vars files vars"

section \<open>Sessions\<close>

text \<open>
  What the commands of a session read from outside: the network and clocks of the call with a given
  number, and the clock after a number of calls, in nanoseconds, without the time the program itself
  sleeps between calls.
\<close>

record world =
  wd_parse :: json_parser
  wd_fmt :: formatters
  wd_calls :: "nat \<Rightarrow> call_env"
  wd_clock :: "nat \<Rightarrow> nat"

text \<open>A command as it was asked for, the requests of its lookup and of its attempts, and its error if it
  failed.\<close>

record sent =
  sn_verb :: http_method
  sn_command :: bytes
  sn_parameters :: yson_value
  sn_payload :: "bytes option"
  sn_repeatable :: repeatable
  sn_given :: "mutation_id option"
  sn_transaction :: "bytes option"
  sn_policy :: retry_policy
  sn_timeout :: nat
  sn_lookup :: "http_request list"
  sn_requests :: "http_request list list"
  sn_error :: "client_error option"

text \<open>The shared routing, the commands sent so far, and how long the program has slept between them.\<close>

record session =
  ss_state :: heavy_proxy
  ss_sent :: "sent list"
  ss_slept :: nat

definition calls_made :: "session \<Rightarrow> nat" where "calls_made s = length (ss_sent s)"

text \<open>\<open>thread::sleep\<close> moves the clock by its duration, whatever else does.\<close>

definition slept :: "nat \<Rightarrow> session \<Rightarrow> session" where
  "slept d s = s\<lparr>ss_slept := ss_slept s + d\<rparr>"

definition now :: "world \<Rightarrow> session \<Rightarrow> nat" where "now w s = wd_clock w (calls_made s) + ss_slept s"

lemma slept_simps [simp]:
  "ss_state (slept d s) = ss_state s" "ss_sent (slept d s) = ss_sent s" "calls_made (slept d s) = calls_made s"
  "ss_slept (slept d s) = ss_slept s + d"
  by (simp_all add: slept_def calls_made_def)

text \<open>What a command of the client fails with: a failed call, or a constructor for each error made in
  \<open>lib.rs\<close>, with what its text interpolates.\<close>

datatype format_owner = Job_format string | Task_format bytes

datatype command_error =
    Call_failed client_error
  | Not_an_envelope bytes yson_error bytes
  | No_field bytes "bytes list"
  | Not_a_dict bytes yson_node
  | Not_a_string bytes bytes yson_node
  | Schema_refused bytes column_refusal
  | Too_many_children bytes
  | Not_a_list_of_children bytes yson_node
  | Child_name_not_a_string bytes yson_node
  | Lock_without_transaction bytes
  | Lock_still_queued bytes bytes nat
  | Row_count_not_an_integer bytes
  | Attribute_not_encoded yson_error
  | Local_unreadable bytes
  | Not_a_worker bytes worker_refusal
  | Size_unreadable command_error
  | Size_not_an_integer bytes yson_node
  | Size_mismatch bytes int nat
  | No_cached_path
  | Cached_path_not_a_string bytes yson_node
  | Command_refused command_refusal
  | Timeout_not_positive bytes yson_node
  | Two_tasks_called bytes
  | Skiff_tables_mismatch format_owner nat nat string
  | Nothing_to_change
  | No_operations yson_node
  | No_events yson_node
  | State_not_a_string "yson_node option"
  | Suspended_not_a_boolean yson_node
  | No_job
  | Operation_failed bytes bytes "bytes option" "job_failure list"
  | Get_with_body bytes
  | Any_not_yson yson_error yson_error
  | Row_malformed yson_error
  | Row_stream_ended

type_synonym 'a effect = "session \<Rightarrow> ((command_error + 'a) \<times> session) option"

definition answer :: "command_error + 'a \<Rightarrow> 'a effect" where "answer r s = Some (r, s)"

text \<open>\<open>?\<close> between commands.\<close>

definition then_do :: "'a effect \<Rightarrow> ('a \<Rightarrow> 'b effect) \<Rightarrow> 'b effect" where
  "then_do m k s = Option.bind (m s) (\<lambda>(r, s'). case r of Inl e \<Rightarrow> Some (Inl e, s') | Inr a \<Rightarrow> k a s')"

text \<open>A command whose failure is looked at.\<close>

definition attempt :: "'a effect \<Rightarrow> (command_error + 'a \<Rightarrow> 'b effect) \<Rightarrow> 'b effect" where
  "attempt m k s = Option.bind (m s) (\<lambda>(r, s'). k r s')"

definition sent_by ::
  "client \<Rightarrow> http_method \<Rightarrow> bytes \<Rightarrow> yson_value \<Rightarrow> bytes option \<Rightarrow> repeatable \<Rightarrow> mutation_id option \<Rightarrow> 'a outcome \<Rightarrow> sent" where
  "sent_by c verb name parameters payload r given oc =
     \<lparr>sn_verb = verb, sn_command = name, sn_parameters = parameters, sn_payload = payload, sn_repeatable = r, sn_given = given,
      sn_transaction = tr_transaction (cl_transport c), sn_policy = tr_retries (cl_transport c),
      sn_timeout = tr_timeout (cl_transport c), sn_lookup = oc_lookup oc, sn_requests = oc_requests oc,
      sn_error = (case oc_result oc of Inl e \<Rightarrow> Some e | Inr _ \<Rightarrow> None)\<rparr>"

definition command_with ::
  "client \<Rightarrow> world \<Rightarrow> http_method \<Rightarrow> bytes \<Rightarrow> yson_value \<Rightarrow> bytes option \<Rightarrow> repeatable \<Rightarrow> mutation_id option \<Rightarrow> bytes effect" where
  "command_with c w verb name parameters payload r given s =
     map_option (\<lambda>oc.
       (case oc_result oc of Inl e \<Rightarrow> Inl (Call_failed e) | Inr body \<Rightarrow> Inr body,
        s\<lparr>ss_state := oc_state oc, ss_sent := ss_sent s @ [sent_by c verb name parameters payload r given oc]\<rparr>))
     (call_with (wd_parse w) (wd_fmt w) (cl_transport c) (wd_calls w (calls_made s)) (ss_state s) verb name parameters payload r given)"

definition command ::
  "client \<Rightarrow> world \<Rightarrow> http_method \<Rightarrow> string \<Rightarrow> yson_value \<Rightarrow> bytes option \<Rightarrow> repeatable \<Rightarrow> bytes effect" where
  "command c w verb name parameters payload r = command_with c w verb (ascii name) parameters payload r None"

text \<open>A command whose answer is handed on unread, and one whose body is streamed; both heavy.\<close>

definition opened :: "client \<Rightarrow> world \<Rightarrow> http_method \<Rightarrow> bytes \<Rightarrow> yson_value \<Rightarrow> body effect" where
  "opened c w verb name parameters s =
     map_option (\<lambda>oc.
       (case oc_result oc of Inl e \<Rightarrow> Inl (Call_failed e) | Inr body \<Rightarrow> Inr body,
        s\<lparr>ss_state := oc_state oc, ss_sent := ss_sent s @ [sent_by c verb name parameters None Heavy None oc]\<rparr>))
     (open_stream (wd_parse w) (wd_fmt w) (cl_transport c) (wd_calls w (calls_made s)) (ss_state s) verb name parameters)"

definition uploaded :: "client \<Rightarrow> world \<Rightarrow> http_method \<Rightarrow> bytes \<Rightarrow> yson_value \<Rightarrow> bytes \<Rightarrow> bytes effect" where
  "uploaded c w verb name parameters content s =
     map_option (\<lambda>oc.
       (case oc_result oc of Inl e \<Rightarrow> Inl (Call_failed e) | Inr body \<Rightarrow> Inr body,
        s\<lparr>ss_state := oc_state oc, ss_sent := ss_sent s @ [sent_by c verb name parameters (Some content) Heavy None oc]\<rparr>))
     (upload (wd_parse w) (wd_fmt w) (cl_transport c) (wd_calls w (calls_made s)) (ss_state s) verb name parameters content)"

section \<open>Answers\<close>

definition strip_envelope :: "bytes \<Rightarrow> bytes \<Rightarrow> command_error + yson_value" where
  "strip_envelope body name =
     (case from_slice body Text of
        Inl e \<Rightarrow> Inl (Not_an_envelope name e (truncate_text (from_utf8_lossy body) 200))
      | Inr v \<Rightarrow> Inr v)"

definition field_of :: "yson_value \<Rightarrow> bytes \<Rightarrow> command_error + yson_value" where
  "field_of v key =
     (case node v of
        Map m \<Rightarrow> (case map_of m key of Some x \<Rightarrow> Inr x | None \<Rightarrow> Inl (No_field key (map fst m)))
      | n \<Rightarrow> Inl (Not_a_dict key n))"

definition value_field :: "bytes \<Rightarrow> string \<Rightarrow> command_error + yson_value" where
  "value_field body key = and_then (strip_envelope body (ascii key)) (\<lambda>envelope. field_of envelope (ascii key))"

text \<open>A string answer under a key, for the command that asked.\<close>

definition string_field :: "yson_value \<Rightarrow> string \<Rightarrow> string \<Rightarrow> command_error + bytes" where
  "string_field envelope name key =
     and_then (field_of envelope (ascii key)) (\<lambda>v.
       case node v of String bs \<Rightarrow> Inr (from_utf8_lossy bs) | n \<Rightarrow> Inl (Not_a_string (ascii name) (ascii key) n))"

section \<open>Lemmas\<close>

lemma done_simps [simp]: "answer r s = Some (r, s)"
  by (simp add: answer_def)

lemma then_do_Some:
  "then_do m k s = Some (r, s') \<longleftrightarrow>
     (\<exists>a s1. m s = Some (Inr a, s1) \<and> k a s1 = Some (r, s')) \<or> (\<exists>e. m s = Some (Inl e, s') \<and> r = Inl e)"
proof (cases "m s")
  case (Some x)
  obtain q s1 where "x = (q, s1)" by fastforce
  then show ?thesis using Some by (cases q) (auto simp: then_do_def)
qed (simp add: then_do_def)

lemma attempt_Some: "attempt m k s = Some x \<longleftrightarrow> (\<exists>r s1. m s = Some (r, s1) \<and> k r s1 = Some x)"
  by (auto simp: attempt_def bind_eq_Some_conv)

text \<open>A command on a dict is answered, and is the next entry of the record.\<close>

lemma command_with_total:
  assumes "is_dict parameters"
  obtains r s' m where "command_with c w verb name parameters payload rep given s = Some (r, s')"
    "ss_sent s' = ss_sent s @ [m]" "sn_command m = name" "sn_parameters m = parameters" "sn_payload m = payload"
    "sn_repeatable m = rep" "sn_given m = given" "sn_verb m = verb" "sn_transaction m = tr_transaction (cl_transport c)"
    "sn_policy m = tr_retries (cl_transport c)" "sn_timeout m = tr_timeout (cl_transport c)"
proof -
  obtain oc where "call_with (wd_parse w) (wd_fmt w) (cl_transport c) (wd_calls w (calls_made s)) (ss_state s) verb name parameters
      payload rep given = Some oc"
    using call_with_total [OF assms] by blast
  then show thesis using that [where m = "sent_by c verb name parameters payload rep given oc"]
    by (simp add: command_with_def sent_by_def)
qed

lemma command_with_sent:
  "command_with c w verb name parameters payload rep given s = Some (r, s') \<Longrightarrow>
   \<exists>m. ss_sent s' = ss_sent s @ [m] \<and> sn_command m = name \<and> sn_parameters m = parameters \<and> sn_payload m = payload \<and>
     sn_repeatable m = rep \<and> sn_given m = given \<and> sn_verb m = verb \<and> sn_transaction m = tr_transaction (cl_transport c) \<and>
     sn_policy m = tr_retries (cl_transport c) \<and> sn_timeout m = tr_timeout (cl_transport c)"
  by (auto simp: command_with_def sent_by_def)

lemma command_total:
  assumes "is_dict parameters"
  obtains r s' where "command c w verb name parameters payload rep s = Some (r, s')" "calls_made s' = Suc (calls_made s)"
  using command_with_total [OF assms, of c w verb "ascii name" payload rep None s] unfolding command_def calls_made_def
  by (metis length_append_singleton)

lemma command_slept: "command c w verb name parameters payload rep s = Some (r, s') \<Longrightarrow> ss_slept s' = ss_slept s"
  by (auto simp: command_def command_with_def)

lemma is_dict_yson_map [simp]: "is_dict (yson_map es)"
  by (rule yson_map_dict)

lemma is_dict_path_only [simp]: "is_dict (path_only path)"
  by (simp add: path_only_def)

lemma command_error:
  assumes "command c w verb name parameters payload rep s = Some (Inl e, s')"
  shows "\<exists>e'. e = Call_failed e'"
proof -
  obtain oc :: "bytes outcome" where "(case oc_result oc of Inl e \<Rightarrow> Inl (Call_failed e) | Inr body \<Rightarrow> Inr body) = (Inl e :: command_error + bytes)"
    using assms by (auto simp: command_def command_with_def)
  then show ?thesis by (cases "oc_result oc") auto
qed

section \<open>The command an error names\<close>

fun named_in :: "client_error \<Rightarrow> bytes option" where
  "named_in (Cluster name _ _ _) = Some name"
| "named_in _ = None"

lemma unusable_unnamed: "unusable t base = Some e \<Longrightarrow> named_in e = None"
  by (auto simp: unusable_def tls_unavailable_def split: if_splits option.splits)

lemma tls_unnamed: "tls_unavailable t base = Some e \<Longrightarrow> named_in e = None"
  by (auto simp: tls_unavailable_def split: if_splits)

lemma redirect_unnamed: "redirect t name response url body hops = Inl e \<Longrightarrow> named_in e = None"
  by (auto simp: redirect_def Let_def split: if_splits option.splits)

lemma remaining_unnamed: "Client_Transport.remaining deadline name at = Inl e \<Longrightarrow> named_in e = None"
  by (auto simp: Client_Transport.remaining_def split: option.splits if_splits)

lemma request_loop_unnamed:
  assumes "\<And>url e. guard url = Some e \<Longrightarrow> named_in e = None"
  shows "snd (request_loop t net clock guard name verb hdrs body deadline url hops) = Inl e \<Longrightarrow> named_in e = None"
  using assms
proof (induction t net clock guard name verb hdrs body deadline url hops rule: request_loop.induct)
  case (1 t net clock guard name verb hdrs body deadline url hops)
  show ?case
  proof (cases "Client_Transport.remaining deadline name (clock hops)")
    case (Inl e')
    then show ?thesis using 1(2) remaining_unnamed by (subst (asm) request_loop.simps) auto
  next
    case left: (Inr left)
    let ?request = "make_request url verb hdrs body left"
    show ?thesis
    proof (cases "net hops ?request")
      case (Inl e')
      then show ?thesis using 1(2) left by (subst (asm) request_loop.simps) auto
    next
      case response: (Inr response)
      show ?thesis
      proof (cases "redirect t name response url body hops")
        case (Inl e')
        then show ?thesis using 1(2) left response redirect_unnamed by (subst (asm) request_loop.simps) auto
      next
        case next': (Inr next')
        show ?thesis
        proof (cases next')
          case None
          then show ?thesis using 1(2) left response next' by (subst (asm) request_loop.simps) auto
        next
          case (Some u)
          show ?thesis
          proof (cases "guard u")
            case (Some e')
            then show ?thesis using 1(2,3) left response next' \<open>next' = Some u\<close>
              by (subst (asm) request_loop.simps) auto
          next
            case None
            then have "snd (request_loop t net clock guard name verb hdrs body deadline u (hops + 1)) = Inl e"
              using 1(2) left response next' Some by (subst (asm) request_loop.simps) (simp add: split_beta)
            then show ?thesis using 1(1) [OF left refl response next' Some None] 1(3) by blast
          qed
        qed
      qed
    qed
  qed
qed

lemma dispatch_named:
  assumes "snd (dispatch parse fmt t net clock base verb name parameters body streaming) = Inl e"
  shows "named_in e \<in> {None, Some name}"
proof (cases "unusable t base")
  case (Some e')
  then show ?thesis using assms unusable_unnamed by (auto simp: dispatch_def)
next
  case None
  show ?thesis
  proof (cases "to_string fmt (value_serde parameters) Text")
    case (Inr encoded)
    let ?loop = "request_loop t net clock (tls_unavailable t) name verb (command_headers t encoded) body
      (deadline_for t streaming (clock 0)) (command_url base name) 0"
    show ?thesis
    proof (cases "snd ?loop")
      case (Inl e')
      then show ?thesis using assms None Inr request_loop_unnamed [of "tls_unavailable t"] tls_unnamed
        by (auto simp: dispatch_def split_beta)
    next
      case response: (Inr response)
      then show ?thesis using assms None Inr
        by (auto simp: dispatch_def split_beta from_yt_error_def Let_def split: option.splits if_splits)
    qed
  qed (use assms None in \<open>auto simp: dispatch_def\<close>)
qed

lemma read_capped_unnamed: "read_capped bufs name body limit = Inl e \<Longrightarrow> named_in e = None"
  by (cases "read_to_end bufs 0 limit limit body []") (auto simp: read_capped_def body_failure_def split: transport_error.splits)

lemma send_named:
  assumes "snd (send parse fmt bufs t net clock base verb name parameters payload) = Inl e"
  shows "named_in e \<in> {None, Some name}"
  using assms dispatch_named [of parse fmt t net clock base verb name parameters]
  by (auto simp: send_def split_beta and_then_Inl status_error_def dest: read_capped_unnamed split: if_splits)

text \<open>An error of the cluster that a command fails with names that command, and the proxy after it when it
  was sent to one.\<close>

definition error_of :: "bytes \<Rightarrow> client_error \<Rightarrow> bool" where
  "error_of name e = (case named_in e of None \<Rightarrow> True | Some n \<Rightarrow> take (length name) n = name)"

lemma named_in_refusal_hint [simp]: "named_in (refusal_hint e why) = named_in e"
  by (cases e) simp_all

lemma error_of_routed_to: "error_of name e \<Longrightarrow> error_of name (routed_to e base)"
proof (cases e)
  case (Cluster n code message raw)
  assume "error_of name e"
  then have "take (length name) n = name" using Cluster by (simp add: error_of_def)
  moreover from this have "length name \<le> length n" by (metis length_take min.cobounded2 length_take min_def nle_le)
  ultimately show ?thesis using Cluster by (simp add: error_of_def)
qed (simp_all add: error_of_def)

lemma error_of_refusal_hint: "error_of name (refusal_hint e why) = error_of name e"
  by (simp add: error_of_def)

lemma error_of_named: "named_in e \<in> {None, Some name} \<Longrightarrow> error_of name e"
  by (auto simp: error_of_def)

lemma error_of_after:
  "error_of name e \<Longrightarrow> after_heavy parse t r d (Inl e) at s = (Inl e', s') \<Longrightarrow> error_of name e'"
  unfolding after_heavy_def by (auto simp: error_of_refusal_hint error_of_routed_to split: if_splits destination.splits)

lemma call_error_named:
  assumes "call_with parse fmt t env s verb name parameters payload r given = Some oc" "oc_result oc = Inl e"
  shows "error_of name e"
proof -
  obtain params where oc: "run_call parse t r env s params
      (\<lambda>base n q. send parse fmt (ce_bufs env) t (ce_net env n) (ce_clock env n) base verb name q payload) = oc"
    using assms(1) by (auto simp: call_with_def Let_def split: option.splits)
  from oc obtain s' refused result where
    run: "retry_run parse (tr_retries t) r (\<lambda>n is_retry. send parse fmt (ce_bufs env) t (ce_net env n) (ce_clock env n)
      (address (oc_destination oc)) verb name (params is_retry) payload) = (oc_requests oc, oc_waits oc, result)" and
    after: "after_heavy parse t r (oc_destination oc) result (ce_after env) s' = (oc_result oc, oc_state oc)"
    by (elim run_call_simps)
  obtain e0 where result: "result = Inl e0"
    using after assms(2) by (cases result) (auto simp: after_heavy_def split: if_splits)
  then have "snd (send parse fmt (ce_bufs env) t (ce_net env (1 + length (oc_waits oc))) (ce_clock env (1 + length (oc_waits oc)))
      (address (oc_destination oc)) verb name (params (1 + length (oc_waits oc) > 1)) payload) = Inl e0"
    using run_from_spec [OF run [unfolded retry_run_def], THEN conjunct2, THEN conjunct2, THEN conjunct1] by simp
  then have "error_of name e0" by (intro error_of_named send_named)
  then show ?thesis using after result assms(2) error_of_after by metis
qed

text \<open>What one command adds to a session: a message of that command with those parameters, and an error
  that is its own.\<close>

definition error_is_of :: "string \<Rightarrow> command_error \<Rightarrow> bool" where
  "error_is_of name e = (case e of Call_failed e \<Rightarrow> error_of (ascii name) e | _ \<Rightarrow> True)"

definition message_of :: "string \<Rightarrow> yson_value \<Rightarrow> sent \<Rightarrow> bool" where
  "message_of name parameters m = (sn_command m = ascii name \<and> sn_parameters m = parameters)"

lemma command_logged:
  assumes "is_dict parameters"
  obtains r s' m where "command c w verb name parameters payload rep s = Some (r, s')" "ss_sent s' = ss_sent s @ [m]"
    "message_of name parameters m" "sn_payload m = payload"
    "case r of Inl e \<Rightarrow> error_is_of name e \<and> (\<exists>e'. sn_error m = Some e' \<and> e = Call_failed e') | Inr _ \<Rightarrow> sn_error m = None"
proof -
  let ?env = "wd_calls w (calls_made s)"
  obtain oc where oc: "call_with (wd_parse w) (wd_fmt w) (cl_transport c) ?env (ss_state s) verb (ascii name) parameters
      payload rep None = Some oc"
    using call_with_total [OF assms] by blast
  have "error_is_of name (Call_failed e)" if "oc_result oc = Inl e" for e
    using that call_error_named [OF oc] by (auto simp: error_is_of_def)
  then show thesis using that [where m = "sent_by c verb (ascii name) parameters payload rep None oc"] oc
    by (cases "oc_result oc") (simp_all add: command_def command_with_def sent_by_def message_of_def)
qed

section \<open>A sample\<close>

text \<open>A client in a transaction, and a world that answers every request with an empty body.\<close>

definition sample_client :: client where
  "sample_client = \<lparr>cl_transport = sample_transport\<lparr>tr_transaction := Some (ascii ''1-2-3-4'')\<rparr>, cl_poll_interval = 2,
     cl_job_diagnostics = True, cl_file_cache = ascii ''//c''\<rparr>"

definition sample_world :: world where
  "sample_world = \<lparr>wd_parse = (\<lambda>_. None), wd_fmt = no_formatters,
     wd_calls = (\<lambda>_. \<lparr>ce_net = (\<lambda>_. sample_network), ce_clock = (\<lambda>_ _. 0), ce_bufs = (\<lambda>_. 9), ce_route = sample_input 9 (Inr []),
       ce_after = 9, ce_draws = (1, 2)\<rparr>),
     wd_clock = (\<lambda>n. 2 * n)\<rparr>"

definition sample_session :: session where
  "sample_session = \<lparr>ss_state = Unasked, ss_sent = [], ss_slept = 0\<rparr>"

end
