(* ===== verification/Client_Cypress.thy ===== *)
theory Client_Cypress
  imports Client_Session
begin

text \<open>
  The Cypress commands of \<open>crates/ytsaurus-client/src/lib.rs\<close>, with \<open>lock.rs\<close>: nodes, tables by schema,
  links, copies, attributes, listings and locks.
\<close>

section \<open>Nodes\<close>

definition exists_node :: "client \<Rightarrow> world \<Rightarrow> bytes \<Rightarrow> bool effect" where
  "exists_node c w path =
     then_do (command c w Get ''exists'' (path_only path) None Freely) (\<lambda>body.
     answer (and_then (value_field body ''value'') (\<lambda>v. Inr (node v = Boolean True))))"

definition get_node :: "client \<Rightarrow> world \<Rightarrow> bytes \<Rightarrow> yson_value effect" where
  "get_node c w path =
     then_do (command c w Get ''get'' (path_only path) None Freely) (\<lambda>body. answer (value_field body ''value''))"

definition ignore :: "'a effect \<Rightarrow> unit effect" where
  "ignore m = then_do m (\<lambda>_. answer (Inr ()))"

definition create_parameters :: "bytes \<Rightarrow> bytes \<Rightarrow> yson_value" where
  "create_parameters node_type path =
     yson_map [(ascii ''path'', yson_str path), (ascii ''type'', yson_str node_type),
       (ascii ''recursive'', yson_boolean True), (ascii ''ignore_existing'', yson_boolean True)]"

definition create_node :: "client \<Rightarrow> world \<Rightarrow> bytes \<Rightarrow> bytes \<Rightarrow> unit effect" where
  "create_node c w node_type path =
     ignore (command c w Post ''create'' (create_parameters node_type path) None WithMutationId)"

definition schema_checked :: "bytes \<Rightarrow> column_schema \<Rightarrow> command_error + unit" where
  "schema_checked path schema =
     (case column_schema_validate schema of Inl reason \<Rightarrow> Inl (Schema_refused path reason) | Inr _ \<Rightarrow> Inr ())"

definition create_table :: "client \<Rightarrow> world \<Rightarrow> bytes \<Rightarrow> column_schema \<Rightarrow> unit effect" where
  "create_table c w path schema =
     then_do (answer (schema_checked path schema)) (\<lambda>_.
     ignore (command c w Post ''create''
       (yson_map [(ascii ''path'', yson_str path), (ascii ''type'', yson_str (ascii ''table'')),
          (ascii ''recursive'', yson_boolean True),
          (ascii ''attributes'', yson_map [(ascii ''schema'', column_schema_to_yson schema)])])
       None WithMutationId))"

definition alter_table :: "client \<Rightarrow> world \<Rightarrow> bytes \<Rightarrow> column_schema \<Rightarrow> unit effect" where
  "alter_table c w path schema =
     then_do (answer (schema_checked path schema)) (\<lambda>_.
     ignore (command c w Post ''alter_table''
       (yson_map [(ascii ''path'', yson_str path), (ascii ''schema'', column_schema_to_yson schema)]) None WithMutationId))"

definition table_schema_of :: "client \<Rightarrow> world \<Rightarrow> bytes \<Rightarrow> yson_value effect" where
  "table_schema_of c w path = get_node c w (path @ ascii ''/@schema'')"

definition row_count :: "client \<Rightarrow> world \<Rightarrow> bytes \<Rightarrow> i64 effect" where
  "row_count c w path =
     then_do (get_node c w (path @ ascii ''/@row_count'')) (\<lambda>v.
     answer (ok_or (as_i64 v) (Row_count_not_an_integer path)))"

definition remove_with :: "client \<Rightarrow> world \<Rightarrow> bytes \<Rightarrow> bool \<Rightarrow> bool \<Rightarrow> unit effect" where
  "remove_with c w path whole force =
     ignore (command c w Post ''remove''
       (yson_map [(ascii ''path'', yson_str path), (ascii ''recursive'', yson_boolean whole), (ascii ''force'', yson_boolean force)])
       None WithMutationId)"

definition remove_node :: "client \<Rightarrow> world \<Rightarrow> bytes \<Rightarrow> unit effect" where
  "remove_node c w path = remove_with c w path False False"

definition remove_tree :: "client \<Rightarrow> world \<Rightarrow> bytes \<Rightarrow> unit effect" where
  "remove_tree c w path = remove_with c w path True True"

section \<open>Children\<close>

definition child_name :: "bytes \<Rightarrow> yson_value \<Rightarrow> command_error + bytes" where
  "child_name path item =
     (case node item of String bs \<Rightarrow> Inr (from_utf8_lossy bs) | n \<Rightarrow> Inl (Child_name_not_a_string path n))"

definition child_names :: "yson_value \<Rightarrow> bytes \<Rightarrow> command_error + bytes list" where
  "child_names v path =
     (if map_option node (attr v (ascii ''incomplete'')) = Some (Boolean True) then Inl (Too_many_children path)
      else (case node v of
              List items \<Rightarrow> collect (child_name path) items
            | n \<Rightarrow> Inl (Not_a_list_of_children path n)))"

definition list_node :: "client \<Rightarrow> world \<Rightarrow> bytes \<Rightarrow> bytes list effect" where
  "list_node c w path =
     then_do (command c w Get ''list'' (path_only path) None Freely) (\<lambda>body.
     answer (and_then (value_field body ''value'') (\<lambda>v. child_names v path)))"

section \<open>Copies and links\<close>

definition transfer :: "client \<Rightarrow> world \<Rightarrow> string \<Rightarrow> bytes \<Rightarrow> bytes \<Rightarrow> bool \<Rightarrow> unit effect" where
  "transfer c w name source destination force =
     ignore (command c w Post name
       (yson_map [(ascii ''source_path'', yson_str source), (ascii ''destination_path'', yson_str destination),
          (ascii ''recursive'', yson_boolean True), (ascii ''force'', yson_boolean force)])
       None WithMutationId)"

definition copy_node :: "client \<Rightarrow> world \<Rightarrow> bytes \<Rightarrow> bytes \<Rightarrow> unit effect" where
  "copy_node c w source destination = transfer c w ''copy'' source destination False"

definition copy_replacing :: "client \<Rightarrow> world \<Rightarrow> bytes \<Rightarrow> bytes \<Rightarrow> unit effect" where
  "copy_replacing c w source destination = transfer c w ''copy'' source destination True"

definition move_node :: "client \<Rightarrow> world \<Rightarrow> bytes \<Rightarrow> bytes \<Rightarrow> unit effect" where
  "move_node c w source destination = transfer c w ''move'' source destination False"

definition move_replacing :: "client \<Rightarrow> world \<Rightarrow> bytes \<Rightarrow> bytes \<Rightarrow> unit effect" where
  "move_replacing c w source destination = transfer c w ''move'' source destination True"

definition link_inner :: "client \<Rightarrow> world \<Rightarrow> bytes \<Rightarrow> bytes \<Rightarrow> bool \<Rightarrow> unit effect" where
  "link_inner c w target link_path force =
     ignore (command c w Post ''link''
       (yson_map [(ascii ''target_path'', yson_str target), (ascii ''link_path'', yson_str link_path),
          (ascii ''recursive'', yson_boolean True), (ascii ''force'', yson_boolean force)])
       None WithMutationId)"

definition link_node :: "client \<Rightarrow> world \<Rightarrow> bytes \<Rightarrow> bytes \<Rightarrow> unit effect" where
  "link_node c w target link_path = link_inner c w target link_path False"

definition link_replacing :: "client \<Rightarrow> world \<Rightarrow> bytes \<Rightarrow> bytes \<Rightarrow> unit effect" where
  "link_replacing c w target link_path = link_inner c w target link_path True"

definition set_attribute :: "client \<Rightarrow> world \<Rightarrow> bytes \<Rightarrow> bytes \<Rightarrow> yson_value \<Rightarrow> unit effect" where
  "set_attribute c w path name v =
     (case to_vec (wd_fmt w) (value_serde v) Binary of
        Inl e \<Rightarrow> answer (Inl (Attribute_not_encoded e))
      | Inr encoded \<Rightarrow>
          ignore (command c w Put ''set''
            (yson_map [(ascii ''path'', yson_str (path @ ascii ''/@'' @ name)), (ascii ''input_format'', binary_yson_format)])
            (Some encoded) WithMutationId))"

section \<open>Locks\<close>

datatype lock_mode = Lock_exclusive | Lock_shared | Lock_snapshot

fun lock_mode_name :: "lock_mode \<Rightarrow> string" where
  "lock_mode_name Lock_exclusive = ''exclusive''"
| "lock_mode_name Lock_shared = ''shared''"
| "lock_mode_name Lock_snapshot = ''snapshot''"

record held_lock =
  lk_id :: bytes
  lk_node_id :: bytes

definition lock_parameters :: "bytes \<Rightarrow> lock_mode \<Rightarrow> bool \<Rightarrow> yson_value" where
  "lock_parameters path mode waitable =
     yson_map [(ascii ''path'', yson_str path), (ascii ''mode'', yson_str (ascii (lock_mode_name mode))),
       (ascii ''waitable'', yson_boolean waitable)]"

definition read_lock :: "bytes \<Rightarrow> command_error + held_lock" where
  "read_lock body =
     and_then (strip_envelope body (ascii ''lock'')) (\<lambda>envelope.
     and_then (string_field envelope ''lock'' ''lock_id'') (\<lambda>i.
     and_then (string_field envelope ''lock'' ''node_id'') (\<lambda>n.
     Inr \<lparr>lk_id = i, lk_node_id = n\<rparr>)))"

definition lock_inner :: "client \<Rightarrow> world \<Rightarrow> bytes \<Rightarrow> lock_mode \<Rightarrow> bool \<Rightarrow> held_lock effect" where
  "lock_inner c w path mode waitable =
     (if transaction_id c = None then answer (Inl (Lock_without_transaction path))
      else then_do (command c w Post ''lock'' (lock_parameters path mode waitable) None WithMutationId)
             (\<lambda>body. answer (read_lock body)))"

definition lock_node :: "client \<Rightarrow> world \<Rightarrow> bytes \<Rightarrow> lock_mode \<Rightarrow> held_lock effect" where
  "lock_node c w path mode = lock_inner c w path mode False"

definition lock_state_path :: "held_lock \<Rightarrow> bytes" where
  "lock_state_path lock = ascii ''#'' @ lk_id lock @ ascii ''/@state''"

text \<open>The loop of \<open>lock_waiting\<close>: one poll, the verdict on its answer, and the sleep before the next.\<close>

definition lock_verdict :: "bytes \<Rightarrow> nat \<Rightarrow> nat \<Rightarrow> held_lock \<Rightarrow> yson_value \<Rightarrow> nat \<Rightarrow> (command_error + held_lock) option" where
  "lock_verdict path wait_for deadline lock state at =
     (if yson_as_str state = Some (ascii ''acquired'') then Some (Inr lock)
      else if at \<ge> deadline
      then Some (Inl (Lock_still_queued path (case yson_as_str state of Some x \<Rightarrow> x | None \<Rightarrow> ascii ''queued'') wait_for))
      else None)"

partial_function (option) await_lock ::
  "client \<Rightarrow> world \<Rightarrow> bytes \<Rightarrow> nat \<Rightarrow> nat \<Rightarrow> held_lock \<Rightarrow> session \<Rightarrow> ((command_error + held_lock) \<times> session) option" where
  "await_lock c w path wait_for deadline lock s =
     Option.bind (get_node c w (lock_state_path lock) s) (\<lambda>(r, s').
       case r of
         Inl e \<Rightarrow> Some (Inl e, s')
       | Inr state \<Rightarrow>
           (case lock_verdict path wait_for deadline lock state (now w s') of
              Some verdict \<Rightarrow> Some (verdict, s')
            | None \<Rightarrow> await_lock c w path wait_for deadline lock (slept (cl_poll_interval c) s')))"

definition lock_waiting :: "client \<Rightarrow> world \<Rightarrow> bytes \<Rightarrow> lock_mode \<Rightarrow> nat \<Rightarrow> held_lock effect" where
  "lock_waiting c w path mode wait_for =
     then_do (lock_inner c w path mode True) (\<lambda>lock s.
       case instant_add (now w s) wait_for of
         None \<Rightarrow> None
       | Some deadline \<Rightarrow> await_lock c w path wait_for deadline lock s)"

section \<open>Lemmas\<close>

lemma get_node_total:
  obtains r s' where "get_node c w path s = Some (r, s')" "calls_made s' = Suc (calls_made s)" "ss_slept s' = ss_slept s"
proof -
  obtain r s' where "command c w Get ''get'' (path_only path) None Freely s = Some (r, s')" "calls_made s' = Suc (calls_made s)"
    using command_total [OF is_dict_path_only] by blast
  moreover from this have "ss_slept s' = ss_slept s" by (auto dest: command_slept)
  ultimately show thesis using that by (cases r) (simp_all add: get_node_def then_do_def)
qed

text \<open>What ends the wait for a lock: the state that was read, or the time.\<close>

definition lock_outcome :: "client \<Rightarrow> world \<Rightarrow> nat \<Rightarrow> command_error + held_lock \<Rightarrow> session \<Rightarrow> bool" where
  "lock_outcome c w deadline r s =
     (case r of
        Inr lock \<Rightarrow> \<exists>s0 state. get_node c w (lock_state_path lock) s0 = Some (Inr state, s) \<and> yson_as_str state = Some (ascii ''acquired'')
      | Inl (Lock_still_queued _ _ _) \<Rightarrow> deadline \<le> now w s
      | Inl _ \<Rightarrow> True)"

lemma value_field_error: "value_field body key = Inl e \<Longrightarrow> \<nexists>path state wait_for. e = Lock_still_queued path state wait_for"
  by (auto simp: value_field_def strip_envelope_def field_of_def and_then_def split: sum.splits yson_node.splits option.splits)

lemma get_node_error: "get_node c w path s = Some (Inl e, s') \<Longrightarrow> \<nexists>p state wait_for. e = Lock_still_queued p state wait_for"
  by (auto simp: get_node_def then_do_Some dest: value_field_error command_error)

text \<open>Every round of the loop sleeps for the poll interval, so the deadline comes nearer by it.\<close>

lemma await_lock_ends:
  assumes "mono (wd_clock w)"
  shows "deadline \<le> wd_clock w (Suc (calls_made s)) + ss_slept s + m * cl_poll_interval c \<Longrightarrow>
    \<exists>r s'. await_lock c w path wait_for deadline lock s = Some (r, s') \<and> calls_made s' \<le> calls_made s + 1 + m \<and>
      lock_outcome c w deadline r s'"
proof (induction m arbitrary: s rule: less_induct)
  case (less m)
  obtain r s1 where g: "get_node c w (lock_state_path lock) s = Some (r, s1)" "calls_made s1 = Suc (calls_made s)"
      "ss_slept s1 = ss_slept s"
    by (rule get_node_total)
  show ?case
  proof (cases r)
    case (Inl e)
    then have "lock_outcome c w deadline (Inl e) s1"
      using get_node_error [of c w "lock_state_path lock" s e s1] g(1) by (auto simp: lock_outcome_def split: command_error.split)
    then show ?thesis using g Inl by (subst await_lock.simps) simp
  next
    case (Inr state)
    show ?thesis
    proof (cases "lock_verdict path wait_for deadline lock state (now w s1)")
      case (Some verdict)
      then have "lock_outcome c w deadline verdict s1"
        using g(1) Inr unfolding lock_outcome_def lock_verdict_def by (auto split: if_splits intro!: exI [of _ s])
      then show ?thesis using g Inr Some by (subst await_lock.simps) simp
    next
      case None
      then have early: "wd_clock w (Suc (calls_made s)) + ss_slept s < deadline"
        using g(2,3) by (auto simp: lock_verdict_def now_def split: if_splits)
      then obtain k where k: "m = Suc k" using less.prems by (cases m) auto
      let ?s = "slept (cl_poll_interval c) s1"
      have "wd_clock w (Suc (calls_made s)) \<le> wd_clock w (Suc (calls_made ?s))" by (rule monoD [OF assms]) (simp add: g(2))
      then have "deadline \<le> wd_clock w (Suc (calls_made ?s)) + ss_slept ?s + k * cl_poll_interval c"
        using less.prems g(3) k by simp
      from less.IH [OF _ this] k obtain q s' where rest: "await_lock c w path wait_for deadline lock ?s = Some (q, s')"
          "calls_made s' \<le> calls_made ?s + 1 + k" "lock_outcome c w deadline q s'"
        by auto
      have "await_lock c w path wait_for deadline lock s = Some (q, s')"
        by (subst await_lock.simps) (simp add: g(1) Inr None rest(1))
      then show ?thesis using rest(2,3) g(2) k by simp
    qed
  qed
qed

lemma lock_inner_total:
  obtains r s' where "lock_inner c w path mode waitable s = Some (r, s')" "calls_made s' \<le> Suc (calls_made s)"
    "ss_slept s' = ss_slept s" "\<And>lock. r = Inr lock \<Longrightarrow> calls_made s' = Suc (calls_made s)"
    "\<nexists>p state wait_for. r = Inl (Lock_still_queued p state wait_for)"
proof (cases "transaction_id c")
  case None
  then show thesis using that by (simp add: lock_inner_def)
next
  case (Some i)
  have d: "is_dict (lock_parameters path mode waitable)" by (simp add: lock_parameters_def)
  obtain r s' where g: "command c w Post ''lock'' (lock_parameters path mode waitable) None WithMutationId s = Some (r, s')"
      "calls_made s' = Suc (calls_made s)"
    using command_total [OF d] by blast
  then have "ss_slept s' = ss_slept s" by (auto dest: command_slept)
  have read: "\<nexists>p state wait_for. read_lock body = Inl (Lock_still_queued p state wait_for)" for body
    by (auto simp: read_lock_def strip_envelope_def string_field_def field_of_def and_then_def
        split: sum.splits yson_node.splits option.splits)
  have "\<nexists>p state wait_for. r = Inl (Lock_still_queued p state wait_for)"
    using g(1) by (auto dest: command_error)
  then show thesis using that [of _ s'] g \<open>ss_slept s' = ss_slept s\<close> Some read by (cases r) (auto simp: lock_inner_def then_do_def)
qed

section \<open>Properties\<close>

text \<open>C22: waiting for a lock ends. On any clock that never goes back, with a poll interval that is not
  zero and an end of the wait the clock can tell, the wait is over after at most one poll per interval
  of the time allowed and two more, because it sleeps for the interval between two polls; a lock is
  handed out only when the cluster's last answer was that it is acquired, and the wait is given up
  only when the time is over.\<close>

theorem lock_waiting_ends:
  assumes "mono (wd_clock w)" "0 < cl_poll_interval c"
    and "wd_clock w (Suc (calls_made s)) + ss_slept s + wait_for \<le> INSTANT_MAX"
  shows "\<exists>r s'. lock_waiting c w path mode wait_for s = Some (r, s') \<and>
    calls_made s' \<le> calls_made s + 3 + wait_for div cl_poll_interval c \<and>
    lock_outcome c w (wd_clock w (Suc (calls_made s)) + ss_slept s + wait_for) r s'"
proof -
  obtain r s1 where l: "lock_inner c w path mode True s = Some (r, s1)" "calls_made s1 \<le> Suc (calls_made s)" "ss_slept s1 = ss_slept s"
    "\<And>lock. r = Inr lock \<Longrightarrow> calls_made s1 = Suc (calls_made s)" "\<nexists>p state wait_for. r = Inl (Lock_still_queued p state wait_for)"
    using lock_inner_total [of c w path mode True s] by metis
  show ?thesis
  proof (cases r)
    case (Inl e)
    then have "lock_outcome c w deadline r s1" for deadline
      using l(5) by (auto simp: lock_outcome_def split: command_error.split)
    then show ?thesis using l(1,2) Inl by (simp add: lock_waiting_def then_do_def)
  next
    case (Inr lock)
    let ?k = "Suc (calls_made s)" and ?p = "cl_poll_interval c"
    let ?deadline = "wd_clock w ?k + ss_slept s + wait_for" and ?m = "wait_for div ?p + 1"
    have k: "calls_made s1 = ?k" using l(4) [OF Inr] .
    have "wait_for \<le> ?m * ?p" using assms(2) by (metis add.commute div_mult_mod_eq less_imp_le_nat mod_less_divisor
        mult.commute mult_Suc_right nat_add_left_cancel_le plus_1_eq_Suc)
    moreover have "wd_clock w ?k \<le> wd_clock w (Suc ?k)" using assms(1) by (simp add: monoD)
    ultimately have "?deadline \<le> wd_clock w (Suc (calls_made s1)) + ss_slept s1 + ?m * ?p" using k l(3) by simp
    then obtain q s2 where "await_lock c w path wait_for ?deadline lock s1 = Some (q, s2)" "calls_made s2 \<le> calls_made s1 + 1 + ?m"
        "lock_outcome c w ?deadline q s2"
      using await_lock_ends [where m = ?m and s = s1, OF assms(1)] by fastforce
    then show ?thesis using l(1,3) Inr k assms(3) by (auto simp: lock_waiting_def then_do_def now_def instant_add_def)
  qed
qed

text \<open>A clock that stands still while the program does not sleep.\<close>

definition still_world :: world where "still_world = sample_world\<lparr>wd_clock := \<lambda>_. 5\<rparr>"

theorem lock_waiting_ends_witness:
  "\<exists>r s'. lock_waiting sample_client still_world (ascii ''//t'') Lock_shared 6 sample_session = Some (r, s') \<and> calls_made s' \<le> 6"
proof -
  have "mono (wd_clock still_world)" by (simp add: still_world_def monoI)
  moreover have "0 < cl_poll_interval sample_client" by (simp add: sample_client_def)
  moreover have "wd_clock still_world (Suc (calls_made sample_session)) + ss_slept sample_session + 6 \<le> INSTANT_MAX"
    by (simp add: still_world_def sample_session_def calls_made_def INSTANT_MAX_def)
  ultimately obtain r s' where "lock_waiting sample_client still_world (ascii ''//t'') Lock_shared 6 sample_session = Some (r, s')"
      "calls_made s' \<le> calls_made sample_session + 3 + 6 div cl_poll_interval sample_client"
    using lock_waiting_ends [of still_world sample_client sample_session 6 "ascii ''//t''" Lock_shared] by blast
  then show ?thesis by (simp add: sample_client_def sample_session_def calls_made_def)
qed

end
