(* ===== verification/Client_Files.thy ===== *)
theory Client_Files
  imports Client_Cypress
begin

text \<open>
  Files, the file cache and raw commands of \<open>crates/ytsaurus-client/src/lib.rs\<close>. The contents of a local
  file, the MD5 of bytes in hexadecimal and the random draws of a nonce are given.
\<close>

section \<open>Files\<close>

definition write_file_parameters :: "bytes \<Rightarrow> bool \<Rightarrow> yson_value" where
  "write_file_parameters path compute_md5 =
     yson_map ([(ascii ''path'', yson_str path)] @ (if compute_md5 then [(ascii ''compute_md5'', yson_boolean True)] else []))"

definition write_file_inner :: "client \<Rightarrow> world \<Rightarrow> bytes \<Rightarrow> bytes \<Rightarrow> bool \<Rightarrow> unit effect" where
  "write_file_inner c w path contents compute_md5 =
     ignore (command c w Put ''write_file'' (write_file_parameters path compute_md5) (Some contents) Heavy)"

definition write_file :: "client \<Rightarrow> world \<Rightarrow> bytes \<Rightarrow> bytes \<Rightarrow> unit effect" where
  "write_file c w path contents = write_file_inner c w path contents False"

definition write_file_computing_md5 :: "client \<Rightarrow> world \<Rightarrow> bytes \<Rightarrow> bytes \<Rightarrow> unit effect" where
  "write_file_computing_md5 c w path contents = write_file_inner c w path contents True"

definition file_size :: "client \<Rightarrow> world \<Rightarrow> bytes \<Rightarrow> i64 effect" where
  "file_size c w path =
     attempt (get_node c w (path @ ascii ''/@uncompressed_data_size'')) (\<lambda>r. answer
       (case r of
          Inl e \<Rightarrow> Inl (Size_unreadable e)
        | Inr found \<Rightarrow> ok_or (as_i64 found) (Size_not_an_integer path (node found))))"

definition read_file :: "client \<Rightarrow> world \<Rightarrow> bytes \<Rightarrow> bytes effect" where
  "read_file c w path =
     then_do (command c w Get ''read_file'' (path_only path) None Heavy) (\<lambda>body.
     then_do (file_size c w path) (\<lambda>recorded. answer
       (if recorded \<noteq> of_nat (length body) then Inl (Size_mismatch path (sint recorded) (length body)) else Inr body)))"

definition read_file_streaming :: "client \<Rightarrow> world \<Rightarrow> bytes \<Rightarrow> body effect" where
  "read_file_streaming c w path = opened c w Get (ascii ''read_file'') (path_only path)"

definition upload_executable :: "client \<Rightarrow> world \<Rightarrow> bytes \<Rightarrow> bytes \<Rightarrow> unit effect" where
  "upload_executable c w remote contents =
     then_do (create_node c w (ascii ''file'') remote) (\<lambda>_.
     then_do (write_file c w remote contents) (\<lambda>_.
     set_attribute c w remote (ascii ''executable'') (yson_boolean True)))"

text \<open>A local file: its name, and its contents when it can be read.\<close>

definition local_file :: "bytes \<Rightarrow> bytes option \<Rightarrow> bytes effect" where
  "local_file path contents = answer (ok_or contents (Local_unreadable path))"

definition upload_worker :: "client \<Rightarrow> world \<Rightarrow> bytes \<Rightarrow> bytes option \<Rightarrow> bytes \<Rightarrow> unit effect" where
  "upload_worker c w path contents remote =
     then_do (local_file path contents) (\<lambda>data. upload_executable c w remote data)"

definition upload_current_exe :: "client \<Rightarrow> world \<Rightarrow> bytes option \<Rightarrow> bytes option \<Rightarrow> bytes \<Rightarrow> unit effect" where
  "upload_current_exe c w exe contents remote =
     (case exe of
        None \<Rightarrow> answer (Inl (Local_unreadable (ascii ''the running executable'')))
      | Some path \<Rightarrow>
          then_do (local_file path contents) (\<lambda>data.
            case check_worker_binary data of
              Inl reason \<Rightarrow> answer (Inl (Not_a_worker path reason))
            | Inr _ \<Rightarrow> upload_executable c w remote data))"

section \<open>The file cache\<close>

definition cached_path :: "bytes \<Rightarrow> string \<Rightarrow> command_error + bytes option" where
  "cached_path body name =
     and_then (strip_envelope body (ascii name)) (\<lambda>envelope.
     and_then (case node envelope of Map _ \<Rightarrow> field_of envelope (ascii ''path'') | _ \<Rightarrow> Inr envelope) (\<lambda>v.
       case node v of
         String bs \<Rightarrow> Inr (if bs \<noteq> [] then Some (from_utf8_lossy bs) else None)
       | Entity \<Rightarrow> Inr None
       | n \<Rightarrow> Inl (Cached_path_not_a_string (ascii name) n)))"

definition file_from_cache :: "client \<Rightarrow> world \<Rightarrow> bytes \<Rightarrow> bytes option effect" where
  "file_from_cache c w md5 =
     then_do (command c w Get ''get_file_from_cache''
       (yson_map [(ascii ''md5'', yson_str md5), (ascii ''cache_path'', yson_str (cl_file_cache c))]) None Freely) (\<lambda>body.
     answer (cached_path body ''get_file_from_cache''))"

definition put_file_to_cache :: "client \<Rightarrow> world \<Rightarrow> bytes \<Rightarrow> bytes \<Rightarrow> bytes effect" where
  "put_file_to_cache c w path md5 =
     then_do (command c w Post ''put_file_to_cache''
       (yson_map [(ascii ''path'', yson_str path), (ascii ''md5'', yson_str md5), (ascii ''cache_path'', yson_str (cl_file_cache c))])
       None WithMutationId) (\<lambda>body.
     answer (and_then (cached_path body ''put_file_to_cache'') (\<lambda>found. ok_or found No_cached_path)))"

definition ACCESS_DENIED :: int where "ACCESS_DENIED = 901"

definition UNCACHED_UPLOAD_DIR :: bytes where "UNCACHED_UPLOAD_DIR = ascii ''//tmp''"

definition denied :: "json_parser \<Rightarrow> command_error \<Rightarrow> string \<Rightarrow> bool" where
  "denied parse e name =
     (case e of
        Call_failed (Cluster failed code _ raw) \<Rightarrow>
          failed = ascii name \<and> (code = ACCESS_DENIED \<or> raw_contains_code parse raw [ACCESS_DENIED])
      | _ \<Rightarrow> False)"

datatype cached = Cached_at bytes | Cached_refused command_error

definition refused_or_reported :: "json_parser \<Rightarrow> command_error \<Rightarrow> command_error + cached" where
  "refused_or_reported parse e = (if denied parse e ''create'' then Inr (Cached_refused e) else Inl e)"

text \<open>A new mutation id printed, from two random words.\<close>

definition nonce :: "u64 \<times> u64 \<Rightarrow> bytes" where
  "nonce draws = mi_id (mutation_new (fst draws) (snd draws))"

definition staging_path :: "client \<Rightarrow> bytes \<Rightarrow> u64 \<times> u64 \<Rightarrow> bytes" where
  "staging_path c digest draws = cl_file_cache c @ ascii ''/staged_'' @ digest @ ascii ''_'' @ nonce draws"

definition handed_over :: "client \<Rightarrow> world \<Rightarrow> bytes \<Rightarrow> bytes \<Rightarrow> bytes \<Rightarrow> bytes effect" where
  "handed_over c w staging contents digest =
     then_do (write_file_computing_md5 c w staging contents) (\<lambda>_.
     then_do (set_attribute c w staging (ascii ''executable'') (yson_boolean True)) (\<lambda>_.
     put_file_to_cache c w staging digest))"

definition upload_into_cache :: "client \<Rightarrow> world \<Rightarrow> bytes \<Rightarrow> bytes \<Rightarrow> u64 \<times> u64 \<Rightarrow> cached effect" where
  "upload_into_cache c w contents digest draws =
     attempt (create_node c w (ascii ''map_node'') (cl_file_cache c)) (\<lambda>made.
       case made of
         Inl denial \<Rightarrow> answer (refused_or_reported (wd_parse w) denial)
       | Inr _ \<Rightarrow>
           (let staging = staging_path c digest draws
            in attempt (create_node c w (ascii ''file'') staging) (\<lambda>staged.
                 case staged of
                   Inl denial \<Rightarrow> answer (refused_or_reported (wd_parse w) denial)
                 | Inr _ \<Rightarrow>
                     attempt (handed_over c w staging contents digest) (\<lambda>cached.
                     attempt (remove_tree c w staging) (\<lambda>removed. answer
                       (case cached of
                          Inr path \<Rightarrow> and_then removed (\<lambda>_. Inr (Cached_at path))
                        | Inl e \<Rightarrow> if denied (wd_parse w) e ''put_file_to_cache'' then Inr (Cached_refused e) else Inl e))))))"

definition uncached_path :: "bytes \<Rightarrow> u64 \<times> u64 \<Rightarrow> bytes" where
  "uncached_path digest draws = UNCACHED_UPLOAD_DIR @ ascii ''/ytsaurus_rs_worker_'' @ digest @ ascii ''_'' @ nonce draws"

definition upload_uncached :: "client \<Rightarrow> world \<Rightarrow> bytes \<Rightarrow> bytes \<Rightarrow> u64 \<times> u64 \<Rightarrow> bytes effect" where
  "upload_uncached c w digest contents draws =
     then_do (upload_executable c w (uncached_path digest draws) contents) (\<lambda>_. answer (Inr (uncached_path digest draws)))"

record cached_file =
  cf_path :: bytes
  cf_name :: bytes
  cf_uploaded :: bool
  cf_cached :: bool

text \<open>\<open>file_name\<close> is the last component of the local path, if it has one.\<close>

definition upload_worker_cached ::
  "client \<Rightarrow> world \<Rightarrow> (bytes \<Rightarrow> bytes) \<Rightarrow> u64 \<times> u64 \<Rightarrow> u64 \<times> u64 \<Rightarrow> bytes \<Rightarrow> bytes option \<Rightarrow> bytes option \<Rightarrow> cached_file effect" where
  "upload_worker_cached c w md5 staging_draws uncached_draws path file_name contents =
     then_do (local_file path contents) (\<lambda>data.
       let name = (case file_name of Some n \<Rightarrow> n | None \<Rightarrow> ascii ''worker'');
           digest = md5 data
       in then_do (file_from_cache c w digest) (\<lambda>found.
            case found of
              Some p \<Rightarrow> answer (Inr \<lparr>cf_path = p, cf_name = name, cf_uploaded = False, cf_cached = True\<rparr>)
            | None \<Rightarrow>
                then_do (upload_into_cache c w data digest staging_draws) (\<lambda>cached.
                  case cached of
                    Cached_at p \<Rightarrow>
                      then_do (set_attribute c w p (ascii ''executable'') (yson_boolean True)) (\<lambda>_.
                        answer (Inr \<lparr>cf_path = p, cf_name = name, cf_uploaded = True, cf_cached = True\<rparr>))
                  | Cached_refused _ \<Rightarrow>
                      then_do (upload_uncached c w digest data uncached_draws) (\<lambda>p.
                        answer (Inr \<lparr>cf_path = p, cf_name = name, cf_uploaded = True, cf_cached = False\<rparr>)))))"

section \<open>Raw commands\<close>

definition refuse_body_on_get :: "http_method \<Rightarrow> bytes \<Rightarrow> bool \<Rightarrow> command_error + unit" where
  "refuse_body_on_get verb name has_body = (if has_body \<and> verb = Get then Inl (Get_with_body name) else Inr ())"

definition refused_command :: "command_refusal + unit \<Rightarrow> command_error + unit" where
  "refused_command r = (case r of Inl e \<Rightarrow> Inl (Command_refused e) | Inr _ \<Rightarrow> Inr ())"

definition raw_guards :: "bytes \<Rightarrow> yson_value \<Rightarrow> command_error + unit" where
  "raw_guards name params =
     and_then (refused_command (check_command_name name)) (\<lambda>_. refused_command (refuse_non_dict_parameters name params))"

definition raw_command_with ::
  "client \<Rightarrow> world \<Rightarrow> http_method \<Rightarrow> bytes \<Rightarrow> yson_value \<Rightarrow> bytes option \<Rightarrow> repeatable \<Rightarrow> mutation_id option \<Rightarrow> bytes effect" where
  "raw_command_with c w verb name params payload r given =
     then_do (answer (and_then (raw_guards name params) (\<lambda>_. refuse_body_on_get verb name (payload \<noteq> None)))) (\<lambda>_.
     command_with c w verb name params payload r given)"

definition raw_command :: "client \<Rightarrow> world \<Rightarrow> http_method \<Rightarrow> bytes \<Rightarrow> yson_value \<Rightarrow> bytes option \<Rightarrow> bytes effect" where
  "raw_command c w verb name params payload = raw_command_with c w verb name params payload Never None"

definition raw_command_streaming :: "client \<Rightarrow> world \<Rightarrow> http_method \<Rightarrow> bytes \<Rightarrow> yson_value \<Rightarrow> body effect" where
  "raw_command_streaming c w verb name params =
     then_do (answer (raw_guards name params)) (\<lambda>_. opened c w verb name params)"

definition raw_command_upload :: "client \<Rightarrow> world \<Rightarrow> http_method \<Rightarrow> bytes \<Rightarrow> yson_value \<Rightarrow> bytes \<Rightarrow> bytes effect" where
  "raw_command_upload c w verb name params content =
     then_do (answer (and_then (raw_guards name params) (\<lambda>_. refuse_body_on_get verb name True))) (\<lambda>_.
     uploaded c w verb name params content)"

section \<open>Lemmas\<close>

text \<open>A command as it was asked for, one that went well, and an effect that is exactly that command. An effect
  that fails although the command went well fails with an error of its own.\<close>

type_synonym message = "string \<times> yson_value \<times> bytes option"

fun is_message :: "message \<Rightarrow> sent \<Rightarrow> bool" where
  "is_message (name, parameters, payload) m =
     (sn_command m = ascii name \<and> sn_parameters m = parameters \<and> sn_payload m = payload)"

definition went :: "sent \<Rightarrow> bool" where "went m = (sn_error m = None)"

definition sends :: "'a effect \<Rightarrow> message \<Rightarrow> session \<Rightarrow> command_error + 'a \<Rightarrow> session \<Rightarrow> sent \<Rightarrow> bool" where
  "sends m msg s r s' x =
     (m s = Some (r, s') \<and> ss_sent s' = ss_sent s @ [x] \<and> is_message msg x \<and>
        (\<forall>e. sn_error x = Some e \<longrightarrow> r = Inl (Call_failed e)) \<and> (\<forall>e. r = Inl e \<longrightarrow> error_is_of (fst msg) e))"

lemma ignore_sends:
  assumes "is_dict parameters"
  obtains r s' x where "sends (ignore (command c w verb name parameters payload rep)) (name, parameters, payload) s r s' x"
    "went x \<longleftrightarrow> (\<exists>u. r = Inr u)"
proof -
  obtain r s' m where m: "command c w verb name parameters payload rep s = Some (r, s')" "ss_sent s' = ss_sent s @ [m]"
    "message_of name parameters m" "sn_payload m = payload"
    "case r of Inl e \<Rightarrow> error_is_of name e \<and> (\<exists>e'. sn_error m = Some e' \<and> e = Call_failed e') | Inr _ \<Rightarrow> sn_error m = None"
    by (rule command_logged [OF assms])
  define q where "q = (case r of Inl e \<Rightarrow> Inl e | Inr _ \<Rightarrow> Inr ())"
  have "ignore (command c w verb name parameters payload rep) s = Some (q, s')"
    using m(1) by (cases r) (simp_all add: ignore_def then_do_def answer_def q_def)
  then have "sends (ignore (command c w verb name parameters payload rep)) (name, parameters, payload) s q s' m" "went m \<longleftrightarrow> (\<exists>u. q = Inr u)"
    using m by (cases r; auto simp: sends_def message_of_def went_def q_def)+
  then show thesis by (rule that)
qed

lemma denied_is_of:
  assumes "denied parse e name" "error_is_of other e"
  shows "take (length other) name = other"
proof -
  have "take (length other) (ascii name) = ascii other"
    using assms by (auto simp: denied_def error_is_of_def error_of_def split: command_error.splits client_error.splits)
  then have "ascii (take (length other) name) = ascii other" by (simp add: ascii_def take_map)
  then show ?thesis by (simp only: ascii_eq_iff)
qed

text \<open>
  The commands of an upload into the cache, before the removal of the staging node. A trace of it is the
  start of that list, up to the first that failed or all of it, and after the two creations, if both went
  well, the removal.
\<close>

definition staging_removal :: "bytes \<Rightarrow> message" where
  "staging_removal staging = (''remove'',
     yson_map [(ascii ''path'', yson_str staging), (ascii ''recursive'', yson_boolean True), (ascii ''force'', yson_boolean True)], None)"

definition cache_upload_plan :: "client \<Rightarrow> bytes \<Rightarrow> bytes \<Rightarrow> bytes \<Rightarrow> message list" where
  "cache_upload_plan c staging contents digest =
     [(''create'', create_parameters (ascii ''map_node'') (cl_file_cache c), None),
      (''create'', create_parameters (ascii ''file'') staging, None),
      (''write_file'', write_file_parameters staging True, Some contents),
      (''set'', yson_map [(ascii ''path'', yson_str (staging @ ascii ''/@executable'')), (ascii ''input_format'', binary_yson_format)],
         Some [0x05]),
      (''put_file_to_cache'', yson_map [(ascii ''path'', yson_str staging), (ascii ''md5'', yson_str digest),
         (ascii ''cache_path'', yson_str (cl_file_cache c))], None)]"

definition cache_upload_trace ::
  "json_parser \<Rightarrow> client \<Rightarrow> bytes \<Rightarrow> bytes \<Rightarrow> bytes \<Rightarrow> command_error + cached \<Rightarrow> sent list \<Rightarrow> bool" where
  "cache_upload_trace parse c staging contents digest r ms =
     (\<exists>made. made \<noteq> [] \<and> list_all2 is_message (take (length made) (cache_upload_plan c staging contents digest)) made \<and>
        list_all went (butlast made) \<and> (length made = 5 \<or> \<not> went (last made)) \<and>
        (if length made \<le> 2
         then ms = made \<and> (\<exists>e. sn_error (last made) = Some e \<and>
           r = (if denied parse (Call_failed e) ''create'' then Inr (Cached_refused (Call_failed e)) else Inl (Call_failed e)))
         else \<exists>removal. ms = made @ [removal] \<and> is_message (staging_removal staging) removal \<and>
           (case r of
              Inr (Cached_at _) \<Rightarrow> length made = 5 \<and> list_all went ms
            | Inr (Cached_refused e) \<Rightarrow> length made = 5 \<and> denied parse e ''put_file_to_cache''
            | Inl e \<Rightarrow> \<not> denied parse e ''put_file_to_cache'')))"

lemma cached_path_error: "cached_path body name \<noteq> Inl (Call_failed e)"
  by (auto simp: cached_path_def strip_envelope_def field_of_def and_then_def split: sum.splits yson_node.splits option.splits)

lemma put_sends:
  obtains r s' x where "sends (put_file_to_cache c w path md5) (''put_file_to_cache'', yson_map [(ascii ''path'', yson_str path),
      (ascii ''md5'', yson_str md5), (ascii ''cache_path'', yson_str (cl_file_cache c))], None) s r s' x"
proof -
  let ?p = "yson_map [(ascii ''path'', yson_str path), (ascii ''md5'', yson_str md5), (ascii ''cache_path'', yson_str (cl_file_cache c))]"
  obtain r s' m where m: "command c w Post ''put_file_to_cache'' ?p None WithMutationId s = Some (r, s')" "ss_sent s' = ss_sent s @ [m]"
    "message_of ''put_file_to_cache'' ?p m" "sn_payload m = None"
    "case r of Inl e \<Rightarrow> error_is_of ''put_file_to_cache'' e \<and> (\<exists>e'. sn_error m = Some e' \<and> e = Call_failed e') | Inr _ \<Rightarrow> sn_error m = None"
    by (rule command_logged [of ?p c w Post "''put_file_to_cache''" None WithMutationId s]) auto
  define q where "q = and_then r (\<lambda>body. and_then (cached_path body ''put_file_to_cache'') (\<lambda>found. ok_or found No_cached_path))"
  have "put_file_to_cache c w path md5 s = Some (q, s')"
    using m(1) by (cases r) (simp_all add: put_file_to_cache_def then_do_def answer_def q_def)
  moreover have "error_is_of ''put_file_to_cache'' e" if "r = Inr body" "q = Inl e" for body e
  proof -
    have "\<nexists>e'. e = Call_failed e'"
      using that cached_path_error by (auto simp: q_def and_then_def ok_or_def split: sum.splits option.splits)
    then show ?thesis by (simp add: error_is_of_def split: command_error.split)
  qed
  ultimately have "sends (put_file_to_cache c w path md5) (''put_file_to_cache'', ?p, None) s q s' m"
    using m by (cases r) (auto simp: sends_def message_of_def q_def)
  then show thesis by (rule that)
qed

text \<open>The outcome of the handover: its commands are the rest of the plan, up to the first that failed.\<close>

definition handover_trace :: "json_parser \<Rightarrow> message list \<Rightarrow> command_error + bytes \<Rightarrow> sent list \<Rightarrow> bool" where
  "handover_trace parse plan r ms =
     (ms \<noteq> [] \<and> list_all2 is_message (take (length ms) plan) ms \<and> list_all went (butlast ms) \<and> (length ms = 3 \<or> \<not> went (last ms)) \<and>
      (case r of
         Inr _ \<Rightarrow> length ms = 3 \<and> went (last ms)
       | Inl e \<Rightarrow> denied parse e ''put_file_to_cache'' \<longrightarrow> length ms = 3))"

lemma set_executable: "set_attribute c w path (ascii ''executable'') (yson_boolean True) =
  ignore (command c w Put ''set''
    (yson_map [(ascii ''path'', yson_str (path @ ascii ''/@executable'')), (ascii ''input_format'', binary_yson_format)])
    (Some [0x05]) WithMutationId)"
proof -
  have "to_vec fmt (value_serde (yson_boolean True)) Binary = Inr [0x05]" for fmt
    by (simp add: to_vec_def yson_boolean_def push_def with_buffer_def write_bool_def)
  then show ?thesis by (simp add: set_attribute_def ascii_def)
qed

lemma not_denied_as: "take (length other) name \<noteq> other \<Longrightarrow> error_is_of other e \<Longrightarrow> \<not> denied parse e name"
  using denied_is_of by blast

lemma handed_over_trace:
  obtains r s' ms where "handed_over c w staging contents digest s = Some (r, s')" "ss_sent s' = ss_sent s @ ms"
    "handover_trace parse (drop 2 (cache_upload_plan c staging contents digest)) r ms"
proof -
  note plan = cache_upload_plan_def and run = handed_over_def write_file_computing_md5_def write_file_inner_def set_executable then_do_def
  obtain r1 s1 x1 where 1: "sends (ignore (command c w Put ''write_file'' (write_file_parameters staging True) (Some contents) Heavy))
      (''write_file'', write_file_parameters staging True, Some contents) s r1 s1 x1" "went x1 \<longleftrightarrow> (\<exists>u. r1 = Inr u)"
    by (rule ignore_sends [of "write_file_parameters staging True"]) (simp add: write_file_parameters_def)
  show thesis
  proof (cases r1)
    case (Inl e)
    then show thesis using 1 not_denied_as [of "''write_file''" "''put_file_to_cache''" e parse]
      by (intro that [of "Inl e" s1 "[x1]"]) (auto simp: sends_def run handover_trace_def plan)
  next
    case w: (Inr u)
    let ?p = "yson_map [(ascii ''path'', yson_str (staging @ ascii ''/@executable'')), (ascii ''input_format'', binary_yson_format)]"
    obtain r2 s2 x2 where 2: "sends (ignore (command c w Put ''set'' ?p (Some [0x05]) WithMutationId)) (''set'', ?p, Some [0x05]) s1 r2 s2 x2"
        "went x2 \<longleftrightarrow> (\<exists>u. r2 = Inr u)"
      by (rule ignore_sends [of ?p]) simp
    show thesis
    proof (cases r2)
      case (Inl e)
      then show thesis using 1 2 w not_denied_as [of "''set''" "''put_file_to_cache''" e parse]
        by (intro that [of "Inl e" s2 "[x1, x2]"]) (auto simp: sends_def run handover_trace_def plan)
    next
      case a: (Inr u2)
      obtain r3 s3 x3 where 3: "sends (put_file_to_cache c w staging digest) (''put_file_to_cache'', yson_map
          [(ascii ''path'', yson_str staging), (ascii ''md5'', yson_str digest), (ascii ''cache_path'', yson_str (cl_file_cache c))], None)
          s2 r3 s3 x3"
        by (rule put_sends)
      then have "went x3" if "r3 = Inr path" for path using that by (auto simp: sends_def went_def)
      then show thesis using 1 2 3 w a
        by (intro that [of r3 s3 "[x1, x2, x3]"]) (auto simp: sends_def run handover_trace_def plan split: sum.split)
    qed
  qed
qed

lemma cache_upload_trace_full:
  assumes "went x1" "went x2" "handover_trace parse (drop 2 (cache_upload_plan c staging contents digest)) r ms"
    and "is_message (staging_removal staging) removal"
    and "list_all2 is_message (take 2 (cache_upload_plan c staging contents digest)) [x1, x2]"
    and "went removal \<longleftrightarrow> (\<exists>u. removed = Inr u)" "\<And>e. removed = Inl e \<Longrightarrow> \<not> denied parse e ''put_file_to_cache''"
  shows "cache_upload_trace parse c staging contents digest
    (case r of Inr path \<Rightarrow> and_then removed (\<lambda>_. Inr (Cached_at path))
     | Inl e \<Rightarrow> if denied parse e ''put_file_to_cache'' then Inr (Cached_refused e) else Inl e) (x1 # x2 # ms @ [removal])"
proof -
  let ?plan = "cache_upload_plan c staging contents digest"
  have ms: "ms \<noteq> []" "list_all2 is_message (take (length ms) (drop 2 ?plan)) ms" "list_all went (butlast ms)" "length ms = 3 \<or> \<not> went (last ms)"
    using assms(3) by (simp_all add: handover_trace_def)
  have "take (length (x1 # x2 # ms)) ?plan = take 2 ?plan @ take (length ms) (drop 2 ?plan)"
    by (simp add: cache_upload_plan_def)
  then have plan: "list_all2 is_message (take (length (x1 # x2 # ms)) ?plan) (x1 # x2 # ms)"
    using list_all2_appendI [OF assms(5) ms(2)] by simp
  have all: "list_all went ms" if "length ms = 3" "went (last ms)"
  proof -
    have "list_all went (butlast ms @ [last ms])" using ms(3) that(2) by simp
    then show ?thesis using ms(1) by simp
  qed
  show ?thesis
    unfolding cache_upload_trace_def
  proof (intro exI [of _ "x1 # x2 # ms"] conjI)
    show "list_all went (butlast (x1 # x2 # ms))" using assms(1,2) ms(1,3) by simp
    show "length (x1 # x2 # ms) = 5 \<or> \<not> went (last (x1 # x2 # ms))" using ms(1,4) by auto
  qed (use plan ms(1) assms all in \<open>auto simp: handover_trace_def and_then_def Let_def split: sum.splits\<close>)
qed

section \<open>Properties\<close>

text \<open>C15: an upload into the cache cleans up after itself. It always comes to an outcome, and what it sends
  is the plan: make the cache directory, make the staging node in it, write the file into that node,
  mark it executable, hand it over, each only when the one before went well; and once the staging
  node was made, the last command sent removes that node, whatever failed in between. The file is
  reported as cached only when all of these, the removal included, went well; and the cache is
  reported as refusing only when the cluster denied the creation of the cache directory or of the
  staging node, or the handover, never when a command on the new node failed.\<close>

theorem cache_upload_cleans_up:
  "\<exists>r s' ms. upload_into_cache c w contents digest draws s = Some (r, s') \<and> ss_sent s' = ss_sent s @ ms \<and>
     cache_upload_trace (wd_parse w) c (staging_path c digest draws) contents digest r ms"
proof -
  let ?staging = "staging_path c digest draws" and ?parse = "wd_parse w"
  let ?upload = "upload_into_cache c w contents digest draws s" and ?plan = "cache_upload_plan c (staging_path c digest draws) contents digest"
  note run = upload_into_cache_def attempt_def Let_def create_node_def answer_def refused_or_reported_def
  have dict: "is_dict (create_parameters kind path)" for kind path by (simp add: create_parameters_def)
  obtain r1 s1 x1 where 1: "sends (ignore (command c w Post ''create'' (create_parameters (ascii ''map_node'') (cl_file_cache c)) None
      WithMutationId)) (''create'', create_parameters (ascii ''map_node'') (cl_file_cache c), None) s r1 s1 x1" "went x1 \<longleftrightarrow> (\<exists>u. r1 = Inr u)"
    by (rule ignore_sends [OF dict])
  obtain r2 s2 x2 where 2: "sends (ignore (command c w Post ''create'' (create_parameters (ascii ''file'') ?staging) None
      WithMutationId)) (''create'', create_parameters (ascii ''file'') ?staging, None) s1 r2 s2 x2" "went x2 \<longleftrightarrow> (\<exists>u. r2 = Inr u)"
    by (rule ignore_sends [OF dict])
  obtain r3 s3 ms where 3: "handed_over c w ?staging contents digest s2 = Some (r3, s3)" "ss_sent s3 = ss_sent s2 @ ms"
      "handover_trace ?parse (drop 2 ?plan) r3 ms"
    by (rule handed_over_trace)
  let ?p = "yson_map [(ascii ''path'', yson_str ?staging), (ascii ''recursive'', yson_boolean True), (ascii ''force'', yson_boolean True)]"
  obtain r4 s4 x4 where 4: "sends (ignore (command c w Post ''remove'' ?p None WithMutationId)) (staging_removal ?staging) s3 r4 s4 x4"
      "went x4 \<longleftrightarrow> (\<exists>u. r4 = Inr u)"
    unfolding staging_removal_def by (rule ignore_sends [of ?p]) simp
  have removal: "remove_tree c w ?staging s3 = Some (r4, s4)" "ss_sent s4 = ss_sent s3 @ [x4]" "is_message (staging_removal ?staging) x4"
      "\<And>e. r4 = Inl e \<Longrightarrow> \<not> denied ?parse e ''put_file_to_cache''"
    using 4 not_denied_as [of "''remove''" "''put_file_to_cache''" _ ?parse]
    by (auto simp: sends_def remove_tree_def remove_with_def staging_removal_def)
  show ?thesis
  proof (cases "went x1 \<and> went x2")
    case True
    define r where "r = (case r3 of Inr path \<Rightarrow> and_then r4 (\<lambda>_. Inr (Cached_at path))
      | Inl e \<Rightarrow> if denied ?parse e ''put_file_to_cache'' then Inr (Cached_refused e) else Inl e)"
    have "?upload = Some (r, s4)" using 1 2 3(1) removal(1) True by (auto simp: run r_def sends_def)
    moreover have "cache_upload_trace ?parse c ?staging contents digest r (x1 # x2 # ms @ [x4])"
      using cache_upload_trace_full [OF _ _ 3(3) removal(3), of x1 x2 r4] 1 2 4(2) removal(4) True
      unfolding r_def by (simp add: sends_def cache_upload_plan_def)
    moreover have "ss_sent s4 = ss_sent s @ (x1 # x2 # ms @ [x4])" using 1 2 3(2) removal(2) by (simp add: sends_def)
    ultimately show ?thesis by blast
  next
    case False
    show ?thesis
    proof (cases "went x1")
      case True
      then obtain e where e: "sn_error x2 = Some e" using False by (auto simp: went_def)
      then have "?upload = Some (if denied ?parse (Call_failed e) ''create'' then Inr (Cached_refused (Call_failed e)) else Inl (Call_failed e), s2)"
        using 1 2 True by (auto simp: run sends_def)
      moreover have "cache_upload_trace ?parse c ?staging contents digest
          (if denied ?parse (Call_failed e) ''create'' then Inr (Cached_refused (Call_failed e)) else Inl (Call_failed e)) [x1, x2]"
        using 1 2 True e unfolding cache_upload_trace_def
        by (intro exI [of _ "[x1, x2]"]) (simp add: sends_def cache_upload_plan_def went_def)
      ultimately show ?thesis using 1 2 by (auto simp: sends_def)
    next
      case no: False
      then obtain e where e: "sn_error x1 = Some e" by (auto simp: went_def)
      then have "?upload = Some (if denied ?parse (Call_failed e) ''create'' then Inr (Cached_refused (Call_failed e)) else Inl (Call_failed e), s1)"
        using 1 by (auto simp: run sends_def)
      moreover have "cache_upload_trace ?parse c ?staging contents digest
          (if denied ?parse (Call_failed e) ''create'' then Inr (Cached_refused (Call_failed e)) else Inl (Call_failed e)) [x1]"
        using 1 e unfolding cache_upload_trace_def
        by (intro exI [of _ "[x1]"]) (simp add: sends_def cache_upload_plan_def went_def)
      ultimately show ?thesis using 1 by (auto simp: sends_def)
    qed
  qed
qed

end
