(* ===== verification/Client_Transaction.thy ===== *)
theory Client_Transaction
  imports Client_Cypress Transition
begin

text \<open>
  \<open>crates/ytsaurus-client/src/transaction.rs\<close>: the handle of a transaction, what it sends at its end, and
  the thread that keeps the transaction alive. The handle's commands are those of a session; the
  thread is a state machine of its own, whose steps interleave with a request to stop. Durations and
  instants are nanoseconds. Whether the thread could be spawned is given.
\<close>

section \<open>Durations\<close>

definition SECOND :: nat where "SECOND = 1000000000"

definition DEFAULT_TRANSACTION_TIMEOUT :: nat where "DEFAULT_TRANSACTION_TIMEOUT = 30 * SECOND"
definition DROP_ABORT_TIMEOUT :: nat where "DROP_ABORT_TIMEOUT = 5 * SECOND"

definition ping_interval :: "nat \<Rightarrow> nat" where
  "ping_interval timeout = max (timeout div 3) SECOND"

definition first_ping_in :: "nat \<Rightarrow> nat \<Rightarrow> nat" where
  "first_ping_in interval spent = interval - spent"

definition ping_request_timeout :: "nat \<Rightarrow> nat" where
  "ping_request_timeout interval = min (max (interval div 2) SECOND) DEFAULT_TIMEOUT"

section \<open>The handle\<close>

datatype origin_kind = Started | Attached

text \<open>What a spawned thread was given: its client, the id it pings, and its two waits.\<close>

record keep_alive =
  ka_client :: client
  ka_id :: bytes
  ka_first :: nat
  ka_interval :: nat

record transaction =
  tx_client :: client
  tx_id :: bytes
  tx_done :: bool
  tx_keep_alive :: "keep_alive option"
  tx_origin :: origin_kind

definition id_parameters :: "bytes \<Rightarrow> yson_value" where
  "id_parameters i = yson_map [(ascii ''transaction_id'', yson_str i)]"

definition ping_by_id :: "client \<Rightarrow> world \<Rightarrow> bytes \<Rightarrow> unit effect" where
  "ping_by_id c w i = ignore (command c w Post ''ping_transaction'' (id_parameters i) None Freely)"

definition commit_by_id :: "client \<Rightarrow> world \<Rightarrow> bytes \<Rightarrow> unit effect" where
  "commit_by_id c w i = ignore (command c w Post ''commit_transaction'' (id_parameters i) None WithMutationId)"

definition abort_by_id :: "client \<Rightarrow> world \<Rightarrow> bytes \<Rightarrow> unit effect" where
  "abort_by_id c w i = ignore (command c w Post ''abort_transaction'' (id_parameters i) None Freely)"

definition once_within :: "process \<Rightarrow> nat \<Rightarrow> client \<Rightarrow> client" where
  "once_within pr timeout c = with_timeout pr timeout (with_retries policy_none c)"

definition held :: "process \<Rightarrow> bool \<Rightarrow> client \<Rightarrow> bytes \<Rightarrow> nat \<Rightarrow> origin_kind \<Rightarrow> nat \<Rightarrow> transaction" where
  "held pr spawned c i timeout origin_of spent =
     (let bound = with_transaction i c; interval = ping_interval timeout
      in \<lparr>tx_client = bound, tx_id = i, tx_done = False,
          tx_keep_alive = (if spawned
            then Some \<lparr>ka_client = once_within pr (ping_request_timeout interval) bound, ka_id = i,
                       ka_first = first_ping_in interval spent, ka_interval = interval\<rparr>
            else None),
          tx_origin = origin_of\<rparr>)"

text \<open>A cluster error rewritten as another command's, with a text in front of its message.\<close>

fun renamed :: "string \<Rightarrow> bytes \<Rightarrow> command_error \<Rightarrow> command_error" where
  "renamed name context (Call_failed (Cluster _ code message raw)) =
     Call_failed (Cluster (ascii name) code (context @ ascii '': '' @ message) raw)"
| "renamed name context e = e"

definition attach_failed :: "bytes \<Rightarrow> command_error \<Rightarrow> command_error" where
  "attach_failed i = renamed ''attach_transaction'' (ascii ''cannot attach to transaction '' @ i)"

text \<open>\<open>shown\<close> is the duration as it is printed.\<close>

definition start_failed :: "(nat \<Rightarrow> bytes) \<Rightarrow> bytes \<Rightarrow> nat \<Rightarrow> command_error \<Rightarrow> command_error" where
  "start_failed shown i spent = renamed ''start_transaction''
     (ascii ''transaction '' @ i @ ascii '' did not answer a ping '' @ shown spent @ ascii '' after its start was sent'')"

definition attached_timeout :: "bytes \<Rightarrow> yson_value \<Rightarrow> command_error + nat" where
  "attached_timeout i v =
     (case node v of
        Int64 millis \<Rightarrow> if 0 <s millis then Inr (unat millis * 1000000) else Inl (Timeout_not_positive i (node v))
      | Uint64 millis \<Rightarrow> if 0 < millis then Inr (unat millis * 1000000) else Inl (Timeout_not_positive i (node v))
      | _ \<Rightarrow> Inl (Timeout_not_positive i (node v)))"

section \<open>How a transaction ends\<close>

text \<open>An operation on a handle gives its answer with the handle after it. Stopping the pings raises the
  thread's flag and gives the thread up.\<close>

definition stop_pinging :: "transaction \<Rightarrow> transaction" where
  "stop_pinging tx = tx\<lparr>tx_keep_alive := None\<rparr>"

definition finish_with :: "world \<Rightarrow> string \<Rightarrow> transaction \<Rightarrow> session \<Rightarrow> ((command_error + unit) \<times> transaction \<times> session) option" where
  "finish_with w name tx s =
     (if tx_done tx then Some (Inr (), stop_pinging tx, s)
      else map_option (\<lambda>(r, s').
             (case r of Inl e \<Rightarrow> Inl e | Inr _ \<Rightarrow> Inr (),
              stop_pinging (tx\<lparr>tx_done := (\<exists>body. r = Inr body) \<or> name = ''abort_transaction''\<rparr>), s'))
            (command (tx_client tx) w Post name (id_parameters (tx_id tx)) None WithMutationId s))"

definition dropped :: "process \<Rightarrow> world \<Rightarrow> transaction \<Rightarrow> session \<Rightarrow> (transaction \<times> session) option" where
  "dropped pr w tx s =
     (if tx_done tx \<or> tx_origin tx = Attached then Some (stop_pinging tx, s)
      else map_option snd
             (finish_with w ''abort_transaction'' (tx\<lparr>tx_client := once_within pr DROP_ABORT_TIMEOUT (tx_client tx)\<rparr>) s))"

text \<open>The operations that consume the handle, which is dropped when they return.\<close>

definition consumed :: "process \<Rightarrow> world \<Rightarrow> string \<Rightarrow> transaction \<Rightarrow> unit effect" where
  "consumed pr w name tx s =
     Option.bind (finish_with w name tx s) (\<lambda>(r, tx', s').
       map_option (\<lambda>(_, s''). (r, s'')) (dropped pr w tx' s'))"

definition commit :: "process \<Rightarrow> world \<Rightarrow> transaction \<Rightarrow> unit effect" where
  "commit pr w tx = consumed pr w ''commit_transaction'' tx"

definition abort :: "process \<Rightarrow> world \<Rightarrow> transaction \<Rightarrow> unit effect" where
  "abort pr w tx = consumed pr w ''abort_transaction'' tx"

definition detach :: "process \<Rightarrow> world \<Rightarrow> transaction \<Rightarrow> bytes effect" where
  "detach pr w tx s = map_option (\<lambda>(_, s'). (Inr (tx_id tx), s')) (dropped pr w (tx\<lparr>tx_done := True, tx_keep_alive := None\<rparr>) s)"

definition ping :: "world \<Rightarrow> transaction \<Rightarrow> unit effect" where
  "ping w tx = ping_by_id (tx_client tx) w (tx_id tx)"

section \<open>How a transaction begins\<close>

definition start_parameters :: "nat \<Rightarrow> yson_value" where
  "start_parameters timeout =
     (let millis = timeout div 1000000
      in yson_map [(ascii ''timeout'', yson_int (if millis < 2 ^ 63 then of_nat millis else 2 ^ 63 - 1))])"

definition start :: "process \<Rightarrow> (nat \<Rightarrow> bytes) \<Rightarrow> bool \<Rightarrow> client \<Rightarrow> world \<Rightarrow> nat \<Rightarrow> transaction effect" where
  "start pr shown spawned c w timeout s =
     then_do (command c w Post ''start_transaction'' (start_parameters timeout) None WithMutationId) (\<lambda>body s1.
       let spent = now w s1 - now w s
       in then_do (answer (value_field body ''transaction_id'')) (\<lambda>v.
            case node v of
              String bs \<Rightarrow>
                (let i = from_utf8_lossy bs
                 in if spent < ping_interval timeout then answer (Inr (held pr spawned c i timeout Started spent))
                    else (let tx = held pr spawned c i timeout Started 0
                          in attempt (ping w tx) (\<lambda>pinged s2.
                               case pinged of
                                 Inr _ \<Rightarrow> Some (Inr tx, s2)
                               | Inl e \<Rightarrow> map_option (\<lambda>(_, s3). (Inl (start_failed shown i spent e), s3)) (dropped pr w tx s2))))
            | n \<Rightarrow> answer (Inl (Not_a_string (ascii ''start_transaction'') (ascii ''transaction_id'') n))) s1) s"

definition attach :: "process \<Rightarrow> bool \<Rightarrow> client \<Rightarrow> world \<Rightarrow> bytes \<Rightarrow> transaction effect" where
  "attach pr spawned c w i =
     attempt (get_node c w (ascii ''#'' @ i @ ascii ''/@timeout'')) (\<lambda>found.
       case found of
         Inl e \<Rightarrow> answer (Inl (attach_failed i e))
       | Inr v \<Rightarrow>
           then_do (answer (attached_timeout i v)) (\<lambda>timeout.
           attempt (ping_by_id c w i) (\<lambda>pinged.
             answer (case pinged of
                       Inl e \<Rightarrow> Inl (attach_failed i e)
                     | Inr _ \<Rightarrow> Inr (held pr spawned c i timeout Attached 0)))))"

definition start_transaction :: "process \<Rightarrow> (nat \<Rightarrow> bytes) \<Rightarrow> bool \<Rightarrow> client \<Rightarrow> world \<Rightarrow> transaction effect" where
  "start_transaction pr shown spawned c w = start pr shown spawned c w DEFAULT_TRANSACTION_TIMEOUT"

section \<open>The thread that keeps a transaction alive\<close>

fun transaction_is_gone :: "command_error \<Rightarrow> bool" where
  "transaction_is_gone (Call_failed (Cluster _ code _ raw)) =
     (code = 11000 \<or> str_contains raw (ascii ''No such transaction'') \<or> str_contains raw (ascii ''has expired or was aborted''))"
| "transaction_is_gone _ = False"

text \<open>
  The thread is about to look at its flag, or asleep, or in a request, or over. \<open>pg_wait\<close> is the wait it
  sleeps next. Beside what the thread has, a state keeps the time, the times at which it began a ping,
  and the last answer.
\<close>

datatype pinger_phase = Checking | Asleep | Pinging | Over

record pinger =
  pg_phase :: pinger_phase
  pg_stop :: bool
  pg_lost :: bool
  pg_wait :: nat
  pg_now :: nat
  pg_pings :: "nat list"
  pg_last :: "(command_error + unit) option"

text \<open>The steps: the flag is raised from outside, the thread looks at it, its sleep ends after some time, no
  longer than the wait, its request is answered after some time, no longer than its budget. Time passes
  in the last two only.\<close>

datatype pinger_action = Raise | Look | Wake nat | Answered nat "command_error + unit"

fun pinger_step :: "nat \<Rightarrow> nat \<Rightarrow> pinger_action \<Rightarrow> pinger \<Rightarrow> pinger option" where
  "pinger_step interval budget Raise s = Some (s\<lparr>pg_stop := True\<rparr>)"
| "pinger_step interval budget Look s =
     (if pg_phase s \<noteq> Checking then None
      else Some (s\<lparr>pg_phase := if pg_stop s then Over else Asleep\<rparr>))"
| "pinger_step interval budget (Wake elapsed) s =
     (if pg_phase s \<noteq> Asleep \<or> pg_wait s < elapsed then None
      else let s = s\<lparr>pg_now := pg_now s + elapsed\<rparr>
           in Some (if pg_stop s then s\<lparr>pg_phase := Over\<rparr>
                    else s\<lparr>pg_phase := Pinging, pg_wait := interval, pg_pings := pg_pings s @ [pg_now s]\<rparr>))"
| "pinger_step interval budget (Answered elapsed r) s =
     (if pg_phase s \<noteq> Pinging \<or> budget < elapsed then None
      else let s = s\<lparr>pg_now := pg_now s + elapsed, pg_last := Some r\<rparr>
           in Some (case r of
                Inl e \<Rightarrow> if transaction_is_gone e then s\<lparr>pg_phase := Over, pg_lost := True\<rparr> else s\<lparr>pg_phase := Checking\<rparr>
              | Inr _ \<Rightarrow> s\<lparr>pg_phase := Checking\<rparr>))"

definition pinger_start :: "nat \<Rightarrow> pinger" where
  "pinger_start first = \<lparr>pg_phase = Checking, pg_stop = False, pg_lost = False, pg_wait = first, pg_now = 0,
     pg_pings = [], pg_last = None\<rparr>"

text \<open>Whether the handle knows the transaction lost: what its thread says, if it still has one.\<close>

definition is_lost :: "transaction \<Rightarrow> pinger \<Rightarrow> bool" where
  "is_lost tx s = (tx_keep_alive tx \<noteq> None \<and> pg_lost s)"

definition keep_alive_step :: "keep_alive \<Rightarrow> pinger_action \<Rightarrow> pinger \<Rightarrow> pinger option" where
  "keep_alive_step k = pinger_step (ka_interval k) (tr_timeout (cl_transport (ka_client k)))"

inductive pinger_reach :: "keep_alive \<Rightarrow> pinger \<Rightarrow> bool" for k where
  begun: "pinger_reach k (pinger_start (ka_first k))"
| stepped: "pinger_reach k s \<Longrightarrow> keep_alive_step k a s = Some s' \<Longrightarrow> pinger_reach k s'"

inductive_cases pinger_reach_cases: "pinger_reach k s"

interpretation pinging: state_machine "pinger_start (ka_first k)" "keep_alive_step k" "pinger_reach k" for k
proof unfold_locales
  fix s
  assume "pinger_reach k s"
  then show "s = pinger_start (ka_first k) \<or> (\<exists>s0 a. pinger_reach k s0 \<and> keep_alive_step k a s0 = Some s)"
    by (rule pinger_reach_cases) blast+
next
  fix s P
  assume "pinger_reach k s" "P (pinger_start (ka_first k))"
    "\<And>s a s'. pinger_reach k s \<Longrightarrow> P s \<Longrightarrow> keep_alive_step k a s = Some s' \<Longrightarrow> P s'"
  then show "P s" by (induction rule: pinger_reach.induct) blast+
qed (auto intro: pinger_reach.intros)

section \<open>Lemmas\<close>

lemma finish_steps:
  assumes "\<not> tx_done tx"
  shows "\<exists>r s' m. finish_with w name tx s = Some (r, stop_pinging (tx\<lparr>tx_done := r = Inr () \<or> name = ''abort_transaction''\<rparr>), s') \<and>
    ss_sent s' = ss_sent s @ [m] \<and> message_of name (id_parameters (tx_id tx)) m \<and>
    sn_policy m = tr_retries (cl_transport (tx_client tx)) \<and> sn_timeout m = tr_timeout (cl_transport (tx_client tx)) \<and>
    sn_repeatable m = WithMutationId"
proof -
  have "is_dict (id_parameters (tx_id tx))" by (simp add: id_parameters_def)
  then obtain r s' m where "command_with (tx_client tx) w Post (ascii name) (id_parameters (tx_id tx)) None WithMutationId None s = Some (r, s')"
    "ss_sent s' = ss_sent s @ [m]" "sn_command m = ascii name" "sn_parameters m = id_parameters (tx_id tx)"
    "sn_policy m = tr_retries (cl_transport (tx_client tx))" "sn_timeout m = tr_timeout (cl_transport (tx_client tx))"
    "sn_repeatable m = WithMutationId"
    using command_with_total by metis
  then show ?thesis using assms by (cases r) (simp_all add: finish_with_def command_def message_of_def)
qed

lemma dropped_nothing: "tx_done tx \<or> tx_origin tx = Attached \<Longrightarrow> dropped pr w tx s = Some (stop_pinging tx, s)"
  by (simp add: dropped_def)

text \<open>What a dropped handle sends: an abort that is tried once, within five seconds.\<close>

definition last_abort :: "bytes \<Rightarrow> sent \<Rightarrow> bool" where
  "last_abort i m = (message_of ''abort_transaction'' (id_parameters i) m \<and> sn_policy m = policy_none \<and> sn_timeout m = DROP_ABORT_TIMEOUT)"

lemma dropped_started:
  assumes "\<not> tx_done tx" "tx_origin tx = Started"
  shows "\<exists>tx' s' m. dropped pr w tx s = Some (tx', s') \<and> tx_keep_alive tx' = None \<and> ss_sent s' = ss_sent s @ [m] \<and> last_abort (tx_id tx) m"
proof -
  let ?tx = "tx\<lparr>tx_client := once_within pr DROP_ABORT_TIMEOUT (tx_client tx)\<rparr>"
  obtain r s' m where f: "finish_with w ''abort_transaction'' ?tx s = Some (r, stop_pinging (?tx\<lparr>tx_done := True\<rparr>), s')"
    "ss_sent s' = ss_sent s @ [m]" "message_of ''abort_transaction'' (id_parameters (tx_id tx)) m"
    "sn_policy m = tr_retries (cl_transport (tx_client ?tx))" "sn_timeout m = tr_timeout (cl_transport (tx_client ?tx))"
    using assms finish_steps [of ?tx w "''abort_transaction''" s] by auto
  show ?thesis
    by (rule exI [of _ "stop_pinging (?tx\<lparr>tx_done := True\<rparr>)"], rule exI [of _ s'], rule exI [of _ m])
       (use f assms in \<open>simp add: dropped_def last_abort_def stop_pinging_def once_within_def with_timeout_def with_retries_def\<close>)
qed

text \<open>What committing sends: the commit, and the abort of a handle that started the transaction when the commit
  failed.\<close>

definition commit_sent :: "bytes \<Rightarrow> origin_kind \<Rightarrow> command_error + unit \<Rightarrow> sent list \<Rightarrow> bool" where
  "commit_sent i origin_of r ms =
     (\<exists>m. message_of ''commit_transaction'' (id_parameters i) m \<and> sn_repeatable m = WithMutationId \<and>
        (if (\<exists>e. r = Inl e) \<and> origin_of = Started then \<exists>a. ms = [m, a] \<and> last_abort i a else ms = [m]))"

lemma commit_steps:
  assumes "\<not> tx_done tx"
  shows "\<exists>r s' ms. commit pr w tx s = Some (r, s') \<and> ss_sent s' = ss_sent s @ ms \<and> commit_sent (tx_id tx) (tx_origin tx) r ms"
proof -
  obtain r s1 m where f: "finish_with w ''commit_transaction'' tx s = Some (r, stop_pinging (tx\<lparr>tx_done := r = Inr ()\<rparr>), s1)"
    "ss_sent s1 = ss_sent s @ [m]" "message_of ''commit_transaction'' (id_parameters (tx_id tx)) m" "sn_repeatable m = WithMutationId"
    using finish_steps [OF assms, of w "''commit_transaction''" s] by auto
  let ?tx = "stop_pinging (tx\<lparr>tx_done := r = Inr ()\<rparr>)"
  show ?thesis
  proof (cases "(\<exists>e. r = Inl e) \<and> tx_origin tx = Started")
    case False
    then have "dropped pr w ?tx s1 = Some (stop_pinging ?tx, s1)"
      by (intro dropped_nothing) (cases r; cases "tx_origin tx"; simp add: stop_pinging_def)
    then show ?thesis using f False by (simp add: commit_def consumed_def commit_sent_def)
  next
    case True
    then obtain tx' s2 a where "dropped pr w ?tx s1 = Some (tx', s2)" "ss_sent s2 = ss_sent s1 @ [a]" "last_abort (tx_id tx) a"
      using dropped_started [of ?tx pr w s1] by (auto simp: stop_pinging_def)
    then show ?thesis using f True by (simp add: commit_def consumed_def commit_sent_def)
  qed
qed

lemma abort_steps:
  assumes "\<not> tx_done tx"
  obtains r s' m where "abort pr w tx s = Some (r, s')" "ss_sent s' = ss_sent s @ [m]"
    "message_of ''abort_transaction'' (id_parameters (tx_id tx)) m" "sn_policy m = tr_retries (cl_transport (tx_client tx))"
proof -
  obtain r s1 m where f: "finish_with w ''abort_transaction'' tx s = Some (r, stop_pinging (tx\<lparr>tx_done := True\<rparr>), s1)"
    "ss_sent s1 = ss_sent s @ [m]" "message_of ''abort_transaction'' (id_parameters (tx_id tx)) m"
    "sn_policy m = tr_retries (cl_transport (tx_client tx))"
    using finish_steps [OF assms, of w "''abort_transaction''" s] by auto
  then show thesis using that by (simp add: abort_def consumed_def dropped_def stop_pinging_def)
qed

section \<open>The pings\<close>

lemmas pinger_step_defs = keep_alive_step_def Let_def

text \<open>What every state of the thread satisfies: how far apart its pings were begun, how long ago the last one
  was, and what its verdicts rest on.\<close>

definition last_begun :: "pinger \<Rightarrow> nat" where
  "last_begun s = (if pg_pings s = [] then 0 else last (pg_pings s))"

definition pings_paced :: "nat \<Rightarrow> nat \<Rightarrow> nat \<Rightarrow> pinger \<Rightarrow> bool" where
  "pings_paced first interval budget s =
     ((\<forall>n. Suc n < length (pg_pings s) \<longrightarrow> pg_pings s ! Suc n \<le> pg_pings s ! n + (budget + interval)) \<and>
      (pg_pings s \<noteq> [] \<longrightarrow> hd (pg_pings s) \<le> first \<and> pg_wait s = interval) \<and>
      (pg_pings s = [] \<longrightarrow> pg_wait s = first \<and> (pg_phase s \<in> {Checking, Asleep} \<longrightarrow> pg_now s = 0)) \<and>
      (pg_phase s = Pinging \<longrightarrow> pg_pings s \<noteq> [] \<and> pg_now s = last_begun s) \<and>
      (pg_phase s \<in> {Checking, Asleep} \<longrightarrow> pg_pings s \<noteq> [] \<longrightarrow> pg_now s \<le> last_begun s + budget))"

lemma answered_step:
  assumes "keep_alive_step k (Answered elapsed r) s = Some s'"
  shows "\<exists>phase lost. pg_phase s = Pinging \<and> elapsed \<le> tr_timeout (cl_transport (ka_client k)) \<and> phase \<in> {Over, Checking} \<and>
    s' = s\<lparr>pg_now := pg_now s + elapsed, pg_last := Some r, pg_phase := phase, pg_lost := lost\<rparr>"
  using assms
  by (cases "\<exists>e. r = Inl e \<and> transaction_is_gone e"; intro exI [of _ "if \<exists>e. r = Inl e \<and> transaction_is_gone e then Over else Checking"]
      exI [of _ "(\<exists>e. r = Inl e \<and> transaction_is_gone e) \<or> pg_lost s"])
    (auto simp: pinger_step_defs split: if_splits sum.splits)

lemma paced_kept:
  assumes "pings_paced first interval budget s" "pg_pings s' = pg_pings s" "pg_wait s' = pg_wait s"
    and "pg_phase s' = Pinging \<Longrightarrow> pg_phase s = Pinging \<and> pg_now s' = pg_now s"
    and "pg_phase s' \<in> {Checking, Asleep} \<Longrightarrow>
      (pg_phase s \<in> {Checking, Asleep} \<and> pg_now s' = pg_now s) \<or> (pg_phase s = Pinging \<and> pg_now s' \<le> pg_now s + budget)"
  shows "pings_paced first interval budget s'"
proof -
  have "last_begun s' = last_begun s" using assms(2) by (simp add: last_begun_def)
  then show ?thesis using assms unfolding pings_paced_def by fastforce
qed

lemma paced_ping:
  assumes "pings_paced first interval budget s" "pg_phase s = Asleep" "elapsed \<le> pg_wait s"
  shows "pings_paced first interval budget (s\<lparr>pg_now := pg_now s + elapsed, pg_phase := Pinging, pg_wait := interval,
    pg_pings := pg_pings s @ [pg_now s + elapsed]\<rparr>)"
proof (cases "pg_pings s = []")
  case True
  then show ?thesis using assms by (simp add: pings_paced_def last_begun_def)
next
  case False
  then have gap: "pg_now s + elapsed \<le> last (pg_pings s) + (budget + interval)"
    using assms by (simp add: pings_paced_def last_begun_def)
  have "(pg_pings s @ [pg_now s + elapsed]) ! Suc n \<le> (pg_pings s @ [pg_now s + elapsed]) ! n + (budget + interval)"
    if "Suc n < Suc (length (pg_pings s))" for n
  proof (cases "Suc n = length (pg_pings s)")
    case True
    then have "n = length (pg_pings s) - 1" by simp
    then show ?thesis using gap False by (simp add: nth_append last_conv_nth)
  next
    case False
    then show ?thesis using assms(1) that by (simp add: nth_append pings_paced_def)
  qed
  then show ?thesis using assms False by (simp add: pings_paced_def last_begun_def)
qed

lemma paced_step:
  assumes "pings_paced (ka_first k) (ka_interval k) (tr_timeout (cl_transport (ka_client k))) s" "keep_alive_step k a s = Some s'"
  shows "pings_paced (ka_first k) (ka_interval k) (tr_timeout (cl_transport (ka_client k))) s'"
proof (cases a)
  case Raise
  then show ?thesis using assms(2) by (intro paced_kept [OF assms(1)]) (auto simp: keep_alive_step_def)
next
  case Look
  then show ?thesis using assms(2) by (intro paced_kept [OF assms(1)]) (auto simp: keep_alive_step_def split: if_splits)
next
  case (Answered elapsed r)
  then show ?thesis using assms(2) by (intro paced_kept [OF assms(1)]) (auto dest: answered_step)
next
  case (Wake elapsed)
  then have asleep: "pg_phase s = Asleep" "elapsed \<le> pg_wait s" using assms(2) by (auto simp: pinger_step_defs split: if_splits)
  show ?thesis
  proof (cases "pg_stop s")
    case True
    then show ?thesis using assms(2) Wake asleep by (intro paced_kept [OF assms(1)]) (auto simp: pinger_step_defs)
  next
    case False
    then show ?thesis using paced_ping [OF assms(1) asleep] assms(2) Wake asleep by (simp add: pinger_step_defs)
  qed
qed

lemma paced_begun: "pings_paced first interval budget (pinger_start first)"
  by (simp add: pinger_start_def pings_paced_def)

lemma pings_paced:
  "pinger_reach k s \<Longrightarrow> pings_paced (ka_first k) (ka_interval k) (tr_timeout (cl_transport (ka_client k))) s"
  by (erule pinging.invariant) (rule paced_begun, erule paced_step)

text \<open>The verdicts, and what is left to do once the thread was told to stop.\<close>

definition verdicts_hold :: "pinger \<Rightarrow> bool" where
  "verdicts_hold s =
     ((pg_lost s \<longleftrightarrow> (\<exists>e. pg_last s = Some (Inl e) \<and> transaction_is_gone e)) \<and>
      (pg_lost s \<longrightarrow> pg_phase s = Over) \<and> (pg_phase s = Over \<longrightarrow> pg_lost s \<or> pg_stop s))"

lemma verdicts_step: "verdicts_hold s \<Longrightarrow> keep_alive_step k a s = Some s' \<Longrightarrow> verdicts_hold s'"
  by (cases a) (auto simp: pinger_step_defs verdicts_hold_def split: if_splits sum.splits)

lemma verdicts: "pinger_reach k s \<Longrightarrow> verdicts_hold s"
  by (erule pinging.invariant) (simp add: pinger_start_def verdicts_hold_def, erule verdicts_step)

fun steps_left :: "pinger_phase \<Rightarrow> nat" where
  "steps_left Checking = 1" | "steps_left Asleep = 1" | "steps_left Pinging = 2" | "steps_left Over = 0"

lemma stopping_step:
  assumes "keep_alive_step k a s = Some s'" "pg_stop s \<or> pg_phase s = Over"
  shows "pg_pings s' = pg_pings s \<and> (pg_stop s' \<or> pg_phase s' = Over) \<and>
    steps_left (pg_phase s') + (if a = Raise then 0 else 1) \<le> steps_left (pg_phase s)"
  using assms by (cases a) (auto simp: pinger_step_defs split: if_splits sum.splits)

lemma stopping_run:
  "run_steps (keep_alive_step k) as s = Some s' \<Longrightarrow> pg_stop s \<or> pg_phase s = Over \<Longrightarrow>
    pg_pings s' = pg_pings s \<and> length (filter (\<lambda>a. a \<noteq> Raise) as) \<le> steps_left (pg_phase s)"
proof (induction as arbitrary: s)
  case (Cons a as)
  then obtain s1 where "keep_alive_step k a s = Some s1" "run_steps (keep_alive_step k) as s1 = Some s'"
    by (auto split: option.splits)
  then show ?case using Cons.IH [of s1] stopping_step [of k a s s1] Cons.prems(2) by (cases "a = Raise") auto
qed simp

section \<open>Properties\<close>

text \<open>C19: how a held transaction ends. A commit is sent once, under one mutation id; when it fails a
  handle that started the transaction aborts it, once and within five seconds, and an attached handle
  sends nothing more. An explicit abort is one message under the client's retry policy and is not
  repeated when the handle is dropped. A dropped handle aborts what it started, leaves alone what it
  attached to, and stops its thread; a detached one sends nothing.\<close>

theorem transaction_ends_once:
  "let tx = held pr spawned c i timeout origin_of spent
   in (\<exists>r s' ms. commit pr w tx s = Some (r, s') \<and> ss_sent s' = ss_sent s @ ms \<and> commit_sent i origin_of r ms) \<and>
      (\<exists>r s' m. abort pr w tx s = Some (r, s') \<and> ss_sent s' = ss_sent s @ [m] \<and>
         message_of ''abort_transaction'' (id_parameters i) m \<and> sn_policy m = tr_retries (cl_transport c)) \<and>
      (\<exists>tx' s' ms. dropped pr w tx s = Some (tx', s') \<and> tx_keep_alive tx' = None \<and> ss_sent s' = ss_sent s @ ms \<and>
         (case origin_of of Started \<Rightarrow> \<exists>m. ms = [m] \<and> last_abort i m | Attached \<Rightarrow> ms = [])) \<and>
      detach pr w tx s = Some (Inr i, s)"
proof -
  let ?tx = "held pr spawned c i timeout origin_of spent"
  have tx: "\<not> tx_done ?tx" "tx_id ?tx = i" "tx_origin ?tx = origin_of"
    "tr_retries (cl_transport (tx_client ?tx)) = tr_retries (cl_transport c)"
    by (simp_all add: held_def Let_def with_transaction_def)
  have "\<exists>tx' s' ms. dropped pr w ?tx s = Some (tx', s') \<and> tx_keep_alive tx' = None \<and> ss_sent s' = ss_sent s @ ms \<and>
      (case origin_of of Started \<Rightarrow> \<exists>m. ms = [m] \<and> last_abort i m | Attached \<Rightarrow> ms = [])"
  proof (cases origin_of)
    case Started
    then show ?thesis using dropped_started [of ?tx pr w s] tx by fastforce
  next
    case Attached
    then show ?thesis using dropped_nothing [of ?tx pr w s] tx by (simp add: stop_pinging_def)
  qed
  moreover have "\<exists>r s' m. abort pr w ?tx s = Some (r, s') \<and> ss_sent s' = ss_sent s @ [m] \<and>
      message_of ''abort_transaction'' (id_parameters i) m \<and> sn_policy m = tr_retries (cl_transport c)"
    using abort_steps [OF tx(1), of pr w s] tx by metis
  moreover have "detach pr w ?tx s = Some (Inr i, s)" using tx by (simp add: detach_def dropped_def)
  ultimately show ?thesis using commit_steps [OF tx(1), of pr w s] tx by (simp add: Let_def)
qed

lemma interval_and_budget:
  assumes "6 * SECOND \<le> timeout"
  shows "ping_request_timeout (ping_interval timeout) + ping_interval timeout \<le> timeout div 2"
    and "2 * (ping_request_timeout (ping_interval timeout) + ping_interval timeout) \<le> timeout"
proof -
  let ?i = "timeout div 3"
  have i: "2 * SECOND \<le> ?i" using assms by simp
  then have "ping_interval timeout = ?i" by (simp add: ping_interval_def)
  moreover have "ping_request_timeout ?i \<le> ?i div 2"
    using i by (simp add: ping_request_timeout_def)
  moreover have "?i div 2 + ?i \<le> timeout div 2" "2 * (?i div 2) + 2 * ?i \<le> timeout" by simp_all
  ultimately show "ping_request_timeout (ping_interval timeout) + ping_interval timeout \<le> timeout div 2"
    and "2 * (ping_request_timeout (ping_interval timeout) + ping_interval timeout) \<le> timeout"
    by simp_all
qed

text \<open>C20: one lost ping is not a lost transaction. For a timeout of six seconds or more, whatever the thread's
  sleeps and however long its requests take within their budget, the first ping is begun within an interval
  of the start of the transaction (at once when the start took longer), each ping within half the timeout of
  the one before, and of any three in a row the last within the timeout of the first.\<close>

theorem pings_keep_pace:
  assumes "6 * SECOND \<le> timeout" "tx_keep_alive (held pr True c i timeout origin_of spent) = Some k" "pinger_reach k s"
  shows "(pg_pings s \<noteq> [] \<longrightarrow> hd (pg_pings s) + spent \<le> max (timeout div 3) spent) \<and>
    (\<forall>n. Suc n < length (pg_pings s) \<longrightarrow> pg_pings s ! Suc n \<le> pg_pings s ! n + timeout div 2) \<and>
    (\<forall>n. Suc (Suc n) < length (pg_pings s) \<longrightarrow> pg_pings s ! Suc (Suc n) \<le> pg_pings s ! n + timeout)"
proof -
  let ?gap = "ping_request_timeout (ping_interval timeout) + ping_interval timeout"
  have k: "ka_first k = ping_interval timeout - spent" "ka_interval k = ping_interval timeout"
    "tr_timeout (cl_transport (ka_client k)) = ping_request_timeout (ping_interval timeout)"
    using assms(2) by (auto simp: held_def Let_def first_ping_in_def once_within_def with_timeout_def)
  have "pings_paced (ka_first k) (ka_interval k) (tr_timeout (cl_transport (ka_client k))) s" using assms(3) by (rule pings_paced)
  then have paced: "\<And>n. Suc n < length (pg_pings s) \<Longrightarrow> pg_pings s ! Suc n \<le> pg_pings s ! n + ?gap"
    "pg_pings s \<noteq> [] \<Longrightarrow> hd (pg_pings s) \<le> ping_interval timeout - spent"
    using k by (simp_all add: pings_paced_def)
  have "ping_interval timeout = timeout div 3" using assms(1) by (simp add: ping_interval_def)
  then have "hd (pg_pings s) + spent \<le> max (timeout div 3) spent" if "pg_pings s \<noteq> []" using paced(2) [OF that] by simp
  moreover have "pg_pings s ! Suc (Suc n) \<le> pg_pings s ! n + timeout" if "Suc (Suc n) < length (pg_pings s)" for n
    using paced(1) [OF that] paced(1) [of n] that interval_and_budget(2) [OF assms(1)] by simp
  moreover have "pg_pings s ! Suc n \<le> pg_pings s ! n + timeout div 2" if "Suc n < length (pg_pings s)" for n
    using paced(1) [OF that] interval_and_budget(1) [OF assms(1)] by simp
  ultimately show ?thesis by blast
qed

text \<open>The thread of a transaction of six seconds started just now, after a ping that was lost and one that was
  answered.\<close>

definition sample_process :: process where "sample_process = \<lparr>pr_tls = True, pr_in_job = False, pr_tls_refused = None\<rparr>"

definition sample_thread :: keep_alive where
  "sample_thread = the (tx_keep_alive (held sample_process True sample_client (ascii ''1-2'') (6 * SECOND) Started 0))"

definition sample_pinger :: pinger where
  "sample_pinger = \<lparr>pg_phase = Pinging, pg_stop = False, pg_lost = False, pg_wait = 2 * SECOND, pg_now = 7 * SECOND,
     pg_pings = [2 * SECOND, 5 * SECOND, 7 * SECOND], pg_last = Some (Inr ())\<rparr>"

lemma sample_thread_held: "tx_keep_alive (held sample_process True sample_client (ascii ''1-2'') (6 * SECOND) Started 0) = Some sample_thread"
  by (simp add: sample_thread_def held_def Let_def)

lemma sample_thread_times: "ka_first sample_thread = 2 * SECOND" "ka_interval sample_thread = 2 * SECOND"
    "tr_timeout (cl_transport (ka_client sample_thread)) = SECOND"
  by (simp_all add: sample_thread_def held_def Let_def ping_interval_def first_ping_in_def once_within_def with_timeout_def
      ping_request_timeout_def DEFAULT_TIMEOUT_def SECOND_def)

lemma sample_pinger_run:
  "run_steps (keep_alive_step sample_thread)
     [Look, Wake (2 * SECOND), Answered SECOND (Inl (Call_failed (Transport (ascii ''ping_transaction'') Timeout_global))), Look,
      Wake (2 * SECOND), Answered 0 (Inr ()), Look, Wake (2 * SECOND)] (pinger_start (ka_first sample_thread)) = Some sample_pinger"
  by (simp add: keep_alive_step_def sample_thread_times pinger_start_def sample_pinger_def Let_def)

lemma sample_pinger_reach: "pinger_reach sample_thread sample_pinger"
  by (rule pinging.reach_run [OF pinging.reach_start sample_pinger_run])

theorem pings_keep_pace_witness:
  "pg_pings sample_pinger ! 2 \<le> pg_pings sample_pinger ! 0 + 6 * SECOND \<and> length (pg_pings sample_pinger) = 3"
proof -
  have three: "length (pg_pings sample_pinger) = 3" by (simp add: sample_pinger_def)
  have "\<forall>n. Suc (Suc n) < length (pg_pings sample_pinger) \<longrightarrow>
      pg_pings sample_pinger ! Suc (Suc n) \<le> pg_pings sample_pinger ! n + 6 * SECOND"
    using pings_keep_pace [OF order_refl sample_thread_held sample_pinger_reach] by blast
  then have "pg_pings sample_pinger ! Suc (Suc 0) \<le> pg_pings sample_pinger ! 0 + 6 * SECOND" unfolding three by auto
  then show ?thesis using three by (simp only: numeral_2_eq_2 simp_thms)
qed

text \<open>C21: a thread that was told to stop begins no further ping and is over after at most two steps of its own;
  and it gives the transaction up exactly when a ping was answered that the transaction is gone, after which
  it is over at once.\<close>

theorem keep_alive_stops:
  assumes "pinger_reach k s" "run_steps (keep_alive_step k) as s = Some s'" "pg_stop s \<or> pg_lost s"
  shows "pg_pings s' = pg_pings s \<and> length (filter (\<lambda>a. a \<noteq> Raise) as) \<le> 2 \<and>
    (pg_lost s' \<longleftrightarrow> (\<exists>e. pg_last s' = Some (Inl e) \<and> transaction_is_gone e)) \<and> (pg_lost s' \<longrightarrow> pg_phase s' = Over) \<and>
    (pg_phase s' = Over \<longrightarrow> pg_lost s' \<or> pg_stop s')"
proof -
  have "pg_stop s \<or> pg_phase s = Over" using verdicts [OF assms(1)] assms(3) by (auto simp: verdicts_hold_def)
  then have "pg_pings s' = pg_pings s" "length (filter (\<lambda>a. a \<noteq> Raise) as) \<le> steps_left (pg_phase s)"
    using stopping_run [OF assms(2)] by blast+
  moreover have "steps_left (pg_phase s) \<le> 2" by (cases "pg_phase s") simp_all
  ultimately show ?thesis
    using verdicts [OF pinging.reach_run [OF assms(1,2)]] unfolding verdicts_hold_def by auto
qed

lemma sample_raised: "keep_alive_step sample_thread Raise sample_pinger = Some (sample_pinger\<lparr>pg_stop := True\<rparr>)"
  by (simp add: keep_alive_step_def)

lemma sample_stop_run:
  "run_steps (keep_alive_step sample_thread) [Answered 0 (Inr ()), Look] (sample_pinger\<lparr>pg_stop := True\<rparr>) =
     Some (sample_pinger\<lparr>pg_stop := True, pg_phase := Over\<rparr>)"
  by (simp add: keep_alive_step_def sample_thread_times sample_pinger_def Let_def)

theorem keep_alive_stops_witness:
  "\<exists>s. run_steps (keep_alive_step sample_thread) [Answered 0 (Inr ()), Look] (sample_pinger\<lparr>pg_stop := True\<rparr>) = Some s \<and>
     pg_pings s = pg_pings sample_pinger"
  using keep_alive_stops [OF pinging.reach_step [OF sample_pinger_reach sample_raised] sample_stop_run] sample_stop_run
  by simp

end
