(* ===== verification/Client_Operations.thy ===== *)
theory Client_Operations
  imports Client_Cypress
begin

text \<open>
  Operations: \<open>crates/ytsaurus-client/src/operation.rs\<close>, \<open>jobs.rs\<close> and the operation commands of \<open>lib.rs\<close>:
  starting, controlling and listing operations, waiting for one, its jobs and its statistics. What
  the wait prints is not modelled.
\<close>

section \<open>Reading answers\<close>

text \<open>\<open>field\<close> of \<open>jobs.rs\<close> is the \<open>yson_field\<close> of batches.\<close>

definition text_of :: "yson_value \<Rightarrow> bytes option" where
  "text_of v = (case node v of String bs \<Rightarrow> Some (from_utf8_lossy bs) | _ \<Rightarrow> None)"

definition text_field :: "yson_value \<Rightarrow> string \<Rightarrow> bytes option" where
  "text_field v key = Option.bind (yson_field v (ascii key)) text_of"

definition count_of :: "yson_value \<Rightarrow> u64 option" where
  "count_of v = (case node v of Int64 i \<Rightarrow> if 0 \<le>s i then Some i else None | Uint64 u \<Rightarrow> Some u | _ \<Rightarrow> None)"

definition flag :: "yson_value option \<Rightarrow> bool option" where
  "flag v = Option.bind v (\<lambda>v. case node v of Boolean b \<Rightarrow> Some b | _ \<Rightarrow> None)"

definition or_empty :: "bytes option \<Rightarrow> bytes" where
  "or_empty t = (case t of Some t \<Rightarrow> t | None \<Rightarrow> [])"

function innermost_text :: "yson_value \<Rightarrow> bytes option" where
  "innermost_text error =
     (case yson_field error (ascii ''inner_errors'') of
        None \<Rightarrow> None
      | Some inner \<Rightarrow>
          (case node inner of
             List (first # _) \<Rightarrow> or_option (innermost_text first) (text_field first ''message'')
           | _ \<Rightarrow> None))"
  by pat_completeness auto
termination innermost_text
proof (relation "measure size", goal_cases)
  case (2 error inner vs first rest)
  have "size first < size inner" using 2(2,3) by (cases inner) auto
  then show ?case using size_yson_field [OF 2(1)] by simp
qed simp

declare innermost_text.simps [simp del]

definition error_summary :: "yson_value \<Rightarrow> bytes option" where
  "error_summary error =
     Option.bind (text_field error ''message'') (\<lambda>top.
       case innermost_text error of
         Some inner \<Rightarrow> if inner \<noteq> top then Some (top @ ascii '': '' @ inner) else Some top
       | None \<Rightarrow> Some top)"

section \<open>Jobs\<close>

record job_info =
  ji_id :: bytes
  ji_state :: bytes
  ji_address :: "bytes option"
  ji_error :: "bytes option"
  ji_stderr_size :: "u64 option"

definition parse_job :: "yson_value \<Rightarrow> job_info option" where
  "parse_job job =
     Option.bind (Option.bind (or_option (yson_field job (ascii ''id'')) (yson_field job (ascii ''job_id''))) text_of) (\<lambda>i.
       Some \<lparr>ji_id = i, ji_state = or_empty (text_field job ''state''), ji_address = text_field job ''address'',
             ji_error = Option.bind (yson_field job (ascii ''error'')) error_summary,
             ji_stderr_size = Option.bind (yson_field job (ascii ''stderr_size'')) count_of\<rparr>)"

definition parse_jobs :: "yson_value \<Rightarrow> job_info list" where
  "parse_jobs jobs = (case node jobs of List items \<Rightarrow> List.map_filter parse_job items | _ \<Rightarrow> [])"

section \<open>Operations as listed\<close>

record operation_info =
  oi_id :: bytes
  oi_kind :: bytes
  oi_state :: bytes
  oi_user :: "bytes option"
  oi_start_time :: "bytes option"
  oi_finish_time :: "bytes option"
  oi_suspended :: bool

record operation_list =
  ol_operations :: "operation_info list"
  ol_incomplete :: bool

record operation_event =
  oe_type :: bytes
  oe_timestamp :: "bytes option"
  oe_incarnation :: "bytes option"

record operation_status =
  os_state :: bytes
  os_suspended :: bool

definition is_set :: "yson_value \<Rightarrow> string \<Rightarrow> bool" where
  "is_set v key = (flag (yson_field v (ascii key)) = Some True)"

definition parse_operation :: "yson_value \<Rightarrow> operation_info option" where
  "parse_operation v =
     Option.bind (text_field v ''id'') (\<lambda>i.
       Some \<lparr>oi_id = i, oi_kind = or_empty (or_option (text_field v ''type'') (text_field v ''operation_type'')),
             oi_state = or_empty (text_field v ''state''), oi_user = text_field v ''authenticated_user'',
             oi_start_time = text_field v ''start_time'', oi_finish_time = text_field v ''finish_time'',
             oi_suspended = is_set v ''suspended''\<rparr>)"

definition parse_operations :: "yson_value \<Rightarrow> command_error + operation_list" where
  "parse_operations response =
     (case map_option node (yson_field response (ascii ''operations'')) of
        Some (List items) \<Rightarrow>
          Inr \<lparr>ol_operations = List.map_filter parse_operation items, ol_incomplete = is_set response ''incomplete''\<rparr>
      | _ \<Rightarrow> Inl (No_operations (node response)))"

definition parse_event :: "yson_value \<Rightarrow> operation_event option" where
  "parse_event event =
     Option.bind (text_field event ''event_type'') (\<lambda>t.
       Some \<lparr>oe_type = t, oe_timestamp = text_field event ''timestamp'', oe_incarnation = text_field event ''incarnation''\<rparr>)"

definition parse_events :: "yson_value \<Rightarrow> command_error + operation_event list" where
  "parse_events response =
     (case node response of
        List items \<Rightarrow> Inr (List.map_filter parse_event items)
      | _ \<Rightarrow>
          (case map_option node (yson_field response (ascii ''events'')) of
             Some (List items) \<Rightarrow> Inr (List.map_filter parse_event items)
           | _ \<Rightarrow> Inl (No_events (node response))))"

definition state_of :: "yson_value \<Rightarrow> command_error + bytes" where
  "state_of document =
     (case map_option node (yson_field document (ascii ''state'')) of
        Some (String bs) \<Rightarrow> Inr (from_utf8_lossy bs)
      | other \<Rightarrow> Inl (State_not_a_string other))"

definition suspended_of :: "yson_value \<Rightarrow> command_error + bool" where
  "suspended_of document =
     (case yson_field document (ascii ''suspended'') of
        None \<Rightarrow> Inr False
      | Some v \<Rightarrow> ok_or (flag (Some v)) (Suspended_not_a_boolean (node v)))"

definition result_error_of :: "yson_value \<Rightarrow> bytes option" where
  "result_error_of document =
     Option.bind (Option.bind (yson_field document (ascii ''result'')) (\<lambda>r. yson_field r (ascii ''error''))) (\<lambda>error.
       if Option.bind (yson_field error (ascii ''code'')) as_i64 = Some 0 then None else error_summary error)"

definition statistics_of :: "yson_value \<Rightarrow> yson_value" where
  "statistics_of document =
     (case Option.bind (yson_field document (ascii ''progress'')) (\<lambda>p. yson_field p (ascii ''job_statistics'')) of
        Some statistics \<Rightarrow> statistics
      | None \<Rightarrow> yson_empty_map)"

section \<open>Statistics\<close>

text \<open>The sum over the values of a map, in \<open>i64\<close> arithmetic that wraps as in a release build.\<close>

fun add_sums :: "yson_value list \<Rightarrow> i64 option \<Rightarrow> i64 option" where
  "add_sums [] acc = acc"
| "add_sums (v # vs) acc =
     (case Option.bind (yson_field v (ascii ''sum'')) as_i64 of
        Some x \<Rightarrow> add_sums vs (Some ((case acc of Some a \<Rightarrow> a | None \<Rightarrow> 0) + x))
      | None \<Rightarrow> add_sums vs acc)"

definition completed_total :: "yson_value \<Rightarrow> i64 option" where
  "completed_total statistic =
     (case or_option (yson_field statistic (ascii ''$'')) (yson_field statistic (ascii ''$$'')) of
        None \<Rightarrow> Option.bind (yson_field statistic (ascii ''sum'')) as_i64
      | Some by_state \<Rightarrow>
          Option.bind (yson_field by_state (ascii ''completed'')) (\<lambda>completed.
            case node completed of Map by_type \<Rightarrow> add_sums (map snd by_type) None | _ \<Rightarrow> None))"

text \<open>The statistic under a path of names.\<close>

fun statistic_at :: "yson_value \<Rightarrow> bytes list \<Rightarrow> yson_value option" where
  "statistic_at v [] = Some v"
| "statistic_at v (name # names) = Option.bind (yson_field v name) (\<lambda>next_one. statistic_at next_one names)"

section \<open>Filters and parameters\<close>

text \<open>Parameters under construction. Inserting into a value that is not a map panics, which is \<open>None\<close>.\<close>

type_synonym builder = "yson_value \<Rightarrow> yson_value option"

definition put :: "string \<Rightarrow> yson_value \<Rightarrow> builder" where
  "put key v params = yson_insert params (ascii key) v"

definition filter_new :: yson_value where "filter_new = yson_empty_map"
definition filter_user :: "bytes \<Rightarrow> builder" where "filter_user u = put ''user'' (yson_str u)"
definition filter_state :: "bytes \<Rightarrow> builder" where "filter_state u = put ''state'' (yson_str u)"
definition filter_pool :: "bytes \<Rightarrow> builder" where "filter_pool u = put ''pool'' (yson_str u)"
definition filter_pool_tree :: "bytes \<Rightarrow> builder" where "filter_pool_tree u = put ''pool_tree'' (yson_str u)"
definition filter_substring :: "bytes \<Rightarrow> builder" where "filter_substring u = put ''filter'' (yson_str u)"
definition filter_from_time :: "bytes \<Rightarrow> builder" where "filter_from_time u = put ''from_time'' (yson_str u)"
definition filter_to_time :: "bytes \<Rightarrow> builder" where "filter_to_time u = put ''to_time'' (yson_str u)"
definition filter_failed_jobs :: "bool \<Rightarrow> builder" where "filter_failed_jobs b = put ''with_failed_jobs'' (yson_boolean b)"
definition filter_archive :: "bool \<Rightarrow> builder" where "filter_archive b = put ''include_archive'' (yson_boolean b)"
definition filter_limit :: "32 word \<Rightarrow> builder" where "filter_limit n = put ''limit'' (yson_int (ucast n))"

definition with_raw :: "bytes \<Rightarrow> yson_value \<Rightarrow> builder" where
  "with_raw key v params = yson_insert params key v"

definition parameters_new :: yson_value where "parameters_new = yson_empty_map"
definition parameters_pool :: "bytes \<Rightarrow> builder" where "parameters_pool p = put ''pool'' (yson_str p)"
definition parameters_weight :: "f64 \<Rightarrow> builder" where "parameters_weight w = put ''weight'' (yson_double w)"

definition map_or_empty :: "yson_value option \<Rightarrow> yson_value" where
  "map_or_empty v =
     (case v of
        Some existing \<Rightarrow> (case node existing of Map _ \<Rightarrow> existing | _ \<Rightarrow> yson_empty_map)
      | None \<Rightarrow> yson_empty_map)"

definition tree_options :: "yson_value \<Rightarrow> yson_value option" where
  "tree_options params = yson_field params (ascii ''scheduling_options_per_pool_tree'')"

definition pool_in_tree :: "bytes \<Rightarrow> bytes \<Rightarrow> builder" where
  "pool_in_tree tree pool params =
     (let trees = map_or_empty (tree_options params)
      in Option.bind (put ''pool'' (yson_str pool) (map_or_empty (yson_field trees tree))) (\<lambda>options.
         Option.bind (yson_insert trees tree options) (\<lambda>trees'.
         put ''scheduling_options_per_pool_tree'' trees' params)))"

definition parameters_empty :: "yson_value \<Rightarrow> bool" where
  "parameters_empty params = (case node params of Map m \<Rightarrow> m = [] | _ \<Rightarrow> True)"

section \<open>The commands\<close>

definition operation_only :: "bytes \<Rightarrow> yson_value" where
  "operation_only i = yson_map [(ascii ''operation_id'', yson_str i)]"

definition start_operation_inner :: "client \<Rightarrow> world \<Rightarrow> bytes \<Rightarrow> yson_value \<Rightarrow> mutation_id option \<Rightarrow> bytes effect" where
  "start_operation_inner c w kind spec given =
     then_do (command_with c w Post (ascii ''start_operation'')
       (yson_map [(ascii ''operation_type'', yson_str kind), (ascii ''spec'', spec)]) None WithMutationId given) (\<lambda>body.
     answer (and_then (value_field body ''operation_id'') (\<lambda>v.
       case node v of
         String bs \<Rightarrow> Inr (from_utf8_lossy bs)
       | n \<Rightarrow> Inl (Not_a_string (ascii ''start_operation'') (ascii ''operation_id'') n))))"

definition start_operation :: "client \<Rightarrow> world \<Rightarrow> bytes \<Rightarrow> yson_value \<Rightarrow> bytes effect" where
  "start_operation c w kind spec = start_operation_inner c w kind spec None"

definition start_operation_with :: "client \<Rightarrow> world \<Rightarrow> bytes \<Rightarrow> yson_value \<Rightarrow> mutation_id \<Rightarrow> bytes effect" where
  "start_operation_with c w kind spec m = start_operation_inner c w kind spec (Some m)"

definition abort_operation :: "client \<Rightarrow> world \<Rightarrow> bytes \<Rightarrow> bytes option \<Rightarrow> unit effect" where
  "abort_operation c w i reason =
     ignore (command c w Post ''abort_operation''
       (yson_map ([(ascii ''operation_id'', yson_str i)] @
          (case reason of Some r \<Rightarrow> [(ascii ''abort_message'', yson_str r)] | None \<Rightarrow> []))) None Never)"

definition suspend_operation :: "client \<Rightarrow> world \<Rightarrow> bytes \<Rightarrow> bool \<Rightarrow> unit effect" where
  "suspend_operation c w i abort_running_jobs =
     ignore (command c w Post ''suspend_operation''
       (yson_map [(ascii ''operation_id'', yson_str i), (ascii ''abort_running_jobs'', yson_boolean abort_running_jobs)]) None Freely)"

definition resume_operation :: "client \<Rightarrow> world \<Rightarrow> bytes \<Rightarrow> unit effect" where
  "resume_operation c w i = ignore (command c w Post ''resume_operation'' (operation_only i) None Never)"

definition complete_operation :: "client \<Rightarrow> world \<Rightarrow> bytes \<Rightarrow> unit effect" where
  "complete_operation c w i = ignore (command c w Post ''complete_operation'' (operation_only i) None Never)"

definition update_operation_parameters :: "client \<Rightarrow> world \<Rightarrow> bytes \<Rightarrow> yson_value \<Rightarrow> unit effect" where
  "update_operation_parameters c w i params =
     (if parameters_empty params then answer (Inl Nothing_to_change)
      else ignore (command c w Post ''update_operation_parameters''
             (yson_map [(ascii ''operation_id'', yson_str i), (ascii ''parameters'', params)]) None Freely))"

definition list_operations :: "client \<Rightarrow> world \<Rightarrow> yson_value \<Rightarrow> operation_list effect" where
  "list_operations c w params =
     then_do (command c w Get ''list_operations'' params None Freely) (\<lambda>body.
     answer (and_then (strip_envelope body (ascii ''list_operations'')) parse_operations))"

definition list_operation_events :: "client \<Rightarrow> world \<Rightarrow> bytes \<Rightarrow> operation_event list effect" where
  "list_operation_events c w i =
     then_do (command c w Get ''list_operation_events'' (operation_only i) None Freely) (\<lambda>body.
     answer (and_then (strip_envelope body (ascii ''list_operation_events'')) parse_events))"

record operation =
  op_client :: client
  op_id :: bytes

definition attach_operation :: "client \<Rightarrow> bytes \<Rightarrow> operation" where
  "attach_operation c i = \<lparr>op_client = c, op_id = (if length (trim i) \<noteq> length i then trim i else i)\<rparr>"

text \<open>No attributes asked for: the parameter is left out.\<close>

definition get_operation_parameters :: "(bytes \<times> yson_value) list \<Rightarrow> bytes list \<Rightarrow> yson_value" where
  "get_operation_parameters params wanted =
     yson_map (params @ (if wanted \<noteq> [] then [(ascii ''attributes'', yson_list (map yson_str wanted))] else []))"

definition get_operation_body :: "client \<Rightarrow> world \<Rightarrow> (bytes \<times> yson_value) list \<Rightarrow> bytes list \<Rightarrow> bytes effect" where
  "get_operation_body c w params wanted =
     command c w Get ''get_operation'' (get_operation_parameters params wanted) None Freely"

definition get_operation_inner :: "client \<Rightarrow> world \<Rightarrow> (bytes \<times> yson_value) list \<Rightarrow> bytes list \<Rightarrow> yson_value effect" where
  "get_operation_inner c w params wanted =
     then_do (get_operation_body c w params wanted) (\<lambda>body. answer (strip_envelope body (ascii ''get_operation'')))"

definition get_operation :: "client \<Rightarrow> world \<Rightarrow> bytes \<Rightarrow> bytes list \<Rightarrow> yson_value effect" where
  "get_operation c w i = get_operation_inner c w [(ascii ''operation_id'', yson_str i)]"

definition get_operation_by_alias :: "client \<Rightarrow> world \<Rightarrow> bytes \<Rightarrow> bytes list \<Rightarrow> yson_value effect" where
  "get_operation_by_alias c w alias =
     get_operation_inner c w [(ascii ''operation_alias'', yson_str alias), (ascii ''include_runtime'', yson_boolean True)]"

definition operation_state :: "client \<Rightarrow> world \<Rightarrow> bytes \<Rightarrow> bytes effect" where
  "operation_state c w i = then_do (get_operation c w i [ascii ''state'']) (\<lambda>document. answer (state_of document))"

definition operation_suspended :: "client \<Rightarrow> world \<Rightarrow> bytes \<Rightarrow> bool effect" where
  "operation_suspended c w i = then_do (get_operation c w i [ascii ''suspended'']) (\<lambda>document. answer (suspended_of document))"

definition status_of :: "yson_value \<Rightarrow> command_error + operation_status" where
  "status_of document =
     and_then (state_of document) (\<lambda>state.
     and_then (suspended_of document) (\<lambda>suspended. Inr \<lparr>os_state = state, os_suspended = suspended\<rparr>))"

definition operation_status_now :: "client \<Rightarrow> world \<Rightarrow> bytes \<Rightarrow> operation_status effect" where
  "operation_status_now c w i = then_do (get_operation c w i [ascii ''state'', ascii ''suspended'']) (\<lambda>document. answer (status_of document))"

definition job_statistics :: "client \<Rightarrow> world \<Rightarrow> bytes \<Rightarrow> yson_value effect" where
  "job_statistics c w i = then_do (get_operation c w i [ascii ''progress'']) (\<lambda>document. answer (Inr (statistics_of document)))"

definition custom_statistics :: "client \<Rightarrow> world \<Rightarrow> bytes \<Rightarrow> yson_value effect" where
  "custom_statistics c w i =
     then_do (job_statistics c w i) (\<lambda>all.
     answer (Inr (case yson_field all (ascii ''custom'') of Some custom \<Rightarrow> custom | None \<Rightarrow> yson_empty_map)))"

definition job_statistic_sum :: "client \<Rightarrow> world \<Rightarrow> bytes \<Rightarrow> bytes \<Rightarrow> i64 option effect" where
  "job_statistic_sum c w i path =
     then_do (job_statistics c w i) (\<lambda>statistics.
     answer (Inr (Option.bind (statistic_at statistics (split_on 0x2F path)) completed_total)))"

definition statistic_sum :: "client \<Rightarrow> world \<Rightarrow> bytes \<Rightarrow> bytes \<Rightarrow> i64 option effect" where
  "statistic_sum c w i name =
     then_do (custom_statistics c w i) (\<lambda>statistics. answer (Inr (Option.bind (yson_field statistics name) completed_total)))"

definition operation_result_error :: "client \<Rightarrow> world \<Rightarrow> bytes \<Rightarrow> bytes option effect" where
  "operation_result_error c w i = then_do (get_operation c w i [ascii ''result'']) (\<lambda>document. answer (Inr (result_error_of document)))"

section \<open>Jobs of an operation\<close>

definition list_jobs :: "client \<Rightarrow> world \<Rightarrow> bytes \<Rightarrow> bytes option \<Rightarrow> 32 word \<Rightarrow> job_info list effect" where
  "list_jobs c w i state limit =
     then_do (command c w Get ''list_jobs''
       (yson_map ([(ascii ''operation_id'', yson_str i), (ascii ''limit'', yson_int (ucast limit))] @
          (case state of Some x \<Rightarrow> [(ascii ''state'', yson_str x)] | None \<Rightarrow> []))) None Freely) (\<lambda>body.
     answer (and_then (strip_envelope body (ascii ''list_jobs'')) (\<lambda>envelope.
             and_then (field_of envelope (ascii ''jobs'')) (\<lambda>jobs. Inr (parse_jobs jobs)))))"

definition job_only :: "bytes \<Rightarrow> bytes \<Rightarrow> yson_value" where
  "job_only i j = yson_map [(ascii ''operation_id'', yson_str i), (ascii ''job_id'', yson_str j)]"

definition get_job :: "client \<Rightarrow> world \<Rightarrow> bytes \<Rightarrow> bytes \<Rightarrow> job_info effect" where
  "get_job c w i j =
     then_do (command c w Get ''get_job'' (job_only i j) None Freely) (\<lambda>body.
     answer (and_then (strip_envelope body (ascii ''get_job'')) (\<lambda>document. ok_or (parse_job document) No_job)))"

definition get_job_input :: "client \<Rightarrow> world \<Rightarrow> bytes \<Rightarrow> bytes \<Rightarrow> body effect" where
  "get_job_input c w i j = opened c w Get (ascii ''get_job_input'') (job_only i j)"

definition get_job_stderr :: "client \<Rightarrow> world \<Rightarrow> bytes \<Rightarrow> bytes \<Rightarrow> bytes effect" where
  "get_job_stderr c w i j = command c w Get ''get_job_stderr'' (job_only i j) None Heavy"

section \<open>Lemmas\<close>

definition ordered_map :: "yson_value \<Rightarrow> bool" where
  "ordered_map v = (case node v of Map m \<Rightarrow> btree_wf m | _ \<Rightarrow> True)"

lemma map_or_empty_dict:
  assumes "\<And>existing. v = Some existing \<Longrightarrow> ordered_map existing"
  shows "is_dict (map_or_empty v)"
  using assms
  by (auto simp: map_or_empty_def is_dict_def ordered_map_def yson_empty_map_def btree_wf_def split: option.split yson_node.splits)

lemma map_or_empty_field: "yson_field (map_or_empty v) key = Option.bind v (\<lambda>existing. yson_field existing key)"
  by (auto simp: map_or_empty_def yson_field_def yson_empty_map_def split: option.split yson_node.splits)

text \<open>An option of a pool tree, in the parameters of an operation.\<close>

definition tree_option :: "yson_value \<Rightarrow> bytes \<Rightarrow> bytes \<Rightarrow> yson_value option" where
  "tree_option params tree key =
     Option.bind (Option.bind (tree_options params) (\<lambda>trees. yson_field trees tree)) (\<lambda>options. yson_field options key)"

section \<open>Properties\<close>

text \<open>C18: naming the pool of one tree never panics and disturbs nothing else: whatever the caller put into
  the parameters before, a value that is not a dict included, the pool of that tree is the one given, every
  other option of that tree and of every other tree stands as it was, and so does every other parameter.\<close>

theorem pool_in_tree_merges:
  assumes "is_dict params"
    and "\<And>trees. tree_options params = Some trees \<Longrightarrow> ordered_map trees \<and>
      (\<forall>t options. yson_field trees t = Some options \<longrightarrow> ordered_map options)"
  shows "\<exists>p. pool_in_tree tree pool params = Some p \<and> is_dict p \<and>
    (\<forall>t k. tree_option p t k =
       (if t = tree \<and> k = ascii ''pool'' then Some (yson_str pool) else tree_option params t k)) \<and>
    (\<forall>k. k = ascii ''scheduling_options_per_pool_tree'' \<or> yson_field p k = yson_field params k)"
proof -
  let ?trees = "map_or_empty (tree_options params)" and ?key = "ascii ''scheduling_options_per_pool_tree''"
  have trees: "is_dict ?trees" using assms(2) by (intro map_or_empty_dict) blast
  have options: "is_dict (map_or_empty (yson_field ?trees tree))"
    using assms(2) by (intro map_or_empty_dict) (auto simp: map_or_empty_field bind_eq_Some_conv)
  obtain o1 where o1: "yson_insert (map_or_empty (yson_field ?trees tree)) (ascii ''pool'') (yson_str pool) = Some o1"
      "yson_field o1 = (yson_field (map_or_empty (yson_field ?trees tree)))(ascii ''pool'' \<mapsto> yson_str pool)"
    using yson_insert_dict [OF options] yson_inserted [OF options] by blast
  obtain t1 where t1: "yson_insert ?trees tree o1 = Some t1" "yson_field t1 = (yson_field ?trees)(tree \<mapsto> o1)"
    using yson_insert_dict [OF trees] yson_inserted [OF trees] by blast
  obtain p where p: "yson_insert params ?key t1 = Some p" "is_dict p" "yson_field p = (yson_field params)(?key \<mapsto> t1)"
    using yson_insert_dict [OF assms(1)] yson_inserted [OF assms(1)] by blast
  have "pool_in_tree tree pool params = Some p"
    using o1(1) t1(1) p(1) by (simp add: pool_in_tree_def put_def Let_def)
  moreover have "tree_option p t k = (if t = tree \<and> k = ascii ''pool'' then Some (yson_str pool) else tree_option params t k)" for t k
    using p(3) t1(2) o1(2)
    by (cases "yson_field params ?key") (simp_all add: tree_option_def tree_options_def map_or_empty_field)
  moreover have "k = ?key \<or> yson_field p k = yson_field params k" for k using p(3) by simp
  ultimately show ?thesis using p(2) by blast
qed

theorem pool_in_tree_merges_witness:
  "\<exists>p. pool_in_tree (ascii ''gpu'') (ascii ''research'')
     (yson_map [(ascii ''scheduling_options_per_pool_tree'', yson_int 1), (ascii ''weight'', yson_int 2)]) = Some p \<and>
     tree_option p (ascii ''gpu'') (ascii ''pool'') = Some (yson_str (ascii ''research'')) \<and>
     yson_field p (ascii ''weight'') = Some (yson_int 2)"
proof -
  let ?params = "yson_map [(ascii ''scheduling_options_per_pool_tree'', yson_int 1), (ascii ''weight'', yson_int 2)]"
  have trees: "ordered_map trees \<and> (\<forall>t options. yson_field trees t = Some options \<longrightarrow> ordered_map options)"
    if "tree_options ?params = Some trees" for trees
  proof -
    have "trees = yson_int 1" using that by (simp add: tree_options_def yson_map_dict(2) ascii_eq_iff)
    then show ?thesis by (simp add: ordered_map_def yson_int_def yson_field_def)
  qed
  obtain p where "pool_in_tree (ascii ''gpu'') (ascii ''research'') ?params = Some p"
    "tree_option p (ascii ''gpu'') (ascii ''pool'') = Some (yson_str (ascii ''research''))"
    "ascii ''weight'' = ascii ''scheduling_options_per_pool_tree'' \<or> yson_field p (ascii ''weight'') = yson_field ?params (ascii ''weight'')"
    using pool_in_tree_merges [of ?params "ascii ''gpu''" "ascii ''research''", OF yson_map_dict(1) trees] by auto
  then show ?thesis by (auto simp: yson_map_dict(2) ascii_eq_iff)
qed

end
