(* ===== verification/Client_Wait.thy ===== *)
theory Client_Wait
  imports Client_Operations
begin

text \<open>
  Waiting for an operation (\<open>wait_for_operation\<close> of \<open>crates/ytsaurus-client/src/lib.rs\<close>): the poll, and the
  diagnostics gathered when the operation failed. The loop sleeps between two polls and does not read
  the clock; whether it ends is for the cluster to say.
\<close>

definition REPORTED_JOBS :: "32 word" where "REPORTED_JOBS = 3"
definition STDERR_EXCERPT :: nat where "STDERR_EXCERPT = 4096"

definition without_retries :: "client \<Rightarrow> client" where
  "without_retries c = with_retries policy_none c"

text \<open>A command whose failure is part of what it is asked for.\<close>

definition quietly :: "'a effect \<Rightarrow> (command_error + 'a \<Rightarrow> 'b) \<Rightarrow> session \<Rightarrow> ('b \<times> session) option" where
  "quietly m f s = map_option (\<lambda>(r, s'). (f r, s')) (m s)"

definition stderr_excerpt :: "client \<Rightarrow> world \<Rightarrow> bytes \<Rightarrow> job_info \<Rightarrow> session \<Rightarrow> (bytes option \<times> session) option" where
  "stderr_excerpt c w i job =
     quietly (get_job_stderr c w i (ji_id job)) (\<lambda>r.
       case r of
         Inl _ \<Rightarrow> None
       | Inr raw \<Rightarrow> if raw = [] then None else Some (tail_text (from_utf8_lossy raw) STDERR_EXCERPT))"

fun job_failures :: "client \<Rightarrow> world \<Rightarrow> bytes \<Rightarrow> job_info list \<Rightarrow> session \<Rightarrow> (job_failure list \<times> session) option" where
  "job_failures c w i [] s = Some ([], s)"
| "job_failures c w i (job # jobs) s =
     Option.bind (stderr_excerpt c w i job s) (\<lambda>(excerpt, s1).
       map_option (\<lambda>(failures, s2).
         (\<lparr>jf_id = ji_id job, jf_address = ji_address job, jf_error = ji_error job, jf_stderr = excerpt\<rparr> # failures, s2))
       (job_failures c w i jobs s1))"

definition failed_jobs :: "client \<Rightarrow> world \<Rightarrow> bytes \<Rightarrow> session \<Rightarrow> (job_failure list \<times> session) option" where
  "failed_jobs c w i s =
     (if \<not> cl_job_diagnostics c then Some ([], s)
      else Option.bind (list_jobs c w i (Some (ascii ''failed'')) REPORTED_JOBS s) (\<lambda>(r, s1).
             job_failures c w i (take (unat REPORTED_JOBS) (case r of Inr jobs \<Rightarrow> jobs | Inl _ \<Rightarrow> [])) s1))"

definition result_summary :: "bytes \<Rightarrow> bytes option" where
  "result_summary body =
     (case strip_envelope body (ascii ''get_operation'') of
        Inl _ \<Rightarrow> None
      | Inr document \<Rightarrow>
          Option.bind (Option.bind (yson_field document (ascii ''result'')) (\<lambda>r. yson_field r (ascii ''error''))) error_summary)"

definition operation_error :: "client \<Rightarrow> world \<Rightarrow> bytes \<Rightarrow> session \<Rightarrow> (bytes option \<times> session) option" where
  "operation_error c w i =
     quietly (get_operation_body c w [(ascii ''operation_id'', yson_str i)] [ascii ''result'']) (\<lambda>r.
       case r of
         Inl _ \<Rightarrow> None
       | Inr body \<Rightarrow> or_option (result_summary body) (Some (truncate_text (from_utf8_lossy body) 600)))"

definition failure_report :: "client \<Rightarrow> world \<Rightarrow> bytes \<Rightarrow> bytes \<Rightarrow> unit effect" where
  "failure_report c w i state s =
     Option.bind (operation_error (without_retries c) w i s) (\<lambda>(error, s1).
     map_option (\<lambda>(jobs, s2). (Inl (Operation_failed i state error jobs), s2)) (failed_jobs (without_retries c) w i s1))"

definition FINAL_FAILURES :: "bytes list" where "FINAL_FAILURES = [ascii ''failed'', ascii ''aborted'']"

partial_function (option) wait_for_operation ::
  "client \<Rightarrow> world \<Rightarrow> bytes \<Rightarrow> session \<Rightarrow> ((command_error + unit) \<times> session) option" where
  "wait_for_operation c w i s =
     Option.bind (operation_status_now c w i s) (\<lambda>(r, s').
       case r of
         Inl e \<Rightarrow> Some (Inl e, s')
       | Inr status \<Rightarrow>
           if os_state status = ascii ''completed'' then Some (Inr (), s')
           else if os_state status \<in> set FINAL_FAILURES then failure_report c w i (os_state status) s'
           else wait_for_operation c w i (slept (cl_poll_interval c) s'))"

section \<open>The handle of an operation\<close>

text \<open>The methods of \<open>Operation\<close>: the commands of its client on its id.\<close>

definition handle_get :: "world \<Rightarrow> operation \<Rightarrow> bytes list \<Rightarrow> yson_value effect" where
  "handle_get w h = get_operation (op_client h) w (op_id h)"
definition handle_state :: "world \<Rightarrow> operation \<Rightarrow> bytes effect" where
  "handle_state w h = operation_state (op_client h) w (op_id h)"
definition handle_suspended :: "world \<Rightarrow> operation \<Rightarrow> bool effect" where
  "handle_suspended w h = operation_suspended (op_client h) w (op_id h)"
definition handle_status :: "world \<Rightarrow> operation \<Rightarrow> operation_status effect" where
  "handle_status w h = operation_status_now (op_client h) w (op_id h)"
definition handle_wait :: "world \<Rightarrow> operation \<Rightarrow> unit effect" where
  "handle_wait w h = wait_for_operation (op_client h) w (op_id h)"
definition handle_abort :: "world \<Rightarrow> operation \<Rightarrow> bytes option \<Rightarrow> unit effect" where
  "handle_abort w h = abort_operation (op_client h) w (op_id h)"
definition handle_suspend :: "world \<Rightarrow> operation \<Rightarrow> bool \<Rightarrow> unit effect" where
  "handle_suspend w h = suspend_operation (op_client h) w (op_id h)"
definition handle_resume :: "world \<Rightarrow> operation \<Rightarrow> unit effect" where
  "handle_resume w h = resume_operation (op_client h) w (op_id h)"
definition handle_complete :: "world \<Rightarrow> operation \<Rightarrow> unit effect" where
  "handle_complete w h = complete_operation (op_client h) w (op_id h)"
definition handle_update_parameters :: "world \<Rightarrow> operation \<Rightarrow> yson_value \<Rightarrow> unit effect" where
  "handle_update_parameters w h = update_operation_parameters (op_client h) w (op_id h)"
definition handle_error :: "world \<Rightarrow> operation \<Rightarrow> bytes option effect" where
  "handle_error w h = operation_result_error (op_client h) w (op_id h)"
definition handle_jobs :: "world \<Rightarrow> operation \<Rightarrow> bytes option \<Rightarrow> 32 word \<Rightarrow> job_info list effect" where
  "handle_jobs w h = list_jobs (op_client h) w (op_id h)"
definition handle_job :: "world \<Rightarrow> operation \<Rightarrow> bytes \<Rightarrow> job_info effect" where
  "handle_job w h = get_job (op_client h) w (op_id h)"
definition handle_job_input :: "world \<Rightarrow> operation \<Rightarrow> bytes \<Rightarrow> body effect" where
  "handle_job_input w h = get_job_input (op_client h) w (op_id h)"
definition handle_job_stderr :: "world \<Rightarrow> operation \<Rightarrow> bytes \<Rightarrow> bytes effect" where
  "handle_job_stderr w h = get_job_stderr (op_client h) w (op_id h)"
definition handle_events :: "world \<Rightarrow> operation \<Rightarrow> operation_event list effect" where
  "handle_events w h = list_operation_events (op_client h) w (op_id h)"
definition handle_statistics :: "world \<Rightarrow> operation \<Rightarrow> yson_value effect" where
  "handle_statistics w h = job_statistics (op_client h) w (op_id h)"
definition handle_custom_statistics :: "world \<Rightarrow> operation \<Rightarrow> yson_value effect" where
  "handle_custom_statistics w h = custom_statistics (op_client h) w (op_id h)"
definition handle_statistic_sum :: "world \<Rightarrow> operation \<Rightarrow> bytes \<Rightarrow> i64 option effect" where
  "handle_statistic_sum w h = statistic_sum (op_client h) w (op_id h)"
definition handle_job_statistic_sum :: "world \<Rightarrow> operation \<Rightarrow> bytes \<Rightarrow> i64 option effect" where
  "handle_job_statistic_sum w h = job_statistic_sum (op_client h) w (op_id h)"

section \<open>Lemmas\<close>

text \<open>The polls of a wait, one after another, as long as the operation goes on; and how a wait ends on the
  first answer that is not such.\<close>

definition ongoing :: "command_error + operation_status \<Rightarrow> bool" where
  "ongoing r = (case r of Inl _ \<Rightarrow> False | Inr status \<Rightarrow> os_state status \<notin> {ascii ''completed'', ascii ''failed'', ascii ''aborted''})"

fun polls :: "client \<Rightarrow> world \<Rightarrow> bytes \<Rightarrow> nat \<Rightarrow> session \<Rightarrow> session option" where
  "polls c w i 0 s = Some s"
| "polls c w i (Suc n) s =
     (case operation_status_now c w i s of
        Some (r, s') \<Rightarrow> if ongoing r then polls c w i n (slept (cl_poll_interval c) s') else None
      | None \<Rightarrow> None)"

definition verdict :: "client \<Rightarrow> world \<Rightarrow> bytes \<Rightarrow> command_error + operation_status \<Rightarrow> unit effect" where
  "verdict c w i r s =
     (case r of
        Inl e \<Rightarrow> Some (Inl e, s)
      | Inr status \<Rightarrow> if os_state status = ascii ''completed'' then Some (Inr (), s) else failure_report c w i (os_state status) s)"

lemma wait_unfold:
  "wait_for_operation c w i s =
     (case operation_status_now c w i s of
        None \<Rightarrow> None
      | Some (r, s') \<Rightarrow> if ongoing r then wait_for_operation c w i (slept (cl_poll_interval c) s') else verdict c w i r s')"
proof (cases "operation_status_now c w i s")
  case None
  then show ?thesis by (subst wait_for_operation.simps) simp
next
  case (Some x)
  obtain r s' where x: "x = (r, s')" by fastforce
  show ?thesis
  proof (cases r)
    case (Inl e)
    then show ?thesis using Some x by (subst wait_for_operation.simps) (simp add: ongoing_def verdict_def)
  next
    case (Inr status)
    then show ?thesis using Some x
      by (subst wait_for_operation.simps) (simp add: ongoing_def verdict_def FINAL_FAILURES_def ascii_eq_iff)
  qed
qed

lemma wait_after_polls:
  "polls c w i n s = Some s0 \<Longrightarrow> wait_for_operation c w i s = wait_for_operation c w i s0"
proof (induction n arbitrary: s)
  case (Suc n)
  then show ?case using wait_unfold [of c w i s] by (auto split: option.splits if_splits)
qed simp

definition ends_by :: "client \<Rightarrow> world \<Rightarrow> bytes \<Rightarrow> session \<Rightarrow> (command_error + unit) \<times> session \<Rightarrow> bool" where
  "ends_by c w i s x = (\<exists>n s0 r s1. polls c w i n s = Some s0 \<and> operation_status_now c w i s0 = Some (r, s1) \<and>
     \<not> ongoing r \<and> verdict c w i r s1 = Some x)"

lemma ends_by_step:
  assumes "operation_status_now c w i s = Some (r, s')" "ongoing r" "ends_by c w i (slept (cl_poll_interval c) s') x"
  shows "ends_by c w i s x"
proof -
  obtain n s0 q s1 where "polls c w i n (slept (cl_poll_interval c) s') = Some s0" "operation_status_now c w i s0 = Some (q, s1)" "\<not> ongoing q"
      "verdict c w i q s1 = Some x"
    using assms(3) unfolding ends_by_def by blast
  moreover from this assms have "polls c w i (Suc n) s = Some s0" by simp
  ultimately show ?thesis unfolding ends_by_def by blast
qed

lemma wait_ends_by:
  assumes "wait_for_operation c w i s = Some x"
  shows "ends_by c w i s x"
proof (rule wait_for_operation.raw_induct [OF _ assms, of ends_by], goal_cases)
  case (1 wait c w i s x)
  then obtain r s' where status: "operation_status_now c w i s = Some (r, s')"
    by (auto simp: bind_eq_Some_conv)
  show ?case
  proof (cases "ongoing r")
    case True
    then have "wait c w i (slept (cl_poll_interval c) s') = Some x"
      using 1(2) status by (auto simp: ongoing_def FINAL_FAILURES_def split: sum.splits)
    then show ?thesis using ends_by_step [OF status True] 1(1) by blast
  next
    case False
    then have "verdict c w i r s' = Some x"
      using 1(2) status by (auto simp: ongoing_def verdict_def FINAL_FAILURES_def split: sum.splits if_splits)
    then show ?thesis using status False unfolding ends_by_def by (intro exI [of _ 0] exI [of _ s]) auto
  qed
qed

lemma ends_by_wait: "ends_by c w i s x \<Longrightarrow> wait_for_operation c w i s = Some x"
  using wait_after_polls wait_unfold unfolding ends_by_def by fastforce

lemma wait_iff: "wait_for_operation c w i s = Some x \<longleftrightarrow> ends_by c w i s x"
  using wait_ends_by ends_by_wait by blast

text \<open>What is sent: polls, with the client's own retries, and the diagnostics, each tried once.\<close>

definition is_poll :: "client \<Rightarrow> bytes \<Rightarrow> sent \<Rightarrow> bool" where
  "is_poll c i m = (message_of ''get_operation''
     (get_operation_parameters [(ascii ''operation_id'', yson_str i)] [ascii ''state'', ascii ''suspended'']) m \<and>
     sn_policy m = tr_retries (cl_transport c))"

definition is_diagnostic :: "sent \<Rightarrow> bool" where
  "is_diagnostic m = (sn_command m \<in> ascii ` {''get_operation'', ''list_jobs'', ''get_job_stderr''} \<and> sn_policy m = policy_none)"

definition diagnosed :: "(session \<Rightarrow> ('a \<times> session) option) \<Rightarrow> nat \<Rightarrow> session \<Rightarrow> 'a \<Rightarrow> session \<Rightarrow> bool" where
  "diagnosed m n s x s' = (m s = Some (x, s') \<and> (\<exists>ds. ss_sent s' = ss_sent s @ ds \<and> list_all is_diagnostic ds \<and> length ds \<le> n))"

lemma policy_without_retries [simp]: "tr_retries (cl_transport (without_retries c)) = policy_none"
  by (simp add: without_retries_def with_retries_def)

lemma diagnostics_without_retries [simp]: "cl_job_diagnostics (without_retries c) = cl_job_diagnostics c"
  by (simp add: without_retries_def with_retries_def)

lemma command_sent_once:
  assumes "is_dict parameters"
  shows "\<exists>r s' m. command c w verb name parameters payload rep s = Some (r, s') \<and> ss_sent s' = ss_sent s @ [m] \<and>
    message_of name parameters m \<and> sn_policy m = tr_retries (cl_transport c)"
  using command_with_total [OF assms, of c w verb "ascii name" payload rep None s]
  unfolding command_def message_of_def by metis

lemma get_operation_parameters_dict [simp]: "is_dict (get_operation_parameters params wanted)"
  by (simp add: get_operation_parameters_def)

lemma status_sent:
  "\<exists>r s' m. operation_status_now c w i s = Some (r, s') \<and> ss_sent s' = ss_sent s @ [m] \<and> is_poll c i m"
proof -
  let ?p = "get_operation_parameters [(ascii ''operation_id'', yson_str i)] [ascii ''state'', ascii ''suspended'']"
  obtain r s' m where "command c w Get ''get_operation'' ?p None Freely s = Some (r, s')" "ss_sent s' = ss_sent s @ [m]"
    "message_of ''get_operation'' ?p m" "sn_policy m = tr_retries (cl_transport c)"
    using command_sent_once [of ?p c w Get "''get_operation''" None Freely s] by auto
  moreover from this have "\<exists>q. operation_status_now c w i s = Some (q, s')"
    by (cases r) (auto simp: operation_status_now_def get_operation_def get_operation_inner_def get_operation_body_def then_do_def
        split: sum.split)
  ultimately show ?thesis by (auto simp: is_poll_def)
qed

lemma error_diagnosed: "\<exists>x s'. diagnosed (operation_error (without_retries c) w i) 1 s x s'"
proof -
  let ?p = "get_operation_parameters [(ascii ''operation_id'', yson_str i)] [ascii ''result'']"
  obtain r s' m where "command (without_retries c) w Get ''get_operation'' ?p None Freely s = Some (r, s')" "ss_sent s' = ss_sent s @ [m]"
    "message_of ''get_operation'' ?p m" "sn_policy m = policy_none"
    using command_sent_once [of ?p "without_retries c" w Get "''get_operation''" None Freely s] by auto
  then show ?thesis
    by (simp add: diagnosed_def operation_error_def quietly_def get_operation_body_def is_diagnostic_def message_of_def)
qed

lemma excerpt_diagnosed: "\<exists>x s'. diagnosed (stderr_excerpt (without_retries c) w i job) 1 s x s'"
proof -
  let ?p = "job_only i (ji_id job)"
  have "is_dict ?p" by (simp add: job_only_def)
  then obtain r s' m where "command (without_retries c) w Get ''get_job_stderr'' ?p None Heavy s = Some (r, s')"
    "ss_sent s' = ss_sent s @ [m]" "message_of ''get_job_stderr'' ?p m" "sn_policy m = policy_none"
    using command_sent_once [of ?p "without_retries c" w Get "''get_job_stderr''" None Heavy s] by auto
  then show ?thesis
    by (simp add: diagnosed_def stderr_excerpt_def quietly_def get_job_stderr_def is_diagnostic_def message_of_def)
qed

lemma failures_diagnosed:
  "\<exists>x s'. diagnosed (job_failures (without_retries c) w i jobs) (length jobs) s x s' \<and> length x = length jobs"
proof (induction jobs arbitrary: s)
  case (Cons job jobs)
  obtain x s1 ds1 where "stderr_excerpt (without_retries c) w i job s = Some (x, s1)" "ss_sent s1 = ss_sent s @ ds1"
    "list_all is_diagnostic ds1" "length ds1 \<le> 1"
    using excerpt_diagnosed [of c w i job s] by (auto simp: diagnosed_def)
  moreover obtain xs s2 ds2 where "job_failures (without_retries c) w i jobs s1 = Some (xs, s2)" "ss_sent s2 = ss_sent s1 @ ds2"
    "list_all is_diagnostic ds2" "length ds2 \<le> length jobs" "length xs = length jobs"
    using Cons.IH [of s1] by (auto simp: diagnosed_def)
  ultimately show ?case by (simp add: diagnosed_def)
qed (simp add: diagnosed_def)

lemma failed_jobs_diagnosed:
  "\<exists>x s'. diagnosed (failed_jobs (without_retries c) w i) (if cl_job_diagnostics c then 4 else 0) s x s' \<and>
     length x \<le> (if cl_job_diagnostics c then 3 else 0)"
proof (cases "cl_job_diagnostics c")
  case True
  let ?p = "yson_map [(ascii ''operation_id'', yson_str i), (ascii ''limit'', yson_int (ucast REPORTED_JOBS)),
    (ascii ''state'', yson_str (ascii ''failed''))]"
  obtain r s1 m where l: "command (without_retries c) w Get ''list_jobs'' ?p None Freely s = Some (r, s1)" "ss_sent s1 = ss_sent s @ [m]"
    "message_of ''list_jobs'' ?p m" "sn_policy m = policy_none"
    using command_sent_once [of ?p "without_retries c" w Get "''list_jobs''" None Freely s] by auto
  then obtain q where q: "list_jobs (without_retries c) w i (Some (ascii ''failed'')) REPORTED_JOBS s = Some (q, s1)"
    by (cases r) (simp_all add: list_jobs_def then_do_def)
  let ?jobs = "take (unat REPORTED_JOBS) (case q of Inr jobs \<Rightarrow> jobs | Inl _ \<Rightarrow> [])"
  obtain xs s2 ds where "job_failures (without_retries c) w i ?jobs s1 = Some (xs, s2)" "ss_sent s2 = ss_sent s1 @ ds"
    "list_all is_diagnostic ds" "length ds \<le> length ?jobs" "length xs = length ?jobs"
    using failures_diagnosed [of c w i ?jobs s1] by (auto simp: diagnosed_def)
  moreover have "length ?jobs \<le> 3" by (simp add: REPORTED_JOBS_def)
  moreover from calculation have "length ds \<le> 3" by linarith
  moreover have "is_diagnostic m" using l(3,4) by (simp add: is_diagnostic_def message_of_def)
  ultimately have "diagnosed (failed_jobs (without_retries c) w i) 4 s xs s2" "length xs \<le> 3"
    using l(2) q True by (simp_all add: diagnosed_def failed_jobs_def)
  then show ?thesis using True by auto
qed (simp add: diagnosed_def failed_jobs_def)

text \<open>How the last answer decides the wait: a failed poll and a completed operation at once, a failed one with at
  most three jobs, after at most five more commands, and no job when the client does not ask for them.\<close>

definition decided :: "client \<Rightarrow> bytes \<Rightarrow> command_error + operation_status \<Rightarrow> command_error + unit \<Rightarrow> sent list \<Rightarrow> bool" where
  "decided c i r q ds =
     (case r of
        Inl e \<Rightarrow> q = Inl e \<and> ds = []
      | Inr status \<Rightarrow>
          if os_state status = ascii ''completed'' then q = Inr () \<and> ds = []
          else os_state status \<in> {ascii ''failed'', ascii ''aborted''} \<and> list_all is_diagnostic ds \<and>
            (\<exists>error jobs. q = Inl (Operation_failed i (os_state status) error jobs) \<and>
               length jobs \<le> (if cl_job_diagnostics c then 3 else 0) \<and> length ds \<le> (if cl_job_diagnostics c then 5 else 1)))"

lemma verdict_decided:
  assumes "\<not> ongoing r"
  shows "\<exists>q s' ds. verdict c w i r s = Some (q, s') \<and> ss_sent s' = ss_sent s @ ds \<and> decided c i r q ds"
proof (cases r)
  case (Inl e)
  then show ?thesis by (simp add: verdict_def decided_def)
next
  case (Inr status)
  show ?thesis
  proof (cases "os_state status = ascii ''completed''")
    case True
    then show ?thesis using Inr by (simp add: verdict_def decided_def)
  next
    case False
    obtain x s1 ds1 where "operation_error (without_retries c) w i s = Some (x, s1)" "ss_sent s1 = ss_sent s @ ds1"
      "list_all is_diagnostic ds1" "length ds1 \<le> 1"
      using error_diagnosed [of c w i s] by (auto simp: diagnosed_def)
    moreover obtain xs s2 ds2 where "failed_jobs (without_retries c) w i s1 = Some (xs, s2)" "ss_sent s2 = ss_sent s1 @ ds2"
      "list_all is_diagnostic ds2" "length ds2 \<le> (if cl_job_diagnostics c then 4 else 0)"
      "length xs \<le> (if cl_job_diagnostics c then 3 else 0)"
      using failed_jobs_diagnosed [of c w i s1] unfolding diagnosed_def by blast
    ultimately show ?thesis using Inr False assms
      by (intro exI [of _ "Inl (Operation_failed i (os_state status) x xs)"] exI [of _ s2] exI [of _ "ds1 @ ds2"])
        (auto simp: verdict_def decided_def failure_report_def ongoing_def split: if_splits)
  qed
qed

lemma polls_sent:
  "polls c w i n s = Some s0 \<Longrightarrow> \<exists>ms. ss_sent s0 = ss_sent s @ ms \<and> length ms = n \<and> list_all (is_poll c i) ms"
proof (induction n arbitrary: s)
  case (Suc n)
  obtain r s1 m where "operation_status_now c w i s = Some (r, s1)" "ss_sent s1 = ss_sent s @ [m]" "is_poll c i m"
    using status_sent by blast
  moreover from this have "polls c w i n (slept (cl_poll_interval c) s1) = Some s0" using Suc.prems by (auto split: if_splits)
  moreover from Suc.IH [OF this] obtain ms where "ss_sent s0 = ss_sent s1 @ ms" "length ms = n" "list_all (is_poll c i) ms"
    by auto
  ultimately show ?case by (intro exI [of _ "m # ms"]) simp
qed simp

section \<open>Properties\<close>

text \<open>C16: a wait follows the operation. It returns exactly when some poll, after polls that all found the operation
  going on, fails or finds it over; it says the operation completed only when that last answer did, and
  that it failed only with the state that answer named; up to there it has sent nothing but polls; and
  the diagnostics of a failure are at most five commands, each tried once, whose own failures never
  change the verdict.\<close>

theorem wait_follows_the_operation:
  "(wait_for_operation c w i s \<noteq> None \<longleftrightarrow>
     (\<exists>n s0 r s1. polls c w i n s = Some s0 \<and> operation_status_now c w i s0 = Some (r, s1) \<and> \<not> ongoing r)) \<and>
   (case wait_for_operation c w i s of
      None \<Rightarrow> True
    | Some (q, s') \<Rightarrow>
        \<exists>s0 r s1 ms ds. operation_status_now c w i s0 = Some (r, s1) \<and> ss_sent s1 = ss_sent s @ ms \<and> ms \<noteq> [] \<and>
          list_all (is_poll c i) ms \<and> ss_sent s' = ss_sent s1 @ ds \<and> decided c i r q ds)"
proof
  show "wait_for_operation c w i s \<noteq> None \<longleftrightarrow>
     (\<exists>n s0 r s1. polls c w i n s = Some s0 \<and> operation_status_now c w i s0 = Some (r, s1) \<and> \<not> ongoing r)"
    using wait_iff [of c w i s] verdict_decided [of _ c w i] unfolding ends_by_def by (metis not_None_eq)
  show "case wait_for_operation c w i s of
      None \<Rightarrow> True
    | Some (q, s') \<Rightarrow>
        \<exists>s0 r s1 ms ds. operation_status_now c w i s0 = Some (r, s1) \<and> ss_sent s1 = ss_sent s @ ms \<and> ms \<noteq> [] \<and>
          list_all (is_poll c i) ms \<and> ss_sent s' = ss_sent s1 @ ds \<and> decided c i r q ds"
  proof (cases "wait_for_operation c w i s")
    case (Some x)
    then obtain n s0 r s1 where p: "polls c w i n s = Some s0" "operation_status_now c w i s0 = Some (r, s1)" "\<not> ongoing r"
        "verdict c w i r s1 = Some x"
      using wait_iff unfolding ends_by_def by blast
    obtain ms where ms: "ss_sent s0 = ss_sent s @ ms" "list_all (is_poll c i) ms" using polls_sent [OF p(1)] by blast
    obtain m where m: "ss_sent s1 = ss_sent s0 @ [m]" "is_poll c i m" using status_sent [of c w i s0] p(2) by auto
    obtain q s' ds where "x = (q, s')" "ss_sent s' = ss_sent s1 @ ds" "decided c i r q ds"
      using verdict_decided [OF p(3), of c w i s1] p(4) by auto
    moreover have "ss_sent s1 = ss_sent s @ (ms @ [m])" "list_all (is_poll c i) (ms @ [m])" "ms @ [m] \<noteq> []"
      using ms m by simp_all
    ultimately show ?thesis unfolding Some prod.case option.case using p(2) by blast
  qed simp
qed

end
