(* ===== verification/Client_Spec.thy ===== *)
theory Client_Spec
  imports Client_Wait Client_Tables
begin

text \<open>
  \<open>crates/ytsaurus-client/src/spec.rs\<close> and the commands of \<open>lib.rs\<close> that start an operation: the specs,
  their builders, what they are rendered to, and what is refused before anything is sent.
\<close>

section \<open>Entries\<close>

text \<open>A spec is a map built by inserting its entries in order, so that a later one replaces an earlier one of
  the same key; \<open>yson_map\<close> of the list of entries.\<close>

type_synonym entries = "(bytes \<times> yson_value) list"

definition entry :: "string \<Rightarrow> yson_value \<Rightarrow> entries" where "entry key v = [(ascii key, v)]"

definition entry_if :: "bool \<Rightarrow> string \<Rightarrow> yson_value \<Rightarrow> entries" where
  "entry_if b key v = (if b then [(ascii key, v)] else [])"

definition entry_of :: "'a option \<Rightarrow> string \<Rightarrow> ('a \<Rightarrow> yson_value) \<Rightarrow> entries" where
  "entry_of x key f = (case x of Some x \<Rightarrow> [(ascii key, f x)] | None \<Rightarrow> [])"

definition strings :: "bytes list \<Rightarrow> yson_value" where "strings xs = yson_list (map yson_str xs)"

definition named_file :: "bytes \<Rightarrow> bytes \<Rightarrow> yson_value" where
  "named_file path name = yson_with_attributes (yson_str path) [(ascii ''file_name'', yson_str name)]"

text \<open>A Skiff format that does not have one schema for each table.\<close>

definition skiff_table_mismatch :: "format_owner \<Rightarrow> data_format \<Rightarrow> nat \<Rightarrow> string \<Rightarrow> command_error option" where
  "skiff_table_mismatch owner format tables noun =
     Option.bind (data_format_as_skiff format) (\<lambda>f.
       if length (table_schemas f) = tables then None
       else Some (Skiff_tables_mismatch owner (length (table_schemas f)) tables noun))"

datatype operation_type =
    Map_operation | Map_reduce_operation | Reduce_operation | Sort_operation | Vanilla_operation | Merge_operation
  | Erase_operation | Remote_copy_operation | Join_reduce_operation

fun operation_type_name :: "operation_type \<Rightarrow> string" where
  "operation_type_name Map_operation = ''map''"
| "operation_type_name Map_reduce_operation = ''map_reduce''"
| "operation_type_name Reduce_operation = ''reduce''"
| "operation_type_name Sort_operation = ''sort''"
| "operation_type_name Vanilla_operation = ''vanilla''"
| "operation_type_name Merge_operation = ''merge''"
| "operation_type_name Erase_operation = ''erase''"
| "operation_type_name Remote_copy_operation = ''remote_copy''"
| "operation_type_name Join_reduce_operation = ''join_reduce''"

definition filter_kind :: "operation_type \<Rightarrow> builder" where
  "filter_kind t = put ''type'' (yson_str (ascii (operation_type_name t)))"

section \<open>The user's part of a job\<close>

record user_job =
  uj_command :: bytes
  uj_files :: "yson_value list"
  uj_memory_limit :: "i64 option"
  uj_environment :: "(bytes \<times> bytes) list"
  uj_input_format :: data_format
  uj_output_format :: data_format

definition user_job_new :: "bytes \<Rightarrow> user_job" where
  "user_job_new job_command =
     \<lparr>uj_command = job_command, uj_files = [], uj_memory_limit = None, uj_environment = [],
      uj_input_format = Yson_data Binary, uj_output_format = Yson_data Binary\<rparr>"

definition job_with_formats :: "data_format \<Rightarrow> data_format \<Rightarrow> user_job \<Rightarrow> user_job" where
  "job_with_formats input output_format job = job\<lparr>uj_input_format := input, uj_output_format := output_format\<rparr>"

definition job_with_file :: "yson_value \<Rightarrow> user_job \<Rightarrow> user_job" where
  "job_with_file file job = job\<lparr>uj_files := uj_files job @ [file]\<rparr>"

definition job_with_memory_limit :: "i64 \<Rightarrow> user_job \<Rightarrow> user_job" where
  "job_with_memory_limit limit job = job\<lparr>uj_memory_limit := Some limit\<rparr>"

definition job_with_env :: "bytes \<Rightarrow> bytes \<Rightarrow> user_job \<Rightarrow> user_job" where
  "job_with_env key v job = job\<lparr>uj_environment := uj_environment job @ [(key, v)]\<rparr>"

definition job_entries :: "user_job \<Rightarrow> entries" where
  "job_entries job =
     entry ''command'' (yson_str (uj_command job)) @
     entry ''input_format'' (data_format_to_yson (uj_input_format job)) @
     entry ''output_format'' (data_format_to_yson (uj_output_format job)) @
     entry_if (uj_files job \<noteq> []) ''file_paths'' (yson_list (uj_files job)) @
     entry_of (uj_memory_limit job) ''memory_limit'' yson_int @
     entry_if (uj_environment job \<noteq> []) ''environment'' (yson_map (map (\<lambda>(k, v). (k, yson_str v)) (uj_environment job)))"

definition user_job_to_yson :: "user_job \<Rightarrow> yson_value" where
  "user_job_to_yson job = yson_map (job_entries job)"

section \<open>Map\<close>

record map_spec =
  ms_mapper :: user_job
  ms_inputs :: "bytes list"
  ms_outputs :: "bytes list"
  ms_job_count :: "i64 option"
  ms_input_table_index :: bool
  ms_extra :: entries

definition map_spec_new :: "bytes \<Rightarrow> bytes list \<Rightarrow> bytes list \<Rightarrow> map_spec" where
  "map_spec_new mapper inputs outputs =
     \<lparr>ms_mapper = user_job_new mapper, ms_inputs = inputs, ms_outputs = outputs, ms_job_count = None,
      ms_input_table_index = False, ms_extra = []\<rparr>"

definition map_with_local_file :: "bytes \<Rightarrow> map_spec \<Rightarrow> map_spec" where
  "map_with_local_file path s = s\<lparr>ms_mapper := job_with_file (yson_str path) (ms_mapper s)\<rparr>"

definition map_with_local_file_named :: "bytes \<Rightarrow> bytes \<Rightarrow> map_spec \<Rightarrow> map_spec" where
  "map_with_local_file_named path name s = s\<lparr>ms_mapper := job_with_file (named_file path name) (ms_mapper s)\<rparr>"

definition map_with_memory_limit :: "i64 \<Rightarrow> map_spec \<Rightarrow> map_spec" where
  "map_with_memory_limit limit s = s\<lparr>ms_mapper := job_with_memory_limit limit (ms_mapper s)\<rparr>"

definition map_with_formats :: "data_format \<Rightarrow> data_format \<Rightarrow> map_spec \<Rightarrow> map_spec" where
  "map_with_formats input output_format s = s\<lparr>ms_mapper := job_with_formats input output_format (ms_mapper s)\<rparr>"

definition map_with_skiff_formats :: "skiff_format \<Rightarrow> skiff_format \<Rightarrow> map_spec \<Rightarrow> map_spec" where
  "map_with_skiff_formats input output_format = map_with_formats (Skiff_data input) (Skiff_data output_format)"

definition map_with_env :: "bytes \<Rightarrow> bytes \<Rightarrow> map_spec \<Rightarrow> map_spec" where
  "map_with_env key v s = s\<lparr>ms_mapper := job_with_env key v (ms_mapper s)\<rparr>"

definition map_with_input_table_index :: "map_spec \<Rightarrow> map_spec" where
  "map_with_input_table_index s = s\<lparr>ms_input_table_index := True\<rparr>"

definition map_with_job_count :: "i64 \<Rightarrow> map_spec \<Rightarrow> map_spec" where
  "map_with_job_count count s = s\<lparr>ms_job_count := Some count\<rparr>"

definition map_with_raw :: "bytes \<Rightarrow> yson_value \<Rightarrow> map_spec \<Rightarrow> map_spec" where
  "map_with_raw key v s = s\<lparr>ms_extra := ms_extra s @ [(key, v)]\<rparr>"

definition map_mismatch :: "map_spec \<Rightarrow> command_error option" where
  "map_mismatch s =
     or_option
       (skiff_table_mismatch (Job_format ''the mapper's input_format'') (uj_input_format (ms_mapper s)) (length (ms_inputs s)) ''input table'')
       (skiff_table_mismatch (Job_format ''the mapper's output_format'') (uj_output_format (ms_mapper s)) (length (ms_outputs s))
          ''output table'')"

definition map_entries :: "map_spec \<Rightarrow> entries" where
  "map_entries s =
     entry ''mapper'' (yson_map (job_entries (ms_mapper s) @
       entry_if (ms_input_table_index s) ''enable_input_table_index'' (yson_boolean True))) @
     entry ''input_table_paths'' (strings (ms_inputs s)) @
     entry ''output_table_paths'' (strings (ms_outputs s)) @
     entry_of (ms_job_count s) ''job_count'' yson_int"

definition map_spec_to_yson :: "map_spec \<Rightarrow> yson_value" where
  "map_spec_to_yson s = yson_map (map_entries s @ ms_extra s)"

section \<open>Map-reduce\<close>

record map_reduce_spec =
  mr_mapper :: "user_job option"
  mr_mapper_formats :: "(data_format \<times> data_format) option"
  mr_reducer :: user_job
  mr_files :: "yson_value list"
  mr_memory_limit :: "i64 option"
  mr_inputs :: "bytes list"
  mr_outputs :: "bytes list"
  mr_reduce_by :: "bytes list"
  mr_sort_by :: "bytes list"
  mr_key_switch :: bool
  mr_extra :: entries

definition map_reduce_spec_new :: "bytes \<Rightarrow> bytes list \<Rightarrow> bytes list \<Rightarrow> bytes list \<Rightarrow> map_reduce_spec" where
  "map_reduce_spec_new reducer inputs outputs reduce_by =
     \<lparr>mr_mapper = None, mr_mapper_formats = None, mr_reducer = user_job_new reducer, mr_files = [], mr_memory_limit = None,
      mr_inputs = inputs, mr_outputs = outputs, mr_reduce_by = reduce_by, mr_sort_by = [], mr_key_switch = True, mr_extra = []\<rparr>"

definition mr_with_mapper :: "bytes \<Rightarrow> map_reduce_spec \<Rightarrow> map_reduce_spec" where
  "mr_with_mapper mapper s = s\<lparr>mr_mapper := Some (user_job_new mapper)\<rparr>"

definition mr_with_mapper_formats :: "data_format \<Rightarrow> data_format \<Rightarrow> map_reduce_spec \<Rightarrow> map_reduce_spec" where
  "mr_with_mapper_formats input output_format s = s\<lparr>mr_mapper_formats := Some (input, output_format)\<rparr>"

definition mr_with_mapper_skiff_formats :: "skiff_format \<Rightarrow> skiff_format \<Rightarrow> map_reduce_spec \<Rightarrow> map_reduce_spec" where
  "mr_with_mapper_skiff_formats input output_format = mr_with_mapper_formats (Skiff_data input) (Skiff_data output_format)"

definition mr_with_reducer_formats :: "data_format \<Rightarrow> data_format \<Rightarrow> map_reduce_spec \<Rightarrow> map_reduce_spec" where
  "mr_with_reducer_formats input output_format s = s\<lparr>mr_reducer := job_with_formats input output_format (mr_reducer s)\<rparr>"

definition mr_with_reducer_skiff_formats :: "skiff_format \<Rightarrow> skiff_format \<Rightarrow> map_reduce_spec \<Rightarrow> map_reduce_spec" where
  "mr_with_reducer_skiff_formats input output_format = mr_with_reducer_formats (Skiff_data input) (Skiff_data output_format)"

definition mr_attach :: "yson_value \<Rightarrow> map_reduce_spec \<Rightarrow> map_reduce_spec" where
  "mr_attach file s = s\<lparr>mr_files := mr_files s @ [file]\<rparr>"

definition mr_with_local_file :: "bytes \<Rightarrow> map_reduce_spec \<Rightarrow> map_reduce_spec" where
  "mr_with_local_file path = mr_attach (yson_str path)"

definition mr_with_local_file_named :: "bytes \<Rightarrow> bytes \<Rightarrow> map_reduce_spec \<Rightarrow> map_reduce_spec" where
  "mr_with_local_file_named path name = mr_attach (named_file path name)"

definition mr_with_memory_limit :: "i64 \<Rightarrow> map_reduce_spec \<Rightarrow> map_reduce_spec" where
  "mr_with_memory_limit limit s = s\<lparr>mr_memory_limit := Some limit\<rparr>"

definition mr_with_sort_by :: "bytes list \<Rightarrow> map_reduce_spec \<Rightarrow> map_reduce_spec" where
  "mr_with_sort_by columns s = s\<lparr>mr_sort_by := columns\<rparr>"

definition mr_without_key_switch :: "map_reduce_spec \<Rightarrow> map_reduce_spec" where
  "mr_without_key_switch s = s\<lparr>mr_key_switch := False\<rparr>"

definition mr_with_raw :: "bytes \<Rightarrow> yson_value \<Rightarrow> map_reduce_spec \<Rightarrow> map_reduce_spec" where
  "mr_with_raw key v s = s\<lparr>mr_extra := mr_extra s @ [(key, v)]\<rparr>"

definition mr_phase :: "map_reduce_spec \<Rightarrow> user_job \<Rightarrow> (data_format \<times> data_format) option \<Rightarrow> yson_value" where
  "mr_phase s job0 formats =
     (let job1 = (case formats of Some (input, output_format) \<Rightarrow> job_with_formats input output_format job0 | None \<Rightarrow> job0);
          job2 = job1\<lparr>uj_files := uj_files job1 @ mr_files s\<rparr>
      in user_job_to_yson (if uj_memory_limit job2 = None then job2\<lparr>uj_memory_limit := mr_memory_limit s\<rparr> else job2))"

definition map_reduce_mismatch :: "map_reduce_spec \<Rightarrow> command_error option" where
  "map_reduce_mismatch s =
     or_option
       (if mr_mapper s = None then None
        else Option.bind (mr_mapper_formats s) (\<lambda>(input, _).
               skiff_table_mismatch (Job_format ''the mapper's input_format'') input (length (mr_inputs s)) ''input table''))
       (if list_ex (\<lambda>(key, _). key = ascii ''mapper_output_table_count'') (mr_extra s) then None
        else skiff_table_mismatch (Job_format ''the reducer's output_format'') (uj_output_format (mr_reducer s))
               (length (mr_outputs s)) ''output table'')"

definition KEY_SWITCH :: yson_value where
  "KEY_SWITCH = yson_map [(ascii ''control_attributes'', yson_map [(ascii ''enable_key_switch'', yson_boolean True)])]"

definition map_reduce_entries :: "map_reduce_spec \<Rightarrow> entries" where
  "map_reduce_entries s =
     entry ''reducer'' (mr_phase s (mr_reducer s) None) @
     entry ''input_table_paths'' (strings (mr_inputs s)) @
     entry ''output_table_paths'' (strings (mr_outputs s)) @
     entry ''reduce_by'' (strings (mr_reduce_by s)) @
     entry_of (mr_mapper s) ''mapper'' (\<lambda>mapper. mr_phase s mapper (mr_mapper_formats s)) @
     entry ''sort_by'' (strings (if mr_sort_by s = [] then mr_reduce_by s else mr_sort_by s)) @
     entry_if (mr_key_switch s) ''reduce_job_io'' KEY_SWITCH"

definition map_reduce_spec_to_yson :: "map_reduce_spec \<Rightarrow> yson_value" where
  "map_reduce_spec_to_yson s = yson_map (map_reduce_entries s @ mr_extra s)"

section \<open>Reduce\<close>

record reduce_spec =
  rs_reducer :: user_job
  rs_inputs :: "bytes list"
  rs_outputs :: "bytes list"
  rs_reduce_by :: "bytes list"
  rs_sort_by :: "bytes list"
  rs_job_count :: "i64 option"
  rs_key_switch :: bool
  rs_input_table_index :: bool
  rs_extra :: entries

definition reduce_spec_new :: "bytes \<Rightarrow> bytes list \<Rightarrow> bytes list \<Rightarrow> bytes list \<Rightarrow> reduce_spec" where
  "reduce_spec_new reducer inputs outputs reduce_by =
     \<lparr>rs_reducer = user_job_new reducer, rs_inputs = inputs, rs_outputs = outputs, rs_reduce_by = reduce_by, rs_sort_by = [],
      rs_job_count = None, rs_key_switch = True, rs_input_table_index = False, rs_extra = []\<rparr>"

definition reduce_with_local_file :: "bytes \<Rightarrow> reduce_spec \<Rightarrow> reduce_spec" where
  "reduce_with_local_file path s = s\<lparr>rs_reducer := job_with_file (yson_str path) (rs_reducer s)\<rparr>"

definition reduce_with_local_file_named :: "bytes \<Rightarrow> bytes \<Rightarrow> reduce_spec \<Rightarrow> reduce_spec" where
  "reduce_with_local_file_named path name s = s\<lparr>rs_reducer := job_with_file (named_file path name) (rs_reducer s)\<rparr>"

definition reduce_with_memory_limit :: "i64 \<Rightarrow> reduce_spec \<Rightarrow> reduce_spec" where
  "reduce_with_memory_limit limit s = s\<lparr>rs_reducer := job_with_memory_limit limit (rs_reducer s)\<rparr>"

definition reduce_with_formats :: "data_format \<Rightarrow> data_format \<Rightarrow> reduce_spec \<Rightarrow> reduce_spec" where
  "reduce_with_formats input output_format s = s\<lparr>rs_reducer := job_with_formats input output_format (rs_reducer s)\<rparr>"

definition reduce_with_skiff_formats :: "skiff_format \<Rightarrow> skiff_format \<Rightarrow> reduce_spec \<Rightarrow> reduce_spec" where
  "reduce_with_skiff_formats input output_format = reduce_with_formats (Skiff_data input) (Skiff_data output_format)"

definition reduce_with_env :: "bytes \<Rightarrow> bytes \<Rightarrow> reduce_spec \<Rightarrow> reduce_spec" where
  "reduce_with_env key v s = s\<lparr>rs_reducer := job_with_env key v (rs_reducer s)\<rparr>"

definition reduce_with_sort_by :: "bytes list \<Rightarrow> reduce_spec \<Rightarrow> reduce_spec" where
  "reduce_with_sort_by columns s = s\<lparr>rs_sort_by := columns\<rparr>"

definition reduce_with_job_count :: "i64 \<Rightarrow> reduce_spec \<Rightarrow> reduce_spec" where
  "reduce_with_job_count count s = s\<lparr>rs_job_count := Some count\<rparr>"

definition reduce_with_input_table_index :: "reduce_spec \<Rightarrow> reduce_spec" where
  "reduce_with_input_table_index s = s\<lparr>rs_input_table_index := True\<rparr>"

definition reduce_without_key_switch :: "reduce_spec \<Rightarrow> reduce_spec" where
  "reduce_without_key_switch s = s\<lparr>rs_key_switch := False\<rparr>"

definition reduce_with_raw :: "bytes \<Rightarrow> yson_value \<Rightarrow> reduce_spec \<Rightarrow> reduce_spec" where
  "reduce_with_raw key v s = s\<lparr>rs_extra := rs_extra s @ [(key, v)]\<rparr>"

definition reduce_mismatch :: "reduce_spec \<Rightarrow> command_error option" where
  "reduce_mismatch s =
     or_option
       (skiff_table_mismatch (Job_format ''the reducer's input_format'') (uj_input_format (rs_reducer s)) (length (rs_inputs s))
          ''input table'')
       (skiff_table_mismatch (Job_format ''the reducer's output_format'') (uj_output_format (rs_reducer s)) (length (rs_outputs s))
          ''output table'')"

definition reduce_entries :: "reduce_spec \<Rightarrow> entries" where
  "reduce_entries s =
     entry ''reducer'' (yson_map (job_entries (rs_reducer s) @
       entry_if (rs_input_table_index s) ''enable_input_table_index'' (yson_boolean True))) @
     entry ''input_table_paths'' (strings (rs_inputs s)) @
     entry ''output_table_paths'' (strings (rs_outputs s)) @
     entry ''reduce_by'' (strings (rs_reduce_by s)) @
     entry_if (rs_sort_by s \<noteq> []) ''sort_by'' (strings (rs_sort_by s)) @
     entry_of (rs_job_count s) ''job_count'' yson_int @
     entry_if (rs_key_switch s) ''job_io'' KEY_SWITCH"

definition reduce_spec_to_yson :: "reduce_spec \<Rightarrow> yson_value" where
  "reduce_spec_to_yson s = yson_map (reduce_entries s @ rs_extra s)"

section \<open>Sort, merge, erase, remote copy\<close>

record sort_spec =
  so_inputs :: "bytes list"
  so_output :: bytes
  so_sort_by :: "bytes list"
  so_extra :: entries

definition sort_spec_new :: "bytes list \<Rightarrow> bytes \<Rightarrow> bytes list \<Rightarrow> sort_spec" where
  "sort_spec_new inputs output_path columns = \<lparr>so_inputs = inputs, so_output = output_path, so_sort_by = columns, so_extra = []\<rparr>"

definition sort_with_raw :: "bytes \<Rightarrow> yson_value \<Rightarrow> sort_spec \<Rightarrow> sort_spec" where
  "sort_with_raw key v s = s\<lparr>so_extra := so_extra s @ [(key, v)]\<rparr>"

definition sort_spec_to_yson :: "sort_spec \<Rightarrow> yson_value" where
  "sort_spec_to_yson s = yson_map (
     entry ''input_table_paths'' (strings (so_inputs s)) @
     entry ''output_table_path'' (yson_str (so_output s)) @
     entry ''sort_by'' (strings (so_sort_by s)) @ so_extra s)"

datatype merge_mode = Unordered | Ordered | Sorted

fun merge_mode_name :: "merge_mode \<Rightarrow> string" where
  "merge_mode_name Unordered = ''unordered''"
| "merge_mode_name Ordered = ''ordered''"
| "merge_mode_name Sorted = ''sorted''"

record merge_spec =
  me_inputs :: "bytes list"
  me_output :: bytes
  me_mode :: merge_mode
  me_merge_by :: "bytes list"
  me_combine_chunks :: "bool option"
  me_force_transform :: "bool option"
  me_job_count :: "i64 option"
  me_extra :: entries

definition merge_spec_new :: "bytes list \<Rightarrow> bytes \<Rightarrow> merge_spec" where
  "merge_spec_new inputs output_path =
     \<lparr>me_inputs = inputs, me_output = output_path, me_mode = Unordered, me_merge_by = [], me_combine_chunks = None,
      me_force_transform = None, me_job_count = None, me_extra = []\<rparr>"

definition merge_with_mode :: "merge_mode \<Rightarrow> merge_spec \<Rightarrow> merge_spec" where
  "merge_with_mode mode s = s\<lparr>me_mode := mode\<rparr>"
definition merge_with_merge_by :: "bytes list \<Rightarrow> merge_spec \<Rightarrow> merge_spec" where
  "merge_with_merge_by columns s = s\<lparr>me_merge_by := columns\<rparr>"
definition merge_with_combine_chunks :: "bool \<Rightarrow> merge_spec \<Rightarrow> merge_spec" where
  "merge_with_combine_chunks combine s = s\<lparr>me_combine_chunks := Some combine\<rparr>"
definition merge_with_force_transform :: "bool \<Rightarrow> merge_spec \<Rightarrow> merge_spec" where
  "merge_with_force_transform force s = s\<lparr>me_force_transform := Some force\<rparr>"
definition merge_with_job_count :: "i64 \<Rightarrow> merge_spec \<Rightarrow> merge_spec" where
  "merge_with_job_count count s = s\<lparr>me_job_count := Some count\<rparr>"
definition merge_with_raw :: "bytes \<Rightarrow> yson_value \<Rightarrow> merge_spec \<Rightarrow> merge_spec" where
  "merge_with_raw key v s = s\<lparr>me_extra := me_extra s @ [(key, v)]\<rparr>"

definition merge_spec_to_yson :: "merge_spec \<Rightarrow> yson_value" where
  "merge_spec_to_yson s = yson_map (
     entry ''input_table_paths'' (strings (me_inputs s)) @
     entry ''output_table_path'' (yson_str (me_output s)) @
     entry ''mode'' (yson_str (ascii (merge_mode_name (me_mode s)))) @
     entry_if (me_merge_by s \<noteq> []) ''merge_by'' (strings (me_merge_by s)) @
     entry_of (me_combine_chunks s) ''combine_chunks'' yson_boolean @
     entry_of (me_force_transform s) ''force_transform'' yson_boolean @
     entry_of (me_job_count s) ''job_count'' yson_int @ me_extra s)"

record erase_spec =
  er_table :: bytes
  er_combine_chunks :: "bool option"
  er_extra :: entries

definition erase_spec_new :: "bytes \<Rightarrow> erase_spec" where
  "erase_spec_new table = \<lparr>er_table = table, er_combine_chunks = None, er_extra = []\<rparr>"
definition erase_with_combine_chunks :: "bool \<Rightarrow> erase_spec \<Rightarrow> erase_spec" where
  "erase_with_combine_chunks combine s = s\<lparr>er_combine_chunks := Some combine\<rparr>"
definition erase_with_raw :: "bytes \<Rightarrow> yson_value \<Rightarrow> erase_spec \<Rightarrow> erase_spec" where
  "erase_with_raw key v s = s\<lparr>er_extra := er_extra s @ [(key, v)]\<rparr>"

definition erase_spec_to_yson :: "erase_spec \<Rightarrow> yson_value" where
  "erase_spec_to_yson s = yson_map (
     entry ''table_path'' (yson_str (er_table s)) @ entry_of (er_combine_chunks s) ''combine_chunks'' yson_boolean @ er_extra s)"

record remote_copy_spec =
  rc_cluster_name :: bytes
  rc_inputs :: "bytes list"
  rc_output :: bytes
  rc_network_name :: "bytes option"
  rc_copy_attributes :: "bool option"
  rc_attribute_keys :: "bytes list"
  rc_extra :: entries

definition remote_copy_spec_new :: "bytes \<Rightarrow> bytes list \<Rightarrow> bytes \<Rightarrow> remote_copy_spec" where
  "remote_copy_spec_new cluster inputs output_path =
     \<lparr>rc_cluster_name = cluster, rc_inputs = inputs, rc_output = output_path, rc_network_name = None, rc_copy_attributes = None,
      rc_attribute_keys = [], rc_extra = []\<rparr>"
definition copy_with_network_name :: "bytes \<Rightarrow> remote_copy_spec \<Rightarrow> remote_copy_spec" where
  "copy_with_network_name network s = s\<lparr>rc_network_name := Some network\<rparr>"
definition copy_with_copy_attributes :: "bool \<Rightarrow> remote_copy_spec \<Rightarrow> remote_copy_spec" where
  "copy_with_copy_attributes b s = s\<lparr>rc_copy_attributes := Some b\<rparr>"
definition copy_with_attribute_keys :: "bytes list \<Rightarrow> remote_copy_spec \<Rightarrow> remote_copy_spec" where
  "copy_with_attribute_keys keys s = s\<lparr>rc_attribute_keys := keys\<rparr>"
definition copy_with_raw :: "bytes \<Rightarrow> yson_value \<Rightarrow> remote_copy_spec \<Rightarrow> remote_copy_spec" where
  "copy_with_raw key v s = s\<lparr>rc_extra := rc_extra s @ [(key, v)]\<rparr>"

definition remote_copy_spec_to_yson :: "remote_copy_spec \<Rightarrow> yson_value" where
  "remote_copy_spec_to_yson s = yson_map (
     entry ''cluster_name'' (yson_str (rc_cluster_name s)) @
     entry ''input_table_paths'' (strings (rc_inputs s)) @
     entry ''output_table_path'' (yson_str (rc_output s)) @
     entry_of (rc_network_name s) ''network_name'' yson_str @
     entry_of (rc_copy_attributes s) ''copy_attributes'' yson_boolean @
     entry_if (rc_attribute_keys s \<noteq> []) ''attribute_keys'' (strings (rc_attribute_keys s)) @ rc_extra s)"

section \<open>Vanilla\<close>

record vanilla_task =
  vt_name :: bytes
  vt_job :: user_job
  vt_job_count :: i64
  vt_outputs :: "bytes list"
  vt_extra :: entries

definition vanilla_task_new :: "bytes \<Rightarrow> bytes \<Rightarrow> i64 \<Rightarrow> vanilla_task" where
  "vanilla_task_new name job_command count =
     \<lparr>vt_name = name, vt_job = user_job_new job_command, vt_job_count = count, vt_outputs = [], vt_extra = []\<rparr>"

definition task_with_local_file :: "bytes \<Rightarrow> vanilla_task \<Rightarrow> vanilla_task" where
  "task_with_local_file path t = t\<lparr>vt_job := job_with_file (yson_str path) (vt_job t)\<rparr>"
definition task_with_local_file_named :: "bytes \<Rightarrow> bytes \<Rightarrow> vanilla_task \<Rightarrow> vanilla_task" where
  "task_with_local_file_named path name t = t\<lparr>vt_job := job_with_file (named_file path name) (vt_job t)\<rparr>"
definition task_with_outputs :: "bytes list \<Rightarrow> vanilla_task \<Rightarrow> vanilla_task" where
  "task_with_outputs paths t = t\<lparr>vt_outputs := paths\<rparr>"
definition task_with_memory_limit :: "i64 \<Rightarrow> vanilla_task \<Rightarrow> vanilla_task" where
  "task_with_memory_limit limit t = t\<lparr>vt_job := job_with_memory_limit limit (vt_job t)\<rparr>"
definition task_with_output_format :: "data_format \<Rightarrow> vanilla_task \<Rightarrow> vanilla_task" where
  "task_with_output_format output_format t = t\<lparr>vt_job := (vt_job t)\<lparr>uj_output_format := output_format\<rparr>\<rparr>"
definition task_with_skiff_output_format :: "skiff_format \<Rightarrow> vanilla_task \<Rightarrow> vanilla_task" where
  "task_with_skiff_output_format output_format = task_with_output_format (Skiff_data output_format)"
definition task_with_env :: "bytes \<Rightarrow> bytes \<Rightarrow> vanilla_task \<Rightarrow> vanilla_task" where
  "task_with_env key v t = t\<lparr>vt_job := job_with_env key v (vt_job t)\<rparr>"
definition task_with_raw :: "bytes \<Rightarrow> yson_value \<Rightarrow> vanilla_task \<Rightarrow> vanilla_task" where
  "task_with_raw key v t = t\<lparr>vt_extra := vt_extra t @ [(key, v)]\<rparr>"

definition vanilla_task_to_yson :: "vanilla_task \<Rightarrow> yson_value" where
  "vanilla_task_to_yson t = yson_map (job_entries (vt_job t) @
     entry ''job_count'' (yson_int (vt_job_count t)) @
     entry ''output_table_paths'' (strings (vt_outputs t)) @ vt_extra t)"

record vanilla_spec =
  vs_tasks :: "vanilla_task list"
  vs_extra :: entries

definition vanilla_spec_new :: "vanilla_task \<Rightarrow> vanilla_spec" where
  "vanilla_spec_new t = \<lparr>vs_tasks = [t], vs_extra = []\<rparr>"
definition vanilla_with_task :: "vanilla_task \<Rightarrow> vanilla_spec \<Rightarrow> vanilla_spec" where
  "vanilla_with_task t s = s\<lparr>vs_tasks := vs_tasks s @ [t]\<rparr>"
definition vanilla_with_raw :: "bytes \<Rightarrow> yson_value \<Rightarrow> vanilla_spec \<Rightarrow> vanilla_spec" where
  "vanilla_with_raw key v s = s\<lparr>vs_extra := vs_extra s @ [(key, v)]\<rparr>"

text \<open>The first name that was seen before.\<close>

fun first_repeated :: "bytes list \<Rightarrow> bytes list \<Rightarrow> bytes option" where
  "first_repeated seen [] = None"
| "first_repeated seen (name # names) = (if name \<in> set seen then Some name else first_repeated (name # seen) names)"

definition duplicate_task :: "vanilla_spec \<Rightarrow> bytes option" where
  "duplicate_task s = first_repeated [] (map vt_name (vs_tasks s))"

fun find_map :: "('a \<Rightarrow> 'b option) \<Rightarrow> 'a list \<Rightarrow> 'b option" where
  "find_map f [] = None"
| "find_map f (x # xs) = (case f x of Some y \<Rightarrow> Some y | None \<Rightarrow> find_map f xs)"

definition vanilla_mismatch :: "vanilla_spec \<Rightarrow> command_error option" where
  "vanilla_mismatch s =
     find_map (\<lambda>t. skiff_table_mismatch (Task_format (vt_name t)) (uj_output_format (vt_job t)) (length (vt_outputs t)) ''output table'')
       (vs_tasks s)"

definition vanilla_spec_to_yson :: "vanilla_spec \<Rightarrow> yson_value" where
  "vanilla_spec_to_yson s = yson_map (
     entry ''tasks'' (yson_map (map (\<lambda>t. (vt_name t, vanilla_task_to_yson t)) (vs_tasks s))) @ vs_extra s)"

section \<open>Starting\<close>

definition refuse_mismatch :: "command_error option \<Rightarrow> command_error + unit" where
  "refuse_mismatch refused = (case refused of Some e \<Rightarrow> Inl e | None \<Rightarrow> Inr ())"

definition start_kind :: "client \<Rightarrow> world \<Rightarrow> operation_type \<Rightarrow> yson_value \<Rightarrow> bytes effect" where
  "start_kind c w t spec = start_operation c w (ascii (operation_type_name t)) spec"

definition start_map :: "client \<Rightarrow> world \<Rightarrow> map_spec \<Rightarrow> bytes effect" where
  "start_map c w s = then_do (answer (refuse_mismatch (map_mismatch s))) (\<lambda>_. start_kind c w Map_operation (map_spec_to_yson s))"

definition start_map_reduce :: "client \<Rightarrow> world \<Rightarrow> map_reduce_spec \<Rightarrow> bytes effect" where
  "start_map_reduce c w s =
     then_do (answer (refuse_mismatch (map_reduce_mismatch s))) (\<lambda>_. start_kind c w Map_reduce_operation (map_reduce_spec_to_yson s))"

definition start_reduce :: "client \<Rightarrow> world \<Rightarrow> reduce_spec \<Rightarrow> bytes effect" where
  "start_reduce c w s =
     then_do (answer (refuse_mismatch (reduce_mismatch s))) (\<lambda>_. start_kind c w Reduce_operation (reduce_spec_to_yson s))"

definition start_sort :: "client \<Rightarrow> world \<Rightarrow> sort_spec \<Rightarrow> bytes effect" where
  "start_sort c w s = start_kind c w Sort_operation (sort_spec_to_yson s)"

definition start_vanilla :: "client \<Rightarrow> world \<Rightarrow> vanilla_spec \<Rightarrow> bytes effect" where
  "start_vanilla c w s =
     (case duplicate_task s of
        Some name \<Rightarrow> answer (Inl (Two_tasks_called name))
      | None \<Rightarrow>
          then_do (answer (refuse_mismatch (vanilla_mismatch s))) (\<lambda>_. start_kind c w Vanilla_operation (vanilla_spec_to_yson s)))"

definition start_merge :: "client \<Rightarrow> world \<Rightarrow> merge_spec \<Rightarrow> bytes effect" where
  "start_merge c w s = start_kind c w Merge_operation (merge_spec_to_yson s)"

definition start_erase :: "client \<Rightarrow> world \<Rightarrow> erase_spec \<Rightarrow> bytes effect" where
  "start_erase c w s = start_kind c w Erase_operation (erase_spec_to_yson s)"

definition start_remote_copy :: "client \<Rightarrow> world \<Rightarrow> remote_copy_spec \<Rightarrow> bytes effect" where
  "start_remote_copy c w s = start_kind c w Remote_copy_operation (remote_copy_spec_to_yson s)"

section \<open>Lemmas\<close>

lemma first_repeated_None: "first_repeated seen names = None \<longleftrightarrow> distinct names \<and> set seen \<inter> set names = {}"
  by (induction seen names rule: first_repeated.induct) auto

text \<open>The name a repetition is reported under is that of the first task whose name an earlier one has.\<close>

definition repeats :: "bytes list \<Rightarrow> bytes list \<Rightarrow> bytes \<Rightarrow> bool" where
  "repeats seen names name = (\<exists>before after. names = before @ name # after \<and> name \<in> set seen \<union> set before \<and>
     distinct before \<and> set seen \<inter> set before = {})"

lemma first_repeated_Some: "first_repeated seen names = Some name \<Longrightarrow> repeats seen names name"
proof (induction seen names rule: first_repeated.induct)
  case (2 seen first names)
  show ?case
  proof (cases "first \<in> set seen")
    case True
    then show ?thesis using 2(2) unfolding repeats_def by (intro exI [of _ "[]"] exI [of _ names]) simp
  next
    case False
    then have "repeats (first # seen) names name" using 2 by simp
    then obtain before after where "names = before @ name # after" "name \<in> set (first # seen) \<union> set before" "distinct before"
        "set (first # seen) \<inter> set before = {}"
      unfolding repeats_def by blast
    then show ?thesis using False unfolding repeats_def by (intro exI [of _ "first # before"] exI [of _ after]) auto
  qed
qed simp

lemma find_map_Some: "find_map f xs = Some y \<Longrightarrow> \<exists>x \<in> set xs. f x = Some y"
  by (induction xs) (auto split: option.splits)

lemma find_map_None: "find_map f xs = None \<longleftrightarrow> (\<forall>x \<in> set xs. f x = None)"
  by (induction xs) (auto split: option.split)

text \<open>A Skiff format with one schema for each table; a YSON format fits any number.\<close>

definition format_fits :: "data_format \<Rightarrow> nat \<Rightarrow> bool" where
  "format_fits format tables = (case data_format_as_skiff format of Some f \<Rightarrow> length (table_schemas f) = tables | None \<Rightarrow> True)"

lemma no_mismatch_fits: "skiff_table_mismatch owner format tables noun = None \<longleftrightarrow> format_fits format tables"
  by (auto simp: skiff_table_mismatch_def format_fits_def split: option.split)

lemma start_kind_sent:
  obtains r s' m where "start_kind c w t spec s = Some (r, s')" "ss_sent s' = ss_sent s @ [m]"
    "sn_command m = ascii ''start_operation''" "sn_repeatable m = WithMutationId"
    "yson_field (sn_parameters m) (ascii ''spec'') = Some spec"
    "yson_field (sn_parameters m) (ascii ''operation_type'') = Some (yson_str (ascii (operation_type_name t)))"
proof -
  let ?p = "yson_map [(ascii ''operation_type'', yson_str (ascii (operation_type_name t))), (ascii ''spec'', spec)]"
  obtain r s' m where "command_with c w Post (ascii ''start_operation'') ?p None WithMutationId None s = Some (r, s')"
    "ss_sent s' = ss_sent s @ [m]" "sn_command m = ascii ''start_operation''" "sn_parameters m = ?p" "sn_repeatable m = WithMutationId"
    using command_with_total [OF yson_map_dict(1)] by metis
  then show thesis using that
    by (cases r) (simp_all add: start_kind_def start_operation_def start_operation_inner_def then_do_def yson_map_dict(2) ascii_eq_iff)
qed

lemma vanilla_tasks_kept:
  assumes "distinct (map vt_name (vs_tasks s))" "ascii ''tasks'' \<notin> set (map fst (vs_extra s))"
  shows "\<exists>tasks. yson_field (vanilla_spec_to_yson s) (ascii ''tasks'') = Some tasks \<and>
    yson_field tasks = map_of (map (\<lambda>t. (vt_name t, vanilla_task_to_yson t)) (vs_tasks s))"
proof -
  let ?tasks = "map (\<lambda>t. (vt_name t, vanilla_task_to_yson t)) (vs_tasks s)"
  have "map_of (rev (vs_extra s)) (ascii ''tasks'') = None" using assms(2) by (simp add: map_of_eq_None_iff)
  then have "yson_field (vanilla_spec_to_yson s) (ascii ''tasks'') = Some (yson_map ?tasks)"
    by (simp add: vanilla_spec_to_yson_def entry_def yson_map_dict(2) map_add_def)
  moreover have "map_of (rev ?tasks) = map_of ?tasks"
    using assms(1) by (intro map_of_rev_distinct) (simp add: comp_def)
  ultimately show ?thesis by (simp add: yson_map_dict(2))
qed

section \<open>Properties\<close>

text \<open>C17: a vanilla operation is started whole or not at all. If two of its tasks have one name, nothing is
  sent and the error names the first name that is repeated. If the Skiff output format of a task has
  not a schema for each of its outputs, nothing is sent either. Otherwise one message is sent, under a
  mutation id, of a vanilla operation; and unless the caller sets a raw \<open>tasks\<close> of their own over it,
  its spec has under \<open>tasks\<close> exactly the tasks asked for, each under its own name.\<close>

theorem vanilla_started_whole:
  "\<exists>r s'. start_vanilla c w spec s = Some (r, s') \<and>
    (if \<not> distinct (map vt_name (vs_tasks spec))
     then s' = s \<and> (\<exists>name. r = Inl (Two_tasks_called name) \<and> repeats [] (map vt_name (vs_tasks spec)) name)
     else if \<not> list_all (\<lambda>t. format_fits (uj_output_format (vt_job t)) (length (vt_outputs t))) (vs_tasks spec)
     then s' = s \<and> (\<exists>t \<in> set (vs_tasks spec). \<exists>n. r = Inl (Skiff_tables_mismatch (Task_format (vt_name t)) n (length (vt_outputs t)) ''output table''))
     else \<exists>m sent_spec. ss_sent s' = ss_sent s @ [m] \<and> sn_repeatable m = WithMutationId \<and> sn_command m = ascii ''start_operation'' \<and>
       yson_field (sn_parameters m) (ascii ''operation_type'') = Some (yson_str (ascii ''vanilla'')) \<and>
       yson_field (sn_parameters m) (ascii ''spec'') = Some sent_spec \<and>
       (ascii ''tasks'' \<notin> set (map fst (vs_extra spec)) \<longrightarrow>
         (\<exists>tasks. yson_field sent_spec (ascii ''tasks'') = Some tasks \<and>
           yson_field tasks = map_of (map (\<lambda>t. (vt_name t, vanilla_task_to_yson t)) (vs_tasks spec)))))"
proof (cases "distinct (map vt_name (vs_tasks spec))")
  case False
  then obtain name where "first_repeated [] (map vt_name (vs_tasks spec)) = Some name"
    using first_repeated_None [of "[]" "map vt_name (vs_tasks spec)"] by auto
  then show ?thesis using False first_repeated_Some by (auto simp: start_vanilla_def duplicate_task_def answer_def)
next
  case names: True
  then have once: "duplicate_task spec = None" by (simp add: duplicate_task_def first_repeated_None)
  show ?thesis
  proof (cases "vanilla_mismatch spec")
    case None
    then have fits: "list_all (\<lambda>t. format_fits (uj_output_format (vt_job t)) (length (vt_outputs t))) (vs_tasks spec)"
      by (simp add: vanilla_mismatch_def find_map_None no_mismatch_fits list_all_iff)
    obtain r s' m where m: "start_kind c w Vanilla_operation (vanilla_spec_to_yson spec) s = Some (r, s')" "ss_sent s' = ss_sent s @ [m]"
      "sn_command m = ascii ''start_operation''" "sn_repeatable m = WithMutationId"
      "yson_field (sn_parameters m) (ascii ''spec'') = Some (vanilla_spec_to_yson spec)"
      "yson_field (sn_parameters m) (ascii ''operation_type'') = Some (yson_str (ascii (operation_type_name Vanilla_operation)))"
      by (rule start_kind_sent)
    then have "start_vanilla c w spec s = Some (r, s')"
      using once None by (simp add: start_vanilla_def then_do_def refuse_mismatch_def answer_def)
    then show ?thesis using names fits m vanilla_tasks_kept [OF names] by simp
  next
    case (Some e)
    then obtain t where t: "t \<in> set (vs_tasks spec)"
        "skiff_table_mismatch (Task_format (vt_name t)) (uj_output_format (vt_job t)) (length (vt_outputs t)) ''output table'' = Some e"
      unfolding vanilla_mismatch_def by (auto dest: find_map_Some)
    then have "\<exists>n. e = Skiff_tables_mismatch (Task_format (vt_name t)) n (length (vt_outputs t)) ''output table''"
      "\<not> list_all (\<lambda>t. format_fits (uj_output_format (vt_job t)) (length (vt_outputs t))) (vs_tasks spec)"
      using no_mismatch_fits [of "Task_format (vt_name t)" "uj_output_format (vt_job t)" "length (vt_outputs t)" "''output table''"]
      by (auto simp: list_all_iff skiff_table_mismatch_def bind_eq_Some_conv split: if_splits)
    moreover have "start_vanilla c w spec s = Some (Inl e, s)"
      using once Some by (simp add: start_vanilla_def then_do_def refuse_mismatch_def answer_def)
    ultimately show ?thesis using names t(1) by auto
  qed
qed

definition sample_tasks :: vanilla_spec where
  "sample_tasks = vanilla_with_task (vanilla_task_new (ascii ''b'') (ascii ''./b'') 2)
     (vanilla_spec_new (vanilla_task_new (ascii ''a'') (ascii ''./a'') 1))"

theorem vanilla_started_whole_witness:
  "\<exists>r s' m sent_spec tasks. start_vanilla sample_client sample_world sample_tasks sample_session = Some (r, s') \<and> ss_sent s' = [m] \<and>
     yson_field (sn_parameters m) (ascii ''spec'') = Some sent_spec \<and> yson_field sent_spec (ascii ''tasks'') = Some tasks \<and>
     yson_field tasks (ascii ''b'') = Some (vanilla_task_to_yson (vanilla_task_new (ascii ''b'') (ascii ''./b'') 2)) \<and>
     yson_field tasks (ascii ''c'') = None"
proof -
  note sample = sample_tasks_def vanilla_with_task_def vanilla_spec_new_def vanilla_task_new_def user_job_new_def
  have names: "distinct (map vt_name (vs_tasks sample_tasks))" by (simp add: sample ascii_eq_iff)
  have fits: "list_all (\<lambda>t. format_fits (uj_output_format (vt_job t)) (length (vt_outputs t))) (vs_tasks sample_tasks)"
    by (simp add: sample format_fits_def data_format_as_skiff_def)
  have raw: "ascii ''tasks'' \<notin> set (map fst (vs_extra sample_tasks))" by (simp add: sample)
  obtain r s' m sent_spec tasks where *: "start_vanilla sample_client sample_world sample_tasks sample_session = Some (r, s')"
      "ss_sent s' = ss_sent sample_session @ [m]" "yson_field (sn_parameters m) (ascii ''spec'') = Some sent_spec"
      "yson_field sent_spec (ascii ''tasks'') = Some tasks"
      "yson_field tasks = map_of (map (\<lambda>t. (vt_name t, vanilla_task_to_yson t)) (vs_tasks sample_tasks))"
    using vanilla_started_whole [of sample_client sample_world sample_tasks sample_session] names fits raw by auto
  have "yson_field tasks (ascii ''b'') = Some (vanilla_task_to_yson (vanilla_task_new (ascii ''b'') (ascii ''./b'') 2))"
    "yson_field tasks (ascii ''c'') = None"
    by (simp_all add: *(5) sample ascii_eq_iff)
  moreover have "ss_sent s' = [m]" using *(2) by (simp add: sample_session_def)
  ultimately show ?thesis using *(1,3,4) by blast
qed

end
