(* ===== verification/Api_Table.thy ===== *)
theory Api_Table
  imports Std_Net Yson_Types
begin

text \<open>
  \<open>crates/ytsaurus-api\<close>: the rows, options and errors that both transports of dynamic tables share,
  and what a caller may count on of either: rows that are written are read with the same columns.
  A name is the UTF-8 text of a Rust string.
\<close>

section \<open>Values and rows\<close>

datatype api_value =
    Api_null
  | Api_int64 i64
  | Api_uint64 u64
  | Api_double f64
  | Api_boolean bool
  | Api_string bytes
  | Api_any bytes

fun value_as_bytes :: "api_value \<Rightarrow> bytes option" where
  "value_as_bytes (Api_string bs) = Some bs"
| "value_as_bytes (Api_any bs) = Some bs"
| "value_as_bytes _ = None"

definition value_as_str :: "api_value \<Rightarrow> bytes option" where
  "value_as_str v = Option.bind (value_as_bytes v) (\<lambda>bs. if utf8_valid bs then Some bs else None)"

fun value_as_i64 :: "api_value \<Rightarrow> i64 option" where
  "value_as_i64 (Api_int64 v) = Some v"
| "value_as_i64 _ = None"

fun value_as_u64 :: "api_value \<Rightarrow> u64 option" where
  "value_as_u64 (Api_uint64 v) = Some v"
| "value_as_u64 _ = None"

fun value_as_f64 :: "api_value \<Rightarrow> f64 option" where
  "value_as_f64 (Api_double v) = Some v"
| "value_as_f64 _ = None"

fun value_as_bool :: "api_value \<Rightarrow> bool option" where
  "value_as_bool (Api_boolean v) = Some v"
| "value_as_bool _ = None"

definition value_is_null :: "api_value \<Rightarrow> bool" where
  "value_is_null v = (v = Api_null)"

fun value_from_option :: "api_value option \<Rightarrow> api_value" where
  "value_from_option (Some v) = v"
| "value_from_option None = Api_null"

record api_row =
  row_columns :: "(bytes \<times> api_value) list"

definition api_row_new :: api_row where
  "api_row_new = \<lparr>row_columns = []\<rparr>"

text \<open>\<open>Row::set\<close>, and \<open>Row::with\<close>, which hands the row on.\<close>

definition row_set :: "bytes \<Rightarrow> api_value \<Rightarrow> api_row \<Rightarrow> api_row" where
  "row_set name v r = r\<lparr>row_columns := row_columns r @ [(name, v)]\<rparr>"

definition row_get :: "api_row \<Rightarrow> bytes \<Rightarrow> api_value option" where
  "row_get r name = map_option snd (find (\<lambda>(column, _). column = name) (row_columns r))"

definition row_names :: "api_row \<Rightarrow> bytes list" where
  "row_names r = map fst (row_columns r)"

definition row_len :: "api_row \<Rightarrow> nat" where
  "row_len r = length (row_columns r)"

definition row_is_empty :: "api_row \<Rightarrow> bool" where
  "row_is_empty r = (row_columns r = [])"

definition row_to_map :: "api_row \<Rightarrow> (bytes \<times> api_value) list" where
  "row_to_map r = btree_extend [] (row_columns r)"

definition row_from_iter :: "(bytes \<times> api_value) list \<Rightarrow> api_row" where
  "row_from_iter columns = \<lparr>row_columns = columns\<rparr>"

text \<open>\<open>flatten\<close> over rows that may be absent.\<close>

definition present_rows :: "'a option list \<Rightarrow> 'a list" where
  "present_rows rows = concat (map (\<lambda>r. case r of Some x \<Rightarrow> [x] | None \<Rightarrow> []) rows)"

section \<open>Options\<close>

record api_lookup_options =
  lo_columns :: "bytes list"
  lo_timestamp :: "u64 option"

record api_select_options =
  so_timestamp :: "u64 option"
  so_limit :: "u64 option"

section \<open>Errors\<close>

datatype api_transport = Http_transport | Rpc_transport

text \<open>What a conversion is refused for, with what its text interpolates.\<close>

datatype conversion_refusal =
    Not_in_name_table bytes "bytes list"
  | Too_many_columns
  | Id_beyond_name_table nat nat

text \<open>The message of an error made from another is the text of the other, so it is not kept apart.\<close>

datatype 's api_error =
    Api_cluster bytes "i32 option" 's
  | Api_transport bytes 's
  | Api_timeout bytes
  | Api_conversion conversion_refusal
  | Api_unsupported api_transport

fun api_code :: "'s api_error \<Rightarrow> i32 option" where
  "api_code (Api_cluster _ code _) = code"
| "api_code _ = None"

fun api_is_retryable :: "'s api_error \<Rightarrow> bool" where
  "api_is_retryable (Api_transport _ _) = True"
| "api_is_retryable (Api_timeout _) = True"
| "api_is_retryable _ = False"

section \<open>Lemmas\<close>

lemma row_get_map_of: "row_get r name = map_of (row_columns r) name"
proof -
  have "map_option snd (find (\<lambda>(column, _). column = name) cs) = map_of cs name" for cs :: "(bytes \<times> api_value) list"
    by (induction cs) auto
  then show ?thesis by (simp add: row_get_def)
qed

lemma row_to_map_get: "distinct (row_names r) \<Longrightarrow> map_of (row_to_map r) name = row_get r name"
  by (simp add: row_to_map_def row_get_map_of map_of_btree_extend row_names_def map_of_rev_distinct)

lemma fold_row_set:
  "row_columns (fold (\<lambda>(name, x). row_set (f name) (g x)) es r) = row_columns r @ map (\<lambda>(name, x). (f name, g x)) es"
  by (induction es arbitrary: r) (auto simp: row_set_def)

section \<open>What a transport of rows promises\<close>

text \<open>Two rows read alike: every column has the same first value in both.\<close>

definition same_columns :: "api_row \<Rightarrow> api_row \<Rightarrow> bool" where
  "same_columns r r' = (\<forall>name. row_get r name = row_get r' name)"

text \<open>
  A way to put rows on a wire and take them off it. Rows that fit are taken off as many, in the same
  order, none missing, each with the columns it was written with.
\<close>

locale row_carrier =
  fixes put_rows :: "api_row list \<Rightarrow> 'w option"
    and take_rows :: "'w \<Rightarrow> 'f + api_row option list"
    and fits :: "api_row \<Rightarrow> bool"
  assumes carried: "list_all fits rows \<Longrightarrow> put_rows rows = Some wire \<Longrightarrow>
    \<exists>got. take_rows wire = Inr (map Some got) \<and> list_all2 same_columns rows got"
begin

lemma carried_nth:
  assumes "list_all fits rows" "put_rows rows = Some wire" "i < length rows"
  shows "\<exists>answers r. take_rows wire = Inr answers \<and> length answers = length rows \<and> answers ! i = Some r \<and>
    same_columns (rows ! i) r"
proof -
  obtain got where "take_rows wire = Inr (map Some got)" "list_all2 same_columns rows got"
    using carried [OF assms(1,2)] by blast
  then show ?thesis using assms(3) by (auto simp: list_all2_conv_all_nth)
qed

text \<open>What was written says which rows were: two lists on one wire read alike.\<close>

lemma put_inj:
  assumes "list_all fits rows" "list_all fits others" "put_rows rows = Some wire" "put_rows others = Some wire"
  shows "list_all2 same_columns rows others"
proof -
  obtain got where b: "take_rows wire = Inr (map Some got)" "list_all2 same_columns rows got"
    using carried [OF assms(1,3)] by blast
  obtain got' where b': "take_rows wire = Inr (map Some got')" "list_all2 same_columns others got'"
    using carried [OF assms(2,4)] by blast
  have "got = got'" using b(1) b'(1) by (simp add: map_inj_on)
  then show ?thesis using b(2) b'(2) by (simp add: list_all2_conv_all_nth same_columns_def)
qed

end

end
