(* ===== verification/Client_Dynamic.thy ===== *)
theory Client_Dynamic
  imports Client_Files Client_Fragments Api_Table
begin

text \<open>
  \<open>crates/ytsaurus-client/src/dynamic.rs\<close>: dynamic tables over HTTP. Rows travel as a binary YSON list
  fragment, a map for each; the four commands are heavy and sent once. \<open>None\<close> is a panic.
\<close>

section \<open>Rows to a fragment\<close>

fun value_to_yson :: "api_value \<Rightarrow> command_error + yson_value" where
  "value_to_yson Api_null = Inr (plain Entity)"
| "value_to_yson (Api_int64 v) = Inr (yson_int v)"
| "value_to_yson (Api_uint64 v) = Inr (yson_uint v)"
| "value_to_yson (Api_double v) = Inr (yson_double v)"
| "value_to_yson (Api_boolean v) = Inr (yson_boolean v)"
| "value_to_yson (Api_string bs) = Inr (yson_str bs)"
| "value_to_yson (Api_any bs) =
     (case from_slice bs Binary of
        Inr v \<Rightarrow> Inr v
      | Inl binary_error \<Rightarrow>
          (case from_slice bs Text of Inr v \<Rightarrow> Inr v | Inl text_error \<Rightarrow> Inl (Any_not_yson binary_error text_error)))"

definition row_to_yson :: "api_row \<Rightarrow> command_error + yson_value" where
  "row_to_yson r =
     and_then (collect (\<lambda>(name, v). and_then (value_to_yson v) (\<lambda>y. Inr (name, y))) (row_columns r)) (\<lambda>entries.
       Inr (yson_map entries))"

text \<open>The loop over the rows, with the bytes written so far; serializing is expected not to fail.\<close>

fun append_rows :: "formatters \<Rightarrow> api_row list \<Rightarrow> bytes \<Rightarrow> (command_error + bytes) option" where
  "append_rows fmt [] buffer = Some (Inr buffer)"
| "append_rows fmt (row # rows) buffer =
     (case row_to_yson row of
        Inl e \<Rightarrow> Some (Inl e)
      | Inr v \<Rightarrow>
          (case serialize fmt (value_serde v) (with_buffer buffer True) of
             Inl _ \<Rightarrow> None
           | Inr serializer \<Rightarrow> append_rows fmt rows (out serializer @ [0x3B])))"

definition rows_to_fragment :: "formatters \<Rightarrow> api_row list \<Rightarrow> (command_error + bytes) option" where
  "rows_to_fragment fmt rows = append_rows fmt rows []"

section \<open>A fragment to rows\<close>

text \<open>A list or a map is passed on as its YSON, with its attributes; a scalar loses them.\<close>

definition yson_to_value :: "formatters \<Rightarrow> yson_value \<Rightarrow> api_value" where
  "yson_to_value fmt v =
     (case node v of
        Entity \<Rightarrow> Api_null
      | Int64 n \<Rightarrow> Api_int64 n
      | Uint64 n \<Rightarrow> Api_uint64 n
      | Double d \<Rightarrow> Api_double d
      | Boolean b \<Rightarrow> Api_boolean b
      | String bs \<Rightarrow> Api_string bs
      | _ \<Rightarrow>
          (case serialize fmt (value_serde v) (with_buffer [] True) of
             Inr serializer \<Rightarrow> Api_any (out serializer)
           | Inl _ \<Rightarrow> Api_null))"

definition yson_to_row :: "formatters \<Rightarrow> yson_value \<Rightarrow> api_row option" where
  "yson_to_row fmt v =
     (case node v of
        Entity \<Rightarrow> None
      | Map entries \<Rightarrow> Some (fold (\<lambda>(name, x). row_set (from_utf8_lossy name) (yson_to_value fmt x)) entries api_row_new)
      | _ \<Rightarrow> Some api_row_new)"

function fragment_to_rows :: "formatters \<Rightarrow> bytes \<Rightarrow> command_error + api_row option list" where
  "fragment_to_rows fmt body =
     (let rest = skip_between body
      in if rest = [] then Inr []
         else (case scan_value rest Binary of
                 Inl e \<Rightarrow> Inl (Row_malformed e)
               | Inr Incomplete \<Rightarrow> Inl Row_stream_ended
               | Inr (Complete len) \<Rightarrow>
                   (case from_slice (take len rest) Binary of
                      Inl e \<Rightarrow> Inl (Row_malformed e)
                    | Inr v \<Rightarrow> and_then (fragment_to_rows fmt (drop len rest)) (\<lambda>rows. Inr (yson_to_row fmt v # rows)))))"
  by pat_completeness auto
termination fragment_to_rows
proof (relation "measure (\<lambda>(_, body). length body)", goal_cases)
  case (2 fmt body rest x len v)
  then show ?case
    using scan_value_advances [of rest Binary len] length_skip_between [of body] by (cases rest) auto
qed simp

declare fragment_to_rows.simps [simp del]

section \<open>The commands\<close>

text \<open>The keys or rows of a command, made before anything is sent.\<close>

definition with_fragment :: "world \<Rightarrow> api_row list \<Rightarrow> (bytes \<Rightarrow> 'a effect) \<Rightarrow> 'a effect" where
  "with_fragment w rows k s =
     Option.bind (rows_to_fragment (wd_fmt w) rows) (\<lambda>r. case r of Inl e \<Rightarrow> Some (Inl e, s) | Inr content \<Rightarrow> k content s)"

definition lookup_parameters :: "bytes \<Rightarrow> api_lookup_options \<Rightarrow> yson_value" where
  "lookup_parameters path options =
     yson_map
       ([(ascii ''path'', yson_str path), (ascii ''input_format'', binary_yson_format),
         (ascii ''output_format'', binary_yson_format), (ascii ''keep_missing_rows'', yson_boolean True)] @
        (if lo_columns options \<noteq> [] then [(ascii ''column_names'', yson_list (map yson_str (lo_columns options)))] else []) @
        (case lo_timestamp options of Some ts \<Rightarrow> [(ascii ''timestamp'', yson_uint ts)] | None \<Rightarrow> []))"

definition lookup_rows_dynamic ::
  "client \<Rightarrow> world \<Rightarrow> bytes \<Rightarrow> api_row list \<Rightarrow> api_lookup_options \<Rightarrow> api_row option list effect" where
  "lookup_rows_dynamic c w path keys options =
     with_fragment w keys (\<lambda>content.
     then_do (raw_command_with c w Put (ascii ''lookup_rows'') (lookup_parameters path options) (Some content) Heavy None)
       (\<lambda>body. answer (fragment_to_rows (wd_fmt w) body)))"

definition select_parameters :: "bytes \<Rightarrow> api_select_options \<Rightarrow> yson_value" where
  "select_parameters query options =
     yson_map
       ([(ascii ''query'', yson_str query), (ascii ''output_format'', binary_yson_format)] @
        (case so_timestamp options of Some ts \<Rightarrow> [(ascii ''timestamp'', yson_uint ts)] | None \<Rightarrow> []) @
        (case so_limit options of Some n \<Rightarrow> [(ascii ''output_row_limit'', yson_uint n)] | None \<Rightarrow> []))"

definition select_rows_dynamic :: "client \<Rightarrow> world \<Rightarrow> bytes \<Rightarrow> api_select_options \<Rightarrow> api_row list effect" where
  "select_rows_dynamic c w query options =
     then_do (raw_command_with c w Get (ascii ''select_rows'') (select_parameters query options) None Heavy None)
       (\<lambda>body. answer (and_then (fragment_to_rows (wd_fmt w) body) (\<lambda>rows. Inr (present_rows rows))))"

definition modify_parameters :: "bytes \<Rightarrow> yson_value" where
  "modify_parameters path = yson_map [(ascii ''path'', yson_str path), (ascii ''input_format'', binary_yson_format)]"

definition modify_rows_dynamic :: "client \<Rightarrow> world \<Rightarrow> string \<Rightarrow> bytes \<Rightarrow> api_row list \<Rightarrow> unit effect" where
  "modify_rows_dynamic c w name path rows =
     with_fragment w rows (\<lambda>content.
     then_do (raw_command_with c w Put (ascii name) (modify_parameters path) (Some content) Heavy None)
       (\<lambda>_. answer (Inr ())))"

definition insert_rows_dynamic :: "client \<Rightarrow> world \<Rightarrow> bytes \<Rightarrow> api_row list \<Rightarrow> unit effect" where
  "insert_rows_dynamic c w path rows = modify_rows_dynamic c w ''insert_rows'' path rows"

definition delete_rows_dynamic :: "client \<Rightarrow> world \<Rightarrow> bytes \<Rightarrow> api_row list \<Rightarrow> unit effect" where
  "delete_rows_dynamic c w path keys = modify_rows_dynamic c w ''delete_rows'' path keys"

section \<open>The shared interface\<close>

definition i32_try_from :: "int \<Rightarrow> i32 option" where
  "i32_try_from code = (if - (2 ^ 31) \<le> code \<and> code < 2 ^ 31 then Some (of_int code) else None)"

definition http_map_error :: "string \<Rightarrow> command_error \<Rightarrow> command_error api_error" where
  "http_map_error operation e =
     (case e of
        Call_failed (Cluster _ code _ _) \<Rightarrow> Api_cluster (ascii operation) (i32_try_from code) e
      | _ \<Rightarrow> Api_transport (ascii operation) e)"

type_synonym 'a table_effect = "session \<Rightarrow> ((command_error api_error + 'a) \<times> session) option"

definition mapped_effect :: "string \<Rightarrow> 'a effect \<Rightarrow> 'a table_effect" where
  "mapped_effect operation m s =
     map_option (\<lambda>(r, s'). (case r of Inl e \<Rightarrow> Inl (http_map_error operation e) | Inr x \<Rightarrow> Inr x, s')) (m s)"

definition http_transport_kind :: api_transport where "http_transport_kind = Http_transport"

definition http_lookup_rows ::
  "client \<Rightarrow> world \<Rightarrow> bytes \<Rightarrow> api_row list \<Rightarrow> api_lookup_options \<Rightarrow> api_row option list table_effect" where
  "http_lookup_rows c w path keys options = mapped_effect ''lookup_rows'' (lookup_rows_dynamic c w path keys options)"

definition http_select_rows :: "client \<Rightarrow> world \<Rightarrow> bytes \<Rightarrow> api_select_options \<Rightarrow> api_row list table_effect" where
  "http_select_rows c w query options = mapped_effect ''select_rows'' (select_rows_dynamic c w query options)"

definition http_insert_rows :: "client \<Rightarrow> world \<Rightarrow> bytes \<Rightarrow> api_row list \<Rightarrow> unit table_effect" where
  "http_insert_rows c w path rows = mapped_effect ''insert_rows'' (insert_rows_dynamic c w path rows)"

definition http_delete_rows :: "client \<Rightarrow> world \<Rightarrow> bytes \<Rightarrow> api_row list \<Rightarrow> unit table_effect" where
  "http_delete_rows c w path keys = mapped_effect ''delete_rows'' (delete_rows_dynamic c w path keys)"

definition http_start_transaction :: "command_error api_error + unit" where
  "http_start_transaction = Inl (Api_unsupported Http_transport)"

section \<open>Text\<close>

text \<open>A valid text is its own lossy reading.\<close>

lemma utf8_chunk_whole:
  assumes "utf8_valid (b # s)"
  shows "\<exists>n. utf8_chunk b s = (True, Suc n) \<and> n \<le> length s \<and> utf8_valid (drop n s)"
proof (cases "b < 0x80")
  case True
  then show ?thesis using assms by (intro exI [of _ 0]) (simp add: utf8_chunk_def)
next
  case False
  then obtain c1 r1 where s: "s = c1 # r1" using assms by (cases s) simp_all
  show ?thesis
  proof (cases "0xC2 \<le> b \<and> b \<le> 0xDF")
    case True
    then show ?thesis using assms False s by (intro exI [of _ 1]) (simp add: utf8_chunk_def byte_at_def)
  next
    case two: False
    then obtain c2 r2 where r1: "r1 = c2 # r2" using assms s False two by (cases r1) (auto split: if_splits)
    show ?thesis
    proof (cases "0xE0 \<le> b \<and> b \<le> 0xEF")
      case True
      then have "third_follows b c1 \<and> utf8_cont c2 \<and> utf8_valid r2"
        using assms False two s r1 by (auto simp: third_follows_def utf8_cont_def split: if_splits)
      then show ?thesis using False two True s r1 by (intro exI [of _ 2]) (simp add: utf8_chunk_def byte_at_def)
    next
      case three: False
      then obtain c3 r3 where r2: "r2 = c3 # r3" using assms s r1 False two three by (cases r2) (auto split: if_splits)
      have b: "0xF0 \<le> b \<and> b \<le> 0xF4" using assms False two three s r1 r2 by (auto split: if_splits)
      then have "fourth_follows b c1 \<and> utf8_cont c2 \<and> utf8_cont c3 \<and> utf8_valid r3"
        using assms False two three s r1 r2 by (auto simp: fourth_follows_def utf8_cont_def split: if_splits)
      then show ?thesis using False two three b s r1 r2
        by (intro exI [of _ 3]) (simp add: utf8_chunk_def byte_at_def numeral_3_eq_3)
    qed
  qed
qed

lemma from_utf8_lossy_valid: "utf8_valid s \<Longrightarrow> from_utf8_lossy s = s"
proof (induction s rule: from_utf8_lossy.induct)
  case (2 b s)
  obtain n where n: "utf8_chunk b s = (True, Suc n)" "utf8_valid (drop n s)"
    using utf8_chunk_whole [OF 2(2)] by blast
  then show ?case using 2(1) [of "(True, Suc n)"] by (simp del: utf8_valid.simps)
qed simp

section \<open>Fragments\<close>

lemma append_rows_grammar:
  "append_rows fmt rows buffer = Some (and_then (collect row_to_yson rows) (\<lambda>vs. Inr (buffer @ row_fragment fmt vs)))"
proof (induction rows arbitrary: buffer)
  case (Cons row rows)
  show ?case
  proof (cases "row_to_yson row")
    case (Inr v)
    have "serialize fmt (value_serde v) (with_buffer buffer True) = Inr (push (with_buffer buffer True) (row_bytes fmt v))"
      by (rule serialize_grammar(1)) (simp_all add: with_buffer_def)
    then show ?thesis using Cons.IH [of "buffer @ row_bytes fmt v @ [0x3B]"] Inr
      by (cases "collect row_to_yson rows") (simp_all add: with_buffer_def push_def)
  qed simp
qed simp

lemma rows_to_fragment_grammar:
  "rows_to_fragment fmt rows = Some (and_then (collect row_to_yson rows) (\<lambda>vs. Inr (row_fragment fmt vs)))"
  by (simp add: rows_to_fragment_def append_rows_grammar)

lemma fragment_separator [simp]: "fragment_to_rows fmt (0x3B # rest) = fragment_to_rows fmt rest"
  by (subst (1 2) fragment_to_rows.simps) (simp add: skip_between_def)

lemma from_slice_row: "row_ok v \<Longrightarrow> from_slice (row_bytes fmt v) Binary = Inr v"
  using binary_fmt.read_back [of v fmt] by (intro from_slice_end) (simp add: row_ok_def DE_MAX_DEPTH_def)

lemma fragment_back:
  "list_all row_ok vs \<Longrightarrow> fragment_to_rows fmt' (row_fragment fmt vs) = Inr (map (yson_to_row fmt') vs)"
proof (induction vs)
  case Nil
  then show ?case by (subst fragment_to_rows.simps) (simp add: skip_between_def)
next
  case (Cons v vs)
  have ok: "row_ok v" using Cons.prems by simp
  have scan: "scan_value (row_bytes fmt v @ 0x3B # row_fragment fmt vs) Binary = Inr (Complete (length (row_bytes fmt v)))"
    by (rule scan_row [OF ok]) simp
  show ?case
    using Cons scan from_slice_row [OF ok, of fmt] by (subst fragment_to_rows.simps) simp
qed

section \<open>Rows that are carried\<close>

text \<open>No name twice, none that the reader of attributes takes for one, and no \<open>Any\<close>, which comes back in
  the binary form of what it says.\<close>

fun http_value :: "api_value \<Rightarrow> bool" where
  "http_value (Api_any _) = False"
| "http_value (Api_string bs) = (length bs < 2 ^ 63)"
| "http_value _ = True"

definition http_row :: "api_row \<Rightarrow> bool" where
  "http_row r = (distinct (row_names r) \<and>
     (\<forall>(name, v) \<in> set (row_columns r). utf8_valid name \<and> plain_key name \<and> length name < 2 ^ 63 \<and> http_value v))"

definition column_entry :: "bytes \<times> api_value \<Rightarrow> bytes \<times> yson_value" where
  "column_entry nv = (fst nv, case value_to_yson (snd nv) of Inr y \<Rightarrow> y | Inl _ \<Rightarrow> plain Entity)"

lemma value_carried:
  assumes "http_value v"
  shows "value_to_yson v = Inr (snd (column_entry (n, v)))" "yson_to_value fmt (snd (column_entry (n, v))) = v"
    "value_ok binary_ok (snd (column_entry (n, v)))" "need_value (snd (column_entry (n, v))) = 0"
proof -
  note defs = column_entry_def yson_int_def yson_uint_def yson_double_def yson_boolean_def yson_str_def
  show "value_to_yson v = Inr (snd (column_entry (n, v)))" using assms by (cases v; simp add: defs)
  show "yson_to_value fmt (snd (column_entry (n, v))) = v" using assms by (cases v; simp add: defs yson_to_value_def)
  show "value_ok binary_ok (snd (column_entry (n, v)))" using assms by (cases v; simp add: defs binary_ok_def)
  show "need_value (snd (column_entry (n, v))) = 0" using assms by (cases v; simp add: defs)
qed

lemma row_to_yson_entries: "http_row r \<Longrightarrow> row_to_yson r = Inr (yson_map (map column_entry (row_columns r)))"
proof -
  assume r: "http_row r"
  have "collect (\<lambda>(name, v). and_then (value_to_yson v) (\<lambda>y. Inr (name, y))) (row_columns r) = Inr (map column_entry (row_columns r))"
  proof (rule collect_all_Inr, goal_cases)
    case (1 nv)
    then have "value_to_yson (snd nv) = Inr (snd (column_entry nv))"
      using r value_carried(1) [of "snd nv" "fst nv"] by (auto simp: http_row_def)
    then show ?case by (simp add: split_beta) (simp add: column_entry_def)
  qed
  then show ?thesis by (simp add: row_to_yson_def)
qed

lemma entries_all:
  "\<forall>(k, v) \<in> set es. ok (Token_String k) \<and> value_ok ok v \<Longrightarrow> entries_ok ok es"
  "\<forall>(k, v) \<in> set es. need_value v \<le> n \<Longrightarrow> need_entries es \<le> n"
  by (induction es) auto

lemma row_map_ok: "http_row r \<Longrightarrow> row_ok (yson_map (map column_entry (row_columns r)))"
proof -
  assume r: "http_row r"
  let ?m = "btree_extend [] (map column_entry (row_columns r))"
  have entry: "utf8_valid k \<and> plain_key k \<and> binary_ok (Token_String k) \<and> value_ok binary_ok y \<and> need_value y \<le> 127"
    if "(k, y) \<in> set ?m" for k y
  proof -
    have "(k, y) \<in> column_entry ` set (row_columns r)" using that set_btree_extend [of "[]" "map column_entry (row_columns r)"] by auto
    then obtain v where "(k, v) \<in> set (row_columns r)" "y = snd (column_entry (k, v))" by (auto simp: column_entry_def)
    then show ?thesis using r value_carried(3,4) [of v k] by (auto simp: http_row_def binary_ok_def)
  qed
  then have "entries_ok binary_ok ?m" "need_entries ?m \<le> 127" by (auto intro!: entries_all)
  moreover have "\<forall>k \<in> set (map fst ?m). plain_key k" using entry by fastforce
  ultimately show ?thesis by (simp add: row_ok_def yson_map_def btree_wf_extend)
qed

lemma entries_back:
  "\<forall>(n, v) \<in> set cs. http_value v \<Longrightarrow> map_option (yson_to_value fmt) (map_of (map column_entry cs) name) = map_of cs name"
proof (induction cs)
  case (Cons nv cs)
  then have "yson_to_value fmt (snd (column_entry nv)) = snd nv" using value_carried(2) [of "snd nv" fmt "fst nv"] by auto
  moreover have "fst (column_entry nv) = fst nv" by (simp add: column_entry_def)
  ultimately show ?case using Cons by (cases "column_entry nv"; cases nv) auto
qed simp

lemma row_back:
  assumes r: "http_row r"
  shows "\<exists>r'. yson_to_row fmt (yson_map (map column_entry (row_columns r))) = Some r' \<and> same_columns r r'"
proof -
  let ?es = "map column_entry (row_columns r)"
  let ?m = "btree_extend [] ?es"
  let ?r = "fold (\<lambda>(name, x). row_set (from_utf8_lossy name) (yson_to_value fmt x)) ?m api_row_new"
  have keys: "utf8_valid name" if "(name, x) \<in> set ?m" for name x
    using subsetD [OF set_btree_extend [of "[]" ?es], OF that] r by (auto simp: column_entry_def http_row_def)
  have columns: "row_columns ?r = map (\<lambda>(name, x). (name, yson_to_value fmt x)) ?m"
    unfolding fold_row_set api_row_new_def using keys by (auto simp: from_utf8_lossy_valid)
  have names: "map fst ?es = row_names r" by (simp add: row_names_def column_entry_def comp_def)
  have "row_get ?r name = row_get r name" for name
  proof -
    have "row_get ?r name = map_option (yson_to_value fmt) (map_of ?es name)"
      using r names map_of_rev_distinct [of ?es]
      by (simp add: row_get_map_of columns map_of_map map_of_btree_extend http_row_def)
    also have "\<dots> = map_of (row_columns r) name"
      using r by (intro entries_back) (auto simp: http_row_def)
    finally show ?thesis by (simp add: row_get_map_of)
  qed
  then show ?thesis by (simp add: yson_to_row_def yson_map_def same_columns_def)
qed

definition http_put :: "formatters \<Rightarrow> api_row list \<Rightarrow> bytes option" where
  "http_put fmt rows = (case rows_to_fragment fmt rows of Some (Inr content) \<Rightarrow> Some content | _ \<Rightarrow> None)"

lemma http_carried:
  assumes "list_all http_row rows"
  shows "\<exists>got. http_put fmt rows = Some (row_fragment fmt (map (\<lambda>r. yson_map (map column_entry (row_columns r))) rows)) \<and>
    fragment_to_rows fmt' (row_fragment fmt (map (\<lambda>r. yson_map (map column_entry (row_columns r))) rows)) = Inr (map Some got) \<and>
    list_all2 same_columns rows got"
proof -
  let ?vs = "map (\<lambda>r. yson_map (map column_entry (row_columns r))) rows"
  have "collect row_to_yson rows = Inr ?vs"
    by (rule collect_all_Inr) (use assms row_to_yson_entries in \<open>auto simp: list_all_iff\<close>)
  then have put: "http_put fmt rows = Some (row_fragment fmt ?vs)" by (simp add: http_put_def rows_to_fragment_grammar)
  have "list_all row_ok ?vs" using assms row_map_ok by (auto simp: list_all_iff)
  then have take: "fragment_to_rows fmt' (row_fragment fmt ?vs) = Inr (map (yson_to_row fmt') ?vs)" by (rule fragment_back)
  have "\<exists>got. map (yson_to_row fmt') ?vs = map Some got \<and> list_all2 same_columns rows got"
    using assms
  proof (induction rows)
    case (Cons r rows)
    then obtain got r' where "map (yson_to_row fmt') (map (\<lambda>r. yson_map (map column_entry (row_columns r))) rows) = map Some got"
      "list_all2 same_columns rows got" "yson_to_row fmt' (yson_map (map column_entry (row_columns r))) = Some r'" "same_columns r r'"
      using row_back [of r fmt'] by auto
    then show ?case by (intro exI [of _ "r' # got"]) simp
  qed simp
  then show ?thesis using put take by auto
qed

text \<open>HTTP carries rows.\<close>

interpretation http_rows: row_carrier "http_put fmt" "fragment_to_rows fmt'" http_row for fmt fmt'
  by unfold_locales (use http_carried in fastforce)

section \<open>The commands send one message\<close>

lemma raw_guards_pass:
  "check_command_name name = Inr () \<Longrightarrow> raw_guards name (yson_map es) = Inr ()"
  by (simp add: raw_guards_def refused_command_def refuse_non_dict_parameters_def yson_map_def)

lemma rows_written_names:
  "check_command_name (ascii ''insert_rows'') = Inr ()" "check_command_name (ascii ''delete_rows'') = Inr ()"
  by code_simp+

text \<open>A write makes its body first, and fails with nothing sent when a value is no YSON; otherwise it sends
  one message and is answered.\<close>

lemma modify_rows_sends:
  assumes "check_command_name (ascii name) = Inr ()"
  shows "\<exists>r s'. modify_rows_dynamic c w name path rows s = Some (r, s') \<and>
    (case http_put (wd_fmt w) rows of
       None \<Rightarrow> isl r \<and> s' = s
     | Some content \<Rightarrow> \<exists>m. ss_sent s' = ss_sent s @ [m] \<and> sn_command m = ascii name \<and>
         sn_parameters m = modify_parameters path \<and> sn_payload m = Some content \<and> sn_repeatable m = Heavy)"
proof (cases "collect row_to_yson rows")
  case (Inl e)
  then show ?thesis
    by (simp add: modify_rows_dynamic_def with_fragment_def http_put_def rows_to_fragment_grammar)
next
  case (Inr vs)
  let ?content = "row_fragment (wd_fmt w) vs"
  have "is_dict (modify_parameters path)" by (simp add: modify_parameters_def)
  then obtain r s' m where m: "command_with c w Put (ascii name) (modify_parameters path) (Some ?content) Heavy None s = Some (r, s')"
    "ss_sent s' = ss_sent s @ [m]" "sn_command m = ascii name" "sn_parameters m = modify_parameters path"
    "sn_payload m = Some ?content" "sn_repeatable m = Heavy"
    by (rule command_with_total)
  have guards: "raw_guards (ascii name) (modify_parameters path) = Inr ()"
    unfolding modify_parameters_def by (rule raw_guards_pass [OF assms])
  have "modify_rows_dynamic c w name path rows s = Some (case r of Inl e \<Rightarrow> Inl e | Inr _ \<Rightarrow> Inr (), s')"
    using Inr m(1) guards by (cases r)
      (simp_all add: modify_rows_dynamic_def with_fragment_def rows_to_fragment_grammar then_do_def raw_command_with_def
        refuse_body_on_get_def)
  then show ?thesis using Inr m(2-) by (simp add: http_put_def rows_to_fragment_grammar)
qed

end
