(* ===== verification/Rpc_Client.thy ===== *)
theory Rpc_Client
  imports Rpc_Connection Rpc_Rowset
begin

text \<open>
  \<open>crates/ytsaurus-rpc/src/client.rs\<close>, the typed calls of \<open>connection.rs\<close> and the errors of \<open>error.rs\<close>:
  transactions, lookups, selects and modifications. A protobuf message is the fields the code sets or
  reads; the protobuf library's decoders are parameters, and so is what the connection makes of the
  call with a given number (\<open>Rpc_Connection\<close> says which answers it can give). A computation keeps the
  list of its invocations; it has no result when its future is dropped.
\<close>

section \<open>Errors\<close>

datatype protocol_fault = No_body_part string | Unknown_format_version i32

datatype rpc_error =
    Rpc_response bytes bytes yt_error
  | Rpc_packet packet_error
  | Rpc_connect bytes bytes
  | Rpc_io bytes
  | Rpc_protocol protocol_fault
  | Rpc_decode string string
  | Rpc_timeout bytes bytes nat
  | Rpc_connection_closed guid
  | Rpc_wire wire_error

fun rpc_yt_error :: "rpc_error \<Rightarrow> yt_error option" where
  "rpc_yt_error (Rpc_response _ _ e) = Some e"
| "rpc_yt_error _ = None"

definition rpc_has_code :: "rpc_error \<Rightarrow> i32 \<Rightarrow> bool" where
  "rpc_has_code e code = (case rpc_yt_error e of Some y \<Rightarrow> yt_has_code y code | None \<Rightarrow> False)"

section \<open>Messages\<close>

datatype transaction_type = Master_type | Tablet_type
datatype atomicity = Full_atomicity | No_atomicity
datatype row_modification = Write_rows | Delete_rows | Write_and_lock

fun transaction_type_number :: "transaction_type \<Rightarrow> i32" where
  "transaction_type_number Master_type = 0"
| "transaction_type_number Tablet_type = 1"

fun atomicity_number :: "atomicity \<Rightarrow> i32" where
  "atomicity_number Full_atomicity = 0"
| "atomicity_number No_atomicity = 1"

fun row_modification_number :: "row_modification \<Rightarrow> i32" where
  "row_modification_number Write_rows = 0"
| "row_modification_number Delete_rows = 1"
| "row_modification_number Write_and_lock = 3"

definition LATEST_TIMESTAMP :: u64 where "LATEST_TIMESTAMP = 0x3fffffffffffff01"
definition RPC_DEFAULT_TIMEOUT :: nat where "RPC_DEFAULT_TIMEOUT = 60000000000"
definition RPC_DEFAULT_TRANSACTION_TIMEOUT :: nat where "RPC_DEFAULT_TRANSACTION_TIMEOUT = 15000000000"
definition CURRENT_WIRE_FORMAT_VERSION :: i32 where "CURRENT_WIRE_FORMAT_VERSION = 1"
definition DISCOVERY_SERVICE :: bytes where "DISCOVERY_SERVICE = ascii ''DiscoveryService''"

record rowset_descriptor =
  rd_version :: "i32 option"
  rd_kind :: "i32 option"
  rd_names :: "bytes option list"

record start_request =
  sq_type :: i32
  sq_timeout :: "i64 option"
  sq_sticky :: "bool option"
  sq_atomicity :: "i32 option"
  sq_parent :: "guid option"

record lookup_request =
  lq_path :: bytes
  lq_descriptor :: rowset_descriptor
  lq_timestamp :: "u64 option"
  lq_keep_missing :: "bool option"
  lq_columns :: "bytes list"

record select_request =
  eq_query :: bytes
  eq_timestamp :: "u64 option"
  eq_limit :: "u64 option"

record modify_request =
  mq_transaction :: guid
  mq_path :: bytes
  mq_descriptor :: rowset_descriptor
  mq_types :: "i32 list"

datatype request_body =
    Start_request start_request
  | Lookup_request lookup_request
  | Select_request select_request
  | Modify_request modify_request
  | Ping_request guid
  | Commit_request guid
  | Abort_request guid
  | Discover_request "bytes option"

record start_options =
  st_timeout :: nat
  st_atomicity :: atomicity
  st_parent :: "guid option"

definition start_options_default :: start_options where
  "start_options_default = \<lparr>st_timeout = RPC_DEFAULT_TRANSACTION_TIMEOUT, st_atomicity = Full_atomicity, st_parent = None\<rparr>"

record rpc_lookup_options =
  rl_timestamp :: "u64 option"
  rl_columns :: "bytes list"

record rpc_select_options =
  rs_timestamp :: "u64 option"
  rs_limit :: "u64 option"

definition start_transaction_request :: "transaction_type \<Rightarrow> start_options \<Rightarrow> start_request" where
  "start_transaction_request ty options =
     \<lparr>sq_type = transaction_type_number ty, sq_timeout = Some (of_nat (st_timeout options div 1000)),
      sq_sticky = Some (ty = Tablet_type), sq_atomicity = Some (atomicity_number (st_atomicity options)),
      sq_parent = st_parent options\<rparr>"

definition name_table_descriptor :: "bytes list \<Rightarrow> rowset_descriptor" where
  "name_table_descriptor columns =
     \<lparr>rd_version = Some CURRENT_WIRE_FORMAT_VERSION, rd_kind = Some 1, rd_names = map Some columns\<rparr>"

definition lookup_request_for :: "bytes \<Rightarrow> bytes list \<Rightarrow> rpc_lookup_options \<Rightarrow> lookup_request" where
  "lookup_request_for path columns options =
     \<lparr>lq_path = path, lq_descriptor = name_table_descriptor columns, lq_timestamp = rl_timestamp options,
      lq_keep_missing = Some True, lq_columns = rl_columns options\<rparr>"

definition select_request_for :: "bytes \<Rightarrow> rpc_select_options \<Rightarrow> select_request" where
  "select_request_for query options =
     \<lparr>eq_query = query, eq_timestamp = rs_timestamp options, eq_limit = rs_limit options\<rparr>"

definition modify_request_for :: "guid \<Rightarrow> bytes \<Rightarrow> bytes list \<Rightarrow> nat \<Rightarrow> row_modification \<Rightarrow> modify_request" where
  "modify_request_for transaction path columns row_count modification =
     \<lparr>mq_transaction = transaction, mq_path = path, mq_descriptor = name_table_descriptor columns,
      mq_types = replicate row_count (row_modification_number modification)\<rparr>"

definition descriptor_column_names :: "rowset_descriptor \<Rightarrow> bytes list" where
  "descriptor_column_names d = map (\<lambda>n. case n of Some name \<Rightarrow> name | None \<Rightarrow> []) (rd_names d)"

text \<open>The attachments are slices of one stream.\<close>

definition decode_rowset_attachments :: "bytes list \<Rightarrow> rowset_descriptor option \<Rightarrow> rpc_error + maybe_row list" where
  "decode_rowset_attachments attachments descriptor =
     and_then
       (case Option.bind descriptor rd_version of
          Some version \<Rightarrow>
            if version \<noteq> CURRENT_WIRE_FORMAT_VERSION then Inl (Rpc_protocol (Unknown_format_version version)) else Inr ()
        | None \<Rightarrow> Inr ())
       (\<lambda>_. case attachments of
          [] \<Rightarrow> Inr []
        | _ \<Rightarrow> (case decode_rowset (concat attachments) of Inl e \<Rightarrow> Inl (Rpc_wire e) | Inr rows \<Rightarrow> Inr rows))"

section \<open>Calls\<close>

record invocation =
  iv_service :: bytes
  iv_method :: bytes
  iv_body :: request_body
  iv_attachments :: "bytes list"
  iv_timeout :: "nat option"

text \<open>
  What lies outside: the allocator, the id of the call with a given number and how the connection ends
  it, and what the protobuf library reads of each reply's body.
\<close>

record proxy =
  px_reserve :: "nat \<Rightarrow> bool"
  px_ids :: "nat \<Rightarrow> guid"
  px_result :: "nat \<Rightarrow> invocation \<Rightarrow> call_result"
  px_started :: "bytes \<Rightarrow> string + guid \<times> u64"
  px_looked_up :: "bytes \<Rightarrow> string + rowset_descriptor"
  px_selected :: "bytes \<Rightarrow> string + rowset_descriptor"
  px_done :: "string \<Rightarrow> bytes \<Rightarrow> string + unit"
  px_discovered :: "bytes \<Rightarrow> string + bytes list"

type_synonym ('e, 'a) calls = "invocation list \<Rightarrow> (('e + 'a) \<times> invocation list) option"

definition call_return :: "'e + 'a \<Rightarrow> ('e, 'a) calls" where "call_return r log = Some (r, log)"

definition call_then :: "('e, 'a) calls \<Rightarrow> ('a \<Rightarrow> ('e, 'b) calls) \<Rightarrow> ('e, 'b) calls" where
  "call_then m k log = Option.bind (m log) (\<lambda>(r, log'). case r of Inl e \<Rightarrow> Some (Inl e, log') | Inr a \<Rightarrow> k a log')"

definition call_ended :: "invocation \<Rightarrow> guid \<Rightarrow> call_result \<Rightarrow> (rpc_error + response_message) option" where
  "call_ended iv request_id ended =
     (case ended of
        Answered response \<Rightarrow> Some (Inr response)
      | Failed_response e \<Rightarrow> Some (Inl (Rpc_response (iv_service iv) (iv_method iv) e))
      | Connection_closed \<Rightarrow> Some (Inl (Rpc_connection_closed request_id))
      | Timed_out _ \<Rightarrow>
          Some (Inl (Rpc_timeout (iv_service iv) (iv_method iv) (case iv_timeout iv of Some t \<Rightarrow> t | None \<Rightarrow> 0)))
      | Abandoned _ \<Rightarrow> None)"

definition invoke_raw :: "proxy \<Rightarrow> invocation \<Rightarrow> (rpc_error, response_message) calls" where
  "invoke_raw px iv log =
     map_option (\<lambda>r. (r, log @ [iv])) (call_ended iv (px_ids px (length log)) (px_result px (length log) iv))"

definition response_decode_body :: "(bytes \<Rightarrow> string + 'a) \<Rightarrow> string \<Rightarrow> response_message \<Rightarrow> rpc_error + 'a" where
  "response_decode_body prost message_name r =
     (case rm_body r of
        None \<Rightarrow> Inl (Rpc_protocol (No_body_part message_name))
      | Some body \<Rightarrow> (case prost body of Inl e \<Rightarrow> Inl (Rpc_decode message_name e) | Inr x \<Rightarrow> Inr x))"

definition invoke ::
  "proxy \<Rightarrow> string \<Rightarrow> request_body \<Rightarrow> bytes list \<Rightarrow> nat \<Rightarrow> string \<Rightarrow> (bytes \<Rightarrow> string + 'a) \<Rightarrow> (rpc_error, 'a \<times> bytes list) calls" where
  "invoke px name body attachments timeout message_name prost =
     call_then (invoke_raw px \<lparr>iv_service = API_SERVICE, iv_method = ascii name, iv_body = body,
         iv_attachments = attachments, iv_timeout = Some timeout\<rparr>) (\<lambda>response.
     call_return (and_then (response_decode_body prost message_name response) (\<lambda>x. Inr (x, rm_attachments response))))"

definition discover_proxies :: "proxy \<Rightarrow> bytes option \<Rightarrow> nat option \<Rightarrow> (rpc_error, bytes list) calls" where
  "discover_proxies px role timeout =
     call_then (invoke_raw px \<lparr>iv_service = DISCOVERY_SERVICE, iv_method = ascii ''DiscoverProxies'',
         iv_body = Discover_request role, iv_attachments = [], iv_timeout = timeout\<rparr>) (\<lambda>response.
     call_return (response_decode_body (px_discovered px) ''TRspDiscoverProxies'' response))"

section \<open>The client\<close>

record rpc_client =
  rc_timeout :: nat

definition rpc_client_connect :: "nat option \<Rightarrow> rpc_error + unit \<Rightarrow> rpc_error + rpc_client" where
  "rpc_client_connect timeout connected =
     and_then connected (\<lambda>_. Inr \<lparr>rc_timeout = (case timeout of Some t \<Rightarrow> t | None \<Rightarrow> RPC_DEFAULT_TIMEOUT)\<rparr>)"

definition client_discover_proxies :: "proxy \<Rightarrow> rpc_client \<Rightarrow> bytes option \<Rightarrow> (rpc_error, bytes list) calls" where
  "client_discover_proxies px cl role = discover_proxies px role (Some (rc_timeout cl))"

record rpc_transaction =
  rt_id :: guid
  rt_start_timestamp :: u64
  rt_finished :: bool

definition rpc_start_transaction :: "proxy \<Rightarrow> rpc_client \<Rightarrow> transaction_type \<Rightarrow> start_options \<Rightarrow> (rpc_error, rpc_transaction) calls" where
  "rpc_start_transaction px cl ty options =
     call_then (invoke px ''StartTransaction'' (Start_request (start_transaction_request ty options)) [] (rc_timeout cl)
       ''TRspStartTransaction'' (px_started px)) (\<lambda>((i, ts), _).
     call_return (Inr \<lparr>rt_id = i, rt_start_timestamp = ts, rt_finished = False\<rparr>))"

text \<open>A rowset is encoded before its call is made.\<close>

definition with_rowset :: "proxy \<Rightarrow> row list \<Rightarrow> (bytes \<Rightarrow> (rpc_error, 'a) calls) \<Rightarrow> (rpc_error, 'a) calls" where
  "with_rowset px rows k =
     (case encode_rowset (px_reserve px) (map Some rows) of
        Inl e \<Rightarrow> call_return (Inl (Rpc_wire e))
      | Inr attachment \<Rightarrow> k attachment)"

definition named_rows :: "rowset_descriptor \<times> bytes list \<Rightarrow> rpc_error + maybe_row list \<times> bytes list" where
  "named_rows answer' =
     (case answer' of (descriptor, attachments) \<Rightarrow>
        and_then (decode_rowset_attachments attachments (Some descriptor)) (\<lambda>rows.
          Inr (rows, descriptor_column_names descriptor)))"

definition rpc_lookup_rows_with_columns ::
  "proxy \<Rightarrow> rpc_client \<Rightarrow> bytes \<Rightarrow> bytes list \<Rightarrow> row list \<Rightarrow> rpc_lookup_options \<Rightarrow> (rpc_error, maybe_row list \<times> bytes list) calls" where
  "rpc_lookup_rows_with_columns px cl path columns keys options =
     with_rowset px keys (\<lambda>attachment.
     call_then (invoke px ''LookupRows'' (Lookup_request (lookup_request_for path columns options)) [attachment]
       (rc_timeout cl) ''TRspLookupRows'' (px_looked_up px)) (\<lambda>got. call_return (named_rows got)))"

definition rpc_lookup_rows ::
  "proxy \<Rightarrow> rpc_client \<Rightarrow> bytes \<Rightarrow> bytes list \<Rightarrow> row list \<Rightarrow> rpc_lookup_options \<Rightarrow> (rpc_error, maybe_row list) calls" where
  "rpc_lookup_rows px cl path columns keys options =
     with_rowset px keys (\<lambda>attachment.
     call_then (invoke px ''LookupRows'' (Lookup_request (lookup_request_for path columns options)) [attachment]
       (rc_timeout cl) ''TRspLookupRows'' (px_looked_up px)) (\<lambda>(descriptor, attachments).
     call_return (decode_rowset_attachments attachments (Some descriptor))))"

definition rpc_select_rows_with_columns ::
  "proxy \<Rightarrow> rpc_client \<Rightarrow> bytes \<Rightarrow> rpc_select_options \<Rightarrow> (rpc_error, maybe_row list \<times> bytes list) calls" where
  "rpc_select_rows_with_columns px cl query options =
     call_then (invoke px ''SelectRows'' (Select_request (select_request_for query options)) [] (rc_timeout cl)
       ''TRspSelectRows'' (px_selected px)) (\<lambda>got. call_return (named_rows got))"

definition rpc_select_rows :: "proxy \<Rightarrow> rpc_client \<Rightarrow> bytes \<Rightarrow> rpc_select_options \<Rightarrow> (rpc_error, maybe_row list) calls" where
  "rpc_select_rows px cl query options =
     call_then (rpc_select_rows_with_columns px cl query options) (\<lambda>got. call_return (Inr (fst got)))"

section \<open>Transactions\<close>

text \<open>A call in a transaction whose reply says nothing.\<close>

definition told :: "proxy \<Rightarrow> rpc_client \<Rightarrow> string \<Rightarrow> request_body \<Rightarrow> bytes list \<Rightarrow> string \<Rightarrow> (rpc_error, unit) calls" where
  "told px cl name body attachments message_name =
     call_then (invoke px name body attachments (rc_timeout cl) message_name (px_done px message_name)) (\<lambda>_.
     call_return (Inr ()))"

definition tx_ping :: "proxy \<Rightarrow> rpc_client \<Rightarrow> rpc_transaction \<Rightarrow> (rpc_error, unit) calls" where
  "tx_ping px cl tx = told px cl ''PingTransaction'' (Ping_request (rt_id tx)) [] ''TRspPingTransaction''"

text \<open>Ending a transaction consumes it, finished when the call succeeds.\<close>

definition tx_commit :: "proxy \<Rightarrow> rpc_client \<Rightarrow> rpc_transaction \<Rightarrow> (rpc_error, unit) calls" where
  "tx_commit px cl tx = told px cl ''CommitTransaction'' (Commit_request (rt_id tx)) [] ''TRspCommitTransaction''"

definition tx_abort :: "proxy \<Rightarrow> rpc_client \<Rightarrow> rpc_transaction \<Rightarrow> (rpc_error, unit) calls" where
  "tx_abort px cl tx = told px cl ''AbortTransaction'' (Abort_request (rt_id tx)) [] ''TRspAbortTransaction''"

definition tx_is_finished :: "rpc_transaction \<Rightarrow> bool" where
  "tx_is_finished tx = rt_finished tx"

definition tx_lookup_rows ::
  "proxy \<Rightarrow> rpc_client \<Rightarrow> rpc_transaction \<Rightarrow> bytes \<Rightarrow> bytes list \<Rightarrow> row list \<Rightarrow> rpc_lookup_options \<Rightarrow> (rpc_error, maybe_row list) calls" where
  "tx_lookup_rows px cl tx path columns keys options =
     rpc_lookup_rows px cl path columns keys (options\<lparr>rl_timestamp := Some (rt_start_timestamp tx)\<rparr>)"

definition tx_lookup_rows_with_columns ::
  "proxy \<Rightarrow> rpc_client \<Rightarrow> rpc_transaction \<Rightarrow> bytes \<Rightarrow> bytes list \<Rightarrow> row list \<Rightarrow> rpc_lookup_options \<Rightarrow>
   (rpc_error, maybe_row list \<times> bytes list) calls" where
  "tx_lookup_rows_with_columns px cl tx path columns keys options =
     rpc_lookup_rows_with_columns px cl path columns keys (options\<lparr>rl_timestamp := Some (rt_start_timestamp tx)\<rparr>)"

definition tx_select_rows_with_columns ::
  "proxy \<Rightarrow> rpc_client \<Rightarrow> rpc_transaction \<Rightarrow> bytes \<Rightarrow> rpc_select_options \<Rightarrow> (rpc_error, maybe_row list \<times> bytes list) calls" where
  "tx_select_rows_with_columns px cl tx query options =
     rpc_select_rows_with_columns px cl query (options\<lparr>rs_timestamp := Some (rt_start_timestamp tx)\<rparr>)"

definition tx_select_rows ::
  "proxy \<Rightarrow> rpc_client \<Rightarrow> rpc_transaction \<Rightarrow> bytes \<Rightarrow> rpc_select_options \<Rightarrow> (rpc_error, maybe_row list) calls" where
  "tx_select_rows px cl tx query options =
     rpc_select_rows px cl query (options\<lparr>rs_timestamp := Some (rt_start_timestamp tx)\<rparr>)"

definition tx_modify_rows ::
  "proxy \<Rightarrow> rpc_client \<Rightarrow> rpc_transaction \<Rightarrow> bytes \<Rightarrow> bytes list \<Rightarrow> row list \<Rightarrow> row_modification \<Rightarrow> (rpc_error, unit) calls" where
  "tx_modify_rows px cl tx path columns rows modification =
     with_rowset px rows (\<lambda>attachment.
     told px cl ''ModifyRows'' (Modify_request (modify_request_for (rt_id tx) path columns (length rows) modification))
       [attachment] ''TRspModifyRows'')"

definition tx_insert_rows :: "proxy \<Rightarrow> rpc_client \<Rightarrow> rpc_transaction \<Rightarrow> bytes \<Rightarrow> bytes list \<Rightarrow> row list \<Rightarrow> (rpc_error, unit) calls" where
  "tx_insert_rows px cl tx path columns rows = tx_modify_rows px cl tx path columns rows Write_rows"

definition tx_delete_rows :: "proxy \<Rightarrow> rpc_client \<Rightarrow> rpc_transaction \<Rightarrow> bytes \<Rightarrow> bytes list \<Rightarrow> row list \<Rightarrow> (rpc_error, unit) calls" where
  "tx_delete_rows px cl tx path columns keys = tx_modify_rows px cl tx path columns keys Delete_rows"

end
