(* ===== verification/Rpc_Blocking.thy ===== *)
theory Rpc_Blocking
  imports Rpc_Client Api_Table
begin

text \<open>
  \<open>crates/ytsaurus-rpc/src/blocking.rs\<close> and \<open>blocking/convert.rs\<close>: the synchronous client of dynamic tables
  over RPC. Rows name their columns, the wire numbers them through the name table of the request or reply.
  The runtime drives a call to its end, so a result that is \<open>None\<close> (a dropped future) has no counterpart here.
\<close>

section \<open>Rows and wire rows\<close>

fun position :: "'a \<Rightarrow> 'a list \<Rightarrow> nat option" where
  "position x [] = None"
| "position x (y # ys) = (if x = y then Some 0 else map_option Suc (position x ys))"

fun to_wire_value :: "api_value \<Rightarrow> wire_value" where
  "to_wire_value Api_null = Value_Null"
| "to_wire_value (Api_int64 v) = Value_Int64 v"
| "to_wire_value (Api_uint64 v) = Value_Uint64 v"
| "to_wire_value (Api_double v) = Value_Double v"
| "to_wire_value (Api_boolean v) = Value_Boolean v"
| "to_wire_value (Api_string bs) = Value_String bs"
| "to_wire_value (Api_any bs) = Value_Any bs"

fun from_wire_value :: "wire_value \<Rightarrow> api_value" where
  "from_wire_value Value_Null = Api_null"
| "from_wire_value (Value_Int64 v) = Api_int64 v"
| "from_wire_value (Value_Uint64 v) = Api_uint64 v"
| "from_wire_value (Value_Double v) = Api_double v"
| "from_wire_value (Value_Boolean v) = Api_boolean v"
| "from_wire_value (Value_String bs) = Api_string bs"
| "from_wire_value (Value_Any bs) = Api_any bs"
| "from_wire_value (Value_Composite bs) = Api_any bs"

definition column_to_wire :: "bytes list \<Rightarrow> bytes \<times> api_value \<Rightarrow> conversion_refusal + unversioned_value" where
  "column_to_wire columns column =
     (case position (fst column) columns of
        None \<Rightarrow> Inl (Not_in_name_table (fst column) columns)
      | Some i \<Rightarrow>
          if i < 2 ^ 16 then Inr \<lparr>column_id = of_nat i, aggregate = False, wire_value = to_wire_value (snd column)\<rparr>
          else Inl Too_many_columns)"

definition row_to_wire :: "api_row \<Rightarrow> bytes list \<Rightarrow> conversion_refusal + row" where
  "row_to_wire r columns = collect (column_to_wire columns) (row_columns r)"

definition column_from_wire :: "bytes list \<Rightarrow> unversioned_value \<Rightarrow> conversion_refusal + bytes \<times> api_value" where
  "column_from_wire columns value =
     (if unat (column_id value) < length columns
      then Inr (columns ! unat (column_id value), from_wire_value (wire_value value))
      else Inl (Id_beyond_name_table (unat (column_id value)) (length columns)))"

definition row_from_wire :: "row \<Rightarrow> bytes list \<Rightarrow> conversion_refusal + api_row" where
  "row_from_wire r columns =
     and_then (collect (column_from_wire columns) r) (\<lambda>named.
       Inr (fold (\<lambda>(name, v). row_set name v) named api_row_new))"

definition column_names :: "api_row list \<Rightarrow> bytes list" where
  "column_names rows =
     fold (\<lambda>r names. fold (\<lambda>name known. if name \<in> set known then known else known @ [name]) (row_names r) names) rows []"

definition to_wire_rows :: "api_row list \<Rightarrow> bytes list \<Rightarrow> conversion_refusal + row list" where
  "to_wire_rows rows columns = collect (\<lambda>r. row_to_wire r columns) rows"

definition from_wire_rows :: "maybe_row list \<Rightarrow> bytes list \<Rightarrow> conversion_refusal + api_row option list" where
  "from_wire_rows rows columns =
     collect (\<lambda>r. case r of
       Some row \<Rightarrow> and_then (row_from_wire row columns) (\<lambda>named. Inr (Some named))
     | None \<Rightarrow> Inr None) rows"

definition rpc_select_options_for :: "api_select_options \<Rightarrow> rpc_select_options" where
  "rpc_select_options_for options = \<lparr>rs_timestamp = so_timestamp options, rs_limit = so_limit options\<rparr>"

section \<open>The client\<close>

definition rpc_map_error :: "string \<Rightarrow> rpc_error \<Rightarrow> rpc_error api_error" where
  "rpc_map_error operation e =
     (case e of
        Rpc_response _ _ reported \<Rightarrow> Api_cluster (ascii operation) (Some (yt_code reported)) e
      | Rpc_timeout _ _ _ \<Rightarrow> Api_timeout (ascii operation)
      | _ \<Rightarrow> Api_transport (ascii operation) e)"

type_synonym 'a table_calls = "(rpc_error api_error, 'a) calls"

definition mapped_calls :: "string \<Rightarrow> (rpc_error, 'a) calls \<Rightarrow> 'a table_calls" where
  "mapped_calls operation m log =
     map_option (\<lambda>(r, log'). (case r of Inl e \<Rightarrow> Inl (rpc_map_error operation e) | Inr x \<Rightarrow> Inr x, log')) (m log)"

definition converted :: "conversion_refusal + 'a \<Rightarrow> 'a table_calls" where
  "converted r = call_return (case r of Inl e \<Rightarrow> Inl (Api_conversion e) | Inr x \<Rightarrow> Inr x)"

definition blocking_connect :: "nat option \<Rightarrow> rpc_error + unit \<Rightarrow> rpc_error + unit \<Rightarrow> rpc_error api_error + rpc_client" where
  "blocking_connect timeout runtime connected =
     (case runtime of
        Inl e \<Rightarrow> Inl (Api_transport (ascii ''starting a runtime'') e)
      | Inr _ \<Rightarrow>
          (case rpc_client_connect timeout connected of
             Inl e \<Rightarrow> Inl (Api_transport (ascii ''connecting'') e)
           | Inr cl \<Rightarrow> Inr cl))"

definition blocking_transport_kind :: api_transport where "blocking_transport_kind = Rpc_transport"

definition blocking_lookup_rows ::
  "proxy \<Rightarrow> rpc_client \<Rightarrow> bytes \<Rightarrow> api_row list \<Rightarrow> api_lookup_options \<Rightarrow> api_row option list table_calls" where
  "blocking_lookup_rows px cl path keys options =
     (let key_columns = column_names keys
      in call_then (converted (to_wire_rows keys key_columns)) (\<lambda>wire_keys.
         call_then (mapped_calls ''lookup_rows'' (rpc_lookup_rows_with_columns px cl path key_columns wire_keys
           \<lparr>rl_timestamp = lo_timestamp options, rl_columns = lo_columns options\<rparr>)) (\<lambda>(rows, columns).
         converted (from_wire_rows rows columns))))"

text \<open>Null rows of a select are skipped.\<close>

definition selected_rows :: "maybe_row list \<times> bytes list \<Rightarrow> api_row list table_calls" where
  "selected_rows got = (case got of (rows, columns) \<Rightarrow> converted (collect (\<lambda>r. row_from_wire r columns) (present_rows rows)))"

definition blocking_select_rows :: "proxy \<Rightarrow> rpc_client \<Rightarrow> bytes \<Rightarrow> api_select_options \<Rightarrow> api_row list table_calls" where
  "blocking_select_rows px cl query options =
     call_then (mapped_calls ''select_rows'' (rpc_select_rows_with_columns px cl query (rpc_select_options_for options))) selected_rows"

definition blocking_start_transaction :: "proxy \<Rightarrow> rpc_client \<Rightarrow> rpc_transaction table_calls" where
  "blocking_start_transaction px cl =
     mapped_calls ''start_transaction'' (rpc_start_transaction px cl Tablet_type start_options_default)"

section \<open>A transaction\<close>

definition blocking_tx_id :: "rpc_transaction \<Rightarrow> bytes" where
  "blocking_tx_id tx = guid_display (rt_id tx)"

definition blocking_tx_lookup_rows ::
  "proxy \<Rightarrow> rpc_client \<Rightarrow> rpc_transaction \<Rightarrow> bytes \<Rightarrow> api_row list \<Rightarrow> api_lookup_options \<Rightarrow> api_row option list table_calls" where
  "blocking_tx_lookup_rows px cl tx path keys options =
     (let key_columns = column_names keys
      in call_then (converted (to_wire_rows keys key_columns)) (\<lambda>wire_keys.
         call_then (mapped_calls ''lookup_rows'' (tx_lookup_rows_with_columns px cl tx path key_columns wire_keys
           \<lparr>rl_timestamp = None, rl_columns = lo_columns options\<rparr>)) (\<lambda>(rows, columns).
         converted (from_wire_rows rows columns))))"

definition blocking_tx_select_rows ::
  "proxy \<Rightarrow> rpc_client \<Rightarrow> rpc_transaction \<Rightarrow> bytes \<Rightarrow> api_select_options \<Rightarrow> api_row list table_calls" where
  "blocking_tx_select_rows px cl tx query options =
     call_then (mapped_calls ''select_rows'' (tx_select_rows_with_columns px cl tx query (rpc_select_options_for options))) selected_rows"

definition blocking_tx_insert_rows :: "proxy \<Rightarrow> rpc_client \<Rightarrow> rpc_transaction \<Rightarrow> bytes \<Rightarrow> api_row list \<Rightarrow> unit table_calls" where
  "blocking_tx_insert_rows px cl tx path rows =
     (let columns = column_names rows
      in call_then (converted (to_wire_rows rows columns)) (\<lambda>wire_rows.
         mapped_calls ''insert_rows'' (tx_insert_rows px cl tx path columns wire_rows)))"

definition blocking_tx_delete_rows :: "proxy \<Rightarrow> rpc_client \<Rightarrow> rpc_transaction \<Rightarrow> bytes \<Rightarrow> api_row list \<Rightarrow> unit table_calls" where
  "blocking_tx_delete_rows px cl tx path keys =
     (let columns = column_names keys
      in call_then (converted (to_wire_rows keys columns)) (\<lambda>wire_keys.
         mapped_calls ''delete_rows'' (tx_delete_rows px cl tx path columns wire_keys)))"

definition blocking_tx_ping :: "proxy \<Rightarrow> rpc_client \<Rightarrow> rpc_transaction \<Rightarrow> unit table_calls" where
  "blocking_tx_ping px cl tx = mapped_calls ''ping_transaction'' (tx_ping px cl tx)"

definition blocking_tx_commit :: "proxy \<Rightarrow> rpc_client \<Rightarrow> rpc_transaction \<Rightarrow> unit table_calls" where
  "blocking_tx_commit px cl tx = mapped_calls ''commit_transaction'' (tx_commit px cl tx)"

definition blocking_tx_abort :: "proxy \<Rightarrow> rpc_client \<Rightarrow> rpc_transaction \<Rightarrow> unit table_calls" where
  "blocking_tx_abort px cl tx = mapped_calls ''abort_transaction'' (tx_abort px cl tx)"

section \<open>Writes of their own\<close>

definition blocking_insert_rows :: "proxy \<Rightarrow> rpc_client \<Rightarrow> bytes \<Rightarrow> api_row list \<Rightarrow> unit table_calls" where
  "blocking_insert_rows px cl path rows =
     call_then (blocking_start_transaction px cl) (\<lambda>tx.
     call_then (blocking_tx_insert_rows px cl tx path rows) (\<lambda>_.
     blocking_tx_commit px cl tx))"

definition blocking_delete_rows :: "proxy \<Rightarrow> rpc_client \<Rightarrow> bytes \<Rightarrow> api_row list \<Rightarrow> unit table_calls" where
  "blocking_delete_rows px cl path keys =
     call_then (blocking_start_transaction px cl) (\<lambda>tx.
     call_then (blocking_tx_delete_rows px cl tx path keys) (\<lambda>_.
     blocking_tx_commit px cl tx))"

section \<open>Rows are carried\<close>

lemma position_Some: "position x ys = Some i \<Longrightarrow> i < length ys \<and> ys ! i = x"
  by (induction ys arbitrary: i) (auto split: if_splits)

lemma position_None: "position x ys = None \<longleftrightarrow> x \<notin> set ys"
  by (induction ys) auto

lemma from_to_wire_value [simp]: "from_wire_value (to_wire_value v) = v"
  by (cases v) simp_all

lemma fold_row_set_new: "fold (\<lambda>(name, v). row_set name v) cs api_row_new = \<lparr>row_columns = cs\<rparr>"
proof -
  have "row_columns (fold (\<lambda>(name, v). row_set name v) cs api_row_new) = cs"
    using fold_row_set [of "\<lambda>n. n" "\<lambda>v. v" cs api_row_new] by (simp add: api_row_new_def)
  then show ?thesis by (cases "fold (\<lambda>(name, v). row_set name v) cs api_row_new") simp
qed

text \<open>A row that is numbered by a name table is named by it as it was.\<close>

lemma column_from_to_wire: "column_to_wire columns x = Inr y \<Longrightarrow> column_from_wire columns y = Inr x"
  using position_Some [of "fst x" columns]
  by (cases x) (auto simp: column_to_wire_def column_from_wire_def unat_of_nat split: option.splits if_splits)

lemma row_from_to_wire:
  assumes "row_to_wire r columns = Inr wire"
  shows "row_from_wire wire columns = Inr r"
proof -
  have "list_all2 (\<lambda>x y. column_to_wire columns x = Inr y) (row_columns r) wire"
    using assms unfolding row_to_wire_def by (rule collect_Inr)
  then have "collect (column_from_wire columns) wire = Inr (row_columns r)"
    by (induction rule: list_all2_induct) (simp_all add: column_from_to_wire)
  then show ?thesis by (simp add: row_from_wire_def fold_row_set_new)
qed

lemma rows_from_to_wire:
  "to_wire_rows rows columns = Inr wires \<Longrightarrow> from_wire_rows (map Some wires) columns = Inr (map Some rows)"
  unfolding to_wire_rows_def from_wire_rows_def
  by (induction rows arbitrary: wires) (auto simp: and_then_Inr row_from_to_wire)

lemma length_to_wire_rows: "to_wire_rows rows columns = Inr wires \<Longrightarrow> length wires = length rows"
  unfolding to_wire_rows_def by (auto dest!: collect_Inr simp: list_all2_lengthD)

text \<open>The name table of some rows names all their columns, so only its length can stand against them.\<close>

lemma push_names: "set (fold (\<lambda>name known. if name \<in> set known then known else known @ [name]) ns known) = set known \<union> set ns"
  by (induction ns arbitrary: known) auto

lemma set_column_names: "set (column_names rows) = (\<Union>r \<in> set rows. set (row_names r))"
proof -
  have "set (fold (\<lambda>r names. fold (\<lambda>name known. if name \<in> set known then known else known @ [name]) (row_names r) names) rows names) =
    set names \<union> (\<Union>r \<in> set rows. set (row_names r))" for names
    by (induction rows arbitrary: names) (auto simp: push_names)
  then show ?thesis by (simp add: column_names_def)
qed

lemma collect_Inl: "collect f xs = Inl e \<Longrightarrow> \<exists>x \<in> set xs. f x = Inl e"
  by (induction xs) (auto simp: and_then_Inl)

lemma own_names_refused:
  assumes "to_wire_rows rows (column_names rows) = Inl e"
  shows "e = Too_many_columns \<and> 2 ^ 16 < length (column_names rows)"
proof -
  obtain r where r: "r \<in> set rows" "row_to_wire r (column_names rows) = Inl e"
    using collect_Inl [OF assms [unfolded to_wire_rows_def]] by blast
  obtain nv where nv: "nv \<in> set (row_columns r)" "column_to_wire (column_names rows) nv = Inl e"
    using collect_Inl [OF r(2) [unfolded row_to_wire_def]] by blast
  have "fst nv \<in> set (row_names r)" using nv(1) by (simp add: row_names_def)
  then have "fst nv \<in> set (column_names rows)" unfolding set_column_names using r(1) by blast
  then obtain i where "position (fst nv) (column_names rows) = Some i"
    using position_None [of "fst nv" "column_names rows"] by (cases "position (fst nv) (column_names rows)") simp_all
  then show ?thesis using nv(2) position_Some [of "fst nv" "column_names rows" i]
    by (simp add: column_to_wire_def split: if_splits)
qed

definition rpc_put :: "(nat \<Rightarrow> bool) \<Rightarrow> api_row list \<Rightarrow> (rowset_descriptor \<times> bytes list) option" where
  "rpc_put reserve rows =
     (case to_wire_rows rows (column_names rows) of
        Inl _ \<Rightarrow> None
      | Inr wires \<Rightarrow>
          (case encode_rowset reserve (map Some wires) of
             Inl _ \<Rightarrow> None
           | Inr attachment \<Rightarrow> Some (name_table_descriptor (column_names rows), [attachment])))"

text \<open>A rowset and its descriptor, read as a reply's are.\<close>

definition rpc_take :: "rowset_descriptor \<times> bytes list \<Rightarrow> (rpc_error + conversion_refusal) + api_row option list" where
  "rpc_take got =
     (case named_rows got of
        Inl e \<Rightarrow> Inl (Inl e)
      | Inr (rows, columns) \<Rightarrow> (case from_wire_rows rows columns of Inl e \<Rightarrow> Inl (Inr e) | Inr named \<Rightarrow> Inr named))"

lemma encode_rowset_back: "encode_rowset reserve rows = Inr attachment \<Longrightarrow> decode_rowset attachment = Inr rows"
  using validate_and_measure_iff decode_encode_rowset
  by (fastforce simp: encode_rowset_def split: sum.splits if_splits)

lemma rpc_carried: "rpc_put reserve rows = Some wire \<Longrightarrow> rpc_take wire = Inr (map Some rows)"
proof -
  assume "rpc_put reserve rows = Some wire"
  then obtain wires attachment where wires: "to_wire_rows rows (column_names rows) = Inr wires"
    and a: "encode_rowset reserve (map Some wires) = Inr attachment"
    and wire: "wire = (name_table_descriptor (column_names rows), [attachment])"
    by (auto simp: rpc_put_def split: sum.splits)
  have names: "descriptor_column_names (name_table_descriptor ns) = ns" for ns
    by (simp add: descriptor_column_names_def name_table_descriptor_def comp_def)
  have "decode_rowset_attachments [attachment] (Some (name_table_descriptor (column_names rows))) = Inr (map Some wires)"
    using encode_rowset_back [OF a] by (simp add: decode_rowset_attachments_def name_table_descriptor_def)
  then show ?thesis using rows_from_to_wire [OF wires] by (simp add: rpc_take_def named_rows_def wire names)
qed

text \<open>RPC carries every row it can encode, as it is.\<close>

interpretation rpc_rows: row_carrier "rpc_put reserve" rpc_take "\<lambda>_. True" for reserve
  by unfold_locales (metis rpc_carried list_all2_refl same_columns_def)

section \<open>What is invoked\<close>

text \<open>The body of the reply that a call was answered with.\<close>

definition reply_body :: "proxy \<Rightarrow> nat \<Rightarrow> invocation \<Rightarrow> bytes option" where
  "reply_body px n iv = (case px_result px n iv of Answered response \<Rightarrow> rm_body response | _ \<Rightarrow> None)"

definition api_call :: "rpc_client \<Rightarrow> string \<Rightarrow> request_body \<Rightarrow> bytes list \<Rightarrow> invocation" where
  "api_call cl name body attachments =
     \<lparr>iv_service = API_SERVICE, iv_method = ascii name, iv_body = body, iv_attachments = attachments, iv_timeout = Some (rc_timeout cl)\<rparr>"

lemma call_then_Some:
  "call_then m k log = Some (r, log') \<longleftrightarrow>
     (\<exists>a log1. m log = Some (Inr a, log1) \<and> k a log1 = Some (r, log')) \<or> (\<exists>e. m log = Some (Inl e, log') \<and> r = Inl e)"
proof (cases "m log")
  case (Some x)
  obtain q log1 where "x = (q, log1)" by fastforce
  then show ?thesis using Some by (cases q) (auto simp: call_then_def)
qed (simp add: call_then_def)

lemma call_return_simp [simp]: "call_return r log = Some (r, log)"
  by (simp add: call_return_def)

lemma mapped_calls_Some:
  "mapped_calls operation m log = Some (r, log') \<longleftrightarrow>
     (\<exists>q. m log = Some (q, log') \<and> r = (case q of Inl e \<Rightarrow> Inl (rpc_map_error operation e) | Inr x \<Rightarrow> Inr x))"
  by (auto simp: mapped_calls_def)

text \<open>A typed call is one invocation, and succeeds exactly when its reply has a body that is read.\<close>

lemma invoke_one:
  assumes "invoke px name body attachments (rc_timeout cl) message_name prost log = Some (r, log')"
  shows "log' = log @ [api_call cl name body attachments]"
    and "r = Inr (x, rest) \<Longrightarrow> \<exists>b. reply_body px (length log) (api_call cl name body attachments) = Some b \<and> prost b = Inr x"
    and "isl r \<Longrightarrow> reply_body px (length log) (api_call cl name body attachments) = Some b \<Longrightarrow> isl (prost b)"
  using assms
  by (auto simp: invoke_def call_then_Some invoke_raw_def call_ended_def api_call_def [symmetric] reply_body_def
      response_decode_body_def and_then_Inr and_then_Inl split: call_result.splits option.splits sum.splits)

lemma told_one:
  assumes "told px cl name body attachments message_name log = Some (r, log')"
  shows "log' = log @ [api_call cl name body attachments]"
    and "r = Inr () \<longleftrightarrow>
      (\<exists>b. reply_body px (length log) (api_call cl name body attachments) = Some b \<and> px_done px message_name b = Inr ())"
proof -
  obtain q where q: "invoke px name body attachments (rc_timeout cl) message_name (px_done px message_name) log = Some (q, log')"
    and r: "r = (case q of Inl e \<Rightarrow> Inl e | Inr _ \<Rightarrow> Inr ())"
    using assms by (fastforce simp: told_def call_then_Some)
  show "log' = log @ [api_call cl name body attachments]" by (rule invoke_one(1) [OF q])
  show "r = Inr () \<longleftrightarrow>
      (\<exists>b. reply_body px (length log) (api_call cl name body attachments) = Some b \<and> px_done px message_name b = Inr ())"
    using invoke_one(2,3) [OF q] r by (cases q) fastforce+
qed

text \<open>The one message of a modification: its rows as they are put on the wire, and a type for each.\<close>

definition modification_call ::
  "rpc_client \<Rightarrow> guid \<Rightarrow> bytes \<Rightarrow> i32 list \<Rightarrow> rowset_descriptor \<times> bytes list \<Rightarrow> invocation" where
  "modification_call cl transaction path types wire =
     api_call cl ''ModifyRows'' (Modify_request \<lparr>mq_transaction = transaction, mq_path = path, mq_descriptor = fst wire,
       mq_types = types\<rparr>) (snd wire)"

lemma modify_rows_one:
  assumes "(let columns = column_names rows
    in call_then (converted (to_wire_rows rows columns)) (\<lambda>wire_rows.
       mapped_calls operation (tx_modify_rows px cl tx path columns wire_rows modification))) log = Some (r, log')"
  shows "(case rpc_put (px_reserve px) rows of
      None \<Rightarrow> isl r \<and> log' = log
    | Some wire \<Rightarrow>
        (let m = modification_call cl (rt_id tx) path (replicate (length rows) (row_modification_number modification)) wire
         in log' = log @ [m] \<and>
           (r = Inr () \<longleftrightarrow> (\<exists>b. reply_body px (length log) m = Some b \<and> px_done px ''TRspModifyRows'' b = Inr ()))))"
proof (cases "to_wire_rows rows (column_names rows)")
  case (Inl e)
  then show ?thesis using assms by (auto simp: call_then_def converted_def rpc_put_def)
next
  case (Inr wires)
  show ?thesis
  proof (cases "encode_rowset (px_reserve px) (map Some wires)")
    case (Inl e)
    then show ?thesis using assms Inr
      by (auto simp: call_then_def converted_def rpc_put_def mapped_calls_def tx_modify_rows_def with_rowset_def)
  next
    case (Inr attachment)
    let ?body = "Modify_request (modify_request_for (rt_id tx) path (column_names rows) (length wires) modification)"
    obtain q where q: "told px cl ''ModifyRows'' ?body [attachment] ''TRspModifyRows'' log = Some (q, log')"
      and r: "r = (case q of Inl e \<Rightarrow> Inl (rpc_map_error operation e) | Inr x \<Rightarrow> Inr x)"
      using assms Inr \<open>to_wire_rows rows (column_names rows) = Inr wires\<close>
      by (auto simp: call_then_def converted_def mapped_calls_Some tx_modify_rows_def with_rowset_def)
    have "(r = Inr ()) = (q = Inr ())" using r by (cases q) simp_all
    then show ?thesis
      using told_one [OF q] Inr \<open>to_wire_rows rows (column_names rows) = Inr wires\<close>
      by (simp add: rpc_put_def modification_call_def modify_request_for_def length_to_wire_rows)
  qed
qed

text \<open>Starting a transaction is one call, whose reply names the transaction.\<close>

definition begin_call :: "rpc_client \<Rightarrow> invocation" where
  "begin_call cl =
     api_call cl ''StartTransaction'' (Start_request (start_transaction_request Tablet_type start_options_default)) []"

lemma start_one:
  assumes "blocking_start_transaction px cl log = Some (r, log')"
  shows "log' = log @ [begin_call cl]"
    and "r = Inr tx \<Longrightarrow> \<exists>b ts. reply_body px (length log) (begin_call cl) = Some b \<and> px_started px b = Inr (rt_id tx, ts)"
proof -
  obtain q where q: "invoke px ''StartTransaction'' (Start_request (start_transaction_request Tablet_type start_options_default))
      [] (rc_timeout cl) ''TRspStartTransaction'' (px_started px) log = Some (q, log')"
    and r: "isl r = isl q" "r = Inr tx \<Longrightarrow> \<exists>ts rest. q = Inr ((rt_id tx, ts), rest)"
    using assms
    by (fastforce simp: blocking_start_transaction_def mapped_calls_Some rpc_start_transaction_def call_then_Some)
  show "log' = log @ [begin_call cl]" using invoke_one(1) [OF q] by (simp add: begin_call_def)
  show "\<exists>b ts. reply_body px (length log) (begin_call cl) = Some b \<and> px_started px b = Inr (rt_id tx, ts)" if "r = Inr tx"
    using r(2) [OF that] invoke_one(2) [OF q] by (auto simp: begin_call_def)
qed

section \<open>Properties\<close>

text \<open>C25: a write of its own is one transaction. It is started first; then the rows go in one message, which is
  read back as those rows and has a type for each, in the transaction that the reply named; and that
  transaction is committed when the rows were taken, and not otherwise. The write succeeds exactly when the
  commit is answered.\<close>

theorem rpc_insert_is_one_transaction:
  assumes "blocking_insert_rows px cl path rows log = Some (r, log')"
  shows "(log' = log @ [begin_call cl] \<and> isl r) \<or>
    (\<exists>b i ts wire modify commit.
       reply_body px (length log) (begin_call cl) = Some b \<and> px_started px b = Inr (i, ts) \<and>
       rpc_put (px_reserve px) rows = Some wire \<and> rpc_take wire = Inr (map Some rows) \<and>
       modify = modification_call cl i path (replicate (length rows) 0) wire \<and>
       commit = api_call cl ''CommitTransaction'' (Commit_request i) [] \<and>
       (if \<exists>b. reply_body px (length log + 1) modify = Some b \<and> px_done px ''TRspModifyRows'' b = Inr ()
        then log' = log @ [begin_call cl, modify, commit] \<and>
          (r = Inr () \<longleftrightarrow> (\<exists>b. reply_body px (length log + 2) commit = Some b \<and> px_done px ''TRspCommitTransaction'' b = Inr ()))
        else log' = log @ [begin_call cl, modify] \<and> isl r))"
proof -
  consider (refused) e where "blocking_start_transaction px cl log = Some (Inl e, log')" "r = Inl e"
    | (started) tx log1 where "blocking_start_transaction px cl log = Some (Inr tx, log1)"
        "call_then (blocking_tx_insert_rows px cl tx path rows) (\<lambda>_. blocking_tx_commit px cl tx) log1 = Some (r, log')"
    using assms by (auto simp: blocking_insert_rows_def call_then_Some [of "blocking_start_transaction px cl"])
  then show ?thesis
  proof cases
    case refused
    then show ?thesis using start_one(1) by auto
  next
    case started
    obtain b ts where b: "reply_body px (length log) (begin_call cl) = Some b" "px_started px b = Inr (rt_id tx, ts)"
      using start_one(2) [OF started(1) refl] by blast
    have log1: "log1 = log @ [begin_call cl]" by (rule start_one(1) [OF started(1)])
    obtain q log2 where q: "blocking_tx_insert_rows px cl tx path rows log1 = Some (q, log2)"
      and rest: "isl q \<and> isl r \<and> log' = log2 \<or> q = Inr () \<and> blocking_tx_commit px cl tx log2 = Some (r, log')"
      using started(2) by (auto simp: call_then_Some)
    note one = modify_rows_one [OF q [unfolded blocking_tx_insert_rows_def tx_insert_rows_def]]
    show ?thesis
    proof (cases "rpc_put (px_reserve px) rows")
      case None
      then show ?thesis using one rest log1 by auto
    next
      case (Some wire)
      let ?modify = "modification_call cl (rt_id tx) path (replicate (length rows) 0) wire"
      let ?commit = "api_call cl ''CommitTransaction'' (Commit_request (rt_id tx)) []"
      have log2: "log2 = log @ [begin_call cl, ?modify]" and
        taken: "q = Inr () \<longleftrightarrow> (\<exists>b. reply_body px (length log + 1) ?modify = Some b \<and> px_done px ''TRspModifyRows'' b = Inr ())"
        using one Some log1 by (simp_all add: Let_def)
      have commit: "log' = log2 @ [?commit] \<and>
          (r = Inr () \<longleftrightarrow> (\<exists>b. reply_body px (length log2) ?commit = Some b \<and> px_done px ''TRspCommitTransaction'' b = Inr ()))"
        if c: "blocking_tx_commit px cl tx log2 = Some (r, log')"
      proof -
        obtain p where p: "tx_commit px cl tx log2 = Some (p, log')" "r = (case p of Inl e \<Rightarrow> Inl (rpc_map_error ''commit_transaction'' e) | Inr x \<Rightarrow> Inr x)"
          using c by (auto simp: blocking_tx_commit_def mapped_calls_Some)
        have "(r = Inr ()) = (p = Inr ())" using p(2) by (cases p) simp_all
        then show ?thesis using told_one [OF p(1) [unfolded tx_commit_def]] by simp
      qed
      have "(if q = Inr ()
        then log' = log @ [begin_call cl, ?modify, ?commit] \<and>
          (r = Inr () \<longleftrightarrow> (\<exists>b. reply_body px (length log + 2) ?commit = Some b \<and> px_done px ''TRspCommitTransaction'' b = Inr ()))
        else log' = log @ [begin_call cl, ?modify] \<and> isl r)"
        using rest commit log2 by (cases q) auto
      then show ?thesis using b Some rpc_carried [OF Some] unfolding taken by blast
    qed
  qed
qed

definition sample_proxy :: proxy where
  "sample_proxy =
     \<lparr>px_reserve = (\<lambda>_. True), px_ids = (\<lambda>_. guid_NULL),
      px_result = (\<lambda>_ _. Answered \<lparr>rm_header = \<lparr>rh_request_id = None, rh_error = None\<rparr>, rm_body = Some [], rm_attachments = []\<rparr>),
      px_started = (\<lambda>_. Inr (Guid (replicate 16 7), 9)), px_looked_up = (\<lambda>_. Inl []), px_selected = (\<lambda>_. Inl []),
      px_done = (\<lambda>_ _. Inr ()), px_discovered = (\<lambda>_. Inl [])\<rparr>"

definition sample_api_row :: api_row where
  "sample_api_row = row_set (ascii ''v'') (Api_string [1, 2]) (row_set (ascii ''k'') (Api_int64 5) api_row_new)"

theorem rpc_insert_is_one_transaction_witness:
  "\<exists>m log'. blocking_insert_rows sample_proxy \<lparr>rc_timeout = 1\<rparr> (ascii ''//t'') [sample_api_row] [] = Some (Inr (), log') \<and>
     log' = [begin_call \<lparr>rc_timeout = 1\<rparr>, m, api_call \<lparr>rc_timeout = 1\<rparr> ''CommitTransaction'' (Commit_request (Guid (replicate 16 7))) []]"
proof -
  have "map_option fst (blocking_insert_rows sample_proxy \<lparr>rc_timeout = 1\<rparr> (ascii ''//t'') [sample_api_row] []) = Some (Inr ())"
    by (simp add: blocking_insert_rows_def blocking_start_transaction_def rpc_start_transaction_def blocking_tx_insert_rows_def
        tx_insert_rows_def tx_modify_rows_def blocking_tx_commit_def tx_commit_def told_def invoke_def invoke_raw_def call_ended_def
        call_then_def mapped_calls_def converted_def response_decode_body_def with_rowset_def sample_proxy_def sample_api_row_def
        to_wire_rows_def row_to_wire_def column_to_wire_def column_names_def row_names_def row_set_def api_row_new_def
        encode_rowset_def validate_and_measure_def add_to_rowset_size_def validate_value_def wire_size_def padding_for_def rowset_consts)
  then obtain log' where log': "blocking_insert_rows sample_proxy \<lparr>rc_timeout = 1\<rparr> (ascii ''//t'') [sample_api_row] [] = Some (Inr (), log')"
    by auto
  from rpc_insert_is_one_transaction [OF this] have "\<exists>m. log' = [begin_call \<lparr>rc_timeout = 1\<rparr>, m,
      api_call \<lparr>rc_timeout = 1\<rparr> ''CommitTransaction'' (Commit_request (Guid (replicate 16 7))) []]"
    by (auto simp: sample_proxy_def split: if_splits)
  then show ?thesis using log' by blast
qed

end
