(* ===== verification/Table_Transports.thy ===== *)
theory Table_Transports
  imports Client_Dynamic Rpc_Blocking
begin

text \<open>
  The two transports of dynamic tables beside each other: the rows that one write puts on the wire over
  HTTP and over RPC are the same rows, read as each transport reads rows. What differs is their order of
  columns, which HTTP loses, and a column named twice, of which HTTP sends the last value and RPC both.
\<close>

section \<open>Where they differ\<close>

text \<open>A row with a column named twice reads back with its last value over HTTP, and as it was, so with the
  first, over RPC.\<close>

lemma repeated_column_differs:
  fixes r :: api_row
  defines "r \<equiv> row_set (ascii ''k'') (Api_int64 2) (row_set (ascii ''k'') (Api_int64 1) api_row_new)"
  shows "\<exists>content got wire.
    http_put no_formatters [r] = Some content \<and> fragment_to_rows no_formatters content = Inr [Some got] \<and>
    row_get got (ascii ''k'') = Some (Api_int64 2) \<and>
    rpc_put (\<lambda>_. True) [r] = Some wire \<and> rpc_take wire = Inr [Some r] \<and> row_get r (ascii ''k'') = Some (Api_int64 1)"
proof -
  let ?v = "plain (Map [(ascii ''k'', plain (Int64 2))])"
  have k: "ascii ''k'' = [0x6B]" by (simp add: ascii_def)
  have "collect row_to_yson [r] = Inr [?v]"
    by (simp add: r_def row_set_def api_row_new_def row_to_yson_def yson_map_def btree_extend_def yson_int_def)
  then have put: "http_put no_formatters [r] = Some (row_fragment no_formatters [?v])"
    by (simp add: http_put_def rows_to_fragment_grammar)
  have "list_all Client_Fragments.row_ok [?v]"
    by (simp add: Client_Fragments.row_ok_def btree_wf_def plain_key_def binary_ok_def ascii_def)
  note take = fragment_back [OF this, of no_formatters no_formatters]
  have row: "yson_to_row no_formatters ?v = Some (row_set (ascii ''k'') (Api_int64 2) api_row_new)"
    by (simp add: yson_to_row_def yson_to_value_def k utf8_chunk_def)
  have "\<exists>wire. rpc_put (\<lambda>_. True) [r] = Some wire"
    by (simp add: rpc_put_def r_def to_wire_rows_def row_to_wire_def column_to_wire_def column_names_def row_names_def row_set_def
        api_row_new_def encode_rowset_def validate_and_measure_def add_to_rowset_size_def validate_value_def wire_size_def rowset_consts)
  then obtain wire where wire: "rpc_put (\<lambda>_. True) [r] = Some wire" by blast
  have "row_get (row_set (ascii ''k'') (Api_int64 2) api_row_new) (ascii ''k'') = Some (Api_int64 2)"
    "row_get r (ascii ''k'') = Some (Api_int64 1)"
    by (simp_all add: row_get_def row_set_def api_row_new_def r_def)
  then show ?thesis using put take row wire rpc_carried [OF wire] by auto
qed

section \<open>Properties\<close>



end
