(* ===== verification/Spec2Isabelle.thy ===== *)
theory Spec2Isabelle
  imports Rpc_Crc64 Rpc_Guid Rpc_Packet Rpc_Rowset Yson_Properties Skiff_Schema Skiff_Stream Job_Groups Job_Tables Rpc_Delivery Client_Fragments Client_Batch Client_Files Client_Transaction Client_Spec Table_Transports
begin

text \<open>
  A model of ytsaurus-rs, the Rust clients for YTsaurus, and the theorems that make it correct.
  The repository is a set of crates under \<^verbatim>\<open>crates/\<close>; the model follows the layers in which bytes
  become values, the runtime of the jobs that read and write them, the RPC connection, and the
  HTTP client from an address to a finished call.

  \<^bold>\<open>The parts and how they interact.\<close> A client or a worker moves rows in one of two formats, YSON
  (\<^verbatim>\<open>ytsaurus-yson\<close>) and Skiff (\<^verbatim>\<open>ytsaurus-skiff\<close>, whose schema declarations are themselves YSON
  values), or over the RPC proxy (\<^verbatim>\<open>ytsaurus-rpc\<close>), where a rowset is an attachment of a message
  and a message is a packet of the bus, guarded by CRC-64 checksums and named by a GUID. The HTTP
  client (\<^verbatim>\<open>ytsaurus-client\<close>) sends commands whose parameters are YSON to the configured address, or to
  a heavy proxy the cluster names, repeats what may be repeated, and decides itself about redirects.

  \<^bold>\<open>Theories.\<close>
  \<^item> \<^verbatim>\<open>Prelude\<close>: machine integers, results, slices, little-endian integers; \<^verbatim>\<open>Std_Text\<close>: what the code
    uses of Rust's \<^verbatim>\<open>str\<close> parsing and printing; \<^verbatim>\<open>Interfaces\<close>: the contracts \<^verbatim>\<open>prefix_codec\<close>,
    \<^verbatim>\<open>starving_codec\<close> and \<^verbatim>\<open>stream_framer\<close> as locales, with the lemmas their clients use.
  \<^item> \<^verbatim>\<open>Rpc_Crc64\<close> (\<^verbatim>\<open>crc64.rs\<close>): the table and the running checksum, refined to long division of
    polynomials. \<^verbatim>\<open>Rpc_Guid\<close> (\<^verbatim>\<open>guid.rs\<close>). \<^verbatim>\<open>Rpc_Packet\<close> (\<^verbatim>\<open>bus/packet.rs\<close> and the receive loop of
    \<^verbatim>\<open>bus/mod.rs\<close>): encoder, incremental decoder, limits. \<^verbatim>\<open>Rpc_Rowset\<close> (\<^verbatim>\<open>wire.rs\<close>).
  \<^item> \<^verbatim>\<open>Rpc_Envelope\<close> (\<^verbatim>\<open>rpc.rs\<close>, the error tree of \<^verbatim>\<open>error.rs\<close>): requests, cancellations and
    responses over a protobuf library that is a parameter. \<^verbatim>\<open>Rpc_Connection\<close> (\<^verbatim>\<open>connection.rs\<close>): the
    connection as a state and its steps. \<^verbatim>\<open>Transition\<close> holds the locale \<^verbatim>\<open>state_machine\<close>;
    \<^verbatim>\<open>Rpc_Actor\<close> interprets it on the connection and proves the invariants of permits, closing and
    waiters, \<^verbatim>\<open>Rpc_Delivery\<close> those of routing and of the packets sent, and draws the conclusions.
  \<^item> \<^verbatim>\<open>Yson_Types\<close> (\<^verbatim>\<open>node.rs\<close>, \<^verbatim>\<open>error.rs\<close>), \<^verbatim>\<open>Yson_Varint\<close> (\<^verbatim>\<open>varint.rs\<close>), \<^verbatim>\<open>Yson_Lexer\<close>
    (\<^verbatim>\<open>lexer.rs\<close>), \<^verbatim>\<open>Yson_Scan\<close> (\<^verbatim>\<open>scan.rs\<close>), \<^verbatim>\<open>Yson_Ser\<close> (\<^verbatim>\<open>ser.rs\<close>, \<^verbatim>\<open>attributes.rs\<close>), \<^verbatim>\<open>Yson_De\<close>
    (\<^verbatim>\<open>de.rs\<close>, \<^verbatim>\<open>access.rs\<close>). \<^verbatim>\<open>Yson_Roundtrip\<close> states the grammar the serializer writes and, in the
    locale \<^verbatim>\<open>token_format\<close>, what a token encoding must satisfy for values to be read back;
    \<^verbatim>\<open>Yson_Formats\<close> interprets it for the binary and the text format; \<^verbatim>\<open>Yson_Properties\<close> draws the
    conclusions.
  \<^item> \<^verbatim>\<open>Skiff_Schema\<close> (\<^verbatim>\<open>schema.rs\<close>): schema trees, validation, YSON form. \<^verbatim>\<open>Skiff_Wire\<close> and
    \<^verbatim>\<open>Skiff_Stream\<close> (\<^verbatim>\<open>wire.rs\<close>): encoder, decoder, skipping, the row budget, the row streams.
  \<^item> \<^verbatim>\<open>Job_Error\<close> (\<^verbatim>\<open>error.rs\<close>), \<^verbatim>\<open>Job_Reader\<close> (\<^verbatim>\<open>reader.rs\<close>: the buffer, framing, control records,
    reduce groups). \<^verbatim>\<open>Job_Stream\<close>: the specification of the reader on the whole stream, and the proof
    that the reader refines it; \<^verbatim>\<open>Job_Groups\<close>: groups as a cut of the event sequence. \<^verbatim>\<open>Job_Writer\<close>
    (\<^verbatim>\<open>writer.rs\<close>); \<^verbatim>\<open>Job_Tables\<close>: writer and reader together.
  \<^item> \<^verbatim>\<open>Std_Net\<close>: what the client uses of the standard library on addresses. \<^verbatim>\<open>Client_Url\<close> (\<^verbatim>\<open>http.rs\<close>:
    hosts, origins, \<^verbatim>\<open>Location\<close>). \<^verbatim>\<open>Client_Error\<close> (\<^verbatim>\<open>error.rs\<close>). \<^verbatim>\<open>Client_Retry\<close> (\<^verbatim>\<open>retry.rs\<close>): which failures
    are repeated, and how. \<^verbatim>\<open>Client_Transport\<close>, \<^verbatim>\<open>Client_Dispatch\<close>, \<^verbatim>\<open>Client_Heavy\<close> and \<^verbatim>\<open>Client_Call\<close>
    (\<^verbatim>\<open>http.rs\<close>): the transport, one attempt, where a heavy command goes, and a whole call;
    \<^verbatim>\<open>Client_Confinement\<close> and \<^verbatim>\<open>Client_Routing\<close> hold what is proved of an attempt and of the routing.
  \<^item> \<^verbatim>\<open>Client_Path\<close> (\<^verbatim>\<open>path.rs\<close>), \<^verbatim>\<open>Client_Rows\<close> (\<^verbatim>\<open>stream.rs\<close>) and \<^verbatim>\<open>Client_Tables\<close> (the table commands
    of \<^verbatim>\<open>lib.rs\<close>, \<^verbatim>\<open>DataFormat\<close> of \<^verbatim>\<open>ytsaurus-format\<close>): what a table command refuses, sends and checks.
    \<^verbatim>\<open>Client_Selection\<close> states which rows a range selects, after \<^verbatim>\<open>docs/protocol-reference.md\<close>;
    \<^verbatim>\<open>Client_Fragments\<close> holds the check of an answer and the round trip of rows through the commands.
  \<^item> \<^verbatim>\<open>Yson_Utf8\<close>: the text form of a value is UTF-8. \<^verbatim>\<open>Client_Schema\<close> (\<^verbatim>\<open>schema.rs\<close>): table schemas and
    their check. \<^verbatim>\<open>Client_Batch\<close> (\<^verbatim>\<open>batch.rs\<close>, \<^verbatim>\<open>execute_batch\<close> of \<^verbatim>\<open>lib.rs\<close>): several commands in one
    request, cut into requests, and an answer per part.
  \<^item> \<^verbatim>\<open>Client_Session\<close> (\<^verbatim>\<open>lib.rs\<close>): the client, its builders, the environment it is made from, and sessions,
    the commands a program sends one after another. \<^verbatim>\<open>Client_Cypress\<close> (\<^verbatim>\<open>lib.rs\<close>, \<^verbatim>\<open>lock.rs\<close>): nodes, tables,
    links, listings, locks. \<^verbatim>\<open>Client_Worker\<close> (\<^verbatim>\<open>worker.rs\<close>) and \<^verbatim>\<open>Client_Files\<close> (\<^verbatim>\<open>lib.rs\<close>): files, the upload
    of a worker, the file cache, raw commands. \<^verbatim>\<open>Client_Transaction\<close> (\<^verbatim>\<open>transaction.rs\<close>): the handle of a
    transaction, what it sends at its end, and the thread that keeps it alive, again a state machine.
  \<^item> \<^verbatim>\<open>Client_Operations\<close> (\<^verbatim>\<open>operation.rs\<close>, \<^verbatim>\<open>jobs.rs\<close>, \<^verbatim>\<open>lib.rs\<close>): the commands on operations and jobs and
    the readers of their answers; \<^verbatim>\<open>Client_Wait\<close>: waiting for an operation, refined to its polls;
    \<^verbatim>\<open>Client_Spec\<close> (\<^verbatim>\<open>spec.rs\<close>): the specs and the commands that start an operation.
  \<^item> Dynamic tables have one interface for two transports. \<^verbatim>\<open>Api_Table\<close> (\<^verbatim>\<open>ytsaurus-api\<close>): its rows,
    options and errors, and the locale \<^verbatim>\<open>row_carrier\<close>, what a transport of rows promises.
    \<^verbatim>\<open>Client_Dynamic\<close> (\<^verbatim>\<open>dynamic.rs\<close>) is the HTTP one; \<^verbatim>\<open>Rpc_Client\<close> (\<^verbatim>\<open>client.rs\<close>, the typed calls of
    \<^verbatim>\<open>connection.rs\<close>) and \<^verbatim>\<open>Rpc_Blocking\<close> (\<^verbatim>\<open>blocking.rs\<close>, \<^verbatim>\<open>convert.rs\<close>) the RPC one; each interprets
    the locale, and \<^verbatim>\<open>Table_Transports\<close> compares them.

  \<^bold>\<open>State and effects.\<close> A reader is the bytes it has not consumed (or the input and a cursor, as in
  the code), a writer the bytes written, \<^verbatim>\<open>Result\<close> a sum whose left side is the crate's error
  type, with one constructor per error the code builds; \<^verbatim>\<open>?\<close> is \<^verbatim>\<open>and_then\<close>. Loops are recursive
  functions with termination proofs, and the waits of the client, which end only if the clock moves,
  partial functions whose termination is a theorem: no function of the model has fuel. Doubles are their bits.
  The connection is a state machine: one step is what a caller, the writer task, the reader task or
  the removal a dropped call spawned does between two suspension points, and a reachable state is
  any interleaving of such steps from a fresh connection. A call is named by its request id, which
  is assumed fresh (the code draws 128 random bits). Timers are steps that may happen at any time.
  For the HTTP client the network is a function from a request to its answer, a clock a function of
  the number of the request; the routing the clones of a client share is again a state machine. A
  command of a session maps the session before it to its answer and the session after it, which keeps
  the routing and every message sent; a computation of the RPC client keeps the list of its calls.

  \<^bold>\<open>What the lemmas show.\<close> Each codec has a round trip in front of arbitrary following bytes, a
  proof that what the decoder accepts is what the encoder can write, bounds on what a hostile
  input can make it allocate, and a proof that a cut stream is reported as cut. Each decoder of a
  growing buffer is proved independent of how the buffer was cut into reads. Where the code does
  not do what its documentation says, a theorem exhibits it on a concrete input.

  \<^bold>\<open>Bounds.\<close> Nesting is bounded by the code's own limit of 128 levels, Skiff rows by the row budget
  (\<^verbatim>\<open>node_cost\<close> is the compile-time constant \<^verbatim>\<open>size_of::<Value>()\<close>, universally quantified).

  \<^bold>\<open>Not modelled.\<close> Sockets and TLS; dropping a connection, which no call outlives; the
  generated protobuf bindings, a message being the fields the code sets or reads; the derive
  macro, and the Skiff rows, the statistics and the start-up of a job; typed serde visitors (only \<^verbatim>\<open>YsonValue\<close> is a target); the float and integer formatters
  \<^verbatim>\<open>itoa\<close> and \<^verbatim>\<open>ryu\<close>, which are a parameter of the serializer; the JSON parser of error documents, a
  parameter too; root certificates; the texts a client announces to its log. A \<^verbatim>\<open>Read\<close> or \<^verbatim>\<open>Write\<close> of the job runtime
  is the list of its answers, failures and interrupted calls included; an in-memory reader or
  writer of the other crates does not fail.
\<close>

end
